(* ===== verification/Prelude.thy ===== *)
theory Prelude
  imports Main "HOL-Library.Word" "HOL-Library.List_Lexorder"
begin

text \<open>
  Shared vocabulary of the development: the machine integers and byte strings of the
  program, the result type of code that can fault, the sequencing combinators that stand
  for the program's early returns, the ordered map \<open>std::map\<close> as a strictly sorted
  association list behind the interface \<open>ordered_map\<close>, and the binary search of
  \<open>std::lower_bound\<close> and \<open>std::upper_bound\<close>.
\<close>

named_theorems fault_simps \<open>evaluation of the fault combinators\<close>
named_theorems smap_simps \<open>lookup after an operation of the ordered map\<close>

section \<open>Machine integers and strings\<close>

type_synonym u8 = "8 word"
type_synonym u32 = "32 word"
type_synonym u64 = "64 word"

text \<open>A \<open>std::string\<close> is a sequence of bytes; it is compared as \<open>memcmp\<close> does, byte
  by byte without sign, which is the lexicographic order of \<open>u8 list\<close>.\<close>

type_synonym bytes = "u8 list"

section \<open>Results of code that can fault\<close>

text \<open>
  What the source can do instead of returning: \<open>Assert_Abort\<close> is a failed
  \<open>AMDB_ASSERT\<close> (it calls \<open>abort\<close>), \<open>Std_Exception\<close> an exception of the standard
  library (\<open>at\<close>, \<open>stoll\<close>), \<open>Undefined_Behaviour\<close> an access the language does not
  define (a null pointer, the first element of an empty vector, a read past the end), and
  \<open>Diverges\<close> a loop that used up the fuel of its model.
\<close>

datatype fault = Assert_Abort | Std_Exception | Undefined_Behaviour | Diverges

type_synonym 'a res = "fault + 'a"

definition bindR :: "'a res \<Rightarrow> ('a \<Rightarrow> 'b res) \<Rightarrow> 'b res" where
  "bindR m f = (case m of Inl e \<Rightarrow> Inl e | Inr x \<Rightarrow> f x)"

lemma bindR_simps [simp, fault_simps]:
  "bindR (Inl e) f = Inl e"
  "bindR (Inr x) f = f x"
  by (simp_all add: bindR_def)

lemma bindR_Inr_iff: "bindR m f = Inr y \<longleftrightarrow> (\<exists>x. m = Inr x \<and> f x = Inr y)"
  by (cases m) auto

lemma bindR_cong [fundef_cong]:
  "m = m' \<Longrightarrow> (\<And>x. m' = Inr x \<Longrightarrow> f x = f' x) \<Longrightarrow> bindR m f = bindR m' f'"
  by (cases m') auto

definition requireR :: "fault \<Rightarrow> bool \<Rightarrow> unit res" where
  "requireR e b = (if b then Inr () else Inl e)"

lemma requireR_simps [simp, fault_simps]:
  "requireR e True = Inr ()"
  "requireR e False = Inl e"
  by (simp_all add: requireR_def)

fun mapR :: "('a \<Rightarrow> 'b res) \<Rightarrow> 'a list \<Rightarrow> 'b list res" where
  "mapR f [] = Inr []"
| "mapR f (x # xs) = bindR (f x) (\<lambda>y. bindR (mapR f xs) (\<lambda>ys. Inr (y # ys)))"

lemma mapR_cong [fundef_cong]:
  "xs = ys \<Longrightarrow> (\<And>x. x \<in> set ys \<Longrightarrow> f x = g x) \<Longrightarrow> mapR f xs = mapR g ys"
  by (induction xs arbitrary: ys) (auto intro!: bindR_cong)

lemma mapR_total: "(\<And>x. x \<in> set xs \<Longrightarrow> f x = Inr (g x)) \<Longrightarrow> mapR f xs = Inr (map g xs)"
  by (induction xs) auto

lemma list_all2_in: "list_all2 P xs ys \<Longrightarrow> x \<in> set xs \<Longrightarrow> \<exists>y \<in> set ys. P x y"
  by (induction rule: list_all2_induct) auto

section \<open>The ordered map\<close>

text \<open>
  \<open>std::map\<close> with the program's key order is a list of pairs whose keys ascend strictly;
  \<open>emplace\<close> leaves an existing entry alone, \<open>erase\<close> drops one, \<open>find\<close> looks one up.
\<close>

abbreviation smap_ok :: "('k::linorder \<times> 'v) list \<Rightarrow> bool" where
  "smap_ok m \<equiv> sorted_wrt (<) (map fst m)"

fun smap_emplace :: "'k::linorder \<Rightarrow> 'v \<Rightarrow> ('k \<times> 'v) list \<Rightarrow> ('k \<times> 'v) list" where
  "smap_emplace k v [] = [(k, v)]"
| "smap_emplace k v ((k', v') # m) =
     (if k < k' then (k, v) # (k', v') # m
      else if k = k' then (k', v') # m
      else (k', v') # smap_emplace k v m)"

fun smap_erase :: "'k::linorder \<Rightarrow> ('k \<times> 'v) list \<Rightarrow> ('k \<times> 'v) list" where
  "smap_erase k [] = []"
| "smap_erase k ((k', v') # m) = (if k = k' then m else (k', v') # smap_erase k m)"

definition smap_find :: "'k::linorder \<Rightarrow> ('k \<times> 'v) list \<Rightarrow> 'v option" where
  "smap_find k m = map_of m k"

definition smap_lower_bound :: "'k::linorder \<Rightarrow> ('k \<times> 'v) list \<Rightarrow> ('k \<times> 'v) list" where
  "smap_lower_bound k m = dropWhile (\<lambda>(k', _). k' < k) m"

definition smap_upper_bound :: "'k::linorder \<Rightarrow> ('k \<times> 'v) list \<Rightarrow> ('k \<times> 'v) list" where
  "smap_upper_bound k m = dropWhile (\<lambda>(k', _). k' \<le> k) m"

lemma set_keys_emplace [simp]:
  "set (map fst (smap_emplace k v m)) = insert k (set (map fst m))"
  by (induction k v m rule: smap_emplace.induct) auto

lemma smap_ok_emplace: "smap_ok m \<Longrightarrow> smap_ok (smap_emplace k v m)"
proof (induction k v m rule: smap_emplace.induct)
  case (2 k v k' v' m)
  have "fst ` set (smap_emplace k v m) = insert k (fst ` set m)"
    using set_keys_emplace [of k v m] by simp
  with 2 show ?case by auto
qed simp

lemma smap_ok_not_Cons: "smap_ok ((k, v) # m) \<Longrightarrow> map_of m k = None"
  by (auto simp: map_of_eq_None_iff)

lemma map_of_emplace [smap_simps]:
  "smap_ok m \<Longrightarrow> map_of (smap_emplace k v m) =
     (case map_of m k of None \<Rightarrow> (map_of m)(k \<mapsto> v) | Some _ \<Rightarrow> map_of m)"
proof (induction k v m rule: smap_emplace.induct)
  case (2 k v k' v' m)
  consider "k < k'" | "k = k'" | "k' < k" by fastforce
  then show ?case
  proof cases
    case 1
    with 2 have "map_of m k = None" by (force simp: map_of_eq_None_iff)
    with 1 show ?thesis by auto
  next
    case 3
    with 2 show ?thesis by (auto split: option.splits)
  qed auto
qed auto

lemma set_keys_erase: "set (map fst (smap_erase k m)) \<subseteq> set (map fst m)"
  by (induction k m rule: smap_erase.induct) auto

lemma smap_ok_erase: "smap_ok m \<Longrightarrow> smap_ok (smap_erase k m)"
proof (induction k m rule: smap_erase.induct)
  case (2 k k' v' m)
  have "fst ` set (smap_erase k m) \<subseteq> fst ` set m"
    using set_keys_erase [of k m] by simp
  with 2 show ?case by fastforce
qed simp

lemma map_of_erase [smap_simps]:
  "smap_ok m \<Longrightarrow> map_of (smap_erase k m) = (map_of m)(k := None)"
proof (induction k m rule: smap_erase.induct)
  case (2 k k' v' m)
  show ?case
  proof (cases "k = k'")
    case True
    with 2(2) have "map_of m k = None" by (simp add: smap_ok_not_Cons)
    with True show ?thesis by auto
  next
    case False
    with 2 show ?thesis by auto
  qed
qed auto

text \<open>\<open>emplace\<close> where its position is known: behind all entries, or on an entry.\<close>

lemma smap_emplace_last:
  "(\<And>k'. k' \<in> fst ` set m \<Longrightarrow> k' < k) \<Longrightarrow> smap_emplace k v m = m @ [(k, v)]"
  by (induction k v m rule: smap_emplace.induct) (force simp: not_less_iff_gr_or_eq)+

lemma smap_emplace_present:
  "smap_ok m \<Longrightarrow> k \<in> fst ` set m \<Longrightarrow> smap_emplace k v m = m"
  by (induction k v m rule: smap_emplace.induct) auto

lemma smap_emplace_append1:
  "(\<And>k'. k' \<in> fst ` set m \<Longrightarrow> k' < k) \<Longrightarrow> smap_emplace k v (m @ m') = m @ smap_emplace k v m'"
  by (induction k v m rule: smap_emplace.induct) (force simp: not_less_iff_gr_or_eq)+

lemma smap_emplace_append2:
  "(\<And>k'. k' \<in> fst ` set m' \<Longrightarrow> k < k') \<Longrightarrow> smap_emplace k v (m @ m') = smap_emplace k v m @ m'"
proof (induction k v m rule: smap_emplace.induct)
  case (1 k v)
  then show ?case by (cases m') auto
qed auto

lemma smap_erase_append1:
  "k \<notin> fst ` set m \<Longrightarrow> smap_erase k (m @ m') = m @ smap_erase k m'"
  by (induction k m rule: smap_erase.induct) auto

lemma smap_erase_append2:
  "k \<in> fst ` set m \<Longrightarrow> smap_erase k (m @ m') = smap_erase k m @ m'"
  by (induction k m rule: smap_erase.induct) auto

lemma smap_erase_absent: "k \<notin> fst ` set m \<Longrightarrow> smap_erase k m = m"
  by (induction k m rule: smap_erase.induct) auto

lemma set_emplace: "set (smap_emplace k v m) \<subseteq> insert (k, v) (set m)"
  by (induction k v m rule: smap_emplace.induct) auto

lemma set_erase: "set (smap_erase k m) \<subseteq> set m"
  by (induction k m rule: smap_erase.induct) auto

lemma smap_emplace_ne [simp]: "smap_emplace k v m \<noteq> []"
  by (induction k v m rule: smap_emplace.induct) auto

lemma length_emplace: "k \<notin> fst ` set m \<Longrightarrow> length (smap_emplace k v m) = Suc (length m)"
  by (induction k v m rule: smap_emplace.induct) auto

lemma smap_find_in: "smap_find k m \<noteq> None \<longleftrightarrow> k \<in> fst ` set m"
  by (simp add: smap_find_def map_of_eq_None_iff)

text \<open>The ends of a map after an insertion and an erasure.\<close>

lemma hd_emplace: "smap_ok m \<Longrightarrow> m \<noteq> [] \<Longrightarrow>
    fst (hd (smap_emplace k v m)) = (if k < fst (hd m) then k else fst (hd m))"
  by (cases m) auto

lemma last_emplace: "smap_ok m \<Longrightarrow> m \<noteq> [] \<Longrightarrow>
    fst (last (smap_emplace k v m)) = (if fst (last m) < k then k else fst (last m))"
proof (induction k v m rule: smap_emplace.induct)
  case (2 k v k' v' m)
  show ?case
  proof (cases "m = []")
    case False
    then have "k' < fst (last m)" using 2(2) by (simp add: last_in_set)
    then have "k \<le> k' \<Longrightarrow> \<not> fst (last m) < k" by simp
    with 2 False show ?thesis by (cases "k \<le> k'") auto
  qed auto
qed simp

lemma hd_erase: "smap_ok m \<Longrightarrow> m \<noteq> [] \<Longrightarrow> k \<noteq> fst (hd m) \<Longrightarrow>
    smap_erase k m \<noteq> [] \<and> hd (smap_erase k m) = hd m"
  by (cases m) auto

lemma last_erase: "m \<noteq> [] \<Longrightarrow> k \<noteq> fst (last m) \<Longrightarrow>
    smap_erase k m \<noteq> [] \<and> last (smap_erase k m) = last m"
  by (induction k m rule: smap_erase.induct) (auto split: if_splits)

text \<open>An ordered map over a concatenation.\<close>

lemma smap_ok_append: "smap_ok (a @ b) \<longleftrightarrow>
    smap_ok a \<and> smap_ok b \<and> (\<forall>k \<in> fst ` set a. \<forall>k' \<in> fst ` set b. k < k')"
  by (auto simp: sorted_wrt_append)

locale ordered_map =
  fixes emplace :: "'k::linorder \<Rightarrow> 'v \<Rightarrow> 'm \<Rightarrow> 'm"
    and erase :: "'k \<Rightarrow> 'm \<Rightarrow> 'm"
    and find :: "'k \<Rightarrow> 'm \<Rightarrow> 'v option"
    and ok :: "'m \<Rightarrow> bool"
  assumes ok_emplace: "ok m \<Longrightarrow> ok (emplace k v m)"
    and ok_erase: "ok m \<Longrightarrow> ok (erase k m)"
    and find_emplace: "ok m \<Longrightarrow> find k' (emplace k v m) =
      (if k' = k \<and> find k m = None then Some v else find k' m)"
    and find_erase: "ok m \<Longrightarrow> find k' (erase k m) = (if k' = k then None else find k' m)"
begin

lemma emplace_keeps: "ok m \<Longrightarrow> find k m = Some w \<Longrightarrow> find k (emplace k v m) = Some w"
  by (simp add: find_emplace)

lemma erase_emplace_fresh:
  "ok m \<Longrightarrow> find k m = None \<Longrightarrow> find k' (erase k (emplace k v m)) = find k' m"
  by (simp add: find_erase ok_emplace find_emplace)

end

interpretation smap: ordered_map smap_emplace smap_erase smap_find smap_ok
  by unfold_locales
    (auto simp: smap_find_def smap_ok_emplace smap_ok_erase smap_simps split: option.splits)

section \<open>Binary search\<close>

text \<open>
  The loop of \<open>std::lower_bound\<close>: the range starts at \<open>first\<close> and has \<open>len\<close> elements;
  while it is not empty its middle is probed, and the range continues after the middle
  where the predicate holds and before it where it does not.
\<close>

function bsearch :: "('a \<Rightarrow> bool) \<Rightarrow> 'a list \<Rightarrow> nat \<Rightarrow> nat \<Rightarrow> nat" where
  "bsearch p xs first len =
     (if len = 0 then first
      else let half = len div 2; mid = first + half in
        if p (xs ! mid) then bsearch p xs (mid + 1) (len - half - 1)
        else bsearch p xs first half)"
  by pat_completeness auto
termination
  by (relation "measure (\<lambda>(p, xs, first, len). len)") auto

declare bsearch.simps [simp del]

definition std_partition_point :: "('a \<Rightarrow> bool) \<Rightarrow> 'a list \<Rightarrow> nat" where
  "std_partition_point p xs = bsearch p xs 0 (length xs)"

lemma bsearch_partition:
  assumes "n \<le> length xs" "\<And>i. i < n \<Longrightarrow> p (xs ! i)"
    "\<And>i. n \<le> i \<Longrightarrow> i < length xs \<Longrightarrow> \<not> p (xs ! i)"
    "first \<le> n" "n \<le> first + len" "first + len \<le> length xs"
  shows "bsearch p xs first len = n"
  using assms
proof (induction p xs first len rule: bsearch.induct)
  case (1 p xs first len)
  show ?case
  proof (cases "len = 0")
    case True
    with 1 show ?thesis by (simp add: bsearch.simps [of p xs first])
  next
    case False
    let ?mid = "first + len div 2"
    show ?thesis
    proof (cases "p (xs ! ?mid)")
      case True
      then have "?mid < n"
        using 1(5) [of ?mid] 1(8) False by (meson add_less_mono1 le_less_linear less_le_trans
            add_strict_left_mono div_less_dividend nat_neq_iff one_less_numeral_iff semiring_norm(76) not_gr_zero)
      with True False 1 show ?thesis
        by (simp add: bsearch.simps [of p xs first len] Let_def)
    next
      case np: False
      then have "n \<le> ?mid" using 1(4) not_less by blast
      with np False 1 show ?thesis
        by (simp add: bsearch.simps [of p xs first len] Let_def)
    qed
  qed
qed

lemma std_partition_point_eq:
  assumes "\<And>i j. i < j \<Longrightarrow> j < length xs \<Longrightarrow> p (xs ! j) \<Longrightarrow> p (xs ! i)"
  shows "std_partition_point p xs = length (takeWhile p xs)"
proof -
  let ?n = "length (takeWhile p xs)"
  have le: "?n \<le> length xs" by (rule length_takeWhile_le)
  have lo: "p (xs ! i)" if "i < ?n" for i
    using that by (metis nth_mem set_takeWhileD takeWhile_nth)
  have hi: "\<not> p (xs ! i)" if "?n \<le> i" "i < length xs" for i
  proof
    assume "p (xs ! i)"
    then have "p (xs ! ?n)"
      using assms [of ?n i] that by (cases "?n = i") auto
    moreover have "\<not> p (xs ! ?n)"
      using that by (intro nth_length_takeWhile) simp
    ultimately show False by simp
  qed
  from le lo hi show ?thesis
    unfolding std_partition_point_def by (intro bsearch_partition) auto
qed

section \<open>Decimal numbers\<close>

text \<open>
  \<open>std::to_string\<close> on a non-negative number and \<open>std::stoll\<close>: leading white space and a sign
  are accepted, the digits end at the first other character, and the absence of a digit or a
  value outside \<open>long long\<close> is an exception.
\<close>

fun dec_of_nat :: "nat \<Rightarrow> bytes" where
  "dec_of_nat n =
     (if n < 10 then [of_nat (48 + n)]
      else dec_of_nat (n div 10) @ [of_nat (48 + n mod 10)])"

declare dec_of_nat.simps [simp del]

definition dec_of_int :: "int \<Rightarrow> bytes" where
  "dec_of_int i = (if i < 0 then 45 # dec_of_nat (nat (- i)) else dec_of_nat (nat i))"

definition is_digit :: "u8 \<Rightarrow> bool" where
  "is_digit b \<longleftrightarrow> 48 \<le> b \<and> b \<le> 57"

definition is_space :: "u8 \<Rightarrow> bool" where
  "is_space b \<longleftrightarrow> b = 32 \<or> (9 \<le> b \<and> b \<le> 13)"

definition digits_value :: "bytes \<Rightarrow> nat" where
  "digits_value ds = foldl (\<lambda>acc d. acc * 10 + (unat d - 48)) 0 ds"

definition std_stoll :: "bytes \<Rightarrow> int res" where
  "std_stoll s =
     (let s1 = dropWhile is_space s;
          neg = (s1 \<noteq> [] \<and> hd s1 = 45);
          s2 = (if s1 \<noteq> [] \<and> (hd s1 = 45 \<or> hd s1 = 43) then tl s1 else s1);
          ds = takeWhile is_digit s2;
          v = (if neg then - int (digits_value ds) else int (digits_value ds))
      in if ds = [] \<or> v < - (2 ^ 63) \<or> 2 ^ 63 \<le> v then Inl Std_Exception else Inr v)"

lemma unat_digit: "d < 10 \<Longrightarrow> unat (of_nat (48 + d) :: u8) = 48 + d"
  by (simp only: unat_of_nat) simp

lemma is_digit_of_nat: "d < 10 \<Longrightarrow> is_digit (of_nat (48 + d))"
  unfolding is_digit_def word_le_nat_alt unat_digit by simp

lemma dec_of_nat_digits: "b \<in> set (dec_of_nat n) \<Longrightarrow> is_digit b"
proof (induction n rule: dec_of_nat.induct)
  case (1 n)
  show ?case
  proof (cases "n < 10")
    case True
    with 1(2) show ?thesis by (simp add: dec_of_nat.simps [of n] is_digit_of_nat del: of_nat_add)
  next
    case False
    with 1(2) have "b \<in> set (dec_of_nat (n div 10)) \<or> b = of_nat (48 + n mod 10)"
      by (auto simp: dec_of_nat.simps [of n])
    with 1(1) False show ?thesis by (auto simp del: of_nat_add intro: is_digit_of_nat)
  qed
qed

lemma dec_of_nat_ne [simp]: "dec_of_nat n \<noteq> []"
  by (simp add: dec_of_nat.simps [of n])

lemma digits_value_dec [simp]: "digits_value (dec_of_nat n) = n"
proof (induction n rule: dec_of_nat.induct)
  case (1 n)
  show ?case
  proof (cases "n < 10")
    case True
    then show ?thesis
      using unat_digit [of n] by (simp add: dec_of_nat.simps [of n] digits_value_def del: of_nat_add)
  next
    case False
    with 1 have "digits_value (dec_of_nat (n div 10)) = n div 10" by simp
    with False show ?thesis
      using unat_digit [of "n mod 10"]
      by (simp add: dec_of_nat.simps [of n] digits_value_def del: of_nat_add)
  qed
qed

lemma digit_not_space: "is_digit b \<Longrightarrow> \<not> is_space b \<and> b \<noteq> 45 \<and> b \<noteq> 43"
  by (auto simp: is_digit_def is_space_def word_le_nat_alt)

lemma std_stoll_dec: "n < 2 ^ 63 \<Longrightarrow> std_stoll (dec_of_nat n) = Inr (int n)"
proof -
  assume n: "n < 2 ^ 63"
  have hd: "is_digit (hd (dec_of_nat n))"
    by (rule dec_of_nat_digits [of _ n]) simp
  have dw: "dropWhile is_space (dec_of_nat n) = dec_of_nat n"
    using digit_not_space [OF hd] by (cases "dec_of_nat n") auto
  have tw: "takeWhile is_digit (dec_of_nat n) = dec_of_nat n"
    by (simp add: takeWhile_eq_all_conv dec_of_nat_digits)
  have "int n < 2 ^ 63" using n by simp
  with digit_not_space [OF hd] show ?thesis
    unfolding std_stoll_def Let_def dw by (simp only: tw if_False simp_thms) simp
qed

end
