(* ===== verification/Common.thy ===== *)
theory Common
  imports Prelude
begin

text \<open>
  The vocabulary of \<open>sql/common\<close> and \<open>common/assert.h\<close>: the status codes every operation
  returns, the early return \<open>RETURN_ERR_NOT_OK\<close>, the comparison results of \<open>cmp.h\<close> and the
  byte-string comparison \<open>DataCmp\<close> of \<open>storage/data_cmp.h\<close>.
\<close>

section \<open>Status codes\<close>

datatype status =
  C_OK | C_NOT_FOUND | C_IO_ERROR | C_EAGAIN
| C_STORAGE_ERROR | C_STORAGE_KV_NOT_FOUND | C_STORAGE_ID_GENERATOR_ERROR
| C_BPTREE_ERROR | C_BPTREE_DUPLICATE_KEY | C_BPTREE_ITERATOR_END
| C_BPTREE_ITERATOR_NOT_FOUND | C_BPTREE_ROOT_NODE_ERROR
| C_BPTREE_NODE_DUMP_ERROR | C_BPTREE_NODE_LOAD_ERROR
| C_COLUMN_DESC_ERROR | C_DATABASE_SCHEMA_ERROR | C_TABLE_SCHEMA_ERROR
| C_INDEX_SCHEMA_ERROR | C_DATABASE_NOT_FOUND | C_DATABASE_EXISTED
| C_TABLE_NOT_FOUND | C_TABLE_EXISTE
| C_EXECUTOR_ERROR | C_SYNTAX_ERROR | C_ANALYZE_ERROR

fun status_code :: "status \<Rightarrow> int" where
  "status_code C_OK = 0"
| "status_code C_NOT_FOUND = -1000"
| "status_code C_IO_ERROR = -1001"
| "status_code C_EAGAIN = -1002"
| "status_code C_STORAGE_ERROR = -100001"
| "status_code C_STORAGE_KV_NOT_FOUND = -100002"
| "status_code C_STORAGE_ID_GENERATOR_ERROR = -100003"
| "status_code C_BPTREE_ERROR = -200001"
| "status_code C_BPTREE_DUPLICATE_KEY = -200002"
| "status_code C_BPTREE_ITERATOR_END = -200003"
| "status_code C_BPTREE_ITERATOR_NOT_FOUND = -200004"
| "status_code C_BPTREE_ROOT_NODE_ERROR = -200005"
| "status_code C_BPTREE_NODE_DUMP_ERROR = -200006"
| "status_code C_BPTREE_NODE_LOAD_ERROR = -200007"
| "status_code C_COLUMN_DESC_ERROR = -300001"
| "status_code C_DATABASE_SCHEMA_ERROR = -300002"
| "status_code C_TABLE_SCHEMA_ERROR = -300003"
| "status_code C_INDEX_SCHEMA_ERROR = -300004"
| "status_code C_DATABASE_NOT_FOUND = -300005"
| "status_code C_DATABASE_EXISTED = -300006"
| "status_code C_TABLE_NOT_FOUND = -300007"
| "status_code C_TABLE_EXISTE = -300008"
| "status_code C_EXECUTOR_ERROR = -400001"
| "status_code C_SYNTAX_ERROR = -500001"
| "status_code C_ANALYZE_ERROR = -500002"

text \<open>Distinct statuses have distinct codes, so comparing codes compares statuses.\<close>

lemma status_code_inj: "status_code s = status_code t \<Longrightarrow> s = t"
  by (cases s; cases t) simp_all

text \<open>
  \<open>RETURN_ERR_NOT_OK(m); f\<close>: the status of \<open>m\<close> is returned unless it is \<open>C_OK\<close>. The state
  that \<open>m\<close> produced is kept in both cases, as the source keeps its side effects.
\<close>

definition seq_ok :: "(status \<times> 's) res \<Rightarrow> ('s \<Rightarrow> (status \<times> 's) res) \<Rightarrow> (status \<times> 's) res" where
  "seq_ok m f = bindR m (\<lambda>(st, s). if st = C_OK then f s else Inr (st, s))"

lemma seq_ok_simps [simp, fault_simps]:
  "seq_ok (Inl e) f = Inl e"
  "seq_ok (Inr (C_OK, s)) f = f s"
  "st \<noteq> C_OK \<Longrightarrow> seq_ok (Inr (st, s)) f = Inr (st, s)"
  by (simp_all add: seq_ok_def)

lemma seq_ok_cong [fundef_cong]:
  "m = m' \<Longrightarrow> (\<And>s. m' = Inr (C_OK, s) \<Longrightarrow> f s = f' s) \<Longrightarrow> seq_ok m f = seq_ok m' f'"
  by (cases m') (auto simp: seq_ok_def)

section \<open>Comparisons\<close>

datatype CmpOpt = Cmp_lt | Cmp_le | Cmp_gt | Cmp_ge | Cmp_eq | Cmp_ne

definition IsCmpLt :: "CmpOpt \<Rightarrow> bool" where "IsCmpLt opt \<longleftrightarrow> opt = Cmp_lt"
definition IsCmpLe :: "CmpOpt \<Rightarrow> bool" where "IsCmpLe opt \<longleftrightarrow> opt = Cmp_lt \<or> opt = Cmp_eq"
definition IsCmpGt :: "CmpOpt \<Rightarrow> bool" where "IsCmpGt opt \<longleftrightarrow> opt = Cmp_gt"
definition IsCmpGe :: "CmpOpt \<Rightarrow> bool" where "IsCmpGe opt \<longleftrightarrow> opt = Cmp_gt \<or> opt = Cmp_eq"
definition IsCmpEq :: "CmpOpt \<Rightarrow> bool" where "IsCmpEq opt \<longleftrightarrow> opt = Cmp_eq"
definition IsCmpNe :: "CmpOpt \<Rightarrow> bool" where "IsCmpNe opt \<longleftrightarrow> \<not> IsCmpEq opt"

text \<open>\<open>std::string::compare\<close>: the first differing byte decides, then the lengths.\<close>

fun string_compare :: "bytes \<Rightarrow> bytes \<Rightarrow> int" where
  "string_compare [] [] = 0"
| "string_compare [] (b # bs) = -1"
| "string_compare (a # as) [] = 1"
| "string_compare (a # as) (b # bs) =
     (if a < b then -1 else if b < a then 1 else string_compare as bs)"

definition DataCmp :: "bytes \<Rightarrow> bytes \<Rightarrow> CmpOpt" where
  "DataCmp s1 s2 =
     (let res = string_compare s1 s2 in
      if res < 0 then Cmp_lt else if res > 0 then Cmp_gt else Cmp_eq)"

lemma string_compare_lt: "string_compare s t < 0 \<longleftrightarrow> s < t"
  by (induction s t rule: string_compare.induct) auto

lemma string_compare_gt: "string_compare s t > 0 \<longleftrightarrow> t < s"
  by (induction s t rule: string_compare.induct) auto

lemma string_compare_eq: "string_compare s t = 0 \<longleftrightarrow> s = t"
  by (metis less_irrefl linorder_neqE string_compare_gt string_compare_lt)

lemma DataCmp_eq_if: "DataCmp s t = (if s < t then Cmp_lt else if t < s then Cmp_gt else Cmp_eq)"
  by (simp add: DataCmp_def Let_def string_compare_lt string_compare_gt)

text \<open>The five tests the program makes on a comparison, read as the order of byte strings.\<close>

lemma DataCmp_tests [simp]:
  "IsCmpLt (DataCmp s t) \<longleftrightarrow> s < t"
  "IsCmpLe (DataCmp s t) \<longleftrightarrow> s \<le> t"
  "IsCmpGt (DataCmp s t) \<longleftrightarrow> t < s"
  "IsCmpGe (DataCmp s t) \<longleftrightarrow> t \<le> s"
  "IsCmpEq (DataCmp s t) \<longleftrightarrow> s = t"
  "IsCmpNe (DataCmp s t) \<longleftrightarrow> s \<noteq> t"
  by (auto simp: IsCmpLt_def IsCmpLe_def IsCmpGt_def IsCmpGe_def IsCmpEq_def IsCmpNe_def
      DataCmp_eq_if)

end
