(* ===== verification/ExprValue.thy ===== *)
theory ExprValue
  imports Common
begin

text \<open>
  The typed values of \<open>sql/expression\<close>: the type tags and their sizes
  (\<open>expr_value_type.cc\<close>), the tagged union \<open>ExprValue\<close> with its constructors, accessors and
  copies (\<open>expr_value.cc\<close>), and the comparison of values and value lists (\<open>expr_cmp.h\<close>).

  Signed machine integers are kept as words; \<open>sint\<close> reads them. Floating-point members are
  kept as their bit patterns, and what the program does with them (print, compare) is the
  argument \<open>float_ops\<close>.
\<close>

section \<open>Type tags\<close>

datatype ExprValueType =
  Null | MinInf | Bool | Int8 | UInt8 | Int32 | UInt32 | Int64 | UInt64
| Float32 | Float64 | Float128 | Double | String | MaxInf | Invalid

fun type_code :: "ExprValueType \<Rightarrow> u8" where
  "type_code Null = 0"
| "type_code MinInf = 2"
| "type_code Bool = 10"
| "type_code Int8 = 11"
| "type_code UInt8 = 12"
| "type_code Int32 = 15"
| "type_code UInt32 = 16"
| "type_code Int64 = 17"
| "type_code UInt64 = 18"
| "type_code Float32 = 21"
| "type_code Float64 = 22"
| "type_code Float128 = 23"
| "type_code Double = 25"
| "type_code String = 40"
| "type_code MaxInf = 250"
| "type_code Invalid = 255"

text \<open>The cast of a byte to the enum; a byte outside the enum has no constructor.\<close>

definition type_of_code :: "u8 \<Rightarrow> ExprValueType option" where
  "type_of_code b = List.find (\<lambda>t. type_code t = b)
     [Null, MinInf, Bool, Int8, UInt8, Int32, UInt32, Int64, UInt64,
      Float32, Float64, Float128, Double, String, MaxInf, Invalid]"

lemma type_of_code_type_code [simp]: "type_of_code (type_code t) = Some t"
  by (cases t) (simp_all add: type_of_code_def)

lemma type_code_inj: "type_code s = type_code t \<Longrightarrow> s = t"
  by (metis option.inject type_of_code_type_code)

fun TypeSize :: "ExprValueType \<Rightarrow> u8" where
  "TypeSize Int8 = 1"
| "TypeSize UInt8 = 1"
| "TypeSize Int32 = 4"
| "TypeSize UInt32 = 4"
| "TypeSize Int64 = 8"
| "TypeSize UInt64 = 8"
| "TypeSize String = 12"
| "TypeSize _ = 255"

definition IsVariableSize :: "ExprValueType \<Rightarrow> bool" where
  "IsVariableSize type \<longleftrightarrow> type = String"

section \<open>Values\<close>

text \<open>
  The union \<open>u\<close> holds the member last written; \<open>U_unset\<close> is a union nothing was written to.
  \<open>ev_str\<close> is the string that \<open>var_ptr\<close> owns (\<open>alloc_type\<close> is \<open>String\<close> exactly when there
  is one: \<open>SetVarPtr\<close> is only ever called with that type).
\<close>

datatype uval =
  U_unset | U8 (u8_of: u8) | U32 (u32_of: u32) | U64 (u64_of: u64)
| F32 u32 | F64 u64 | F128 "80 word"

record expr_value =
  ev_type :: ExprValueType
  ev_u :: uval
  ev_str :: "bytes option"

definition NewEmpty :: "ExprValueType \<Rightarrow> expr_value" where
  "NewEmpty type = \<lparr>ev_type = type, ev_u = U_unset, ev_str = None\<rparr>"

definition NewNull :: "ExprValueType \<Rightarrow> expr_value" where
  "NewNull type = \<lparr>ev_type = type, ev_u = U_unset, ev_str = None\<rparr>"

definition NewBool :: "bool \<Rightarrow> expr_value" where
  "NewBool v = (NewEmpty Bool)\<lparr>ev_u := U8 (if v then 1 else 0)\<rparr>"
definition NewInt8 :: "u8 \<Rightarrow> expr_value" where
  "NewInt8 v = (NewEmpty Int8)\<lparr>ev_u := U8 v\<rparr>"
definition NewUInt8 :: "u8 \<Rightarrow> expr_value" where
  "NewUInt8 v = (NewEmpty UInt8)\<lparr>ev_u := U8 v\<rparr>"
definition NewInt32 :: "u32 \<Rightarrow> expr_value" where
  "NewInt32 v = (NewEmpty Int32)\<lparr>ev_u := U32 v\<rparr>"
definition NewUInt32 :: "u32 \<Rightarrow> expr_value" where
  "NewUInt32 v = (NewEmpty UInt32)\<lparr>ev_u := U32 v\<rparr>"
definition NewInt64 :: "u64 \<Rightarrow> expr_value" where
  "NewInt64 v = (NewEmpty Int64)\<lparr>ev_u := U64 v\<rparr>"
definition NewUInt64 :: "u64 \<Rightarrow> expr_value" where
  "NewUInt64 v = (NewEmpty UInt64)\<lparr>ev_u := U64 v\<rparr>"
definition NewFloat32 :: "u32 \<Rightarrow> expr_value" where
  "NewFloat32 v = (NewEmpty Float32)\<lparr>ev_u := F32 v\<rparr>"
definition NewFloat64 :: "u64 \<Rightarrow> expr_value" where
  "NewFloat64 v = (NewEmpty Float64)\<lparr>ev_u := F64 v\<rparr>"
definition NewFloat128 :: "80 word \<Rightarrow> expr_value" where
  "NewFloat128 v = (NewEmpty Float128)\<lparr>ev_u := F128 v\<rparr>"
definition NewDouble :: "u64 \<Rightarrow> expr_value" where
  "NewDouble v = (NewEmpty Double)\<lparr>ev_u := F64 v\<rparr>"
definition NewString :: "bytes \<Rightarrow> expr_value" where
  "NewString v = (NewEmpty String)\<lparr>ev_str := Some v\<rparr>"

text \<open>The accessors abort on another type; reading a union member that is not the one last
  written has no defined value.\<close>

definition expect_type :: "ExprValueType \<Rightarrow> expr_value \<Rightarrow> unit res" where
  "expect_type t v = requireR Assert_Abort (ev_type v = t)"

definition read_u8 :: "expr_value \<Rightarrow> u8 res" where
  "read_u8 v = (case ev_u v of U8 x \<Rightarrow> Inr x | _ \<Rightarrow> Inl Undefined_Behaviour)"
definition read_u32 :: "expr_value \<Rightarrow> u32 res" where
  "read_u32 v = (case ev_u v of U32 x \<Rightarrow> Inr x | _ \<Rightarrow> Inl Undefined_Behaviour)"
definition read_u64 :: "expr_value \<Rightarrow> u64 res" where
  "read_u64 v = (case ev_u v of U64 x \<Rightarrow> Inr x | _ \<Rightarrow> Inl Undefined_Behaviour)"
definition read_f32 :: "expr_value \<Rightarrow> u32 res" where
  "read_f32 v = (case ev_u v of F32 x \<Rightarrow> Inr x | _ \<Rightarrow> Inl Undefined_Behaviour)"
definition read_f64 :: "expr_value \<Rightarrow> u64 res" where
  "read_f64 v = (case ev_u v of F64 x \<Rightarrow> Inr x | _ \<Rightarrow> Inl Undefined_Behaviour)"

definition BoolValue :: "expr_value \<Rightarrow> bool res" where
  "BoolValue v = bindR (expect_type Bool v) (\<lambda>_. bindR (read_u8 v) (\<lambda>x. Inr (x \<noteq> 0)))"
definition Int8Value :: "expr_value \<Rightarrow> u8 res" where
  "Int8Value v = bindR (expect_type Int8 v) (\<lambda>_. read_u8 v)"
definition UInt8Value :: "expr_value \<Rightarrow> u8 res" where
  "UInt8Value v = bindR (expect_type UInt8 v) (\<lambda>_. read_u8 v)"
definition Int32Value :: "expr_value \<Rightarrow> u32 res" where
  "Int32Value v = bindR (expect_type Int32 v) (\<lambda>_. read_u32 v)"
definition UInt32Value :: "expr_value \<Rightarrow> u32 res" where
  "UInt32Value v = bindR (expect_type UInt32 v) (\<lambda>_. read_u32 v)"
definition Int64Value :: "expr_value \<Rightarrow> u64 res" where
  "Int64Value v = bindR (expect_type Int64 v) (\<lambda>_. read_u64 v)"
definition UInt64Value :: "expr_value \<Rightarrow> u64 res" where
  "UInt64Value v = bindR (expect_type UInt64 v) (\<lambda>_. read_u64 v)"
definition FloatValue :: "expr_value \<Rightarrow> u32 res" where
  "FloatValue v = bindR (expect_type Float32 v) (\<lambda>_. read_f32 v)"
definition DoubleValue :: "expr_value \<Rightarrow> u64 res" where
  "DoubleValue v = bindR (expect_type Double v) (\<lambda>_. read_f64 v)"

text \<open>\<open>StringValue\<close> dereferences \<open>var_ptr\<close>.\<close>

definition StringValue :: "expr_value \<Rightarrow> bytes res" where
  "StringValue v = bindR (expect_type String v) (\<lambda>_.
     case ev_str v of None \<Rightarrow> Inl Undefined_Behaviour | Some s \<Rightarrow> Inr s)"

definition Length :: "expr_value \<Rightarrow> nat" where
  "Length v = unat (TypeSize (ev_type v))"

text \<open>
  The copy constructor copies the tag and the union, and duplicates an owned string through
  \<open>StringValue\<close>. The assignment overwrites the tag and the union of the target but keeps a
  string the target owned when the source owns none.
\<close>

definition ExprValue_copy :: "expr_value \<Rightarrow> expr_value res" where
  "ExprValue_copy other =
     (case ev_str other of
        None \<Rightarrow> Inr \<lparr>ev_type = ev_type other, ev_u = ev_u other, ev_str = None\<rparr>
      | Some _ \<Rightarrow> bindR (StringValue other) (\<lambda>s.
          Inr \<lparr>ev_type = ev_type other, ev_u = ev_u other, ev_str = Some s\<rparr>))"

text \<open>Moving hands the string over; the value that is left keeps the rest.\<close>

definition ExprValue_move :: "expr_value \<Rightarrow> expr_value \<times> expr_value" where
  "ExprValue_move other = (other, other\<lparr>ev_str := None\<rparr>)"

definition ExprValue_assign :: "expr_value \<Rightarrow> expr_value \<Rightarrow> expr_value res" where
  "ExprValue_assign this other =
     (let this1 = this\<lparr>ev_type := ev_type other, ev_u := ev_u other\<rparr> in
      case ev_str other of
        None \<Rightarrow> Inr this1
      | Some _ \<Rightarrow> bindR (StringValue other) (\<lambda>s. Inr (this1\<lparr>ev_str := Some s\<rparr>)))"

section \<open>Extreme values\<close>

fun NewMax :: "ExprValueType \<Rightarrow> expr_value" where
  "NewMax Bool = NewUInt8 255"
| "NewMax UInt8 = NewUInt8 255"
| "NewMax Int8 = NewInt8 127"
| "NewMax UInt32 = NewUInt32 4294967295"
| "NewMax Int32 = NewInt32 2147483647"
| "NewMax UInt64 = NewUInt64 18446744073709551615"
| "NewMax Int64 = NewInt64 9223372036854775807"
| "NewMax Float32 = NewFloat32 0x7F7FFFFF"
| "NewMax Float64 = NewFloat64 0x7FEFFFFFFFFFFFFF"
| "NewMax Float128 = NewFloat128 0x7FFEFFFFFFFFFFFFFFFF"
| "NewMax String = (NewEmpty String)\<lparr>ev_str := Some []\<rparr>"
| "NewMax type = NewEmpty type"

fun NewMin :: "ExprValueType \<Rightarrow> expr_value" where
  "NewMin Bool = NewUInt8 0"
| "NewMin UInt8 = NewUInt8 0"
| "NewMin Int8 = NewInt8 128"
| "NewMin UInt32 = NewUInt32 0"
| "NewMin Int32 = NewInt32 2147483648"
| "NewMin UInt64 = NewUInt64 0"
| "NewMin Int64 = (NewEmpty Int64)\<lparr>ev_u := U64 0\<rparr>"
| "NewMin Float32 = (NewEmpty Float32)\<lparr>ev_u := F32 0\<rparr>"
| "NewMin Float64 = (NewEmpty Float64)\<lparr>ev_u := F64 0\<rparr>"
| "NewMin Float128 = (NewEmpty Float128)\<lparr>ev_u := F128 0\<rparr>"
| "NewMin String = (NewEmpty String)\<lparr>ev_str := Some []\<rparr>"
| "NewMin type = NewEmpty type"

section \<open>Printing\<close>

text \<open>What the program does with floating-point numbers, on bit patterns: the tests
  \<open>std::fabs(a - b) < 2 * epsilon\<close> and \<open>a < b\<close>, and \<open>std::to_string\<close>.\<close>

record float_ops =
  f32_near :: "u32 \<Rightarrow> u32 \<Rightarrow> bool"
  f32_less :: "u32 \<Rightarrow> u32 \<Rightarrow> bool"
  f32_to_string :: "u32 \<Rightarrow> bytes"
  f64_near :: "u64 \<Rightarrow> u64 \<Rightarrow> bool"
  f64_less :: "u64 \<Rightarrow> u64 \<Rightarrow> bool"
  f64_to_string :: "u64 \<Rightarrow> bytes"

definition ToString :: "float_ops \<Rightarrow> expr_value \<Rightarrow> bytes res" where
  "ToString fo v =
     (case ev_type v of
        Int8 \<Rightarrow> bindR (Int8Value v) (\<lambda>x. Inr (dec_of_int (sint x)))
      | UInt8 \<Rightarrow> bindR (UInt8Value v) (\<lambda>x. Inr (dec_of_nat (unat x)))
      | Int32 \<Rightarrow> bindR (Int32Value v) (\<lambda>x. Inr (dec_of_int (sint x)))
      | UInt32 \<Rightarrow> bindR (UInt32Value v) (\<lambda>x. Inr (dec_of_nat (unat x)))
      | Int64 \<Rightarrow> bindR (Int64Value v) (\<lambda>x. Inr (dec_of_int (sint x)))
      | UInt64 \<Rightarrow> bindR (UInt64Value v) (\<lambda>x. Inr (dec_of_nat (unat x)))
      | Float32 \<Rightarrow> bindR (FloatValue v) (\<lambda>x. Inr (f32_to_string fo x))
      | Double \<Rightarrow> bindR (DoubleValue v) (\<lambda>x. Inr (f64_to_string fo x))
      | String \<Rightarrow> StringValue v
      | _ \<Rightarrow> Inr [])"

section \<open>Comparison\<close>

text \<open>Two integers are compared after the cast the macro names: without sign or with it.\<close>

definition cmp_int :: "int \<Rightarrow> int \<Rightarrow> CmpOpt" where
  "cmp_int a b = (if a < b then Cmp_lt else if a > b then Cmp_gt else Cmp_eq)"

definition cmp_read :: "('a \<Rightarrow> int) \<Rightarrow> 'a res \<Rightarrow> 'a res \<Rightarrow> CmpOpt res" where
  "cmp_read f m1 m2 = bindR m1 (\<lambda>a. bindR m2 (\<lambda>b. Inr (cmp_int (f a) (f b))))"

definition cmp_decimal :: "('a \<Rightarrow> 'a \<Rightarrow> bool) \<Rightarrow> ('a \<Rightarrow> 'a \<Rightarrow> bool) \<Rightarrow> 'a \<Rightarrow> 'a \<Rightarrow> CmpOpt" where
  "cmp_decimal close below a b =
     (if close a b then Cmp_eq else if below a b then Cmp_lt else Cmp_gt)"

definition ExprValueCmp :: "float_ops \<Rightarrow> expr_value \<Rightarrow> expr_value \<Rightarrow> CmpOpt res" where
  "ExprValueCmp fo v1 v2 =
     (if ev_type v1 = ev_type v2 then
        (case ev_type v1 of
           Bool \<Rightarrow> cmp_read uint (read_u8 v1) (read_u8 v2)
         | UInt8 \<Rightarrow> cmp_read uint (read_u8 v1) (read_u8 v2)
         | Int8 \<Rightarrow> cmp_read sint (read_u8 v1) (read_u8 v2)
         | UInt32 \<Rightarrow> cmp_read uint (read_u32 v1) (read_u32 v2)
         | Int32 \<Rightarrow> cmp_read sint (read_u32 v1) (read_u32 v2)
         | UInt64 \<Rightarrow> cmp_read uint (read_u64 v1) (read_u64 v2)
         | Int64 \<Rightarrow> cmp_read sint (read_u64 v1) (read_u64 v2)
         | Float32 \<Rightarrow> bindR (FloatValue v1) (\<lambda>a. bindR (FloatValue v2) (\<lambda>b.
             Inr (cmp_decimal (f32_near fo) (f32_less fo) a b)))
         | Double \<Rightarrow> bindR (DoubleValue v1) (\<lambda>a. bindR (DoubleValue v2) (\<lambda>b.
             Inr (cmp_decimal (f64_near fo) (f64_less fo) a b)))
         | String \<Rightarrow> bindR (StringValue v1) (\<lambda>a. bindR (StringValue v2) (\<lambda>b.
             Inr (DataCmp a b)))
         | Invalid \<Rightarrow> Inr Cmp_eq
         | MinInf \<Rightarrow> Inr Cmp_eq
         | MaxInf \<Rightarrow> Inr Cmp_eq
         | _ \<Rightarrow> Inr Cmp_ne)
      else Inr Cmp_ne)"

fun ExprValuesCmp :: "float_ops \<Rightarrow> expr_value list \<Rightarrow> expr_value list \<Rightarrow> CmpOpt res" where
  "ExprValuesCmp fo (x # xs) (y # ys) =
     bindR (ExprValueCmp fo x y) (\<lambda>opt.
       if IsCmpNe opt then Inr opt else ExprValuesCmp fo xs ys)"
| "ExprValuesCmp fo xs ys =
     Inr (if length xs = length ys then Cmp_eq
          else if length xs > length ys then Cmp_lt else Cmp_gt)"

section \<open>Well-formed values\<close>

text \<open>A value the constructors of one of the storable types make: its payload matches its tag.\<close>

fun wf_payload :: "ExprValueType \<Rightarrow> uval \<Rightarrow> bytes option \<Rightarrow> bool" where
  "wf_payload Int8 (U8 _) None = True"
| "wf_payload UInt8 (U8 _) None = True"
| "wf_payload Int32 (U32 _) None = True"
| "wf_payload UInt32 (U32 _) None = True"
| "wf_payload Int64 (U64 _) None = True"
| "wf_payload UInt64 (U64 _) None = True"
| "wf_payload String U_unset (Some _) = True"
| "wf_payload _ _ _ = False"

definition wf_value :: "expr_value \<Rightarrow> bool" where
  "wf_value v \<longleftrightarrow> wf_payload (ev_type v) (ev_u v) (ev_str v)"

lemmas New_defs = NewEmpty_def NewNull_def NewBool_def NewInt8_def NewUInt8_def NewInt32_def
  NewUInt32_def NewInt64_def NewUInt64_def NewFloat32_def NewFloat64_def NewFloat128_def
  NewDouble_def NewString_def

lemmas value_defs = Int8Value_def UInt8Value_def Int32Value_def UInt32Value_def Int64Value_def
  UInt64Value_def StringValue_def BoolValue_def expect_type_def read_u8_def read_u32_def
  read_u64_def

text \<open>Every well-formed value was made by one constructor call; case distinctions on values
  go over the seven constructors.\<close>

lemma wf_value_cases:
  assumes "wf_value v"
  obtains (Int8) x where "v = NewInt8 x"
  | (UInt8) x where "v = NewUInt8 x"
  | (Int32) x where "v = NewInt32 x"
  | (UInt32) x where "v = NewUInt32 x"
  | (Int64) x where "v = NewInt64 x"
  | (UInt64) x where "v = NewUInt64 x"
  | (String) s where "v = NewString s"
proof -
  obtain t u s where v: "v = \<lparr>ev_type = t, ev_u = u, ev_str = s\<rparr>" by (cases v)
  with assms have "wf_payload t u s" by (simp add: wf_value_def)
  then show thesis
    using that v by (cases "(t, u, s)" rule: wf_payload.cases) (simp_all add: New_defs)
qed

lemma wf_New [simp]:
  "wf_value (NewInt8 b)" "wf_value (NewUInt8 b)" "wf_value (NewInt32 w)" "wf_value (NewUInt32 w)"
  "wf_value (NewInt64 d)" "wf_value (NewUInt64 d)" "wf_value (NewString s)"
  by (simp_all add: wf_value_def New_defs)

lemma ev_type_New [simp]:
  "ev_type (NewInt8 b) = Int8" "ev_type (NewUInt8 b) = UInt8" "ev_type (NewInt32 w) = Int32"
  "ev_type (NewUInt32 w) = UInt32" "ev_type (NewInt64 d) = Int64" "ev_type (NewUInt64 d) = UInt64"
  "ev_type (NewString s) = String"
  by (simp_all add: New_defs)

lemma ExprValue_copy_id: "wf_value v \<Longrightarrow> ExprValue_copy v = Inr v"
  by (elim wf_value_cases) (simp_all add: ExprValue_copy_def New_defs value_defs)

lemma cmp_int_simps:
  "cmp_int a b = Cmp_lt \<longleftrightarrow> a < b"
  "cmp_int a b = Cmp_gt \<longleftrightarrow> b < a"
  "cmp_int a b = Cmp_eq \<longleftrightarrow> a = b"
  by (auto simp: cmp_int_def)

text \<open>The rank of a storable value inside its type: what \<open>ExprValueCmp\<close> compares.\<close>

fun value_rank :: "expr_value \<Rightarrow> int" where
  "value_rank v =
     (case ev_type v of
        Int8 \<Rightarrow> sint (u8_of (ev_u v))
      | UInt8 \<Rightarrow> uint (u8_of (ev_u v))
      | Int32 \<Rightarrow> sint (u32_of (ev_u v))
      | UInt32 \<Rightarrow> uint (u32_of (ev_u v))
      | Int64 \<Rightarrow> sint (u64_of (ev_u v))
      | UInt64 \<Rightarrow> uint (u64_of (ev_u v))
      | _ \<Rightarrow> 0)"

lemma ExprValueCmp_number:
  assumes "wf_value v" "wf_value w" "ev_type v = ev_type w" "ev_type v \<noteq> String"
  shows "ExprValueCmp fo v w = Inr (cmp_int (value_rank v) (value_rank w))"
  using assms
  by (elim wf_value_cases)
    (simp_all add: ExprValueCmp_def New_defs cmp_read_def read_u8_def read_u32_def read_u64_def)

lemma ExprValueCmp_string:
  "ExprValueCmp fo (NewString s) (NewString t) = Inr (DataCmp s t)"
  by (simp add: ExprValueCmp_def New_defs value_defs)

end
