(* ===== verification/Codec.thy ===== *)
theory Codec
  imports ExprValue
begin

text \<open>
  The byte codec of \<open>sql/codec/codec.cc\<close>. An encoder appends to its output and returns a
  size; a decoder reads a prefix of its input and returns the bytes consumed with the value.
  Sizes are \<open>size_t\<close>, that is \<open>u64\<close>.
\<close>

named_theorems enc_simps \<open>the bytes an encoder appends\<close>

section \<open>Big-endian numbers\<close>

text \<open>\<open>htobe32\<close>, \<open>htobe64\<close> and the copy of the result's memory: the most significant byte first.\<close>

fun be_nat :: "nat \<Rightarrow> nat \<Rightarrow> bytes" where
  "be_nat 0 x = []"
| "be_nat (Suc n) x = of_nat (x div 256 ^ n mod 256) # be_nat n (x mod 256 ^ n)"

definition de_nat :: "bytes \<Rightarrow> nat" where
  "de_nat bs = foldl (\<lambda>acc b. acc * 256 + unat b) 0 bs"

lemma length_be_nat [simp]: "length (be_nat n x) = n"
  by (induction n arbitrary: x) auto

lemma de_nat_Nil [simp]: "de_nat [] = 0"
  by (simp add: de_nat_def)

lemma foldl_de: "foldl (\<lambda>acc b. acc * 256 + unat b) a (bs :: bytes) =
    a * 256 ^ length bs + foldl (\<lambda>acc b. acc * 256 + unat b) 0 bs"
proof (induction bs arbitrary: a)
  case (Cons b bs)
  have "foldl (\<lambda>acc b. acc * 256 + unat b) a (b # bs) =
      (a * 256 + unat b) * 256 ^ length bs + foldl (\<lambda>acc b. acc * 256 + unat b) 0 bs"
    using Cons [of "a * 256 + unat b"] by simp
  also have "\<dots> = a * 256 ^ length (b # bs) +
      (unat b * 256 ^ length bs + foldl (\<lambda>acc b. acc * 256 + unat b) 0 bs)"
    by (simp add: algebra_simps)
  also have "unat b * 256 ^ length bs + foldl (\<lambda>acc b. acc * 256 + unat b) 0 bs =
      foldl (\<lambda>acc b. acc * 256 + unat b) 0 (b # bs)"
    using Cons [of "unat b"] by simp
  finally show ?case .
qed simp

lemma de_nat_Cons: "de_nat (b # bs) = unat b * 256 ^ length bs + de_nat bs"
  unfolding de_nat_def using foldl_de [of "unat b" bs] by simp

lemma unat_byte: "unat (of_nat (x mod 256) :: u8) = x mod 256"
  by (simp add: unat_of_nat)

lemma de_be_nat [simp]: "x < 256 ^ n \<Longrightarrow> de_nat (be_nat n x) = x"
proof (induction n arbitrary: x)
  case (Suc n)
  then have "x div 256 ^ n < 256" by (simp add: less_mult_imp_div_less)
  with Suc show ?case
    using unat_byte [of "x div 256 ^ n"] div_mult_mod_eq [of x "256 ^ n"]
    by (simp add: de_nat_Cons)
qed simp

lemma byte_less: "a < 256 \<Longrightarrow> b < 256 \<Longrightarrow> ((of_nat a :: u8) < of_nat b) = (a < b)"
  by (simp add: word_less_nat_alt unat_of_nat)

lemma byte_eq: "a < 256 \<Longrightarrow> b < 256 \<Longrightarrow> ((of_nat a :: u8) = of_nat b) = (a = b)"
  by (metis unat_byte mod_less)

text \<open>Big-endian bytes of equal width compare like the numbers.\<close>

lemma be_nat_less: "x < 256 ^ n \<Longrightarrow> y < 256 ^ n \<Longrightarrow> be_nat n x < be_nat n y \<longleftrightarrow> x < y"
proof (induction n arbitrary: x y)
  case (Suc n)
  let ?p = "256 ^ n :: nat"
  have d: "x div ?p < 256" "y div ?p < 256"
    using Suc.prems by (simp_all add: less_mult_imp_div_less)
  have xy: "x div ?p * ?p + x mod ?p = x" "y div ?p * ?p + y mod ?p = y"
    by (rule div_mult_mod_eq)+
  have m: "x mod ?p < ?p" "y mod ?p < ?p" by simp_all
  have ih: "be_nat n (x mod ?p) < be_nat n (y mod ?p) \<longleftrightarrow> x mod ?p < y mod ?p"
    by (rule Suc.IH) simp_all
  consider "x div ?p < y div ?p" | "x div ?p = y div ?p" | "y div ?p < x div ?p" by fastforce
  then show ?case
  proof cases
    case 1
    then have "x < y" by (meson div_le_mono leD leI)
    with 1 d show ?thesis by (simp add: byte_less byte_eq)
  next
    case 2
    then have "x < y \<longleftrightarrow> x mod ?p < y mod ?p" using xy by (metis add_less_cancel_left)
    with 2 d ih show ?thesis by (simp add: byte_less byte_eq)
  next
    case 3
    then have "y < x" by (meson div_le_mono leD leI)
    with 3 d show ?thesis by (simp add: byte_less byte_eq)
  qed
qed simp

lemma be_nat_inj: "x < 256 ^ n \<Longrightarrow> y < 256 ^ n \<Longrightarrow> be_nat n x = be_nat n y \<longleftrightarrow> x = y"
  by (metis de_be_nat)

definition be32 :: "u32 \<Rightarrow> bytes" where "be32 w = be_nat 4 (unat w)"
definition be64 :: "u64 \<Rightarrow> bytes" where "be64 w = be_nat 8 (unat w)"
definition of_be32 :: "bytes \<Rightarrow> u32" where "of_be32 bs = of_nat (de_nat bs)"
definition of_be64 :: "bytes \<Rightarrow> u64" where "of_be64 bs = of_nat (de_nat bs)"

lemma unat_u32_bound: "unat (w :: u32) < 256 ^ 4"
  using unsigned_less [of w, where 'a = nat] by simp

lemma unat_u64_bound: "unat (w :: u64) < 256 ^ 8"
  using unsigned_less [of w, where 'a = nat] by simp

lemma length_be [simp]: "length (be32 w) = 4" "length (be64 d) = 8"
  by (simp_all add: be32_def be64_def)

lemma de_be32 [simp]: "of_be32 (be32 w) = w"
  by (simp only: of_be32_def be32_def de_be_nat [OF unat_u32_bound] of_nat_unat ucast_id)

lemma de_be64 [simp]: "of_be64 (be64 w) = w"
  by (simp only: of_be64_def be64_def de_be_nat [OF unat_u64_bound] of_nat_unat ucast_id)

lemma be64_inj [simp]: "be64 v = be64 w \<longleftrightarrow> v = w"
  by (metis de_be64)

lemma be32_inj [simp]: "be32 v = be32 w \<longleftrightarrow> v = w"
  by (metis de_be32)

lemma be64_less: "be64 v < be64 w \<longleftrightarrow> v < w"
  by (simp add: be64_def be_nat_less [OF unat_u64_bound unat_u64_bound] word_less_nat_alt)

lemma be32_less: "be32 v < be32 w \<longleftrightarrow> v < w"
  by (simp add: be32_def be_nat_less [OF unat_u32_bound unat_u32_bound] word_less_nat_alt)

text \<open>The same functions on binary integers, which is how they are evaluated.\<close>

fun be_int :: "nat \<Rightarrow> int \<Rightarrow> bytes" where
  "be_int 0 x = []"
| "be_int (Suc n) x = word_of_int (x div 256 ^ n mod 256) # be_int n (x mod 256 ^ n)"

definition de_int :: "bytes \<Rightarrow> int" where
  "de_int bs = foldl (\<lambda>acc b. acc * 256 + uint b) 0 bs"

lemma be_nat_int: "be_nat n x = be_int n (int x)"
proof (induction n arbitrary: x)
  case (Suc n)
  have "int (x div 256 ^ n mod 256) = int x div 256 ^ n mod 256"
    unfolding zmod_int zdiv_int of_nat_power of_nat_numeral ..
  then have "(of_nat (x div 256 ^ n mod 256) :: u8) = word_of_int (int x div 256 ^ n mod 256)"
    by (metis of_int_of_nat_eq)
  moreover have "int (x mod 256 ^ n) = int x mod 256 ^ n"
    unfolding zmod_int of_nat_power of_nat_numeral ..
  ultimately show ?case by (simp only: be_nat.simps be_int.simps Suc.IH)
qed simp

lemma foldl_de_int: "int (foldl (\<lambda>acc b. acc * 256 + unat b) a bs) =
    foldl (\<lambda>acc b. acc * 256 + uint b) (int a) (bs :: bytes)"
  by (induction bs arbitrary: a) simp_all

lemma de_nat_int: "int (de_nat bs) = de_int bs"
  using foldl_de_int [of 0 bs] by (simp add: de_nat_def de_int_def)

lemma be_code [code]:
  "be32 w = be_int 4 (uint w)" "be64 d = be_int 8 (uint d)"
  by (simp_all add: be32_def be64_def be_nat_int)

lemma of_be_code [code]:
  "of_be32 bs = word_of_int (de_int bs)" "of_be64 bs = word_of_int (de_int bs)"
  by (simp_all add: of_be32_def of_be64_def flip: de_nat_int)

section \<open>Encoders and decoders of the basic types\<close>

text \<open>\<open>EncodeUInt8\<close> returns \<open>sizeof(*out)\<close>, the size of a \<open>std::string\<close> object; it is 32 in
  the standard library of the build (libstdc++ on a 64-bit machine).\<close>

definition sizeof_std_string :: u64 where
  "sizeof_std_string = 32"

definition EncodeUInt8 :: "u8 \<Rightarrow> bytes \<Rightarrow> u64 \<times> bytes" where
  "EncodeUInt8 i out = (sizeof_std_string, out @ [i])"

definition EncodeUInt32 :: "u32 \<Rightarrow> bytes \<Rightarrow> u64 \<times> bytes" where
  "EncodeUInt32 i out = (4, out @ be32 i)"

definition EncodeInt32 :: "u32 \<Rightarrow> bytes \<Rightarrow> u64 \<times> bytes" where
  "EncodeInt32 i out = (4, out @ be32 i)"

definition EncodeUInt64 :: "u64 \<Rightarrow> bytes \<Rightarrow> u64 \<times> bytes" where
  "EncodeUInt64 i out = (8, out @ be64 i)"

definition EncodeInt64 :: "u64 \<Rightarrow> bytes \<Rightarrow> u64 \<times> bytes" where
  "EncodeInt64 i out = (8, out @ be64 i)"

definition EncodeBytes :: "bytes \<Rightarrow> bytes \<Rightarrow> u64 \<times> bytes" where
  "EncodeBytes i out =
     (let len = (of_nat (length i) :: u32);
          (ret, out1) = EncodeUInt32 len out
      in (of_nat (length i) + ret, out1 @ i))"

text \<open>
  A decoder reads the memory behind \<open>in.data()\<close>: the bytes of the string and the terminating
  zero may be read, anything further is not defined.
\<close>

definition read_raw :: "nat \<Rightarrow> bytes \<Rightarrow> bytes res" where
  "read_raw n s =
     (if n \<le> length s + 1 then Inr (take n (s @ [0])) else Inl Undefined_Behaviour)"

lemma read_raw_prefix [simp]: "n \<le> length s \<Longrightarrow> read_raw n s = Inr (take n s)"
  by (simp add: read_raw_def)

definition DecodeUInt8 :: "bytes \<Rightarrow> (u64 \<times> u8) res" where
  "DecodeUInt8 i = (case i of [] \<Rightarrow> Inl Std_Exception | b # _ \<Rightarrow> Inr (1, b))"

definition DecodeUInt32 :: "bytes \<Rightarrow> (u64 \<times> u32) res" where
  "DecodeUInt32 i = bindR (read_raw 4 i) (\<lambda>p. Inr (4, of_be32 p))"

definition DecodeInt32 :: "bytes \<Rightarrow> (u64 \<times> u32) res" where
  "DecodeInt32 i = bindR (read_raw 4 i) (\<lambda>p. Inr (4, of_be32 p))"

definition DecodeUInt64 :: "bytes \<Rightarrow> (u64 \<times> u64) res" where
  "DecodeUInt64 i = bindR (read_raw 8 i) (\<lambda>p. Inr (8, of_be64 p))"

definition DecodeInt64 :: "bytes \<Rightarrow> (u64 \<times> u64) res" where
  "DecodeInt64 i = bindR (read_raw 8 i) (\<lambda>p. Inr (8, of_be64 p))"

text \<open>\<open>DecodeBytes\<close> appends the string to \<open>out\<close>; a length that runs past the input leaves
  \<open>out\<close> alone and returns \<open>-1\<close> as a \<open>size_t\<close>.\<close>

definition DecodeBytes :: "bytes \<Rightarrow> bytes \<Rightarrow> (u64 \<times> bytes) res" where
  "DecodeBytes i out =
     bindR (DecodeUInt32 i) (\<lambda>(ret, len).
       if unat ret + unat len \<le> length i
       then Inr (ucast len + ret, out @ take (unat len) (drop (unat ret) i))
       else Inr (- 1, out))"

lemma snd_encoders [simp, enc_simps]:
  "snd (EncodeUInt8 b out) = out @ [b]"
  "snd (EncodeUInt32 w out) = out @ be32 w"
  "snd (EncodeInt32 w out) = out @ be32 w"
  "snd (EncodeUInt64 d out) = out @ be64 d"
  "snd (EncodeInt64 d out) = out @ be64 d"
  "snd (EncodeBytes s out) = out @ be32 (of_nat (length s)) @ s"
  by (simp_all add: EncodeUInt8_def EncodeUInt32_def EncodeInt32_def EncodeUInt64_def
      EncodeInt64_def EncodeBytes_def)

lemma decode_u32_prefix [simp]: "DecodeUInt32 (be32 w @ rest) = Inr (4, w)"
  by (simp add: DecodeUInt32_def)

lemma decode_i32_prefix [simp]: "DecodeInt32 (be32 w @ rest) = Inr (4, w)"
  by (simp add: DecodeInt32_def)

lemma decode_u64_prefix [simp]: "DecodeUInt64 (be64 w @ rest) = Inr (8, w)"
  by (simp add: DecodeUInt64_def)

lemma decode_i64_prefix [simp]: "DecodeInt64 (be64 w @ rest) = Inr (8, w)"
  by (simp add: DecodeInt64_def)

lemma unat_length_u32: "length (s :: bytes) < 2 ^ 32 \<Longrightarrow> unat (of_nat (length s) :: u32) = length s"
  by (simp add: unat_of_nat)

lemma ucast_length: "length (s :: bytes) < 2 ^ 32 \<Longrightarrow>
    (ucast (of_nat (length s) :: u32) :: u64) = of_nat (length s)"
  by (metis of_nat_unat unat_length_u32)

lemma decode_bytes_prefix:
  assumes "length s < 2 ^ 32"
  shows "DecodeBytes (be32 (of_nat (length s)) @ s @ rest) out
         = Inr (of_nat (length s) + 4, out @ s)"
  using ucast_length [OF assms]
  unfolding DecodeBytes_def decode_u32_prefix bindR_simps
  by (simp add: unat_length_u32 [OF assms] del: of_nat_unat)

section \<open>Values\<close>

text \<open>The encoder has no tag of its own: callers write the type byte in front. A type without
  a case only logs and writes nothing.\<close>

definition EncodeExprValue :: "expr_value \<Rightarrow> bytes \<Rightarrow> (u64 \<times> bytes) res" where
  "EncodeExprValue v out =
     (case ev_type v of
        UInt8 \<Rightarrow> bindR (UInt8Value v) (\<lambda>x. Inr (EncodeUInt8 x out))
      | Int8 \<Rightarrow> bindR (Int8Value v) (\<lambda>x. Inr (EncodeUInt8 x out))
      | UInt32 \<Rightarrow> bindR (UInt32Value v) (\<lambda>x. Inr (EncodeUInt32 x out))
      | Int32 \<Rightarrow> bindR (Int32Value v) (\<lambda>x. Inr (EncodeUInt32 x out))
      | UInt64 \<Rightarrow> bindR (UInt64Value v) (\<lambda>x. Inr (EncodeUInt64 x out))
      | Int64 \<Rightarrow> bindR (Int64Value v) (\<lambda>x. Inr (EncodeUInt64 x out))
      | String \<Rightarrow> bindR (StringValue v) (\<lambda>s. Inr (EncodeBytes s out))
      | _ \<Rightarrow> Inr (0, out))"

text \<open>The decoder goes by the type the target already has; it has no case for \<open>Int8\<close>. The
  numeric cases write the union of the target, the string case assigns a new value to it.\<close>

definition DecodeExprValue :: "bytes \<Rightarrow> expr_value \<Rightarrow> (u64 \<times> expr_value) res" where
  "DecodeExprValue i out =
     (case ev_type out of
        UInt8 \<Rightarrow> bindR (read_raw 1 i) (\<lambda>tmp. bindR (DecodeUInt8 tmp) (\<lambda>(size, x).
          Inr (size, out\<lparr>ev_u := U8 x\<rparr>)))
      | Int32 \<Rightarrow> bindR (read_raw 4 i) (\<lambda>tmp. bindR (DecodeInt32 tmp) (\<lambda>(size, x).
          Inr (size, out\<lparr>ev_u := U32 x\<rparr>)))
      | UInt32 \<Rightarrow> bindR (read_raw 4 i) (\<lambda>tmp. bindR (DecodeUInt32 tmp) (\<lambda>(size, x).
          Inr (size, out\<lparr>ev_u := U32 x\<rparr>)))
      | Int64 \<Rightarrow> bindR (read_raw 8 i) (\<lambda>tmp. bindR (DecodeInt64 tmp) (\<lambda>(size, x).
          Inr (size, out\<lparr>ev_u := U64 x\<rparr>)))
      | UInt64 \<Rightarrow> bindR (read_raw 8 i) (\<lambda>tmp. bindR (DecodeUInt64 tmp) (\<lambda>(size, x).
          Inr (size, out\<lparr>ev_u := U64 x\<rparr>)))
      | String \<Rightarrow> bindR (DecodeBytes i []) (\<lambda>(size, s).
          bindR (ExprValue_assign out (NewString s)) (\<lambda>out1. Inr (size, out1)))
      | _ \<Rightarrow> Inr (0, out))"

text \<open>The bytes a well-formed value is written as.\<close>

definition value_bytes :: "expr_value \<Rightarrow> bytes" where
  "value_bytes v = (case EncodeExprValue v [] of Inr (_, bs) \<Rightarrow> bs | Inl _ \<Rightarrow> [])"

lemma value_bytes_New [simp]:
  "value_bytes (NewInt8 b) = [b]" "value_bytes (NewUInt8 b) = [b]"
  "value_bytes (NewInt32 w) = be32 w" "value_bytes (NewUInt32 w) = be32 w"
  "value_bytes (NewInt64 d) = be64 d" "value_bytes (NewUInt64 d) = be64 d"
  "value_bytes (NewString s) = be32 (of_nat (length s)) @ s"
  by (simp_all add: value_bytes_def EncodeExprValue_def New_defs value_defs
      EncodeUInt8_def EncodeUInt32_def EncodeUInt64_def EncodeBytes_def)

lemma EncodeExprValue_appends:
  assumes "wf_value v"
  shows "\<exists>n. EncodeExprValue v out = Inr (n, out @ value_bytes v)"
  using assms
  by (elim wf_value_cases)
    (simp_all add: EncodeExprValue_def New_defs value_defs value_bytes_def
      EncodeUInt8_def EncodeUInt32_def EncodeUInt64_def EncodeBytes_def)

text \<open>A value whose encoding can be read back: every storable type but \<open>Int8\<close>, with strings
  below 4 GiB.\<close>

definition decodable :: "expr_value \<Rightarrow> bool" where
  "decodable v \<longleftrightarrow> wf_value v \<and> ev_type v \<noteq> Int8 \<and>
     (\<forall>s. ev_str v = Some s \<longrightarrow> length s < 2 ^ 32)"

lemma decodable_cases:
  assumes "decodable v"
  obtains (UInt8) x where "v = NewUInt8 x"
  | (Int32) x where "v = NewInt32 x"
  | (UInt32) x where "v = NewUInt32 x"
  | (Int64) x where "v = NewInt64 x"
  | (UInt64) x where "v = NewUInt64 x"
  | (String) s where "v = NewString s" "length s < 2 ^ 32"
proof -
  from assms have "wf_value v" by (simp add: decodable_def)
  then show thesis
    using assms that by (cases rule: wf_value_cases) (auto simp: decodable_def New_defs)
qed

lemma DecodeExprValue_prefix:
  assumes "decodable v"
  shows "DecodeExprValue (value_bytes v @ rest) (NewEmpty (ev_type v)) =
    Inr (of_nat (length (value_bytes v)), v)"
  using assms
proof (cases rule: decodable_cases)
  case (String s)
  then show ?thesis
    using decode_bytes_prefix [of s rest "[]"]
    by (simp add: DecodeExprValue_def New_defs [symmetric] ExprValue_assign_def value_defs)
      (simp add: New_defs ExprValue_assign_def value_defs add.commute)
qed (simp_all add: DecodeExprValue_def New_defs value_bytes_def EncodeExprValue_def value_defs
    EncodeUInt8_def EncodeUInt32_def EncodeUInt64_def DecodeUInt8_def DecodeUInt32_def
    DecodeInt32_def DecodeUInt64_def DecodeInt64_def)

end
