(* ===== verification/SchemaCodec.thy ===== *)
theory SchemaCodec
  imports Codec
begin

text \<open>
  The keys under which everything is stored (\<open>sql/codec/schema_codec.cc\<close>,
  \<open>sql/codec/statistic_codec.cc\<close>): the metadata under database 0 and table 0, and per table the
  nodes of its trees, its rows and its statistics. All of them live in one flat key space, so
  what matters is that no two families and no two members of a family share a key.
\<close>

section \<open>Tags and encoders\<close>

datatype DataType =
  D_kTreeNode | D_kRow | D_kDatabaseId | D_kTableId | D_kColumnId | D_kTableStatistic
| D_kColumnStatistic

fun data_type_code :: "DataType \<Rightarrow> u8" where
  "data_type_code D_kTreeNode = 0"
| "data_type_code D_kRow = 1"
| "data_type_code D_kDatabaseId = 2"
| "data_type_code D_kTableId = 3"
| "data_type_code D_kColumnId = 4"
| "data_type_code D_kTableStatistic = 5"
| "data_type_code D_kColumnStatistic = 6"

datatype MetaType =
  M_kDatabaseId | M_kDatabaseInfo | M_kTableId | M_kTableInfo | M_kMetaStatistic
| M_kColumnStatistic

fun meta_type_code :: "MetaType \<Rightarrow> u8" where
  "meta_type_code M_kDatabaseId = 1"
| "meta_type_code M_kDatabaseInfo = 2"
| "meta_type_code M_kTableId = 3"
| "meta_type_code M_kTableInfo = 4"
| "meta_type_code M_kMetaStatistic = 5"
| "meta_type_code M_kColumnStatistic = 6"

definition kGlobalDatabaseID :: u64 where "kGlobalDatabaseID = 0"
definition kGlobalTableID :: u64 where "kGlobalTableID = 0"

text \<open>\<open>offset += Encode...(.., out)\<close>, one encoder after the other.\<close>

fun enc_seq :: "(bytes \<Rightarrow> u64 \<times> bytes) list \<Rightarrow> bytes \<Rightarrow> u64 \<times> bytes" where
  "enc_seq [] out = (0, out)"
| "enc_seq (f # fs) out =
     (let (n, out1) = f out; (m, out2) = enc_seq fs out1 in (n + m, out2))"

lemma snd_enc_seq [simp, enc_simps]:
  "snd (enc_seq [] out) = out"
  "snd (enc_seq (f # fs) out) = snd (enc_seq fs (snd (f out)))"
  by (simp_all add: case_prod_beta Let_def)

declare enc_seq.simps [simp del]

definition EncodeDatabaseAllocID :: "u64 \<Rightarrow> bytes \<Rightarrow> u64 \<times> bytes" where
  "EncodeDatabaseAllocID i = enc_seq
     [EncodeUInt64 kGlobalDatabaseID, EncodeUInt64 kGlobalTableID,
      EncodeUInt8 (data_type_code D_kDatabaseId), EncodeUInt64 i]"

definition EncodeTableAllocID :: "u64 \<Rightarrow> bytes \<Rightarrow> u64 \<times> bytes" where
  "EncodeTableAllocID i = enc_seq
     [EncodeUInt64 kGlobalDatabaseID, EncodeUInt64 kGlobalTableID,
      EncodeUInt8 (data_type_code D_kTableId), EncodeUInt64 i]"

definition EncodeColumnAllocID :: "u64 \<Rightarrow> bytes \<Rightarrow> u64 \<times> bytes" where
  "EncodeColumnAllocID i = enc_seq
     [EncodeUInt64 kGlobalDatabaseID, EncodeUInt64 kGlobalTableID,
      EncodeUInt8 (data_type_code D_kColumnId), EncodeUInt64 i]"

definition EncodeDatabaseID :: "u64 \<Rightarrow> bytes \<Rightarrow> u64 \<times> bytes" where
  "EncodeDatabaseID db_id = enc_seq
     [EncodeUInt64 kGlobalDatabaseID, EncodeUInt64 kGlobalTableID,
      EncodeUInt8 (meta_type_code M_kDatabaseId), EncodeUInt64 db_id]"

definition EncodeDatabaseName :: "bytes \<Rightarrow> bytes \<Rightarrow> u64 \<times> bytes" where
  "EncodeDatabaseName db_name = enc_seq
     [EncodeUInt64 kGlobalDatabaseID, EncodeUInt64 kGlobalTableID,
      EncodeUInt8 (meta_type_code M_kDatabaseInfo), EncodeBytes db_name]"

definition EncodeTableID :: "u64 \<Rightarrow> u64 \<Rightarrow> bytes \<Rightarrow> u64 \<times> bytes" where
  "EncodeTableID db_id table_id = enc_seq
     [EncodeUInt64 kGlobalDatabaseID, EncodeUInt64 kGlobalTableID,
      EncodeUInt8 (meta_type_code M_kTableId), EncodeUInt64 db_id, EncodeUInt64 table_id]"

definition EncodeTableName :: "u64 \<Rightarrow> bytes \<Rightarrow> bytes \<Rightarrow> u64 \<times> bytes" where
  "EncodeTableName db_id table_name = enc_seq
     [EncodeUInt64 kGlobalDatabaseID, EncodeUInt64 kGlobalTableID,
      EncodeUInt8 (meta_type_code M_kTableInfo), EncodeUInt64 db_id, EncodeBytes table_name]"

definition EncodeIndexTreeNodeID :: "u64 \<Rightarrow> u64 \<Rightarrow> u64 \<Rightarrow> u64 \<Rightarrow> bytes \<Rightarrow> u64 \<times> bytes" where
  "EncodeIndexTreeNodeID db_id table_id index_id node_id = enc_seq
     [EncodeUInt64 db_id, EncodeUInt64 table_id, EncodeUInt8 (data_type_code D_kTreeNode),
      EncodeUInt64 index_id, EncodeUInt64 node_id]"

definition EncodeDataKey :: "u64 \<Rightarrow> u64 \<Rightarrow> bytes \<Rightarrow> bytes \<Rightarrow> u64 \<times> bytes" where
  "EncodeDataKey db_id table_id key = enc_seq
     [EncodeUInt64 db_id, EncodeUInt64 table_id, EncodeUInt8 (data_type_code D_kRow),
      EncodeBytes key]"

definition EncodeMetaStatistic :: "u64 \<Rightarrow> u64 \<Rightarrow> bytes \<Rightarrow> u64 \<times> bytes" where
  "EncodeMetaStatistic db_id table_id = enc_seq
     [EncodeUInt64 db_id, EncodeUInt64 table_id,
      EncodeUInt8 (meta_type_code M_kMetaStatistic)]"

definition EncodeColumnStatistic :: "u64 \<Rightarrow> u64 \<Rightarrow> u64 \<Rightarrow> bytes \<Rightarrow> u64 \<times> bytes" where
  "EncodeColumnStatistic db_id table_id column_id = enc_seq
     [EncodeUInt64 db_id, EncodeUInt64 table_id, EncodeUInt64 column_id,
      EncodeUInt8 (meta_type_code M_kColumnStatistic)]"

lemmas key_encoder_defs = EncodeDatabaseAllocID_def EncodeTableAllocID_def
  EncodeColumnAllocID_def EncodeDatabaseID_def EncodeDatabaseName_def EncodeTableID_def
  EncodeTableName_def EncodeIndexTreeNodeID_def EncodeDataKey_def EncodeMetaStatistic_def
  EncodeColumnStatistic_def kGlobalDatabaseID_def kGlobalTableID_def

section \<open>Decoders\<close>

text \<open>\<open>assign(in.data() + offset, n)\<close>: the terminating zero may be read, nothing behind it.\<close>

definition read_at :: "nat \<Rightarrow> nat \<Rightarrow> bytes \<Rightarrow> bytes res" where
  "read_at offset n s =
     (if offset + n \<le> length s + 1 then Inr (take n (drop offset (s @ [0])))
      else Inl Undefined_Behaviour)"

text \<open>\<open>in.length() - offset\<close> wraps below zero; a string of that length cannot be made.\<close>

definition DecodeDatabaseID :: "bytes \<Rightarrow> (u64 \<times> u64) res" where
  "DecodeDatabaseID i =
     (if length i < 17 then Inl Std_Exception
      else bindR (read_at 17 (length i - 17) i) (\<lambda>tmp.
        bindR (DecodeUInt64 tmp) (\<lambda>(n, db_id). Inr (17 + n, db_id))))"

definition DecodeDatabaseName :: "bytes \<Rightarrow> bytes \<Rightarrow> (u64 \<times> bytes) res" where
  "DecodeDatabaseName i out = Inr (0, out)"

definition DecodeTableID :: "bytes \<Rightarrow> (u64 \<times> u64 \<times> u64) res" where
  "DecodeTableID i =
     bindR (read_at 17 8 i) (\<lambda>tmp.
       bindR (DecodeUInt64 tmp) (\<lambda>(_, db_id).
         bindR (read_at 25 8 i) (\<lambda>tmp2.
           bindR (DecodeUInt64 tmp2) (\<lambda>(_, table_id). Inr (33, db_id, table_id)))))"

definition DecodeTableName :: "u64 \<Rightarrow> u64 res" where
  "DecodeTableName i = Inr 0"

lemma DecodeUInt64_be64: "DecodeUInt64 (be64 w) = Inr (8, w)"
  using decode_u64_prefix [of w "[]"] by simp

lemma read_at_middle:
  assumes "s = pre @ mid @ post" "length pre = off" "length mid = n"
  shows "read_at off n s = Inr mid"
  using assms by (simp add: read_at_def)

section \<open>The key space\<close>

text \<open>Every key the program makes, by the call that makes it.\<close>

datatype store_key =
  DatabaseAllocKey u64 | TableAllocKey u64 | ColumnAllocKey u64
| DatabaseIDKey u64 | DatabaseNameKey bytes | TableIDKey u64 u64 | TableNameKey u64 bytes
| TreeNodeKey u64 u64 u64 u64 | RowKey u64 u64 bytes
| MetaStatKey u64 u64 | ColumnStatKey u64 u64 u64

fun key_bytes :: "store_key \<Rightarrow> bytes" where
  "key_bytes (DatabaseAllocKey i) = snd (EncodeDatabaseAllocID i [])"
| "key_bytes (TableAllocKey i) = snd (EncodeTableAllocID i [])"
| "key_bytes (ColumnAllocKey i) = snd (EncodeColumnAllocID i [])"
| "key_bytes (DatabaseIDKey i) = snd (EncodeDatabaseID i [])"
| "key_bytes (DatabaseNameKey s) = snd (EncodeDatabaseName s [])"
| "key_bytes (TableIDKey d t) = snd (EncodeTableID d t [])"
| "key_bytes (TableNameKey d s) = snd (EncodeTableName d s [])"
| "key_bytes (TreeNodeKey d t i n) = snd (EncodeIndexTreeNodeID d t i n [])"
| "key_bytes (RowKey d t k) = snd (EncodeDataKey d t k [])"
| "key_bytes (MetaStatKey d t) = snd (EncodeMetaStatistic d t [])"
| "key_bytes (ColumnStatKey d t c) = snd (EncodeColumnStatistic d t c [])"

text \<open>The bounds under which keys cannot meet: a user database has a non-zero id, strings are
  below 4 GiB, a column id leaves the top byte of its word clear (it is read where the other
  families of the table have their tag), and a database allocator's number stays below
  \<open>2^34\<close> (its key shares the tag of the database names; from there on it reads like a name
  of four bytes).\<close>

fun key_wf :: "store_key \<Rightarrow> bool" where
  "key_wf (DatabaseAllocKey i) = (unat i < 2 ^ 34)"
| "key_wf (DatabaseNameKey s) = (length s < 2 ^ 32)"
| "key_wf (TableNameKey d s) = (length s < 2 ^ 32)"
| "key_wf (TreeNodeKey d t i n) = (d \<noteq> 0)"
| "key_wf (RowKey d t k) = (d \<noteq> 0 \<and> length k < 2 ^ 32)"
| "key_wf (MetaStatKey d t) = (d \<noteq> 0)"
| "key_wf (ColumnStatKey d t c) = (d \<noteq> 0 \<and> unat c < 2 ^ 56)"
| "key_wf _ = True"

lemma append_be64_inj [simp]: "be64 v @ xs = be64 w @ ys \<longleftrightarrow> v = w \<and> xs = ys"
  by simp

lemma nth_be_nat: "i < n \<Longrightarrow> be_nat n x ! i = of_nat (x div 256 ^ (n - 1 - i) mod 256)"
proof (induction n arbitrary: x i)
  case (Suc n)
  show ?case
  proof (cases i)
    case (Suc j)
    with Suc.prems have j: "j < n" by simp
    then have n: "(256 :: nat) ^ n = 256 ^ (n - 1 - j) * 256 ^ (j + 1)"
      by (metis Suc_diff_Suc add_diff_inverse_nat diff_Suc_1' le_add_diff_inverse2 power_add
          Suc_eq_plus1 Suc_leI diff_Suc_eq_diff_pred)
    have "x mod 256 ^ n div 256 ^ (n - 1 - j) mod 256 = x div 256 ^ (n - 1 - j) mod 256"
      unfolding n by (simp add: mod_mult2_eq mod_mod_cancel)
    with Suc Suc.IH [OF j] show ?thesis by simp
  qed simp
qed simp

lemma be64_byte0: "unat w < 2 ^ 56 \<Longrightarrow> be64 w ! 0 = 0"
  by (simp add: be64_def nth_be_nat)

lemma be64_byte3: "unat w < 2 ^ 34 \<Longrightarrow> be64 w ! 3 < 4"
proof -
  assume w: "unat w < 2 ^ 34"
  then have "unat w div 256 ^ 4 < 4" by (simp add: less_mult_imp_div_less)
  moreover from this have "unat w div 256 ^ 4 mod 256 = unat w div 256 ^ 4" by simp
  moreover have "be64 w ! 3 = of_nat (unat w div 256 ^ 4 mod 256)"
    unfolding be64_def by (subst nth_be_nat) simp_all
  ultimately show ?thesis
    using byte_less [of "unat w div 256 ^ 4" 4] by simp
qed

lemma key_layout:
  "key_bytes (DatabaseAllocKey i) = be64 0 @ be64 0 @ 2 # be64 i"
  "key_bytes (TableAllocKey i) = be64 0 @ be64 0 @ 3 # be64 i"
  "key_bytes (ColumnAllocKey i) = be64 0 @ be64 0 @ 4 # be64 i"
  "key_bytes (DatabaseIDKey i) = be64 0 @ be64 0 @ 1 # be64 i"
  "key_bytes (DatabaseNameKey s) = be64 0 @ be64 0 @ 2 # be32 (of_nat (length s)) @ s"
  "key_bytes (TableIDKey d t) = be64 0 @ be64 0 @ 3 # be64 d @ be64 t"
  "key_bytes (TableNameKey d s) = be64 0 @ be64 0 @ 4 # be64 d @ be32 (of_nat (length s)) @ s"
  "key_bytes (TreeNodeKey d t j n) = be64 d @ be64 t @ 0 # be64 j @ be64 n"
  "key_bytes (RowKey d t k) = be64 d @ be64 t @ 1 # be32 (of_nat (length k)) @ k"
  "key_bytes (MetaStatKey d t) = be64 d @ be64 t @ [5]"
  "key_bytes (ColumnStatKey d t c) = be64 d @ be64 t @ be64 c @ [6]"
  by (simp_all add: key_encoder_defs del: of_nat_0)

lemma be32_append [simp]:
  assumes "length s < 2 ^ 32" "length t < 2 ^ 32"
  shows "be32 (of_nat (length s)) @ (s :: bytes) = be32 (of_nat (length t)) @ t \<longleftrightarrow> s = t"
  by auto

text \<open>The fourth byte of an allocator's number tells its key from a name of four bytes.\<close>

lemma alloc_not_name:
  assumes "unat i < 2 ^ 34" "length s < 2 ^ 32" "be64 i = be32 (of_nat (length s)) @ s"
  shows False
proof -
  have "length s = 4" using arg_cong [OF assms(3), of length] by simp
  then have "be64 i ! 3 = be32 4 ! 3"
    using assms(3) by (simp add: nth_append)
  moreover have "be32 4 ! 3 = 4" unfolding be32_def by (subst nth_be_nat) simp_all
  ultimately show False using be64_byte3 [OF assms(1)] by simp
qed

text \<open>The first byte of a small column id is not a family tag other than the tree nodes'.\<close>

lemma column_not_row:
  assumes "unat c < 2 ^ 56" "be64 c @ [6] = 1 # xs"
  shows False
proof -
  have "(be64 c @ [6]) ! 0 = 1" using assms(2) by simp
  with be64_byte0 [OF assms(1)] show False by (simp add: nth_append)
qed

text \<open>Keys that differ in length.\<close>

lemma key_lengths [simp]:
  "be64 a \<noteq> be64 b @ be64 c" "be64 b @ be64 c \<noteq> be64 a"
  "be64 a \<noteq> be64 b @ be32 w @ s" "be64 b @ be32 w @ s \<noteq> be64 a"
  "0 # be64 a @ be64 b \<noteq> be64 c @ [6]" "be64 c @ [6] \<noteq> 0 # be64 a @ be64 b"
  by (auto dest: arg_cong [where f = length])

lemma key_bytes_inj:
  assumes "key_wf k" "key_wf k'" "key_bytes k = key_bytes k'"
  shows "k = k'"
  using assms
  by (cases k; cases k'; simp only: key_layout)
    (auto dest: alloc_not_name [simplified] alloc_not_name [OF _ _ sym, simplified]
      column_not_row [simplified] column_not_row [OF _ sym, simplified])

end
