(* ===== verification/KvStorage.thy ===== *)
theory KvStorage
  imports Codec
begin

text \<open>
  The storage layer: the interface \<open>KvStorageAPI\<close> (\<open>storage/kv_storage_api.h\<close>) as a record of
  operations, and its implementation \<open>LevelDbClient\<close> (\<open>storage/leveldb_client.cc\<close>) over the
  operations of LevelDB, which are an argument. The locale \<open>kv_store\<close> is what the rest of the
  program relies on; it is derived for the client from the documented behaviour of LevelDB
  (locale \<open>leveldb_spec\<close>).
\<close>

section \<open>The interface\<close>

text \<open>An operation on a storage state \<open>'s\<close>. \<open>GetKV\<close> and \<open>MGetKV\<close> take the caller's output
  object and return it updated; \<open>Incrby\<close> returns the number it wrote to \<open>new_val\<close>, if any.\<close>

record 's kv_api =
  PutKV :: "bytes \<Rightarrow> bytes \<Rightarrow> 's \<Rightarrow> (status \<times> 's) res"
  MPutKV :: "bytes list \<Rightarrow> bytes list \<Rightarrow> 's \<Rightarrow> (status \<times> 's) res"
  MPutKV_map :: "(bytes \<times> bytes) list \<Rightarrow> 's \<Rightarrow> (status \<times> 's) res"
  GetKV :: "bytes \<Rightarrow> bytes \<Rightarrow> 's \<Rightarrow> (status \<times> bytes) res"
  MGetKV :: "bytes list \<Rightarrow> bytes list \<Rightarrow> 's \<Rightarrow> (status \<times> bytes list) res"
  DelKV :: "bytes \<Rightarrow> 's \<Rightarrow> (status \<times> 's) res"
  MDelKV :: "bytes list \<Rightarrow> 's \<Rightarrow> (status \<times> 's) res"
  Incrby :: "bytes \<Rightarrow> u64 \<Rightarrow> 's \<Rightarrow> (status \<times> u64 option \<times> 's) res"

text \<open>The effect of \<open>Incrby\<close> on the stored text: an absent counter starts at zero, the text is
  read as a signed number, the step is added modulo \<open>2^64\<close>.\<close>

definition counter_text :: "bytes option \<Rightarrow> bytes" where
  "counter_text vo = (case vo of Some v \<Rightarrow> v | None \<Rightarrow> [48])"

definition counter_add :: "bytes option \<Rightarrow> u64 \<Rightarrow> u64 res" where
  "counter_add vo step = bindR (std_stoll (counter_text vo)) (\<lambda>n. Inr (word_of_int n + step))"

locale kv_store =
  fixes kv :: "'s kv_api"
    and contents :: "'s \<Rightarrow> bytes \<rightharpoonup> bytes"
  assumes PutKV_law: "\<exists>s'. PutKV kv k v s = Inr (C_OK, s') \<and> contents s' = (contents s)(k \<mapsto> v)"
    and MPutKV_law: "length ks = length vs \<Longrightarrow>
      \<exists>s'. MPutKV kv ks vs s = Inr (C_OK, s') \<and> contents s' = (contents s)(ks [\<mapsto>] vs)"
    and MPutKV_map_law: "distinct (map fst m) \<Longrightarrow>
      \<exists>s'. MPutKV_map kv m s = Inr (C_OK, s') \<and> contents s' = contents s ++ map_of m"
    and GetKV_hit: "contents s k = Some v \<Longrightarrow> GetKV kv k old s = Inr (C_OK, v)"
    and GetKV_miss: "contents s k = None \<Longrightarrow> GetKV kv k old s = Inr (C_STORAGE_KV_NOT_FOUND, old)"
    and MGetKV_hit: "(\<And>k. k \<in> set ks \<Longrightarrow> contents s k = Some (f k)) \<Longrightarrow>
      MGetKV kv ks [] s = Inr (C_OK, map f ks)"
    and DelKV_law: "\<exists>s'. DelKV kv k s = Inr (C_OK, s') \<and> contents s' = (contents s)(k := None)"
    and MDelKV_law: "\<exists>s'. MDelKV kv ks s = Inr (C_OK, s') \<and> contents s' = contents s |` (- set ks)"
    and Incrby_law: "counter_add (contents s k) step = Inr w \<Longrightarrow>
      \<exists>s'. Incrby kv k step s = Inr (C_OK, Some w, s') \<and>
           contents s' = (contents s)(k \<mapsto> dec_of_nat (unat w))"
begin

lemma get_after_put:
  assumes "PutKV kv k v s = Inr (st, s')"
  shows "GetKV kv k old s' = Inr (C_OK, v)"
proof -
  obtain s1 where "PutKV kv k v s = Inr (C_OK, s1)" "contents s1 = (contents s)(k \<mapsto> v)"
    using PutKV_law by blast
  with assms show ?thesis by (simp add: GetKV_hit)
qed

lemma GetKV_cases: "GetKV kv k old s =
    (case contents s k of Some v \<Rightarrow> Inr (C_OK, v) | None \<Rightarrow> Inr (C_STORAGE_KV_NOT_FOUND, old))"
  by (simp add: GetKV_hit GetKV_miss split: option.split)

text \<open>A counter that no other writer touches yields the multiples of the step.\<close>

lemma counter_next:
  assumes "contents s k = Some (dec_of_nat n)" "n < 2 ^ 63"
  shows "\<exists>s'. Incrby kv k step s = Inr (C_OK, Some (of_nat n + step), s') \<and>
    contents s' = (contents s)(k \<mapsto> dec_of_nat (unat (of_nat n + step)))"
  by (rule Incrby_law) (simp add: counter_add_def counter_text_def assms(1) std_stoll_dec [OF assms(2)])

end

section \<open>LevelDB\<close>

text \<open>The operations of LevelDB the client calls. \<open>ldb_get\<close> returns the bytes it stored in the
  output string, if it stored any; it leaves the string alone when the key is absent.\<close>

datatype ldb_status = L_ok | L_not_found | L_error

datatype batch_op = B_Put bytes bytes | B_Delete bytes

record 'db leveldb =
  ldb_put :: "bytes \<Rightarrow> bytes \<Rightarrow> 'db \<Rightarrow> ldb_status \<times> 'db"
  ldb_delete :: "bytes \<Rightarrow> 'db \<Rightarrow> ldb_status \<times> 'db"
  ldb_write :: "batch_op list \<Rightarrow> 'db \<Rightarrow> ldb_status \<times> 'db"
  ldb_get :: "bytes \<Rightarrow> 'db \<Rightarrow> ldb_status \<times> bytes option"

fun batch_step :: "(bytes \<rightharpoonup> bytes) \<Rightarrow> batch_op \<Rightarrow> (bytes \<rightharpoonup> bytes)" where
  "batch_step m (B_Put k v) = m(k \<mapsto> v)"
| "batch_step m (B_Delete k) = m(k := None)"

section \<open>The client\<close>

definition ldb_result :: "ldb_status \<times> 'db \<Rightarrow> (status \<times> 'db) res" where
  "ldb_result r = (case r of (st, db) \<Rightarrow> Inr (if st = L_ok then C_OK else C_STORAGE_ERROR, db))"

definition LevelDb_PutKV :: "'db leveldb \<Rightarrow> bytes \<Rightarrow> bytes \<Rightarrow> 'db \<Rightarrow> (status \<times> 'db) res" where
  "LevelDb_PutKV L key value db = ldb_result (ldb_put L key value db)"

definition LevelDb_MPutKV :: "'db leveldb \<Rightarrow> bytes list \<Rightarrow> bytes list \<Rightarrow> 'db \<Rightarrow> (status \<times> 'db) res" where
  "LevelDb_MPutKV L keys values db =
     bindR (requireR Assert_Abort (length keys = length values)) (\<lambda>_.
       ldb_result (ldb_write L (map2 B_Put keys values) db))"

definition LevelDb_MPutKV_map :: "'db leveldb \<Rightarrow> (bytes \<times> bytes) list \<Rightarrow> 'db \<Rightarrow> (status \<times> 'db) res" where
  "LevelDb_MPutKV_map L kv_map db =
     ldb_result (ldb_write L (map (\<lambda>(k, v). B_Put k v) kv_map) db)"

definition LevelDb_GetKV :: "'db leveldb \<Rightarrow> bytes \<Rightarrow> bytes \<Rightarrow> 'db \<Rightarrow> (status \<times> bytes) res" where
  "LevelDb_GetKV L key value db =
     (case ldb_get L key db of (st, vo) \<Rightarrow>
        let value1 = (case vo of Some v \<Rightarrow> v | None \<Rightarrow> value) in
        Inr (case st of L_not_found \<Rightarrow> C_STORAGE_KV_NOT_FOUND
             | L_error \<Rightarrow> C_STORAGE_ERROR | L_ok \<Rightarrow> C_OK, value1))"

text \<open>The loop of \<open>MGetKV\<close> appends to the caller's vector; the assertion behind it compares the
  whole vector with the keys.\<close>

fun LevelDb_MGetKV_loop :: "'db leveldb \<Rightarrow> bytes list \<Rightarrow> bytes list \<Rightarrow> 'db \<Rightarrow> (status \<times> bytes list) res" where
  "LevelDb_MGetKV_loop L [] values db = Inr (C_OK, values)"
| "LevelDb_MGetKV_loop L (key # keys) values db =
     bindR (LevelDb_GetKV L key [] db) (\<lambda>(st, value).
       if st \<noteq> C_OK then Inr (st, values)
       else LevelDb_MGetKV_loop L keys (values @ [value]) db)"

definition LevelDb_MGetKV :: "'db leveldb \<Rightarrow> bytes list \<Rightarrow> bytes list \<Rightarrow> 'db \<Rightarrow> (status \<times> bytes list) res" where
  "LevelDb_MGetKV L keys values db =
     bindR (LevelDb_MGetKV_loop L keys values db) (\<lambda>(st, values1).
       if st \<noteq> C_OK then Inr (st, values1)
       else bindR (requireR Assert_Abort (length keys = length values1)) (\<lambda>_.
         Inr (C_OK, values1)))"

definition LevelDb_DelKV :: "'db leveldb \<Rightarrow> bytes \<Rightarrow> 'db \<Rightarrow> (status \<times> 'db) res" where
  "LevelDb_DelKV L key db = ldb_result (ldb_delete L key db)"

definition LevelDb_MDelKV :: "'db leveldb \<Rightarrow> bytes list \<Rightarrow> 'db \<Rightarrow> (status \<times> 'db) res" where
  "LevelDb_MDelKV L keys db = ldb_result (ldb_write L (map B_Delete keys) db)"

definition LevelDb_Incrby ::
    "'db leveldb \<Rightarrow> bytes \<Rightarrow> u64 \<Rightarrow> 'db \<Rightarrow> (status \<times> u64 option \<times> 'db) res" where
  "LevelDb_Incrby L key step db =
     (case ldb_get L key db of (st, vo) \<Rightarrow>
        let value = counter_text vo;
            (st1, db1) = (if st = L_not_found then ldb_put L key value db else (st, db))
        in if st1 = L_ok then
             bindR (std_stoll value) (\<lambda>n.
               let new_val = word_of_int n + step;
                   (st2, db2) = ldb_write L
                     [B_Delete key, B_Put key (dec_of_nat (unat new_val))] db1
               in Inr (if st2 = L_ok then C_OK else C_STORAGE_ERROR, Some new_val, db2))
           else Inr (C_STORAGE_ERROR, None, db1))"

definition LevelDbClient :: "'db leveldb \<Rightarrow> 'db kv_api" where
  "LevelDbClient L =
     \<lparr>PutKV = LevelDb_PutKV L, MPutKV = LevelDb_MPutKV L, MPutKV_map = LevelDb_MPutKV_map L,
      GetKV = LevelDb_GetKV L, MGetKV = LevelDb_MGetKV L, DelKV = LevelDb_DelKV L,
      MDelKV = LevelDb_MDelKV L, Incrby = LevelDb_Incrby L\<rparr>"

text \<open>Opening: \<open>open_db\<close> is \<open>leveldb::DB::Open\<close>; a database that cannot be opened is a failed assertion, so
  the singleton is never null.\<close>

definition LevelDbClient_Create :: "'db leveldb \<Rightarrow> (bytes \<Rightarrow> ldb_status \<times> 'db) \<Rightarrow> bytes \<Rightarrow> ('db kv_api \<times> 'db) res" where
  "LevelDbClient_Create L open_db dir =
     (case open_db dir of (st, db) \<Rightarrow>
        bindR (requireR Assert_Abort (st = L_ok)) (\<lambda>_. Inr (LevelDbClient L, db)))"

definition KvStorageAPISingleton_Init ::
    "'db leveldb \<Rightarrow> (bytes \<Rightarrow> ldb_status \<times> 'db) \<Rightarrow> bytes \<Rightarrow> (status \<times> 'db kv_api \<times> 'db) res" where
  "KvStorageAPISingleton_Init L open_db dir =
     bindR (LevelDbClient_Create L open_db dir) (\<lambda>(kv, db). Inr (C_OK, kv, db))"

lemmas LevelDb_defs = LevelDb_PutKV_def LevelDb_MPutKV_def LevelDb_MPutKV_map_def
  LevelDb_GetKV_def LevelDb_MGetKV_def LevelDb_DelKV_def LevelDb_MDelKV_def
  LevelDb_Incrby_def ldb_result_def

section \<open>The documented behaviour of LevelDB\<close>

text \<open>What \<open>leveldb/db.h\<close> documents of a database without I/O errors: a put or delete takes
  effect, a batch is applied in order as one write, a get finds exactly what is stored.\<close>

locale leveldb_spec =
  fixes L :: "'db leveldb"
    and view :: "'db \<Rightarrow> bytes \<rightharpoonup> bytes"
  assumes put_doc: "\<exists>db'. ldb_put L k v db = (L_ok, db') \<and> view db' = (view db)(k \<mapsto> v)"
    and delete_doc: "\<exists>db'. ldb_delete L k db = (L_ok, db') \<and> view db' = (view db)(k := None)"
    and write_doc: "\<exists>db'. ldb_write L ops db = (L_ok, db') \<and>
      view db' = foldl batch_step (view db) ops"
    and get_hit_doc: "view db k = Some v \<Longrightarrow> ldb_get L k db = (L_ok, Some v)"
    and get_miss_doc: "view db k = None \<Longrightarrow> ldb_get L k db = (L_not_found, None)"
begin

lemma write_result: "\<exists>db'. ldb_result (ldb_write L ops db) = Inr (C_OK, db') \<and>
    view db' = foldl batch_step (view db) ops"
  using write_doc [of ops db] by (auto simp: ldb_result_def)

lemma get_result: "LevelDb_GetKV L k old db =
    (case view db k of Some v \<Rightarrow> Inr (C_OK, v) | None \<Rightarrow> Inr (C_STORAGE_KV_NOT_FOUND, old))"
  by (simp add: LevelDb_GetKV_def get_hit_doc get_miss_doc split: option.split)

lemma mget_loop: "(\<And>k. k \<in> set ks \<Longrightarrow> view db k = Some (f k)) \<Longrightarrow>
    LevelDb_MGetKV_loop L ks vs db = Inr (C_OK, vs @ map f ks)"
  by (induction ks arbitrary: vs) (auto simp: get_result)

end

lemma batch_puts: "length ks = length vs \<Longrightarrow>
    foldl batch_step m (map2 B_Put ks vs) = m(ks [\<mapsto>] vs)"
  by (induction ks vs arbitrary: m rule: list_induct2) auto

lemma batch_put_map: "distinct (map fst kvs) \<Longrightarrow>
    foldl batch_step m (map (\<lambda>(k, v). B_Put k v) kvs) = m ++ map_of kvs"
proof (induction kvs arbitrary: m)
  case (Cons kv kvs)
  obtain k v where kv: "kv = (k, v)" by (cases kv)
  with Cons.prems have "map_of kvs k = None" by (auto simp: map_of_eq_None_iff)
  with Cons kv show ?case
    by (auto simp: fun_eq_iff map_add_def split: option.split)
qed simp

lemma batch_deletes: "foldl batch_step m (map B_Delete ks) = m |` (- set ks)"
  by (induction ks arbitrary: m) (auto simp: fun_eq_iff restrict_map_def)

sublocale leveldb_spec \<subseteq> client: kv_store "LevelDbClient L" view
proof
  fix k v s show "\<exists>s'. PutKV (LevelDbClient L) k v s = Inr (C_OK, s') \<and>
      view s' = (view s)(k \<mapsto> v)"
    using put_doc [of k v s] by (auto simp: LevelDbClient_def LevelDb_defs)
next
  fix ks vs :: "bytes list" and s assume "length ks = length vs"
  then show "\<exists>s'. MPutKV (LevelDbClient L) ks vs s = Inr (C_OK, s') \<and>
      view s' = (view s)(ks [\<mapsto>] vs)"
    using write_result [of "map2 B_Put ks vs" s]
    by (simp add: LevelDbClient_def LevelDb_MPutKV_def batch_puts)
next
  fix m :: "(bytes \<times> bytes) list" and s assume "distinct (map fst m)"
  then show "\<exists>s'. MPutKV_map (LevelDbClient L) m s = Inr (C_OK, s') \<and>
      view s' = view s ++ map_of m"
    using write_result [of "map (\<lambda>(k, v). B_Put k v) m" s]
    by (simp add: LevelDbClient_def LevelDb_MPutKV_map_def batch_put_map)
next
  fix s k v old assume "view s k = Some v"
  then show "GetKV (LevelDbClient L) k old s = Inr (C_OK, v)"
    by (simp add: LevelDbClient_def get_result)
next
  fix s k old assume "view s k = None"
  then show "GetKV (LevelDbClient L) k old s = Inr (C_STORAGE_KV_NOT_FOUND, old)"
    by (simp add: LevelDbClient_def get_result)
next
  fix ks s f assume "\<And>k. k \<in> set ks \<Longrightarrow> view s k = Some (f k)"
  then show "MGetKV (LevelDbClient L) ks [] s = Inr (C_OK, map f ks)"
    by (simp add: LevelDbClient_def LevelDb_MGetKV_def mget_loop)
next
  fix k s show "\<exists>s'. DelKV (LevelDbClient L) k s = Inr (C_OK, s') \<and>
      view s' = (view s)(k := None)"
    using delete_doc [of k s] by (auto simp: LevelDbClient_def LevelDb_defs)
next
  fix ks s show "\<exists>s'. MDelKV (LevelDbClient L) ks s = Inr (C_OK, s') \<and>
      view s' = view s |` (- set ks)"
    using write_result [of "map B_Delete ks" s]
    by (simp add: LevelDbClient_def LevelDb_MDelKV_def batch_deletes)
next
  fix s k step v assume add: "counter_add (view s k) step = Inr v"
  then obtain n where n: "std_stoll (counter_text (view s k)) = Inr n" "v = word_of_int n + step"
    by (auto simp: counter_add_def bindR_Inr_iff)
  let ?ops = "[B_Delete k, B_Put k (dec_of_nat (unat v))]"
  show "\<exists>s'. Incrby (LevelDbClient L) k step s = Inr (C_OK, Some v, s') \<and>
      view s' = (view s)(k \<mapsto> dec_of_nat (unat v))"
  proof (cases "view s k")
    case None
    obtain s1 where s1: "ldb_put L k [48] s = (L_ok, s1)" "view s1 = (view s)(k \<mapsto> [48])"
      using put_doc by blast
    obtain s2 where "ldb_write L ?ops s1 = (L_ok, s2)"
      "view s2 = foldl batch_step (view s1) ?ops" using write_doc by blast
    with s1 n None show ?thesis
      by (simp add: LevelDbClient_def LevelDb_Incrby_def get_miss_doc counter_text_def)
  next
    case (Some t)
    obtain s2 where "ldb_write L ?ops s = (L_ok, s2)"
      "view s2 = foldl batch_step (view s) ?ops" using write_doc by blast
    with n Some show ?thesis
      by (simp add: LevelDbClient_def LevelDb_Incrby_def get_hit_doc counter_text_def)
  qed
qed

context leveldb_spec
begin

lemma client_store: "kv_store (LevelDbClient L) view"
  by (rule client.kv_store_axioms)

end

section \<open>A database in memory\<close>

text \<open>An instance of the documented behaviour: the database is its contents.\<close>

definition mem_leveldb :: "(bytes \<rightharpoonup> bytes) leveldb" where
  "mem_leveldb =
     \<lparr>ldb_put = (\<lambda>k v db. (L_ok, db(k \<mapsto> v))),
      ldb_delete = (\<lambda>k db. (L_ok, db(k := None))),
      ldb_write = (\<lambda>ops db. (L_ok, foldl batch_step db ops)),
      ldb_get = (\<lambda>k db. case db k of Some v \<Rightarrow> (L_ok, Some v) | None \<Rightarrow> (L_not_found, None))\<rparr>"

interpretation mem: leveldb_spec mem_leveldb id
  by unfold_locales (simp_all add: mem_leveldb_def)

lemma mem_leveldb_spec: "leveldb_spec mem_leveldb id"
  by (rule mem.leveldb_spec_axioms)

end
