(* ===== verification/Protobuf.thy ===== *)
theory Protobuf
  imports Codec
begin

text \<open>
  The protocol buffer messages of \<open>proto/bptree.proto\<close> and \<open>proto/schema.proto\<close> as records. The
  classes the build generates from them, and the wire format of the library, are not part of
  the repository's code: serializing and parsing are arguments of the model (\<open>proto_ops\<close>),
  and the locale \<open>protobuf\<close> states what the library documents, that parsing a serialized
  message gives the message back.
\<close>

section \<open>Tree nodes\<close>

record BptStatisticProto =
  sp_min_key :: bytes
  sp_max_key :: bytes
  sp_count :: u64
  sp_node_size :: u64

datatype BptNodeType = NON_LEAF | LEAF

record BptNodeRefProto =
  rp_id :: u64
  rp_type :: BptNodeType
  rp_stat :: BptStatisticProto

record BptLeafNodeRefProto =
  lp_id :: u64
  lp_keys :: bytes
  lp_values :: bytes

record BptNodeProto =
  np_id :: u64
  np_children :: "BptNodeRefProto list"

section \<open>Schemas\<close>

record ColumnProto =
  cp_id :: u64
  cp_name :: bytes
  cp_table_id :: u64
  cp_table_name :: bytes
  cp_type :: u32
  cp_charset :: u32
  cp_comment :: bytes

record IndexProto =
  ip_id :: u64
  ip_name :: bytes
  ip_table_id :: u64
  ip_table_name :: bytes
  ip_columns :: "ColumnProto list"
  ip_type :: u32
  ip_comment :: bytes
  ip_root_node_id :: u64
  ip_max_tree_node_id :: u64

record TableProto =
  tp_id :: u64
  tp_name :: bytes
  tp_database_id :: u64
  tp_database_name :: bytes
  tp_columns :: "ColumnProto list"
  tp_col_index :: "IndexProto list"
  tp_create_ts :: u64
  tp_update_ts :: u64

record DatabaseProto =
  dp_id :: u64
  dp_name :: bytes
  dp_table_ids :: "u64 list"
  dp_create_ts :: u64
  dp_update_ts :: u64
  dp_comment :: bytes

section \<open>The library\<close>

record proto_ops =
  ser_leaf :: "BptLeafNodeRefProto \<Rightarrow> bytes"
  parse_leaf :: "bytes \<Rightarrow> BptLeafNodeRefProto option"
  ser_node :: "BptNodeProto \<Rightarrow> bytes"
  parse_node :: "bytes \<Rightarrow> BptNodeProto option"
  ser_table :: "TableProto \<Rightarrow> bytes"
  parse_table :: "bytes \<Rightarrow> TableProto option"
  ser_database :: "DatabaseProto \<Rightarrow> bytes"
  parse_database :: "bytes \<Rightarrow> DatabaseProto option"

text \<open>A field of type \<open>string\<close> holds UTF-8 text: the library refuses to parse a message in which
  one does not. Fields of type \<open>bytes\<close> hold anything.\<close>

definition utf8_cont :: "u8 \<Rightarrow> bool" where
  "utf8_cont b \<longleftrightarrow> 0x80 \<le> b \<and> b \<le> 0xBF"

fun utf8 :: "bytes \<Rightarrow> bool" where
  "utf8 [] = True"
| "utf8 (a # s) =
     (if a < 0x80 then utf8 s
      else if 0xC2 \<le> a \<and> a \<le> 0xDF then
        (case s of b # r \<Rightarrow> utf8_cont b \<and> utf8 r | _ \<Rightarrow> False)
      else if 0xE0 \<le> a \<and> a \<le> 0xEF then
        (case s of b # c # r \<Rightarrow> utf8_cont b \<and> utf8_cont c \<and> (a = 0xE0 \<longrightarrow> 0xA0 \<le> b) \<and>
           (a = 0xED \<longrightarrow> b < 0xA0) \<and> utf8 r | _ \<Rightarrow> False)
      else if 0xF0 \<le> a \<and> a \<le> 0xF4 then
        (case s of b # c # d # r \<Rightarrow> utf8_cont b \<and> utf8_cont c \<and> utf8_cont d \<and>
           (a = 0xF0 \<longrightarrow> 0x90 \<le> b) \<and> (a = 0xF4 \<longrightarrow> b < 0x90) \<and> utf8 r | _ \<Rightarrow> False)
      else False)"

definition utf8_column :: "ColumnProto \<Rightarrow> bool" where
  "utf8_column c \<longleftrightarrow> utf8 (cp_name c) \<and> utf8 (cp_table_name c) \<and> utf8 (cp_comment c)"

definition utf8_index :: "IndexProto \<Rightarrow> bool" where
  "utf8_index i \<longleftrightarrow> utf8 (ip_name i) \<and> utf8 (ip_table_name i) \<and> utf8 (ip_comment i) \<and>
     list_all utf8_column (ip_columns i)"

definition utf8_table :: "TableProto \<Rightarrow> bool" where
  "utf8_table t \<longleftrightarrow> utf8 (tp_name t) \<and> utf8 (tp_database_name t) \<and>
     list_all utf8_column (tp_columns t) \<and> list_all utf8_index (tp_col_index t)"

definition utf8_database :: "DatabaseProto \<Rightarrow> bool" where
  "utf8_database d \<longleftrightarrow> utf8 (dp_name d) \<and> utf8 (dp_comment d)"

locale protobuf =
  fixes pb :: proto_ops
  assumes leaf_doc [simp]: "parse_leaf pb (ser_leaf pb m) = Some m"
    and node_doc [simp]: "parse_node pb (ser_node pb n) = Some n"
    and table_doc: "utf8_table t \<Longrightarrow> parse_table pb (ser_table pb t) = Some t"
    and database_doc: "utf8_database d \<Longrightarrow> parse_database pb (ser_database pb d) = Some d"
begin

lemma ser_node_inj: "ser_node pb m = ser_node pb n \<Longrightarrow> m = n"
  by (metis node_doc option.inject)

lemma ser_leaf_inj: "ser_leaf pb m = ser_leaf pb n \<Longrightarrow> m = n"
  by (metis leaf_doc option.inject)

end

section \<open>An instance\<close>

text \<open>A self-delimiting format that shows the law can hold: a byte string is written with a 1 in
  front of every byte and a 0 at the end, a list likewise, a number as eight bytes. A reader
  takes a value off the front of its input.\<close>

type_synonym 'a reader = "bytes \<Rightarrow> ('a \<times> bytes) option"

fun sd_bytes :: "bytes \<Rightarrow> bytes" where
  "sd_bytes [] = [0]"
| "sd_bytes (b # bs) = 1 # b # sd_bytes bs"

fun rd_bytes :: "bytes reader" where
  "rd_bytes (t # rest) =
     (if t = 0 then Some ([], rest)
      else case rest of [] \<Rightarrow> None
        | b # rest1 \<Rightarrow> (case rd_bytes rest1 of None \<Rightarrow> None | Some (bs, r) \<Rightarrow> Some (b # bs, r)))"
| "rd_bytes [] = None"

definition rd_u64 :: "u64 reader" where
  "rd_u64 s = (if length s < 8 then None else Some (of_be64 (take 8 s), drop 8 s))"

definition sd_u32 :: "u32 \<Rightarrow> bytes" where
  "sd_u32 w = be32 w"

definition rd_u32 :: "u32 reader" where
  "rd_u32 s = (if length s < 4 then None else Some (of_be32 (take 4 s), drop 4 s))"

definition rd_bind :: "'a reader \<Rightarrow> ('a \<Rightarrow> 'b reader) \<Rightarrow> 'b reader" where
  "rd_bind r f s = (case r s of None \<Rightarrow> None | Some (x, rest) \<Rightarrow> f x rest)"

definition rd_ret :: "'a \<Rightarrow> 'a reader" where
  "rd_ret x s = Some (x, s)"

text \<open>A list of elements, each with a 1 in front, ended by a 0; the fuel is the input's length.\<close>

definition sd_list :: "('a \<Rightarrow> bytes) \<Rightarrow> 'a list \<Rightarrow> bytes" where
  "sd_list f xs = concat (map (\<lambda>x. 1 # f x) xs) @ [0]"

fun rd_list_fuel :: "nat \<Rightarrow> 'a reader \<Rightarrow> 'a list reader" where
  "rd_list_fuel 0 r s = None"
| "rd_list_fuel (Suc n) r s =
     (case s of [] \<Rightarrow> None
      | t # rest \<Rightarrow> if t = 0 then Some ([], rest)
          else rd_bind r (\<lambda>x. rd_bind (rd_list_fuel n r) (\<lambda>xs. rd_ret (x # xs))) rest)"

definition rd_list :: "'a reader \<Rightarrow> 'a list reader" where
  "rd_list r s = rd_list_fuel (length s) r s"

named_theorems rd_simps \<open>a reader gives back what its writer wrote\<close>

lemma rd_bytes_sd [rd_simps]: "rd_bytes (sd_bytes s @ rest) = Some (s, rest)"
  by (induction s) simp_all

lemma rd_u64_be [rd_simps]: "rd_u64 (be64 w @ rest) = Some (w, rest)"
  by (simp add: rd_u64_def)

lemma rd_u32_be [rd_simps]: "rd_u32 (sd_u32 w @ rest) = Some (w, rest)"
  by (simp add: rd_u32_def sd_u32_def)

lemma rd_bind_simp [rd_simps]: "r s = Some (x, rest) \<Longrightarrow> rd_bind r f s = f x rest"
  by (simp add: rd_bind_def)

lemma rd_ret_simp [rd_simps]: "rd_ret x s = Some (x, s)"
  by (simp add: rd_ret_def)

lemma rd_list_fuel_sd:
  assumes "\<And>x rest. r (f x @ rest) = Some (x, rest)"
  shows "length xs < n \<Longrightarrow> rd_list_fuel n r (sd_list f xs @ rest) = Some (xs, rest)"
proof (induction xs arbitrary: n)
  case Nil
  then obtain m where "n = Suc m" by (cases n) simp_all
  then show ?case by (simp add: sd_list_def)
next
  case (Cons x xs)
  from Cons.prems obtain m where m: "n = Suc m" "length xs < m" by (cases n) simp_all
  have "rd_bind r g (f x @ sd_list f xs @ rest) = g x (sd_list f xs @ rest)" for g :: "'a \<Rightarrow> 'a list reader"
    by (simp add: rd_bind_def assms)
  with m Cons.IH [OF m(2)] show ?case
    by (simp add: sd_list_def rd_bind_def assms rd_ret_def)
qed

lemma length_sd_list: "length xs < length (sd_list f xs)"
  by (induction xs) (simp_all add: sd_list_def)

lemma rd_list_sd [rd_simps]:
  assumes "\<And>x rest. r (f x @ rest) = Some (x, rest)"
  shows "rd_list r (sd_list f xs @ rest) = Some (xs, rest)"
  unfolding rd_list_def
  by (rule rd_list_fuel_sd [OF assms]) (use length_sd_list [of xs f] in simp)

definition run_reader :: "'a reader \<Rightarrow> bytes \<Rightarrow> 'a option" where
  "run_reader r s = map_option fst (r s)"

fun sd_type :: "BptNodeType \<Rightarrow> bytes" where
  "sd_type NON_LEAF = [0]"
| "sd_type LEAF = [1]"

fun rd_type :: "BptNodeType reader" where
  "rd_type (b # rest) = Some (if b = 0 then NON_LEAF else LEAF, rest)"
| "rd_type [] = None"

lemma rd_type_sd [rd_simps]: "rd_type (sd_type t @ rest) = Some (t, rest)"
  by (cases t) simp_all

definition sd_ref :: "BptNodeRefProto \<Rightarrow> bytes" where
  "sd_ref r = be64 (rp_id r) @ sd_type (rp_type r) @ sd_bytes (sp_min_key (rp_stat r)) @
     sd_bytes (sp_max_key (rp_stat r)) @ be64 (sp_count (rp_stat r)) @
     be64 (sp_node_size (rp_stat r))"

definition rd_ref :: "BptNodeRefProto reader" where
  "rd_ref = rd_bind rd_u64 (\<lambda>i. rd_bind rd_type (\<lambda>t. rd_bind rd_bytes (\<lambda>mn.
     rd_bind rd_bytes (\<lambda>mx. rd_bind rd_u64 (\<lambda>c. rd_bind rd_u64 (\<lambda>z. rd_ret
       \<lparr>rp_id = i, rp_type = t,
        rp_stat = \<lparr>sp_min_key = mn, sp_max_key = mx, sp_count = c, sp_node_size = z\<rparr>\<rparr>))))))"

lemma rd_ref_sd [rd_simps]: "rd_ref (sd_ref r @ rest) = Some (r, rest)"
  by (simp add: rd_ref_def sd_ref_def rd_simps)

definition sd_leaf :: "BptLeafNodeRefProto \<Rightarrow> bytes" where
  "sd_leaf m = be64 (lp_id m) @ sd_bytes (lp_keys m) @ sd_bytes (lp_values m) @ []"

definition rd_leaf :: "BptLeafNodeRefProto reader" where
  "rd_leaf = rd_bind rd_u64 (\<lambda>i. rd_bind rd_bytes (\<lambda>ks. rd_bind rd_bytes (\<lambda>vs.
     rd_ret \<lparr>lp_id = i, lp_keys = ks, lp_values = vs\<rparr>)))"

definition sd_node :: "BptNodeProto \<Rightarrow> bytes" where
  "sd_node m = be64 (np_id m) @ sd_list sd_ref (np_children m) @ []"

definition rd_node :: "BptNodeProto reader" where
  "rd_node = rd_bind rd_u64 (\<lambda>i. rd_bind (rd_list rd_ref) (\<lambda>cs.
     rd_ret \<lparr>np_id = i, np_children = cs\<rparr>))"

definition sd_column :: "ColumnProto \<Rightarrow> bytes" where
  "sd_column m = be64 (cp_id m) @ sd_bytes (cp_name m) @ be64 (cp_table_id m) @
     sd_bytes (cp_table_name m) @ sd_u32 (cp_type m) @ sd_u32 (cp_charset m) @
     sd_bytes (cp_comment m)"

definition rd_column :: "ColumnProto reader" where
  "rd_column = rd_bind rd_u64 (\<lambda>i. rd_bind rd_bytes (\<lambda>n. rd_bind rd_u64 (\<lambda>ti.
     rd_bind rd_bytes (\<lambda>tn. rd_bind rd_u32 (\<lambda>ty. rd_bind rd_u32 (\<lambda>cs. rd_bind rd_bytes (\<lambda>co.
       rd_ret \<lparr>cp_id = i, cp_name = n, cp_table_id = ti, cp_table_name = tn, cp_type = ty,
         cp_charset = cs, cp_comment = co\<rparr>)))))))"

lemma rd_column_sd [rd_simps]: "rd_column (sd_column m @ rest) = Some (m, rest)"
  by (simp add: rd_column_def sd_column_def rd_simps)

definition sd_index :: "IndexProto \<Rightarrow> bytes" where
  "sd_index m = be64 (ip_id m) @ sd_bytes (ip_name m) @ be64 (ip_table_id m) @
     sd_bytes (ip_table_name m) @ sd_list sd_column (ip_columns m) @ sd_u32 (ip_type m) @
     sd_bytes (ip_comment m) @ be64 (ip_root_node_id m) @ be64 (ip_max_tree_node_id m)"

definition rd_index :: "IndexProto reader" where
  "rd_index = rd_bind rd_u64 (\<lambda>i. rd_bind rd_bytes (\<lambda>n. rd_bind rd_u64 (\<lambda>ti.
     rd_bind rd_bytes (\<lambda>tn. rd_bind (rd_list rd_column) (\<lambda>cols. rd_bind rd_u32 (\<lambda>ty.
     rd_bind rd_bytes (\<lambda>co. rd_bind rd_u64 (\<lambda>rn. rd_bind rd_u64 (\<lambda>mx.
       rd_ret \<lparr>ip_id = i, ip_name = n, ip_table_id = ti, ip_table_name = tn, ip_columns = cols,
         ip_type = ty, ip_comment = co, ip_root_node_id = rn, ip_max_tree_node_id = mx\<rparr>)))))))))"

lemma rd_index_sd [rd_simps]: "rd_index (sd_index m @ rest) = Some (m, rest)"
  by (simp add: rd_index_def sd_index_def rd_simps)

definition sd_table :: "TableProto \<Rightarrow> bytes" where
  "sd_table m = be64 (tp_id m) @ sd_bytes (tp_name m) @ be64 (tp_database_id m) @
     sd_bytes (tp_database_name m) @ sd_list sd_column (tp_columns m) @
     sd_list sd_index (tp_col_index m) @ be64 (tp_create_ts m) @ be64 (tp_update_ts m) @ []"

definition rd_table :: "TableProto reader" where
  "rd_table = rd_bind rd_u64 (\<lambda>i. rd_bind rd_bytes (\<lambda>n. rd_bind rd_u64 (\<lambda>di.
     rd_bind rd_bytes (\<lambda>dn. rd_bind (rd_list rd_column) (\<lambda>cols.
     rd_bind (rd_list rd_index) (\<lambda>ix. rd_bind rd_u64 (\<lambda>ct. rd_bind rd_u64 (\<lambda>ut.
       rd_ret \<lparr>tp_id = i, tp_name = n, tp_database_id = di, tp_database_name = dn,
         tp_columns = cols, tp_col_index = ix, tp_create_ts = ct, tp_update_ts = ut\<rparr>))))))))"

definition sd_database :: "DatabaseProto \<Rightarrow> bytes" where
  "sd_database m = be64 (dp_id m) @ sd_bytes (dp_name m) @ sd_list be64 (dp_table_ids m) @
     be64 (dp_create_ts m) @ be64 (dp_update_ts m) @ sd_bytes (dp_comment m) @ []"

definition rd_database :: "DatabaseProto reader" where
  "rd_database = rd_bind rd_u64 (\<lambda>i. rd_bind rd_bytes (\<lambda>n. rd_bind (rd_list rd_u64) (\<lambda>ts.
     rd_bind rd_u64 (\<lambda>ct. rd_bind rd_u64 (\<lambda>ut. rd_bind rd_bytes (\<lambda>co.
       rd_ret \<lparr>dp_id = i, dp_name = n, dp_table_ids = ts, dp_create_ts = ct, dp_update_ts = ut,
         dp_comment = co\<rparr>))))))"

definition sd_proto :: proto_ops where
  "sd_proto =
     \<lparr>ser_leaf = sd_leaf, parse_leaf = run_reader rd_leaf,
      ser_node = sd_node, parse_node = run_reader rd_node,
      ser_table = sd_table, parse_table = run_reader rd_table,
      ser_database = sd_database, parse_database = run_reader rd_database\<rparr>"

interpretation sd: protobuf sd_proto
proof
  show "parse_leaf sd_proto (ser_leaf sd_proto m) = Some m" for m
    by (simp add: sd_proto_def run_reader_def rd_leaf_def sd_leaf_def rd_simps
        del: append_Nil2)
  show "parse_node sd_proto (ser_node sd_proto m) = Some m" for m
    by (simp add: sd_proto_def run_reader_def rd_node_def sd_node_def rd_simps
        del: append_Nil2)
  show "parse_table sd_proto (ser_table sd_proto m) = Some m" for m
    by (simp add: sd_proto_def run_reader_def rd_table_def sd_table_def rd_simps
        del: append_Nil2)
  show "parse_database sd_proto (ser_database sd_proto m) = Some m" for m
    by (simp add: sd_proto_def run_reader_def rd_database_def sd_database_def rd_simps
        del: append_Nil2)
qed

lemma sd_protobuf: "protobuf sd_proto"
  by (rule sd.protobuf_axioms)

end
