(* ===== verification/BptNode.thy ===== *)
theory BptNode
  imports SchemaCodec KvStorage Protobuf
begin

text \<open>
  The nodes of the B+-tree (\<open>storage/bplus_tree_node.cc\<close>). Nodes live in an arena and refer to
  each other by pointers, so the tree is a heap from pointers to node records, with the state
  of the \<open>TreeCtx\<close> (the unsaved nodes, the node id counter, the storage) beside it. Operations
  that only touch one node are functions on the node record; the others take the tree state.

  Left out of the node record: \<open>next_\<close> and \<open>prev_\<close>, which the code never sets, and
  \<open>tree_ctx_\<close>, which is the same context in all nodes of a tree.
\<close>

section \<open>State\<close>

type_synonym ptr = nat
type_synonym kvs = "(bytes \<times> bytes) list"

record node_stat =
  max_key :: bytes
  min_key :: bytes
  count :: u64
  node_size :: u64

definition stat_init :: node_stat where
  "stat_init = \<lparr>max_key = [], min_key = [], count = 0, node_size = 0\<rparr>"

record bpt_node =
  node_id :: u64
  is_loaded :: bool
  is_leaf :: bool
  is_root :: bool
  parent :: "ptr option"
  children :: "ptr list"
  kvs :: "kvs"
  write_kvs :: "bytes \<rightharpoonup> bytes"
  stat :: node_stat

record tree_schema =
  ts_db_id :: u64
  ts_table_id :: u64
  ts_index_id :: u64
  ts_root_id :: u64
  ts_tree_id :: u64

text \<open>\<open>unsaved\<close> is the hash map \<open>unsaved_nodes_\<close> in the order it is iterated.\<close>

record 's tree =
  heap :: "ptr \<Rightarrow> bpt_node option"
  next_ptr :: ptr
  unsaved :: "(u64 \<times> ptr) list"
  ctx_id :: u64
  schema :: tree_schema
  storage :: 's
  root :: ptr

definition deref :: "'s tree \<Rightarrow> ptr \<Rightarrow> bpt_node res" where
  "deref t p = (case heap t p of None \<Rightarrow> Inl Undefined_Behaviour | Some n \<Rightarrow> Inr n)"

definition put :: "ptr \<Rightarrow> bpt_node \<Rightarrow> 's tree \<Rightarrow> 's tree" where
  "put p n t = t\<lparr>heap := (heap t)(p \<mapsto> n)\<rparr>"

text \<open>A member function that changes only its own node.\<close>

definition on_node :: "ptr \<Rightarrow> (bpt_node \<Rightarrow> bpt_node res) \<Rightarrow> 's tree \<Rightarrow> 's tree res" where
  "on_node p f t = bindR (deref t p) (\<lambda>n. bindR (f n) (\<lambda>n1. Inr (put p n1 t)))"

text \<open>\<open>Arena::CreateObject<BptNode>\<close>: a fresh pointer for the new node.\<close>

definition create_node :: "bpt_node \<Rightarrow> 's tree \<Rightarrow> ptr \<times> 's tree" where
  "create_node n t = (next_ptr t, (put (next_ptr t) n t)\<lparr>next_ptr := next_ptr t + 1\<rparr>)"

section \<open>The tree context\<close>

definition MaxNodeID :: "'s tree \<Rightarrow> u64" where
  "MaxNodeID t = ctx_id t"

definition AllocateNodeID :: "'s tree \<Rightarrow> u64 \<times> 's tree" where
  "AllocateNodeID t = (ctx_id t + 1, t\<lparr>ctx_id := ctx_id t + 1\<rparr>)"

fun umap_put :: "'k \<Rightarrow> 'v \<Rightarrow> ('k \<times> 'v) list \<Rightarrow> ('k \<times> 'v) list" where
  "umap_put k v [] = [(k, v)]"
| "umap_put k v ((k', v') # m) = (if k = k' then (k, v) # m else (k', v') # umap_put k v m)"

definition CollectUnsavedTreeNode :: "ptr \<Rightarrow> 's tree \<Rightarrow> 's tree res" where
  "CollectUnsavedTreeNode p t = bindR (deref t p) (\<lambda>n.
     Inr (t\<lparr>unsaved := umap_put (node_id n) p (unsaved t)\<rparr>))"

definition RemoveUnsavedTreeNode :: "ptr \<Rightarrow> 's tree \<Rightarrow> 's tree res" where
  "RemoveUnsavedTreeNode p t = bindR (deref t p) (\<lambda>n.
     Inr (t\<lparr>unsaved := filter (\<lambda>(k, _). k \<noteq> node_id n) (unsaved t)\<rparr>))"

section \<open>Constructors\<close>

text \<open>\<open>BptNode(ctx, parent, proto)\<close>: a child known by the reference its parent stores.\<close>

definition BptNode_ref :: "ptr \<Rightarrow> BptNodeRefProto \<Rightarrow> bpt_node" where
  "BptNode_ref par r =
     \<lparr>node_id = rp_id r, is_loaded = True, is_leaf = (rp_type r = LEAF), is_root = False,
      parent = Some par, children = [], kvs = [], write_kvs = Map.empty,
      stat = \<lparr>max_key = sp_max_key (rp_stat r), min_key = sp_min_key (rp_stat r),
              count = sp_count (rp_stat r), node_size = sp_node_size (rp_stat r)\<rparr>\<rparr>"

fun create_refs :: "ptr \<Rightarrow> BptNodeRefProto list \<Rightarrow> 's tree \<Rightarrow> ptr list \<times> 's tree" where
  "create_refs par [] t = ([], t)"
| "create_refs par (r # rs) t =
     (let (p, t1) = create_node (BptNode_ref par r) t;
          (ps, t2) = create_refs par rs t1
      in (p # ps, t2))"

definition len64 :: "bytes \<Rightarrow> u64" where
  "len64 s = of_nat (length s)"

text \<open>\<open>BptNode(ctx, proto)\<close>: the root. Its children are created in the arena first.\<close>

definition root_stat :: "BptNodeRefProto list \<Rightarrow> node_stat" where
  "root_stat rs =
     \<lparr>max_key = (if rs = [] then [] else sp_max_key (rp_stat (last rs))),
      min_key = (if rs = [] then [] else sp_min_key (rp_stat (hd rs))),
      count = sum_list (map (\<lambda>r. sp_count (rp_stat r)) rs),
      node_size = sum_list (map (\<lambda>r.
        len64 (sp_max_key (rp_stat r)) + len64 (sp_min_key (rp_stat r)) + 20) rs)\<rparr>"

definition BptNode_root :: "BptNodeProto \<Rightarrow> 's tree \<Rightarrow> ptr \<times> 's tree" where
  "BptNode_root proto t =
     (let n = \<lparr>node_id = np_id proto, is_loaded = True, is_leaf = False, is_root = True,
               parent = None, children = [], kvs = [], write_kvs = Map.empty,
               stat = root_stat (np_children proto)\<rparr>;
          (p, t1) = create_node n t;
          (ps, t2) = create_refs p (np_children proto) t1
      in (p, put p (n\<lparr>children := ps\<rparr>) t2))"

text \<open>\<open>BptNode(ctx, left, right)\<close>: a new root over two nodes.\<close>

definition BptNode_join :: "ptr \<Rightarrow> ptr \<Rightarrow> 's tree \<Rightarrow> (ptr \<times> 's tree) res" where
  "BptNode_join left right t =
     (let (i, t1) = AllocateNodeID t; self = next_ptr t1 in
      bindR (on_node left (\<lambda>n. Inr (n\<lparr>is_root := False, parent := Some self\<rparr>)) t1) (\<lambda>t2.
      bindR (on_node right (\<lambda>n. Inr (n\<lparr>is_root := False, parent := Some self\<rparr>)) t2) (\<lambda>t3.
      bindR (deref t3 left) (\<lambda>l. bindR (deref t3 right) (\<lambda>r.
        Inr (create_node
          \<lparr>node_id = i, is_loaded = True, is_leaf = False, is_root = True, parent = None,
           children = [left, right], kvs = [], write_kvs = Map.empty,
           stat = \<lparr>max_key = max_key (stat r), min_key = min_key (stat l),
                   count = count (stat l) + count (stat r),
                   node_size = len64 (min_key (stat l)) + len64 (max_key (stat l)) + 20 +
                     len64 (min_key (stat r)) + len64 (max_key (stat r)) + 20\<rparr>\<rparr> t3))))))"

text \<open>\<open>BptNode(ctx, parent, is_leaf)\<close>: a new node with the next id.\<close>

definition BptNode_new :: "ptr option \<Rightarrow> bool \<Rightarrow> 's tree \<Rightarrow> ptr \<times> 's tree" where
  "BptNode_new par leaf t =
     (let (i, t1) = AllocateNodeID t in
      create_node
        \<lparr>node_id = i, is_loaded = True, is_leaf = leaf, is_root = False, parent = par,
         children = [], kvs = [], write_kvs = Map.empty, stat = stat_init\<rparr> t1)"

section \<open>Entries of a leaf\<close>

definition IsEmpty :: "bpt_node \<Rightarrow> bool" where
  "IsEmpty n \<longleftrightarrow> children n = [] \<and> kvs n = []"

definition HasChild :: "bpt_node \<Rightarrow> bool" where
  "HasChild n \<longleftrightarrow> children n \<noteq> []"

definition BptNode_Insert :: "bytes \<Rightarrow> bytes \<Rightarrow> bpt_node \<Rightarrow> (status \<times> bpt_node) res" where
  "BptNode_Insert key value n =
     bindR (requireR Assert_Abort (is_leaf n)) (\<lambda>_.
       if smap_find key (kvs n) \<noteq> None then Inr (C_BPTREE_DUPLICATE_KEY, n)
       else if write_kvs n key \<noteq> None then Inr (C_BPTREE_ERROR, n)
       else Inr (C_OK, n\<lparr>write_kvs := (write_kvs n)(key \<mapsto> value),
                        kvs := smap_emplace key value (kvs n)\<rparr>))"

definition BptNode_Update :: "bytes \<Rightarrow> bytes \<Rightarrow> bpt_node \<Rightarrow> (status \<times> bpt_node) res" where
  "BptNode_Update key value n = Inr (C_OK, n)"

definition BptNode_Delete :: "bytes \<Rightarrow> bpt_node \<Rightarrow> (status \<times> bpt_node) res" where
  "BptNode_Delete key n =
     bindR (requireR Assert_Abort (is_leaf n)) (\<lambda>_.
       if smap_find key (kvs n) \<noteq> None
       then Inr (C_OK, n\<lparr>kvs := smap_erase key (kvs n), write_kvs := (write_kvs n)(key := None)\<rparr>)
       else Inr (C_BPTREE_ERROR, n))"

text \<open>The value is the output string, changed only when the key is found.\<close>

definition BptNode_GetItem :: "bytes \<Rightarrow> bytes \<Rightarrow> bpt_node \<Rightarrow> status \<times> bytes" where
  "BptNode_GetItem key value n =
     (case smap_find key (kvs n) of None \<Rightarrow> (C_BPTREE_ERROR, value) | Some v \<Rightarrow> (C_OK, v))"

section \<open>Statistics\<close>

definition UpdateStatByAddKV :: "bytes \<Rightarrow> bytes \<Rightarrow> bpt_node \<Rightarrow> bpt_node" where
  "UpdateStatByAddKV key value n =
     (let s1 = (stat n)\<lparr>count := of_nat (length (kvs n)),
                        node_size := node_size (stat n) + len64 value\<rparr> in
      if count s1 = 1 then
        n\<lparr>stat := s1\<lparr>max_key := key, min_key := key,
                      node_size := node_size s1 + (len64 key + len64 key + 20)\<rparr>\<rparr>
      else
        let s2 = (if IsCmpGt (DataCmp key (max_key s1))
                  then s1\<lparr>node_size := node_size s1 - len64 (max_key s1) + len64 key,
                          max_key := key\<rparr>
                  else s1);
            s3 = (if IsCmpLt (DataCmp key (min_key s2))
                  then s2\<lparr>node_size := node_size s2 - len64 (min_key s2) + len64 key,
                          min_key := key\<rparr>
                  else s2)
        in n\<lparr>stat := s3\<rparr>)"

text \<open>\<open>rbegin\<close> and \<open>begin\<close> of an empty map must not be read.\<close>

definition UpdateStatByDelKV :: "bytes \<Rightarrow> bpt_node \<Rightarrow> bpt_node res" where
  "UpdateStatByDelKV key n =
     (let s1 = (stat n)\<lparr>count := of_nat (length (kvs n))\<rparr> in
      if IsCmpEq (DataCmp key (max_key s1)) then
        bindR (requireR Undefined_Behaviour (kvs n \<noteq> [])) (\<lambda>_.
          Inr (n\<lparr>stat := s1\<lparr>node_size := node_size s1 - len64 (max_key s1),
                             max_key := fst (last (kvs n))\<rparr>\<rparr>))
      else if IsCmpEq (DataCmp key (min_key s1)) then
        bindR (requireR Undefined_Behaviour (kvs n \<noteq> [])) (\<lambda>_.
          Inr (n\<lparr>stat := s1\<lparr>node_size := node_size s1 - len64 (min_key s1),
                             min_key := fst (hd (kvs n))\<rparr>\<rparr>))
      else Inr (n\<lparr>stat := s1\<rparr>))"

text \<open>\<open>front\<close> and \<open>back\<close> are the children at both ends.\<close>

definition range_stat :: "bool \<Rightarrow> bpt_node \<Rightarrow> bpt_node \<Rightarrow> node_stat \<Rightarrow> node_stat" where
  "range_stat is_add front back s =
     (let mn = min_key (stat front);
          s1 = (if IsCmpNe (DataCmp mn (min_key s))
                then s\<lparr>node_size := node_size s - len64 (min_key s) + len64 mn, min_key := mn\<rparr>
                else s);
          mx = max_key (stat back);
          s2 = (if IsCmpNe (DataCmp mx (max_key s1))
                then s1\<lparr>node_size := node_size s1 - len64 (max_key s1) + len64 mx, max_key := mx\<rparr>
                else s1)
      in s2\<lparr>count := count s2 + (if is_add then 1 else - 1)\<rparr>)"

definition UpdateStatByRangeChange :: "bool \<Rightarrow> ptr \<Rightarrow> 's tree \<Rightarrow> 's tree res" where
  "UpdateStatByRangeChange is_add p t =
     bindR (deref t p) (\<lambda>n.
       bindR (requireR Undefined_Behaviour (children n \<noteq> [])) (\<lambda>_.
         bindR (deref t (hd (children n))) (\<lambda>front.
           bindR (deref t (last (children n))) (\<lambda>back.
             Inr (put p (n\<lparr>stat := range_stat is_add front back (stat n)\<rparr>) t)))))"

definition ResetStat :: "bpt_node \<Rightarrow> bpt_node" where
  "ResetStat n = n\<lparr>stat := stat_init\<rparr>"

definition bptree_max_node_size :: u64 where
  "bptree_max_node_size = 16 * 1024"

definition NeedSplit :: "bpt_node \<Rightarrow> bool" where
  "NeedSplit n \<longleftrightarrow>
     \<not> (if is_leaf n then length (kvs n) < 3 else length (children n) < 3) \<and>
     node_size (stat n) > bptree_max_node_size"

section \<open>Finding a child\<close>

text \<open>A \<open>ChildIt\<close> is an index into \<open>children_\<close>; \<open>cend\<close> is the length. The statistics of the
  children are read through the pointers the binary search probes.\<close>

definition child_stats :: "bpt_node \<Rightarrow> 's tree \<Rightarrow> node_stat list res" where
  "child_stats n t = mapR (\<lambda>p. bindR (deref t p) (\<lambda>c. Inr (stat c))) (children n)"

definition MaxKeyLowerBound :: "bytes \<Rightarrow> bpt_node \<Rightarrow> 's tree \<Rightarrow> nat res" where
  "MaxKeyLowerBound key n t = bindR (child_stats n t) (\<lambda>ss.
     Inr (std_partition_point (\<lambda>s. IsCmpLt (DataCmp (max_key s) key)) ss))"

definition MaxKeyUpperBound :: "bytes \<Rightarrow> bpt_node \<Rightarrow> 's tree \<Rightarrow> nat res" where
  "MaxKeyUpperBound key n t = bindR (child_stats n t) (\<lambda>ss.
     Inr (std_partition_point (\<lambda>s. \<not> IsCmpGt (DataCmp (max_key s) key)) ss))"

definition MinKeyLowerBound :: "bytes \<Rightarrow> bpt_node \<Rightarrow> 's tree \<Rightarrow> nat res" where
  "MinKeyLowerBound key n t = bindR (child_stats n t) (\<lambda>ss.
     Inr (std_partition_point (\<lambda>s. IsCmpLt (DataCmp (min_key s) key)) ss))"

definition MinKeyUpperBound :: "bytes \<Rightarrow> bpt_node \<Rightarrow> 's tree \<Rightarrow> nat res" where
  "MinKeyUpperBound key n t = bindR (child_stats n t) (\<lambda>ss.
     Inr (std_partition_point (\<lambda>s. \<not> IsCmpGt (DataCmp (min_key s) key)) ss))"

definition FindChild :: "bytes \<Rightarrow> bpt_node \<Rightarrow> 's tree \<Rightarrow> nat res" where
  "FindChild key n t =
     bindR (MaxKeyLowerBound key n t) (\<lambda>i.
       if i = length (children n) then Inr i
       else bindR (deref t (children n ! i)) (\<lambda>c.
         Inr (if IsCmpGe (DataCmp key (min_key (stat c))) then i else length (children n))))"

definition FindChild_node :: "ptr \<Rightarrow> bpt_node \<Rightarrow> 's tree \<Rightarrow> nat res" where
  "FindChild_node p n t =
     bindR (deref t p) (\<lambda>c.
       bindR (MaxKeyLowerBound (max_key (stat c)) n t) (\<lambda>i.
         Inr (if i \<noteq> length (children n) \<and> children n ! i = p then i else length (children n))))"

definition insert_at :: "nat \<Rightarrow> 'a \<Rightarrow> 'a list \<Rightarrow> 'a list" where
  "insert_at i x xs = take i xs @ x # drop i xs"

definition erase_at :: "nat \<Rightarrow> 'a list \<Rightarrow> 'a list" where
  "erase_at i xs = take i xs @ drop (Suc i) xs"

definition AddChild :: "ptr \<Rightarrow> ptr \<Rightarrow> 's tree \<Rightarrow> 's tree res" where
  "AddChild p child t =
     bindR (deref t p) (\<lambda>n. bindR (deref t child) (\<lambda>c.
       bindR (MaxKeyUpperBound (max_key (stat c)) n t) (\<lambda>i.
         Inr (put p (n\<lparr>children := insert_at i child (children n)\<rparr>) t))))"

definition DelChild :: "ptr \<Rightarrow> ptr \<Rightarrow> 's tree \<Rightarrow> 's tree res" where
  "DelChild p child t =
     bindR (deref t p) (\<lambda>n. bindR (FindChild_node child n t) (\<lambda>i.
       if i \<noteq> length (children n)
       then Inr (put p (n\<lparr>children := erase_at i (children n)\<rparr>) t) else Inr t))"

definition NewMutableLeafChild :: "ptr \<Rightarrow> 's tree \<Rightarrow> (ptr \<times> 's tree) res" where
  "NewMutableLeafChild p t =
     (let (child, t1) = BptNode_new (Some p) True t in
      bindR (on_node p (\<lambda>n. Inr (n\<lparr>children := children n @ [child]\<rparr>)) t1) (\<lambda>t2.
        Inr (child, t2)))"

section \<open>Splitting\<close>

text \<open>\<open>((kvs_.size() + 1) >> 1) - 1\<close> as a \<open>size_t\<close>: it wraps to the largest number for a node
  without entries, and a non-leaf node has none.\<close>

definition split_idx :: "bpt_node \<Rightarrow> u64" where
  "split_idx n = drop_bit 1 (of_nat (length (kvs n)) + 1) - 1"

text \<open>The loop that moves the entries from \<open>iter\<close> on to the right node and erases them here.\<close>

fun move_kvs :: "kvs \<Rightarrow> bpt_node \<Rightarrow> bpt_node \<Rightarrow> (bpt_node \<times> bpt_node) res" where
  "move_kvs [] n r = Inr (n, r)"
| "move_kvs ((key, value) # rest) n r =
     bindR (BptNode_Insert key value
         (r\<lparr>stat := (stat r)\<lparr>node_size := node_size (stat r) + (len64 key + len64 value)\<rparr>\<rparr>))
       (\<lambda>(_, r1). move_kvs rest
         (n\<lparr>write_kvs := (write_kvs n)(key := None), kvs := smap_erase key (kvs n)\<rparr>) r1)"

definition split_leaf :: "bpt_node \<Rightarrow> bpt_node \<Rightarrow> (bpt_node \<times> bpt_node) res" where
  "split_leaf n r =
     bindR (requireR Undefined_Behaviour (unat (split_idx n + 1) \<le> length (kvs n))) (\<lambda>_.
       bindR (move_kvs (drop (unat (split_idx n + 1)) (kvs n)) n r) (\<lambda>(n1, r1).
         bindR (requireR Undefined_Behaviour (kvs n1 \<noteq> [] \<and> kvs r1 \<noteq> [])) (\<lambda>_.
           Inr (n1\<lparr>stat := (stat n1)\<lparr>count := of_nat (length (kvs n1)),
                     min_key := fst (hd (kvs n1)), max_key := fst (last (kvs n1)),
                     node_size := node_size (stat n1) - node_size (stat r1)\<rparr>\<rparr>,
                r1\<lparr>stat := (stat r1)\<lparr>min_key := fst (hd (kvs r1)),
                     max_key := fst (last (kvs r1))\<rparr>\<rparr>))))"

text \<open>The loop that moves the children from index \<open>split_idx + 1\<close> on.\<close>

fun move_children :: "ptr \<Rightarrow> ptr list \<Rightarrow> 's tree \<Rightarrow> 's tree res" where
  "move_children right [] t = Inr t"
| "move_children right (c # cs) t =
     bindR (on_node c (\<lambda>n. Inr (n\<lparr>parent := Some right\<rparr>)) t) (\<lambda>t1.
     bindR (deref t1 c) (\<lambda>child.
     bindR (on_node right (\<lambda>r. Inr (r\<lparr>children := children r @ [c],
         stat := (stat r)\<lparr>count := count (stat r) + count (stat child),
           node_size := node_size (stat r) + (len64 (min_key (stat child)) +
             len64 (max_key (stat child)) + 20)\<rparr>\<rparr>)) t1) (\<lambda>t2.
       move_children right cs t2)))"

text \<open>\<open>front\<close> and \<open>back\<close> of an empty vector must not be read.\<close>

definition range_of :: "ptr list \<Rightarrow> 's tree \<Rightarrow> (bytes \<times> bytes) res" where
  "range_of cs t =
     bindR (requireR Undefined_Behaviour (cs \<noteq> [])) (\<lambda>_.
       bindR (deref t (hd cs)) (\<lambda>a. bindR (deref t (last cs)) (\<lambda>b.
         Inr (min_key (stat a), max_key (stat b)))))"

definition split_inner :: "ptr \<Rightarrow> ptr \<Rightarrow> 's tree \<Rightarrow> 's tree res" where
  "split_inner p right t =
     bindR (deref t p) (\<lambda>n. let k = unat (split_idx n + 1) in
     bindR (move_children right (drop k (children n)) t) (\<lambda>t1.
     bindR (deref t1 p) (\<lambda>n1. bindR (deref t1 right) (\<lambda>r1.
       let n2 = n1\<lparr>children := take k (children n1),
                   stat := (stat n1)\<lparr>count := count (stat n1) - count (stat r1),
                                     node_size := node_size (stat n1) - node_size (stat r1)\<rparr>\<rparr> in
       bindR (range_of (children n2) t1) (\<lambda>(mn, mx).
       bindR (range_of (children r1) t1) (\<lambda>(rmn, rmx).
         Inr (put right (r1\<lparr>stat := (stat r1)\<lparr>min_key := rmn, max_key := rmx\<rparr>\<rparr>)
               (put p (n2\<lparr>stat := (stat n2)\<lparr>min_key := mn, max_key := mx\<rparr>\<rparr>) t1))))))))"

definition Split :: "ptr \<Rightarrow> 's tree \<Rightarrow> (ptr \<times> 's tree) res" where
  "Split p t =
     bindR (deref t p) (\<lambda>n.
       let (right, t1) = BptNode_new (parent n) (is_leaf n) t in
       if is_leaf n then
         bindR (deref t1 right) (\<lambda>r. bindR (split_leaf n r) (\<lambda>(n1, r1).
           Inr (right, put right r1 (put p n1 t1))))
       else bindR (split_inner p right t1) (\<lambda>t2. Inr (right, t2)))"

section \<open>Serialized nodes\<close>

definition NodeRef :: "bpt_node \<Rightarrow> BptNodeRefProto" where
  "NodeRef c =
     \<lparr>rp_id = node_id c, rp_type = (if is_leaf c then LEAF else NON_LEAF),
      rp_stat = \<lparr>sp_min_key = min_key (stat c), sp_max_key = max_key (stat c),
        sp_count = count (stat c), sp_node_size = node_size (stat c)\<rparr>\<rparr>"

definition leaf_proto :: "u64 \<Rightarrow> kvs \<Rightarrow> BptLeafNodeRefProto" where
  "leaf_proto i es =
     \<lparr>lp_id = i,
      lp_keys = foldl (\<lambda>out kv. snd (EncodeBytes (fst kv) out)) [] es,
      lp_values = foldl (\<lambda>out kv. snd (EncodeBytes (snd kv) out)) [] es\<rparr>"

definition Serialize :: "proto_ops \<Rightarrow> bpt_node \<Rightarrow> 's tree \<Rightarrow> bytes res" where
  "Serialize pb n t =
     (if is_leaf n then Inr (ser_leaf pb (leaf_proto (node_id n) (kvs n)))
      else bindR (mapR (deref t) (children n)) (\<lambda>cs.
        Inr (ser_node pb \<lparr>np_id = node_id n, np_children = map NodeRef cs\<rparr>)))"

text \<open>One length-prefixed string at \<open>offset\<close>, and the offset behind it: the length is read
  first, then the string of exactly that many bytes is copied out and decoded.\<close>

definition decode_entry :: "nat \<Rightarrow> bytes \<Rightarrow> (nat \<times> bytes) res" where
  "decode_entry offset s =
     bindR (read_at offset 4 s) (\<lambda>h. bindR (DecodeUInt32 h) (\<lambda>(_, len).
       bindR (read_at offset (4 + unat len) s) (\<lambda>raw. bindR (DecodeBytes raw []) (\<lambda>(n, x).
         Inr (offset + unat n, x)))))"

text \<open>The loop over both strings; its offsets grow by at least four, so the length of the keys
  is fuel enough (\<open>load_kvs_total\<close>).\<close>

fun load_kvs :: "nat \<Rightarrow> bytes \<Rightarrow> bytes \<Rightarrow> nat \<Rightarrow> nat \<Rightarrow> kvs \<Rightarrow> kvs res" where
  "load_kvs fuel keys values k_offset v_offset m =
     (if k_offset < length keys \<and> v_offset < length values then
        (case fuel of 0 \<Rightarrow> Inl Diverges
         | Suc fuel1 \<Rightarrow>
           bindR (decode_entry k_offset keys) (\<lambda>(k_offset1, key).
           bindR (decode_entry v_offset values) (\<lambda>(v_offset1, val).
             load_kvs fuel1 keys values k_offset1 v_offset1 (smap_emplace key val m))))
      else Inr m)"

declare load_kvs.simps [simp del]

text \<open>A failed parse aborts. Entries already in the node are kept, children are appended.\<close>

definition Deserialize :: "proto_ops \<Rightarrow> bytes \<Rightarrow> ptr \<Rightarrow> 's tree \<Rightarrow> (status \<times> 's tree) res" where
  "Deserialize pb input p t =
     bindR (deref t p) (\<lambda>n.
       if is_leaf n then
         (case parse_leaf pb input of
            None \<Rightarrow> Inl Assert_Abort
          | Some proto \<Rightarrow>
              bindR (load_kvs (length (lp_keys proto)) (lp_keys proto) (lp_values proto) 0 0 (kvs n))
                (\<lambda>m. Inr (C_OK, put p (n\<lparr>kvs := m\<rparr>) t)))
       else
         (case parse_node pb input of
            None \<Rightarrow> Inl Assert_Abort
          | Some proto \<Rightarrow>
              let (ps, t1) = create_refs p (np_children proto) t in
              Inr (C_OK, put p (n\<lparr>children := children n @ ps\<rparr>) t1)))"

section \<open>Tree nodes in the storage\<close>

text \<open>\<open>Metadata::LoadTreeNode\<close> and \<open>Metadata::DumpTreeNode\<close> (\<open>storage/metadata.cc\<close>).\<close>

definition node_key :: "tree_schema \<Rightarrow> u64 \<Rightarrow> bytes" where
  "node_key s i = snd (EncodeIndexTreeNodeID (ts_db_id s) (ts_table_id s) (ts_index_id s) i [])"

definition LoadTreeNode ::
    "'s kv_api \<Rightarrow> proto_ops \<Rightarrow> tree_schema \<Rightarrow> u64 \<Rightarrow> ptr \<Rightarrow> 's tree \<Rightarrow> (status \<times> 's tree) res" where
  "LoadTreeNode kv pb sc i p t =
     bindR (GetKV kv (node_key sc i) [] (storage t)) (\<lambda>(st, value).
       if st \<noteq> C_OK then Inr (st, t)
       else bindR (Deserialize pb value p t) (\<lambda>(st1, t1).
         Inr (if st1 \<noteq> C_OK then C_BPTREE_NODE_LOAD_ERROR else C_OK, t1)))"

definition DumpTreeNode ::
    "'s kv_api \<Rightarrow> proto_ops \<Rightarrow> tree_schema \<Rightarrow> u64 \<Rightarrow> ptr \<Rightarrow> 's tree \<Rightarrow> (status \<times> 's tree) res" where
  "DumpTreeNode kv pb sc i p t =
     bindR (deref t p) (\<lambda>n. bindR (Serialize pb n t) (\<lambda>value.
       bindR (PutKV kv (node_key sc i) value (storage t)) (\<lambda>(st, s1).
         Inr (if st \<noteq> C_OK then C_BPTREE_NODE_DUMP_ERROR else C_OK, t\<lparr>storage := s1\<rparr>))))"

definition GetNodeFromKVStorage ::
    "'s kv_api \<Rightarrow> proto_ops \<Rightarrow> u64 \<Rightarrow> ptr \<Rightarrow> 's tree \<Rightarrow> (status \<times> 's tree) res" where
  "GetNodeFromKVStorage kv pb i p t = LoadTreeNode kv pb (schema t) i p t"

definition LoadNodeFromKVStorage ::
    "'s kv_api \<Rightarrow> proto_ops \<Rightarrow> ptr \<Rightarrow> 's tree \<Rightarrow> (status \<times> 's tree) res" where
  "LoadNodeFromKVStorage kv pb p t =
     bindR (deref t p) (\<lambda>n. bindR (GetNodeFromKVStorage kv pb (node_id n) p t) (\<lambda>(st, t1).
       bindR (on_node p (\<lambda>n1. Inr (n1\<lparr>is_loaded := True\<rparr>)) t1) (\<lambda>t2. Inr (st, t2))))"

text \<open>A failed dump logs and returns; the nodes stay registered.\<close>

fun pull_nodes ::
    "'s kv_api \<Rightarrow> proto_ops \<Rightarrow> (u64 \<times> ptr) list \<Rightarrow> 's tree \<Rightarrow> (status \<times> 's tree) res" where
  "pull_nodes kv pb [] t = Inr (C_OK, t)"
| "pull_nodes kv pb ((i, p) # rest) t =
     bindR (DumpTreeNode kv pb (schema t) i p t) (\<lambda>(st, t1).
       if st \<noteq> C_OK then Inr (st, t1) else pull_nodes kv pb rest t1)"

definition PullUnsavedTreeNode :: "'s kv_api \<Rightarrow> proto_ops \<Rightarrow> 's tree \<Rightarrow> 's tree res" where
  "PullUnsavedTreeNode kv pb t =
     bindR (pull_nodes kv pb (unsaved t) t) (\<lambda>(st, t1).
       Inr (if st \<noteq> C_OK then t1 else t1\<lparr>unsaved := []\<rparr>))"

end
