(* ===== verification/Bptree.thy ===== *)
theory Bptree
  imports BptNode
begin

text \<open>
  The tree operations (\<open>storage/bplus_tree.cc\<close>) and the life of a tree: \<open>open_index\<close> is what the
  constructor of \<open>Index\<close> does to load it, \<open>PullUnsavedTreeNode\<close> what \<open>Index::Save\<close> does to store
  it. Every descent is bounded by fuel; two more than the number of nodes in the arena are
  enough whenever the nodes do not form a cycle.
\<close>

section \<open>Insertion\<close>

text \<open>The loop that walks down to a leaf. The path is the stack, its top first.\<close>

fun insert_descend ::
    "'s kv_api \<Rightarrow> proto_ops \<Rightarrow> bytes \<Rightarrow> nat \<Rightarrow> ptr \<Rightarrow> ptr list \<Rightarrow> 's tree \<Rightarrow> (status \<times> ptr list \<times> 's tree) res" where
  "insert_descend kv pb key 0 cursor path t = Inl Diverges"
| "insert_descend kv pb key (Suc fuel) cursor path t =
     bindR (deref t cursor) (\<lambda>n.
       if is_leaf n then Inr (C_OK, path, t)
       else if HasChild n then
         bindR (MaxKeyLowerBound key n t) (\<lambda>i.
           let child = (if i = length (children n) then last (children n) else children n ! i) in
           bindR (LoadNodeFromKVStorage kv pb child t) (\<lambda>(st, t1).
             if st \<noteq> C_OK \<and> st \<noteq> C_STORAGE_KV_NOT_FOUND then Inr (st, path, t1)
             else insert_descend kv pb key fuel child (child # path) t1))
       else
         bindR (NewMutableLeafChild cursor t) (\<lambda>(child, t1).
           insert_descend kv pb key fuel child (child # path) t1))"

text \<open>The loop that walks back up, one node of the stack per round.\<close>

fun insert_ascend :: "bytes \<Rightarrow> bytes \<Rightarrow> ptr list \<Rightarrow> 's tree \<Rightarrow> (status \<times> 's tree) res" where
  "insert_ascend key value [] t = Inr (C_OK, t)"
| "insert_ascend key value (cursor # path) t =
     bindR (deref t cursor) (\<lambda>n.
     bindR (if is_leaf n then Inr (put cursor (UpdateStatByAddKV key value n) t)
            else UpdateStatByRangeChange True cursor t) (\<lambda>t1.
     bindR (deref t1 cursor) (\<lambda>n1.
       if \<not> NeedSplit n1 then
         bindR (CollectUnsavedTreeNode cursor t1) (\<lambda>t2. insert_ascend key value path t2)
       else
         bindR (Split cursor t1) (\<lambda>(new_node, t2).
         bindR (CollectUnsavedTreeNode new_node t2) (\<lambda>t3.
         bindR (CollectUnsavedTreeNode cursor t3) (\<lambda>t4.
         bindR (deref t4 cursor) (\<lambda>n4.
           if is_root n4 then
             bindR (BptNode_join cursor new_node t4) (\<lambda>(r, t5).
             bindR (CollectUnsavedTreeNode r (t5\<lparr>root := r\<rparr>)) (\<lambda>t6.
               insert_ascend key value path t6))
           else
             (case parent n4 of
                None \<Rightarrow> Inl Undefined_Behaviour
              | Some q \<Rightarrow> bindR (AddChild q new_node t4) (\<lambda>t5.
                  insert_ascend key value path t5)))))))))"

declare insert_ascend.simps [simp del]

definition Bptree_Insert ::
    "'s kv_api \<Rightarrow> proto_ops \<Rightarrow> bytes \<Rightarrow> bytes \<Rightarrow> 's tree \<Rightarrow> (status \<times> 's tree) res" where
  "Bptree_Insert kv pb key value t =
     bindR (insert_descend kv pb key (next_ptr t + 2) (root t) [root t] t) (\<lambda>(st, path, t1).
       if st \<noteq> C_OK then Inr (st, t1)
       else bindR (deref t1 (hd path)) (\<lambda>n. bindR (BptNode_Insert key value n) (\<lambda>(st1, n1).
         let t2 = put (hd path) n1 t1 in
         if st1 \<noteq> C_OK then Inr (st1, t2) else insert_ascend key value path t2)))"

section \<open>Deletion\<close>

text \<open>The result of the walk is \<open>None\<close> where the function returns \<open>C_OK\<close> because no child
  covers the key.\<close>

fun delete_descend ::
    "'s kv_api \<Rightarrow> proto_ops \<Rightarrow> bytes \<Rightarrow> nat \<Rightarrow> ptr \<Rightarrow> ptr list \<Rightarrow> 's tree \<Rightarrow>
     (status \<times> ptr list option \<times> 's tree) res" where
  "delete_descend kv pb key 0 cursor path t = Inl Diverges"
| "delete_descend kv pb key (Suc fuel) cursor path t =
     bindR (deref t cursor) (\<lambda>n.
       if is_leaf n then Inr (C_OK, Some path, t)
       else bindR (FindChild key n t) (\<lambda>i.
         if i = length (children n) then Inr (C_OK, None, t)
         else let child = children n ! i in
           bindR (LoadNodeFromKVStorage kv pb child t) (\<lambda>(st, t1).
             if st \<noteq> C_OK then Inr (st, None, t1)
             else delete_descend kv pb key fuel child (child # path) t1)))"

fun delete_ascend :: "bytes \<Rightarrow> ptr list \<Rightarrow> 's tree \<Rightarrow> (status \<times> 's tree) res" where
  "delete_ascend key [] t = Inr (C_OK, t)"
| "delete_ascend key (cursor # path) t =
     bindR (deref t cursor) (\<lambda>n.
       if \<not> is_root n \<and> IsEmpty n then
         bindR (RemoveUnsavedTreeNode cursor t) (\<lambda>t1.
           (case parent n of
              None \<Rightarrow> Inl Undefined_Behaviour
            | Some q \<Rightarrow> bindR (DelChild q cursor t1) (\<lambda>t2. delete_ascend key path t2)))
       else
         bindR (if is_leaf n then on_node cursor (UpdateStatByDelKV key) t
                else if is_root n \<and> IsEmpty n then Inr (put cursor (ResetStat n) t)
                else UpdateStatByRangeChange False cursor t) (\<lambda>t1.
         bindR (CollectUnsavedTreeNode cursor t1) (\<lambda>t2. delete_ascend key path t2)))"

declare delete_ascend.simps [simp del]

definition Bptree_Delete ::
    "'s kv_api \<Rightarrow> proto_ops \<Rightarrow> bytes \<Rightarrow> 's tree \<Rightarrow> (status \<times> 's tree) res" where
  "Bptree_Delete kv pb key t =
     bindR (delete_descend kv pb key (next_ptr t + 2) (root t) [root t] t) (\<lambda>(st, found, t1).
       if st \<noteq> C_OK then Inr (st, t1)
       else (case found of
           None \<Rightarrow> Inr (C_OK, t1)
         | Some path \<Rightarrow>
             bindR (deref t1 (hd path)) (\<lambda>n. bindR (BptNode_Delete key n) (\<lambda>(st1, n1).
               let t2 = put (hd path) n1 t1 in
               if st1 \<noteq> C_OK then Inr (C_OK, t2) else delete_ascend key path t2))))"

section \<open>Lookup\<close>

fun get_descend ::
    "'s kv_api \<Rightarrow> proto_ops \<Rightarrow> bytes \<Rightarrow> nat \<Rightarrow> ptr \<Rightarrow> 's tree \<Rightarrow> (status \<times> ptr \<times> 's tree) res" where
  "get_descend kv pb key 0 cursor t = Inl Diverges"
| "get_descend kv pb key (Suc fuel) cursor t =
     bindR (deref t cursor) (\<lambda>n.
       if is_leaf n then Inr (C_OK, cursor, t)
       else bindR (FindChild key n t) (\<lambda>i.
         if i = length (children n) then Inr (C_STORAGE_KV_NOT_FOUND, cursor, t)
         else let child = children n ! i in
           bindR (LoadNodeFromKVStorage kv pb child t) (\<lambda>(st, t1).
             if st \<noteq> C_OK then Inr (st, cursor, t1)
             else get_descend kv pb key fuel child t1)))"

definition Bptree_GetItem ::
    "'s kv_api \<Rightarrow> proto_ops \<Rightarrow> bytes \<Rightarrow> bytes \<Rightarrow> 's tree \<Rightarrow> (status \<times> bytes \<times> 's tree) res" where
  "Bptree_GetItem kv pb key output t =
     bindR (get_descend kv pb key (next_ptr t + 2) (root t) t) (\<lambda>(st, cursor, t1).
       if st \<noteq> C_OK then Inr (st, output, t1)
       else bindR (deref t1 cursor) (\<lambda>n.
         let (st1, output1) = BptNode_GetItem key output n in Inr (st1, output1, t1)))"

section \<open>Opening and saving\<close>

text \<open>The tree part of the constructor of \<open>Index\<close> (\<open>storage/index.cc\<close>): a root with the stored
  id and no children, then its record is loaded; whatever status that returns is not an error.\<close>

definition open_index :: "'s kv_api \<Rightarrow> proto_ops \<Rightarrow> tree_schema \<Rightarrow> 's \<Rightarrow> 's tree res" where
  "open_index kv pb sc s =
     (let t0 = \<lparr>heap = Map.empty, next_ptr = 0, unsaved = [], ctx_id = ts_tree_id sc,
                schema = sc, storage = s, root = 0\<rparr>;
          (r, t1) = BptNode_root \<lparr>np_id = ts_root_id sc, np_children = []\<rparr> t0
      in bindR (LoadTreeNode kv pb sc (ts_root_id sc) r t1) (\<lambda>(_, t2). Inr (t2\<lparr>root := r\<rparr>)))"

definition Index_Save :: "'s kv_api \<Rightarrow> proto_ops \<Rightarrow> 's tree \<Rightarrow> (status \<times> 's tree) res" where
  "Index_Save kv pb t = bindR (PullUnsavedTreeNode kv pb t) (\<lambda>t1. Inr (C_OK, t1))"

end
