(* ===== verification/BptIterator.thy ===== *)
theory BptIterator
  imports Bptree
begin

text \<open>
  Range scans (\<open>storage/bplus_tree_iterator.cc\<close>, \<open>storage/iterator.cc\<close>). An iterator walks the
  leaves of a tree from the first entry of its range; a \<open>BaseIterator\<close> runs one after another
  over the ranges it was given and hands out pages of entries. Loading leaves changes the tree,
  so its state is passed along. Logging is left out.
\<close>

section \<open>The iterator of one range\<close>

record iter_opts =
  it_lower :: bytes
  it_upper :: bytes
  lower_open :: bool
  upper_open :: bool

text \<open>\<open>cur_kv\<close> is the part of the map of the current leaf that starts at the iterator
  \<open>cur_kv_\<close>; it is empty when that is \<open>end()\<close>. The map of a leaf is not changed while the
  iterator stands in it.\<close>

record bpt_iter =
  cur_node :: "ptr option"
  using_leaf_node :: "ptr list"
  cur_kv :: kvs
  it_opts :: iter_opts
  node_it_reach_end :: bool
  kv_it_reach_end :: bool

definition BptIterator :: "iter_opts \<Rightarrow> 's tree \<Rightarrow> bpt_iter" where
  "BptIterator opts t =
     \<lparr>cur_node = Some (root t), using_leaf_node = [], cur_kv = [], it_opts = opts,
      node_it_reach_end = False, kv_it_reach_end = False\<rparr>"

definition deref_cur :: "bpt_iter \<Rightarrow> ptr res" where
  "deref_cur it = (case cur_node it of None \<Rightarrow> Inl Undefined_Behaviour | Some p \<Rightarrow> Inr p)"

text \<open>The loop of \<open>Open\<close>; the node it stops at is the new \<open>cur_node_\<close> in every case.\<close>

fun open_descend ::
    "'s kv_api \<Rightarrow> proto_ops \<Rightarrow> iter_opts \<Rightarrow> nat \<Rightarrow> ptr \<Rightarrow> 's tree \<Rightarrow> (status \<times> ptr \<times> 's tree) res" where
  "open_descend kv pb opts 0 cursor t = Inl Diverges"
| "open_descend kv pb opts (Suc fuel) cursor t =
     bindR (deref t cursor) (\<lambda>n.
       if is_leaf n then Inr (C_OK, cursor, t)
       else if \<not> HasChild n then Inr (C_BPTREE_ITERATOR_END, cursor, t)
       else bindR (if lower_open opts then MaxKeyUpperBound (it_lower opts) n t
                   else MaxKeyLowerBound (it_lower opts) n t) (\<lambda>i.
         if i = length (children n) then Inr (C_BPTREE_ITERATOR_END, cursor, t)
         else let child = children n ! i in
           bindR (LoadNodeFromKVStorage kv pb child t) (\<lambda>(st, t1).
             if st \<noteq> C_OK then Inr (st, cursor, t1)
             else open_descend kv pb opts fuel child t1)))"

definition BptIterator_Open ::
    "'s kv_api \<Rightarrow> proto_ops \<Rightarrow> bpt_iter \<Rightarrow> 's tree \<Rightarrow> (status \<times> bpt_iter \<times> 's tree) res" where
  "BptIterator_Open kv pb it t =
     bindR (deref_cur it) (\<lambda>cur.
     bindR (open_descend kv pb (it_opts it) (next_ptr t + 2) cur t) (\<lambda>(st, leaf, t1).
       if st \<noteq> C_OK then Inr (st, it\<lparr>cur_node := Some leaf\<rparr>, t1)
       else bindR (deref t1 leaf) (\<lambda>n.
         Inr (C_OK,
           it\<lparr>cur_node := Some leaf, using_leaf_node := using_leaf_node it @ [leaf],
              cur_kv := (if lower_open (it_opts it) then smap_upper_bound (it_lower (it_opts it)) (kvs n)
                         else smap_lower_bound (it_lower (it_opts it)) (kvs n)),
              kv_it_reach_end := False, node_it_reach_end := False\<rparr>, t1))))"

text \<open>The bound is tested with \<open>lower_open\<close>, not \<open>upper_open\<close>.\<close>

definition reachRangeBound :: "bpt_iter \<Rightarrow> bool res" where
  "reachRangeBound it =
     bindR (requireR Assert_Abort (cur_kv it \<noteq> [])) (\<lambda>_.
       let key = fst (hd (cur_kv it)); upper = it_upper (it_opts it) in
       Inr (if lower_open (it_opts it) then IsCmpGt (DataCmp key upper)
            else \<not> IsCmpLt (DataCmp key upper)))"

definition HashNext :: "bpt_iter \<Rightarrow> bool res" where
  "HashNext it =
     (if kv_it_reach_end it then Inr (\<not> node_it_reach_end it)
      else bindR (reachRangeBound it) (\<lambda>b. Inr (\<not> b)))"

definition nextKV :: "bpt_iter \<Rightarrow> bpt_iter" where
  "nextKV it =
     (let rest = tl (cur_kv it) in
      it\<lparr>cur_kv := rest, kv_it_reach_end := kv_it_reach_end it \<or> rest = []\<rparr>)"

definition resetCurKV :: "bpt_iter \<Rightarrow> 's tree \<Rightarrow> bpt_iter res" where
  "resetCurKV it t =
     bindR (deref_cur it) (\<lambda>p. bindR (deref t p) (\<lambda>n.
       Inr (it\<lparr>cur_kv := kvs n, kv_it_reach_end := False\<rparr>)))"

section \<open>The next leaf\<close>

text \<open>The lambda of \<open>nextLeafNode\<close>: the node starts beyond the range.\<close>

definition beyond_upper :: "iter_opts \<Rightarrow> bpt_node \<Rightarrow> bool" where
  "beyond_upper opts n =
     (if \<not> upper_open opts then IsCmpGt (DataCmp (min_key (stat n)) (it_upper opts))
      else IsCmpGe (DataCmp (min_key (stat n)) (it_upper opts)))"

text \<open>One round of its loop: the walk ends, goes up to the parent, or goes to a node that is
  loaded next.\<close>

datatype leaf_walk = Walk_end | Walk_up ptr | Walk_to ptr

definition walk_to :: "iter_opts \<Rightarrow> ptr \<Rightarrow> 's tree \<Rightarrow> leaf_walk res" where
  "walk_to opts p t = bindR (deref t p) (\<lambda>n. Inr (if beyond_upper opts n then Walk_end else Walk_to p))"

definition walk_round :: "iter_opts \<Rightarrow> ptr \<Rightarrow> bool \<Rightarrow> 's tree \<Rightarrow> leaf_walk res" where
  "walk_round opts cur child_node_runs_out t =
     bindR (deref t cur) (\<lambda>n.
       if is_root n then Inr Walk_end
       else if child_node_runs_out then
         (case parent n of
            None \<Rightarrow> Inl Undefined_Behaviour
          | Some q \<Rightarrow>
              bindR (deref t q) (\<lambda>pn. bindR (FindChild_node cur pn t) (\<lambda>i.
                bindR (requireR Assert_Abort (i \<noteq> length (children pn))) (\<lambda>_.
                  if Suc i = length (children pn) then Inr (Walk_up q)
                  else walk_to opts (children pn ! Suc i) t))))
       else (case children n of [] \<Rightarrow> Inr Walk_end | c # _ \<Rightarrow> walk_to opts c t))"

text \<open>The loop; its result is \<open>cur_node_\<close>, null when the walk has reached the end.\<close>

fun next_leaf_loop ::
    "'s kv_api \<Rightarrow> proto_ops \<Rightarrow> iter_opts \<Rightarrow> nat \<Rightarrow> ptr \<Rightarrow> bool \<Rightarrow> 's tree \<Rightarrow>
     (status \<times> ptr option \<times> 's tree) res" where
  "next_leaf_loop kv pb opts 0 cur runs_out t = Inl Diverges"
| "next_leaf_loop kv pb opts (Suc fuel) cur runs_out t =
     bindR (walk_round opts cur runs_out t) (\<lambda>w.
       (case w of
          Walk_end \<Rightarrow> Inr (C_OK, None, t)
        | Walk_up q \<Rightarrow>
            bindR (deref t q) (\<lambda>n. if is_leaf n then Inr (C_OK, Some q, t)
              else next_leaf_loop kv pb opts fuel q True t)
        | Walk_to c \<Rightarrow>
            bindR (LoadNodeFromKVStorage kv pb c t) (\<lambda>(st, t1).
              if st \<noteq> C_OK then Inr (st, Some c, t1)
              else bindR (deref t1 c) (\<lambda>n. if is_leaf n then Inr (C_OK, Some c, t1)
                else next_leaf_loop kv pb opts fuel c False t1))))"

definition nextLeafNode ::
    "'s kv_api \<Rightarrow> proto_ops \<Rightarrow> bpt_iter \<Rightarrow> 's tree \<Rightarrow> (status \<times> bpt_iter \<times> 's tree) res" where
  "nextLeafNode kv pb it t =
     bindR (deref_cur it) (\<lambda>cur.
     bindR (next_leaf_loop kv pb (it_opts it) (2 * next_ptr t + 2) cur True t) (\<lambda>(st, cur1, t1).
       Inr (st, it\<lparr>using_leaf_node := using_leaf_node it @ [cur], cur_node := cur1,
                  node_it_reach_end := node_it_reach_end it \<or> cur1 = None\<rparr>, t1)))"

text \<open>\<open>Next\<close>: every second round takes an entry, so the loop ends.\<close>

function iter_next ::
    "'s kv_api \<Rightarrow> proto_ops \<Rightarrow> nat \<Rightarrow> kvs \<Rightarrow> bpt_iter \<Rightarrow> 's tree \<Rightarrow> (status \<times> kvs \<times> bpt_iter \<times> 's tree) res" where
  "iter_next kv pb rows_remain data it t =
     (if rows_remain = 0 then Inr (C_OK, data, it, t)
      else if \<not> kv_it_reach_end it then
        bindR (reachRangeBound it) (\<lambda>b.
          if b then Inr (C_OK, data, it, t)
          else iter_next kv pb (rows_remain - 1) (data @ [hd (cur_kv it)]) (nextKV it) t)
      else if node_it_reach_end it then Inr (C_OK, data, it, t)
      else bindR (nextLeafNode kv pb it t) (\<lambda>(st, it1, t1).
        if st \<noteq> C_OK then Inr (st, data, it1, t1)
        else if node_it_reach_end it1 then Inr (C_OK, data, it1, t1)
        else bindR (resetCurKV it1 t1) (\<lambda>it2. iter_next kv pb rows_remain data it2 t1)))"
  by pat_completeness auto

lemma resetCurKV_flag: "resetCurKV it t = Inr it1 \<Longrightarrow> \<not> kv_it_reach_end it1"
  by (auto simp: resetCurKV_def bindR_Inr_iff)

termination iter_next
  by (relation "measure (\<lambda>(_, _, rows, _, it, _). 2 * rows + (if kv_it_reach_end it then 1 else 0))")
    (auto simp: resetCurKV_flag)

declare iter_next.simps [simp del]

section \<open>The iterator of many ranges\<close>

text \<open>The ranges come from the planner (\<open>plan/range.h\<close>); the program's \<open>IndexRange\<close> keeps the
  encoded bounds beside the values.\<close>

datatype RangePointType = LEFT_CLOSE | LEFT_OPEN | RIGHT_OPEN | RIGHT_CLOSE

record range_point =
  rpt_value :: "expr_value list"
  rpt_type :: RangePointType

record index_range =
  rng_lower :: range_point
  rng_upper :: range_point
  lower_str :: bytes
  upper_str :: bytes

record base_iter =
  data_segment :: kvs
  visited_kv_count :: nat
  it_ops :: "iter_opts list"
  current_op_idx :: nat
  code :: status
  tree_it :: "bpt_iter option"
  page_size :: nat

definition BaseIterator :: "nat \<Rightarrow> base_iter" where
  "BaseIterator page =
     \<lparr>data_segment = [], visited_kv_count = 0, it_ops = [], current_op_idx = 0, code = C_OK,
      tree_it = None, page_size = page\<rparr>"

text \<open>The lambda of \<open>AddRange\<close>: every value with its type in front, appended to the output.\<close>

fun encode_bound :: "expr_value list \<Rightarrow> bytes \<Rightarrow> bytes res" where
  "encode_bound [] out = Inr out"
| "encode_bound (v # vs) out =
     bindR (EncodeExprValue v (snd (EncodeUInt8 (type_code (ev_type v)) out))) (\<lambda>(_, out1).
       encode_bound vs out1)"

definition AddRange :: "index_range \<Rightarrow> base_iter \<Rightarrow> (status \<times> index_range \<times> base_iter) res" where
  "AddRange r b =
     bindR (encode_bound (rpt_value (rng_lower r)) (lower_str r)) (\<lambda>lo.
     bindR (encode_bound (rpt_value (rng_upper r)) (upper_str r)) (\<lambda>up.
       Inr (C_OK, r\<lparr>lower_str := lo, upper_str := up\<rparr>,
         b\<lparr>it_ops := it_ops b @
           [\<lparr>it_lower = lo, it_upper = up, lower_open = (rpt_type (rng_lower r) = LEFT_OPEN),
             upper_open = (rpt_type (rng_upper r) = RIGHT_OPEN)\<rparr>]\<rparr>)))"

text \<open>\<open>Open\<close> skips the ranges whose scan is empty.\<close>

fun base_open_loop ::
    "'s kv_api \<Rightarrow> proto_ops \<Rightarrow> iter_opts list \<Rightarrow> base_iter \<Rightarrow> 's tree \<Rightarrow> (status \<times> base_iter \<times> 's tree) res" where
  "base_open_loop kv pb [] b t = Inr (C_OK, b\<lparr>code := C_BPTREE_ITERATOR_END\<rparr>, t)"
| "base_open_loop kv pb (op # ops) b t =
     bindR (BptIterator_Open kv pb (BptIterator op t) t) (\<lambda>(st, it, t1).
       let b1 = b\<lparr>current_op_idx := current_op_idx b + 1, tree_it := Some it\<rparr> in
       if st = C_OK then Inr (C_OK, b1, t1)
       else if st = C_BPTREE_ITERATOR_END then base_open_loop kv pb ops b1 t1
       else Inr (st, b1, t1))"

definition BaseIterator_Open ::
    "'s kv_api \<Rightarrow> proto_ops \<Rightarrow> base_iter \<Rightarrow> 's tree \<Rightarrow> (status \<times> base_iter \<times> 's tree) res" where
  "BaseIterator_Open kv pb b t = base_open_loop kv pb (drop (current_op_idx b) (it_ops b)) b t"

definition Valid :: "base_iter \<Rightarrow> bool" where
  "Valid b \<longleftrightarrow> code b = C_OK"

text \<open>The loop of \<open>Next\<close>. The status of the range's \<open>Next\<close> is not looked at.\<close>

fun base_next_loop ::
    "'s kv_api \<Rightarrow> proto_ops \<Rightarrow> nat \<Rightarrow> base_iter \<Rightarrow> 's tree \<Rightarrow> (base_iter \<times> 's tree) res" where
  "base_next_loop kv pb fuel b t =
     (if code b = C_OK \<and> length (data_segment b) < page_size b then
        (case fuel of 0 \<Rightarrow> Inl Diverges
         | Suc fuel1 \<Rightarrow>
           (case tree_it b of None \<Rightarrow> Inl Undefined_Behaviour
            | Some it \<Rightarrow>
              bindR (HashNext it) (\<lambda>more.
                if more then
                  bindR (iter_next kv pb (page_size b - length (data_segment b)) (data_segment b) it t)
                    (\<lambda>(_, seg, it1, t1).
                      base_next_loop kv pb fuel1 (b\<lparr>data_segment := seg, tree_it := Some it1\<rparr>) t1)
                else
                  bindR (BaseIterator_Open kv pb b t) (\<lambda>(st, b1, t1).
                    base_next_loop kv pb fuel1 (if st \<noteq> C_OK then b1\<lparr>code := st\<rparr> else b1) t1))))
      else Inr (b, t))"

declare base_next_loop.simps [simp del]

text \<open>Every round fills the page, or takes an entry, or ends a leaf, or goes to the next range.\<close>

definition BaseIterator_Next ::
    "'s kv_api \<Rightarrow> proto_ops \<Rightarrow> nat \<Rightarrow> base_iter \<Rightarrow> 's tree \<Rightarrow> (base_iter \<times> 's tree) res" where
  "BaseIterator_Next kv pb fuel b t =
     (if \<not> Valid b then Inr (b, t)
      else base_next_loop kv pb fuel (b\<lparr>data_segment := []\<rparr>) t)"

end
