(* ===== verification/BptLoad.thy ===== *)
theory BptLoad
  imports Bptree
begin

text \<open>
  What a stored leaf gives back: the loop of \<open>BptNode::Deserialize\<close> ends on any input and, on
  what \<open>BptNode::Serialize\<close> wrote, puts exactly the written entries into the node.
\<close>

section \<open>The loop ends\<close>

lemma DecodeBytes_exact:
  assumes "DecodeUInt32 h = Inr (n, len)" "length h = 4" "length raw = 4 + unat len"
    "take 4 raw = h"
  shows "DecodeBytes raw [] = Inr (ucast len + 4, drop 4 raw)"
proof -
  have "read_raw 4 raw = Inr h" using assms(3,4) by simp
  moreover have "read_raw 4 h = Inr h" using assms(2) by simp
  ultimately have "DecodeUInt32 raw = Inr (4, len)"
    using assms(1) by (simp add: DecodeUInt32_def)
  with assms(3) show ?thesis by (simp add: DecodeBytes_def)
qed

lemma unat_ucast_len: "unat (ucast (len :: u32) + 4 :: u64) = unat len + 4"
proof -
  have "unat len < 2 ^ 32" using unsigned_less [of len, where 'a = nat] by simp
  moreover have "unat (ucast len :: u64) = unat len" by (simp add: unsigned_ucast_eq take_bit_nat_eq_self_iff)
    (use \<open>unat len < 2 ^ 32\<close> in simp)
  ultimately show ?thesis by (simp add: unat_word_ariths)
qed

lemma length_read_at: "read_at off n s = Inr x \<Longrightarrow> length x = n"
  by (auto simp: read_at_def split: if_splits)

lemma take_read_at:
  "read_at off n s = Inr x \<Longrightarrow> read_at off (n + m) s = Inr y \<Longrightarrow> take n y = x"
  by (auto simp: read_at_def min_def split: if_splits)

lemma decode_entry_advances:
  assumes "decode_entry off s = Inr (off', x)"
  shows "off + 4 \<le> off'"
proof -
  obtain h n len raw where *: "read_at off 4 s = Inr h" "DecodeUInt32 h = Inr (n, len)"
    "read_at off (4 + unat len) s = Inr raw"
    "bindR (DecodeBytes raw []) (\<lambda>(n, x). Inr (off + unat n, x)) = Inr (off', x)"
    using assms by (auto simp: decode_entry_def bindR_Inr_iff)
  from length_read_at [OF *(1)] length_read_at [OF *(3)] take_read_at [OF *(1,3)] *(2)
  have "DecodeBytes raw [] = Inr (ucast len + 4, drop 4 raw)"
    by (intro DecodeBytes_exact) simp_all
  with *(4) show ?thesis by (simp add: unat_ucast_len)
qed

lemma DecodeUInt32_no_diverge: "DecodeUInt32 s \<noteq> Inl Diverges"
  by (simp add: DecodeUInt32_def read_raw_def)

lemma bindR_no_diverge:
  "m \<noteq> Inl Diverges \<Longrightarrow> (\<And>x. m = Inr x \<Longrightarrow> f x \<noteq> Inl Diverges) \<Longrightarrow> bindR m f \<noteq> Inl Diverges"
  by (cases m) auto

lemma DecodeBytes_no_diverge: "DecodeBytes s out \<noteq> Inl Diverges"
  unfolding DecodeBytes_def
  by (intro bindR_no_diverge DecodeUInt32_no_diverge) (auto split: if_splits)

lemma decode_entry_no_diverge: "decode_entry off s \<noteq> Inl Diverges"
proof -
  have read: "read_at a n s \<noteq> Inl Diverges" for a n by (simp add: read_at_def)
  show ?thesis
    unfolding decode_entry_def case_prod_beta
    by (intro bindR_no_diverge read DecodeUInt32_no_diverge DecodeBytes_no_diverge) simp
qed

lemma load_kvs_total:
  "length keys \<le> k_off + fuel \<Longrightarrow> load_kvs fuel keys values k_off v_off m \<noteq> Inl Diverges"
proof (induction fuel arbitrary: k_off v_off m)
  case 0
  then show ?case by (simp add: load_kvs.simps)
next
  case (Suc fuel)
  show ?case
  proof
    assume d: "load_kvs (Suc fuel) keys values k_off v_off m = Inl Diverges"
    have "k_off < length keys \<and> v_off < length values"
      using d by (simp add: load_kvs.simps [of "Suc fuel"] split: if_splits)
    with d have "bindR (decode_entry k_off keys) (\<lambda>(k1, key). bindR (decode_entry v_off values)
        (\<lambda>(v1, val). load_kvs fuel keys values k1 v1 (smap_emplace key val m))) = Inl Diverges"
      by (simp add: load_kvs.simps [of "Suc fuel"])
    then obtain k1 key v1 val where "decode_entry k_off keys = Inr (k1, key)"
      "load_kvs fuel keys values k1 v1 (smap_emplace key val m) = Inl Diverges"
      using decode_entry_no_diverge [of k_off keys] decode_entry_no_diverge [of v_off "values"]
      by (auto simp: bindR_def split: sum.splits prod.splits)
    with decode_entry_advances Suc.prems Suc.IH show False by fastforce
  qed
qed

section \<open>Reading back what was written\<close>

definition enc_strs :: "bytes list \<Rightarrow> bytes" where
  "enc_strs ss = concat (map (\<lambda>s. be32 (of_nat (length s)) @ s) ss)"

lemma enc_strs_simps [simp]:
  "enc_strs [] = []"
  "enc_strs (s # ss) = be32 (of_nat (length s)) @ s @ enc_strs ss"
  by (simp_all add: enc_strs_def)

lemma foldl_EncodeBytes: "foldl (\<lambda>out kv. snd (EncodeBytes (f kv) out)) acc es = acc @ enc_strs (map f es)"
  by (induction es arbitrary: acc) simp_all

lemma leaf_proto_strs:
  "leaf_proto i es = \<lparr>lp_id = i, lp_keys = enc_strs (map fst es), lp_values = enc_strs (map snd es)\<rparr>"
  unfolding leaf_proto_def foldl_EncodeBytes by simp

lemma decode_entry_at:
  assumes "s = pre @ be32 (of_nat (length x)) @ x @ post" "length pre = off" "length x < 2 ^ 32"
  shows "decode_entry off s = Inr (off + 4 + length x, x)"
proof -
  have 1: "read_at off 4 s = Inr (be32 (of_nat (length x)))"
    by (rule read_at_middle [OF assms(1,2)]) simp
  have n: "unat (of_nat (length x) :: u32) = length x"
    by (rule unat_length_u32 [OF assms(3)])
  have 2: "read_at off (4 + length x) s = Inr (be32 (of_nat (length x)) @ x)"
    by (rule read_at_middle [of _ pre _ post]) (simp_all add: assms)
  have 3: "DecodeUInt32 (be32 (of_nat (length x))) = Inr (4, of_nat (length x))"
    using decode_u32_prefix [of _ "[]"] by simp
  have 4: "DecodeBytes (be32 (of_nat (length x)) @ x) [] = Inr (of_nat (length x) + 4, x)"
    using decode_bytes_prefix [OF assms(3), of "[]" "[]"] by simp
  have 5: "unat (of_nat (length x) + 4 :: u64) = length x + 4"
    using unat_ucast_len [of "of_nat (length x)"] ucast_length [OF assms(3)] n by simp
  show ?thesis
    unfolding decode_entry_def 1 bindR_simps 3 prod.case n 2 4 5 by simp
qed

definition emplace_all :: "kvs \<Rightarrow> kvs \<Rightarrow> kvs" where
  "emplace_all es m = foldl (\<lambda>m (k, v). smap_emplace k v m) m es"

lemma load_kvs_written:
  assumes "\<And>k v. (k, v) \<in> set es \<Longrightarrow> length k < 2 ^ 32 \<and> length v < 2 ^ 32" "length es \<le> fuel"
  shows "load_kvs fuel (pk @ enc_strs (map fst es)) (pv @ enc_strs (map snd es))
    (length pk) (length pv) m = Inr (emplace_all es m)"
  using assms
proof (induction es arbitrary: fuel pk pv m)
  case Nil
  then show ?case by (simp add: load_kvs.simps emplace_all_def)
next
  case (Cons e es)
  obtain k v where e: "e = (k, v)" by (cases e)
  from Cons.prems obtain f where f: "fuel = Suc f" "length es \<le> f" by (cases fuel) auto
  have kv: "length k < 2 ^ 32" "length v < 2 ^ 32" using Cons.prems(1) [of k v] e by auto
  let ?pk = "pk @ be32 (of_nat (length k)) @ k" and ?pv = "pv @ be32 (of_nat (length v)) @ v"
  have k: "decode_entry (length pk) (pk @ enc_strs (map fst (e # es))) = Inr (length pk + 4 + length k, k)"
    by (rule decode_entry_at [of _ pk _ "enc_strs (map fst es)", OF _ _ kv(1)]) (simp_all add: e)
  have v: "decode_entry (length pv) (pv @ enc_strs (map snd (e # es))) = Inr (length pv + 4 + length v, v)"
    by (rule decode_entry_at [of _ pv _ "enc_strs (map snd es)", OF _ _ kv(2)]) (simp_all add: e)
  have "load_kvs f (?pk @ enc_strs (map fst es)) (?pv @ enc_strs (map snd es)) (length ?pk) (length ?pv)
      (smap_emplace k v m) = Inr (emplace_all es (smap_emplace k v m))"
    by (rule Cons.IH) (use Cons.prems f in auto)
  then show ?case
    unfolding f(1) load_kvs.simps [of "Suc f"] k v
    by (simp add: e emplace_all_def add.assoc)
qed

lemma emplace_all_append:
  "smap_ok (m @ es) \<Longrightarrow> emplace_all es m = m @ es"
proof (induction es arbitrary: m)
  case (Cons e es)
  obtain k v where e: "e = (k, v)" by (cases e)
  have "smap_emplace k v m = m @ [(k, v)]"
    using Cons.prems by (intro smap_emplace_last) (auto simp: e sorted_wrt_append)
  with Cons.IH [of "m @ [(k, v)]"] Cons.prems show ?case by (simp add: emplace_all_def e)
qed (simp add: emplace_all_def)

lemma emplace_all_fresh: "smap_ok es \<Longrightarrow> emplace_all es [] = es"
  using emplace_all_append [of "[]" es] by simp

lemma emplace_all_known:
  "smap_ok m \<Longrightarrow> fst ` set es \<subseteq> fst ` set m \<Longrightarrow> emplace_all es m = m"
proof (induction es)
  case (Cons e es)
  then have "smap_emplace (fst e) (snd e) m = m" by (intro smap_emplace_present) simp_all
  with Cons show ?case by (simp add: emplace_all_def case_prod_beta)
qed (simp add: emplace_all_def)

lemma length_enc_strs: "length ss \<le> length (enc_strs ss)"
  by (induction ss) simp_all

text \<open>Loading the serialized entries \<open>es\<close> into a leaf that holds \<open>m\<close>.\<close>

lemma load_leaf:
  assumes "\<And>k v. (k, v) \<in> set es \<Longrightarrow> length k < 2 ^ 32 \<and> length v < 2 ^ 32"
  shows "load_kvs (length (lp_keys (leaf_proto i es))) (lp_keys (leaf_proto i es))
    (lp_values (leaf_proto i es)) 0 0 m = Inr (emplace_all es m)"
  using load_kvs_written [of es "length (enc_strs (map fst es))" "[]" "[]" m]
    assms length_enc_strs [of "map fst es"]
  by (simp add: leaf_proto_strs)

end
