(* ===== verification/BptInv.thy ===== *)
theory BptInv
  imports BptLoad
begin

text \<open>
  The invariant of a tree. The program's trees are a root over leaves: the root is never a leaf
  and, with keys of at most \<open>max_key_len\<close> bytes, never large enough to be split
  (\<open>root_never_splits\<close>). The ghost argument \<open>ls\<close> of the predicates lists the entries of the
  leaves, in the order of the root's children; their concatenation is what the tree holds.
\<close>

section \<open>Predicates\<close>

definition max_key_len :: nat where
  "max_key_len = 8192"

definition kvs_ok :: "kvs \<Rightarrow> bool" where
  "kvs_ok es \<longleftrightarrow> smap_ok es \<and> (\<forall>(k, v) \<in> set es. length k \<le> max_key_len \<and> length v < 2 ^ 32)"

text \<open>The node record stored under a node's key.\<close>

definition stored_leaf :: "proto_ops \<Rightarrow> (bytes \<rightharpoonup> bytes) \<Rightarrow> tree_schema \<Rightarrow> u64 \<Rightarrow> kvs \<Rightarrow> bool" where
  "stored_leaf pb m sc i es \<longleftrightarrow> m (node_key sc i) = Some (ser_leaf pb (leaf_proto i es))"

definition stored_root :: "proto_ops \<Rightarrow> (bytes \<rightharpoonup> bytes) \<Rightarrow> tree_schema \<Rightarrow> BptNodeRefProto list \<Rightarrow> bool" where
  "stored_root pb m sc refs \<longleftrightarrow>
     m (node_key sc (ts_root_id sc)) = Some (ser_node pb \<lparr>np_id = ts_root_id sc, np_children = refs\<rparr>)"

text \<open>A leaf in memory that stands for the entries \<open>es\<close>: they are in the node, or they are in
  the storage and the node is not loaded.\<close>

definition leaf_shape :: "ptr \<Rightarrow> bpt_node \<Rightarrow> kvs \<Rightarrow> bool" where
  "leaf_shape r n es \<longleftrightarrow>
     is_leaf n \<and> \<not> is_root n \<and> parent n = Some r \<and> children n = [] \<and> es \<noteq> [] \<and>
     min_key (stat n) = fst (hd es) \<and> max_key (stat n) = fst (last es) \<and>
     (kvs n = es \<or> kvs n = []) \<and> dom (write_kvs n) \<subseteq> fst ` set (kvs n)"

definition leaf_saved :: "proto_ops \<Rightarrow> (bytes \<rightharpoonup> bytes) \<Rightarrow> tree_schema \<Rightarrow> (u64 \<times> ptr) list \<Rightarrow>
    ptr \<Rightarrow> bpt_node \<Rightarrow> kvs \<Rightarrow> bool" where
  "leaf_saved pb m sc us p n es \<longleftrightarrow>
     (if (node_id n, p) \<in> set us then kvs n = es else stored_leaf pb m sc (node_id n) es)"

definition leaf_ok :: "proto_ops \<Rightarrow> (bytes \<rightharpoonup> bytes) \<Rightarrow> 's tree \<Rightarrow> ptr \<Rightarrow> kvs \<Rightarrow> bool" where
  "leaf_ok pb m t p es \<longleftrightarrow>
     (\<exists>n. heap t p = Some n \<and> leaf_shape (root t) n es \<and> leaf_saved pb m (schema t) (unsaved t) p n es)"

definition id_of :: "'s tree \<Rightarrow> ptr \<Rightarrow> u64" where
  "id_of t p = (case heap t p of Some n \<Rightarrow> node_id n | None \<Rightarrow> 0)"

text \<open>The root's size is that of its two range keys: it does not depend on its children.\<close>

definition root_shape :: "tree_schema \<Rightarrow> bpt_node \<Rightarrow> bool" where
  "root_shape sc n \<longleftrightarrow>
     \<not> is_leaf n \<and> is_root n \<and> parent n = None \<and> kvs n = [] \<and> node_id n = ts_root_id sc \<and>
     length (min_key (stat n)) \<le> max_key_len \<and> length (max_key (stat n)) \<le> max_key_len \<and>
     node_size (stat n) = len64 (min_key (stat n)) + len64 (max_key (stat n))"

definition root_refs :: "'s tree \<Rightarrow> ptr list \<Rightarrow> BptNodeRefProto list" where
  "root_refs t ps = map (\<lambda>p. NodeRef (the (heap t p))) ps"

definition root_saved :: "proto_ops \<Rightarrow> (bytes \<rightharpoonup> bytes) \<Rightarrow> 's tree \<Rightarrow> bpt_node \<Rightarrow> bool" where
  "root_saved pb m t n \<longleftrightarrow>
     (ts_root_id (schema t), root t) \<in> set (unsaved t) \<or>
     stored_root pb m (schema t) (root_refs t (children n)) \<or>
     (children n = [] \<and> m (node_key (schema t) (ts_root_id (schema t))) = None)"

text \<open>Node ids are unique, and none above the counter is used in the storage.\<close>

definition ids_ok :: "(bytes \<rightharpoonup> bytes) \<Rightarrow> 's tree \<Rightarrow> ptr list \<Rightarrow> bool" where
  "ids_ok m t ps \<longleftrightarrow>
     distinct (ts_root_id (schema t) # map (id_of t) ps) \<and>
     (\<forall>i \<in> set (ts_root_id (schema t) # map (id_of t) ps). i \<le> ctx_id t) \<and>
     (\<forall>i. ctx_id t < i \<longrightarrow> m (node_key (schema t) i) = None) \<and>
     (\<forall>p. heap t p \<noteq> None \<longrightarrow> p < next_ptr t)"

definition unsaved_ok :: "'s tree \<Rightarrow> ptr list \<Rightarrow> bool" where
  "unsaved_ok t ps \<longleftrightarrow>
     distinct (map fst (unsaved t)) \<and>
     (\<forall>(i, p) \<in> set (unsaved t). p \<in> set (root t # ps) \<and> i = id_of t p)"

definition tree_inv :: "proto_ops \<Rightarrow> ('s \<Rightarrow> bytes \<rightharpoonup> bytes) \<Rightarrow> 's tree \<Rightarrow> kvs list \<Rightarrow> bool" where
  "tree_inv pb contents t ls \<longleftrightarrow>
     (\<exists>n. heap t (root t) = Some n \<and> root_shape (schema t) n \<and>
          list_all2 (leaf_ok pb (contents (storage t)) t) (children n) ls \<and>
          root_saved pb (contents (storage t)) t n \<and>
          ids_ok (contents (storage t)) t (children n) \<and> unsaved_ok t (children n)) \<and>
     kvs_ok (concat ls)"

text \<open>Loading a leaf again changes nothing: what the storage has of it is among its entries.\<close>

definition reload_safe :: "proto_ops \<Rightarrow> (bytes \<rightharpoonup> bytes) \<Rightarrow> 's tree \<Rightarrow> ptr \<Rightarrow> kvs \<Rightarrow> bool" where
  "reload_safe pb m t p es \<longleftrightarrow>
     m (node_key (schema t) (id_of t p)) = None \<or>
     (\<exists>d. stored_leaf pb m (schema t) (id_of t p) d \<and> kvs_ok d \<and> fst ` set d \<subseteq> fst ` set es)"

definition tree_safe :: "proto_ops \<Rightarrow> ('s \<Rightarrow> bytes \<rightharpoonup> bytes) \<Rightarrow> 's tree \<Rightarrow> kvs list \<Rightarrow> bool" where
  "tree_safe pb contents t ls \<longleftrightarrow>
     tree_inv pb contents t ls \<and>
     (\<exists>n. heap t (root t) = Some n \<and>
          list_all2 (reload_safe pb (contents (storage t)) t) (children n) ls)"

text \<open>A saved tree has nothing left to write.\<close>

definition tree_clean :: "proto_ops \<Rightarrow> ('s \<Rightarrow> bytes \<rightharpoonup> bytes) \<Rightarrow> 's tree \<Rightarrow> kvs list \<Rightarrow> bool" where
  "tree_clean pb contents t ls \<longleftrightarrow> tree_inv pb contents t ls \<and> unsaved t = []"

section \<open>Basic facts\<close>

lemma node_key_inj [simp]: "node_key sc i = node_key sc j \<longleftrightarrow> i = j"
  by (simp add: node_key_def key_encoder_defs)

lemma deref_Some [simp]: "heap t p = Some n \<Longrightarrow> deref t p = Inr n"
  by (simp add: deref_def)

lemma put_simps [simp]:
  "heap (put p n t) = (heap t)(p \<mapsto> n)" "next_ptr (put p n t) = next_ptr t"
  "unsaved (put p n t) = unsaved t" "ctx_id (put p n t) = ctx_id t"
  "schema (put p n t) = schema t" "storage (put p n t) = storage t" "root (put p n t) = root t"
  by (simp_all add: put_def)

lemma put_put [simp]: "put p a (put p b t) = put p a t"
  by (simp add: put_def)

lemma on_node_simp [simp]: "heap t p = Some n \<Longrightarrow> f n = Inr n1 \<Longrightarrow> on_node p f t = Inr (put p n1 t)"
  by (simp add: on_node_def)

lemma kvs_ok_append: "kvs_ok (a @ b) \<longleftrightarrow>
    kvs_ok a \<and> kvs_ok b \<and> (\<forall>k \<in> fst ` set a. \<forall>k' \<in> fst ` set b. k < k')"
  by (auto simp: kvs_ok_def sorted_wrt_append)

lemma kvs_ok_smap: "kvs_ok es \<Longrightarrow> smap_ok es"
  by (simp add: kvs_ok_def)

lemma kvs_ok_emplace:
  "kvs_ok es \<Longrightarrow> length k \<le> max_key_len \<Longrightarrow> length v < 2 ^ 32 \<Longrightarrow> kvs_ok (smap_emplace k v es)"
  using set_emplace [of k v es] by (fastforce simp: kvs_ok_def smap_ok_emplace)

lemma kvs_ok_erase: "kvs_ok es \<Longrightarrow> kvs_ok (smap_erase k es)"
  using set_erase [of k es] by (fastforce simp: kvs_ok_def smap_ok_erase)

lemma kvs_ok_lengths: "kvs_ok es \<Longrightarrow> (k, v) \<in> set es \<Longrightarrow> length k < 2 ^ 32 \<and> length v < 2 ^ 32"
  by (fastforce simp: kvs_ok_def max_key_len_def)

lemma kvs_ok_concat: "kvs_ok (concat ls) \<Longrightarrow> es \<in> set ls \<Longrightarrow> kvs_ok es"
  by (induction ls) (auto simp: kvs_ok_append)

lemma tree_inv_concat: "tree_inv pb contents t ls \<Longrightarrow> kvs_ok (concat ls)"
  by (simp add: tree_inv_def)

lemma tree_invE:
  assumes "tree_inv pb contents t ls"
  obtains n where "heap t (root t) = Some n" "root_shape (schema t) n"
    "list_all2 (leaf_ok pb (contents (storage t)) t) (children n) ls"
    "root_saved pb (contents (storage t)) t n"
    "ids_ok (contents (storage t)) t (children n)" "unsaved_ok t (children n)"
    "kvs_ok (concat ls)"
  using assms by (auto simp: tree_inv_def)

lemma distinct_middle:
  "distinct (a @ c) \<Longrightarrow> distinct b \<Longrightarrow> (set a \<union> set c) \<inter> set b = {} \<Longrightarrow> distinct (a @ b @ c)"
  by auto

section \<open>Replacing a run of leaves\<close>

text \<open>Every operation on the tree replaces a run \<open>B\<close> of children (none, one leaf) by a run \<open>Q\<close>
  (none, one leaf, two halves), and registers the root. This lemma is the frame of all of
  them: what is left of the proof is the new leaves.\<close>

lemma tree_inv_splice:
  assumes inv: "tree_inv pb contents t (LA @ LB @ LC)"
    and rn: "heap t (root t) = Some rn" "children rn = A @ B @ C"
    and len: "length A = length LA" "length B = length LB"
    and same: "root t' = root t" "schema t' = schema t" "storage t' = storage t"
    and grow: "ctx_id t \<le> ctx_id t'"
    and frame: "\<And>p. p \<in> set A \<union> set C \<Longrightarrow> heap t' p = heap t p"
    and rn': "heap t' (root t) = Some rn'" "children rn' = A @ Q @ C" "root_shape (schema t) rn'"
    and new: "list_all2 (leaf_ok pb (contents (storage t)) t') Q LQ"
    and ids: "distinct (map (id_of t') Q)"
      "\<And>q. q \<in> set Q \<Longrightarrow> id_of t' q \<in> id_of t ` set B \<or> ctx_id t < id_of t' q \<and> id_of t' q \<le> ctx_id t'"
    and ptrs: "\<And>p. heap t' p \<noteq> None \<Longrightarrow> p < next_ptr t'"
    and keep: "\<And>x. x \<in> set (unsaved t) \<Longrightarrow> fst x \<notin> id_of t ` set B \<Longrightarrow> x \<in> set (unsaved t')"
    and unew: "\<And>x. x \<in> set (unsaved t') \<Longrightarrow> x \<in> set (unsaved t) \<and> fst x \<notin> id_of t ` set B \<or>
        snd x \<in> set (root t # Q) \<and> fst x = id_of t' (snd x)"
      "distinct (map fst (unsaved t'))" "(ts_root_id (schema t), root t) \<in> set (unsaved t')"
    and ok: "kvs_ok (concat (LA @ LQ @ LC))"
  shows "tree_inv pb contents t' (LA @ LQ @ LC)"
proof -
  from inv rn obtain inv':
    "list_all2 (leaf_ok pb (contents (storage t)) t) (A @ B @ C) (LA @ LB @ LC)"
    "ids_ok (contents (storage t)) t (A @ B @ C)" "unsaved_ok t (A @ B @ C)" "root_shape (schema t) rn"
    by (elim tree_invE) auto
  have l2: "list_all2 (leaf_ok pb (contents (storage t)) t) A LA"
    "list_all2 (leaf_ok pb (contents (storage t)) t) C LC"
    using inv'(1) len by (auto simp: list_all2_append)
  have idAC: "id_of t' p = id_of t p" if "p \<in> set A \<union> set C" for p
    using frame [OF that] by (simp add: id_of_def)
  have dist: "distinct (ts_root_id (schema t) # map (id_of t) (A @ B @ C))"
    and le: "\<And>i. i \<in> set (ts_root_id (schema t) # map (id_of t) (A @ B @ C)) \<Longrightarrow> i \<le> ctx_id t"
    using inv'(2) by (auto simp: ids_ok_def)
  have keepAC: "leaf_ok pb (contents (storage t)) t' p es"
    if p: "p \<in> set A \<union> set C" and l: "leaf_ok pb (contents (storage t)) t p es" for p es
  proof -
    from l obtain n where n: "heap t p = Some n" "leaf_shape (root t) n es"
      "leaf_saved pb (contents (storage t)) (schema t) (unsaved t) p n es" by (auto simp: leaf_ok_def)
    have id: "id_of t p = node_id n" using n(1) by (simp add: id_of_def)
    have nB: "node_id n \<notin> id_of t ` set B" using dist p by (auto simp flip: id)
    have "(node_id n, p) \<in> set (unsaved t') \<longleftrightarrow> (node_id n, p) \<in> set (unsaved t)"
    proof
      assume "(node_id n, p) \<in> set (unsaved t')"
      from unew(1) [OF this] show "(node_id n, p) \<in> set (unsaved t)"
      proof
        assume a: "snd (node_id n, p) \<in> set (root t # Q) \<and> fst (node_id n, p) = id_of t' (snd (node_id n, p))"
        have "p \<noteq> root t"
          using n(1,2) rn(1) inv'(4) by (auto simp: leaf_shape_def root_shape_def)
        with a have pq: "p \<in> set Q" by simp
        have "id_of t' p = node_id n" using a by simp
        with ids(2) [OF pq] nB have "ctx_id t < node_id n" by simp
        moreover have "node_id n \<le> ctx_id t" using le p by (auto simp flip: id)
        ultimately show ?thesis by simp
      qed simp
    qed (use keep nB in auto)
    then show ?thesis
      using n frame [OF p] same by (auto simp: leaf_ok_def leaf_saved_def)
  qed
  have "list_all2 (leaf_ok pb (contents (storage t)) t') (A @ Q @ C) (LA @ LQ @ LC)"
    using l2 new keepAC by (intro list_all2_appendI) (auto elim!: list.rel_mono_strong)
  moreover have "ids_ok (contents (storage t)) t' (A @ Q @ C)"
  proof -
    have m: "map (id_of t') (A @ Q @ C) = map (id_of t) A @ map (id_of t') Q @ map (id_of t) C"
      using idAC by simp
    let ?Z = "insert (ts_root_id (schema t)) (id_of t ` (set A \<union> set C))"
    have zB: "?Z \<inter> id_of t ` set B = {}" using dist by auto
    have zle: "z \<le> ctx_id t" if "z \<in> ?Z" for z using le [of z] that by auto
    have nQ: "?Z \<inter> id_of t' ` set Q = {}"
    proof (rule ccontr)
      assume "?Z \<inter> id_of t' ` set Q \<noteq> {}"
      then obtain z where z: "z \<in> ?Z" "z \<in> id_of t' ` set Q" by (meson disjoint_iff)
      from z(2) obtain q where "z = id_of t' q" "q \<in> set Q" by (elim imageE)
      with z(1) have q: "q \<in> set Q" "id_of t' q \<in> ?Z" by simp_all
      from ids(2) [OF q(1)] zB zle [OF q(2)] q(2) show False by (metis disjoint_iff leD)
    qed
    have "distinct (ts_root_id (schema t) # map (id_of t) A @ map (id_of t) C)"
      using dist by auto
    then have "distinct (ts_root_id (schema t) # map (id_of t') (A @ Q @ C))"
      using distinct_middle [of "ts_root_id (schema t) # map (id_of t) A" "map (id_of t) C"
          "map (id_of t') Q"] ids(1) nQ
      unfolding m by (simp add: image_Un)
    moreover have "i \<le> ctx_id t'" if "i \<in> set (ts_root_id (schema t) # map (id_of t') (A @ Q @ C))" for i
    proof -
      from that have "i \<in> ?Z \<or> (\<exists>q \<in> set Q. i = id_of t' q)" unfolding m by auto
      then show ?thesis
      proof
        assume "i \<in> ?Z"
        from zle [OF this] grow show ?thesis by (rule order_trans)
      next
        assume "\<exists>q \<in> set Q. i = id_of t' q"
        then obtain q where q: "q \<in> set Q" "i = id_of t' q" by (elim bexE)
        from ids(2) [OF q(1)] show ?thesis
        proof
          assume "id_of t' q \<in> id_of t ` set B"
          then have "i \<le> ctx_id t" using le [of i] q(2) by auto
          then show ?thesis using grow by (rule order_trans)
        qed (simp add: q(2))
      qed
    qed
    ultimately show ?thesis
      using inv'(2) ptrs grow same by (auto simp: ids_ok_def)
  qed
  moreover have "unsaved_ok t' (A @ Q @ C)"
    unfolding unsaved_ok_def
  proof (intro conjI ballI)
    fix x assume x: "x \<in> set (unsaved t')"
    show "case x of (i, p) \<Rightarrow> p \<in> set (root t' # A @ Q @ C) \<and> i = id_of t' p"
      using unew(1) [OF x]
    proof
      assume a: "x \<in> set (unsaved t) \<and> fst x \<notin> id_of t ` set B"
      then have "snd x \<in> set (root t # A @ B @ C)" "fst x = id_of t (snd x)"
        using inv'(3) by (auto simp: unsaved_ok_def)
      with a idAC rn' rn(1) inv'(4) same show ?thesis
        by (auto simp: id_of_def root_shape_def)
    qed (use same in auto)
  qed (use unew in auto)
  ultimately show ?thesis
    using rn' same ok unew(3) by (auto simp: tree_inv_def root_saved_def)
qed

end
