(* ===== verification/BptRoute.thy ===== *)
theory BptRoute
  imports BptInv
begin

text \<open>
  Where a key belongs: the binary searches over the children of the root, read on the list of
  leaf contents, and the run of leaves they split it into.
\<close>

section \<open>Positions in the list of leaves\<close>

definition pos_ge :: "bytes \<Rightarrow> kvs list \<Rightarrow> nat" where
  "pos_ge key ls = length (takeWhile (\<lambda>es. fst (last es) < key) ls)"

definition pos_gt :: "bytes \<Rightarrow> kvs list \<Rightarrow> nat" where
  "pos_gt key ls = length (takeWhile (\<lambda>es. fst (last es) \<le> key) ls)"

lemma key_le_last: "smap_ok es \<Longrightarrow> (k, v) \<in> set es \<Longrightarrow> k \<le> fst (last es)"
  by (induction es) (auto simp: less_le last_in_set)

lemma key_ge_hd: "smap_ok es \<Longrightarrow> (k, v) \<in> set es \<Longrightarrow> fst (hd es) \<le> k"
  by (induction es) (auto simp: less_le)

lemma maxes_sorted:
  "smap_ok (concat ls) \<Longrightarrow> [] \<notin> set ls \<Longrightarrow> sorted_wrt (<) (map (\<lambda>es. fst (last es)) ls)"
proof (induction ls)
  case (Cons es ls)
  then have "fst (last es) < fst (last es')" if "es' \<in> set ls" for es'
    using that by (auto simp: sorted_wrt_append) (metis last_in_set prod.collapse)
  with Cons show ?case by (auto simp: sorted_wrt_append)
qed simp

lemma sorted_nth_less: "sorted_wrt (<) (xs :: bytes list) \<Longrightarrow> i < j \<Longrightarrow> j < length xs \<Longrightarrow> xs ! i < xs ! j"
  by (simp add: sorted_wrt_nth_less)

lemma partition_lt:
  assumes "sorted_wrt (<) (map f xs)"
  shows "std_partition_point (\<lambda>x. f x < (key :: bytes)) xs = length (takeWhile (\<lambda>x. f x < key) xs)"
proof (rule std_partition_point_eq)
  fix i j assume "i < j" "j < length xs" "f (xs ! j) < key"
  moreover from this sorted_nth_less [OF assms, of i j] have "f (xs ! i) < f (xs ! j)" by simp
  ultimately show "f (xs ! i) < key" by simp
qed

lemma partition_le:
  assumes "sorted_wrt (<) (map f xs)"
  shows "std_partition_point (\<lambda>x. f x \<le> (key :: bytes)) xs = length (takeWhile (\<lambda>x. f x \<le> key) xs)"
proof (rule std_partition_point_eq)
  fix i j assume "i < j" "j < length xs" "f (xs ! j) \<le> key"
  moreover from this sorted_nth_less [OF assms, of i j] have "f (xs ! i) < f (xs ! j)" by simp
  ultimately show "f (xs ! i) \<le> key" by simp
qed

lemma takeWhile_length_map: "map f xs = map g ys \<Longrightarrow>
    length (takeWhile (\<lambda>x. P (f x)) xs) = length (takeWhile (\<lambda>y. P (g y)) ys)"
proof -
  note f = takeWhile_map [of P f xs, unfolded comp_def] and g = takeWhile_map [of P g ys, unfolded comp_def]
  assume "map f xs = map g ys"
  with f g have "map f (takeWhile (\<lambda>x. P (f x)) xs) = map g (takeWhile (\<lambda>y. P (g y)) ys)" by simp
  then show ?thesis by (rule map_eq_imp_length_eq)
qed

section \<open>The searches\<close>

text \<open>What the searches read of the children.\<close>

definition stats_of :: "'s tree \<Rightarrow> bpt_node \<Rightarrow> kvs list \<Rightarrow> bool" where
  "stats_of t n ls \<longleftrightarrow> list_all2 (\<lambda>p es. \<exists>c. heap t p = Some c \<and> es \<noteq> [] \<and>
     min_key (stat c) = fst (hd es) \<and> max_key (stat c) = fst (last es)) (children n) ls"

lemma stats_of_leaves:
  "list_all2 (leaf_ok pb m t) (children n) ls \<Longrightarrow> stats_of t n ls"
  unfolding stats_of_def by (erule list.rel_mono_strong) (auto simp: leaf_ok_def leaf_shape_def)

lemma child_stats_eq:
  assumes "stats_of t n ls"
  obtains ss where "child_stats n t = Inr ss" "map max_key ss = map (\<lambda>es. fst (last es)) ls"
    "map min_key ss = map (\<lambda>es. fst (hd es)) ls" "[] \<notin> set ls" "length (children n) = length ls"
proof -
  let ?s = "\<lambda>p. stat (the (heap t p))"
  have 1: "mapR (\<lambda>p. bindR (deref t p) (\<lambda>c. Inr (stat c))) (children n) = Inr (map ?s (children n))"
    using assms by (intro mapR_total) (auto simp: stats_of_def list_all2_conv_all_nth in_set_conv_nth)
  have 2: "map max_key (map ?s (children n)) = map (\<lambda>es. fst (last es)) ls"
    "map min_key (map ?s (children n)) = map (\<lambda>es. fst (hd es)) ls"
    "[] \<notin> set ls" "length (children n) = length ls"
    using assms by (auto simp: stats_of_def list_all2_conv_all_nth in_set_conv_nth intro!: nth_equalityI)
  show ?thesis using that [OF _ 2] 1 by (simp add: child_stats_def)
qed

lemma MaxKeyLowerBound_pos:
  assumes "stats_of t n ls" "smap_ok (concat ls)"
  shows "MaxKeyLowerBound key n t = Inr (pos_ge key ls)"
proof -
  obtain ss where ss: "child_stats n t = Inr ss" "map max_key ss = map (\<lambda>es. fst (last es)) ls"
    "[] \<notin> set ls" using child_stats_eq [OF assms(1)] .
  have "std_partition_point (\<lambda>s. max_key s < key) ss = length (takeWhile (\<lambda>s. max_key s < key) ss)"
    using maxes_sorted [OF assms(2) ss(3)] by (intro partition_lt) (simp add: ss(2))
  with takeWhile_length_map [OF ss(2), of "\<lambda>k. k < key"] ss(1) show ?thesis
    by (simp add: MaxKeyLowerBound_def pos_ge_def)
qed

lemma MaxKeyUpperBound_pos:
  assumes "stats_of t n ls" "smap_ok (concat ls)"
  shows "MaxKeyUpperBound key n t = Inr (pos_gt key ls)"
proof -
  obtain ss where ss: "child_stats n t = Inr ss" "map max_key ss = map (\<lambda>es. fst (last es)) ls"
    "[] \<notin> set ls" using child_stats_eq [OF assms(1)] .
  have "std_partition_point (\<lambda>s. max_key s \<le> key) ss = length (takeWhile (\<lambda>s. max_key s \<le> key) ss)"
    using maxes_sorted [OF assms(2) ss(3)] by (intro partition_le) (simp add: ss(2))
  with takeWhile_length_map [OF ss(2), of "\<lambda>k. k \<le> key"] ss(1) show ?thesis
    by (simp add: MaxKeyUpperBound_def pos_gt_def not_less)
qed

section \<open>The run a key belongs to\<close>

definition below :: "kvs list \<Rightarrow> bytes \<Rightarrow> bool" where
  "below ls key \<longleftrightarrow> (\<forall>k \<in> fst ` set (concat ls). k < key)"

definition above :: "bytes \<Rightarrow> kvs list \<Rightarrow> bool" where
  "above key ls \<longleftrightarrow> (\<forall>k \<in> fst ` set (concat ls). key < k)"

lemma belowD: "below ls key \<Longrightarrow> k \<in> fst ` set (concat ls) \<Longrightarrow> k < key"
  by (simp only: below_def)

lemma aboveD: "above key ls \<Longrightarrow> k \<in> fst ` set (concat ls) \<Longrightarrow> key < k"
  by (simp only: above_def)

lemma below_Cons: "below (es # ls) key \<longleftrightarrow> (\<forall>k \<in> fst ` set es. k < key) \<and> below ls key"
  unfolding below_def by auto

lemma pos_ge_below:
  assumes "smap_ok (concat ls)"
  shows "below (take (pos_ge key ls) ls) key"
  using assms
proof (induction ls)
  case (Cons es ls)
  show ?case
  proof (cases "fst (last es) < key")
    case True
    have "smap_ok es" "smap_ok (concat ls)" using Cons.prems by (simp_all add: sorted_wrt_append)
    moreover from this(1) have "\<forall>k \<in> fst ` set es. k < key"
      using True key_le_last [of es] by (auto intro: le_less_trans [OF _ True])
    ultimately have "\<forall>k \<in> fst ` set es. k < key" "below (take (pos_ge key ls) ls) key"
      using Cons.IH by simp_all
    with True show ?thesis by (simp add: pos_ge_def below_Cons)
  next
    case False
    then show ?thesis by (simp add: pos_ge_def below_def)
  qed
qed (simp add: below_def)

lemma pos_ge_above:
  assumes "smap_ok (concat ls)" "[] \<notin> set ls" "pos_ge key ls < length ls"
  shows "key \<le> fst (last (ls ! pos_ge key ls)) \<and> above key (drop (Suc (pos_ge key ls)) ls)"
  using assms
proof (induction ls)
  case (Cons es ls)
  show ?case
  proof (cases "fst (last es) < key")
    case True
    with Cons show ?thesis by (simp add: pos_ge_def sorted_wrt_append)
  next
    case False
    have "fst (last es) < k" if "(k, v) \<in> set (concat ls)" for k v
      using Cons.prems that by (auto simp: sorted_wrt_append) (metis last_in_set prod.collapse fst_conv)
    with False show ?thesis by (fastforce simp: pos_ge_def above_def not_less)
  qed
qed simp

text \<open>The leaf an insertion goes to: the first whose largest key is not below the new one, or
  the last leaf.\<close>

lemma route_insert:
  assumes ok: "smap_ok (concat ls)" and ne: "[] \<notin> set ls" "ls \<noteq> []"
  obtains LA es LC where "ls = LA @ es # LC"
    "length LA = (if pos_ge key ls = length ls then length ls - 1 else pos_ge key ls)"
    "below LA key" "above key LC"
proof -
  let ?i = "pos_ge key ls"
  have le: "?i \<le> length ls" by (simp add: pos_ge_def length_takeWhile_le)
  have b: "below (take ?i ls) key" by (rule pos_ge_below [OF ok])
  show ?thesis
  proof (cases "?i = length ls")
    case True
    have "ls = butlast ls @ last ls # []" using ne by simp
    moreover have "below (butlast ls) key"
      using b ne unfolding True by (auto simp: below_def dest: in_set_butlastD)
    moreover have "above key []" by (simp add: above_def)
    ultimately show ?thesis using that [of "butlast ls" "last ls" "[]"] True by simp
  next
    case False
    with le have lt: "?i < length ls" by simp
    have "ls = take ?i ls @ ls ! ?i # drop (Suc ?i) ls" using lt by (rule id_take_nth_drop)
    with that [of "take ?i ls" "ls ! ?i" "drop (Suc ?i) ls"] b pos_ge_above [OF ok ne(1) lt] False lt
    show ?thesis by simp
  qed
qed

lemma FindChild_pos:
  assumes st: "stats_of t n ls" and ok: "smap_ok (concat ls)"
  shows "FindChild key n t = Inr (if pos_ge key ls < length ls \<and> fst (hd (ls ! pos_ge key ls)) \<le> key
    then pos_ge key ls else length (children n))"
proof -
  have len: "length (children n) = length ls" using st by (auto simp: stats_of_def dest: list_all2_lengthD)
  show ?thesis
  proof (cases "pos_ge key ls = length ls")
    case True
    then show ?thesis by (simp add: FindChild_def MaxKeyLowerBound_pos [OF st ok] len)
  next
    case False
    then have lt: "pos_ge key ls < length ls"
      using length_takeWhile_le [of _ ls] by (simp add: pos_ge_def order_less_le)
    with st obtain c where "heap t (children n ! pos_ge key ls) = Some c"
      "min_key (stat c) = fst (hd (ls ! pos_ge key ls))"
      by (auto simp: stats_of_def list_all2_conv_all_nth)
    with lt show ?thesis by (simp add: FindChild_def MaxKeyLowerBound_pos [OF st ok] len)
  qed
qed

text \<open>The leaf that covers a key, if there is one.\<close>

lemma route_find:
  assumes ok: "smap_ok (concat ls)" and ne: "[] \<notin> set ls"
  obtains (none) "\<not> (pos_ge key ls < length ls \<and> fst (hd (ls ! pos_ge key ls)) \<le> key)"
      "key \<notin> fst ` set (concat ls)"
  | (some) LA es LC where "ls = LA @ es # LC" "length LA = pos_ge key ls" "pos_ge key ls < length ls"
      "fst (hd es) \<le> key" "below LA key" "above key LC"
proof (cases "pos_ge key ls < length ls")
  case True
  let ?i = "pos_ge key ls"
  have ls: "ls = take ?i ls @ ls ! ?i # drop (Suc ?i) ls" using True by (rule id_take_nth_drop)
  note ab = pos_ge_below [OF ok, of key] pos_ge_above [OF ok ne True]
  show ?thesis
  proof (cases "fst (hd (ls ! ?i)) \<le> key")
    case c: True
    show ?thesis by (rule some [OF ls]) (use c ab True in simp_all)
  next
    case False
    have "smap_ok (ls ! ?i)" using ok ls by (metis concat.simps(2) concat_append smap_ok_append)
    then have "key \<notin> fst ` set (ls ! ?i)" using False key_ge_hd by force
    moreover have "key \<notin> fst ` set (concat (take ?i ls))" "key \<notin> fst ` set (concat (drop (Suc ?i) ls))"
      using ab by (auto simp: below_def above_def)
    ultimately have "key \<notin> fst ` set (concat ls)"
      by (subst ls) (auto simp del: take_append)
    with False show ?thesis by (intro none) simp_all
  qed
next
  case False
  then have "take (pos_ge key ls) ls = ls" by simp
  with pos_ge_below [OF ok, of key] have "key \<notin> fst ` set (concat ls)" by (auto simp: below_def)
  with False show ?thesis by (intro none) simp_all
qed

section \<open>Updating one leaf\<close>

lemma concat_emplace:
  assumes "below LA key" "above key LC"
  shows "concat (LA @ smap_emplace key v es # LC) = smap_emplace key v (concat (LA @ es # LC))"
proof -
  have "smap_emplace key v (concat LA @ es @ concat LC) = concat LA @ smap_emplace key v (es @ concat LC)"
    by (rule smap_emplace_append1) (rule belowD [OF assms(1)])
  moreover have "smap_emplace key v (es @ concat LC) = smap_emplace key v es @ concat LC"
    by (rule smap_emplace_append2) (rule aboveD [OF assms(2)])
  ultimately show ?thesis by simp
qed

lemma concat_erase:
  assumes "below LA key" "above key LC"
  shows "concat (LA @ smap_erase key es # LC) = smap_erase key (concat (LA @ es # LC))"
proof -
  have "key \<notin> fst ` set (concat LA)" "key \<notin> fst ` set (concat LC)"
    using assms by (auto simp: below_def above_def)
  then show ?thesis
    using smap_erase_append1 [of key "concat LA" "es @ concat LC"]
      smap_erase_append2 [of key es "concat LC"] smap_erase_append1 [of key es "concat LC"]
      smap_erase_absent [of key "concat LC"] smap_erase_absent [of key es]
    by (cases "key \<in> fst ` set es") auto
qed

lemma member_leaf:
  assumes "below LA key" "above key LC"
  shows "key \<in> fst ` set (concat (LA @ es # LC)) \<longleftrightarrow> key \<in> fst ` set es"
  using assms by (auto simp: below_def above_def)

end
