(* ===== verification/BptRefine.thy ===== *)
theory BptRefine
  imports BptRoute
begin

text \<open>
  What the operations of the tree do to a tree that satisfies the invariant, proved once for
  any storage that keeps the laws of \<open>kv_store\<close> and any serializer that keeps those of
  \<open>protobuf\<close>.
\<close>

locale bpt_env = kv_store kv contents + protobuf pb
  for kv :: "'s kv_api" and contents :: "'s \<Rightarrow> bytes \<rightharpoonup> bytes" and pb :: proto_ops

text \<open>The state after a leaf with the entries \<open>es\<close> was loaded.\<close>

definition loaded_node :: "kvs \<Rightarrow> bpt_node \<Rightarrow> bpt_node" where
  "loaded_node es n = n\<lparr>kvs := es, is_loaded := True\<rparr>"

definition loaded :: "ptr \<Rightarrow> kvs \<Rightarrow> 's tree \<Rightarrow> 's tree" where
  "loaded p es t = put p (loaded_node es (the (heap t p))) t"

lemma loaded_node_simps [simp]:
  "node_id (loaded_node es n) = node_id n" "is_leaf (loaded_node es n) = is_leaf n"
  "is_root (loaded_node es n) = is_root n" "parent (loaded_node es n) = parent n"
  "children (loaded_node es n) = children n" "kvs (loaded_node es n) = es"
  "write_kvs (loaded_node es n) = write_kvs n" "stat (loaded_node es n) = stat n"
  by (simp_all add: loaded_node_def)

lemma loaded_simps [simp]:
  "next_ptr (loaded p es t) = next_ptr t" "unsaved (loaded p es t) = unsaved t"
  "ctx_id (loaded p es t) = ctx_id t" "schema (loaded p es t) = schema t"
  "storage (loaded p es t) = storage t" "root (loaded p es t) = root t"
  by (simp_all add: loaded_def)

lemma heap_loaded: "heap t p = Some n \<Longrightarrow> heap (loaded p es t) = (heap t)(p \<mapsto> loaded_node es n)"
  by (simp add: loaded_def)

lemma id_of_loaded: "heap t p = Some n \<Longrightarrow> id_of (loaded p es t) = id_of t"
  by (auto simp: id_of_def heap_loaded fun_eq_iff)

lemma leaf_okE:
  assumes "leaf_ok pb m t p es"
  obtains n where "heap t p = Some n" "leaf_shape (root t) n es"
    "leaf_saved pb m (schema t) (unsaved t) p n es"
  using assms by (auto simp: leaf_ok_def)

lemma leaf_ok_loaded:
  assumes "leaf_ok pb m t p es" "leaf_ok pb m t q es'" "q = p \<Longrightarrow> es' = es"
  shows "leaf_ok pb m (loaded p es t) q es'"
proof -
  from assms(1) obtain n where n: "heap t p = Some n" "leaf_shape (root t) n es"
    "leaf_saved pb m (schema t) (unsaved t) p n es" by (rule leaf_okE)
  show ?thesis
  proof (cases "q = p")
    case True
    with n assms(3) show ?thesis
      by (auto simp: leaf_ok_def heap_loaded leaf_shape_def leaf_saved_def)
  next
    case False
    with assms(2) n show ?thesis by (auto simp: leaf_ok_def heap_loaded)
  qed
qed

lemma tree_inv_loaded:
  assumes inv: "tree_inv pb contents t ls"
    and rn: "heap t (root t) = Some rn" "children rn = A @ p # C" "ls = LA @ es # LC" "length A = length LA"
  shows "tree_inv pb contents (loaded p es t) ls"
    "heap (loaded p es t) (root t) = Some rn"
proof -
  let ?m = "contents (storage t)"
  from inv rn(1) obtain h: "root_shape (schema t) rn" "list_all2 (leaf_ok pb ?m t) (children rn) ls"
    "root_saved pb ?m t rn" "ids_ok ?m t (children rn)" "unsaved_ok t (children rn)" "kvs_ok (concat ls)"
    by (elim tree_invE) auto
  from h(2) rn have p: "leaf_ok pb ?m t p es" by (auto simp: list_all2_append)
  then obtain n where n: "heap t p = Some n" "leaf_shape (root t) n es" by (rule leaf_okE)
  have pr: "p \<noteq> root t" using n h(1) rn(1) by (auto simp: leaf_shape_def root_shape_def)
  then show rt: "heap (loaded p es t) (root t) = Some rn" using rn(1) n by (simp add: heap_loaded)
  have dist: "distinct (map (id_of t) (children rn))" using h(4) by (simp add: ids_ok_def)
  have "list_all2 (leaf_ok pb ?m (loaded p es t)) (children rn) ls"
    unfolding list_all2_conv_all_nth
  proof (intro conjI allI impI)
    show len: "length (children rn) = length ls" using h(2) by (rule list_all2_lengthD)
    fix i assume i: "i < length (children rn)"
    have l: "leaf_ok pb ?m t (children rn ! i) (ls ! i)" using h(2) i by (rule list_all2_nthD)
    have "ls ! i = es" if "children rn ! i = p"
    proof -
      have "children rn ! length A = p" "length A < length (children rn)" using rn(2) by simp_all
      with that i dist have "i = length A"
        by (metis distinct_map nth_eq_iff_index_eq)
      with rn(3,4) show ?thesis by simp
    qed
    with leaf_ok_loaded [OF p l] show "leaf_ok pb ?m (loaded p es t) (children rn ! i) (ls ! i)" by simp
  qed
  moreover have "root_refs (loaded p es t) (children rn) = root_refs t (children rn)"
    using n by (auto simp: root_refs_def heap_loaded NodeRef_def)
  moreover have "ids_ok ?m (loaded p es t) (children rn)"
    using h(4) n by (auto simp: ids_ok_def id_of_loaded [OF n(1)] heap_loaded)
  moreover have "unsaved_ok (loaded p es t) (children rn)"
    using h(5) by (simp add: unsaved_ok_def id_of_loaded [OF n(1)])
  ultimately show "tree_inv pb contents (loaded p es t) ls"
    using h rt by (auto simp: tree_inv_def root_saved_def)
qed

context bpt_env
begin

lemma load_ok:
  assumes l: "leaf_ok pb (contents (storage t)) t p es"
    and safe: "reload_safe pb (contents (storage t)) t p es" and ok: "kvs_ok es"
  obtains st where "LoadNodeFromKVStorage kv pb p t = Inr (st, loaded p es t)"
    "st = (if contents (storage t) (node_key (schema t) (id_of t p)) = None
           then C_STORAGE_KV_NOT_FOUND else C_OK)"
proof -
  let ?m = "contents (storage t)"
  from l obtain n where n: "heap t p = Some n" "leaf_shape (root t) n es"
    "leaf_saved pb ?m (schema t) (unsaved t) p n es" by (rule leaf_okE)
  have id: "id_of t p = node_id n" using n(1) by (simp add: id_of_def)
  show ?thesis
  proof (cases "?m (node_key (schema t) (node_id n))")
    case None
    then have "kvs n = es" using n(3) by (auto simp: leaf_saved_def stored_leaf_def split: if_splits)
    then have "n\<lparr>is_loaded := True\<rparr> = loaded_node es n" by (simp add: loaded_node_def)
    with None that n(1) show ?thesis
      by (simp add: LoadNodeFromKVStorage_def GetNodeFromKVStorage_def LoadTreeNode_def GetKV_miss
          loaded_def id)
  next
    case (Some b)
    obtain d where d: "stored_leaf pb ?m (schema t) (node_id n) d" "kvs_ok d" "emplace_all d (kvs n) = es"
    proof (cases "kvs n = es")
      case True
      from safe Some id obtain d where d: "stored_leaf pb ?m (schema t) (node_id n) d" "kvs_ok d"
        "fst ` set d \<subseteq> fst ` set es" by (auto simp: reload_safe_def)
      with True emplace_all_known [of es d] kvs_ok_smap [OF ok] that show ?thesis by simp
    next
      case False
      with n(2,3) have "kvs n = []" "stored_leaf pb ?m (schema t) (node_id n) es"
        by (auto simp: leaf_shape_def leaf_saved_def split: if_splits)
      with that [of es] emplace_all_fresh [OF kvs_ok_smap [OF ok]] ok show ?thesis by simp
    qed
    have b: "b = ser_leaf pb (leaf_proto (node_id n) d)" using d(1) Some by (simp add: stored_leaf_def)
    have "is_leaf n" using n(2) by (simp add: leaf_shape_def)
    then have "Deserialize pb b p t = Inr (C_OK, put p (n\<lparr>kvs := es\<rparr>) t)"
      using load_leaf [OF kvs_ok_lengths [OF d(2)], where i = "node_id n" and m = "kvs n"] n(1) d(3)
      by (simp add: Deserialize_def b)
    with Some n(1) that show ?thesis
      by (simp add: LoadNodeFromKVStorage_def GetNodeFromKVStorage_def LoadTreeNode_def
          GetKV_hit loaded_def loaded_node_def id put_def)
  qed
qed

end

end
