(* ===== verification/BptInsert.thy ===== *)
theory BptInsert
  imports BptRefine
begin

text \<open>
  Insertion: the statistics of a leaf after an insertion, the two halves of a split, the update
  of the root, and the theorem that an insertion into a tree holding the map \<open>m\<close> reports a
  duplicate or leaves a tree holding \<open>m(k \<mapsto> v)\<close>, with or without a split.
\<close>

section \<open>The statistics of a leaf\<close>

lemma of_nat_eq_1: "n < 2 ^ 64 \<Longrightarrow> (of_nat n :: u64) = 1 \<longleftrightarrow> n = 1"
proof -
  assume "n < 2 ^ 64"
  then have "unat (of_nat n :: u64) = n" by (simp add: unat_of_nat)
  then show ?thesis by (metis of_nat_1 unsigned_1)
qed

lemma UpdateStatByAddKV_fields [simp]:
  "node_id (UpdateStatByAddKV k v n) = node_id n" "is_leaf (UpdateStatByAddKV k v n) = is_leaf n"
  "is_root (UpdateStatByAddKV k v n) = is_root n" "parent (UpdateStatByAddKV k v n) = parent n"
  "children (UpdateStatByAddKV k v n) = children n" "kvs (UpdateStatByAddKV k v n) = kvs n"
  "write_kvs (UpdateStatByAddKV k v n) = write_kvs n"
  by (simp_all add: UpdateStatByAddKV_def Let_def)

lemma UpdateStatByAddKV_keys:
  assumes "length (kvs n) < 2 ^ 64"
  shows "max_key (stat (UpdateStatByAddKV k v n)) =
      (if length (kvs n) = 1 \<or> max_key (stat n) < k then k else max_key (stat n))"
    "min_key (stat (UpdateStatByAddKV k v n)) =
      (if length (kvs n) = 1 \<or> k < min_key (stat n) then k else min_key (stat n))"
  by (simp_all add: UpdateStatByAddKV_def Let_def of_nat_eq_1 [OF assms])

definition with_kv :: "bytes \<Rightarrow> bytes \<Rightarrow> bpt_node \<Rightarrow> bpt_node" where
  "with_kv k v n = n\<lparr>write_kvs := (write_kvs n)(k \<mapsto> v), kvs := smap_emplace k v (kvs n)\<rparr>"

lemma with_kv_simps [simp]:
  "node_id (with_kv k v n) = node_id n" "is_leaf (with_kv k v n) = is_leaf n"
  "is_root (with_kv k v n) = is_root n" "parent (with_kv k v n) = parent n"
  "children (with_kv k v n) = children n" "kvs (with_kv k v n) = smap_emplace k v (kvs n)"
  "stat (with_kv k v n) = stat n"
  by (simp_all add: with_kv_def)

lemma BptNode_Insert_new:
  assumes "leaf_shape r n es" "kvs n = es" "k \<notin> fst ` set es"
  shows "BptNode_Insert k v n = Inr (C_OK, with_kv k v n)"
proof -
  have "smap_find k (kvs n) = None" using assms(2,3) smap_find_in [of k es] by blast
  moreover have "write_kvs n k = None" using assms by (auto simp: leaf_shape_def)
  ultimately show ?thesis
    using assms(1) by (simp add: BptNode_Insert_def with_kv_def leaf_shape_def)
qed

lemma BptNode_Insert_dup:
  assumes "leaf_shape r n es" "kvs n = es" "k \<in> fst ` set es"
  shows "BptNode_Insert k v n = Inr (C_BPTREE_DUPLICATE_KEY, n)"
  using assms smap_find_in [of k es] by (auto simp: BptNode_Insert_def leaf_shape_def)

lemma add_kv_shape:
  assumes sh: "leaf_shape r n es" "kvs n = es" and ok: "smap_ok es" and new: "k \<notin> fst ` set es"
    and len: "length es < 2 ^ 64 - 1"
  shows "leaf_shape r (UpdateStatByAddKV k v (with_kv k v n)) (smap_emplace k v es)"
proof -
  have ne: "es \<noteq> []" using sh(1) by (simp add: leaf_shape_def)
  have l: "length (kvs (with_kv k v n)) = Suc (length es)"
    using length_emplace [OF new] sh(2) by (simp add: with_kv_def)
  then have l64: "length (kvs (with_kv k v n)) < 2 ^ 64" and l1: "length (kvs (with_kv k v n)) \<noteq> 1"
    using len ne by (simp_all add: with_kv_def)
  have "dom (write_kvs (with_kv k v n)) \<subseteq> fst ` set (smap_emplace k v es)"
    using sh set_keys_emplace [of k v es] by (auto simp: with_kv_def leaf_shape_def)
  then show ?thesis
    using sh l1 hd_emplace [OF ok ne, of k v] last_emplace [OF ok ne, of k v]
    unfolding leaf_shape_def UpdateStatByAddKV_fields UpdateStatByAddKV_keys [OF l64]
    by (simp add: with_kv_def)
qed

section \<open>Splitting a leaf\<close>

lemma unat_half: "unat (drop_bit 1 (w :: u64)) = unat w div 2"
proof -
  have "take_bit 64 (unat w) = unat w"
    using unsigned_less [of w, where 'a = nat] by (simp add: take_bit_nat_eq_self_iff)
  then show ?thesis unfolding unsigned_drop_bit_eq by (simp add: drop_bit_eq_div)
qed

lemma split_point:
  assumes "length (kvs n) < 2 ^ 64 - 1"
  shows "unat (split_idx n + 1) = (length (kvs n) + 1) div 2"
proof -
  let ?w = "of_nat (length (kvs n) + 1) :: u64"
  have "(length (kvs n) + 1) mod 2 ^ 64 = length (kvs n) + 1" using assms by (intro mod_less) simp
  then have w: "unat ?w = length (kvs n) + 1" by (simp only: unat_of_nat) simp
  have "split_idx n + 1 = drop_bit 1 ?w" by (simp add: split_idx_def add.commute)
  moreover have "unat (drop_bit 1 ?w) = unat ?w div 2" by (rule unat_half)
  ultimately show ?thesis by (simp only: w)
qed

lemma move_kvs_result:
  assumes "smap_ok (m @ es)" "kvs n = m @ es" "kvs r = rr" "smap_ok (rr @ es)" "is_leaf r"
    "dom (write_kvs r) \<subseteq> fst ` set rr"
  shows "\<exists>w w2 z. move_kvs es n r =
      Inr (n\<lparr>write_kvs := w, kvs := m\<rparr>,
           r\<lparr>stat := (stat r)\<lparr>node_size := z\<rparr>, write_kvs := w2, kvs := rr @ es\<rparr>) \<and>
    dom w \<subseteq> dom (write_kvs n) - fst ` set es \<and> dom w2 \<subseteq> fst ` set (rr @ es)"
  using assms
proof (induction es arbitrary: n r rr)
  case Nil
  have "n = n\<lparr>write_kvs := write_kvs n, kvs := m\<rparr>" using Nil by simp
  moreover have "r = r\<lparr>stat := (stat r)\<lparr>node_size := node_size (stat r)\<rparr>, write_kvs := write_kvs r, kvs := rr\<rparr>"
    using Nil by simp
  ultimately show ?case using Nil(6) by (metis Diff_empty append_Nil2 image_empty list.set(1) move_kvs.simps(1) order_refl)
next
  case (Cons e es)
  obtain k v where e: "e = (k, v)" by (cases e)
  let ?r0 = "r\<lparr>stat := (stat r)\<lparr>node_size := node_size (stat r) + (len64 k + len64 v)\<rparr>\<rparr>"
  let ?r1 = "?r0\<lparr>write_kvs := (write_kvs r)(k \<mapsto> v), kvs := rr @ [(k, v)]\<rparr>"
  let ?n1 = "n\<lparr>write_kvs := (write_kvs n)(k := None), kvs := m @ es\<rparr>"
  have kr: "k \<notin> fst ` set rr" using Cons.prems(4) by (auto simp: e sorted_wrt_append)
  have km: "k \<notin> fst ` set m" using Cons.prems(1) by (auto simp: e sorted_wrt_append)
  have "smap_find k rr = None" using kr smap_find_in by blast
  moreover have "write_kvs r k = None" using kr Cons.prems(6) by auto
  moreover have "smap_emplace k v rr = rr @ [(k, v)]"
    using Cons.prems(4) by (intro smap_emplace_last) (auto simp: e sorted_wrt_append)
  ultimately have ins: "BptNode_Insert k v ?r0 = Inr (C_OK, ?r1)"
    using Cons.prems(3,5) by (simp add: BptNode_Insert_def)
  have er: "smap_erase k (kvs n) = m @ es"
    using smap_erase_append1 [OF km, of "(k, v) # es"] Cons.prems(2) by (simp add: e)
  have dr: "dom (write_kvs ?r1) \<subseteq> fst ` set (rr @ [(k, v)])"
    using Cons.prems(6) by (simp add: dom_fun_upd) blast
  have "\<exists>w w2 z. move_kvs es ?n1 ?r1 =
      Inr (?n1\<lparr>write_kvs := w, kvs := m\<rparr>,
           ?r1\<lparr>stat := (stat ?r1)\<lparr>node_size := z\<rparr>, write_kvs := w2, kvs := (rr @ [(k, v)]) @ es\<rparr>) \<and>
      dom w \<subseteq> dom (write_kvs ?n1) - fst ` set es \<and> dom w2 \<subseteq> fst ` set ((rr @ [(k, v)]) @ es)"
    by (rule Cons.IH [OF _ _ _ _ _ dr])
      (use Cons.prems(1,4,5) e in \<open>simp_all add: sorted_wrt_append\<close>)
  then obtain w w2 z where mv: "move_kvs es ?n1 ?r1 =
      Inr (?n1\<lparr>write_kvs := w, kvs := m\<rparr>,
           ?r1\<lparr>stat := (stat ?r1)\<lparr>node_size := z\<rparr>, write_kvs := w2, kvs := (rr @ [(k, v)]) @ es\<rparr>)"
    "dom w \<subseteq> dom (write_kvs ?n1) - fst ` set es" "dom w2 \<subseteq> fst ` set ((rr @ [(k, v)]) @ es)"
    by blast
  have "move_kvs (e # es) n r = Inr (n\<lparr>write_kvs := w, kvs := m\<rparr>,
      r\<lparr>stat := (stat r)\<lparr>node_size := z\<rparr>, write_kvs := w2, kvs := rr @ e # es\<rparr>)"
    using ins er mv(1) by (simp add: e)
  moreover have "dom w \<subseteq> dom (write_kvs n) - fst ` set (e # es)" using mv(2) by (auto simp: e)
  moreover have "dom w2 \<subseteq> fst ` set (rr @ e # es)" using mv(3) by (simp add: e)
  ultimately show ?case by blast
qed

lemma split_leaf_result:
  assumes sh: "leaf_shape p n es" "kvs n = es" and ok: "smap_ok es"
    and len: "3 \<le> length es" "length es < 2 ^ 64 - 1"
    and r: "is_leaf r" "\<not> is_root r" "parent r = Some p" "children r = []" "kvs r = []" "write_kvs r = Map.empty"
  obtains n1 r1 where "split_leaf n r = Inr (n1, r1)"
    "leaf_shape p n1 (take ((length es + 1) div 2) es)" "kvs n1 = take ((length es + 1) div 2) es"
    "leaf_shape p r1 (drop ((length es + 1) div 2) es)" "kvs r1 = drop ((length es + 1) div 2) es"
    "node_id n1 = node_id n" "node_id r1 = node_id r"
proof -
  let ?k = "(length es + 1) div 2"
  have k: "0 < ?k" "?k < length es" using len(1) by auto
  have sp: "unat (split_idx n + 1) = ?k" using split_point [of n] len sh(2) by simp
  have es: "es = take ?k es @ drop ?k es" by simp
  obtain w w2 z where mv: "move_kvs (drop ?k es) n r =
      Inr (n\<lparr>write_kvs := w, kvs := take ?k es\<rparr>,
           r\<lparr>stat := (stat r)\<lparr>node_size := z\<rparr>, write_kvs := w2, kvs := drop ?k es\<rparr>)"
    "dom w \<subseteq> dom (write_kvs n) - fst ` set (drop ?k es)" "dom w2 \<subseteq> fst ` set (drop ?k es)"
    using move_kvs_result [of "take ?k es" "drop ?k es" n r "[]"] sh(2) ok r
      sorted_wrt_drop [of "(<)" "map fst es" ?k]
    by (auto simp: drop_map)
  have ne: "take ?k es \<noteq> []" "drop ?k es \<noteq> []" using k len(1) by auto
  have "dom (write_kvs n) \<subseteq> fst ` set (take ?k es) \<union> fst ` set (drop ?k es)"
    using sh es by (metis image_Un leaf_shape_def set_append)
  then have w: "dom w \<subseteq> fst ` set (take ?k es)" by (intro order_trans [OF mv(2)]) blast
  note d = sp sh(2)
  show ?thesis
    using that [of "n\<lparr>write_kvs := w, kvs := take ?k es,
          stat := (stat n)\<lparr>count := of_nat (length (take ?k es)), min_key := fst (hd (take ?k es)),
            max_key := fst (last (take ?k es)), node_size := node_size (stat n) - z\<rparr>\<rparr>"
        "r\<lparr>write_kvs := w2, kvs := drop ?k es,
          stat := (stat r)\<lparr>node_size := z, min_key := fst (hd (drop ?k es)),
            max_key := fst (last (drop ?k es))\<rparr>\<rparr>"]
      mv(1) mv(3) ne w k sh r
    by (simp add: split_leaf_def d leaf_shape_def Let_def)
qed

section \<open>The root\<close>

lemma root_never_splits:
  assumes "root_shape sc rn"
  shows "\<not> NeedSplit rn"
proof -
  let ?a = "length (min_key (stat rn))" and ?b = "length (max_key (stat rn))"
  have "?a + ?b \<le> 16384" using assms by (simp add: root_shape_def max_key_len_def)
  then have "unat (of_nat (?a + ?b) :: u64) \<le> 16384" by (simp add: unat_of_nat del: of_nat_add)
  moreover have "node_size (stat rn) = of_nat (?a + ?b)"
    using assms by (simp add: root_shape_def len64_def)
  ultimately show ?thesis by (simp add: NeedSplit_def bptree_max_node_size_def not_less word_le_nat_alt)
qed

lemma range_stat_shape:
  assumes "root_shape sc rn" "length (min_key (stat a)) \<le> max_key_len" "length (max_key (stat b)) \<le> max_key_len"
  shows "root_shape sc (rn\<lparr>stat := range_stat is_add a b (stat rn)\<rparr>)"
  using assms by (simp add: root_shape_def range_stat_def Let_def)

lemma UpdateStatByRangeChange_root:
  assumes "heap t p = Some rn" "root_shape sc rn" "children rn \<noteq> []"
    "heap t (hd (children rn)) = Some a" "heap t (last (children rn)) = Some b"
    "length (min_key (stat a)) \<le> max_key_len" "length (max_key (stat b)) \<le> max_key_len"
  obtains rn' where "UpdateStatByRangeChange is_add p t = Inr (put p rn' t)" "root_shape sc rn'"
    "children rn' = children rn"
  using that [of "rn\<lparr>stat := range_stat is_add a b (stat rn)\<rparr>"] assms
    range_stat_shape [OF assms(2,6,7), of is_add]
  by (simp add: UpdateStatByRangeChange_def)

text \<open>Registering a node for the next save.\<close>

definition reg :: "u64 \<Rightarrow> ptr \<Rightarrow> 's tree \<Rightarrow> 's tree" where
  "reg i p t = t\<lparr>unsaved := umap_put i p (unsaved t)\<rparr>"

lemma reg_simps [simp]:
  "heap (reg i p t) = heap t" "next_ptr (reg i p t) = next_ptr t" "ctx_id (reg i p t) = ctx_id t"
  "schema (reg i p t) = schema t" "storage (reg i p t) = storage t" "root (reg i p t) = root t"
  "unsaved (reg i p t) = umap_put i p (unsaved t)"
  by (simp_all add: reg_def)

lemma CollectUnsaved_reg: "heap t p = Some n \<Longrightarrow> CollectUnsavedTreeNode p t = Inr (reg (node_id n) p t)"
  by (simp add: CollectUnsavedTreeNode_def reg_def)

lemma set_umap_put:
  "distinct (map fst m) \<Longrightarrow> set (umap_put k v m) = insert (k, v) {x \<in> set m. fst x \<noteq> k}"
  by (induction k v m rule: umap_put.induct) (auto simp: image_iff)

lemma fst_umap_put: "set (map fst (umap_put k v m)) = insert k (set (map fst m))"
  by (induction k v m rule: umap_put.induct) auto

lemma distinct_umap_put: "distinct (map fst m) \<Longrightarrow> distinct (map fst (umap_put k v m))"
proof (induction k v m rule: umap_put.induct)
  case (2 k v k' v' m)
  then show ?case using fst_umap_put [of k v m] by auto
qed simp

text \<open>The last rounds of an insertion and of a deletion: the root alone is left on the stack.\<close>

lemma insert_ascend_root:
  assumes "heap t r = Some rn" "root_shape sc rn" "children rn \<noteq> []"
    "heap t (hd (children rn)) = Some a" "heap t (last (children rn)) = Some b"
    "length (min_key (stat a)) \<le> max_key_len" "length (max_key (stat b)) \<le> max_key_len"
  obtains rn' where "insert_ascend key value [r] t = Inr (C_OK, reg (ts_root_id sc) r (put r rn' t))"
    "root_shape sc rn'" "children rn' = children rn"
proof -
  obtain rn' where rn': "UpdateStatByRangeChange True r t = Inr (put r rn' t)" "root_shape sc rn'"
    "children rn' = children rn" using UpdateStatByRangeChange_root [OF assms] .
  moreover have "node_id rn' = ts_root_id sc" using rn'(2) by (simp add: root_shape_def)
  moreover have "\<not> is_leaf rn" using assms(2) by (simp add: root_shape_def)
  moreover have h: "heap (put r rn' t) r = Some rn'" by simp
  ultimately show ?thesis
    using that root_never_splits [OF rn'(2)] assms(1) CollectUnsaved_reg [OF h]
    by (simp add: insert_ascend.simps)
qed

end
