(* ===== verification/BptInsertRefine.thy ===== *)
theory BptInsertRefine
  imports BptInsert
begin

text \<open>
  The two outcomes of an insertion into a leaf (with and without a split), the insertion into an
  empty tree, and the theorem over all of them.
\<close>

section \<open>Ends of the list of leaves\<close>

lemma leaf_ok_key_len:
  assumes "leaf_ok pb m t p es" "kvs_ok es" "heap t p = Some n"
  shows "length (min_key (stat n)) \<le> max_key_len" "length (max_key (stat n)) \<le> max_key_len"
proof -
  have n: "leaf_shape (root t) n es" using assms(1,3) by (auto simp: leaf_ok_def)
  then have "hd es \<in> set es" "last es \<in> set es" by (simp_all add: leaf_shape_def)
  with n assms(2) show "length (min_key (stat n)) \<le> max_key_len" "length (max_key (stat n)) \<le> max_key_len"
    by (auto simp: leaf_shape_def kvs_ok_def case_prod_beta)
qed

text \<open>The first and the last child have keys of bounded length, and exist.\<close>

lemma ends_ok:
  assumes l: "list_all2 (leaf_ok pb m t) ps ls" and ok: "kvs_ok (concat ls)" and ne: "ps \<noteq> []"
  obtains a b where "heap t (hd ps) = Some a" "heap t (last ps) = Some b"
    "length (min_key (stat a)) \<le> max_key_len" "length (max_key (stat b)) \<le> max_key_len"
proof -
  have len: "length ps = length ls" using l by (rule list_all2_lengthD)
  have *: "\<exists>n. heap t (ps ! i) = Some n \<and> length (min_key (stat n)) \<le> max_key_len \<and>
      length (max_key (stat n)) \<le> max_key_len" if "i < length ps" for i
  proof -
    have lf: "leaf_ok pb m t (ps ! i) (ls ! i)" using l that by (rule list_all2_nthD)
    have "kvs_ok (ls ! i)" using kvs_ok_concat [OF ok] that len by simp
    with lf leaf_ok_key_len [OF lf] show ?thesis by (auto simp: leaf_ok_def)
  qed
  from *[of 0] *[of "length ps - 1"] ne that show ?thesis
    by (auto simp: hd_conv_nth last_conv_nth)
qed

section \<open>The state before the root is updated\<close>

text \<open>\<open>spliced\<close> collects what an operation has done when only the root is left to update: the
  run \<open>B\<close> of children with the contents \<open>LB\<close> is now the run \<open>Q\<close> with the contents \<open>LQ\<close>.\<close>

definition spliced :: "proto_ops \<Rightarrow> ('s \<Rightarrow> bytes \<rightharpoonup> bytes) \<Rightarrow> 's tree \<Rightarrow> ptr list \<Rightarrow> ptr list \<Rightarrow> ptr list \<Rightarrow>
    ptr list \<Rightarrow> kvs list \<Rightarrow> 's tree \<Rightarrow> bool" where
  "spliced pb contents t A B C Q LQ t2 \<longleftrightarrow>
     root t2 = root t \<and> schema t2 = schema t \<and> storage t2 = storage t \<and> ctx_id t \<le> ctx_id t2 \<and>
     (\<forall>p \<in> set A \<union> set C. heap t2 p = heap t p) \<and>
     (\<exists>rn. heap t2 (root t) = Some rn \<and> children rn = A @ Q @ C \<and> root_shape (schema t) rn) \<and>
     list_all2 (leaf_ok pb (contents (storage t)) t2) Q LQ \<and> distinct (map (id_of t2) Q) \<and>
     (\<forall>q \<in> set Q. id_of t2 q \<in> id_of t ` set B \<or> ctx_id t < id_of t2 q \<and> id_of t2 q \<le> ctx_id t2) \<and>
     (\<forall>p. heap t2 p \<noteq> None \<longrightarrow> p < next_ptr t2) \<and>
     distinct (map fst (unsaved t2)) \<and>
     (\<forall>x \<in> set (unsaved t). fst x \<notin> id_of t ` set B \<longrightarrow> x \<in> set (unsaved t2)) \<and>
     (\<forall>x \<in> set (unsaved t2). x \<in> set (unsaved t) \<and> fst x \<notin> id_of t ` set B \<or>
        snd x \<in> set Q \<and> fst x = id_of t2 (snd x))"

lemma root_entry:
  assumes "unsaved_ok t ps" "ids_ok m t ps" "x \<in> set (unsaved t)" "fst x = ts_root_id (schema t)"
  shows "x = (ts_root_id (schema t), root t)"
proof -
  from assms(1,3) have "snd x \<in> set (root t # ps)" "fst x = id_of t (snd x)"
    by (auto simp: unsaved_ok_def)
  with assms(2,4) show ?thesis by (cases x) (auto simp: ids_ok_def)
qed

lemma id_of_root:
  "heap t (root t) = Some rn \<Longrightarrow> root_shape (schema t) rn \<Longrightarrow> id_of t (root t) = ts_root_id (schema t)"
  by (simp add: id_of_def root_shape_def)

lemma root_not_child:
  assumes "heap t (root t) = Some rn" "root_shape (schema t) rn" "ids_ok m t ps"
  shows "root t \<notin> set ps"
proof
  assume "root t \<in> set ps"
  then have "id_of t (root t) \<in> id_of t ` set ps" by (rule imageI)
  with assms(3) id_of_root [OF assms(1,2)] show False by (simp add: ids_ok_def)
qed

lemma children_distinct: "ids_ok m t ps \<Longrightarrow> distinct ps"
  by (auto simp: ids_ok_def distinct_map)

text \<open>The root is written back and registered.\<close>

lemma spliced_root:
  assumes inv: "tree_inv pb contents t (LA @ LB @ LC)"
    and rn: "heap t (root t) = Some rn" "children rn = A @ B @ C"
    and len: "length A = length LA" "length B = length LB"
    and sp: "spliced pb contents t A B C Q LQ t2"
    and rn': "children rn' = A @ Q @ C" "root_shape (schema t) rn'"
    and ok: "kvs_ok (concat (LA @ LQ @ LC))"
  shows "tree_inv pb contents (reg (ts_root_id (schema t)) (root t) (put (root t) rn' t2)) (LA @ LQ @ LC)"
proof -
  let ?m = "contents (storage t)" and ?t' = "reg (ts_root_id (schema t)) (root t) (put (root t) rn' t2)"
  from inv rn obtain h: "root_shape (schema t) rn" "ids_ok ?m t (A @ B @ C)" "unsaved_ok t (A @ B @ C)"
    by (elim tree_invE) auto
  obtain rn2 where rn2: "heap t2 (root t) = Some rn2" "root_shape (schema t) rn2"
    using sp by (auto simp: spliced_def)
  have notA: "root t \<notin> set (A @ B @ C)" by (rule root_not_child [OF rn(1) h(1,2)])
  have rid: "node_id rn' = ts_root_id (schema t)" "node_id rn2 = ts_root_id (schema t)"
    using rn'(2) rn2(2) by (simp_all add: root_shape_def)
  have h': "heap ?t' = (heap t2)(root t \<mapsto> rn')" by simp
  have id': "id_of ?t' = id_of t2" using rid rn2(1) by (auto simp: id_of_def fun_eq_iff)
  have Qleaf: "\<exists>nq. heap t2 q = Some nq \<and> is_leaf nq" if "q \<in> set Q" for q
    using sp that unfolding spliced_def
    by (auto simp: list_all2_conv_all_nth in_set_conv_nth leaf_ok_def leaf_shape_def)
  have notQ: "root t \<notin> set Q" using Qleaf rn2 by (force simp: root_shape_def)
  have Qid: "id_of t2 q \<noteq> ts_root_id (schema t)" if "q \<in> set Q" for q
  proof
    assume e: "id_of t2 q = ts_root_id (schema t)"
    from sp that have "id_of t2 q \<in> id_of t ` set B \<or> ctx_id t < id_of t2 q" by (auto simp: spliced_def)
    with e h(2) show False by (auto simp: ids_ok_def)
  qed
  have du2: "distinct (map fst (unsaved t2))" using sp by (simp add: spliced_def)
  have s': "set (umap_put (ts_root_id (schema t)) (root t) (unsaved t2)) = insert (ts_root_id (schema t), root t)
      {x \<in> set (unsaved t2). fst x \<noteq> ts_root_id (schema t)}"
    by (rule set_umap_put [OF du2])
  show ?thesis
  proof (rule tree_inv_splice [OF inv rn len])
    show "list_all2 (leaf_ok pb ?m ?t') Q LQ"
    proof (rule list.rel_mono_strong)
      show "list_all2 (leaf_ok pb ?m t2) Q LQ" using sp by (simp add: spliced_def)
      fix q es assume q: "q \<in> set Q" and l: "leaf_ok pb ?m t2 q es"
      from l obtain nq where nq: "heap t2 q = Some nq" "leaf_shape (root t2) nq es"
        "leaf_saved pb ?m (schema t2) (unsaved t2) q nq es" by (rule leaf_okE)
      have "node_id nq \<noteq> ts_root_id (schema t)" using Qid [OF q] nq(1) by (simp add: id_of_def)
      with nq q notQ s' show "leaf_ok pb ?m ?t' q es" by (auto simp: leaf_ok_def leaf_saved_def)
    qed
    show "x \<in> set (unsaved ?t')" if "x \<in> set (unsaved t)" "fst x \<notin> id_of t ` set B" for x
      using that sp root_entry [OF h(3,2) that(1)] by (auto simp: s' spliced_def)
    show "x \<in> set (unsaved t) \<and> fst x \<notin> id_of t ` set B \<or>
        snd x \<in> set (root t # Q) \<and> fst x = id_of ?t' (snd x)" if "x \<in> set (unsaved ?t')" for x
    proof -
      from that have "x = (ts_root_id (schema t), root t) \<or> x \<in> set (unsaved t2)" by (simp add: s') blast
      then show ?thesis
      proof
        assume "x = (ts_root_id (schema t), root t)"
        then show ?thesis using rid by (simp add: id_of_def)
      next
        assume "x \<in> set (unsaved t2)"
        then show ?thesis using sp by (auto simp: spliced_def id')
      qed
    qed
    show "distinct (map fst (unsaved ?t'))" by (simp add: distinct_umap_put [OF du2])
    show "q < next_ptr ?t'" if "heap ?t' q \<noteq> None" for q
      using that sp rn2(1) by (auto simp: spliced_def split: if_splits)
    show "id_of ?t' q \<in> id_of t ` set B \<or> ctx_id t < id_of ?t' q \<and> id_of ?t' q \<le> ctx_id ?t'"
      if "q \<in> set Q" for q using that sp by (simp add: id' spliced_def)
    show "distinct (map (id_of ?t') Q)" using sp by (simp add: id' spliced_def)
    show "heap ?t' p = heap t p" if "p \<in> set A \<union> set C" for p
      using that sp notA by (auto simp: spliced_def)
  qed (use sp rn' ok s' in \<open>auto simp: spliced_def\<close>)
qed

text \<open>The ends of the children are readable in that state.\<close>

lemma spliced_ends:
  assumes inv: "tree_inv pb contents t (LA @ LB @ LC)"
    and rn: "heap t (root t) = Some rn" "children rn = A @ B @ C"
    and len: "length A = length LA" "length B = length LB"
    and sp: "spliced pb contents t A B C Q LQ t2"
    and ok: "kvs_ok (concat (LA @ LQ @ LC))" and ne: "A @ Q @ C \<noteq> []"
  obtains a b where "heap t2 (hd (A @ Q @ C)) = Some a" "heap t2 (last (A @ Q @ C)) = Some b"
    "length (min_key (stat a)) \<le> max_key_len" "length (max_key (stat b)) \<le> max_key_len"
proof -
  let ?m = "contents (storage t)"
  obtain rn2 where rn2: "heap t2 (root t) = Some rn2" "children rn2 = A @ Q @ C" "root_shape (schema t) rn2"
    using sp by (auto simp: spliced_def)
  let ?t' = "reg (ts_root_id (schema t)) (root t) (put (root t) rn2 t2)"
  have inv': "tree_inv pb contents ?t' (LA @ LQ @ LC)"
    by (rule spliced_root [OF inv rn len sp rn2(2,3) ok])
  have h': "heap ?t' = heap t2" using rn2(1) by (auto simp: fun_eq_iff)
  have rr: "root ?t' = root t" using sp by (simp add: spliced_def)
  from inv' have "list_all2 (leaf_ok pb (contents (storage ?t')) ?t') (A @ Q @ C) (LA @ LQ @ LC)"
    by (elim tree_invE) (use rn2 rr in \<open>simp add: h'\<close>)
  from ends_ok [OF this ok ne] show ?thesis unfolding h' using that by blast
qed

section \<open>The four replacements\<close>

text \<open>What the invariant says of the child \<open>p\<close> of the root.\<close>

lemma childE:
  assumes inv: "tree_inv pb contents t (LA @ es # LC)"
    and rn: "heap t (root t) = Some rn" "children rn = A @ p # C" "length A = length LA"
  obtains n where "heap t p = Some n" "leaf_shape (root t) n es"
    "leaf_saved pb (contents (storage t)) (schema t) (unsaved t) p n es"
    "root_shape (schema t) rn" "ids_ok (contents (storage t)) t (A @ p # C)" "unsaved_ok t (A @ p # C)"
    "kvs_ok es" "p \<noteq> root t" "p \<notin> set A \<union> set C" "root t \<notin> set A \<union> set C" "p < next_ptr t"
    "root t < next_ptr t" "list_all2 (leaf_ok pb (contents (storage t)) t) (A @ p # C) (LA @ es # LC)"
proof -
  let ?m = "contents (storage t)"
  from inv rn(1) obtain h: "root_shape (schema t) rn"
    "list_all2 (leaf_ok pb ?m t) (A @ p # C) (LA @ es # LC)"
    "ids_ok ?m t (A @ p # C)" "unsaved_ok t (A @ p # C)" "kvs_ok (concat (LA @ es # LC))"
    by (elim tree_invE) (use rn in auto)
  have "leaf_ok pb ?m t p es" using h(2) rn(3) by (auto simp: list_all2_append)
  then obtain n where n: "heap t p = Some n" "leaf_shape (root t) n es"
    "leaf_saved pb ?m (schema t) (unsaved t) p n es" by (rule leaf_okE)
  have "kvs_ok es" using h(5) by (rule kvs_ok_concat) simp
  moreover have "p < next_ptr t" "root t < next_ptr t" using h(3) n(1) rn(1) by (auto simp: ids_ok_def)
  ultimately show ?thesis
    using that n h(1,2,3,4) root_not_child [OF rn(1) h(1,3)] children_distinct [OF h(3)] by auto
qed

lemma spliced_update:
  assumes inv: "tree_inv pb contents t (LA @ es # LC)"
    and rn: "heap t (root t) = Some rn" "children rn = A @ p # C" "length A = length LA"
    and n: "heap t p = Some n"
    and n1: "leaf_shape (root t) n1 es1" "kvs n1 = es1" "node_id n1 = node_id n"
  shows "spliced pb contents t A [p] C [p] [es1] (reg (node_id n) p (put p n1 t))"
proof -
  from childE [OF inv rn] n obtain h: "root_shape (schema t) rn"
    "ids_ok (contents (storage t)) t (A @ p # C)" "unsaved_ok t (A @ p # C)"
    "p \<noteq> root t" "p \<notin> set A \<union> set C" "root t \<notin> set A \<union> set C" by (metis option.inject)
  have du: "distinct (map fst (unsaved t))" using h(3) by (simp add: unsaved_ok_def)
  note su = set_umap_put [OF du, of "node_id n" p]
  have idp: "id_of t p = node_id n" using n by (simp add: id_of_def)
  have "list_all2 (leaf_ok pb (contents (storage t)) (reg (node_id n) p (put p n1 t))) [p] [es1]"
    using n1 by (simp add: leaf_ok_def leaf_saved_def su)
  then show ?thesis
    using rn h n n1(3) unfolding spliced_def
    by (auto simp: su distinct_umap_put [OF du] idp ids_ok_def) (auto simp: id_of_def)
qed

lemma spliced_remove:
  assumes inv: "tree_inv pb contents t (LA @ es # LC)"
    and rn: "heap t (root t) = Some rn" "children rn = A @ p # C" "length A = length LA"
    and n: "heap t p = Some n"
    and t2: "heap t2 = (heap t)(p \<mapsto> n1, root t \<mapsto> rn\<lparr>children := A @ C\<rparr>)"
      "unsaved t2 = filter (\<lambda>(k, _). k \<noteq> node_id n) (unsaved t)"
      "root t2 = root t" "schema t2 = schema t" "storage t2 = storage t" "ctx_id t2 = ctx_id t"
      "next_ptr t2 = next_ptr t"
  shows "spliced pb contents t A [p] C [] [] t2"
proof -
  from childE [OF inv rn] n obtain h: "root_shape (schema t) rn"
    "ids_ok (contents (storage t)) t (A @ p # C)" "unsaved_ok t (A @ p # C)"
    "p \<noteq> root t" "p \<notin> set A \<union> set C" "root t \<notin> set A \<union> set C" by (metis option.inject)
  have du: "distinct (map fst (unsaved t))" using h(3) by (simp add: unsaved_ok_def)
  have idp: "id_of t p = node_id n" using n by (simp add: id_of_def)
  have "distinct (map fst (unsaved t2))" unfolding t2(2)
    using du by (auto simp: distinct_map inj_on_def)
  then show ?thesis
    using rn h n t2 unfolding spliced_def
    by (auto simp: idp ids_ok_def root_shape_def)
qed

lemma next_id: "unat (i :: u64) < 2 ^ 64 - 1 \<Longrightarrow> i < i + 1"
proof -
  assume "unat i < 2 ^ 64 - 1"
  then have "unat (i + 1) = unat i + 1" by (simp add: unat_word_ariths)
  then show ?thesis by (simp add: word_less_nat_alt)
qed

lemma spliced_split:
  assumes inv: "tree_inv pb contents t (LA @ es # LC)"
    and rn: "heap t (root t) = Some rn" "children rn = A @ p # C" "length A = length LA"
    and n: "heap t p = Some n"
    and n1: "leaf_shape (root t) n1 es1" "kvs n1 = es1" "node_id n1 = node_id n"
    and r1: "leaf_shape (root t) r1 es2" "kvs r1 = es2" "node_id r1 = ctx_id t + 1"
    and t2: "heap t2 = (heap t)(p \<mapsto> n1, next_ptr t \<mapsto> r1, root t \<mapsto> rn\<lparr>children := A @ p # next_ptr t # C\<rparr>)"
      "unsaved t2 = umap_put (node_id n) p (umap_put (ctx_id t + 1) (next_ptr t) (unsaved t))"
      "root t2 = root t" "schema t2 = schema t" "storage t2 = storage t" "ctx_id t2 = ctx_id t + 1"
      "next_ptr t2 = next_ptr t + 1"
    and ctx: "unat (ctx_id t) < 2 ^ 64 - 1"
  shows "spliced pb contents t A [p] C [p, next_ptr t] [es1, es2] t2"
proof -
  let ?q = "next_ptr t" and ?m = "contents (storage t)"
  from childE [OF inv rn] n obtain h: "root_shape (schema t) rn"
    "ids_ok ?m t (A @ p # C)" "unsaved_ok t (A @ p # C)"
    "p \<noteq> root t" "p \<notin> set A \<union> set C" "root t \<notin> set A \<union> set C" "p < next_ptr t" "root t < next_ptr t"
    "list_all2 (leaf_ok pb ?m t) (A @ p # C) (LA @ es # LC)"
    by (metis option.inject)
  have lt: "ctx_id t < ctx_id t + 1"
    by (rule next_id [OF ctx])
  have idp: "id_of t p = node_id n" using n by (simp add: id_of_def)
  have idle: "id_of t x \<le> ctx_id t" if "x \<in> set (root t # A @ p # C)" for x
    using h(2) that id_of_root [OF rn(1) h(1)] by (auto simp: ids_ok_def)
  have ne: "node_id n \<noteq> ctx_id t + 1" using idle [of p] idp lt by auto
  have du: "distinct (map fst (unsaved t))" using h(3) by (simp add: unsaved_ok_def)
  note du2 = distinct_umap_put [OF du, of "ctx_id t + 1" ?q]
  have s: "set (unsaved t2) = insert (node_id n, p) (insert (ctx_id t + 1, ?q)
      {x \<in> set (unsaved t). fst x \<noteq> node_id n})"
  proof -
    have "fst x \<noteq> ctx_id t + 1" if "x \<in> set (unsaved t)" for x
    proof -
      from that h(3) have "snd x \<in> set (root t # A @ p # C)" "fst x = id_of t (snd x)"
        by (auto simp: unsaved_ok_def)
      with idle lt show ?thesis by (metis leD)
    qed
    then show ?thesis
      unfolding t2(2) set_umap_put [OF du2] set_umap_put [OF du] using ne by auto
  qed
  have q: "?q \<noteq> p" "?q \<noteq> root t" using h(7,8) by auto
  have notq: "x \<noteq> ?q" if "x \<in> set A \<union> set C" for x
  proof -
    from that h(9) obtain es' where "leaf_ok pb ?m t x es'"
      by (auto simp: list_all2_conv_all_nth in_set_conv_nth Un_iff dest: list_all2_lengthD)
        (metis h(9) list_all2_nthD2 in_set_conv_nth list_all2_conv_all_nth list.set_intros(1)
          Un_iff set_append insert_iff list.simps(15))+
    then obtain nx where "heap t x = Some nx" by (rule leaf_okE)
    with h(2) show ?thesis by (auto simp: ids_ok_def)
  qed
  have heap2: "heap t2 p = Some n1" "heap t2 ?q = Some r1" using q h(4) by (auto simp: t2(1))
  have "list_all2 (leaf_ok pb ?m t2) [p, ?q] [es1, es2]"
  proof -
    have "(node_id n, p) \<in> set (unsaved t2)" "(ctx_id t + 1, ?q) \<in> set (unsaved t2)"
      unfolding s by simp_all
    then show ?thesis
      using n1 r1 by (simp add: leaf_ok_def heap2 leaf_saved_def t2(3))
  qed
  moreover have "distinct (map fst (unsaved t2))" unfolding t2(2) by (rule distinct_umap_put [OF du2])
  moreover have "id_of t2 p = node_id n" "id_of t2 ?q = ctx_id t + 1"
    using n1(3) r1(3) by (simp_all add: id_of_def heap2)
  ultimately show ?thesis
    using rn h n t2(1,3-7) lt ne notq q unfolding spliced_def
    by (auto simp: s idp ids_ok_def root_shape_def less_Suc_eq)
qed

section \<open>Insertion into a leaf\<close>

lemma tree_safe_same_storage:
  assumes "tree_safe pb contents t (LA @ es # LC)" "tree_inv pb contents t' (LA @ es1 # LC)"
    and rn: "heap t (root t) = Some rn" "heap t' (root t') = Some rn'" "children rn' = children rn"
      "children rn = A @ p # C" "length A = length LA"
    and same: "storage t' = storage t" "schema t' = schema t" "id_of t' = id_of t"
    and keys: "fst ` set es \<subseteq> fst ` set es1"
  shows "tree_safe pb contents t' (LA @ es1 # LC)"
proof -
  have "list_all2 (reload_safe pb (contents (storage t)) t) (A @ p # C) (LA @ es # LC)"
    using assms(1) rn by (auto simp: tree_safe_def)
  moreover have "reload_safe pb (contents (storage t)) t' = reload_safe pb (contents (storage t)) t"
    by (simp add: fun_eq_iff reload_safe_def same)
  moreover have "reload_safe pb m t p es \<Longrightarrow> reload_safe pb m t p es1" for m
    unfolding reload_safe_def using keys by (meson order_trans)
  ultimately have "list_all2 (reload_safe pb (contents (storage t)) t') (A @ p # C) (LA @ es1 # LC)"
    using rn(5) by (auto simp: list_all2_append)
  with assms(2) rn same show ?thesis by (simp add: tree_safe_def)
qed

lemma insert_nosplit:
  assumes inv: "tree_inv pb contents t (LA @ es # LC)"
    and rn: "heap t (root t) = Some rn" "children rn = A @ p # C" "length A = length LA"
    and n: "heap t p = Some n" "kvs n = es"
    and key: "below LA k" "above k LC" "k \<notin> fst ` set es" "length k \<le> max_key_len" "length v < 2 ^ 32"
    and len: "length es < 2 ^ 64 - 1"
    and nsp: "\<not> NeedSplit (UpdateStatByAddKV k v (with_kv k v n))"
  obtains t' rn' where "insert_ascend k v [p, root t] (put p (with_kv k v n) t) = Inr (C_OK, t')"
    "tree_inv pb contents t' (LA @ smap_emplace k v es # LC)"
    "storage t' = storage t" "schema t' = schema t" "ctx_id t' = ctx_id t" "id_of t' = id_of t"
    "heap t' (root t') = Some rn'" "children rn' = children rn"
    "heap t' p = Some (UpdateStatByAddKV k v (with_kv k v n))" "root_shape (schema t) rn'"
    "\<And>x. x \<noteq> p \<Longrightarrow> x \<noteq> root t' \<Longrightarrow> heap t' x = heap t x"
proof -
  let ?es = "smap_emplace k v es" and ?n3 = "UpdateStatByAddKV k v (with_kv k v n)"
  from childE [OF inv rn] n obtain h: "leaf_shape (root t) n es" "root_shape (schema t) rn"
    "kvs_ok es" "p \<noteq> root t" by (metis option.inject)
  have sh3: "leaf_shape (root t) ?n3 ?es"
    by (rule add_kv_shape [OF h(1) n(2) kvs_ok_smap [OF h(3)] key(3) len])
  have n3: "kvs ?n3 = ?es" "node_id ?n3 = node_id n" using n(2) by (simp_all add: with_kv_def)
  let ?t2 = "reg (node_id n) p (put p ?n3 t)"
  have sp: "spliced pb contents t A [p] C [p] [?es] ?t2"
    by (rule spliced_update [OF inv rn n(1) sh3 n3])
  have ok: "kvs_ok (concat (LA @ [?es] @ LC))"
    using kvs_ok_emplace [OF tree_inv_concat [OF inv] key(4,5)] concat_emplace [OF key(1,2), of v es]
    by simp
  have inv': "tree_inv pb contents t (LA @ [es] @ LC)" and rn2: "children rn = A @ [p] @ C"
    using inv rn(2) by simp_all
  obtain a b where ab: "heap ?t2 (hd (A @ [p] @ C)) = Some a" "heap ?t2 (last (A @ [p] @ C)) = Some b"
    "length (min_key (stat a)) \<le> max_key_len" "length (max_key (stat b)) \<le> max_key_len"
    by (rule spliced_ends [OF inv' rn(1) rn2 rn(3) _ sp ok]) simp_all
  have rt: "heap ?t2 (root t) = Some rn" "children rn \<noteq> []" using rn h(4) by simp_all
  obtain rn' where rn': "insert_ascend k v [root t] ?t2 =
      Inr (C_OK, reg (ts_root_id (schema t)) (root t) (put (root t) rn' ?t2))"
    "root_shape (schema t) rn'" "children rn' = children rn"
    using insert_ascend_root [OF rt(1) h(2) rt(2) ab [folded rn2], of k v] .
  let ?t' = "reg (ts_root_id (schema t)) (root t) (put (root t) rn' ?t2)"
  have "tree_inv pb contents ?t' (LA @ [?es] @ LC)"
    by (rule spliced_root [OF inv' rn(1) rn2 rn(3) _ sp _ rn'(2) ok]) (use rn' rn2 in simp_all)
  moreover have "insert_ascend k v [p, root t] (put p (with_kv k v n) t) = Inr (C_OK, ?t')"
  proof -
    have "is_leaf (with_kv k v n)" using h(1) by (simp add: leaf_shape_def with_kv_def)
    moreover have "put p ?n3 (put p (with_kv k v n) t) = put p ?n3 t" by (simp add: put_def)
    ultimately show ?thesis
      using nsp rn'(1) CollectUnsaved_reg [of "put p ?n3 t" p ?n3]
      by (subst insert_ascend.simps) (simp add: n3)
  qed
  moreover have "id_of ?t' = id_of t"
    using rn(1) n(1) n3(2) h(2) rn'(2) by (auto simp: id_of_def fun_eq_iff root_shape_def)
  ultimately show ?thesis using that [of ?t' rn'] rn'(2,3) h(4) by simp
qed

section \<open>Insertion with a split\<close>

lemma pos_gt_split:
  assumes ok: "smap_ok (concat (LA @ (es1 @ es2) # LC))" and ne: "es1 \<noteq> []" "es2 \<noteq> []"
    "[] \<notin> set LA" "[] \<notin> set LC"
  shows "pos_gt (fst (last es2)) (LA @ es1 # LC) = length LA + 1"
proof -
  have s: "sorted_wrt (<) (map (\<lambda>es. fst (last es)) (LA @ [es1, es2] @ LC))"
    by (rule maxes_sorted) (use assms in auto)
  then have 1: "\<forall>es \<in> set (LA @ [es1]). fst (last es) \<le> fst (last es2)"
    and 2: "\<forall>es \<in> set LC. \<not> fst (last es) \<le> fst (last es2)"
    by (auto simp: sorted_wrt_append not_le)
  have "takeWhile (\<lambda>es. fst (last es) \<le> fst (last es2)) ((LA @ [es1]) @ LC) = LA @ [es1]"
    using 1 2 by (subst takeWhile_append2) (auto simp: takeWhile_eq_Nil_iff)
  then show ?thesis by (simp add: pos_gt_def)
qed

lemma smap_drop_middle: "smap_ok (a @ b @ c) \<Longrightarrow> smap_ok (a @ c)"
  by (auto simp: sorted_wrt_append)

lemma AddChild_next:
  assumes rn: "heap t r = Some rn" "children rn = A @ p # C" "length A = length LA"
    and q: "heap t q = Some nq" "max_key (stat nq) = fst (last es2)"
    and st: "stats_of t rn (LA @ es1 # LC)"
    and ok: "smap_ok (concat (LA @ (es1 @ es2) # LC))" "es2 \<noteq> []"
  shows "AddChild r q t = Inr (put r (rn\<lparr>children := A @ p # q # C\<rparr>) t)"
proof -
  obtain ss where "[] \<notin> set (LA @ es1 # LC)" using child_stats_eq [OF st] by metis
  then have "pos_gt (fst (last es2)) (LA @ es1 # LC) = length A + 1"
    using pos_gt_split [OF ok(1)] ok(2) rn(3) by auto
  moreover have "smap_ok (concat (LA @ es1 # LC))"
    using smap_drop_middle [of "concat LA @ es1" es2 "concat LC"] ok(1) by simp
  ultimately have "MaxKeyUpperBound (fst (last es2)) rn t = Inr (length A + 1)"
    using MaxKeyUpperBound_pos [OF st] by simp
  then show ?thesis using rn q by (simp add: AddChild_def insert_at_def)
qed

lemma insert_split:
  assumes inv: "tree_inv pb contents t (LA @ es # LC)"
    and rn: "heap t (root t) = Some rn" "children rn = A @ p # C" "length A = length LA"
    and n: "heap t p = Some n" "kvs n = es"
    and key: "below LA k" "above k LC" "k \<notin> fst ` set es" "length k \<le> max_key_len" "length v < 2 ^ 32"
    and len: "length es < 2 ^ 64 - 2" and ctx: "unat (ctx_id t) < 2 ^ 64 - 1"
    and spl: "NeedSplit (UpdateStatByAddKV k v (with_kv k v n))"
  obtains t' ls' where "insert_ascend k v [p, root t] (put p (with_kv k v n) t) = Inr (C_OK, t')"
    "tree_inv pb contents t' ls'" "concat ls' = concat (LA @ smap_emplace k v es # LC)"
    "storage t' = storage t" "schema t' = schema t" "ctx_id t' = ctx_id t + 1"
proof -
  let ?es = "smap_emplace k v es" and ?n3 = "UpdateStatByAddKV k v (with_kv k v n)" and ?q = "next_ptr t"
  let ?k = "(length ?es + 1) div 2"
  let ?es1 = "take ?k ?es" and ?es2 = "drop ?k ?es"
  from childE [OF inv rn] n obtain h: "leaf_shape (root t) n es" "root_shape (schema t) rn"
    "kvs_ok es" "p \<noteq> root t" "p < ?q" "root t < ?q"
    "list_all2 (leaf_ok pb (contents (storage t)) t) (A @ p # C) (LA @ es # LC)"
    "p \<notin> set A \<union> set C" "root t \<notin> set A \<union> set C" "ids_ok (contents (storage t)) t (A @ p # C)"
    by (metis option.inject)
  have okes: "smap_ok ?es" by (rule smap_ok_emplace [OF kvs_ok_smap [OF h(3)]])
  have sh3: "leaf_shape (root t) ?n3 ?es"
    by (rule add_kv_shape [OF h(1) n(2) kvs_ok_smap [OF h(3)] key(3)]) (use len in simp)
  have n3: "kvs ?n3 = ?es" "node_id ?n3 = node_id n" using n(2) by (simp_all add: with_kv_def)
  have len3: "3 \<le> length ?es" "length ?es < 2 ^ 64 - 1"
    using spl sh3 len length_emplace [OF key(3), of v] by (simp_all add: NeedSplit_def n3 leaf_shape_def)
  text \<open>the split\<close>
  let ?r0 = "\<lparr>node_id = ctx_id t + 1, is_loaded = True, is_leaf = True, is_root = False, parent = Some (root t),
    children = [], kvs = [], write_kvs = Map.empty, stat = stat_init\<rparr>"
  obtain n1 r1 where sl: "split_leaf ?n3 ?r0 = Inr (n1, r1)" "leaf_shape (root t) n1 ?es1" "kvs n1 = ?es1"
    "leaf_shape (root t) r1 ?es2" "kvs r1 = ?es2" "node_id n1 = node_id n" "node_id r1 = ctx_id t + 1"
    using split_leaf_result [OF sh3 n3(1) okes len3, of ?r0] n3(2) by auto
  define t3 where "t3 = (put ?q r1 (put p n1 t))\<lparr>next_ptr := ?q + 1, ctx_id := ctx_id t + 1\<rparr>"
  define t4 where "t4 = reg (node_id n) p (reg (ctx_id t + 1) ?q t3)"
  have qp: "?q \<noteq> p" "?q \<noteq> root t" using h(5,6) by auto
  have h4: "heap t4 = (heap t)(p \<mapsto> n1, ?q \<mapsto> r1)" by (simp add: t4_def t3_def)
  have split: "Split p (put p ?n3 t) = Inr (?q, t3)"
    using sh3 qp sl(1)
    by (simp add: Split_def leaf_shape_def BptNode_new_def AllocateNodeID_def create_node_def Let_def)
      (simp add: t3_def put_def fun_upd_twist)
  text \<open>the new leaf becomes the right neighbour of the old one\<close>
  have okall: "kvs_ok (concat (LA @ [?es1, ?es2] @ LC))"
    using kvs_ok_emplace [OF tree_inv_concat [OF inv] key(4,5)] concat_emplace [OF key(1,2), of v es]
    by (simp flip: append_assoc)
  have "concat (LA @ (?es1 @ ?es2) # LC) = concat (LA @ [?es1, ?es2] @ LC)"
    by (simp del: append_take_drop_id)
  with kvs_ok_smap [OF okall] have okcat: "smap_ok (concat (LA @ (?es1 @ ?es2) # LC))" by metis
  have ne: "?es1 \<noteq> []" "?es2 \<noteq> []" using sl(2,4) by (simp_all add: leaf_shape_def)
  have st4: "stats_of t4 rn (LA @ ?es1 # LC)"
  proof -
    have frame: "heap t4 x = heap t x" if "x \<in> set A \<union> set C" "heap t x \<noteq> None" for x
      using that h(8,10) by (auto simp: h4 ids_ok_def)
    have st: "stats_of t rn (LA @ es # LC)" using stats_of_leaves h(7) rn(2) by metis
    let ?P = "\<lambda>t x e. \<exists>c. heap t x = Some c \<and> e \<noteq> [] \<and>
      min_key (stat c) = fst (hd e) \<and> max_key (stat c) = fst (last e)"
    from st have "list_all2 (?P t) A LA" "list_all2 (?P t) C LC"
      unfolding stats_of_def rn(2) using rn(3) by (auto simp: list_all2_append)
    then have "list_all2 (?P t4) A LA" "list_all2 (?P t4) C LC"
      using frame by (auto elim!: list.rel_mono_strong)
    moreover have "?P t4 p ?es1" using sl(2) qp by (auto simp: h4 leaf_shape_def)
    ultimately show ?thesis unfolding stats_of_def rn(2) by (intro list_all2_appendI) simp_all
  qed
  have rt4: "heap t4 (root t) = Some rn" using rn(1) h(4) qp by (simp add: h4)
  have mx: "max_key (stat r1) = fst (last ?es2)" using sl(4) unfolding leaf_shape_def by (elim conjE)
  have add: "AddChild (root t) ?q t4 = Inr (put (root t) (rn\<lparr>children := A @ p # ?q # C\<rparr>) t4)"
    by (rule AddChild_next [OF rt4 rn(2,3) _ mx st4 okcat ne(2)]) (simp add: h4)
  define t5 where "t5 = put (root t) (rn\<lparr>children := A @ p # ?q # C\<rparr>) t4"
  have sp: "spliced pb contents t A [p] C [p, ?q] [?es1, ?es2] t5"
    by (rule spliced_split [OF inv rn n(1) sl(2,3,6,4,5,7) _ _ _ _ _ _ _ ctx])
      (simp_all add: t5_def h4, simp_all add: t4_def t3_def)
  text \<open>the root\<close>
  have inv': "tree_inv pb contents t (LA @ [es] @ LC)" and rn2: "children rn = A @ [p] @ C"
    using inv rn(2) by simp_all
  obtain a b where ab: "heap t5 (hd (A @ [p, ?q] @ C)) = Some a" "heap t5 (last (A @ [p, ?q] @ C)) = Some b"
    "length (min_key (stat a)) \<le> max_key_len" "length (max_key (stat b)) \<le> max_key_len"
    by (rule spliced_ends [OF inv' rn(1) rn2 rn(3) _ sp okall]) simp_all
  have rt5: "heap t5 (root t) = Some (rn\<lparr>children := A @ p # ?q # C\<rparr>)"
    "root_shape (schema t) (rn\<lparr>children := A @ p # ?q # C\<rparr>)"
    using h(2) by (simp_all add: t5_def root_shape_def)
  obtain rn' where rn': "insert_ascend k v [root t] t5 =
      Inr (C_OK, reg (ts_root_id (schema t)) (root t) (put (root t) rn' t5))"
    "root_shape (schema t) rn'" "children rn' = A @ [p, ?q] @ C"
    using insert_ascend_root [OF rt5(1,2), of a b k v] ab by auto
  let ?t' = "reg (ts_root_id (schema t)) (root t) (put (root t) rn' t5)"
  have "tree_inv pb contents ?t' (LA @ [?es1, ?es2] @ LC)"
    by (rule spliced_root [OF inv' rn(1) rn2 rn(3) _ sp rn'(3,2) okall]) simp
  moreover have "insert_ascend k v [p, root t] (put p (with_kv k v n) t) = Inr (C_OK, ?t')"
  proof -
    have lf: "is_leaf (with_kv k v n)" using h(1) by (simp add: leaf_shape_def with_kv_def)
    have pp: "put p ?n3 (put p (with_kv k v n) t) = put p ?n3 t" by (simp add: put_def)
    have c1: "CollectUnsavedTreeNode ?q t3 = Inr (reg (ctx_id t + 1) ?q t3)"
      using CollectUnsaved_reg [of t3 ?q r1] sl(7) qp by (simp add: t3_def)
    have c2: "CollectUnsavedTreeNode p (reg (ctx_id t + 1) ?q t3) = Inr t4"
      using CollectUnsaved_reg [of "reg (ctx_id t + 1) ?q t3" p n1] sl(6) qp by (simp add: t3_def t4_def)
    have d4: "deref t4 p = Inr n1" "\<not> is_root n1" "parent n1 = Some (root t)"
      using sl(2) qp by (simp_all add: h4 leaf_shape_def)
    show ?thesis
      using lf spl rn'(1) add
      by (subst insert_ascend.simps) (simp add: pp split c1 c2 d4 t5_def)
  qed
  ultimately show ?thesis using that [of ?t' "LA @ [?es1, ?es2] @ LC"]
    by (simp add: t5_def t4_def t3_def)
qed

end
