(* ===== verification/BptInsertThm.thy ===== *)
theory BptInsertThm
  imports BptInsertRefine
begin

text \<open>
  The whole of \<open>Bptree::Insert\<close>: the walk down, the insertion, the walk up.
\<close>

section \<open>The first leaf\<close>

lemma leaf_shape_single:
  "is_leaf n \<Longrightarrow> \<not> is_root n \<Longrightarrow> parent n = Some r \<Longrightarrow> children n = [] \<Longrightarrow>
   min_key (stat n) = k \<Longrightarrow> max_key (stat n) = k \<Longrightarrow> kvs n = [(k, v)] \<Longrightarrow>
   dom (write_kvs n) \<subseteq> {k} \<Longrightarrow> leaf_shape r n [(k, v)]"
  by (simp add: leaf_shape_def)

lemma spliced_first:
  assumes inv: "tree_inv pb contents t []"
    and rn: "heap t (root t) = Some rn" "children rn = []"
    and n1: "leaf_shape (root t) n1 es1" "kvs n1 = es1" "node_id n1 = ctx_id t + 1"
    and t2: "heap t2 = (heap t)(next_ptr t \<mapsto> n1, root t \<mapsto> rn\<lparr>children := [next_ptr t]\<rparr>)"
      "unsaved t2 = umap_put (ctx_id t + 1) (next_ptr t) (unsaved t)"
      "root t2 = root t" "schema t2 = schema t" "storage t2 = storage t" "ctx_id t2 = ctx_id t + 1"
      "next_ptr t2 = next_ptr t + 1"
    and ctx: "unat (ctx_id t) < 2 ^ 64 - 1"
  shows "spliced pb contents t [] [] [] [next_ptr t] [es1] t2"
proof -
  let ?q = "next_ptr t" and ?m = "contents (storage t)"
  from inv rn obtain h: "root_shape (schema t) rn" "ids_ok ?m t []" "unsaved_ok t []"
    by (elim tree_invE) auto
  have lt: "ctx_id t < ctx_id t + 1" by (rule next_id [OF ctx])
  have "root t < ?q" using h(2) rn(1) by (auto simp: ids_ok_def)
  then have q: "?q \<noteq> root t" by simp
  have du: "distinct (map fst (unsaved t))" using h(3) by (simp add: unsaved_ok_def)
  have old: "fst x \<noteq> ctx_id t + 1" if "x \<in> set (unsaved t)" for x
  proof -
    from that h(3) have "fst x = id_of t (root t)" by (auto simp: unsaved_ok_def)
    with h(2) lt id_of_root [OF rn(1) h(1)] show ?thesis by (auto simp: ids_ok_def)
  qed
  have s: "set (unsaved t2) = insert (ctx_id t + 1, ?q) (set (unsaved t))"
    unfolding t2(2) set_umap_put [OF du] using old by auto
  have hq: "heap t2 ?q = Some n1" using q by (simp add: t2(1))
  have "list_all2 (leaf_ok pb ?m t2) [?q] [es1]"
    using n1 s by (simp add: leaf_ok_def hq leaf_saved_def t2(3))
  moreover have "distinct (map fst (unsaved t2))" unfolding t2(2) by (rule distinct_umap_put [OF du])
  moreover have "id_of t2 ?q = ctx_id t + 1" using n1(3) by (simp add: id_of_def hq)
  ultimately show ?thesis
    using rn h t2(1,3-7) lt q unfolding spliced_def
    by (auto simp: s ids_ok_def root_shape_def less_Suc_eq)
qed

text \<open>A leaf whose entries have no values counts its two range keys and 20 bytes.\<close>

definition slim :: "bpt_node \<Rightarrow> bool" where
  "slim n \<longleftrightarrow> (is_leaf n \<longrightarrow> node_size (stat n) = len64 (min_key (stat n)) + len64 (max_key (stat n)) + 20)"

definition slim_tree :: "'s tree \<Rightarrow> bool" where
  "slim_tree t \<longleftrightarrow> (\<forall>p n. heap t p = Some n \<longrightarrow> slim n)"

definition first_leaf :: "ptr \<Rightarrow> u64 \<Rightarrow> bpt_node" where
  "first_leaf r i = \<lparr>node_id = i, is_loaded = True, is_leaf = True, is_root = False, parent = Some r,
     children = [], kvs = [], write_kvs = Map.empty, stat = stat_init\<rparr>"

lemma insert_first:
  assumes inv: "tree_inv pb contents t []"
    and rn: "heap t (root t) = Some rn" "children rn = []"
    and key: "length k \<le> max_key_len" "length v < 2 ^ 32" and ctx: "unat (ctx_id t) < 2 ^ 64 - 1"
  obtains t' where "Bptree_Insert kv pb k v t = Inr (C_OK, t')"
    "tree_inv pb contents t' [[(k, v)]]" "tree_safe pb contents t' [[(k, v)]]"
    "storage t' = storage t" "schema t' = schema t" "ctx_id t' = ctx_id t + 1"
    "slim_tree t \<Longrightarrow> v = [] \<Longrightarrow> slim_tree t'"
proof -
  let ?q = "next_ptr t" and ?m = "contents (storage t)" and ?n0 = "first_leaf (root t) (ctx_id t + 1)"
  let ?n3 = "UpdateStatByAddKV k v (with_kv k v ?n0)"
  from inv rn obtain h: "root_shape (schema t) rn" "ids_ok ?m t []" by (elim tree_invE) auto
  have "root t < ?q" using h(2) rn(1) by (auto simp: ids_ok_def)
  then have q: "?q \<noteq> root t" by simp
  define t1 where "t1 = (put (root t) (rn\<lparr>children := [?q]\<rparr>) (put ?q ?n0 t))\<lparr>next_ptr := ?q + 1, ctx_id := ctx_id t + 1\<rparr>"
  have new: "NewMutableLeafChild (root t) t = Inr (?q, t1)"
    using rn q
    by (simp add: NewMutableLeafChild_def BptNode_new_def AllocateNodeID_def create_node_def Let_def)
      (simp add: t1_def first_leaf_def put_def on_node_def deref_def)
  have h1: "heap t1 = (heap t)(?q \<mapsto> ?n0, root t \<mapsto> rn\<lparr>children := [?q]\<rparr>)" by (simp add: t1_def)
  have n0: "heap t1 ?q = Some ?n0" using q by (simp add: h1)
  have kv3: "kvs ?n3 = [(k, v)]" by (simp add: first_leaf_def)
  have sh3: "leaf_shape (root t) ?n3 [(k, v)]"
    using UpdateStatByAddKV_keys [of "with_kv k v ?n0" k v]
    by (intro leaf_shape_single) (simp_all add: first_leaf_def with_kv_def)
  define t2 where "t2 = reg (ctx_id t + 1) ?q (put ?q ?n3 t1)"
  have id3: "node_id ?n3 = ctx_id t + 1" by (simp add: first_leaf_def)
  have sp: "spliced pb contents t [] [] [] [?q] [[(k, v)]] t2"
    by (rule spliced_first [OF inv rn sh3 kv3 id3 _ _ _ _ _ _ _ ctx])
      (use q in \<open>auto simp: t2_def t1_def fun_eq_iff\<close>)
  have ok: "kvs_ok (concat ([] @ [[(k, v)]] @ []))" using key by (simp add: kvs_ok_def)
  have inv': "tree_inv pb contents t ([] @ [] @ [])" and rn2: "children rn = [] @ [] @ []"
    using inv rn(2) by simp_all
  have rt2: "heap t2 (root t) = Some (rn\<lparr>children := [?q]\<rparr>)"
    "root_shape (schema t) (rn\<lparr>children := [?q]\<rparr>)"
    using h(1) q by (simp_all add: t2_def h1 root_shape_def)
  obtain a b where ab: "heap t2 (hd ([] @ [?q] @ [])) = Some a" "heap t2 (last ([] @ [?q] @ [])) = Some b"
    "length (min_key (stat a)) \<le> max_key_len" "length (max_key (stat b)) \<le> max_key_len"
    by (rule spliced_ends [OF inv' rn(1) rn2 _ _ sp ok]) simp_all
  obtain rn' where rn': "insert_ascend k v [root t] t2 =
      Inr (C_OK, reg (ts_root_id (schema t)) (root t) (put (root t) rn' t2))"
    "root_shape (schema t) rn'" "children rn' = [?q]"
    using insert_ascend_root [OF rt2, of a b k v] ab by auto
  let ?t' = "reg (ts_root_id (schema t)) (root t) (put (root t) rn' t2)"
  have inv2: "tree_inv pb contents ?t' ([] @ [[(k, v)]] @ [])"
    by (rule spliced_root [OF inv' rn(1) rn2 _ _ sp _ rn'(2) ok]) (use rn' in simp_all)
  have leaf: "insert_ascend k v [?q, root t] (put ?q (with_kv k v ?n0) t1) = Inr (C_OK, ?t')"
    using rn'(1) CollectUnsaved_reg [of "put ?q ?n3 t1" ?q ?n3]
    by (subst insert_ascend.simps) (simp add: t2_def NeedSplit_def first_leaf_def)
  have desc: "insert_descend kv pb k (?q + 2) (root t) [root t] t = Inr (C_OK, [?q, root t], t1)"
    using rn h(1) new n0
    by (simp add: numeral_2_eq_2 root_shape_def HasChild_def first_leaf_def)
  have run: "Bptree_Insert kv pb k v t = Inr (C_OK, ?t')"
    using desc n0 leaf
    by (simp add: Bptree_Insert_def BptNode_Insert_def with_kv_def smap_find_def)
      (simp add: first_leaf_def)
  have "?m (node_key (schema t) (id_of ?t' ?q)) = None"
  proof -
    have "id_of ?t' ?q = ctx_id t + 1" using q by (simp add: id_of_def t2_def first_leaf_def)
    with h(2) next_id [OF ctx] show ?thesis by (simp add: ids_ok_def)
  qed
  then have "tree_safe pb contents ?t' [[(k, v)]]"
    using inv2 rn'(3) by (simp add: tree_safe_def reload_safe_def t2_def t1_def)
  moreover have "slim_tree ?t'" if "slim_tree t" "v = []"
  proof -
    have "slim ?n3" using that(2) by (simp add: slim_def first_leaf_def UpdateStatByAddKV_def with_kv_def stat_init_def len64_def Let_def)
    then show ?thesis using that(1) rn'(2) by (simp add: slim_tree_def t2_def h1 root_shape_def) (simp add: slim_def)
  qed
  ultimately show ?thesis using run inv2 that [of ?t'] by (simp add: t2_def t1_def)
qed

section \<open>The walk down\<close>

lemma tree_safeE:
  assumes "tree_safe pb contents t (LA @ es # LC)" "heap t (root t) = Some rn"
    "children rn = A @ p # C" "length A = length LA"
  shows "tree_inv pb contents t (LA @ es # LC)" "reload_safe pb (contents (storage t)) t p es"
proof -
  show "tree_inv pb contents t (LA @ es # LC)" using assms(1) by (simp add: tree_safe_def)
  have "list_all2 (reload_safe pb (contents (storage t)) t) (A @ p # C) (LA @ es # LC)"
    using assms by (auto simp: tree_safe_def)
  with assms(4) show "reload_safe pb (contents (storage t)) t p es" by (auto simp: list_all2_append)
qed

text \<open>The children that match a decomposition of the leaves.\<close>

lemma children_split:
  assumes "tree_inv pb contents t (LA @ es # LC)" "heap t (root t) = Some rn"
  obtains A p C where "children rn = A @ p # C" "length A = length LA"
proof -
  have len: "length (children rn) = length (LA @ es # LC)"
    using assms by (elim tree_invE) (auto dest: list_all2_lengthD)
  let ?i = "length LA"
  have "children rn = take ?i (children rn) @ children rn ! ?i # drop (Suc ?i) (children rn)"
    using len by (intro id_take_nth_drop) simp
  then show ?thesis using that [of "take ?i (children rn)"] len by simp
qed

lemma tree_inv_ne: "tree_inv pb contents t ls \<Longrightarrow> [] \<notin> set ls"
  by (elim tree_invE) (auto simp: list_all2_conv_all_nth in_set_conv_nth leaf_ok_def leaf_shape_def)

lemma tree_safe_loaded:
  assumes safe: "tree_safe pb contents t (LA @ es # LC)"
    and rn: "heap t (root t) = Some rn" "children rn = A @ p # C" "length A = length LA"
  shows "tree_safe pb contents (loaded p es t) (LA @ es # LC)"
    "heap (loaded p es t) (root t) = Some rn"
proof -
  have inv: "tree_inv pb contents t (LA @ es # LC)" by (rule tree_safeE(1) [OF safe rn])
  obtain n where n: "heap t p = Some n" using childE [OF inv rn] by metis
  note l = tree_inv_loaded [OF inv rn(1,2) refl rn(3)]
  have "id_of (loaded p es t) = id_of t" using n by (rule id_of_loaded)
  then have "reload_safe pb (contents (storage t)) (loaded p es t) = reload_safe pb (contents (storage t)) t"
    by (simp add: fun_eq_iff reload_safe_def)
  with safe l rn(1) show "tree_safe pb contents (loaded p es t) (LA @ es # LC)"
    by (simp add: tree_safe_def)
  show "heap (loaded p es t) (root t) = Some rn" by (rule l(2))
qed

context bpt_env
begin

lemma insert_descend_leaf:
  assumes safe: "tree_safe pb contents t (LA @ es # LC)"
    and rn: "heap t (root t) = Some rn" "children rn = A @ p # C" "length A = length LA"
    and pos: "length LA = (if pos_ge k (LA @ es # LC) = length (LA @ es # LC)
      then length (LA @ es # LC) - 1 else pos_ge k (LA @ es # LC))"
  shows "insert_descend kv pb k (next_ptr t + 2) (root t) [root t] t =
    Inr (C_OK, [p, root t], loaded p es t)"
proof -
  let ?ls = "LA @ es # LC"
  have inv: "tree_inv pb contents t ?ls" by (rule tree_safeE(1) [OF safe rn])
  from childE [OF inv rn] obtain n where h: "heap t p = Some n" "leaf_shape (root t) n es"
    "root_shape (schema t) rn" "kvs_ok es"
    "list_all2 (leaf_ok pb (contents (storage t)) t) (A @ p # C) ?ls" by metis
  have st: "stats_of t rn ?ls" using stats_of_leaves h(5) rn(2) by metis
  have ok: "smap_ok (concat ?ls)" by (rule kvs_ok_smap [OF tree_inv_concat [OF inv]])
  have lc: "length C = length LC" using h(5) rn(3) by (auto dest: list_all2_lengthD)
  have child: "(if pos_ge k ?ls = length (children rn) then last (children rn)
      else children rn ! pos_ge k ?ls) = p"
  proof (cases "pos_ge k ?ls = length ?ls")
    case True
    with pos have "length LA = length ?ls - 1" by metis
    then have "LC = []" by simp
    with lc have "C = []" by simp
    with True rn(2,3) \<open>LC = []\<close> show ?thesis by simp
  next
    case False
    with pos rn(3) have e: "pos_ge k ?ls = length A" by metis
    show ?thesis unfolding e rn(2) by simp
  qed
  have l: "leaf_ok pb (contents (storage t)) t p es" using h(5) rn(3) by (auto simp: list_all2_append)
  obtain st' where ld: "LoadNodeFromKVStorage kv pb p t = Inr (st', loaded p es t)"
    "st' = C_OK \<or> st' = C_STORAGE_KV_NOT_FOUND"
    using load_ok [OF l tree_safeE(2) [OF safe rn] h(4)] by metis
  have lf: "heap (loaded p es t) p = Some (loaded_node es n)" "is_leaf n"
    using h(1,2) by (simp_all add: heap_loaded leaf_shape_def)
  have "\<not> is_leaf rn" using h(3) by (simp add: root_shape_def)
  then show ?thesis
    using rn(1,2) ld lf child
    by (simp add: numeral_2_eq_2 HasChild_def MaxKeyLowerBound_pos [OF st ok] Let_def)
qed

section \<open>The result of an insertion\<close>

text \<open>A key that is there: the status is \<open>C_BPTREE_DUPLICATE_KEY\<close> and the tree holds what it
  held.\<close>

lemma insert_dup:
  assumes safe: "tree_safe pb contents t ls" and key: "k \<in> fst ` set (concat ls)"
  obtains t' where "Bptree_Insert kv pb k v t = Inr (C_BPTREE_DUPLICATE_KEY, t')"
    "tree_safe pb contents t' ls" "storage t' = storage t" "schema t' = schema t"
    "ctx_id t' = ctx_id t" "unsaved t' = unsaved t"
proof -
  have inv: "tree_inv pb contents t ls" using safe by (simp add: tree_safe_def)
  then obtain rn where rn: "heap t (root t) = Some rn" by (rule tree_invE)
  have ok: "smap_ok (concat ls)" by (rule kvs_ok_smap [OF tree_inv_concat [OF inv]])
  have ls: "ls \<noteq> []" using key by auto
  obtain LA es LC where d: "ls = LA @ es # LC"
    "length LA = (if pos_ge k ls = length ls then length ls - 1 else pos_ge k ls)"
    "below LA k" "above k LC" by (rule route_insert [OF ok tree_inv_ne [OF inv] ls])
  obtain A p C where c: "children rn = A @ p # C" "length A = length LA"
    using children_split [OF inv [unfolded d(1)] rn] by metis
  note safe' = safe [unfolded d(1)]
  note desc = insert_descend_leaf [OF safe' rn c d(2) [unfolded d(1)]]
  note ld = tree_safe_loaded [OF safe' rn c]
  from childE [OF inv [unfolded d(1)] rn c] obtain n where h: "heap t p = Some n"
    "leaf_shape (root t) n es" by metis
  have hp: "heap (loaded p es t) p = Some (loaded_node es n)" using h(1) by (simp add: heap_loaded)
  have shp: "leaf_shape (root t) (loaded_node es n) es"
    using h(2) by (auto simp: leaf_shape_def)
  have "k \<in> fst ` set es" using key member_leaf [OF d(3,4), of es] d(1) by simp
  then have ins: "BptNode_Insert k v (loaded_node es n) = Inr (C_BPTREE_DUPLICATE_KEY, loaded_node es n)"
    by (intro BptNode_Insert_dup [OF shp]) simp_all
  have same: "put p (loaded_node es n) (loaded p es t) = loaded p es t"
    using h(1) by (simp add: loaded_def)
  have "Bptree_Insert kv pb k v t = Inr (C_BPTREE_DUPLICATE_KEY, loaded p es t)"
    unfolding Bptree_Insert_def desc by (simp add: hp ins same)
  with that [of "loaded p es t"] ld(1) d(1) show ?thesis by simp
qed

text \<open>The walk down to the leaf a new key belongs to.\<close>

lemma insert_to_leaf:
  assumes safe: "tree_safe pb contents t ls" and key: "k \<notin> fst ` set (concat ls)" and ne: "ls \<noteq> []"
  obtains LA es LC rn A p C n where "ls = LA @ es # LC" "below LA k" "above k LC" "k \<notin> fst ` set es"
    "heap (loaded p es t) (root (loaded p es t)) = Some rn" "children rn = A @ p # C" "length A = length LA"
    "heap t p = Some n" "heap (loaded p es t) p = Some (loaded_node es n)" "tree_inv pb contents (loaded p es t) (LA @ es # LC)"
    "Bptree_Insert kv pb k v t = insert_ascend k v [p, root (loaded p es t)] (put p (with_kv k v (loaded_node es n)) (loaded p es t))"
    "insert_descend kv pb k (next_ptr t + 2) (root t) [root t] t = Inr (C_OK, [p, root t], loaded p es t)"
proof -
  have inv: "tree_inv pb contents t ls" using safe by (simp add: tree_safe_def)
  then obtain rn where rn: "heap t (root t) = Some rn" by (rule tree_invE)
  have ok: "smap_ok (concat ls)" by (rule kvs_ok_smap [OF tree_inv_concat [OF inv]])
  obtain LA es LC where d: "ls = LA @ es # LC"
    "length LA = (if pos_ge k ls = length ls then length ls - 1 else pos_ge k ls)"
    "below LA k" "above k LC" by (rule route_insert [OF ok tree_inv_ne [OF inv] ne])
  obtain A p C where c: "children rn = A @ p # C" "length A = length LA"
    using children_split [OF inv [unfolded d(1)] rn] by metis
  note safe' = safe [unfolded d(1)]
  note desc = insert_descend_leaf [OF safe' rn c d(2) [unfolded d(1)]]
  note ld = tree_safe_loaded [OF safe' rn c]
  let ?t = "loaded p es t"
  have inv1: "tree_inv pb contents ?t (LA @ es # LC)" using ld(1) by (simp add: tree_safe_def)
  have rn1: "heap ?t (root ?t) = Some rn" using ld(2) by simp
  from childE [OF inv [unfolded d(1)] rn c] obtain n where h: "heap t p = Some n"
    "leaf_shape (root t) n es" by metis
  have hp: "heap ?t p = Some (loaded_node es n)" using h(1) by (simp add: heap_loaded)
  have shp: "leaf_shape (root t) (loaded_node es n) es" using h(2) by (auto simp: leaf_shape_def)
  have new: "k \<notin> fst ` set es" using key member_leaf [OF d(3,4), of es] d(1) by simp
  have ins: "BptNode_Insert k v (loaded_node es n) = Inr (C_OK, with_kv k v (loaded_node es n))"
    by (rule BptNode_Insert_new [OF shp _ new]) simp
  have "Bptree_Insert kv pb k v t =
      insert_ascend k v [p, root ?t] (put p (with_kv k v (loaded_node es n)) ?t)"
    unfolding Bptree_Insert_def desc by (simp add: hp ins)
  with that [OF d(1,3,4) new rn1 c h(1) hp inv1] desc show thesis by simp
qed

text \<open>A new key: the tree holds it as well. Unless a leaf was split, the tree can be used
  further before it is saved.\<close>

lemma insert_new:
  assumes safe: "tree_safe pb contents t ls" and key: "k \<notin> fst ` set (concat ls)"
    and kv: "length k \<le> max_key_len" "length v < 2 ^ 32"
    and ctx: "unat (ctx_id t) < 2 ^ 64 - 1" and len: "length (concat ls) < 2 ^ 64 - 2"
  obtains t' ls' where "Bptree_Insert kv pb k v t = Inr (C_OK, t')"
    "tree_inv pb contents t' ls'" "concat ls' = smap_emplace k v (concat ls)"
    "storage t' = storage t" "schema t' = schema t"
    "ctx_id t' = ctx_id t \<or> ctx_id t' = ctx_id t + 1"
proof (cases "ls = []")
  case True
  have inv: "tree_inv pb contents t []" using safe True by (simp add: tree_safe_def)
  then obtain rn where rn: "heap t (root t) = Some rn" "children rn = []"
    by (elim tree_invE) auto
  show ?thesis
    by (rule insert_first [OF inv rn kv ctx, of kv thesis]) (use that True in auto)
next
  case False
  obtain LA es LC rn A p C n where d: "ls = LA @ es # LC" "below LA k" "above k LC" "k \<notin> fst ` set es"
    "heap (loaded p es t) (root (loaded p es t)) = Some rn" "children rn = A @ p # C" "length A = length LA"
    "heap t p = Some n" "heap (loaded p es t) p = Some (loaded_node es n)" "tree_inv pb contents (loaded p es t) (LA @ es # LC)"
    "Bptree_Insert kv pb k v t = insert_ascend k v [p, root (loaded p es t)] (put p (with_kv k v (loaded_node es n)) (loaded p es t))"
    by (rule insert_to_leaf [OF safe key False])
  let ?t = "loaded p es t"
  have cat: "concat (LA @ smap_emplace k v es # LC) = smap_emplace k v (concat ls)"
    unfolding d(1) by (rule concat_emplace [OF d(2,3)])
  have kn: "kvs (loaded_node es n) = es" by simp
  have lenes: "length es < 2 ^ 64 - 2" "length es < 2 ^ 64 - 1" using len d(1) by simp_all
  have c1: "unat (ctx_id ?t) < 2 ^ 64 - 1" using ctx by simp
  show ?thesis
  proof (cases "NeedSplit (UpdateStatByAddKV k v (with_kv k v (loaded_node es n)))")
    case True
    show ?thesis
      by (rule insert_split [OF d(10,5-7,9) kn d(2-4) kv lenes(1) c1 True])
        (use that d(11) cat in \<open>auto simp del: concat_append\<close>)
  next
    case False
    show ?thesis
      by (rule insert_nosplit [OF d(10,5-7,9) kn d(2-4) kv lenes(2) False])
        (use that d(11) cat in \<open>auto simp del: concat_append\<close>)
  qed
qed

end

end
