(* ===== verification/BptDelete.thy ===== *)
theory BptDelete
  imports BptInsertThm
begin

text \<open>
  Deletion and lookup. Both load a leaf and give up when its record is missing, so they are
  stated for a saved tree (\<open>tree_clean\<close>); a deletion removes an emptied leaf from the root.
\<close>

section \<open>The statistics of a leaf\<close>

definition without_key :: "bytes \<Rightarrow> bpt_node \<Rightarrow> bpt_node" where
  "without_key k n = n\<lparr>kvs := smap_erase k (kvs n), write_kvs := (write_kvs n)(k := None)\<rparr>"

lemma without_key_simps [simp]:
  "node_id (without_key k n) = node_id n" "is_leaf (without_key k n) = is_leaf n"
  "is_root (without_key k n) = is_root n" "parent (without_key k n) = parent n"
  "children (without_key k n) = children n" "kvs (without_key k n) = smap_erase k (kvs n)"
  "write_kvs (without_key k n) = (write_kvs n)(k := None)" "stat (without_key k n) = stat n"
  by (simp_all add: without_key_def)

lemma BptNode_Delete_there:
  "is_leaf n \<Longrightarrow> k \<in> fst ` set (kvs n) \<Longrightarrow> BptNode_Delete k n = Inr (C_OK, without_key k n)"
  using smap_find_in [of k "kvs n"] by (auto simp: BptNode_Delete_def without_key_def)

lemma BptNode_Delete_absent:
  "is_leaf n \<Longrightarrow> k \<notin> fst ` set (kvs n) \<Longrightarrow> BptNode_Delete k n = Inr (C_BPTREE_ERROR, n)"
  using smap_find_in [of k "kvs n"] by (auto simp: BptNode_Delete_def)

lemma fst_erase:
  "smap_ok m \<Longrightarrow> fst ` set (smap_erase k m) = fst ` set m - {k}"
  by (induction k m rule: smap_erase.induct) auto

lemma del_kv_shape:
  assumes sh: "leaf_shape r n es" "kvs n = es" and ok: "smap_ok es" and left: "smap_erase k es \<noteq> []"
  obtains n1 where "UpdateStatByDelKV k (without_key k n) = Inr n1"
    "leaf_shape r n1 (smap_erase k es)" "kvs n1 = smap_erase k es" "node_id n1 = node_id n"
proof -
  have ne: "es \<noteq> []" using sh by (simp add: leaf_shape_def)
  have w: "dom ((write_kvs n)(k := None)) \<subseteq> fst ` set (smap_erase k es)"
    using sh fst_erase [OF ok, of k] by (auto simp: leaf_shape_def)
  have mx: "max_key (stat n) = fst (last es)" and mn: "min_key (stat n) = fst (hd es)"
    using sh by (simp_all add: leaf_shape_def)
  note hd = hd_erase [OF ok ne, of k] and la = last_erase [OF ne, of k]
  let ?s = "(stat n)\<lparr>count := of_nat (length (smap_erase k es))\<rparr>"
  consider "k = fst (last es)" | "k \<noteq> fst (last es)" "k = fst (hd es)"
    | "k \<noteq> fst (last es)" "k \<noteq> fst (hd es)" by blast
  then show ?thesis
  proof cases
    case 1
    have "fst (hd (smap_erase k es)) = fst (hd es)"
    proof (cases "k = fst (hd es)")
      case True
      have "es = [hd es]"
      proof (cases es)
        case (Cons e es')
        show ?thesis
        proof (cases es')
          case (Cons e' es'')
          with \<open>es = e # es'\<close> ok 1 True show ?thesis
            by (auto dest: last_in_set split: if_splits)
        qed (use \<open>es = e # es'\<close> in simp)
      qed (use ne in simp)
      then have "smap_erase k es = []" using True by (metis prod.collapse smap_erase.simps(2))
      with left show ?thesis by simp
    qed (use hd in simp)
    with 1 left w sh mx mn that [of "(without_key k n)\<lparr>stat := ?s\<lparr>node_size := node_size ?s - len64 (max_key ?s),
        max_key := fst (last (smap_erase k es))\<rparr>\<rparr>"] show ?thesis
      by (simp add: UpdateStatByDelKV_def Let_def leaf_shape_def)
  next
    case 2
    with la left w sh mx mn that [of "(without_key k n)\<lparr>stat := ?s\<lparr>node_size := node_size ?s - len64 (min_key ?s),
        min_key := fst (hd (smap_erase k es))\<rparr>\<rparr>"] show ?thesis
      by (simp add: UpdateStatByDelKV_def Let_def leaf_shape_def)
  next
    case 3
    with hd la left w sh mx mn that [of "(without_key k n)\<lparr>stat := ?s\<rparr>"] show ?thesis
      by (simp add: UpdateStatByDelKV_def Let_def leaf_shape_def)
  qed
qed

section \<open>The root\<close>

lemma delete_ascend_root:
  assumes "heap t r = Some rn" "root_shape sc rn" "children rn \<noteq> []"
    "heap t (hd (children rn)) = Some a" "heap t (last (children rn)) = Some b"
    "length (min_key (stat a)) \<le> max_key_len" "length (max_key (stat b)) \<le> max_key_len"
  obtains rn' where "delete_ascend key [r] t = Inr (C_OK, reg (ts_root_id sc) r (put r rn' t))"
    "root_shape sc rn'" "children rn' = children rn"
proof -
  obtain rn' where rn': "UpdateStatByRangeChange False r t = Inr (put r rn' t)" "root_shape sc rn'"
    "children rn' = children rn" using UpdateStatByRangeChange_root [OF assms] .
  moreover have "node_id rn' = ts_root_id sc" using rn'(2) by (simp add: root_shape_def)
  moreover have "\<not> is_leaf rn" "is_root rn" using assms(2) by (simp_all add: root_shape_def)
  moreover have h: "heap (put r rn' t) r = Some rn'" by simp
  ultimately show ?thesis
    using that assms(1,3) CollectUnsaved_reg [OF h]
    by (simp add: delete_ascend.simps IsEmpty_def)
qed

lemma delete_ascend_empty_root:
  assumes "heap t r = Some rn" "root_shape sc rn" "children rn = []"
  shows "delete_ascend key [r] t = Inr (C_OK, reg (ts_root_id sc) r (put r (ResetStat rn) t))"
    "root_shape sc (ResetStat rn)" "children (ResetStat rn) = []"
proof -
  show "root_shape sc (ResetStat rn)" "children (ResetStat rn) = []"
    using assms(2,3) by (simp_all add: root_shape_def ResetStat_def stat_init_def len64_def)
  have h: "heap (put r (ResetStat rn) t) r = Some (ResetStat rn)" by simp
  show "delete_ascend key [r] t = Inr (C_OK, reg (ts_root_id sc) r (put r (ResetStat rn) t))"
    using assms CollectUnsaved_reg [OF h]
    by (simp add: delete_ascend.simps IsEmpty_def root_shape_def ResetStat_def)
qed

section \<open>Removing the emptied leaf\<close>

lemma pos_ge_last:
  assumes ok: "smap_ok (concat (LA @ es # LC))" and ne: "[] \<notin> set (LA @ es # LC)"
  shows "pos_ge (fst (last es)) (LA @ es # LC) = length LA"
proof -
  have s: "sorted_wrt (<) (map (\<lambda>es. fst (last es)) (LA @ es # LC))" by (rule maxes_sorted [OF ok ne])
  then have "\<forall>e \<in> set LA. fst (last e) < fst (last es)" by (auto simp: sorted_wrt_append)
  then have "takeWhile (\<lambda>e. fst (last e) < fst (last es)) (LA @ es # LC) = LA"
    by (subst takeWhile_append2) auto
  then show ?thesis by (simp add: pos_ge_def)
qed

lemma DelChild_this:
  assumes rn: "heap t r = Some rn" "children rn = A @ p # C" "length A = length LA"
    and p: "heap t p = Some n" "max_key (stat n) = fst (last es)"
    and st: "stats_of t rn (LA @ es # LC)" and ok: "smap_ok (concat (LA @ es # LC))"
  shows "DelChild r p t = Inr (put r (rn\<lparr>children := A @ C\<rparr>) t)"
proof -
  have ne: "[] \<notin> set (LA @ es # LC)" using child_stats_eq [OF st] by metis
  have "MaxKeyLowerBound (max_key (stat n)) rn t = Inr (length A)"
    by (simp only: MaxKeyLowerBound_pos [OF st ok] p(2) rn(3) pos_ge_last [OF ok ne])
  moreover have "children rn ! length A = p" unfolding rn(2) by simp
  ultimately show ?thesis using rn(1,2) p by (simp add: DelChild_def FindChild_node_def erase_at_def)
qed

context bpt_env
begin

lemma clean_safe: "tree_clean pb contents t ls \<Longrightarrow> tree_safe pb contents t ls"
proof -
  assume c: "tree_clean pb contents t ls"
  then obtain rn where rn: "heap t (root t) = Some rn"
    "list_all2 (leaf_ok pb (contents (storage t)) t) (children rn) ls" "kvs_ok (concat ls)"
    by (auto simp: tree_clean_def elim!: tree_invE)
  have "list_all2 (reload_safe pb (contents (storage t)) t) (children rn) ls"
    using rn(2)
  proof (rule list.rel_mono_strong)
    fix p es assume e: "es \<in> set ls" and l: "leaf_ok pb (contents (storage t)) t p es"
    from l obtain n where "heap t p = Some n" "leaf_saved pb (contents (storage t)) (schema t) (unsaved t) p n es"
      by (rule leaf_okE)
    with c kvs_ok_concat [OF rn(3) e] show "reload_safe pb (contents (storage t)) t p es"
      by (auto simp: tree_clean_def leaf_saved_def reload_safe_def id_of_def)
  qed
  with c rn(1) show ?thesis by (simp add: tree_safe_def tree_clean_def)
qed

text \<open>In a saved tree the record of every leaf is there.\<close>

lemma load_clean:
  assumes c: "tree_clean pb contents t (LA @ es # LC)"
    and rn: "heap t (root t) = Some rn" "children rn = A @ p # C" "length A = length LA"
  shows "LoadNodeFromKVStorage kv pb p t = Inr (C_OK, loaded p es t)"
proof -
  have safe: "tree_safe pb contents t (LA @ es # LC)" by (rule clean_safe [OF c])
  have inv: "tree_inv pb contents t (LA @ es # LC)" by (rule tree_safeE(1) [OF safe rn])
  from childE [OF inv rn] obtain n where h: "heap t p = Some n"
    "leaf_saved pb (contents (storage t)) (schema t) (unsaved t) p n es" "kvs_ok es"
    "list_all2 (leaf_ok pb (contents (storage t)) t) (A @ p # C) (LA @ es # LC)" by metis
  have l: "leaf_ok pb (contents (storage t)) t p es" using h(4) rn(3) by (auto simp: list_all2_append)
  have "contents (storage t) (node_key (schema t) (id_of t p)) \<noteq> None"
    using h(1,2) c by (auto simp: leaf_saved_def stored_leaf_def tree_clean_def id_of_def)
  with load_ok [OF l tree_safeE(2) [OF safe rn] h(3)] show ?thesis by metis
qed

text \<open>The walk to the leaf that covers the key, for deletion and for lookup.\<close>

lemma find_descend:
  assumes c: "tree_clean pb contents t ls" and rn: "heap t (root t) = Some rn"
  obtains (none) "k \<notin> fst ` set (concat ls)"
      "delete_descend kv pb k (next_ptr t + 2) (root t) [root t] t = Inr (C_OK, None, t)"
      "get_descend kv pb k (next_ptr t + 2) (root t) t = Inr (C_STORAGE_KV_NOT_FOUND, root t, t)"
  | (some) LA es LC A p C where "ls = LA @ es # LC" "children rn = A @ p # C" "length A = length LA"
      "below LA k" "above k LC"
      "delete_descend kv pb k (next_ptr t + 2) (root t) [root t] t =
        Inr (C_OK, Some [p, root t], loaded p es t)"
      "get_descend kv pb k (next_ptr t + 2) (root t) t = Inr (C_OK, p, loaded p es t)"
proof -
  have inv: "tree_inv pb contents t ls" using c by (simp add: tree_clean_def)
  have ok: "smap_ok (concat ls)" by (rule kvs_ok_smap [OF tree_inv_concat [OF inv]])
  from inv rn have sh: "root_shape (schema t) rn"
    "list_all2 (leaf_ok pb (contents (storage t)) t) (children rn) ls" by (auto elim!: tree_invE)
  have st: "stats_of t rn ls" by (rule stats_of_leaves [OF sh(2)])
  note fc = FindChild_pos [OF st ok, of k]
  have nl: "\<not> is_leaf rn" using sh(1) by (simp add: root_shape_def)
  show ?thesis
  proof (cases rule: route_find [OF ok tree_inv_ne [OF inv], of k])
    case 1
    then have "FindChild k rn t = Inr (length (children rn))" unfolding fc by (simp only: if_False)
    with 1(2) nl rn show ?thesis by (intro none) (simp_all add: numeral_2_eq_2)
  next
    case (2 LA es LC)
    obtain A p C where ch: "children rn = A @ p # C" "length A = length LA"
      using children_split [OF inv [unfolded 2(1)] rn] by metis
    note ld = load_clean [OF c [unfolded 2(1)] rn ch]
    from childE [OF inv [unfolded 2(1)] rn ch] obtain n where n: "heap t p = Some n"
      "leaf_shape (root t) n es" by metis
    have hp: "heap (loaded p es t) p = Some (loaded_node es n)" "is_leaf (loaded_node es n)"
      using n by (simp_all add: heap_loaded leaf_shape_def)
    have "ls ! pos_ge k ls = es" using 2(1,2) by (metis nth_append_length)
    then have "FindChild k rn t = Inr (length A)" using fc 2 ch by simp
    moreover have "children rn ! length A = p" unfolding ch(1) by simp
    moreover have "length A \<noteq> length (children rn)" unfolding ch(1) by simp
    ultimately show ?thesis
      using ld hp rn nl
      by (intro some [OF 2(1) ch 2(5,6)]) (simp_all add: numeral_2_eq_2 Let_def)
  qed
qed

section \<open>Lookup\<close>

text \<open>Lookup in a saved tree: a key the tree holds is found with its value; an absent key is
  reported as \<open>C_STORAGE_KV_NOT_FOUND\<close> when it lies between two leaves or beyond them, and as
  \<open>C_BPTREE_ERROR\<close> when a leaf's range covers it. The output is only written when the key is
  found.\<close>

lemma get_clean:
  assumes c: "tree_clean pb contents t ls"
  obtains st val t' where "Bptree_GetItem kv pb k out t = Inr (st, val, t')"
    "tree_clean pb contents t' ls" "storage t' = storage t" "schema t' = schema t" "ctx_id t' = ctx_id t"
    "case map_of (concat ls) k of Some v \<Rightarrow> st = C_OK \<and> val = v
     | None \<Rightarrow> st \<in> {C_STORAGE_KV_NOT_FOUND, C_BPTREE_ERROR} \<and> val = out"
proof -
  have inv: "tree_inv pb contents t ls" using c by (simp add: tree_clean_def)
  then obtain rn where rn: "heap t (root t) = Some rn" by (rule tree_invE)
  show ?thesis
  proof (cases rule: find_descend [OF c rn, of k])
    case 1
    then have "map_of (concat ls) k = None" by (simp add: map_of_eq_None_iff)
    moreover have "Bptree_GetItem kv pb k out t = Inr (C_STORAGE_KV_NOT_FOUND, out, t)"
      unfolding Bptree_GetItem_def 1(3) by simp
    ultimately show ?thesis using that c by simp
  next
    case (2 LA es LC A p C)
    from childE [OF inv [unfolded 2(1)] rn 2(2,3)] obtain n where n: "heap t p = Some n" by metis
    have hp: "heap (loaded p es t) p = Some (loaded_node es n)" using n by (simp add: heap_loaded)
    have c': "tree_clean pb contents (loaded p es t) ls"
      using tree_inv_loaded(1) [OF inv rn 2(2,1,3)] c by (simp add: tree_clean_def)
    have m: "map_of (concat ls) k = map_of es k"
    proof (cases "map_of es k")
      case None
      then have "k \<notin> fst ` set (concat ls)"
        using member_leaf [OF 2(4,5), of es] 2(1) by (simp add: map_of_eq_None_iff)
      then have "map_of (concat ls) k = None" by (simp only: map_of_eq_None_iff) simp
      with None show ?thesis by simp
    next
      case (Some v)
      have "k \<notin> fst ` set (concat LA)" using belowD [OF 2(4), of k] by blast
      then have "map_of (concat LA) k = None" by (simp add: map_of_eq_None_iff)
      with Some 2(1) show ?thesis by (simp add: map_add_def)
    qed
    have "Bptree_GetItem kv pb k out t = (let (st1, output1) = BptNode_GetItem k out (loaded_node es n)
        in Inr (st1, output1, loaded p es t))"
      unfolding Bptree_GetItem_def 2(7) by (simp add: hp)
    then show ?thesis
      using that [of _ _ "loaded p es t"] c' m
      by (cases "map_of es k") (simp_all add: BptNode_GetItem_def smap_find_def)
  qed
qed

section \<open>Deletion\<close>

lemma delete_nonempty:
  assumes inv: "tree_inv pb contents t (LA @ es # LC)"
    and rn: "heap t (root t) = Some rn" "children rn = A @ p # C" "length A = length LA"
    and n: "heap t p = Some n" "kvs n = es"
    and key: "below LA k" "above k LC" and left: "smap_erase k es \<noteq> []"
  obtains t' where "delete_ascend k [p, root t] (put p (without_key k n) t) = Inr (C_OK, t')"
    "tree_inv pb contents t' (LA @ smap_erase k es # LC)"
    "storage t' = storage t" "schema t' = schema t" "ctx_id t' = ctx_id t"
proof -
  let ?es = "smap_erase k es"
  from childE [OF inv rn] n obtain h: "leaf_shape (root t) n es" "root_shape (schema t) rn"
    "kvs_ok es" "p \<noteq> root t" by (metis option.inject)
  obtain n1 where n1: "UpdateStatByDelKV k (without_key k n) = Inr n1" "leaf_shape (root t) n1 ?es"
    "kvs n1 = ?es" "node_id n1 = node_id n"
    by (rule del_kv_shape [OF h(1) n(2) kvs_ok_smap [OF h(3)] left])
  let ?t2 = "reg (node_id n) p (put p n1 t)"
  have sp: "spliced pb contents t A [p] C [p] [?es] ?t2"
    by (rule spliced_update [OF inv rn n(1) n1(2-4)])
  have ok: "kvs_ok (concat (LA @ [?es] @ LC))"
    using kvs_ok_erase [OF tree_inv_concat [OF inv]] concat_erase [OF key, of es] by simp
  have inv': "tree_inv pb contents t (LA @ [es] @ LC)" and rn2: "children rn = A @ [p] @ C"
    using inv rn(2) by simp_all
  obtain a b where ab: "heap ?t2 (hd (A @ [p] @ C)) = Some a" "heap ?t2 (last (A @ [p] @ C)) = Some b"
    "length (min_key (stat a)) \<le> max_key_len" "length (max_key (stat b)) \<le> max_key_len"
    by (rule spliced_ends [OF inv' rn(1) rn2 rn(3) _ sp ok]) simp_all
  have rt: "heap ?t2 (root t) = Some rn" "children rn \<noteq> []" using rn h(4) by simp_all
  obtain rn' where rn': "delete_ascend k [root t] ?t2 =
      Inr (C_OK, reg (ts_root_id (schema t)) (root t) (put (root t) rn' ?t2))"
    "root_shape (schema t) rn'" "children rn' = children rn"
    using delete_ascend_root [OF rt(1) h(2) rt(2) ab [folded rn2], of k] .
  let ?t' = "reg (ts_root_id (schema t)) (root t) (put (root t) rn' ?t2)"
  have "tree_inv pb contents ?t' (LA @ [?es] @ LC)"
    by (rule spliced_root [OF inv' rn(1) rn2 rn(3) _ sp _ rn'(2) ok]) (use rn' rn2 in simp_all)
  moreover have "delete_ascend k [p, root t] (put p (without_key k n) t) = Inr (C_OK, ?t')"
    using rn'(1) n1(1,4) CollectUnsaved_reg [of "put p n1 t" p n1] left n(2) h(1)
    by (subst delete_ascend.simps) (simp add: IsEmpty_def leaf_shape_def on_node_def)
  ultimately show ?thesis using that [of ?t'] by simp
qed

lemma delete_emptied:
  assumes inv: "tree_inv pb contents t (LA @ es # LC)"
    and rn: "heap t (root t) = Some rn" "children rn = A @ p # C" "length A = length LA"
    and n: "heap t p = Some n" "kvs n = es"
    and key: "below LA k" "above k LC" and none: "smap_erase k es = []"
  obtains t' where "delete_ascend k [p, root t] (put p (without_key k n) t) = Inr (C_OK, t')"
    "tree_inv pb contents t' (LA @ LC)" "concat (LA @ LC) = smap_erase k (concat (LA @ es # LC))"
    "storage t' = storage t" "schema t' = schema t" "ctx_id t' = ctx_id t"
proof -
  from childE [OF inv rn] n obtain h: "leaf_shape (root t) n es" "root_shape (schema t) rn"
    "p \<noteq> root t" "list_all2 (leaf_ok pb (contents (storage t)) t) (A @ p # C) (LA @ es # LC)"
    by (metis option.inject)
  have cat: "concat (LA @ LC) = smap_erase k (concat (LA @ es # LC))"
    using concat_erase [OF key, of es] none by simp
  have ok: "kvs_ok (concat (LA @ [] @ LC))"
    using kvs_ok_erase [OF tree_inv_concat [OF inv]] cat by simp
  define t1 where "t1 = (put p (without_key k n) t)\<lparr>unsaved := filter (\<lambda>(i, _). i \<noteq> node_id n) (unsaved t)\<rparr>"
  have h1: "heap t1 = (heap t)(p \<mapsto> without_key k n)" by (simp add: t1_def)
  have rt1: "heap t1 (root t) = Some rn" "heap t1 p = Some (without_key k n)"
    using rn(1) h(3) by (simp_all add: h1)
  have mx: "max_key (stat (without_key k n)) = fst (last es)" using h(1) by (simp add: leaf_shape_def)
  have st: "stats_of t rn (LA @ es # LC)" using stats_of_leaves h(4) rn(2) by metis
  then have st1: "stats_of t1 rn (LA @ es # LC)"
    unfolding stats_of_def by (rule list.rel_mono_strong) (use n in \<open>auto simp: h1\<close>)
  have del: "DelChild (root t) p t1 = Inr (put (root t) (rn\<lparr>children := A @ C\<rparr>) t1)"
    by (rule DelChild_this [OF rt1(1) rn(2,3) rt1(2) mx st1 kvs_ok_smap [OF tree_inv_concat [OF inv]]])
  define t2 where "t2 = put (root t) (rn\<lparr>children := A @ C\<rparr>) t1"
  have sp: "spliced pb contents t A [p] C [] [] t2"
    by (rule spliced_remove [OF inv rn n(1), where ?n1.0 = "without_key k n"]) (simp_all add: t2_def t1_def)
  have inv': "tree_inv pb contents t (LA @ [es] @ LC)" and rn2: "children rn = A @ [p] @ C"
    using inv rn(2) by simp_all
  have rt2: "heap t2 (root t) = Some (rn\<lparr>children := A @ C\<rparr>)"
    "root_shape (schema t) (rn\<lparr>children := A @ C\<rparr>)" using h(2) by (simp_all add: t2_def root_shape_def)
  have up: "\<exists>rn'. delete_ascend k [root t] t2 =
      Inr (C_OK, reg (ts_root_id (schema t)) (root t) (put (root t) rn' t2)) \<and>
      root_shape (schema t) rn' \<and> children rn' = A @ [] @ C"
  proof (cases "A @ C = []")
    case True
    with delete_ascend_empty_root(1) [OF rt2, of k] delete_ascend_empty_root(2,3) [OF rt2] show ?thesis by auto
  next
    case False
    then obtain a b where "heap t2 (hd (A @ [] @ C)) = Some a" "heap t2 (last (A @ [] @ C)) = Some b"
      "length (min_key (stat a)) \<le> max_key_len" "length (max_key (stat b)) \<le> max_key_len"
      using spliced_ends [OF inv' rn(1) rn2 rn(3) _ sp ok] by auto
    with False delete_ascend_root [OF rt2, of a b k] show ?thesis by auto
  qed
  then obtain rn' where rn': "delete_ascend k [root t] t2 =
      Inr (C_OK, reg (ts_root_id (schema t)) (root t) (put (root t) rn' t2))"
    "root_shape (schema t) rn'" "children rn' = A @ [] @ C" by blast
  let ?t' = "reg (ts_root_id (schema t)) (root t) (put (root t) rn' t2)"
  have "tree_inv pb contents ?t' (LA @ [] @ LC)"
    by (rule spliced_root [OF inv' rn(1) rn2 rn(3) _ sp rn'(3,2) ok]) simp
  moreover have "delete_ascend k [p, root t] (put p (without_key k n) t) = Inr (C_OK, ?t')"
  proof -
    have "RemoveUnsavedTreeNode p (put p (without_key k n) t) = Inr t1"
      by (simp add: RemoveUnsavedTreeNode_def t1_def)
    then show ?thesis
      using rn'(1) del none n(2) h(1)
      by (subst delete_ascend.simps) (simp add: IsEmpty_def leaf_shape_def t2_def)
  qed
  ultimately show ?thesis using that [of ?t'] cat by (simp add: t2_def t1_def)
qed

text \<open>Deletion from a saved tree always reports \<open>C_OK\<close>; the tree then holds everything but the
  key.\<close>

lemma delete_clean:
  assumes c: "tree_clean pb contents t ls"
  obtains t' ls' where "Bptree_Delete kv pb k t = Inr (C_OK, t')" "tree_inv pb contents t' ls'"
    "concat ls' = smap_erase k (concat ls)" "storage t' = storage t" "schema t' = schema t"
    "ctx_id t' = ctx_id t"
proof -
  have inv: "tree_inv pb contents t ls" using c by (simp add: tree_clean_def)
  then obtain rn where rn: "heap t (root t) = Some rn" by (rule tree_invE)
  show ?thesis
  proof (cases rule: find_descend [OF c rn, of k])
    case 1
    have "Bptree_Delete kv pb k t = Inr (C_OK, t)"
      unfolding Bptree_Delete_def 1(2) by simp
    with that [of t ls] inv smap_erase_absent [OF 1(1)] show ?thesis by simp
  next
    case (2 LA es LC A p C)
    let ?t = "loaded p es t"
    from childE [OF inv [unfolded 2(1)] rn 2(2,3)] obtain n where n: "heap t p = Some n"
      "leaf_shape (root t) n es" by metis
    have hp: "heap ?t p = Some (loaded_node es n)" using n by (simp add: heap_loaded)
    have lf: "is_leaf (loaded_node es n)" using n(2) by (simp add: leaf_shape_def)
    note ld = tree_inv_loaded [OF inv rn 2(2,1,3)]
    have inv1: "tree_inv pb contents ?t (LA @ es # LC)" using ld(1) 2(1) by simp
    have rn1: "heap ?t (root ?t) = Some rn" using ld(2) by simp
    show ?thesis
    proof (cases "k \<in> fst ` set es")
      case False
      then have "k \<notin> fst ` set (concat ls)" using member_leaf [OF 2(4,5), of es] 2(1) by simp
      moreover have "put p (loaded_node es n) ?t = ?t" using n(1) by (simp add: loaded_def)
      then have "Bptree_Delete kv pb k t = Inr (C_OK, ?t)"
        unfolding Bptree_Delete_def 2(6)
        using BptNode_Delete_absent [OF lf, of k] False by (simp add: hp)
      ultimately show ?thesis
        using that [of ?t ls] ld(1) smap_erase_absent [of k "concat ls"] by simp
    next
      case True
      have run: "Bptree_Delete kv pb k t =
          delete_ascend k [p, root ?t] (put p (without_key k (loaded_node es n)) ?t)"
        unfolding Bptree_Delete_def 2(6)
        using BptNode_Delete_there [OF lf, of k] True by (simp add: hp)
      have kn: "kvs (loaded_node es n) = es" by simp
      show ?thesis
      proof (cases "smap_erase k es = []")
        case True
        show ?thesis
          by (rule delete_emptied [OF inv1 rn1 2(2,3) hp kn 2(4,5) True])
            (use that run 2(1) in \<open>auto simp del: concat_append\<close>)
      next
        case False
        show ?thesis
          by (rule delete_nonempty [OF inv1 rn1 2(2,3) hp kn 2(4,5) False])
            (use that run 2(1) concat_erase [OF 2(4,5), of es] in \<open>auto simp del: concat_append\<close>)
      qed
    qed
  qed
qed

end

end
