(* ===== verification/BptSave.thy ===== *)
theory BptSave
  imports BptDelete
begin

text \<open>
  Saving and opening: \<open>PullUnsavedTreeNode\<close> writes every registered node and leaves a saved tree
  with the same entries; the constructor of \<open>Index\<close> rebuilds the tree from what was written
  (\<open>stored_tree\<close>), provided the node counter it is given is not behind the stored ids.
\<close>

section \<open>Saving\<close>

definition ser_at :: "proto_ops \<Rightarrow> 's tree \<Rightarrow> ptr \<Rightarrow> bytes" where
  "ser_at pb t p = (case Serialize pb (the (heap t p)) t of Inr b \<Rightarrow> b | Inl _ \<Rightarrow> [])"

lemma Serialize_storage: "Serialize pb n (t\<lparr>storage := s\<rparr>) = Serialize pb n t"
proof -
  have "deref (t\<lparr>storage := s\<rparr>) = deref t" by (simp add: fun_eq_iff deref_def)
  then show ?thesis by (simp add: Serialize_def)
qed

lemma ser_at_storage: "ser_at pb (t\<lparr>storage := s\<rparr>) = ser_at pb t"
  by (simp add: fun_eq_iff ser_at_def Serialize_storage)

definition write_nodes :: "proto_ops \<Rightarrow> 's tree \<Rightarrow> (u64 \<times> ptr) list \<Rightarrow> (bytes \<rightharpoonup> bytes) \<Rightarrow> (bytes \<rightharpoonup> bytes)" where
  "write_nodes pb t us m = foldl (\<lambda>m (i, p). m(node_key (schema t) i \<mapsto> ser_at pb t p)) m us"

lemma write_nodes_other:
  "(\<And>i p. (i, p) \<in> set us \<Longrightarrow> k \<noteq> node_key (schema t) i) \<Longrightarrow> write_nodes pb t us m k = m k"
proof (induction us arbitrary: m)
  case (Cons u us)
  have "write_nodes pb t us m' k = m' k" for m' by (rule Cons.IH) (use Cons.prems in auto)
  moreover have "k \<noteq> node_key (schema t) (fst u)" using Cons.prems [of "fst u" "snd u"] by simp
  ultimately show ?case by (cases u) (simp add: write_nodes_def)
qed (simp add: write_nodes_def)

lemma write_nodes_hit:
  "distinct (map fst us) \<Longrightarrow> (i, p) \<in> set us \<Longrightarrow>
   write_nodes pb t us m (node_key (schema t) i) = Some (ser_at pb t p)"
proof (induction us arbitrary: m)
  case (Cons u us)
  obtain j q where u: "u = (j, q)" by (cases u)
  show ?case
  proof (cases "(i, p) = (j, q)")
    case True
    have "write_nodes pb t us m' (node_key (schema t) i) = m' (node_key (schema t) i)" for m'
      by (rule write_nodes_other) (use Cons.prems True u in force)
    with True u show ?thesis by (simp add: write_nodes_def)
  next
    case False
    with Cons u show ?thesis by (auto simp: write_nodes_def)
  qed
qed simp

context bpt_env
begin

lemma pull_nodes_ok:
  "(\<And>i p. (i, p) \<in> set us \<Longrightarrow> \<exists>n b. heap t p = Some n \<and> Serialize pb n t = Inr b) \<Longrightarrow>
   \<exists>s'. pull_nodes kv pb us t = Inr (C_OK, t\<lparr>storage := s'\<rparr>) \<and>
        contents s' = write_nodes pb t us (contents (storage t))"
proof (induction us arbitrary: t)
  case Nil
  have "t = t\<lparr>storage := storage t\<rparr>" by simp
  then show ?case by (metis foldl_Nil pull_nodes.simps(1) write_nodes_def)
next
  case (Cons u us)
  obtain i p where u: "u = (i, p)" by (cases u)
  obtain n b where nb: "heap t p = Some n" "Serialize pb n t = Inr b"
    using Cons.prems [of i p] u by auto
  obtain s1 where s1: "PutKV kv (node_key (schema t) i) b (storage t) = Inr (C_OK, s1)"
    "contents s1 = (contents (storage t))(node_key (schema t) i \<mapsto> b)" using PutKV_law by blast
  let ?t1 = "t\<lparr>storage := s1\<rparr>"
  have "\<exists>s'. pull_nodes kv pb us ?t1 = Inr (C_OK, ?t1\<lparr>storage := s'\<rparr>) \<and>
      contents s' = write_nodes pb ?t1 us (contents (storage ?t1))"
    by (rule Cons.IH) (use Cons.prems u in \<open>auto simp: Serialize_storage\<close>)
  then obtain s' where s': "pull_nodes kv pb us ?t1 = Inr (C_OK, t\<lparr>storage := s'\<rparr>)"
    "contents s' = write_nodes pb ?t1 us (contents s1)" by auto
  have "ser_at pb t p = b" using nb by (simp add: ser_at_def)
  with s' s1 nb show ?case
    by (auto simp: u DumpTreeNode_def write_nodes_def ser_at_storage)
qed

text \<open>Saving writes every registered node; the entries of the tree stay what they are.\<close>

lemma save_ok:
  assumes inv: "tree_inv pb contents t ls"
  obtains t' where "PullUnsavedTreeNode kv pb t = Inr t'" "tree_clean pb contents t' ls"
    "schema t' = schema t" "ctx_id t' = ctx_id t" "heap t' = heap t" "root t' = root t"
proof -
  let ?m = "contents (storage t)"
  from inv obtain rn where rn: "heap t (root t) = Some rn" "root_shape (schema t) rn"
    "list_all2 (leaf_ok pb ?m t) (children rn) ls" "root_saved pb ?m t rn"
    "ids_ok ?m t (children rn)" "unsaved_ok t (children rn)" "kvs_ok (concat ls)" by (rule tree_invE)
  have leaf: "\<exists>n es. heap t p = Some n \<and> leaf_shape (root t) n es" if "p \<in> set (children rn)" for p
    using list_all2_in [OF rn(3) that] by (auto simp: leaf_ok_def)
  have der: "mapR (deref t) (children rn) = Inr (map (\<lambda>p. the (heap t p)) (children rn))"
    using leaf by (intro mapR_total) (auto dest!: leaf)
  have serroot: "Serialize pb rn t = Inr (ser_node pb \<lparr>np_id = ts_root_id (schema t),
      np_children = root_refs t (children rn)\<rparr>)"
    using rn(2) der by (simp add: Serialize_def root_shape_def root_refs_def comp_def)
  have serleaf: "Serialize pb n t = Inr (ser_leaf pb (leaf_proto (node_id n) (kvs n)))"
    if "is_leaf n" for n using that by (simp add: Serialize_def)
  have un: "p = root t \<or> p \<in> set (children rn)" "i = id_of t p" if "(i, p) \<in> set (unsaved t)" for i p
    using that rn(6) by (auto simp: unsaved_ok_def)
  have ser: "\<exists>n b. heap t p = Some n \<and> Serialize pb n t = Inr b" if "(i, p) \<in> set (unsaved t)" for i p
    using un(1) [OF that] rn(1) serroot leaf [of p] serleaf by (auto simp: leaf_shape_def)
  obtain s' where s': "pull_nodes kv pb (unsaved t) t = Inr (C_OK, t\<lparr>storage := s'\<rparr>)"
    "contents s' = write_nodes pb t (unsaved t) ?m"
    using pull_nodes_ok [of "unsaved t" t] ser by blast
  let ?t' = "t\<lparr>storage := s', unsaved := []\<rparr>"
  have du: "distinct (map fst (unsaved t))" using rn(6) by (simp add: unsaved_ok_def)
  have hit: "contents s' (node_key (schema t) i) = Some (ser_at pb t p)" if "(i, p) \<in> set (unsaved t)" for i p
    unfolding s'(2) by (rule write_nodes_hit [OF du that])
  have other: "contents s' (node_key (schema t) i) = ?m (node_key (schema t) i)"
    if "\<And>p. (i, p) \<notin> set (unsaved t)" for i
    unfolding s'(2) by (rule write_nodes_other) (use that in auto)
  have same: "q = p" if "(id_of t p, q) \<in> set (unsaved t)" "p \<in> set (root t # children rn)" for p q
  proof -
    from un(1) [OF that(1)] have q: "q \<in> set (root t # children rn)" by auto
    moreover have "id_of t q = id_of t p" using un(2) [OF that(1)] by simp
    moreover have "distinct (map (id_of t) (root t # children rn))"
      using rn(5) id_of_root [OF rn(1,2)] by (simp add: ids_ok_def)
    ultimately show ?thesis using that(2) by (meson distinct_map inj_onD)
  qed
  have "list_all2 (leaf_ok pb (contents s') ?t') (children rn) ls"
  proof (rule list.rel_mono_strong [OF rn(3)])
    fix p es assume p: "p \<in> set (children rn)" and l: "leaf_ok pb ?m t p es"
    from l obtain n where n: "heap t p = Some n" "leaf_shape (root t) n es"
      "leaf_saved pb ?m (schema t) (unsaved t) p n es" by (rule leaf_okE)
    have id: "id_of t p = node_id n" using n(1) by (simp add: id_of_def)
    have "stored_leaf pb (contents s') (schema t) (node_id n) es"
    proof (cases "(node_id n, p) \<in> set (unsaved t)")
      case True
      have "is_leaf n" using n(2) by (simp add: leaf_shape_def)
      then have "ser_at pb t p = ser_leaf pb (leaf_proto (node_id n) (kvs n))"
        using n(1) serleaf by (simp add: ser_at_def)
      with True hit [OF True] n(3) show ?thesis by (simp add: stored_leaf_def leaf_saved_def)
    next
      case False
      have "(node_id n, q) \<notin> set (unsaved t)" for q
        using same [of p q] id p False by auto
      from other [OF this] n(3) False show ?thesis by (simp add: stored_leaf_def leaf_saved_def)
    qed
    with n show "leaf_ok pb (contents s') ?t' p es" by (simp add: leaf_ok_def leaf_saved_def)
  qed
  moreover have "root_saved pb (contents s') ?t' rn"
  proof (cases "(ts_root_id (schema t), root t) \<in> set (unsaved t)")
    case True
    have "ser_at pb t (root t) = ser_node pb \<lparr>np_id = ts_root_id (schema t),
        np_children = root_refs t (children rn)\<rparr>" using rn(1) serroot by (simp add: ser_at_def)
    with hit [OF True] show ?thesis by (simp add: root_saved_def stored_root_def root_refs_def)
  next
    case False
    have "(ts_root_id (schema t), q) \<notin> set (unsaved t)" for q
      using same [of "root t" q] id_of_root [OF rn(1,2)] False by auto
    from other [OF this] rn(4) False show ?thesis
      by (simp add: root_saved_def stored_root_def root_refs_def)
  qed
  moreover have "ids_ok (contents s') ?t' (children rn)"
  proof -
    have "contents s' (node_key (schema t) i) = None" if i: "ctx_id t < i" for i
    proof -
      have "(i, q) \<notin> set (unsaved t)" for q
      proof
        assume q: "(i, q) \<in> set (unsaved t)"
        from un [OF q] rn(5) id_of_root [OF rn(1,2)] have "i \<le> ctx_id t" by (auto simp: ids_ok_def)
        with i show False by simp
      qed
      from other [OF this] rn(5) i show ?thesis by (simp add: ids_ok_def)
    qed
    moreover have "id_of ?t' = id_of t" by (simp add: fun_eq_iff id_of_def)
    ultimately show ?thesis using rn(5) by (simp add: ids_ok_def)
  qed
  ultimately have "tree_clean pb contents ?t' ls"
    using rn by (simp add: tree_clean_def tree_inv_def unsaved_ok_def)
  moreover have "PullUnsavedTreeNode kv pb t = Inr ?t'" by (simp add: PullUnsavedTreeNode_def s'(1))
  ultimately show ?thesis using that [of ?t'] by simp
qed

end

section \<open>What a saved tree leaves in the storage\<close>

definition stored_tree :: "proto_ops \<Rightarrow> (bytes \<rightharpoonup> bytes) \<Rightarrow> tree_schema \<Rightarrow> kvs list \<Rightarrow> bool" where
  "stored_tree pb m sc ls \<longleftrightarrow>
     (\<exists>refs. (stored_root pb m sc refs \<or> refs = [] \<and> m (node_key sc (ts_root_id sc)) = None) \<and>
        list_all2 (\<lambda>r es. rp_type r = LEAF \<and> es \<noteq> [] \<and> sp_min_key (rp_stat r) = fst (hd es) \<and>
          sp_max_key (rp_stat r) = fst (last es) \<and> stored_leaf pb m sc (rp_id r) es) refs ls \<and>
        distinct (ts_root_id sc # map rp_id refs) \<and>
        (\<forall>i \<in> set (ts_root_id sc # map rp_id refs). i \<le> ts_tree_id sc)) \<and>
     (\<forall>i. ts_tree_id sc < i \<longrightarrow> m (node_key sc i) = None) \<and> kvs_ok (concat ls)"

lemma node_key_tree_id [simp]: "node_key (sc\<lparr>ts_tree_id := i\<rparr>) = node_key sc"
  by (simp add: fun_eq_iff node_key_def)

lemma clean_stored:
  assumes "tree_clean pb contents t ls"
  shows "stored_tree pb (contents (storage t)) ((schema t)\<lparr>ts_tree_id := ctx_id t\<rparr>) ls"
proof -
  let ?m = "contents (storage t)"
  from assms have inv: "tree_inv pb contents t ls" and us: "unsaved t = []" by (simp_all add: tree_clean_def)
  from inv obtain rn where rn: "heap t (root t) = Some rn" "root_shape (schema t) rn"
    "list_all2 (leaf_ok pb ?m t) (children rn) ls" "root_saved pb ?m t rn"
    "ids_ok ?m t (children rn)" "kvs_ok (concat ls)" by (rule tree_invE)
  let ?refs = "root_refs t (children rn)"
  have leaf: "\<exists>n es. heap t p = Some n \<and> leaf_shape (root t) n es" if "p \<in> set (children rn)" for p
    using list_all2_in [OF rn(3) that] by (auto simp: leaf_ok_def)
  have ids: "map rp_id ?refs = map (id_of t) (children rn)"
    using leaf by (fastforce simp: root_refs_def NodeRef_def id_of_def)
  have "list_all2 (\<lambda>r es. rp_type r = LEAF \<and> es \<noteq> [] \<and> sp_min_key (rp_stat r) = fst (hd es) \<and>
      sp_max_key (rp_stat r) = fst (last es) \<and> stored_leaf pb ?m (schema t) (rp_id r) es) ?refs ls"
    unfolding root_refs_def list_all2_map1
    by (rule list.rel_mono_strong [OF rn(3)])
      (auto simp: leaf_ok_def leaf_shape_def leaf_saved_def NodeRef_def us)
  moreover have "stored_root pb ?m (schema t) ?refs \<or> ?refs = [] \<and> ?m (node_key (schema t) (ts_root_id (schema t))) = None"
    using rn(4) us by (auto simp: root_saved_def root_refs_def)
  ultimately show ?thesis
    using rn(5,6) unfolding stored_tree_def
    by (intro conjI exI [of _ ?refs]) (simp_all only: ids, simp_all add: ids_ok_def stored_leaf_def stored_root_def)
qed

section \<open>Opening\<close>

lemma create_refs_result:
  "create_refs par rs t = (ps, t') \<Longrightarrow>
   ps = [next_ptr t..<next_ptr t + length rs] \<and>
   heap t' = (\<lambda>p. if next_ptr t \<le> p \<and> p < next_ptr t + length rs
     then Some (BptNode_ref par (rs ! (p - next_ptr t))) else heap t p) \<and>
   next_ptr t' = next_ptr t + length rs \<and> unsaved t' = unsaved t \<and> ctx_id t' = ctx_id t \<and>
   schema t' = schema t \<and> storage t' = storage t \<and> root t' = root t"
proof (induction rs arbitrary: t ps t')
  case (Cons r rs)
  let ?t1 = "(put (next_ptr t) (BptNode_ref par r) t)\<lparr>next_ptr := next_ptr t + 1\<rparr>"
  obtain ps1 where ps1: "create_refs par rs ?t1 = (ps1, t')" "ps = next_ptr t # ps1"
    using Cons.prems by (auto simp: create_node_def Let_def split: prod.splits)
  from Cons.IH [OF ps1(1)] ps1(2) show ?case
    by (auto simp: fun_eq_iff nth_Cons' upt_rec)
qed (auto simp: fun_eq_iff)

context bpt_env
begin

lemma open_ok:
  assumes st: "stored_tree pb (contents s) sc ls"
  obtains t where "open_index kv pb sc s = Inr t" "tree_clean pb contents t ls"
    "schema t = sc" "storage t = s" "ctx_id t = ts_tree_id sc"
proof -
  let ?m = "contents s"
  from st obtain refs where refs: "stored_root pb ?m sc refs \<or> refs = [] \<and> ?m (node_key sc (ts_root_id sc)) = None"
    "list_all2 (\<lambda>r es. rp_type r = LEAF \<and> es \<noteq> [] \<and> sp_min_key (rp_stat r) = fst (hd es) \<and>
      sp_max_key (rp_stat r) = fst (last es) \<and> stored_leaf pb ?m sc (rp_id r) es) refs ls"
    "distinct (ts_root_id sc # map rp_id refs)"
    "\<forall>i \<in> set (ts_root_id sc # map rp_id refs). i \<le> ts_tree_id sc"
    and fresh: "\<forall>i. ts_tree_id sc < i \<longrightarrow> ?m (node_key sc i) = None" and ok: "kvs_ok (concat ls)"
    unfolding stored_tree_def by blast
  define rn where "rn = \<lparr>node_id = ts_root_id sc, is_loaded = True, is_leaf = False, is_root = True,
    parent = None, children = [], kvs = [], write_kvs = Map.empty, stat = root_stat []\<rparr>"
  define t1 where "t1 = \<lparr>heap = [0 \<mapsto> rn], next_ptr = 1, unsaved = [], ctx_id = ts_tree_id sc,
    schema = sc, storage = s, root = 0\<rparr>"
  define t2 where "t2 = snd (create_refs 0 refs t1)"
  define ps where "ps = [1..<1 + length refs]"
  have cr: "create_refs 0 refs t1 = (ps, t2)"
    and t2: "heap t2 = (\<lambda>p. if 1 \<le> p \<and> p < 1 + length refs then Some (BptNode_ref 0 (refs ! (p - 1))) else heap t1 p)"
      "next_ptr t2 = 1 + length refs" "unsaved t2 = []" "ctx_id t2 = ts_tree_id sc" "schema t2 = sc"
      "storage t2 = s" "root t2 = 0"
  proof -
    obtain qs where q: "create_refs 0 refs t1 = (qs, t2)" unfolding t2_def by (metis prod.collapse)
    have n1: "next_ptr t1 = 1" "unsaved t1 = []" "ctx_id t1 = ts_tree_id sc" "schema t1 = sc"
      "storage t1 = s" "root t1 = 0" by (simp_all add: t1_def)
    note r = create_refs_result [OF q, unfolded n1]
    from q r show "create_refs 0 refs t1 = (ps, t2)" unfolding ps_def by blast
    from r show "heap t2 = (\<lambda>p. if 1 \<le> p \<and> p < 1 + length refs then Some (BptNode_ref 0 (refs ! (p - 1))) else heap t1 p)"
      "next_ptr t2 = 1 + length refs" "unsaved t2 = []" "ctx_id t2 = ts_tree_id sc" "schema t2 = sc"
      "storage t2 = s" "root t2 = 0" by blast+
  qed
  define t where "t = put 0 (rn\<lparr>children := ps\<rparr>) t2"
  have op: "open_index kv pb sc s = Inr t"
  proof (cases "refs = [] \<and> ?m (node_key sc (ts_root_id sc)) = None")
    case True
    then have "t = t1" using cr by (simp add: t_def t2_def ps_def t1_def put_def rn_def)
    with True show ?thesis
      by (simp add: open_index_def BptNode_root_def create_node_def Let_def LoadTreeNode_def GetKV_miss)
        (simp add: t1_def rn_def put_def)
  next
    case False
    with refs(1) have g: "?m (node_key sc (ts_root_id sc)) =
        Some (ser_node pb \<lparr>np_id = ts_root_id sc, np_children = refs\<rparr>)" by (auto simp: stored_root_def)
    have b: "BptNode_root \<lparr>np_id = ts_root_id sc, np_children = []\<rparr>
        \<lparr>heap = Map.empty, next_ptr = 0, unsaved = [], ctx_id = ts_tree_id sc, schema = sc, storage = s, root = 0\<rparr>
        = (0, t1)"
      by (simp add: BptNode_root_def create_node_def Let_def t1_def rn_def put_def)
    have "Deserialize pb (ser_node pb \<lparr>np_id = ts_root_id sc, np_children = refs\<rparr>) 0 t1 =
        Inr (C_OK, t)"
      using cr by (simp add: Deserialize_def t1_def rn_def t_def)
    moreover have "storage t1 = s" by (simp add: t1_def)
    moreover have "t\<lparr>root := 0\<rparr> = t" using t2(7) by (simp add: t_def put_def)
    ultimately show ?thesis
      unfolding open_index_def Let_def b by (simp add: LoadTreeNode_def GetKV_hit [OF g])
  qed
  have hp: "heap t (ps ! i) = Some (BptNode_ref 0 (refs ! i))" if "i < length refs" for i
  proof -
    have "ps ! i = 1 + i" unfolding ps_def using that by (subst nth_upt) simp_all
    with that show ?thesis by (simp add: t_def t2(1))
  qed
  have lp: "length ps = length refs" unfolding ps_def by (simp del: upt_Suc)
  have tf: "unsaved t = []" "schema t = sc" "storage t = s" "root t = 0" "ctx_id t = ts_tree_id sc"
    "next_ptr t = 1 + length refs" "heap t 0 = Some (rn\<lparr>children := ps\<rparr>)"
    by (simp_all add: t_def t2)
  have ids: "map (id_of t) ps = map rp_id refs"
    using lp hp by (intro nth_equalityI) (simp_all add: id_of_def BptNode_ref_def)
  have rr: "root_refs t ps = refs" if "\<forall>r \<in> set refs. rp_type r = LEAF"
    using lp hp that by (intro nth_equalityI) (simp_all add: root_refs_def NodeRef_def BptNode_ref_def)
  have leaf: "\<forall>r \<in> set refs. rp_type r = LEAF"
    using refs(2) by (auto simp: list_all2_conv_all_nth in_set_conv_nth)
  have "list_all2 (leaf_ok pb ?m t) ps ls"
    using refs(2) lp hp tf
    by (auto simp: list_all2_conv_all_nth leaf_ok_def leaf_shape_def leaf_saved_def BptNode_ref_def)
  moreover have "root_shape sc (rn\<lparr>children := ps\<rparr>)"
    by (simp add: root_shape_def rn_def root_stat_def len64_def)
  moreover have "root_saved pb ?m t (rn\<lparr>children := ps\<rparr>)"
    using refs(1) rr [OF leaf] tf by (auto simp: root_saved_def ps_def)
  moreover have "ids_ok ?m t ps"
    unfolding ids_ok_def ids tf using refs(3,4) fresh tf(6)
    by (auto simp: t_def t2(1) t1_def split: if_splits)
  ultimately have "tree_clean pb contents t ls"
    using ok tf by (simp add: tree_clean_def tree_inv_def unsaved_ok_def)
  with op tf that show ?thesis by blast
qed

end

end
