(* ===== verification/BptSession.thy ===== *)
theory BptSession
  imports BptSave
begin

text \<open>
  The life of an index tree as a step relation: operations on an open tree, each followed by a
  save, and closing and opening it again. Its specification is a map; the theorems say that the
  tree simulates the map, from an empty storage on and over any number of operations.
\<close>

section \<open>The steps\<close>

datatype tree_op = Op_Insert bytes bytes | Op_Delete bytes | Op_Get bytes | Op_Reopen

datatype tree_out = Out status | Out_value status bytes

text \<open>A reopened tree gets the node counter the closed one had, as \<open>Index::Insert\<close> and
  \<open>Index::Delete\<close> put it into \<open>max_tree_node_id\<close>.\<close>

inductive session_step ::
    "'s kv_api \<Rightarrow> proto_ops \<Rightarrow> 's tree \<Rightarrow> tree_op \<Rightarrow> tree_out \<Rightarrow> 's tree \<Rightarrow> bool"
  for kv pb where
  Insert: "Bptree_Insert kv pb k v t = Inr (st, t1) \<Longrightarrow> Index_Save kv pb t1 = Inr (C_OK, t2) \<Longrightarrow>
    session_step kv pb t (Op_Insert k v) (Out st) t2"
| Delete: "Bptree_Delete kv pb k t = Inr (st, t1) \<Longrightarrow> Index_Save kv pb t1 = Inr (C_OK, t2) \<Longrightarrow>
    session_step kv pb t (Op_Delete k) (Out st) t2"
| Get: "Bptree_GetItem kv pb k [] t = Inr (st, v, t1) \<Longrightarrow>
    session_step kv pb t (Op_Get k) (Out_value st v) t1"
| Reopen: "open_index kv pb ((schema t)\<lparr>ts_tree_id := MaxNodeID t\<rparr>) (storage t) = Inr t1 \<Longrightarrow>
    session_step kv pb t Op_Reopen (Out C_OK) t1"

inductive_cases InsertE: "session_step kv pb t (Op_Insert k v) out t'"
inductive_cases DeleteE: "session_step kv pb t (Op_Delete k) out t'"
inductive_cases GetE: "session_step kv pb t (Op_Get k) out t'"
inductive_cases ReopenE: "session_step kv pb t Op_Reopen out t'"

inductive session_run ::
    "'s kv_api \<Rightarrow> proto_ops \<Rightarrow> 's tree \<Rightarrow> tree_op list \<Rightarrow> tree_out list \<Rightarrow> 's tree \<Rightarrow> bool"
  for kv pb where
  Done: "session_run kv pb t [] [] t"
| More: "session_step kv pb t op out t1 \<Longrightarrow> session_run kv pb t1 ops outs t2 \<Longrightarrow>
    session_run kv pb t (op # ops) (out # outs) t2"

inductive_simps session_run_simps:
  "session_run kv pb t [] outs t'" "session_run kv pb t (op # ops) outs t'"

text \<open>The specification. An absent key is reported by either of two statuses.\<close>

inductive map_step :: "(bytes \<rightharpoonup> bytes) \<Rightarrow> tree_op \<Rightarrow> tree_out \<Rightarrow> (bytes \<rightharpoonup> bytes) \<Rightarrow> bool" where
  insert_new: "m k = None \<Longrightarrow> map_step m (Op_Insert k v) (Out C_OK) (m(k \<mapsto> v))"
| insert_dup: "m k = Some w \<Longrightarrow> map_step m (Op_Insert k v) (Out C_BPTREE_DUPLICATE_KEY) m"
| delete: "map_step m (Op_Delete k) (Out C_OK) (m(k := None))"
| get_hit: "m k = Some v \<Longrightarrow> map_step m (Op_Get k) (Out_value C_OK v) m"
| get_miss: "m k = None \<Longrightarrow> st \<in> {C_STORAGE_KV_NOT_FOUND, C_BPTREE_ERROR} \<Longrightarrow>
    map_step m (Op_Get k) (Out_value st []) m"
| reopen: "map_step m Op_Reopen (Out C_OK) m"

inductive map_run :: "(bytes \<rightharpoonup> bytes) \<Rightarrow> tree_op list \<Rightarrow> tree_out list \<Rightarrow> (bytes \<rightharpoonup> bytes) \<Rightarrow> bool" where
  Done: "map_run m [] [] m"
| More: "map_step m op out m1 \<Longrightarrow> map_run m1 ops outs m2 \<Longrightarrow> map_run m (op # ops) (out # outs) m2"

inductive_simps map_step_simps:
  "map_step m (Op_Insert k v) out m'" "map_step m (Op_Delete k) out m'"
  "map_step m (Op_Get k) out m'" "map_step m Op_Reopen out m'"

inductive_simps map_run_simps:
  "map_run m [] outs m'" "map_run m (op # ops) outs m'"

text \<open>Keys and values the tree is made for, and the room the counters have left.\<close>

fun op_ok :: "tree_op \<Rightarrow> bool" where
  "op_ok (Op_Insert k v) = (length k \<le> max_key_len \<and> length v < 2 ^ 32)"
| "op_ok _ = True"

definition has_room :: "'s tree \<Rightarrow> kvs list \<Rightarrow> nat \<Rightarrow> bool" where
  "has_room t ls n \<longleftrightarrow> unat (ctx_id t) + n < 2 ^ 64 \<and> length (concat ls) + n + 1 < 2 ^ 64"

lemma unat_inc: "unat (i :: u64) + 1 < 2 ^ 64 \<Longrightarrow> unat (i + 1) = unat i + 1"
  by (simp add: unat_word_ariths)

lemma length_erase_le: "length (smap_erase k m) \<le> length m"
  by (induction k m rule: smap_erase.induct) auto

lemma map_of_concat_find: "map_of es k = None \<longleftrightarrow> k \<notin> fst ` set es"
  by (simp add: map_of_eq_None_iff)

context bpt_env
begin

text \<open>One operation: it can be executed, and every execution simulates a step of the map.\<close>

lemma sim_insert:
  assumes c: "tree_clean pb contents t ls" and op: "op_ok (Op_Insert k v)" and room: "has_room t ls (Suc n)"
  shows "\<exists>st t1 t' ls'. Bptree_Insert kv pb k v t = Inr (st, t1) \<and> Index_Save kv pb t1 = Inr (C_OK, t') \<and>
    tree_clean pb contents t' ls' \<and> has_room t' ls' n \<and>
    map_step (map_of (concat ls)) (Op_Insert k v) (Out st) (map_of (concat ls'))"
proof -
  have safe: "tree_safe pb contents t ls" by (rule clean_safe [OF c])
  have inv: "tree_inv pb contents t ls" using c by (simp add: tree_clean_def)
  have ok: "smap_ok (concat ls)" by (rule kvs_ok_smap [OF tree_inv_concat [OF inv]])
  show ?thesis
  proof (cases "k \<in> fst ` set (concat ls)")
    case True
    obtain t1 where t1: "Bptree_Insert kv pb k v t = Inr (C_BPTREE_DUPLICATE_KEY, t1)"
      "tree_safe pb contents t1 ls" "storage t1 = storage t" "schema t1 = schema t"
      "ctx_id t1 = ctx_id t" "unsaved t1 = unsaved t" by (rule insert_dup [OF safe True])
    then have "tree_inv pb contents t1 ls" by (simp add: tree_safe_def)
    then obtain t' where t': "PullUnsavedTreeNode kv pb t1 = Inr t'" "tree_clean pb contents t' ls"
      "schema t' = schema t1" "ctx_id t' = ctx_id t1" "heap t' = heap t1" "root t' = root t1" by (rule save_ok)
    from True obtain w where "map_of (concat ls) k = Some w"
      by (metis map_of_concat_find not_Some_eq)
    then have "map_step (map_of (concat ls)) (Op_Insert k v) (Out C_BPTREE_DUPLICATE_KEY) (map_of (concat ls))"
      by (rule map_step.insert_dup)
    moreover have "Index_Save kv pb t1 = Inr (C_OK, t')" using t'(1) by (simp add: Index_Save_def)
    moreover have "has_room t' ls n" using room t1(5) t'(4) by (simp add: has_room_def)
    ultimately show ?thesis using t1(1) t'(2) by blast
  next
    case False
    have kv: "length k \<le> max_key_len" "length v < 2 ^ 32" using op by simp_all
    have lim: "unat (ctx_id t) < 2 ^ 64 - 1" "length (concat ls) < 2 ^ 64 - 2"
      using room by (simp_all add: has_room_def)
    obtain t1 ls' where t1: "Bptree_Insert kv pb k v t = Inr (C_OK, t1)" "tree_inv pb contents t1 ls'"
      "concat ls' = smap_emplace k v (concat ls)" "storage t1 = storage t" "schema t1 = schema t"
      "ctx_id t1 = ctx_id t \<or> ctx_id t1 = ctx_id t + 1"
      by (rule insert_new [OF safe False kv lim])
    obtain t' where t': "PullUnsavedTreeNode kv pb t1 = Inr t'" "tree_clean pb contents t' ls'"
      "schema t' = schema t1" "ctx_id t' = ctx_id t1" "heap t' = heap t1" "root t' = root t1" by (rule save_ok [OF t1(2)])
    have none: "map_of (concat ls) k = None" using False by (simp add: map_of_eq_None_iff)
    have "map_of (concat ls') = (map_of (concat ls))(k \<mapsto> v)"
      using map_of_emplace [OF ok, of k v] none by (simp add: t1(3))
    with map_step.insert_new [where m = "map_of (concat ls)" and k = k and v = v, OF none]
    have "map_step (map_of (concat ls)) (Op_Insert k v) (Out C_OK) (map_of (concat ls'))" by simp
    moreover have "has_room t' ls' n"
    proof -
      have "unat (ctx_id t + 1) = unat (ctx_id t) + 1"
        by (rule unat_inc) (use room in \<open>simp add: has_room_def\<close>)
      then have "unat (ctx_id t') \<le> unat (ctx_id t) + 1" using t1(6) t'(4) by auto
      moreover have "length (concat ls') = Suc (length (concat ls))"
        using length_emplace [OF False, of v] by (simp add: t1(3))
      ultimately show ?thesis using room by (simp add: has_room_def)
    qed
    moreover have "Index_Save kv pb t1 = Inr (C_OK, t')" using t'(1) by (simp add: Index_Save_def)
    ultimately show ?thesis using t1(1) t'(2) by blast
  qed
qed

lemma sim_delete:
  assumes c: "tree_clean pb contents t ls" and room: "has_room t ls (Suc n)"
  shows "\<exists>t1 t' ls'. Bptree_Delete kv pb k t = Inr (C_OK, t1) \<and> Index_Save kv pb t1 = Inr (C_OK, t') \<and>
    tree_clean pb contents t' ls' \<and> has_room t' ls' n \<and>
    map_of (concat ls') = (map_of (concat ls))(k := None)"
proof -
  have inv: "tree_inv pb contents t ls" using c by (simp add: tree_clean_def)
  have ok: "smap_ok (concat ls)" by (rule kvs_ok_smap [OF tree_inv_concat [OF inv]])
  obtain t1 ls' where t1: "Bptree_Delete kv pb k t = Inr (C_OK, t1)" "tree_inv pb contents t1 ls'"
    "concat ls' = smap_erase k (concat ls)" "storage t1 = storage t" "schema t1 = schema t"
    "ctx_id t1 = ctx_id t" by (rule delete_clean [OF c])
  obtain t' where t': "PullUnsavedTreeNode kv pb t1 = Inr t'" "tree_clean pb contents t' ls'"
    "schema t' = schema t1" "ctx_id t' = ctx_id t1" "heap t' = heap t1" "root t' = root t1" by (rule save_ok [OF t1(2)])
  have "map_of (concat ls') = (map_of (concat ls))(k := None)" by (simp add: t1(3) map_of_erase [OF ok])
  moreover have "has_room t' ls' n"
    using room length_erase_le [of k "concat ls"] t1(6) t'(4) by (simp add: has_room_def t1(3))
  moreover have "Index_Save kv pb t1 = Inr (C_OK, t')" using t'(1) by (simp add: Index_Save_def)
  ultimately show ?thesis using t1(1) t'(2) by blast
qed

lemma sim_reopen:
  assumes c: "tree_clean pb contents t ls" and room: "has_room t ls (Suc n)"
  shows "\<exists>t'. open_index kv pb ((schema t)\<lparr>ts_tree_id := MaxNodeID t\<rparr>) (storage t) = Inr t' \<and>
    tree_clean pb contents t' ls \<and> has_room t' ls n"
proof -
  have "stored_tree pb (contents (storage t)) ((schema t)\<lparr>ts_tree_id := MaxNodeID t\<rparr>) ls"
    using clean_stored [OF c] by (simp add: MaxNodeID_def)
  from open_ok [OF this] obtain t' where t':
    "open_index kv pb ((schema t)\<lparr>ts_tree_id := MaxNodeID t\<rparr>) (storage t) = Inr t'"
    "tree_clean pb contents t' ls" "ctx_id t' = ts_tree_id ((schema t)\<lparr>ts_tree_id := MaxNodeID t\<rparr>)" by blast
  from t'(3) have "ctx_id t' = ctx_id t" by (simp add: MaxNodeID_def)
  then have "has_room t' ls n" using room by (simp add: has_room_def)
  with t' show ?thesis by blast
qed

lemma sim_step:
  assumes c: "tree_clean pb contents t ls" and op: "op_ok op" and room: "has_room t ls (Suc n)"
  shows "\<exists>out t'. session_step kv pb t op out t'"
    "session_step kv pb t op out t' \<Longrightarrow> \<exists>ls'. tree_clean pb contents t' ls' \<and> has_room t' ls' n \<and>
       map_step (map_of (concat ls)) op out (map_of (concat ls'))"
proof -
  have "\<exists>out t' ls'. session_step kv pb t op out t' \<and>
      (\<forall>out1 t1. session_step kv pb t op out1 t1 \<longrightarrow> out1 = out \<and> t1 = t') \<and>
      tree_clean pb contents t' ls' \<and> has_room t' ls' n \<and>
      map_step (map_of (concat ls)) op out (map_of (concat ls'))"
  proof (cases op)
    case (Op_Insert k v)
    from sim_insert [OF c op [unfolded Op_Insert] room] obtain st t1 t' ls' where
      *: "Bptree_Insert kv pb k v t = Inr (st, t1)" "Index_Save kv pb t1 = Inr (C_OK, t')"
      "tree_clean pb contents t' ls'" "has_room t' ls' n"
      "map_step (map_of (concat ls)) (Op_Insert k v) (Out st) (map_of (concat ls'))" by blast
    have "session_step kv pb t op (Out st) t'" unfolding Op_Insert by (rule session_step.Insert [OF *(1,2)])
    moreover have "out1 = Out st \<and> t2 = t'" if "session_step kv pb t op out1 t2" for out1 t2
      using that *(1,2) unfolding Op_Insert by (auto elim!: InsertE)
    ultimately show ?thesis using *(3-5) Op_Insert by blast
  next
    case (Op_Delete k)
    from sim_delete [OF c room, of k] obtain t1 t' ls' where
      *: "Bptree_Delete kv pb k t = Inr (C_OK, t1)" "Index_Save kv pb t1 = Inr (C_OK, t')"
      "tree_clean pb contents t' ls'" "has_room t' ls' n"
      "map_of (concat ls') = (map_of (concat ls))(k := None)" by blast
    have "session_step kv pb t op (Out C_OK) t'" unfolding Op_Delete by (rule session_step.Delete [OF *(1,2)])
    moreover have "out1 = Out C_OK \<and> t2 = t'" if "session_step kv pb t op out1 t2" for out1 t2
      using that *(1,2) unfolding Op_Delete by (auto elim!: DeleteE)
    moreover have "map_step (map_of (concat ls)) op (Out C_OK) (map_of (concat ls'))"
      unfolding Op_Delete *(5) by (rule map_step.delete)
    ultimately show ?thesis using *(3,4) by blast
  next
    case (Op_Get k)
    obtain st v t' where *: "Bptree_GetItem kv pb k [] t = Inr (st, v, t')" "tree_clean pb contents t' ls"
      "storage t' = storage t" "schema t' = schema t" "ctx_id t' = ctx_id t"
      "case map_of (concat ls) k of Some w \<Rightarrow> st = C_OK \<and> v = w
       | None \<Rightarrow> st \<in> {C_STORAGE_KV_NOT_FOUND, C_BPTREE_ERROR} \<and> v = []"
      by (rule get_clean [OF c, of k "[]"])
    have "session_step kv pb t op (Out_value st v) t'" unfolding Op_Get by (rule session_step.Get [OF *(1)])
    moreover have "out1 = Out_value st v \<and> t2 = t'" if "session_step kv pb t op out1 t2" for out1 t2
      using that *(1) unfolding Op_Get by (auto elim!: GetE)
    moreover have "map_step (map_of (concat ls)) op (Out_value st v) (map_of (concat ls))"
      using *(6) unfolding Op_Get by (auto split: option.splits intro: map_step.intros)
    moreover have "has_room t' ls n" using room *(5) by (simp add: has_room_def)
    ultimately show ?thesis using *(2) by blast
  next
    case Op_Reopen
    from sim_reopen [OF c room] obtain t' where
      *: "open_index kv pb ((schema t)\<lparr>ts_tree_id := MaxNodeID t\<rparr>) (storage t) = Inr t'"
      "tree_clean pb contents t' ls" "has_room t' ls n" by blast
    have "session_step kv pb t op (Out C_OK) t'" unfolding Op_Reopen by (rule session_step.Reopen [OF *(1)])
    moreover have "out1 = Out C_OK \<and> t2 = t'" if "session_step kv pb t op out1 t2" for out1 t2
      using that *(1) unfolding Op_Reopen by (auto elim!: ReopenE)
    moreover have "map_step (map_of (concat ls)) op (Out C_OK) (map_of (concat ls))"
      unfolding Op_Reopen by (rule map_step.reopen)
    ultimately show ?thesis using *(2,3) by blast
  qed
  then show "\<exists>out t'. session_step kv pb t op out t'"
    "session_step kv pb t op out t' \<Longrightarrow> \<exists>ls'. tree_clean pb contents t' ls' \<and> has_room t' ls' n \<and>
       map_step (map_of (concat ls)) op out (map_of (concat ls'))" by blast+
qed

lemma sim_run:
  assumes "tree_clean pb contents t ls" "\<forall>op \<in> set ops. op_ok op" "has_room t ls (length ops)"
  shows "\<exists>outs t' ls'. session_run kv pb t ops outs t' \<and> tree_clean pb contents t' ls' \<and>
    map_run (map_of (concat ls)) ops outs (map_of (concat ls'))"
  using assms
proof (induction ops arbitrary: t ls)
  case Nil
  then show ?case by (auto simp: session_run_simps intro: map_run.Done)
next
  case (Cons op ops)
  have op: "op_ok op" and room: "has_room t ls (Suc (length ops))" using Cons.prems by simp_all
  obtain out t1 where s: "session_step kv pb t op out t1"
    using sim_step(1) [OF Cons.prems(1) op room] by blast
  from sim_step(2) [OF Cons.prems(1) op room s] obtain ls1 where
    ls1: "tree_clean pb contents t1 ls1" "has_room t1 ls1 (length ops)"
    "map_step (map_of (concat ls)) op out (map_of (concat ls1))" by blast
  have "\<exists>outs t' ls'. session_run kv pb t1 ops outs t' \<and> tree_clean pb contents t' ls' \<and>
      map_run (map_of (concat ls1)) ops outs (map_of (concat ls'))"
    by (rule Cons.IH [OF ls1(1) _ ls1(2)]) (use Cons.prems in simp)
  with s ls1(3) show ?case by (meson session_run.More map_run.More)
qed

lemma sim_run_all:
  assumes "session_run kv pb t ops outs t'"
  shows "tree_clean pb contents t ls \<Longrightarrow> \<forall>op \<in> set ops. op_ok op \<Longrightarrow> has_room t ls (length ops) \<Longrightarrow>
    \<exists>ls'. tree_clean pb contents t' ls' \<and> map_run (map_of (concat ls)) ops outs (map_of (concat ls'))"
  using assms
proof (induction arbitrary: ls rule: session_run.induct)
  case (Done t)
  then show ?case by (auto intro: map_run.Done)
next
  case (More t op out t1 ops outs t2)
  have op: "op_ok op" and room: "has_room t ls (Suc (length ops))" using More.prems by simp_all
  from sim_step(2) [OF More.prems(1) op room More.hyps(1)] obtain ls1 where
    ls1: "tree_clean pb contents t1 ls1" "has_room t1 ls1 (length ops)"
    "map_step (map_of (concat ls)) op out (map_of (concat ls1))" by blast
  from More.IH [OF ls1(1) _ ls1(2)] More.prems obtain ls' where
    "tree_clean pb contents t2 ls'" "map_run (map_of (concat ls1)) ops outs (map_of (concat ls'))" by auto
  with ls1(3) show ?case by (meson map_run.More)
qed

end

end
