(* ===== verification/BptScan.thy ===== *)
theory BptScan
  imports BptIterator BptSession
begin

text \<open>
  What a range scan of a saved tree returns: the entries of the tree inside the range, in order,
  page by page. The range is the one the code tests (\<open>in_scan\<close>), which depends on
  \<open>lower_open\<close> at both ends.
\<close>

section \<open>The range\<close>

definition from_lower :: "iter_opts \<Rightarrow> bytes \<Rightarrow> bool" where
  "from_lower opts k = (if lower_open opts then it_lower opts < k else it_lower opts \<le> k)"

definition past_upper :: "iter_opts \<Rightarrow> bytes \<Rightarrow> bool" where
  "past_upper opts k = (if lower_open opts then it_upper opts < k else it_upper opts \<le> k)"

definition in_scan :: "iter_opts \<Rightarrow> bytes \<times> bytes \<Rightarrow> bool" where
  "in_scan opts kv \<longleftrightarrow> from_lower opts (fst kv) \<and> \<not> past_upper opts (fst kv)"

definition until_upper :: "iter_opts \<Rightarrow> kvs \<Rightarrow> kvs" where
  "until_upper opts m = takeWhile (\<lambda>kv. \<not> past_upper opts (fst kv)) m"

lemma past_upper_mono: "past_upper opts k \<Longrightarrow> k \<le> k' \<Longrightarrow> past_upper opts k'"
  by (auto simp: past_upper_def split: if_splits)

lemma from_lower_mono: "from_lower opts k \<Longrightarrow> k \<le> k' \<Longrightarrow> from_lower opts k'"
  by (auto simp: from_lower_def split: if_splits)

lemma until_upper_filter:
  "smap_ok m \<Longrightarrow> until_upper opts m = filter (\<lambda>kv. \<not> past_upper opts (fst kv)) m"
proof (induction m)
  case (Cons e m)
  have "filter (\<lambda>kv. \<not> past_upper opts (fst kv)) m = []" if "past_upper opts (fst e)"
    using that Cons.prems past_upper_mono [of opts "fst e"] by (fastforce simp: filter_empty_conv less_imp_le)
  with Cons show ?case by (simp add: until_upper_def)
qed (simp add: until_upper_def)

lemma dropWhile_filter:
  assumes "smap_ok m" "\<And>k k'. P k \<Longrightarrow> k \<le> k' \<Longrightarrow> P k'"
  shows "dropWhile (\<lambda>(k, _). \<not> P k) m = filter (\<lambda>kv. P (fst kv)) m"
  using assms(1)
proof (induction m)
  case (Cons e m)
  have "\<forall>x \<in> set m. P (fst x)" if "P (fst e)"
    using that Cons.prems assms(2) by (auto intro: less_imp_le)
  with Cons show ?case by (cases e) (auto simp: filter_id_conv)
qed simp

lemma start_of_scan:
  "smap_ok m \<Longrightarrow> (if lower_open opts then smap_upper_bound (it_lower opts) m
     else smap_lower_bound (it_lower opts) m) = filter (\<lambda>kv. from_lower opts (fst kv)) m"
  using dropWhile_filter [of m "from_lower opts"] from_lower_mono [of opts]
  by (auto simp: smap_upper_bound_def smap_lower_bound_def from_lower_def not_less not_le)

section \<open>The searches, read on the leaves\<close>

lemma pos_gt_below:
  "smap_ok (concat ls) \<Longrightarrow> kv \<in> set (concat (take (pos_gt key ls) ls)) \<Longrightarrow> fst kv \<le> key"
proof (induction ls)
  case (Cons es ls)
  show ?case
  proof (cases "fst (last es) \<le> key")
    case True
    have ok: "smap_ok es" "smap_ok (concat ls)" using Cons.prems(1) by (simp_all add: sorted_wrt_append)
    from True Cons.prems(2) have "kv \<in> set es \<or> kv \<in> set (concat (take (pos_gt key ls) ls))"
      by (auto simp: pos_gt_def)
    then show ?thesis
    proof
      assume "kv \<in> set es"
      then have "fst kv \<le> fst (last es)" using key_le_last [OF ok(1)] by (metis prod.collapse)
      with True show ?thesis by simp
    qed (rule Cons.IH [OF ok(2)])
  next
    case False
    with Cons.prems show ?thesis by (simp add: pos_gt_def)
  qed
qed simp

definition pos_lower :: "iter_opts \<Rightarrow> kvs list \<Rightarrow> nat" where
  "pos_lower opts ls = length (takeWhile (\<lambda>es. \<not> from_lower opts (fst (last es))) ls)"

lemma pos_lower_cases:
  "pos_lower opts ls = (if lower_open opts then pos_gt (it_lower opts) ls else pos_ge (it_lower opts) ls)"
  by (simp add: pos_lower_def pos_gt_def pos_ge_def from_lower_def not_less not_le)

lemma pos_lower_before:
  assumes "smap_ok (concat ls)" "kv \<in> set (concat (take (pos_lower opts ls) ls))"
  shows "\<not> from_lower opts (fst kv)"
proof (cases "lower_open opts")
  case True
  with assms pos_gt_below [of ls kv "it_lower opts"] show ?thesis
    by (simp add: pos_lower_cases from_lower_def not_less)
next
  case False
  then have "fst kv \<in> fst ` set (concat (take (pos_ge (it_lower opts) ls) ls))"
    using assms(2) by (simp only: pos_lower_cases if_False) (rule imageI)
  with belowD [OF pos_ge_below [OF assms(1)] this] False show ?thesis by (simp add: from_lower_def)
qed

lemma pos_lower_at: "pos_lower opts ls < length ls \<Longrightarrow> from_lower opts (fst (last (ls ! pos_lower opts ls)))"
  unfolding pos_lower_def by (rule nth_length_takeWhile [of "\<lambda>es. \<not> from_lower opts (fst (last es))", simplified])

lemma filter_from_lower:
  assumes "smap_ok (concat (LA @ es # LC))" "\<And>kv. kv \<in> set (concat LA) \<Longrightarrow> \<not> from_lower opts (fst kv)"
    "es \<noteq> []" "from_lower opts (fst (last es))"
  shows "filter (\<lambda>kv. from_lower opts (fst kv)) (concat (LA @ es # LC)) =
      filter (\<lambda>kv. from_lower opts (fst kv)) es @ concat LC"
    "filter (\<lambda>kv. from_lower opts (fst kv)) es \<noteq> []"
proof -
  have "from_lower opts (fst kv)" if kv: "kv \<in> set (concat LC)" for kv
  proof -
    have "fst (last es) < fst kv"
      using assms(1) kv last_in_set [OF assms(3)] by (simp add: sorted_wrt_append) blast
    then show ?thesis by (intro from_lower_mono [OF assms(4)]) simp
  qed
  moreover have "filter (\<lambda>kv. from_lower opts (fst kv)) (concat LA) = []"
    using assms(2) by (simp add: filter_empty_conv)
  ultimately show "filter (\<lambda>kv. from_lower opts (fst kv)) (concat (LA @ es # LC)) =
      filter (\<lambda>kv. from_lower opts (fst kv)) es @ concat LC" by (simp add: filter_id_conv)
  show "filter (\<lambda>kv. from_lower opts (fst kv)) es \<noteq> []"
    using assms(3,4) last_in_set [OF assms(3)] by (auto simp: filter_empty_conv)
qed

section \<open>An iterator and what it has still to return\<close>

definition iter_in_leaf :: "bpt_iter \<Rightarrow> 's tree \<Rightarrow> kvs list \<Rightarrow> kvs \<Rightarrow> bool" where
  "iter_in_leaf it t ls rest \<longleftrightarrow>
     (\<exists>rn A p C LA es LC. heap t (root t) = Some rn \<and> children rn = A @ p # C \<and>
        length A = length LA \<and> ls = LA @ es # LC \<and> cur_node it = Some p \<and>
        (\<exists>done. es = done @ cur_kv it) \<and> (kv_it_reach_end it \<longleftrightarrow> cur_kv it = []) \<and>
        rest = until_upper (it_opts it) (cur_kv it @ concat LC))"

lemma iter_in_leafI:
  assumes "heap t (root t) = Some rn" "children rn = A @ p # C" "length A = length LA" "ls = LA @ es # LC"
    "cur_node it = Some p" "es = dn @ cur_kv it" "kv_it_reach_end it \<longleftrightarrow> cur_kv it = []"
    "rest = until_upper (it_opts it) (cur_kv it @ concat LC)"
  shows "iter_in_leaf it t ls rest"
  unfolding iter_in_leaf_def using assms by blast

lemma iter_in_leafE:
  assumes "iter_in_leaf it t ls rest"
  obtains rn A p C LA es LC dn where "heap t (root t) = Some rn" "children rn = A @ p # C"
    "length A = length LA" "ls = LA @ es # LC" "cur_node it = Some p" "es = dn @ cur_kv it"
    "kv_it_reach_end it \<longleftrightarrow> cur_kv it = []" "rest = until_upper (it_opts it) (cur_kv it @ concat LC)"
  using assms unfolding iter_in_leaf_def by blast

definition iter_at ::
    "proto_ops \<Rightarrow> ('s \<Rightarrow> bytes \<rightharpoonup> bytes) \<Rightarrow> bpt_iter \<Rightarrow> 's tree \<Rightarrow> kvs list \<Rightarrow> kvs \<Rightarrow> bool" where
  "iter_at pb contents it t ls rest \<longleftrightarrow>
     tree_clean pb contents t ls \<and>
     (if node_it_reach_end it then kv_it_reach_end it \<and> rest = [] else iter_in_leaf it t ls rest)"

lemma until_upper_simps [simp]:
  "until_upper opts [] = []"
  "until_upper opts (e # m) = (if past_upper opts (fst e) then [] else e # until_upper opts m)"
  by (simp_all add: until_upper_def)

lemma reach_bound [simp]:
  "cur_kv it \<noteq> [] \<Longrightarrow> reachRangeBound it = Inr (past_upper (it_opts it) (fst (hd (cur_kv it))))"
  by (simp add: reachRangeBound_def past_upper_def not_less Let_def)

lemma iter_in_leaf_next:
  assumes "iter_in_leaf it t ls rest" "cur_kv it \<noteq> []" "\<not> past_upper (it_opts it) (fst (hd (cur_kv it)))"
    "\<not> kv_it_reach_end it"
  shows "rest \<noteq> []" "hd rest = hd (cur_kv it)" "iter_in_leaf (nextKV it) t ls (tl rest)"
proof -
  obtain rn A p C LA es LC dn where h: "heap t (root t) = Some rn" "children rn = A @ p # C"
    "length A = length LA" "ls = LA @ es # LC" "cur_node it = Some p" "es = dn @ cur_kv it"
    "kv_it_reach_end it \<longleftrightarrow> cur_kv it = []" "rest = until_upper (it_opts it) (cur_kv it @ concat LC)"
    using iter_in_leafE [OF assms(1)] .
  obtain e m where m: "cur_kv it = e # m" using assms(2) by (cases "cur_kv it") auto
  have r: "rest = e # until_upper (it_opts it) (m @ concat LC)" using h(8) m assms(3) by simp
  then show "rest \<noteq> []" "hd rest = hd (cur_kv it)" by (simp_all add: m)
  have "es = (dn @ [e]) @ m" by (simp add: h(6) m)
  with h(5) m r assms(4) show "iter_in_leaf (nextKV it) t ls (tl rest)"
    by (intro iter_in_leafI [OF h(1-4), where dn = "dn @ [e]"]) (simp_all add: nextKV_def Let_def)
qed

lemma FindChild_this:
  assumes rn: "children rn = A @ p # C" "length A = length LA"
    and p: "heap t p = Some n" "max_key (stat n) = fst (last es)"
    and st: "stats_of t rn (LA @ es # LC)" and ok: "smap_ok (concat (LA @ es # LC))"
  shows "FindChild_node p rn t = Inr (length A)"
proof -
  have ne: "[] \<notin> set (LA @ es # LC)" using child_stats_eq [OF st] by metis
  have "MaxKeyLowerBound (max_key (stat n)) rn t = Inr (length A)"
    by (simp only: MaxKeyLowerBound_pos [OF st ok] p(2) rn(2) pos_ge_last [OF ok ne])
  moreover have "children rn ! length A = p" unfolding rn(1) by simp
  ultimately show ?thesis using rn(1) p by (simp add: FindChild_node_def)
qed

text \<open>The next leaf is not beyond the range, or nothing of the range is left.\<close>

lemma beyond_rest:
  assumes "beyond_upper opts n" "min_key (stat n) = fst (hd es)" "es \<noteq> []"
    "\<not> (lower_open opts \<and> upper_open opts)"
  shows "until_upper opts (es @ m) = []"
proof -
  have "past_upper opts (fst (hd es))"
    using assms by (auto simp: beyond_upper_def past_upper_def split: if_splits)
  with assms(3) show ?thesis by (cases es) simp_all
qed

context bpt_env
begin

lemma clean_loaded:
  assumes c: "tree_clean pb contents t (LA @ es # LC)"
    and rn: "heap t (root t) = Some rn" "children rn = A @ p # C" "length A = length LA"
  shows "tree_clean pb contents (loaded p es t) (LA @ es # LC)"
    "heap (loaded p es t) (root t) = Some rn"
    "\<exists>n. heap (loaded p es t) p = Some n \<and> is_leaf n \<and> \<not> is_root n \<and> kvs n = es"
proof -
  have inv: "tree_inv pb contents t (LA @ es # LC)" using c by (simp add: tree_clean_def)
  show "tree_clean pb contents (loaded p es t) (LA @ es # LC)"
    using tree_inv_loaded(1) [OF inv rn(1,2) refl rn(3)] c by (simp add: tree_clean_def)
  show "heap (loaded p es t) (root t) = Some rn" by (rule tree_inv_loaded(2) [OF inv rn(1,2) refl rn(3)])
  from childE [OF inv rn] obtain n where "heap t p = Some n" "leaf_shape (root t) n es" by metis
  then show "\<exists>n. heap (loaded p es t) p = Some n \<and> is_leaf n \<and> \<not> is_root n \<and> kvs n = es"
    by (simp add: heap_loaded leaf_shape_def)
qed

lemma clean_facts:
  assumes c: "tree_clean pb contents t ls" and rn: "heap t (root t) = Some rn"
  shows "smap_ok (concat ls)" "[] \<notin> set ls" "stats_of t rn ls" "length (children rn) = length ls"
    "\<not> is_leaf rn" "is_root rn"
proof -
  have inv: "tree_inv pb contents t ls" using c by (simp add: tree_clean_def)
  show "smap_ok (concat ls)" by (rule kvs_ok_smap [OF tree_inv_concat [OF inv]])
  show "[] \<notin> set ls" by (rule tree_inv_ne [OF inv])
  from inv rn have l: "list_all2 (leaf_ok pb (contents (storage t)) t) (children rn) ls"
    and s: "root_shape (schema t) rn" by (auto elim!: tree_invE)
  show "stats_of t rn ls" by (rule stats_of_leaves [OF l])
  show "length (children rn) = length ls" by (rule list_all2_lengthD [OF l])
  show "\<not> is_leaf rn" "is_root rn" using s by (simp_all add: root_shape_def)
qed

text \<open>Opening an iterator.\<close>

lemma open_scan:
  assumes c: "tree_clean pb contents t ls"
  obtains (empty) it where "BptIterator_Open kv pb (BptIterator opts t) t = Inr (C_BPTREE_ITERATOR_END, it, t)"
      "filter (in_scan opts) (concat ls) = []"
  | (at) it t' where "BptIterator_Open kv pb (BptIterator opts t) t = Inr (C_OK, it, t')"
      "iter_at pb contents it t' ls (filter (in_scan opts) (concat ls))" "it_opts it = opts"
      "\<not> node_it_reach_end it" "storage t' = storage t" "schema t' = schema t" "ctx_id t' = ctx_id t"
      "root t' = root t"
proof -
  have inv: "tree_inv pb contents t ls" using c by (simp add: tree_clean_def)
  then obtain rn where rn: "heap t (root t) = Some rn" by (rule tree_invE)
  note f = clean_facts [OF c rn]
  let ?i = "pos_lower opts ls"
  have ub: "(if lower_open opts then MaxKeyUpperBound (it_lower opts) rn t
      else MaxKeyLowerBound (it_lower opts) rn t) = Inr ?i"
    using MaxKeyUpperBound_pos [OF f(3,1)] MaxKeyLowerBound_pos [OF f(3,1)] by (simp add: pos_lower_cases)
  have le: "?i \<le> length ls" by (simp add: pos_lower_def length_takeWhile_le)
  note od = open_descend.simps(2) [of kv pb opts "Suc (next_ptr t)" "root t" t]
  show thesis
  proof (cases "?i = length ls")
    case True
    have "\<not> from_lower opts (fst x)" if "x \<in> set (concat ls)" for x
      using pos_lower_before [OF f(1), of x opts] that True by simp
    then have "filter (in_scan opts) (concat ls) = []" by (simp add: filter_empty_conv in_scan_def)
    moreover have "open_descend kv pb opts (next_ptr t + 2) (root t) t = Inr (C_BPTREE_ITERATOR_END, root t, t)"
      using od rn f(4,5) ub True by (auto simp: HasChild_def)
    ultimately show thesis by (intro empty) (simp_all add: BptIterator_Open_def BptIterator_def deref_cur_def)
  next
    case False
    with le have lt: "?i < length ls" by simp
    define LA es LC where "LA = take ?i ls" "es = ls ! ?i" "LC = drop (Suc ?i) ls"
    have ls: "ls = LA @ es # LC" unfolding LA_es_LC_def by (rule id_take_nth_drop [OF lt])
    have lenLA: "length LA = ?i" using lt by (simp add: LA_es_LC_def)
    obtain A p C where ch: "children rn = A @ p # C" "length A = length LA"
      using children_split [OF inv [unfolded ls] rn] by metis
    note cl = clean_loaded [OF c [unfolded ls] rn ch] and ld = load_clean [OF c [unfolded ls] rn ch]
    from cl(3) obtain n where n: "heap (loaded p es t) p = Some n" "is_leaf n" "kvs n = es" by blast
    have nonempty: "children rn \<noteq> []" by (simp add: ch(1))
    have "children rn ! length A = p" unfolding ch(1) by (rule nth_append_length)
    then have "children rn ! ?i = p" by (simp only: ch(2) lenLA)
    then have "open_descend kv pb opts (next_ptr t + 2) (root t) t = Inr (C_OK, p, loaded p es t)"
      using od rn f(4,5) ub ld n lt nonempty by (simp add: HasChild_def) 
    note od = this
    have ok: "smap_ok es" using f(1) by (simp add: ls sorted_wrt_append)
    let ?m = "filter (\<lambda>kv. from_lower opts (fst kv)) es"
    let ?it = "(BptIterator opts t)\<lparr>cur_node := Some p, using_leaf_node := [p], cur_kv := ?m\<rparr>"
    have o: "BptIterator_Open kv pb (BptIterator opts t) t = Inr (C_OK, ?it, loaded p es t)"
      using od n start_of_scan [OF ok, of opts]
      by (cases "lower_open opts")
        (simp_all add: BptIterator_Open_def BptIterator_def deref_cur_def del: open_descend.simps)
    have ne: "es \<noteq> []" using f(2) ls by auto
    have fl: "filter (\<lambda>kv. from_lower opts (fst kv)) (concat ls) = ?m @ concat LC" "?m \<noteq> []"
    proof -
      have "\<not> from_lower opts (fst kv)" if "kv \<in> set (concat LA)" for kv
        using pos_lower_before [OF f(1), of kv opts] that by (simp add: LA_es_LC_def)
      moreover have "from_lower opts (fst (last es))" using pos_lower_at [OF lt] by (simp add: LA_es_LC_def)
      ultimately show "filter (\<lambda>kv. from_lower opts (fst kv)) (concat ls) = ?m @ concat LC" "?m \<noteq> []"
        using filter_from_lower [OF f(1) [unfolded ls], of opts] ne unfolding ls by blast+
    qed
    have "smap_ok (?m @ concat LC)" unfolding fl(1) [symmetric]
      by (rule sorted_wrt_filter [of "\<lambda>a b. fst a < fst b", unfolded sorted_wrt_map [symmetric]])
        (simp add: f(1) sorted_wrt_map [symmetric])
    then have "until_upper opts (?m @ concat LC) = filter (\<lambda>kv. \<not> past_upper opts (fst kv)) (?m @ concat LC)"
      by (rule until_upper_filter)
    also have "\<dots> = filter (in_scan opts) (concat ls)"
      unfolding fl(1) [symmetric] filter_filter by (rule arg_cong [where f = "\<lambda>P. filter P _"]) (auto simp: in_scan_def)
    finally have rest: "filter (in_scan opts) (concat ls) = until_upper opts (?m @ concat LC)" by simp
    have "\<exists>dn. es = dn @ ?m"
      using dropWhile_filter [OF ok, of "from_lower opts"] from_lower_mono [of opts]
        takeWhile_dropWhile_id [of "\<lambda>(k, _). \<not> from_lower opts k" es] by metis
    then obtain dn where dn: "es = dn @ ?m" by blast
    have "iter_in_leaf ?it (loaded p es t) ls (filter (in_scan opts) (concat ls))"
      by (rule iter_in_leafI [OF _ ch ls, where dn = dn])
        (use cl(2) dn fl(2) rest in \<open>simp_all add: BptIterator_def\<close>)
    then have "iter_at pb contents ?it (loaded p es t) ls (filter (in_scan opts) (concat ls))"
      using cl(1) ls by (simp add: iter_at_def BptIterator_def)
    with o show thesis by (rule at) (simp_all add: BptIterator_def)
  qed
qed

text \<open>The step from a leaf to the next one.\<close>

lemma walk_round_leaf:
  assumes c: "tree_clean pb contents t (LA @ es # LC)"
    and rn: "heap t (root t) = Some rn" "children rn = A @ p # C" "length A = length LA"
  shows "walk_round opts p True t = (case C of [] \<Rightarrow> Inr (Walk_up (root t)) | q # _ \<Rightarrow> walk_to opts q t)"
proof -
  have inv: "tree_inv pb contents t (LA @ es # LC)" using c by (simp add: tree_clean_def)
  note f = clean_facts [OF c rn(1)]
  from childE [OF inv rn] obtain n where n: "heap t p = Some n" "leaf_shape (root t) n es" by metis
  then have m: "\<not> is_root n" "parent n = Some (root t)" "max_key (stat n) = fst (last es)"
    by (simp_all add: leaf_shape_def)
  have fc: "FindChild_node p rn t = Inr (length A)"
    by (rule FindChild_this [OF rn(2,3) n(1) m(3) f(3,1)])
  have "children rn ! Suc (length A) = hd C" if "C \<noteq> []"
    using that by (simp add: rn(2) nth_append hd_conv_nth)
  then show ?thesis using n(1) m(1,2) fc rn(1,2)
    by (cases C) (simp_all add: walk_round_def)
qed

lemma next_leaf_end:
  assumes c: "tree_clean pb contents t (LA @ [es])"
    and rn: "heap t (root t) = Some rn" "children rn = A @ [p]" "length A = length LA"
  shows "next_leaf_loop kv pb opts (2 * next_ptr t + 2) p True t = Inr (C_OK, None, t)"
  using walk_round_leaf [OF c rn, of opts] clean_facts(5,6) [OF c rn(1)] rn(1)
  by (simp add: walk_round_def [of opts "root t"])

lemma next_leaf_step:
  assumes c: "tree_clean pb contents t (LA @ es # es' # LC)"
    and rn: "heap t (root t) = Some rn" "children rn = A @ p # q # C" "length A = length LA"
  obtains n where "heap t q = Some n" "min_key (stat n) = fst (hd es')" "es' \<noteq> []"
    "next_leaf_loop kv pb opts (2 * next_ptr t + 2) p True t =
      Inr (if beyond_upper opts n then (C_OK, None, t) else (C_OK, Some q, loaded q es' t))"
proof -
  have c': "tree_clean pb contents t ((LA @ [es]) @ es' # LC)" using c by simp
  have rn': "children rn = (A @ [p]) @ q # C" "length (A @ [p]) = length (LA @ [es])" using rn by simp_all
  have inv: "tree_inv pb contents t ((LA @ [es]) @ es' # LC)" using c' by (simp add: tree_clean_def)
  from childE [OF inv rn(1) rn'] obtain n where n: "heap t q = Some n" "leaf_shape (root t) n es'" by metis
  from clean_loaded(3) [OF c' rn(1) rn'] obtain n1 where n1: "heap (loaded q es' t) q = Some n1" "is_leaf n1" by blast
  show thesis
  proof (rule that [OF n(1)])
    show "min_key (stat n) = fst (hd es')" "es' \<noteq> []" using n(2) by (simp_all add: leaf_shape_def)
    show "next_leaf_loop kv pb opts (2 * next_ptr t + 2) p True t =
      Inr (if beyond_upper opts n then (C_OK, None, t) else (C_OK, Some q, loaded q es' t))"
      using walk_round_leaf [OF c rn, of opts] n(1) n1 load_clean [OF c' rn(1) rn']
      by (simp add: walk_to_def)
  qed
qed

lemma next_leaf_at:
  assumes a: "iter_at pb contents it t ls rest" and e: "kv_it_reach_end it" "\<not> node_it_reach_end it"
    and o: "\<not> (lower_open (it_opts it) \<and> upper_open (it_opts it))"
  obtains (finished) it1 where "nextLeafNode kv pb it t = Inr (C_OK, it1, t)" "node_it_reach_end it1"
      "kv_it_reach_end it1" "rest = []" "it_opts it1 = it_opts it"
  | (at) it1 it2 t1 where "nextLeafNode kv pb it t = Inr (C_OK, it1, t1)" "\<not> node_it_reach_end it1"
      "resetCurKV it1 t1 = Inr it2" "iter_at pb contents it2 t1 ls rest" "\<not> node_it_reach_end it2"
      "it_opts it2 = it_opts it" "root t1 = root t"
proof -
  have c: "tree_clean pb contents t ls" and l: "iter_in_leaf it t ls rest" using a e by (simp_all add: iter_at_def)
  from iter_in_leafE [OF l] obtain rn A p C LA es LC dn where h: "heap t (root t) = Some rn"
    "children rn = A @ p # C" "length A = length LA" "ls = LA @ es # LC" "cur_node it = Some p"
    "es = dn @ cur_kv it" "kv_it_reach_end it \<longleftrightarrow> cur_kv it = []"
    "rest = until_upper (it_opts it) (cur_kv it @ concat LC)" .
  have r: "rest = until_upper (it_opts it) (concat LC)" using h(7,8) e by simp
  note cc = c [unfolded h(4)]
  have len: "length C = length LC" using clean_facts(4) [OF cc h(1)] h(2,3) by simp
  show thesis
  proof (cases LC)
    case Nil
    with len have "C = []" by simp
    with next_leaf_end [of t LA es rn A p "it_opts it"] cc h Nil
    have "next_leaf_loop kv pb (it_opts it) (2 * next_ptr t + 2) p True t = Inr (C_OK, None, t)" by simp
    then have "nextLeafNode kv pb it t = Inr (C_OK, it\<lparr>using_leaf_node := using_leaf_node it @ [p],
        cur_node := None, node_it_reach_end := True\<rparr>, t)"
      using h(5) by (simp add: nextLeafNode_def deref_cur_def del: next_leaf_loop.simps)
    then show thesis by (rule finished) (use e r Nil in simp_all)
  next
    case (Cons es' LC')
    with len obtain q C' where C: "C = q # C'" by (cases C) auto
    note cc' = cc [unfolded Cons] and h2 = h(2) [unfolded C]
    obtain n where n: "heap t q = Some n" "min_key (stat n) = fst (hd es')" "es' \<noteq> []"
      "next_leaf_loop kv pb (it_opts it) (2 * next_ptr t + 2) p True t =
        Inr (if beyond_upper (it_opts it) n then (C_OK, None, t) else (C_OK, Some q, loaded q es' t))"
      by (rule next_leaf_step [OF cc' h(1) h2 h(3), of "it_opts it"])
    show thesis
    proof (cases "beyond_upper (it_opts it) n")
      case True
      then have none: "rest = []" using beyond_rest [OF _ n(2,3) o] r Cons by simp
      have "nextLeafNode kv pb it t = Inr (C_OK, it\<lparr>using_leaf_node := using_leaf_node it @ [p],
          cur_node := None, node_it_reach_end := True\<rparr>, t)"
        using True n(4) h(5) by (simp add: nextLeafNode_def deref_cur_def del: next_leaf_loop.simps)
      then show thesis by (rule finished) (use e none in simp_all)
    next
      case False
      have c': "tree_clean pb contents t ((LA @ [es]) @ es' # LC')" using cc' by simp
      have ch: "children rn = (A @ [p]) @ q # C'" "length (A @ [p]) = length (LA @ [es])" using h2 h(3) by simp_all
      note cl = clean_loaded [OF c' h(1) ch]
      from cl(3) obtain n1 where n1: "heap (loaded q es' t) q = Some n1" "kvs n1 = es'" by blast
      let ?it1 = "it\<lparr>using_leaf_node := using_leaf_node it @ [p], cur_node := Some q\<rparr>"
      let ?it2 = "?it1\<lparr>cur_kv := es', kv_it_reach_end := False\<rparr>"
      have 1: "nextLeafNode kv pb it t = Inr (C_OK, ?it1, loaded q es' t)"
        using n(4) False h(5) e by (simp add: nextLeafNode_def deref_cur_def del: next_leaf_loop.simps)
      have 2: "resetCurKV ?it1 (loaded q es' t) = Inr ?it2"
        using n1 by (simp add: resetCurKV_def deref_cur_def)
      have "iter_in_leaf ?it2 (loaded q es' t) ls rest"
        by (rule iter_in_leafI [where rn = rn and A = "A @ [p]" and p = q and C = C' and LA = "LA @ [es]"
              and es = es' and LC = LC' and dn = "[]"])
          (use cl(2) ch h(4) Cons n(3) r in simp_all)
      then have "iter_at pb contents ?it2 (loaded q es' t) ls rest"
        using cl(1) h(4) Cons e by (simp add: iter_at_def)
      then show thesis by (intro at [OF 1 _ 2]) (use e in simp_all)
    qed
  qed
qed

text \<open>One page.\<close>

lemma iter_next_scan:
  assumes "iter_at pb contents it t ls rest" "\<not> (lower_open (it_opts it) \<and> upper_open (it_opts it))"
  shows "\<exists>it' t'. iter_next kv pb n data it t = Inr (C_OK, data @ take n rest, it', t') \<and>
    iter_at pb contents it' t' ls (drop n rest) \<and> it_opts it' = it_opts it \<and> root t' = root t \<and>
    (length rest < n \<longrightarrow> HashNext it' = Inr False)"
  using assms
proof (induction "2 * n + (if kv_it_reach_end it then 1 else 0 :: nat)" arbitrary: n data it t rest rule: less_induct)
  case less
  note a = less.prems(1) and o = less.prems(2)
  show ?case
  proof (cases "n = 0")
    case True
    with a show ?thesis by (simp add: iter_next.simps)
  next
    case n: False
    show ?thesis
    proof (cases "kv_it_reach_end it")
      case False
      then have ne: "\<not> node_it_reach_end it" and l: "iter_in_leaf it t ls rest"
        using a by (auto simp: iter_at_def split: if_splits)
      with False have kv: "cur_kv it \<noteq> []" by (elim iter_in_leafE) simp
      show ?thesis
      proof (cases "past_upper (it_opts it) (fst (hd (cur_kv it)))")
        case True
        then have "rest = []" using l kv by (elim iter_in_leafE) (cases "cur_kv it"; simp)
        with True a n False kv show ?thesis by (simp add: iter_next.simps HashNext_def)
      next
        case past: False
        note nx = iter_in_leaf_next [OF l kv past False]
        have a1: "iter_at pb contents (nextKV it) t ls (tl rest)"
          using a nx(3) ne by (simp add: iter_at_def nextKV_def Let_def)
        have "\<exists>it' t'. iter_next kv pb (n - 1) (data @ [hd (cur_kv it)]) (nextKV it) t =
            Inr (C_OK, (data @ [hd (cur_kv it)]) @ take (n - 1) (tl rest), it', t') \<and>
          iter_at pb contents it' t' ls (drop (n - 1) (tl rest)) \<and> it_opts it' = it_opts (nextKV it) \<and> root t' = root t \<and>
          (length (tl rest) < n - 1 \<longrightarrow> HashNext it' = Inr False)"
          by (rule less.hyps [OF _ a1]) ((use n o False in \<open>cases n; simp add: nextKV_def Let_def\<close>)+)
        moreover have "length rest < n \<longleftrightarrow> length (tl rest) < n - 1"
          using nx(1) n by (cases rest; cases n; simp)
        moreover have "take n rest = hd (cur_kv it) # take (n - 1) (tl rest)" "drop n rest = drop (n - 1) (tl rest)"
          using nx(1,2) n by (cases rest; cases n; simp)+
        ultimately show ?thesis using False past kv n
          by (simp add: iter_next.simps [of kv pb n data it t] nextKV_def Let_def)
      qed
    next
      case end_: True
      show ?thesis
      proof (cases "node_it_reach_end it")
        case True
        with a end_ n show ?thesis by (simp add: iter_at_def iter_next.simps HashNext_def)
      next
        case False
        show ?thesis
        proof (cases rule: next_leaf_at [OF a end_ False o])
          case (1 it1)
          then have "iter_at pb contents it1 t ls []" using a by (simp add: iter_at_def)
          with 1 n end_ False show ?thesis by (simp add: iter_next.simps [of kv pb n data it t] HashNext_def)
        next
          case (2 it1 it2 t1)
          have f: "\<not> kv_it_reach_end it2" by (rule resetCurKV_flag [OF 2(3)])
          have "\<exists>it' t'. iter_next kv pb n data it2 t1 = Inr (C_OK, data @ take n rest, it', t') \<and>
            iter_at pb contents it' t' ls (drop n rest) \<and> it_opts it' = it_opts it2 \<and> root t' = root t1 \<and>
            (length rest < n \<longrightarrow> HashNext it' = Inr False)"
            by (rule less.hyps [OF _ 2(4)]) (use f end_ o 2(6) in simp_all)
          then show ?thesis using 2 n end_ False by (simp add: iter_next.simps [of kv pb n data it t])
        qed
      qed
    qed
  qed
qed

end

section \<open>Pages over many ranges\<close>

definition scan_ok :: "iter_opts \<Rightarrow> bool" where
  "scan_ok opts \<longleftrightarrow> \<not> (lower_open opts \<and> upper_open opts)"

definition ranges_rest :: "kvs list \<Rightarrow> iter_opts list \<Rightarrow> kvs" where
  "ranges_rest ls ops = concat (map (\<lambda>op. filter (in_scan op) (concat ls)) ops)"

lemma ranges_rest_simps [simp]:
  "ranges_rest ls [] = []"
  "ranges_rest ls (op # ops) = filter (in_scan op) (concat ls) @ ranges_rest ls ops"
  by (simp_all add: ranges_rest_def)

abbreviation ops_left :: "base_iter \<Rightarrow> iter_opts list" where
  "ops_left b \<equiv> drop (current_op_idx b) (it_ops b)"

definition base_at ::
    "proto_ops \<Rightarrow> ('s \<Rightarrow> bytes \<rightharpoonup> bytes) \<Rightarrow> base_iter \<Rightarrow> 's tree \<Rightarrow> kvs list \<Rightarrow> kvs \<Rightarrow> bool" where
  "base_at pb contents b t ls rest \<longleftrightarrow>
     code b = C_OK \<and> (\<forall>op \<in> set (it_ops b). scan_ok op) \<and>
     (\<exists>it r. tree_it b = Some it \<and> iter_at pb contents it t ls r \<and> scan_ok (it_opts it) \<and>
        rest = r @ ranges_rest ls (ops_left b))"

lemma iter_at_clean: "iter_at pb contents it t ls r \<Longrightarrow> tree_clean pb contents t ls"
  by (simp add: iter_at_def)

lemma HashNext_iter_at:
  assumes "iter_at pb contents it t ls r"
  shows "\<exists>more. HashNext it = Inr more \<and> (\<not> more \<longrightarrow> r = [])"
proof (cases "kv_it_reach_end it")
  case True
  with assms show ?thesis by (simp add: HashNext_def iter_at_def split: if_splits)
next
  case False
  with assms have l: "iter_in_leaf it t ls r" by (simp add: iter_at_def split: if_splits)
  with False have kv: "cur_kv it \<noteq> []" by (elim iter_in_leafE) simp
  have "r = []" if "past_upper (it_opts it) (fst (hd (cur_kv it)))"
    using l kv that by (elim iter_in_leafE) (cases "cur_kv it"; simp)
  with False kv show ?thesis by (simp add: HashNext_def)
qed

context bpt_env
begin

lemma base_open_scan:
  assumes "tree_clean pb contents t ls" "\<forall>op \<in> set (it_ops b). scan_ok op" "code b = C_OK"
    "ops = ops_left b"
  obtains (finished) b' t' where "base_open_loop kv pb ops b t = Inr (C_OK, b', t')"
      "code b' = C_BPTREE_ITERATOR_END" "ranges_rest ls ops = []" "data_segment b' = data_segment b"
      "page_size b' = page_size b \<and> it_ops b' = it_ops b" "tree_clean pb contents t' ls"
  | (at) b' t' where "base_open_loop kv pb ops b t = Inr (C_OK, b', t')"
      "base_at pb contents b' t' ls (ranges_rest ls ops)" "data_segment b' = data_segment b"
      "page_size b' = page_size b \<and> it_ops b' = it_ops b" "length (ops_left b') < length ops"
  using assms(2-4)
proof (induction ops arbitrary: b thesis)
  case Nil
  show ?case
    by (rule Nil.prems(1) [of "b\<lparr>code := C_BPTREE_ITERATOR_END\<rparr>" t]) (use assms(1) in simp_all)
next
  case (Cons op ops)
  have left: "ops_left (b\<lparr>current_op_idx := current_op_idx b + 1, tree_it := Some it\<rparr>) = ops" for it
  proof -
    have "drop 1 (ops_left b) = ops" using Cons.prems(5) [symmetric] by simp
    then show ?thesis by (simp add: add.commute)
  qed
  have op: "scan_ok op"
    using Cons.prems(3,5) in_set_dropD [of op "current_op_idx b" "it_ops b"] by (metis list.set_intros(1))
  show ?case
  proof (cases rule: open_scan [OF assms(1), of op])
    case (1 it)
    let ?b1 = "b\<lparr>current_op_idx := current_op_idx b + 1, tree_it := Some it\<rparr>"
    have step: "base_open_loop kv pb (op # ops) b t = base_open_loop kv pb ops ?b1 t"
      using 1(1) by (simp add: Let_def)
    have p: "\<forall>op \<in> set (it_ops ?b1). scan_ok op" "code ?b1 = C_OK" "ops = ops_left ?b1"
      using Cons.prems(3,4) left by simp_all
    show ?thesis
    proof (rule Cons.IH [OF _ _ p])
      fix b' t' assume "base_open_loop kv pb ops ?b1 t = Inr (C_OK, b', t')" "code b' = C_BPTREE_ITERATOR_END"
        "ranges_rest ls ops = []" "data_segment b' = data_segment ?b1" "page_size b' = page_size ?b1 \<and> it_ops b' = it_ops ?b1"
        "tree_clean pb contents t' ls"
      with 1(2) show thesis
        by (intro Cons.prems(1) [of b' t', unfolded step]) (simp_all del: base_open_loop.simps)
    next
      fix b' t' assume "base_open_loop kv pb ops ?b1 t = Inr (C_OK, b', t')"
        "base_at pb contents b' t' ls (ranges_rest ls ops)" "data_segment b' = data_segment ?b1"
        "page_size b' = page_size ?b1 \<and> it_ops b' = it_ops ?b1" "length (ops_left b') < length ops"
      with 1(2) show thesis
        by (intro Cons.prems(2) [of b' t', unfolded step]) (simp_all del: base_open_loop.simps)
    qed
  next
    case (2 it t')
    let ?b1 = "b\<lparr>current_op_idx := current_op_idx b + 1, tree_it := Some it\<rparr>"
    have "base_open_loop kv pb (op # ops) b t = Inr (C_OK, ?b1, t')" using 2(1) by (simp add: Let_def)
    moreover have "base_at pb contents ?b1 t' ls (ranges_rest ls (op # ops))"
      using 2 Cons.prems(3,4) op left by (auto simp: base_at_def)
    ultimately show ?thesis using left [of it]
      by (intro Cons.prems(2) [of ?b1 t']) (simp_all del: base_open_loop.simps)
  qed
qed

text \<open>Fuel: two rounds for every range that is left.\<close>

lemma base_next_scan:
  assumes "base_at pb contents b t ls rest" "length (data_segment b) \<le> page_size b"
    "2 * length (ops_left b) + (if \<exists>it. tree_it b = Some it \<and> HashNext it = Inr True then 2 else 1) \<le> fuel"
  shows "\<exists>b' t'. base_next_loop kv pb fuel b t = Inr (b', t') \<and>
    data_segment b' = data_segment b @ take (page_size b - length (data_segment b)) rest \<and>
    page_size b' = page_size b \<and> it_ops b' = it_ops b \<and> tree_clean pb contents t' ls \<and>
    (code b' = C_OK \<and> base_at pb contents b' t' ls (drop (page_size b - length (data_segment b)) rest) \<or>
     code b' = C_BPTREE_ITERATOR_END \<and> drop (page_size b - length (data_segment b)) rest = [])"
  using assms
proof (induction fuel arbitrary: b t rest)
  case 0
  then show ?case by (simp split: if_splits)
next
  case (Suc fuel)
  let ?n = "page_size b - length (data_segment b)"
  obtain it r where b: "code b = C_OK" "\<forall>op \<in> set (it_ops b). scan_ok op" "tree_it b = Some it"
    "iter_at pb contents it t ls r" "scan_ok (it_opts it)" "rest = r @ ranges_rest ls (ops_left b)"
    using Suc.prems(1) by (auto simp: base_at_def)
  obtain more where more: "HashNext it = Inr more" "\<not> more \<Longrightarrow> r = []"
    using HashNext_iter_at [OF b(4)] by blast
  show ?case
  proof (cases "?n = 0")
    case True
    with Suc.prems(2) have "length (data_segment b) = page_size b" by simp
    with b(1) True Suc.prems(1) iter_at_clean [OF b(4)] show ?thesis by (simp add: base_next_loop.simps)
  next
    case n: False
    then have lt: "length (data_segment b) < page_size b" by simp
    note unf = base_next_loop.simps [of kv pb "Suc fuel" b t]
    show ?thesis
    proof (cases more)
      case True
      have o: "\<not> (lower_open (it_opts it) \<and> upper_open (it_opts it))" using b(5) by (simp add: scan_ok_def)
      obtain it' t' where nx: "iter_next kv pb ?n (data_segment b) it t = Inr (C_OK, data_segment b @ take ?n r, it', t')"
        "iter_at pb contents it' t' ls (drop ?n r)" "it_opts it' = it_opts it"
        "length r < ?n \<longrightarrow> HashNext it' = Inr False"
        using iter_next_scan [OF b(4) o, of ?n "data_segment b"] by auto
      let ?b1 = "b\<lparr>data_segment := data_segment b @ take ?n r, tree_it := Some it'\<rparr>"
      let ?n1 = "page_size ?b1 - length (data_segment ?b1)"
      have step: "base_next_loop kv pb (Suc fuel) b t = base_next_loop kv pb fuel ?b1 t'"
        using unf b(1,3) more(1) True nx(1) lt by simp
      have at1: "base_at pb contents ?b1 t' ls (drop ?n r @ ranges_rest ls (ops_left b))"
        using b(1,2,5) nx(2,3) by (simp add: base_at_def)
      have n1: "?n1 = ?n - length r" by simp
      have td: "take ?n rest = take ?n r @ take ?n1 (drop ?n r @ ranges_rest ls (ops_left b))"
        "drop ?n rest = drop ?n1 (drop ?n r @ ranges_rest ls (ops_left b))"
        unfolding b(6) n1 by (cases "length r \<le> ?n"; simp)+
      show ?thesis
      proof (cases "length r < ?n")
        case short: True
        have "\<exists>b' t2. base_next_loop kv pb fuel ?b1 t' = Inr (b', t2) \<and>
            data_segment b' = data_segment ?b1 @ take ?n1 (drop ?n r @ ranges_rest ls (ops_left b)) \<and>
            page_size b' = page_size ?b1 \<and> it_ops b' = it_ops ?b1 \<and> tree_clean pb contents t2 ls \<and>
            (code b' = C_OK \<and> base_at pb contents b' t2 ls (drop ?n1 (drop ?n r @ ranges_rest ls (ops_left b))) \<or>
             code b' = C_BPTREE_ITERATOR_END \<and> drop ?n1 (drop ?n r @ ranges_rest ls (ops_left b)) = [])"
          by (rule Suc.IH [OF at1]) (use Suc.prems(3) b(3) more(1) True short nx(4) in simp_all)
        then show ?thesis unfolding step td by simp
      next
        case False
        then have "length (data_segment ?b1) = page_size ?b1" using lt by simp
        then have "base_next_loop kv pb fuel ?b1 t' = Inr (?b1, t')" by (simp add: base_next_loop.simps)
        moreover have "?n1 = 0" using False by simp
        ultimately show ?thesis
          using at1 b(1) iter_at_clean [OF nx(2)] unfolding step td by simp
      qed
    next
      case False
      then have r: "r = []" by (rule more(2))
      have op: "BaseIterator_Open kv pb b t = base_open_loop kv pb (ops_left b) b t"
        by (simp add: BaseIterator_Open_def)
      show ?thesis
      proof (cases rule: base_open_scan [OF iter_at_clean [OF b(4)] b(2,1) refl])
        case (1 b' t')
        have "base_next_loop kv pb (Suc fuel) b t = base_next_loop kv pb fuel b' t'"
          using unf b(1,3) more(1) False 1(1) op lt by simp
        also have "\<dots> = Inr (b', t')" using 1(2) by (simp add: base_next_loop.simps)
        finally show ?thesis using 1 r b(6) by simp
      next
        case (2 b' t')
        have step: "base_next_loop kv pb (Suc fuel) b t = base_next_loop kv pb fuel b' t'"
          using unf b(1,3) more(1) False 2(1) op lt by simp
        have rest: "rest = ranges_rest ls (ops_left b)" using r b(6) by simp
        have "\<exists>b2 t2. base_next_loop kv pb fuel b' t' = Inr (b2, t2) \<and>
            data_segment b2 = data_segment b' @ take (page_size b' - length (data_segment b')) (ranges_rest ls (ops_left b)) \<and>
            page_size b2 = page_size b' \<and> it_ops b2 = it_ops b' \<and> tree_clean pb contents t2 ls \<and>
            (code b2 = C_OK \<and> base_at pb contents b2 t2 ls
               (drop (page_size b' - length (data_segment b')) (ranges_rest ls (ops_left b))) \<or>
             code b2 = C_BPTREE_ITERATOR_END \<and>
               drop (page_size b' - length (data_segment b')) (ranges_rest ls (ops_left b)) = [])"
          by (rule Suc.IH [OF 2(2)]) (use Suc.prems(2,3) 2(3-5) b(3) more(1) False in simp_all)
        then show ?thesis unfolding step rest using 2(3,4) by simp
      qed
    qed
  qed
qed

end

section \<open>Reading pages until the end\<close>

fun read_pages ::
    "'s kv_api \<Rightarrow> proto_ops \<Rightarrow> nat \<Rightarrow> nat \<Rightarrow> base_iter \<Rightarrow> 's tree \<Rightarrow> (kvs \<times> base_iter \<times> 's tree) res" where
  "read_pages kv pb fuel 0 b t = Inr ([], b, t)"
| "read_pages kv pb fuel (Suc k) b t =
     (if \<not> Valid b then Inr ([], b, t)
      else bindR (BaseIterator_Next kv pb fuel b t) (\<lambda>(b1, t1).
        bindR (read_pages kv pb fuel k b1 t1) (\<lambda>(rest, b2, t2).
          Inr (data_segment b1 @ rest, b2, t2))))"

definition with_ranges :: "iter_opts list \<Rightarrow> nat \<Rightarrow> base_iter" where
  "with_ranges ops page = (BaseIterator page)\<lparr>it_ops := ops\<rparr>"

text \<open>Opening an iterator over the ranges and reading pages from it.\<close>

definition scan_pages ::
    "'s kv_api \<Rightarrow> proto_ops \<Rightarrow> iter_opts list \<Rightarrow> nat \<Rightarrow> nat \<Rightarrow> 's tree \<Rightarrow> (kvs \<times> base_iter \<times> 's tree) res" where
  "scan_pages kv pb ops page k t =
     bindR (BaseIterator_Open kv pb (with_ranges ops page) t) (\<lambda>(st, b, t1).
       if st \<noteq> C_OK then Inr ([], b, t1) else read_pages kv pb (2 * length ops + 2) k b t1)"

context bpt_env
begin

lemma next_page:
  assumes "base_at pb contents b t ls rest" "2 * length (it_ops b) + 2 \<le> fuel"
  obtains b' t' where "BaseIterator_Next kv pb fuel b t = Inr (b', t')"
    "data_segment b' = take (page_size b) rest" "page_size b' = page_size b" "it_ops b' = it_ops b"
    "tree_clean pb contents t' ls"
    "code b' = C_OK \<and> base_at pb contents b' t' ls (drop (page_size b) rest) \<or>
     code b' = C_BPTREE_ITERATOR_END \<and> drop (page_size b) rest = []"
proof -
  let ?b = "b\<lparr>data_segment := []\<rparr>"
  have at: "base_at pb contents ?b t ls rest" and c: "Valid b"
    using assms(1) by (simp_all add: base_at_def Valid_def)
  have fuel: "2 * length (ops_left ?b) +
      (if \<exists>it. tree_it ?b = Some it \<and> HashNext it = Inr True then 2 else 1) \<le> fuel"
    using assms(2) by auto
  from base_next_scan [OF at _ fuel] c that show thesis
    by (simp add: BaseIterator_Next_def) blast
qed

lemma read_pages_scan:
  assumes "base_at pb contents b t ls rest \<or> code b = C_BPTREE_ITERATOR_END \<and> rest = []"
    "tree_clean pb contents t ls" "2 * length (it_ops b) + 2 \<le> fuel"
  shows "\<exists>b' t'. read_pages kv pb fuel k b t = Inr (take (k * page_size b) rest, b', t') \<and>
    tree_clean pb contents t' ls"
  using assms
proof (induction k arbitrary: b t rest)
  case 0
  then show ?case by simp
next
  case (Suc k)
  show ?case
  proof (cases "Valid b")
    case False
    then have "rest = []" using Suc.prems(1) by (auto simp: base_at_def Valid_def)
    with False Suc.prems(2) show ?thesis by simp
  next
    case True
    then have at: "base_at pb contents b t ls rest" using Suc.prems(1) by (auto simp: Valid_def)
    obtain b' t' where n: "BaseIterator_Next kv pb fuel b t = Inr (b', t')"
      "data_segment b' = take (page_size b) rest" "page_size b' = page_size b" "it_ops b' = it_ops b"
      "tree_clean pb contents t' ls"
      "code b' = C_OK \<and> base_at pb contents b' t' ls (drop (page_size b) rest) \<or>
       code b' = C_BPTREE_ITERATOR_END \<and> drop (page_size b) rest = []"
      by (rule next_page [OF at Suc.prems(3)])
    have "\<exists>b2 t2. read_pages kv pb fuel k b' t' = Inr (take (k * page_size b') (drop (page_size b) rest), b2, t2) \<and>
        tree_clean pb contents t2 ls"
      by (rule Suc.IH) (use n Suc.prems(3) in auto)
    moreover have "take (Suc k * page_size b) rest = take (page_size b) rest @ take (k * page_size b) (drop (page_size b) rest)"
      by (simp add: take_add [symmetric] add.commute)
    ultimately show ?thesis using True n(1-3) by auto
  qed
qed

lemma scan_pages_ok:
  assumes c: "tree_clean pb contents t ls" and ops: "\<forall>op \<in> set ops. scan_ok op"
  shows "\<exists>b t'. scan_pages kv pb ops page k t = Inr (take (k * page) (ranges_rest ls ops), b, t') \<and>
    tree_clean pb contents t' ls"
proof -
  let ?b = "with_ranges ops page"
  have p: "\<forall>op \<in> set (it_ops ?b). scan_ok op" "code ?b = C_OK" "ops = ops_left ?b"
    using ops by (simp_all add: with_ranges_def BaseIterator_def)
  have page: "page_size ?b = page" "it_ops ?b = ops" by (simp_all add: with_ranges_def BaseIterator_def)
  have op: "BaseIterator_Open kv pb ?b t = base_open_loop kv pb ops ?b t"
    using p(3) by (simp add: BaseIterator_Open_def)
  show ?thesis
  proof (cases rule: base_open_scan [OF c p])
    case (1 b' t')
    have "\<exists>b2 t2. read_pages kv pb (2 * length ops + 2) k b' t' = Inr (take (k * page_size b') [], b2, t2) \<and>
        tree_clean pb contents t2 ls"
      by (rule read_pages_scan) (use 1 page in simp_all)
    with 1 op show ?thesis by (auto simp: scan_pages_def)
  next
    case (2 b' t')
    have "\<exists>b2 t2. read_pages kv pb (2 * length ops + 2) k b' t' =
        Inr (take (k * page_size b') (ranges_rest ls ops), b2, t2) \<and> tree_clean pb contents t2 ls"
      by (rule read_pages_scan) (use 2 page in \<open>auto simp: base_at_def dest: iter_at_clean\<close>)
    with 2 op page show ?thesis by (auto simp: scan_pages_def)
  qed
qed

end

end
