(* ===== verification/BptTheorems.thy ===== *)
theory BptTheorems
  imports BptSession
begin

text \<open>
  The properties of the tree over any LevelDB and any protobuf implementation that behave as
  documented: the tree of the program is the one of \<open>BptSession\<close> with \<open>LevelDbClient\<close> as its
  storage. The witnesses run it over the database in memory.
\<close>

locale am_storage = leveldb_spec L view + protobuf pb
  for L :: "'db leveldb" and view :: "'db \<Rightarrow> bytes \<rightharpoonup> bytes" and pb :: proto_ops

sublocale am_storage \<subseteq> bpt_env "LevelDbClient L" view pb
  by unfold_locales

context am_storage
begin

lemma env: "bpt_env (LevelDbClient L) view pb"
  by (rule bpt_env_axioms)

end

interpretation in_memory: am_storage mem_leveldb id sd_proto
  by (intro am_storage.intro mem_leveldb_spec sd_protobuf)

section \<open>An empty index in memory\<close>

definition schema0 :: tree_schema where
  "schema0 = \<lparr>ts_db_id = 0, ts_table_id = 1, ts_index_id = 2, ts_root_id = 0, ts_tree_id = 0\<rparr>"

lemma empty_stored: "stored_tree sd_proto Map.empty schema0 []"
  by (simp add: stored_tree_def schema0_def kvs_ok_def)

text \<open>A tree in memory that holds one leaf per list of entries, from what was inserted.\<close>

lemma empty_tree:
  obtains t where "open_index (LevelDbClient mem_leveldb) sd_proto schema0 Map.empty = Inr t"
    "tree_clean sd_proto id t []" "schema t = schema0" "storage t = Map.empty" "ctx_id t = 0"
proof (rule in_memory.open_ok)
  show "stored_tree sd_proto (id Map.empty) schema0 []" by (simp add: empty_stored)
next
  fix t assume "open_index (LevelDbClient mem_leveldb) sd_proto schema0 Map.empty = Inr t"
    "tree_clean sd_proto id t []" "schema t = schema0" "storage t = Map.empty"
    "ctx_id t = ts_tree_id schema0"
  then show thesis by (intro that) (simp_all add: schema0_def)
qed

lemma one_entry_tree:
  obtains t ls where "tree_clean sd_proto id t ls" "concat ls = [([5], [7])]" "unat (ctx_id t) < 10"
proof -
  obtain t where t: "open_index (LevelDbClient mem_leveldb) sd_proto schema0 Map.empty = Inr t"
    "tree_clean sd_proto id t []" "schema t = schema0" "storage t = Map.empty" "ctx_id t = 0"
    by (rule empty_tree)
  obtain t1 ls where t1: "Bptree_Insert (LevelDbClient mem_leveldb) sd_proto [5] [7] t = Inr (C_OK, t1)"
    "tree_inv sd_proto id t1 ls" "concat ls = smap_emplace [5] [7] (concat [])"
    "storage t1 = storage t" "schema t1 = schema t" "ctx_id t1 = ctx_id t \<or> ctx_id t1 = ctx_id t + 1"
    by (rule in_memory.insert_new [OF in_memory.clean_safe [OF t(2)], of "[5]" "[7]"])
      (simp_all add: max_key_len_def t(5))
  obtain t2 where t2: "PullUnsavedTreeNode (LevelDbClient mem_leveldb) sd_proto t1 = Inr t2"
    "tree_clean sd_proto id t2 ls" "schema t2 = schema t1" "ctx_id t2 = ctx_id t1"
    "heap t2 = heap t1" "root t2 = root t1" by (rule in_memory.save_ok [OF t1(2)])
  show thesis
  proof (rule that [OF t2(2)])
    show "concat ls = [([5], [7])]" by (simp add: t1(3))
    show "unat (ctx_id t2) < 10" using t1(6) t(5) t2(4) by auto
  qed
qed

section \<open>Sessions\<close>

text \<open>C3: Any sequence of insertions, deletions (each followed by a save), lookups and reopenings
  of an index runs to its end without undefined behaviour, and every such run answers as a
  finite map does: insertions of a present key are refused, lookups return what was inserted
  last, whatever nodes were split, emptied, saved and loaded in between. The counters must not
  overflow and keys be at most \<open>max_key_len\<close> long.\<close>

theorem session_simulates_map:
  assumes "am_storage L view pb" "tree_clean pb view t ls" "\<forall>op \<in> set ops. op_ok op"
    "has_room t ls (length ops)"
  shows "(\<exists>outs t'. session_run (LevelDbClient L) pb t ops outs t') \<and>
    (\<forall>outs t'. session_run (LevelDbClient L) pb t ops outs t' \<longrightarrow>
       (\<exists>ls'. tree_clean pb view t' ls' \<and> map_run (map_of (concat ls)) ops outs (map_of (concat ls'))))"
  using bpt_env.sim_run [OF am_storage.env [OF assms(1)] assms(2-4)]
    bpt_env.sim_run_all [OF am_storage.env [OF assms(1)] _ assms(2-4)] by blast

theorem session_simulates_map_witness:
  "\<exists>t outs t'. session_run (LevelDbClient mem_leveldb) sd_proto (t :: (bytes \<rightharpoonup> bytes) tree)
      [Op_Insert [1] [2], Op_Reopen, Op_Get [1], Op_Insert [1] [9], Op_Delete [1]] outs t' \<and>
    outs = [Out C_OK, Out C_OK, Out_value C_OK [2], Out C_BPTREE_DUPLICATE_KEY, Out C_OK]"
proof -
  let ?ops = "[Op_Insert [1] [2], Op_Reopen, Op_Get [1], Op_Insert [1] [9], Op_Delete [1]] :: tree_op list"
  obtain t where t: "open_index (LevelDbClient mem_leveldb) sd_proto schema0 Map.empty = Inr t"
    "tree_clean sd_proto id t []" "schema t = schema0" "storage t = Map.empty" "ctx_id t = 0"
    by (rule empty_tree)
  have ok: "\<forall>op \<in> set ?ops. op_ok op" by (simp add: max_key_len_def)
  have room: "has_room t [] (length ?ops)" by (simp add: has_room_def t(5))
  have sim: "(\<exists>outs t'. session_run (LevelDbClient mem_leveldb) sd_proto t ?ops outs t') \<and>
    (\<forall>outs t'. session_run (LevelDbClient mem_leveldb) sd_proto t ?ops outs t' \<longrightarrow>
       (\<exists>ls'. tree_clean sd_proto id t' ls' \<and> map_run (map_of (concat [])) ?ops outs (map_of (concat ls'))))"
    by (rule session_simulates_map [OF in_memory.am_storage_axioms t(2) ok room])
  then obtain outs t' where run: "session_run (LevelDbClient mem_leveldb) sd_proto t ?ops outs t'" by blast
  with sim obtain ls' where "map_run Map.empty ?ops outs (map_of (concat ls'))" by auto
  then have "outs = [Out C_OK, Out C_OK, Out_value C_OK [2], Out C_BPTREE_DUPLICATE_KEY, Out C_OK]"
    by (auto simp: map_run_simps map_step_simps)
  with run show ?thesis by blast
qed

section \<open>Single operations\<close>

text \<open>C4: Inserting an absent key into a tree whose leaves can be reloaded (all that the program
  has, since it saves before the next key) returns C_OK, adds exactly that entry to the sorted
  contents, whether or not the leaf had to be split, keeps the invariant and writes nothing.\<close>

theorem insert_adds_entry:
  assumes "am_storage L view pb" "tree_safe pb view t ls" "k \<notin> fst ` set (concat ls)"
    "length k \<le> max_key_len" "length v < 2 ^ 32"
    "unat (ctx_id t) < 2 ^ 64 - 1" "length (concat ls) < 2 ^ 64 - 2"
  shows "\<exists>t' ls'. Bptree_Insert (LevelDbClient L) pb k v t = Inr (C_OK, t') \<and>
    tree_inv pb view t' ls' \<and> concat ls' = smap_emplace k v (concat ls) \<and> storage t' = storage t"
  using bpt_env.insert_new [OF am_storage.env [OF assms(1)] assms(2-7)] by metis

theorem insert_adds_entry_witness:
  "\<exists>t t' ls'. Bptree_Insert (LevelDbClient mem_leveldb) sd_proto [1] [2] t = Inr (C_OK, t') \<and>
    tree_inv sd_proto id t' ls' \<and> concat ls' = [([1], [2])] \<and> storage t' = storage t"
proof -
  obtain t where t: "open_index (LevelDbClient mem_leveldb) sd_proto schema0 Map.empty = Inr t"
    "tree_clean sd_proto id t []" "schema t = schema0" "storage t = Map.empty" "ctx_id t = 0"
    by (rule empty_tree)
  have "\<exists>t' ls'. Bptree_Insert (LevelDbClient mem_leveldb) sd_proto [1] [2] t = Inr (C_OK, t') \<and>
    tree_inv sd_proto id t' ls' \<and> concat ls' = smap_emplace [1] [2] (concat []) \<and> storage t' = storage t"
    by (rule insert_adds_entry [OF in_memory.am_storage_axioms in_memory.clean_safe [OF t(2)]])
      (simp_all add: max_key_len_def t(5))
  then show ?thesis by auto
qed

text \<open>C8: Inserting a key that the tree holds returns C_BPTREE_DUPLICATE_KEY and changes neither
  its entries nor what is registered for the next save.\<close>

theorem insert_duplicate_refused:
  assumes "am_storage L view pb" "tree_safe pb view t ls" "k \<in> fst ` set (concat ls)"
  shows "\<exists>t'. Bptree_Insert (LevelDbClient L) pb k v t = Inr (C_BPTREE_DUPLICATE_KEY, t') \<and>
    tree_safe pb view t' ls \<and> unsaved t' = unsaved t \<and> storage t' = storage t"
  using bpt_env.insert_dup [OF am_storage.env [OF assms(1)] assms(2,3)] by metis

theorem insert_duplicate_refused_witness:
  "\<exists>t t' ls. concat ls = [([5], [7])] \<and>
    Bptree_Insert (LevelDbClient mem_leveldb) sd_proto [5] [1] t = Inr (C_BPTREE_DUPLICATE_KEY, t') \<and>
    tree_safe sd_proto id t' ls"
proof -
  obtain t ls where t: "tree_clean sd_proto id t ls" "concat ls = [([5], [7])]" "unat (ctx_id t) < 10"
    by (rule one_entry_tree)
  have "[5] \<in> fst ` set (concat ls)" by (simp add: t(2))
  from insert_duplicate_refused [OF in_memory.am_storage_axioms in_memory.clean_safe [OF t(1)] this, of "[1]"] t(2)
  show ?thesis by blast
qed

text \<open>C5: Deleting a key from a saved tree returns C_OK and removes exactly that key, whether or
  not the tree held it; a leaf that becomes empty is taken out of the root.\<close>

theorem delete_removes_entry:
  assumes "am_storage L view pb" "tree_clean pb view t ls"
  shows "\<exists>t' ls'. Bptree_Delete (LevelDbClient L) pb k t = Inr (C_OK, t') \<and>
    tree_inv pb view t' ls' \<and> concat ls' = smap_erase k (concat ls) \<and> storage t' = storage t"
  using bpt_env.delete_clean [OF am_storage.env [OF assms(1)] assms(2), of k] by metis

theorem delete_removes_entry_witness:
  "\<exists>t t' ls'. Bptree_Delete (LevelDbClient mem_leveldb) sd_proto [5] t = Inr (C_OK, t') \<and>
    tree_inv sd_proto id t' ls' \<and> concat ls' = []"
proof -
  obtain t ls where t: "tree_clean sd_proto id t ls" "concat ls = [([5], [7])]" "unat (ctx_id t) < 10"
    by (rule one_entry_tree)
  from delete_removes_entry [OF in_memory.am_storage_axioms t(1), of "[5]"] t(2)
  show ?thesis by auto
qed

text \<open>C6: A lookup in a saved tree returns the value of the key with C_OK, or leaves the output
  as it was and returns C_STORAGE_KV_NOT_FOUND or C_BPTREE_ERROR, exactly when the key is absent.\<close>

theorem lookup_finds_entry:
  assumes "am_storage L view pb" "tree_clean pb view t ls"
  shows "\<exists>st v t'. Bptree_GetItem (LevelDbClient L) pb k out t = Inr (st, v, t') \<and>
    tree_clean pb view t' ls \<and>
    (case map_of (concat ls) k of Some w \<Rightarrow> st = C_OK \<and> v = w
     | None \<Rightarrow> st \<in> {C_STORAGE_KV_NOT_FOUND, C_BPTREE_ERROR} \<and> v = out)"
  using bpt_env.get_clean [OF am_storage.env [OF assms(1)] assms(2), of k out] by metis

theorem lookup_finds_entry_witness:
  "\<exists>t t'. Bptree_GetItem (LevelDbClient mem_leveldb) sd_proto [5] [] t = Inr (C_OK, [7], t')"
proof -
  obtain t ls where t: "tree_clean sd_proto id t ls" "concat ls = [([5], [7])]" "unat (ctx_id t) < 10"
    by (rule one_entry_tree)
  from lookup_finds_entry [OF in_memory.am_storage_axioms t(1), of "[5]" "[]"] t(2)
  show ?thesis by auto
qed

section \<open>Saving and opening\<close>

text \<open>C7: Saving a tree and opening the index on the resulting storage, with the node counter
  the tree had reached, gives a tree with the same leaves and the same entries in them.\<close>

theorem save_open_roundtrip:
  assumes "am_storage L view pb" "tree_inv pb view t ls"
  shows "\<exists>t1 t2. Index_Save (LevelDbClient L) pb t = Inr (C_OK, t1) \<and>
    open_index (LevelDbClient L) pb ((schema t)\<lparr>ts_tree_id := MaxNodeID t\<rparr>) (storage t1) = Inr t2 \<and>
    tree_clean pb view t2 ls"
proof -
  note env = am_storage.env [OF assms(1)]
  obtain t1 where t1: "PullUnsavedTreeNode (LevelDbClient L) pb t = Inr t1"
    "tree_clean pb view t1 ls" "schema t1 = schema t" "ctx_id t1 = ctx_id t"
    "heap t1 = heap t" "root t1 = root t" by (rule bpt_env.save_ok [OF env assms(2)])
  have "stored_tree pb (view (storage t1)) ((schema t)\<lparr>ts_tree_id := MaxNodeID t\<rparr>) ls"
    using clean_stored [OF t1(2)] by (simp add: MaxNodeID_def t1(3,4))
  then obtain t2 where
    "open_index (LevelDbClient L) pb ((schema t)\<lparr>ts_tree_id := MaxNodeID t\<rparr>) (storage t1) = Inr t2"
    "tree_clean pb view t2 ls" using bpt_env.open_ok [OF env] by metis
  moreover have "Index_Save (LevelDbClient L) pb t = Inr (C_OK, t1)" by (simp add: Index_Save_def t1(1))
  ultimately show ?thesis by blast
qed

theorem save_open_roundtrip_witness:
  "\<exists>t t1 t2 ls. concat ls = [([5], [7])] \<and> Index_Save (LevelDbClient mem_leveldb) sd_proto t = Inr (C_OK, t1) \<and>
    open_index (LevelDbClient mem_leveldb) sd_proto ((schema t)\<lparr>ts_tree_id := MaxNodeID t\<rparr>) (storage t1) = Inr t2 \<and>
    tree_clean sd_proto id t2 ls"
proof -
  obtain t ls where t: "tree_clean sd_proto id t ls" "concat ls = [([5], [7])]" "unat (ctx_id t) < 10"
    by (rule one_entry_tree)
  then have "tree_inv sd_proto id t ls" by (simp add: tree_clean_def)
  from save_open_roundtrip [OF in_memory.am_storage_axioms this] t(2) show ?thesis by blast
qed

text \<open>C9: Reading the entries of a stored leaf back gives the entries that were written, in
  their order, merged into those the node has in memory: an entry in memory wins over a stored one.\<close>

theorem leaf_entries_roundtrip:
  assumes "\<And>k v. (k, v) \<in> set es \<Longrightarrow> length k < 2 ^ 32 \<and> length v < 2 ^ 32"
  shows "load_kvs (length (lp_keys (leaf_proto i es))) (lp_keys (leaf_proto i es))
    (lp_values (leaf_proto i es)) 0 0 m = Inr (emplace_all es m)"
  by (rule load_leaf) (rule assms)

theorem leaf_entries_roundtrip_witness:
  "load_kvs (length (lp_keys (leaf_proto 3 [([1], [2]), ([4], [])]))) (lp_keys (leaf_proto 3 [([1], [2]), ([4], [])]))
    (lp_values (leaf_proto 3 [([1], [2]), ([4], [])])) 0 0 [([4], [9])] = Inr [([1], [2]), ([4], [9])]"
proof -
  have "load_kvs (length (lp_keys (leaf_proto 3 [([1], [2]), ([4], [])]))) (lp_keys (leaf_proto 3 [([1], [2]), ([4], [])]))
    (lp_values (leaf_proto 3 [([1], [2]), ([4], [])])) 0 0 [([4], [9])] =
    Inr (emplace_all [([1], [2]), ([4], [])] [([4], [9])])"
    by (rule leaf_entries_roundtrip) auto
  also have "emplace_all [([1], [2]), ([4], [])] [([4], [9])] = [([1], [2]), ([4], [9 :: 8 word])]"
    by code_simp
  finally show ?thesis .
qed

text \<open>C10: The loop that decodes a leaf record ends on every input, well-formed or not: each round
  consumes at least the four bytes of a length.\<close>

theorem load_loop_terminates: "load_kvs (length keys) keys values 0 0 m \<noteq> Inl Diverges"
  by (rule load_kvs_total) simp

section \<open>Splits\<close>

lemma move_children_result:
  "heap t right = Some r \<Longrightarrow> move_children right cs t = Inl Undefined_Behaviour \<or>
    (\<exists>t1. move_children right cs t = Inr t1 \<and> heap t1 right \<noteq> None)"
proof (induction cs arbitrary: t r)
  case (Cons c cs)
  show ?case
  proof (cases "heap t c")
    case None
    then show ?thesis by (simp add: on_node_def deref_def)
  next
    case (Some n)
    let ?t1 = "put c (n\<lparr>parent := Some right\<rparr>) t"
    obtain r1 where r1: "heap ?t1 right = Some r1" using Cons.prems by (cases "c = right") auto
    have c1: "heap ?t1 c = Some (n\<lparr>parent := Some right\<rparr>)" by simp
    show ?thesis using Cons.IH [of "put right _ ?t1"] Some r1 c1
      by (simp add: Let_def del: put_put)
  qed
qed simp

text \<open>C13: Splitting an inner node is undefined behaviour in every state: the split index is
  computed from the node's entries, of which an inner node has none, so it wraps around, all the
  children move to the new node and the front of the empty vector is read.\<close>

theorem split_inner_node_undefined:
  assumes "heap t p = Some n" "\<not> is_leaf n" "kvs n = []"
  shows "Split p t = Inl Undefined_Behaviour"
proof -
  obtain right t1 where new: "BptNode_new (parent n) (is_leaf n) t = (right, t1)" by fastforce
  have "\<exists>n1. heap t1 p = Some n1 \<and> kvs n1 = []" "\<exists>r. heap t1 right = Some r"
    using new assms(1,3) by (auto simp: BptNode_new_def create_node_def AllocateNodeID_def Let_def)
  then obtain n1 r where n1: "heap t1 p = Some n1" "kvs n1 = []" and r: "heap t1 right = Some r" by blast
  have "split_inner p right t1 = Inl Undefined_Behaviour"
    using move_children_result [OF r, of "children n1"] n1
    by (auto simp: split_inner_def split_idx_def deref_def range_of_def Let_def split: option.splits)
  then show ?thesis using assms(1,2) new by (simp add: Split_def)
qed

theorem split_inner_node_undefined_witness:
  "\<exists>(t :: (bytes \<rightharpoonup> bytes) tree) n. heap t (root t) = Some n \<and> Split (root t) t = Inl Undefined_Behaviour"
proof -
  obtain t ls where t: "tree_clean sd_proto id t ls" "concat ls = [([5], [7])]" "unat (ctx_id t) < 10"
    by (rule one_entry_tree)
  then have inv: "tree_inv sd_proto id t ls" by (simp add: tree_clean_def)
  then obtain rn where rn: "heap t (root t) = Some rn" "root_shape (schema t) rn" by (rule tree_invE)
  then have "\<not> is_leaf rn" "kvs rn = []" by (simp_all add: root_shape_def)
  with split_inner_node_undefined [OF rn(1) this] rn(1) show ?thesis by blast
qed

text \<open>C11: Splitting a leaf of at least three entries cuts its sorted entries in two runs whose
  concatenation is the old one: the left node keeps the first half, rounded up, the new node gets
  the rest, and both record the first and the last key of their run as their range.\<close>

theorem split_leaf_partitions:
  assumes "leaf_shape p n es" "kvs n = es" "smap_ok es" "3 \<le> length es" "length es < 2 ^ 64 - 1"
    "is_leaf r" "\<not> is_root r" "parent r = Some p" "children r = []" "kvs r = []" "write_kvs r = Map.empty"
  shows "\<exists>n1 r1. split_leaf n r = Inr (n1, r1) \<and> kvs n1 @ kvs r1 = es \<and>
    length (kvs n1) = (length es + 1) div 2 \<and>
    leaf_shape p n1 (kvs n1) \<and> leaf_shape p r1 (kvs r1) \<and>
    node_id n1 = node_id n \<and> node_id r1 = node_id r"
proof -
  let ?k = "(length es + 1) div 2"
  obtain n1 r1 where s: "split_leaf n r = Inr (n1, r1)" "leaf_shape p n1 (take ?k es)"
    "kvs n1 = take ?k es" "leaf_shape p r1 (drop ?k es)" "kvs r1 = drop ?k es"
    "node_id n1 = node_id n" "node_id r1 = node_id r"
    by (rule split_leaf_result [OF assms])
  have "length (kvs n1) = ?k" using assms(4) by (simp add: s(3))
  moreover have "kvs n1 @ kvs r1 = es" by (simp add: s(3,5))
  ultimately show ?thesis using s by auto
qed

theorem split_leaf_partitions_witness:
  "\<exists>n1 r1. split_leaf
      \<lparr>node_id = 1, is_loaded = True, is_leaf = True, is_root = False, parent = Some 0, children = [],
       kvs = [([1], []), ([2], []), ([3], [])], write_kvs = Map.empty,
       stat = \<lparr>max_key = [3], min_key = [1], count = 3, node_size = 20000\<rparr>\<rparr>
      \<lparr>node_id = 2, is_loaded = True, is_leaf = True, is_root = False, parent = Some 0, children = [],
       kvs = [], write_kvs = Map.empty, stat = stat_init\<rparr> = Inr (n1, r1) \<and>
    kvs n1 @ kvs r1 = [([1], []), ([2], []), ([3], [])] \<and> length (kvs n1) = 2"
proof -
  let ?es = "[([1], []), ([2], []), ([3], [])] :: kvs"
  let ?n = "\<lparr>node_id = 1, is_loaded = True, is_leaf = True, is_root = False, parent = Some 0, children = [],
    kvs = ?es, write_kvs = Map.empty,
    stat = \<lparr>max_key = [3], min_key = [1], count = 3, node_size = 20000\<rparr>\<rparr>"
  let ?r = "\<lparr>node_id = 2, is_loaded = True, is_leaf = True, is_root = False, parent = Some 0, children = [],
    kvs = [], write_kvs = Map.empty, stat = stat_init\<rparr>"
  have "leaf_shape 0 ?n ?es" by (simp add: leaf_shape_def)
  from split_leaf_partitions [OF this, of ?r] show ?thesis by auto
qed

end
