(* ===== verification/ScanTheorems.thy ===== *)
theory ScanTheorems
  imports BptScan BptTheorems
begin

text \<open>
  The properties of range scans over any LevelDB and any protobuf implementation that behave as
  documented, and what the scans make of their bounds.
\<close>

definition range_opts :: "bytes \<Rightarrow> bool \<Rightarrow> bytes \<Rightarrow> bool \<Rightarrow> iter_opts" where
  "range_opts lo lo_open up up_open =
     \<lparr>it_lower = lo, it_upper = up, lower_open = lo_open, upper_open = up_open\<rparr>"

lemma range_opts_sel [simp]:
  "it_lower (range_opts lo l up u) = lo" "it_upper (range_opts lo l up u) = up"
  "lower_open (range_opts lo l up u) = l" "upper_open (range_opts lo l up u) = u"
  by (simp_all add: range_opts_def)

text \<open>C14: Reading pages from a base iterator over a saved tree runs without undefined behaviour
  and returns the entries of the tree inside the ranges, range after range, each range in key
  order, in pages of the requested size until none is left. This holds for every list of ranges
  that are not open at both ends.\<close>

theorem scan_returns_ranges:
  assumes "am_storage L view pb" "tree_clean pb view t ls" "\<forall>op \<in> set ops. scan_ok op"
  shows "\<exists>b t'. scan_pages (LevelDbClient L) pb ops page k t =
      Inr (take (k * page) (concat (map (\<lambda>op. filter (in_scan op) (concat ls)) ops)), b, t') \<and>
    tree_clean pb view t' ls"
  using bpt_env.scan_pages_ok [OF am_storage.env [OF assms(1)] assms(2,3)] by (simp add: ranges_rest_def)

theorem scan_returns_ranges_witness:
  "\<exists>t b t'. scan_pages (LevelDbClient mem_leveldb) sd_proto
      [range_opts [3] False [6] True, range_opts [5] True [9] False, range_opts [4] True [5] False] 10 1 t =
    Inr ([([5], [7]), ([5], [7])], b, t')"
proof -
  obtain t ls where t: "tree_clean sd_proto id t ls" "concat ls = [([5], [7])]" "unat (ctx_id t) < 10"
    by (rule one_entry_tree)
  let ?ops = "[range_opts [3] False [6] True, range_opts [5] True [9] False, range_opts [4] True [5] False]"
  have ok: "\<forall>op \<in> set ?ops. scan_ok op" by (simp add: scan_ok_def)
  from scan_returns_ranges [OF in_memory.am_storage_axioms t(1) ok, of 10 1] t(2) show ?thesis
    by (auto simp: in_scan_def from_lower_def past_upper_def)
qed

text \<open>C15: A range that is closed at both ends does not return the entry at its upper bound: a
  scan from a key to that same key returns nothing, although the tree holds the key. The bound
  is tested with the flag of the lower end.\<close>

theorem closed_point_range_empty:
  assumes "am_storage L view pb" "tree_clean pb view t ls"
  shows "\<exists>b t'. scan_pages (LevelDbClient L) pb [range_opts key False key False] page k t = Inr ([], b, t')"
proof -
  have ok: "\<forall>op \<in> set [range_opts key False key False]. scan_ok op" by (simp add: scan_ok_def)
  have "filter (in_scan (range_opts key False key False)) (concat ls) = []"
    by (auto simp: filter_empty_conv in_scan_def from_lower_def past_upper_def)
  with bpt_env.scan_pages_ok [OF am_storage.env [OF assms(1)] assms(2) ok] show ?thesis by fastforce
qed

theorem closed_point_range_empty_witness:
  "\<exists>t b t' ls. tree_clean sd_proto id t ls \<and> map_of (concat ls) [5] = Some [7] \<and>
    scan_pages (LevelDbClient mem_leveldb) sd_proto [range_opts [5] False [5] False] 10 1 t = Inr ([], b, t')"
proof -
  obtain t ls where t: "tree_clean sd_proto id t ls" "concat ls = [([5], [7])]" "unat (ctx_id t) < 10"
    by (rule one_entry_tree)
  have "map_of (concat ls) [5] = Some [7]" by (simp add: t(2))
  with closed_point_range_empty [OF in_memory.am_storage_axioms t(1), of "[5]" 10 1] t(1) show ?thesis by blast
qed

end
