(* ===== verification/Schema.thy ===== *)
theory Schema
  imports Protobuf ExprValue
begin

text \<open>
  The schema of databases, tables, columns and indexes (\<open>schema/schema.h\<close>, \<open>schema/schema.cc\<close>),
  the enumerations of the parser it stores (\<open>parser/ddl.h\<close>) and their conversion to the types of
  values (\<open>expression/expr_value_type.cc\<close>).

  A table refers to its columns and indexes by pointers into its own vectors; such a pointer is
  the position of the element here. Deserializing reserves the vectors first, so that the pointers
  of a table that was empty before stay valid.
\<close>

section \<open>Enumerations\<close>

datatype MysqlType =
    MYSQL_TYPE_DECIMAL | MYSQL_TYPE_TINY | MYSQL_TYPE_SHORT | MYSQL_TYPE_LONG
     | MYSQL_TYPE_FLOAT | MYSQL_TYPE_DOUBLE | MYSQL_TYPE_NULL | MYSQL_TYPE_TIMESTAMP
     | MYSQL_TYPE_LONGLONG | MYSQL_TYPE_INT24 | MYSQL_TYPE_DATE | MYSQL_TYPE_TIME
     | MYSQL_TYPE_DATETIME | MYSQL_TYPE_YEAR | MYSQL_TYPE_NEWDATE | MYSQL_TYPE_VARCHAR
     | MYSQL_TYPE_BIT | MYSQL_TYPE_TIMESTAMP2 | MYSQL_TYPE_DATETIME2 | MYSQL_TYPE_TIME2
     | MYSQL_TYPE_TDIGEST | MYSQL_TYPE_BITMAP | MYSQL_TYPE_HLL | MYSQL_TYPE_JSON
     | MYSQL_TYPE_NEWDECIMAL | MYSQL_TYPE_ENUM | MYSQL_TYPE_SET | MYSQL_TYPE_TINY_BLOB
     | MYSQL_TYPE_MEDIUM_BLOB | MYSQL_TYPE_LONG_BLOB | MYSQL_TYPE_BLOB | MYSQL_TYPE_VAR_STRING
     | MYSQL_TYPE_STRING | MYSQL_TYPE_GEOMETRY

fun mysql_type_code :: "MysqlType \<Rightarrow> u8" where
  "mysql_type_code MYSQL_TYPE_DECIMAL = 0"
| "mysql_type_code MYSQL_TYPE_TINY = 1"
| "mysql_type_code MYSQL_TYPE_SHORT = 2"
| "mysql_type_code MYSQL_TYPE_LONG = 3"
| "mysql_type_code MYSQL_TYPE_FLOAT = 4"
| "mysql_type_code MYSQL_TYPE_DOUBLE = 5"
| "mysql_type_code MYSQL_TYPE_NULL = 6"
| "mysql_type_code MYSQL_TYPE_TIMESTAMP = 7"
| "mysql_type_code MYSQL_TYPE_LONGLONG = 8"
| "mysql_type_code MYSQL_TYPE_INT24 = 9"
| "mysql_type_code MYSQL_TYPE_DATE = 10"
| "mysql_type_code MYSQL_TYPE_TIME = 11"
| "mysql_type_code MYSQL_TYPE_DATETIME = 12"
| "mysql_type_code MYSQL_TYPE_YEAR = 13"
| "mysql_type_code MYSQL_TYPE_NEWDATE = 14"
| "mysql_type_code MYSQL_TYPE_VARCHAR = 15"
| "mysql_type_code MYSQL_TYPE_BIT = 16"
| "mysql_type_code MYSQL_TYPE_TIMESTAMP2 = 17"
| "mysql_type_code MYSQL_TYPE_DATETIME2 = 18"
| "mysql_type_code MYSQL_TYPE_TIME2 = 19"
| "mysql_type_code MYSQL_TYPE_TDIGEST = 242"
| "mysql_type_code MYSQL_TYPE_BITMAP = 243"
| "mysql_type_code MYSQL_TYPE_HLL = 244"
| "mysql_type_code MYSQL_TYPE_JSON = 245"
| "mysql_type_code MYSQL_TYPE_NEWDECIMAL = 246"
| "mysql_type_code MYSQL_TYPE_ENUM = 247"
| "mysql_type_code MYSQL_TYPE_SET = 248"
| "mysql_type_code MYSQL_TYPE_TINY_BLOB = 249"
| "mysql_type_code MYSQL_TYPE_MEDIUM_BLOB = 250"
| "mysql_type_code MYSQL_TYPE_LONG_BLOB = 251"
| "mysql_type_code MYSQL_TYPE_BLOB = 252"
| "mysql_type_code MYSQL_TYPE_VAR_STRING = 253"
| "mysql_type_code MYSQL_TYPE_STRING = 254"
| "mysql_type_code MYSQL_TYPE_GEOMETRY = 255"

datatype CharacterSet = CHARSET_ASCII | CHARSET_UTF8 | CHARSET_GBK | CHARSET_LATIN1 | CHARSET_BINARY | CHARSET_NULL

text \<open>Eight bits are read back into a \<open>ConstraintType\<close> without a check: the last constructor stands
  for a value that is none of the enumerators.\<close>

datatype ConstraintType =
    CONSTRAINT_NONE | CONSTRAINT_PRIMARY | CONSTRAINT_INDEX | CONSTRAINT_UNIQ | CONSTRAINT_FOREIGN_KEY
  | CONSTRAINT_FULLTEXT | CONSTRAINT_other u8

fun constraint_code :: "ConstraintType \<Rightarrow> u8" where
  "constraint_code CONSTRAINT_NONE = 0"
| "constraint_code CONSTRAINT_PRIMARY = 1"
| "constraint_code CONSTRAINT_INDEX = 2"
| "constraint_code CONSTRAINT_UNIQ = 3"
| "constraint_code CONSTRAINT_FOREIGN_KEY = 4"
| "constraint_code CONSTRAINT_FULLTEXT = 5"
| "constraint_code (CONSTRAINT_other c) = c"

definition constraint_of_code :: "u8 \<Rightarrow> ConstraintType" where
  "constraint_of_code c =
     (if c = 0 then CONSTRAINT_NONE else if c = 1 then CONSTRAINT_PRIMARY
      else if c = 2 then CONSTRAINT_INDEX else if c = 3 then CONSTRAINT_UNIQ
      else if c = 4 then CONSTRAINT_FOREIGN_KEY else if c = 5 then CONSTRAINT_FULLTEXT
      else CONSTRAINT_other c)"

definition constraint_ok :: "ConstraintType \<Rightarrow> bool" where
  "constraint_ok t \<longleftrightarrow> constraint_of_code (constraint_code t) = t"

lemma constraint_ok_enumerators [simp]:
  "constraint_ok CONSTRAINT_NONE" "constraint_ok CONSTRAINT_PRIMARY" "constraint_ok CONSTRAINT_INDEX"
  "constraint_ok CONSTRAINT_UNIQ" "constraint_ok CONSTRAINT_FOREIGN_KEY" "constraint_ok CONSTRAINT_FULLTEXT"
  by (simp_all add: constraint_ok_def constraint_of_code_def)

section \<open>Records\<close>

definition kInvalidIDatabaseID :: u64 where "kInvalidIDatabaseID = - 1"
definition kInvalidTableID :: u64 where "kInvalidTableID = - 1"
definition kInvalidIndexID :: u32 where "kInvalidIndexID = - 1"
definition kInvalidColumnID :: u64 where "kInvalidColumnID = - 1"

record ColumnType =
  ct_type :: MysqlType
  ct_charset :: CharacterSet

record ColumnInfo =
  col_id :: u64
  col_table_id :: u64
  col_name :: bytes
  col_table_name :: bytes
  col_type :: ColumnType
  col_comment :: bytes

record IndexInfo =
  idx_id :: u64
  idx_table_id :: u64
  idx_name :: bytes
  idx_table_name :: bytes
  idx_columns :: "ColumnInfo list"
  idx_root_node_id :: u64
  idx_max_tree_node_id :: u64
  idx_type :: ConstraintType
  idx_comment :: bytes

record TableInfo =
  tbl_id :: u64
  tbl_db_id :: u64
  tbl_name :: bytes
  tbl_db_name :: bytes
  column_list :: "ColumnInfo list"
  name_to_column :: "bytes \<rightharpoonup> nat"
  id_to_column :: "u64 \<rightharpoonup> nat"
  index_list :: "IndexInfo list"
  id_to_index :: "u64 \<rightharpoonup> nat"
  name_to_index :: "bytes \<rightharpoonup> nat"
  column_id_to_index :: "u64 \<rightharpoonup> nat list"
  primary_index :: "nat option"
  tbl_create_ts :: u64
  tbl_update_ts :: u64

record DatabaseInfo =
  dbi_id :: u64
  dbi_name :: bytes
  table_ids :: "u64 set"
  dbi_create_ts :: u64
  dbi_update_ts :: u64
  dbi_comment :: bytes

text \<open>New objects. The vectors and the arena value-initialize their elements: members without an
  initializer are zero.\<close>

definition ColumnInfo_new :: ColumnInfo where
  "ColumnInfo_new =
     \<lparr>col_id = kInvalidColumnID, col_table_id = kInvalidTableID, col_name = [], col_table_name = [],
      col_type = \<lparr>ct_type = MYSQL_TYPE_DECIMAL, ct_charset = CHARSET_NULL\<rparr>, col_comment = []\<rparr>"

definition IndexInfo_new :: IndexInfo where
  "IndexInfo_new =
     \<lparr>idx_id = ucast kInvalidIndexID, idx_table_id = kInvalidTableID, idx_name = [], idx_table_name = [],
      idx_columns = [], idx_root_node_id = 0, idx_max_tree_node_id = 0, idx_type = CONSTRAINT_NONE,
      idx_comment = []\<rparr>"

definition TableInfo_new :: TableInfo where
  "TableInfo_new =
     \<lparr>tbl_id = kInvalidTableID, tbl_db_id = kInvalidIDatabaseID, tbl_name = [], tbl_db_name = [],
      column_list = [], name_to_column = Map.empty, id_to_column = Map.empty, index_list = [],
      id_to_index = Map.empty, name_to_index = Map.empty, column_id_to_index = Map.empty,
      primary_index = None, tbl_create_ts = 0, tbl_update_ts = 0\<rparr>"

definition DatabaseInfo_new :: DatabaseInfo where
  "DatabaseInfo_new =
     \<lparr>dbi_id = kInvalidIDatabaseID, dbi_name = [], table_ids = {}, dbi_create_ts = 0,
      dbi_update_ts = 0, dbi_comment = []\<rparr>"

section \<open>Columns and indexes\<close>

text \<open>The type of a column is not written.\<close>

definition ColumnInfo_Serialize :: "ColumnInfo \<Rightarrow> ColumnProto" where
  "ColumnInfo_Serialize c =
     \<lparr>cp_id = col_id c, cp_name = col_name c, cp_table_id = col_table_id c,
      cp_table_name = col_table_name c, cp_type = 0, cp_charset = 0, cp_comment = col_comment c\<rparr>"

definition ColumnInfo_Deserialize :: "ColumnProto \<Rightarrow> ColumnInfo \<Rightarrow> ColumnInfo" where
  "ColumnInfo_Deserialize p c =
     c\<lparr>col_id := cp_id p, col_name := cp_name p, col_table_id := cp_table_id p,
       col_table_name := cp_table_name p, col_comment := cp_comment p\<rparr>"

definition IndexInfo_Serialize :: "IndexInfo \<Rightarrow> IndexProto" where
  "IndexInfo_Serialize i =
     \<lparr>ip_id = idx_id i, ip_name = idx_name i, ip_table_id = idx_table_id i,
      ip_table_name = idx_table_name i, ip_columns = map ColumnInfo_Serialize (idx_columns i),
      ip_type = ucast (constraint_code (idx_type i)), ip_comment = idx_comment i,
      ip_root_node_id = idx_root_node_id i, ip_max_tree_node_id = idx_max_tree_node_id i\<rparr>"

definition IndexInfo_Deserialize :: "IndexProto \<Rightarrow> IndexInfo \<Rightarrow> IndexInfo" where
  "IndexInfo_Deserialize p i =
     i\<lparr>idx_id := ip_id p, idx_table_id := ip_table_id p, idx_name := ip_name p,
       idx_table_name := ip_table_name p, idx_root_node_id := ip_root_node_id p,
       idx_max_tree_node_id := ip_max_tree_node_id p, idx_type := constraint_of_code (ucast (ip_type p)),
       idx_comment := ip_comment p,
       idx_columns := idx_columns i @ map (\<lambda>c. ColumnInfo_Deserialize c ColumnInfo_new) (ip_columns p)\<rparr>"

section \<open>Tables\<close>

definition TableInfo_Serialize :: "TableInfo \<Rightarrow> TableProto" where
  "TableInfo_Serialize t =
     \<lparr>tp_id = tbl_id t, tp_name = tbl_name t, tp_database_id = tbl_db_id t,
      tp_database_name = tbl_db_name t, tp_columns = map ColumnInfo_Serialize (column_list t),
      tp_col_index = map IndexInfo_Serialize (index_list t), tp_create_ts = tbl_create_ts t,
      tp_update_ts = tbl_update_ts t\<rparr>"

text \<open>The bodies of the three loops of \<open>Deserialize\<close>.\<close>

definition load_column :: "ColumnProto \<Rightarrow> TableInfo \<Rightarrow> TableInfo" where
  "load_column p t =
     (let c = ColumnInfo_Deserialize p ColumnInfo_new; k = length (column_list t) in
      t\<lparr>column_list := column_list t @ [c], id_to_column := (id_to_column t)(col_id c \<mapsto> k),
        name_to_column := (name_to_column t)(col_name c \<mapsto> k)\<rparr>)"

definition load_index :: "IndexProto \<Rightarrow> TableInfo \<Rightarrow> TableInfo" where
  "load_index p t =
     (let i = IndexInfo_Deserialize p IndexInfo_new; k = length (index_list t) in
      t\<lparr>index_list := index_list t @ [i],
        primary_index := (if idx_type i = CONSTRAINT_PRIMARY then Some k else primary_index t),
        id_to_index := (id_to_index t)(ip_id p \<mapsto> k), name_to_index := (name_to_index t)(ip_name p \<mapsto> k)\<rparr>)"

definition add_column_index :: "nat \<Rightarrow> ColumnInfo \<Rightarrow> (u64 \<rightharpoonup> nat list) \<Rightarrow> (u64 \<rightharpoonup> nat list)" where
  "add_column_index k c m =
     m(col_id c \<mapsto> (case m (col_id c) of None \<Rightarrow> [] | Some ks \<Rightarrow> ks) @ [k])"

definition link_index :: "nat \<Rightarrow> IndexInfo \<Rightarrow> (u64 \<rightharpoonup> nat list) \<Rightarrow> (u64 \<rightharpoonup> nat list)" where
  "link_index k i m = fold (add_column_index k) (idx_columns i) m"

definition link_columns :: "TableInfo \<Rightarrow> TableInfo" where
  "link_columns t =
     t\<lparr>column_id_to_index := fold (\<lambda>(k, i). link_index k i)
         (zip [0..<length (index_list t)] (index_list t)) (column_id_to_index t)\<rparr>"

definition TableInfo_Deserialize :: "TableProto \<Rightarrow> TableInfo \<Rightarrow> TableInfo" where
  "TableInfo_Deserialize p t =
     link_columns (fold load_index (tp_col_index p) (fold load_column (tp_columns p)
       (t\<lparr>tbl_id := tp_id p, tbl_db_id := tp_database_id p, tbl_name := tp_name p,
          tbl_db_name := tp_database_name p, tbl_create_ts := tp_create_ts p,
          tbl_update_ts := tp_update_ts p\<rparr>)))"

definition FullName :: "TableInfo \<Rightarrow> bytes" where
  "FullName t = tbl_db_name t @ [46] @ tbl_name t"

definition FullId :: "TableInfo \<Rightarrow> bytes" where
  "FullId t = dec_of_nat (unat (tbl_db_id t)) @ [46] @ dec_of_nat (unat (tbl_id t))"

section \<open>Databases\<close>

text \<open>The order in which an \<open>unordered_set\<close> is iterated is an argument.\<close>

definition DatabaseInfo_Serialize :: "(u64 set \<Rightarrow> u64 list) \<Rightarrow> DatabaseInfo \<Rightarrow> DatabaseProto" where
  "DatabaseInfo_Serialize order d =
     \<lparr>dp_id = dbi_id d, dp_name = dbi_name d, dp_table_ids = order (table_ids d),
      dp_create_ts = dbi_create_ts d, dp_update_ts = dbi_update_ts d, dp_comment = dbi_comment d\<rparr>"

definition DatabaseInfo_Deserialize :: "DatabaseProto \<Rightarrow> DatabaseInfo \<Rightarrow> DatabaseInfo" where
  "DatabaseInfo_Deserialize p d =
     d\<lparr>dbi_id := dp_id p, dbi_name := dp_name p, dbi_create_ts := dp_create_ts p,
       dbi_update_ts := dp_update_ts p, dbi_comment := dp_comment p,
       table_ids := fold insert (dp_table_ids p) (table_ids d)\<rparr>"

section \<open>Types of values\<close>

definition ToExprType :: "ColumnType \<Rightarrow> ExprValueType" where
  "ToExprType ct =
     (case ct_type ct of
        MYSQL_TYPE_SHORT \<Rightarrow> Int32
      | MYSQL_TYPE_LONG \<Rightarrow> Int64
      | MYSQL_TYPE_LONGLONG \<Rightarrow> Int64
      | MYSQL_TYPE_STRING \<Rightarrow> String
      | MYSQL_TYPE_DECIMAL \<Rightarrow> Int64
      | _ \<Rightarrow> Null)"

section \<open>Consistency of the lookups of a table\<close>

text \<open>A lookup table refers every key to a position that has the key, and misses none.\<close>

definition points_to :: "('k \<rightharpoonup> nat) \<Rightarrow> 'k list \<Rightarrow> bool" where
  "points_to m ks \<longleftrightarrow> (\<forall>i k. m i = Some k \<longrightarrow> k < length ks \<and> ks ! k = i) \<and> set ks \<subseteq> dom m"

lemma points_to_empty [simp]: "points_to Map.empty []"
  by (simp add: points_to_def)

lemma points_to_snoc [simp]: "points_to m ks \<Longrightarrow> points_to (m(x \<mapsto> length ks)) (ks @ [x])"
  by (auto simp: points_to_def nth_append less_Suc_eq)

text \<open>\<open>emplace\<close> keeps the first entry of a key.\<close>

lemma points_to_emplace: "points_to m ks \<Longrightarrow> x \<in> dom m \<Longrightarrow> points_to m (ks @ [x])"
  unfolding points_to_def by (fastforce simp: nth_append intro: less_SucI)

lemma points_to_distinct: "points_to m ks \<Longrightarrow> distinct ks \<Longrightarrow> k < length ks \<Longrightarrow> m (ks ! k) = Some k"
  unfolding points_to_def by (metis domIff distinct_conv_nth not_None_eq nth_mem subsetD)

definition index_points :: "(u64 \<rightharpoonup> nat list) \<Rightarrow> IndexInfo list \<Rightarrow> bool" where
  "index_points m is \<longleftrightarrow> (\<forall>c k. (\<exists>ks. m c = Some ks \<and> k \<in> set ks) \<longleftrightarrow>
     k < length is \<and> c \<in> col_id ` set (idx_columns (is ! k)))"

definition primary_points :: "nat option \<Rightarrow> IndexInfo list \<Rightarrow> bool" where
  "primary_points p is \<longleftrightarrow>
     (case p of
        None \<Rightarrow> \<forall>i \<in> set is. idx_type i \<noteq> CONSTRAINT_PRIMARY
      | Some k \<Rightarrow> k < length is \<and> idx_type (is ! k) = CONSTRAINT_PRIMARY)"

definition table_ok :: "TableInfo \<Rightarrow> bool" where
  "table_ok t \<longleftrightarrow>
     points_to (id_to_column t) (map col_id (column_list t)) \<and>
     points_to (name_to_column t) (map col_name (column_list t)) \<and>
     points_to (id_to_index t) (map idx_id (index_list t)) \<and>
     points_to (name_to_index t) (map idx_name (index_list t)) \<and>
     primary_points (primary_index t) (index_list t) \<and>
     index_points (column_id_to_index t) (index_list t)"

text \<open>The loops of \<open>Deserialize\<close>.\<close>

definition columns_ok :: "TableInfo \<Rightarrow> bool" where
  "columns_ok t \<longleftrightarrow>
     points_to (id_to_column t) (map col_id (column_list t)) \<and>
     points_to (name_to_column t) (map col_name (column_list t))"

definition indexes_ok :: "TableInfo \<Rightarrow> bool" where
  "indexes_ok t \<longleftrightarrow>
     points_to (id_to_index t) (map idx_id (index_list t)) \<and>
     points_to (name_to_index t) (map idx_name (index_list t)) \<and>
     primary_points (primary_index t) (index_list t)"

lemma load_column_ok: "columns_ok t \<Longrightarrow> columns_ok (load_column p t)"
  by (auto simp: columns_ok_def load_column_def Let_def intro: points_to_snoc [of _ "map _ _", simplified])

lemma load_columns:
  "columns_ok t \<Longrightarrow> columns_ok (fold load_column ps t) \<and>
   column_list (fold load_column ps t) = column_list t @ map (\<lambda>p. ColumnInfo_Deserialize p ColumnInfo_new) ps"
proof (induction ps arbitrary: t)
  case (Cons p ps)
  from Cons.IH [OF load_column_ok [OF Cons.prems, of p]] show ?case
    by (simp add: load_column_def Let_def)
qed simp

text \<open>What a loop over the columns leaves alone, and the other way round.\<close>

lemma load_columns_frame:
  "index_list (fold load_column ps t) = index_list t" "id_to_index (fold load_column ps t) = id_to_index t"
  "name_to_index (fold load_column ps t) = name_to_index t"
  "primary_index (fold load_column ps t) = primary_index t"
  "column_id_to_index (fold load_column ps t) = column_id_to_index t"
  "tbl_id (fold load_column ps t) = tbl_id t" "tbl_db_id (fold load_column ps t) = tbl_db_id t"
  "tbl_name (fold load_column ps t) = tbl_name t" "tbl_db_name (fold load_column ps t) = tbl_db_name t"
  "tbl_create_ts (fold load_column ps t) = tbl_create_ts t"
  "tbl_update_ts (fold load_column ps t) = tbl_update_ts t"
  by (induction ps arbitrary: t) (simp_all add: load_column_def Let_def)

lemma load_indexes_frame:
  "column_list (fold load_index ps t) = column_list t" "id_to_column (fold load_index ps t) = id_to_column t"
  "name_to_column (fold load_index ps t) = name_to_column t"
  "column_id_to_index (fold load_index ps t) = column_id_to_index t"
  "tbl_id (fold load_index ps t) = tbl_id t" "tbl_db_id (fold load_index ps t) = tbl_db_id t"
  "tbl_name (fold load_index ps t) = tbl_name t" "tbl_db_name (fold load_index ps t) = tbl_db_name t"
  "tbl_create_ts (fold load_index ps t) = tbl_create_ts t"
  "tbl_update_ts (fold load_index ps t) = tbl_update_ts t"
  by (induction ps arbitrary: t) (simp_all add: load_index_def Let_def)

lemma primary_points_snoc:
  "primary_points p is \<Longrightarrow>
   primary_points (if idx_type i = CONSTRAINT_PRIMARY then Some (length is) else p) (is @ [i])"
  by (cases p) (auto simp: primary_points_def nth_append)

lemma load_index_ok: "indexes_ok t \<Longrightarrow> indexes_ok (load_index p t)"
  using points_to_snoc [of "id_to_index t" "map idx_id (index_list t)" "ip_id p"]
    points_to_snoc [of "name_to_index t" "map idx_name (index_list t)" "ip_name p"]
    primary_points_snoc [of "primary_index t" "index_list t" "IndexInfo_Deserialize p IndexInfo_new"]
  by (simp add: indexes_ok_def load_index_def Let_def IndexInfo_Deserialize_def)

lemma load_indexes:
  "indexes_ok t \<Longrightarrow> indexes_ok (fold load_index ps t) \<and>
   index_list (fold load_index ps t) = index_list t @ map (\<lambda>p. IndexInfo_Deserialize p IndexInfo_new) ps"
proof (induction ps arbitrary: t)
  case (Cons p ps)
  from Cons.IH [OF load_index_ok [OF Cons.prems, of p]] show ?case
    by (simp add: load_index_def Let_def)
qed simp

text \<open>What the last loop has recorded.\<close>

definition recorded :: "(u64 \<rightharpoonup> nat list) \<Rightarrow> u64 \<Rightarrow> nat \<Rightarrow> bool" where
  "recorded m c k \<longleftrightarrow> (\<exists>ks. m c = Some ks \<and> k \<in> set ks)"

lemma recorded_add [simp]: "recorded (add_column_index k col m) c j \<longleftrightarrow> recorded m c j \<or> c = col_id col \<and> j = k"
  by (cases "m (col_id col)") (auto simp: recorded_def add_column_index_def)

lemma recorded_link [simp]: "recorded (link_index k i m) c j \<longleftrightarrow> recorded m c j \<or> c \<in> col_id ` set (idx_columns i) \<and> j = k"
  unfolding link_index_def
proof (induction "idx_columns i" arbitrary: i m)
  case (Cons col cols)
  from Cons.hyps(1) [of "i\<lparr>idx_columns := cols\<rparr>" "add_column_index k col m"] show ?case
    unfolding Cons.hyps(2) [symmetric] by auto
qed simp

lemma recorded_fold:
  "recorded (fold (\<lambda>(k, i). link_index k i) kis m) c j \<longleftrightarrow>
   recorded m c j \<or> (\<exists>i. (j, i) \<in> set kis \<and> c \<in> col_id ` set (idx_columns i))"
  by (induction kis arbitrary: m) auto

lemma link_columns_ok:
  assumes "columns_ok t" "indexes_ok t" "column_id_to_index t = Map.empty"
  shows "table_ok (link_columns t)"
proof -
  have r: "recorded (column_id_to_index (link_columns t)) c k \<longleftrightarrow>
      k < length (index_list t) \<and> c \<in> col_id ` set (idx_columns (index_list t ! k))" for c k
  proof -
    have "recorded (column_id_to_index t) c k = False" by (simp add: recorded_def assms(3))
    moreover have "(\<exists>i. (k, i) \<in> set (zip [0..<length (index_list t)] (index_list t)) \<and> c \<in> col_id ` set (idx_columns i)) \<longleftrightarrow>
      k < length (index_list t) \<and> c \<in> col_id ` set (idx_columns (index_list t ! k))"
      by (force simp: set_zip)
    ultimately show ?thesis unfolding link_columns_def by (simp add: recorded_fold del: set_zip)
  qed
  then have "index_points (column_id_to_index (link_columns t)) (index_list t)"
    unfolding index_points_def recorded_def by blast
  with assms(1,2) show ?thesis by (simp add: table_ok_def columns_ok_def indexes_ok_def link_columns_def)
qed

lemma link_columns_frame:
  "column_list (link_columns t) = column_list t" "index_list (link_columns t) = index_list t"
  "tbl_id (link_columns t) = tbl_id t" "tbl_db_id (link_columns t) = tbl_db_id t"
  "tbl_name (link_columns t) = tbl_name t" "tbl_db_name (link_columns t) = tbl_db_name t"
  "tbl_create_ts (link_columns t) = tbl_create_ts t" "tbl_update_ts (link_columns t) = tbl_update_ts t"
  by (simp_all add: link_columns_def)

lemmas table_frames = load_columns_frame load_indexes_frame link_columns_frame

lemma TableInfo_new_ok: "columns_ok (TableInfo_new\<lparr>tbl_id := a, tbl_db_id := b, tbl_name := c, tbl_db_name := d,
      tbl_create_ts := e, tbl_update_ts := f\<rparr>)"
    "indexes_ok (TableInfo_new\<lparr>tbl_id := a, tbl_db_id := b, tbl_name := c, tbl_db_name := d,
      tbl_create_ts := e, tbl_update_ts := f\<rparr>)"
  by (simp_all add: columns_ok_def indexes_ok_def TableInfo_new_def primary_points_def)

lemma deserialize_lists:
  "column_list (TableInfo_Deserialize p TableInfo_new) = map (\<lambda>c. ColumnInfo_Deserialize c ColumnInfo_new) (tp_columns p)"
  "index_list (TableInfo_Deserialize p TableInfo_new) = map (\<lambda>i. IndexInfo_Deserialize i IndexInfo_new) (tp_col_index p)"
proof -
  have i: "indexes_ok (fold load_column ps t)" if "indexes_ok t" for ps t
    using that by (simp add: indexes_ok_def table_frames)
  show "column_list (TableInfo_Deserialize p TableInfo_new) = map (\<lambda>c. ColumnInfo_Deserialize c ColumnInfo_new) (tp_columns p)"
    using load_columns [OF TableInfo_new_ok(1)] by (simp add: TableInfo_Deserialize_def table_frames TableInfo_new_def)
  show "index_list (TableInfo_Deserialize p TableInfo_new) = map (\<lambda>i. IndexInfo_Deserialize i IndexInfo_new) (tp_col_index p)"
    using load_indexes [OF i [OF TableInfo_new_ok(2)]] by (simp add: TableInfo_Deserialize_def table_frames TableInfo_new_def)
qed

lemma table_deserialize_ok: "table_ok (TableInfo_Deserialize p TableInfo_new)"
proof -
  let ?t = "TableInfo_new\<lparr>tbl_id := tp_id p, tbl_db_id := tp_database_id p, tbl_name := tp_name p,
          tbl_db_name := tp_database_name p, tbl_create_ts := tp_create_ts p, tbl_update_ts := tp_update_ts p\<rparr>"
  let ?c = "fold load_column (tp_columns p) ?t"
  have c: "columns_ok ?c" using load_columns [OF TableInfo_new_ok(1)] by blast
  have i: "indexes_ok ?c" using TableInfo_new_ok(2) by (simp add: indexes_ok_def table_frames)
  have "columns_ok (fold load_index (tp_col_index p) ?c)" using c by (simp add: columns_ok_def table_frames)
  moreover have "indexes_ok (fold load_index (tp_col_index p) ?c)" using load_indexes [OF i] by blast
  moreover have "column_id_to_index (fold load_index (tp_col_index p) ?c) = Map.empty"
    by (simp add: table_frames TableInfo_new_def)
  ultimately show ?thesis unfolding TableInfo_Deserialize_def by (rule link_columns_ok)
qed

section \<open>Round trips\<close>

text \<open>What is left of a column that was written: its type is the one of a new column.\<close>

definition stored_column :: "ColumnInfo \<Rightarrow> ColumnInfo" where
  "stored_column c = c\<lparr>col_type := col_type ColumnInfo_new\<rparr>"

definition stored_index :: "IndexInfo \<Rightarrow> IndexInfo" where
  "stored_index i = i\<lparr>idx_columns := map stored_column (idx_columns i)\<rparr>"

lemma column_roundtrip: "ColumnInfo_Deserialize (ColumnInfo_Serialize c) ColumnInfo_new = stored_column c"
  by (simp add: ColumnInfo_Deserialize_def ColumnInfo_Serialize_def stored_column_def ColumnInfo_new_def)

lemma ucast_u8_u32 [simp]: "ucast (ucast (c :: u8) :: u32) = c"
  by (rule bit_word_eqI) (auto simp: bit_simps)

lemma index_roundtrip:
  "constraint_ok (idx_type i) \<Longrightarrow> IndexInfo_Deserialize (IndexInfo_Serialize i) IndexInfo_new = stored_index i"
  by (simp add: IndexInfo_Deserialize_def IndexInfo_Serialize_def stored_index_def IndexInfo_new_def
      column_roundtrip constraint_ok_def comp_def)

end
