(* ===== verification/Metadata.thy ===== *)
theory Metadata
  imports Schema SchemaCodec KvStorage
begin

text \<open>
  The catalogue (\<open>storage/metadata.cc\<close>): the records of databases and tables under their ids, and
  the ids under their names. Tree nodes are dumped and loaded in \<open>BptNode\<close>. The order in which a
  hash set is iterated and the protobuf library are arguments.
\<close>

section \<open>Databases\<close>

definition DumpDatabaseMeta ::
    "'s kv_api \<Rightarrow> proto_ops \<Rightarrow> (u64 set \<Rightarrow> u64 list) \<Rightarrow> u64 \<Rightarrow> DatabaseInfo \<Rightarrow> 's \<Rightarrow> (status \<times> 's) res" where
  "DumpDatabaseMeta kv pb order db_id info s =
     PutKV kv (snd (EncodeDatabaseID db_id [])) (ser_database pb (DatabaseInfo_Serialize order info)) s"

definition LoadDatabaseMeta ::
    "'s kv_api \<Rightarrow> proto_ops \<Rightarrow> u64 \<Rightarrow> DatabaseInfo \<Rightarrow> 's \<Rightarrow> (status \<times> DatabaseInfo) res" where
  "LoadDatabaseMeta kv pb db_id info s =
     bindR (GetKV kv (snd (EncodeDatabaseID db_id [])) [] s) (\<lambda>(st, v).
       if st \<noteq> C_OK then Inr (st, info)
       else (case parse_database pb v of
           None \<Rightarrow> Inr (C_DATABASE_SCHEMA_ERROR, info)
         | Some p \<Rightarrow> Inr (C_OK, DatabaseInfo_Deserialize p info)))"

definition ModifyDatabaseMeta ::
    "'s kv_api \<Rightarrow> proto_ops \<Rightarrow> (u64 set \<Rightarrow> u64 list) \<Rightarrow> u64 \<Rightarrow>
     (DatabaseInfo \<Rightarrow> (status \<times> DatabaseInfo) res) \<Rightarrow> 's \<Rightarrow> (status \<times> 's) res" where
  "ModifyDatabaseMeta kv pb order db_id callback s =
     bindR (LoadDatabaseMeta kv pb db_id DatabaseInfo_new s) (\<lambda>(st, info).
       if st \<noteq> C_OK then Inr (st, s)
       else bindR (callback info) (\<lambda>(st, info1).
         if st \<noteq> C_OK then Inr (st, s)
         else bindR (DelKV kv (snd (EncodeDatabaseID db_id [])) s) (\<lambda>(st, s1).
           if st \<noteq> C_OK then Inr (st, s1)
           else bindR (DumpDatabaseMeta kv pb order db_id info1 s1) (\<lambda>(st, s2).
             if st \<noteq> C_OK then Inr (st, s2) else Inr (C_OK, s2)))))"

section \<open>Tables\<close>

definition DumpTableMeta ::
    "'s kv_api \<Rightarrow> proto_ops \<Rightarrow> u64 \<Rightarrow> u64 \<Rightarrow> TableInfo \<Rightarrow> 's \<Rightarrow> (status \<times> 's) res" where
  "DumpTableMeta kv pb db_id table_id info s =
     PutKV kv (snd (EncodeTableID db_id table_id [])) (ser_table pb (TableInfo_Serialize info)) s"

text \<open>Only an absent record is an error here; after any other failure the empty string is parsed.\<close>

definition LoadTableMeta ::
    "'s kv_api \<Rightarrow> proto_ops \<Rightarrow> u64 \<Rightarrow> u64 \<Rightarrow> TableInfo \<Rightarrow> 's \<Rightarrow> (status \<times> TableInfo) res" where
  "LoadTableMeta kv pb db_id table_id info s =
     bindR (GetKV kv (snd (EncodeTableID db_id table_id [])) [] s) (\<lambda>(st, v).
       if st = C_STORAGE_KV_NOT_FOUND then Inr (C_TABLE_NOT_FOUND, info)
       else (case parse_table pb v of
           None \<Rightarrow> Inr (C_TABLE_SCHEMA_ERROR, info)
         | Some p \<Rightarrow> Inr (C_OK, TableInfo_Deserialize p info)))"

section \<open>Names\<close>

definition LoadDatabaseIdByName ::
    "'s kv_api \<Rightarrow> bytes \<Rightarrow> u64 \<Rightarrow> 's \<Rightarrow> (status \<times> u64) res" where
  "LoadDatabaseIdByName kv db_name db_id s =
     bindR (GetKV kv (snd (EncodeDatabaseName db_name [])) [] s) (\<lambda>(st, v).
       if st = C_STORAGE_KV_NOT_FOUND then Inr (C_DATABASE_NOT_FOUND, db_id)
       else bindR (DecodeDatabaseID v) (\<lambda>(_, i). Inr (st, i)))"

definition DumpDatabaseIdByName :: "'s kv_api \<Rightarrow> bytes \<Rightarrow> u64 \<Rightarrow> 's \<Rightarrow> (status \<times> 's) res" where
  "DumpDatabaseIdByName kv db_name db_id s =
     PutKV kv (snd (EncodeDatabaseName db_name [])) (snd (EncodeDatabaseID db_id [])) s"

definition LoadTableIdByName ::
    "'s kv_api \<Rightarrow> u64 \<Rightarrow> bytes \<Rightarrow> u64 \<Rightarrow> 's \<Rightarrow> (status \<times> u64) res" where
  "LoadTableIdByName kv db_id table_name table_id s =
     bindR (GetKV kv (snd (EncodeTableName db_id table_name [])) [] s) (\<lambda>(st, v).
       if st = C_STORAGE_KV_NOT_FOUND then Inr (C_TABLE_NOT_FOUND, table_id)
       else bindR (DecodeTableID v) (\<lambda>(_, db_id_store, i).
         bindR (requireR Assert_Abort (db_id = db_id_store)) (\<lambda>_. Inr (C_OK, i))))"

definition DumpTableIdByName :: "'s kv_api \<Rightarrow> u64 \<Rightarrow> bytes \<Rightarrow> u64 \<Rightarrow> 's \<Rightarrow> (status \<times> 's) res" where
  "DumpTableIdByName kv db_id table_name table_id s =
     PutKV kv (snd (EncodeTableName db_id table_name [])) (snd (EncodeTableID db_id table_id [])) s"

section \<open>What is stored\<close>

lemma decode_database_id: "DecodeDatabaseID (snd (EncodeDatabaseID d [])) = Inr (25, d)"
proof -
  have k: "snd (EncodeDatabaseID d []) = be64 0 @ be64 0 @ 1 # be64 d"
    using key_layout(4) [of d] by simp
  show ?thesis
    unfolding k DecodeDatabaseID_def
    using read_at_middle [of "be64 0 @ be64 0 @ 1 # be64 d" "be64 0 @ be64 0 @ [1]" "be64 d" "[]" 17 8]
    by (simp add: DecodeUInt64_be64)
qed

lemma decode_table_id: "DecodeTableID (snd (EncodeTableID d t [])) = Inr (33, d, t)"
proof -
  have k: "snd (EncodeTableID d t []) = be64 0 @ be64 0 @ 3 # be64 d @ be64 t"
    using key_layout(6) [of d t] by simp
  show ?thesis
    unfolding k DecodeTableID_def
    using read_at_middle [of "be64 0 @ be64 0 @ 3 # be64 d @ be64 t" "be64 0 @ be64 0 @ [3]" "be64 d" "be64 t" 17 8]
      read_at_middle [of "be64 0 @ be64 0 @ 3 # be64 d @ be64 t" "be64 0 @ be64 0 @ 3 # be64 d" "be64 t" "[]" 25 8]
    by (simp add: DecodeUInt64_be64)
qed

lemma key_bytes_eq: "key_wf k \<Longrightarrow> key_wf k' \<Longrightarrow> key_bytes k = key_bytes k' \<longleftrightarrow> k = k'"
  using key_bytes_inj by blast

lemmas catalogue_keys = key_bytes.simps [symmetric] key_bytes_eq

text \<open>The text of a table and of a database.\<close>

definition column_text :: "ColumnInfo \<Rightarrow> bool" where
  "column_text c \<longleftrightarrow> utf8 (col_name c) \<and> utf8 (col_table_name c) \<and> utf8 (col_comment c)"

definition index_text :: "IndexInfo \<Rightarrow> bool" where
  "index_text i \<longleftrightarrow> utf8 (idx_name i) \<and> utf8 (idx_table_name i) \<and> utf8 (idx_comment i) \<and>
     constraint_ok (idx_type i) \<and> list_all column_text (idx_columns i)"

definition table_text :: "TableInfo \<Rightarrow> bool" where
  "table_text t \<longleftrightarrow> utf8 (tbl_name t) \<and> utf8 (tbl_db_name t) \<and> list_all column_text (column_list t) \<and>
     list_all index_text (index_list t)"

definition database_text :: "DatabaseInfo \<Rightarrow> bool" where
  "database_text d \<longleftrightarrow> utf8 (dbi_name d) \<and> utf8 (dbi_comment d)"

lemma column_text_proto: "column_text c \<Longrightarrow> utf8_column (ColumnInfo_Serialize c)"
  by (simp add: column_text_def utf8_column_def ColumnInfo_Serialize_def)

lemma index_text_proto: "index_text i \<Longrightarrow> utf8_index (IndexInfo_Serialize i)"
  by (auto simp: index_text_def utf8_index_def IndexInfo_Serialize_def list_all_iff column_text_proto)

lemma table_text_proto: "table_text t \<Longrightarrow> utf8_table (TableInfo_Serialize t)"
  by (auto simp: table_text_def utf8_table_def TableInfo_Serialize_def list_all_iff column_text_proto
      index_text_proto)

lemma database_text_proto: "database_text d \<Longrightarrow> utf8_database (DatabaseInfo_Serialize order d)"
  by (simp add: database_text_def utf8_database_def DatabaseInfo_Serialize_def)

text \<open>The iteration of a set gives its elements.\<close>

definition set_order :: "(u64 set \<Rightarrow> u64 list) \<Rightarrow> bool" where
  "set_order order \<longleftrightarrow> (\<forall>S. set (order S) = S)"

lemma set_order_sorted: "set_order sorted_list_of_set"
  by (simp add: set_order_def)

text \<open>The table a load gives for the table that was dumped.\<close>

definition stored_table :: "TableInfo \<Rightarrow> TableInfo" where
  "stored_table t = TableInfo_Deserialize (TableInfo_Serialize t) TableInfo_new"

lemma stored_table_columns: "column_list (stored_table t) = map stored_column (column_list t)"
  by (simp add: stored_table_def deserialize_lists TableInfo_Serialize_def column_roundtrip comp_def)

lemma stored_table_indexes:
  "list_all index_text (index_list t) \<Longrightarrow> index_list (stored_table t) = map stored_index (index_list t)"
  by (auto simp: stored_table_def deserialize_lists TableInfo_Serialize_def list_all_iff index_text_def index_roundtrip)

lemma stored_table_fields:
  "tbl_id (stored_table t) = tbl_id t" "tbl_db_id (stored_table t) = tbl_db_id t"
  "tbl_name (stored_table t) = tbl_name t" "tbl_db_name (stored_table t) = tbl_db_name t"
  "tbl_create_ts (stored_table t) = tbl_create_ts t" "tbl_update_ts (stored_table t) = tbl_update_ts t"
  by (simp_all add: stored_table_def TableInfo_Deserialize_def table_frames TableInfo_Serialize_def)

lemma stored_table_ok: "table_ok (stored_table t)"
  unfolding stored_table_def by (rule table_deserialize_ok)

lemma stored_database:
  "set_order order \<Longrightarrow> DatabaseInfo_Deserialize (DatabaseInfo_Serialize order d) DatabaseInfo_new = d"
  by (simp add: DatabaseInfo_Deserialize_def DatabaseInfo_Serialize_def DatabaseInfo_new_def set_order_def
      flip: union_set_fold)

text \<open>What a storage holds of a database and of a table.\<close>

definition has_database :: "proto_ops \<Rightarrow> (u64 set \<Rightarrow> u64 list) \<Rightarrow> (bytes \<rightharpoonup> bytes) \<Rightarrow> DatabaseInfo \<Rightarrow> bool" where
  "has_database pb order m d \<longleftrightarrow> database_text d \<and>
     m (key_bytes (DatabaseIDKey (dbi_id d))) = Some (ser_database pb (DatabaseInfo_Serialize order d)) \<and>
     m (key_bytes (DatabaseNameKey (dbi_name d))) = Some (key_bytes (DatabaseIDKey (dbi_id d)))"

definition has_table :: "proto_ops \<Rightarrow> (bytes \<rightharpoonup> bytes) \<Rightarrow> TableInfo \<Rightarrow> bool" where
  "has_table pb m t \<longleftrightarrow> table_text t \<and>
     m (key_bytes (TableIDKey (tbl_db_id t) (tbl_id t))) = Some (ser_table pb (TableInfo_Serialize t)) \<and>
     m (key_bytes (TableNameKey (tbl_db_id t) (tbl_name t))) =
       Some (key_bytes (TableIDKey (tbl_db_id t) (tbl_id t)))"

text \<open>The catalogue of a storage.\<close>

locale catalogue = kv_store kv contents + protobuf pb
  for kv :: "'s kv_api" and contents :: "'s \<Rightarrow> bytes \<rightharpoonup> bytes" and pb :: proto_ops +
  fixes order :: "u64 set \<Rightarrow> u64 list"
  assumes order: "set_order order"
begin

lemma load_database_id:
  "contents s (key_bytes (DatabaseNameKey name)) = Some (key_bytes (DatabaseIDKey d)) \<Longrightarrow>
   LoadDatabaseIdByName kv name old s = Inr (C_OK, d)"
  by (simp add: LoadDatabaseIdByName_def GetKV_hit decode_database_id)

lemma load_database_id_absent:
  "contents s (key_bytes (DatabaseNameKey name)) = None \<Longrightarrow>
   LoadDatabaseIdByName kv name old s = Inr (C_DATABASE_NOT_FOUND, old)"
  by (simp add: LoadDatabaseIdByName_def GetKV_miss)

lemma load_table_id:
  "contents s (key_bytes (TableNameKey d name)) = Some (key_bytes (TableIDKey d t)) \<Longrightarrow>
   LoadTableIdByName kv d name old s = Inr (C_OK, t)"
  by (simp add: LoadTableIdByName_def GetKV_hit decode_table_id)

lemma load_table_id_absent:
  "contents s (key_bytes (TableNameKey d name)) = None \<Longrightarrow>
   LoadTableIdByName kv d name old s = Inr (C_TABLE_NOT_FOUND, old)"
  by (simp add: LoadTableIdByName_def GetKV_miss)

lemma load_database:
  assumes "contents s (key_bytes (DatabaseIDKey i)) = Some (ser_database pb (DatabaseInfo_Serialize order d))"
    "database_text d"
  shows "LoadDatabaseMeta kv pb i DatabaseInfo_new s = Inr (C_OK, d)"
  using assms stored_database [OF order]
  by (simp add: LoadDatabaseMeta_def GetKV_hit database_doc [OF database_text_proto])

lemma load_table:
  assumes "contents s (key_bytes (TableIDKey d i)) = Some (ser_table pb (TableInfo_Serialize t))" "table_text t"
  shows "LoadTableMeta kv pb d i TableInfo_new s = Inr (C_OK, stored_table t)"
  using assms by (simp add: LoadTableMeta_def GetKV_hit table_doc [OF table_text_proto] stored_table_def)

lemma load_table_absent:
  "contents s (key_bytes (TableIDKey d i)) = None \<Longrightarrow>
   LoadTableMeta kv pb d i info s = Inr (C_TABLE_NOT_FOUND, info)"
  by (simp add: LoadTableMeta_def GetKV_miss)

lemma dump_database_name:
  "\<exists>s'. DumpDatabaseIdByName kv name d s = Inr (C_OK, s') \<and>
    contents s' = (contents s)(key_bytes (DatabaseNameKey name) \<mapsto> key_bytes (DatabaseIDKey d))"
  unfolding DumpDatabaseIdByName_def key_bytes.simps by (rule PutKV_law)

lemma dump_table_name:
  "\<exists>s'. DumpTableIdByName kv d name t s = Inr (C_OK, s') \<and>
    contents s' = (contents s)(key_bytes (TableNameKey d name) \<mapsto> key_bytes (TableIDKey d t))"
  unfolding DumpTableIdByName_def key_bytes.simps by (rule PutKV_law)

lemma dump_database:
  "\<exists>s'. DumpDatabaseMeta kv pb order i d s = Inr (C_OK, s') \<and>
    contents s' = (contents s)(key_bytes (DatabaseIDKey i) \<mapsto> ser_database pb (DatabaseInfo_Serialize order d))"
  unfolding DumpDatabaseMeta_def key_bytes.simps by (rule PutKV_law)

lemma dump_table:
  "\<exists>s'. DumpTableMeta kv pb d i t s = Inr (C_OK, s') \<and>
    contents s' = (contents s)(key_bytes (TableIDKey d i) \<mapsto> ser_table pb (TableInfo_Serialize t))"
  unfolding DumpTableMeta_def key_bytes.simps by (rule PutKV_law)

lemma modify_database:
  assumes "contents s (key_bytes (DatabaseIDKey i)) = Some (ser_database pb (DatabaseInfo_Serialize order d))"
    "database_text d" "callback d = Inr (C_OK, d')"
  shows "\<exists>s'. ModifyDatabaseMeta kv pb order i callback s = Inr (C_OK, s') \<and>
    contents s' = (contents s)(key_bytes (DatabaseIDKey i) \<mapsto> ser_database pb (DatabaseInfo_Serialize order d'))"
proof -
  obtain s1 where 1: "DelKV kv (key_bytes (DatabaseIDKey i)) s = Inr (C_OK, s1)"
    "contents s1 = (contents s)(key_bytes (DatabaseIDKey i) := None)"
    using DelKV_law by blast
  obtain s2 where 2: "DumpDatabaseMeta kv pb order i d' s1 = Inr (C_OK, s2)"
    "contents s2 = (contents s1)(key_bytes (DatabaseIDKey i) \<mapsto> ser_database pb (DatabaseInfo_Serialize order d'))"
    using dump_database by blast
  show ?thesis
    unfolding ModifyDatabaseMeta_def key_bytes.simps(4) [symmetric]
    using 1 2 load_database [OF assms(1,2)] assms(3) by simp
qed

text \<open>A callback that fails leaves the storage as it is.\<close>

lemma modify_database_refused:
  assumes "contents s (key_bytes (DatabaseIDKey i)) = Some (ser_database pb (DatabaseInfo_Serialize order d))"
    "database_text d" "callback d = Inr (st, d')" "st \<noteq> C_OK"
  shows "ModifyDatabaseMeta kv pb order i callback s = Inr (st, s)"
  using load_database [OF assms(1,2)] assms(3,4) by (simp add: ModifyDatabaseMeta_def)

end

lemma catalogue_of:
  assumes "leveldb_spec L view" "protobuf pb" "set_order order"
  shows "catalogue (LevelDbClient L) view pb order"
  using assms leveldb_spec.client_store by (intro catalogue.intro catalogue_axioms.intro) simp_all

interpretation mem_catalogue: catalogue "LevelDbClient mem_leveldb" id sd_proto sorted_list_of_set
  by (rule catalogue_of [OF mem_leveldb_spec sd_protobuf set_order_sorted])

end
