(* ===== verification/IdAllocator.thy ===== *)
theory IdAllocator
  imports SchemaCodec KvStorage
begin

text \<open>
  Allocation of database, table and column ids (\<open>storage/id_allocator.cc\<close>). The hash function of
  the standard library is an argument. \<open>BatchAllocateID\<close> works on a copy of the buckets of its
  type, so an allocator never changes: what it takes from the storage and does not hand out is
  lost with the copy.
\<close>

section \<open>State\<close>

datatype IDType = ID_Database | ID_Table | ID_Column | ID_Unknown

record alloc_info =
  cur_id :: u64
  max_id :: u64
  left_num :: nat

record id_allocator =
  id_info :: "IDType \<Rightarrow> alloc_info list option"
  bucket_capacity :: u32

definition empty_info :: alloc_info where
  "empty_info = \<lparr>cur_id = 0, max_id = 0, left_num = 0\<rparr>"

definition IdAllocator :: "u32 \<Rightarrow> id_allocator" where
  "IdAllocator cache_size =
     \<lparr>id_info = (\<lambda>type. if type = ID_Unknown then None else Some (replicate (unat cache_size) empty_info)),
      bucket_capacity = cache_size\<rparr>"

text \<open>\<open>IdAllocatorSingleton::Init\<close>; a failing \<open>new\<close> throws.\<close>

definition IdAllocator_Init :: "status \<times> id_allocator" where
  "IdAllocator_Init = (C_OK, IdAllocator 1024)"

section \<open>Operations\<close>

fun GenIncKey :: "IDType \<Rightarrow> u32 \<Rightarrow> bytes \<Rightarrow> bytes" where
  "GenIncKey ID_Database bucket_idx key = snd (EncodeDatabaseAllocID (ucast bucket_idx) key)"
| "GenIncKey ID_Table bucket_idx key = snd (EncodeTableAllocID (ucast bucket_idx) key)"
| "GenIncKey ID_Column bucket_idx key = snd (EncodeColumnAllocID (ucast bucket_idx) key)"
| "GenIncKey ID_Unknown bucket_idx key = key"

text \<open>The lambda \<open>id_alloc\<close>, on the fields it uses.\<close>

fun id_alloc :: "u32 \<Rightarrow> u64 \<Rightarrow> nat \<Rightarrow> nat \<Rightarrow> u64 \<Rightarrow> u64 list \<Rightarrow> nat \<times> u64 \<times> u64 list" where
  "id_alloc capacity bucket_idx batch 0 cur ids = (0, cur, ids)"
| "id_alloc capacity bucket_idx batch (Suc left) cur ids =
     (if length ids < batch
      then id_alloc capacity bucket_idx batch left (cur + ucast capacity) (ids @ [cur + bucket_idx + 1])
      else (Suc left, cur, ids))"

definition run_id_alloc :: "u32 \<Rightarrow> u64 \<Rightarrow> nat \<Rightarrow> alloc_info \<Rightarrow> u64 list \<Rightarrow> alloc_info \<times> u64 list" where
  "run_id_alloc capacity bucket_idx batch info ids =
     (let (left, cur, ids1) = id_alloc capacity bucket_idx batch (left_num info) (cur_id info) ids
      in (info\<lparr>cur_id := cur, left_num := left\<rparr>, ids1))"

definition need_fetch :: "u32 \<Rightarrow> nat \<Rightarrow> alloc_info \<Rightarrow> nat" where
  "need_fetch capacity batch info =
     (let need = (if batch > left_num info then batch - left_num info else 0)
      in if need > unat capacity then unat capacity else need)"

definition BatchAllocateID ::
    "(bytes \<Rightarrow> u64) \<Rightarrow> 's kv_api \<Rightarrow> id_allocator \<Rightarrow> IDType \<Rightarrow> bytes \<Rightarrow> nat \<Rightarrow> 's \<Rightarrow> (status \<times> u64 list \<times> 's) res" where
  "BatchAllocateID hash kv a type key batch s =
     (case id_info a type of None \<Rightarrow> Inl Std_Exception
      | Some buckets \<Rightarrow>
        let capacity = bucket_capacity a;
            bucket_idx = and (hash key) (ucast (capacity - 1)) in
        bindR (requireR Std_Exception (unat bucket_idx < length buckets)) (\<lambda>_.
          let info = buckets ! unat bucket_idx;
              need = need_fetch capacity batch info;
              (info1, ids1) = (if need = 0 then run_id_alloc capacity bucket_idx batch info []
                               else (info, []));
              step = of_nat need * ucast capacity
          in bindR (Incrby kv (GenIncKey type (ucast bucket_idx) []) step s) (\<lambda>(st, val, s1).
             bindR (requireR Assert_Abort (st = C_OK)) (\<lambda>_.
               let new_max_id = (case val of None \<Rightarrow> 0 | Some v \<Rightarrow> v);
                   info2 = \<lparr>cur_id = new_max_id - step, max_id = new_max_id, left_num = need\<rparr>;
                   (info3, ids2) = run_id_alloc capacity bucket_idx batch info2 ids1
               in Inr (C_OK, ids2, s1)))))"

definition AllocateID ::
    "(bytes \<Rightarrow> u64) \<Rightarrow> 's kv_api \<Rightarrow> id_allocator \<Rightarrow> IDType \<Rightarrow> bytes \<Rightarrow> 's \<Rightarrow> (status \<times> u64 \<times> 's) res" where
  "AllocateID hash kv a type key s =
     bindR (BatchAllocateID hash kv a type key 1 s) (\<lambda>(st, ids, s1).
       bindR (requireR Std_Exception (ids \<noteq> [])) (\<lambda>_. Inr (st, hd ids, s1)))"

section \<open>The counters\<close>

lemma GenIncKey_key:
  "GenIncKey ID_Database b [] = key_bytes (DatabaseAllocKey (ucast b))"
  "GenIncKey ID_Table b [] = key_bytes (TableAllocKey (ucast b))"
  "GenIncKey ID_Column b [] = key_bytes (ColumnAllocKey (ucast b))"
  by simp_all

lemma unat_ucast_u64 [simp]: "unat (ucast (b :: u32) :: u64) = unat b"
proof -
  have "unat b < 2 ^ 32" using unsigned_less [of b, where ?'a = nat] by simp
  then show ?thesis by (simp add: unsigned_ucast_eq take_bit_eq_mod)
qed

lemma ucast_u32_less: "unat (ucast (b :: u32) :: u64) < 2 ^ 34"
proof -
  have "unat b < 2 ^ 32" using unsigned_less [of b, where ?'a = nat] by simp
  then show ?thesis by simp
qed

lemma GenIncKey_inj:
  assumes "type \<noteq> ID_Unknown" "type' \<noteq> ID_Unknown" "GenIncKey type b [] = GenIncKey type' b' []"
  shows "type = type' \<and> b = b'"
proof -
  have u: "b = b'" if "(ucast b :: u64) = ucast b'"
    using arg_cong [OF that, of unat] by (simp add: word_unat_eq_iff)
  note w = ucast_u32_less [of b] ucast_u32_less [of b']
  show ?thesis
    using assms w u
    by (cases type; cases type') (auto simp only: GenIncKey_key key_wf.simps dest!: key_bytes_inj [rotated 2])
qed

section \<open>One batch\<close>

lemma id_alloc_result:
  "length ids + left \<le> batch \<Longrightarrow> id_alloc cap b batch left cur ids =
    (0, cur + of_nat left * ucast cap, ids @ map (\<lambda>i. cur + of_nat i * ucast cap + b + 1) [0..<left])"
proof (induction left arbitrary: cur ids)
  case (Suc left)
  have "map (\<lambda>i. cur + of_nat i * ucast cap + b + 1) [0..<Suc left] =
      (cur + b + 1) # map (\<lambda>i. cur + ucast cap + of_nat i * ucast cap + b + 1) [0..<left]"
    by (simp add: upt_conv_Cons map_Suc_upt [symmetric] algebra_simps del: upt_Suc)
  with Suc show ?case by (simp add: algebra_simps del: upt_Suc)
qed simp

definition bucket_of :: "(bytes \<Rightarrow> u64) \<Rightarrow> u32 \<Rightarrow> bytes \<Rightarrow> nat" where
  "bucket_of hash cap key = unat (and (hash key) (ucast (cap - 1)))"

lemma bucket_less: "0 < cap \<Longrightarrow> bucket_of hash cap key < unat cap"
proof -
  assume c: "0 < cap"
  have "and (hash key) (ucast (cap - 1)) \<le> ucast (cap - 1)" by (rule word_and_le1)
  then have "bucket_of hash cap key \<le> unat (cap - 1)" by (simp add: bucket_of_def word_le_nat_alt)
  moreover have "cap \<noteq> 0" using c by auto
  then have "unat (cap - 1) = unat cap - 1" "unat cap \<noteq> 0"
    by (rule unat_minus_one) (use \<open>cap \<noteq> 0\<close> in \<open>metis unsigned_eq_0_iff\<close>)
  ultimately show ?thesis by simp
qed

lemma unat_of_nat_u64: "x < 2 ^ 64 \<Longrightarrow> unat (of_nat x :: u64) = x"
  by (simp add: unat_of_nat)

definition counter_of :: "(bytes \<rightharpoonup> bytes) \<Rightarrow> bytes \<Rightarrow> nat \<Rightarrow> bool" where
  "counter_of m key v \<longleftrightarrow> m key = Some (dec_of_nat v) \<or> m key = None \<and> v = 0"

lemma counter_add_of:
  "counter_of m key v \<Longrightarrow> v < 2 ^ 63 \<Longrightarrow> counter_add (m key) step = Inr (of_nat v + step)"
proof -
  have "std_stoll [48] = Inr 0" by (simp add: std_stoll_def is_space_def is_digit_def digits_value_def)
  then show "counter_of m key v \<Longrightarrow> v < 2 ^ 63 \<Longrightarrow> counter_add (m key) step = Inr (of_nat v + step)"
    by (auto simp: counter_of_def counter_add_def counter_text_def std_stoll_dec)
qed

text \<open>An allocator as it is after its construction, and as it stays.\<close>

definition fresh_allocator :: "id_allocator \<Rightarrow> bool" where
  "fresh_allocator a \<longleftrightarrow> 0 < bucket_capacity a \<and>
     (\<forall>type. type \<noteq> ID_Unknown \<longrightarrow> (\<exists>buckets. id_info a type = Some buckets \<and>
        length buckets = unat (bucket_capacity a) \<and> (\<forall>info \<in> set buckets. left_num info = 0)))"

lemma fresh_IdAllocator: "0 < n \<Longrightarrow> fresh_allocator (IdAllocator n)"
  by (simp add: fresh_allocator_def IdAllocator_def empty_info_def)

definition alloc_key :: "(bytes \<Rightarrow> u64) \<Rightarrow> id_allocator \<Rightarrow> IDType \<Rightarrow> bytes \<Rightarrow> bytes" where
  "alloc_key hash a type key = GenIncKey type (of_nat (bucket_of hash (bucket_capacity a) key)) []"

context kv_store
begin

lemma batch_alloc:
  assumes a: "fresh_allocator a" "type \<noteq> ID_Unknown"
    and n: "counter_of (contents s) (alloc_key hash a type key) (n * unat (bucket_capacity a))"
    and k: "k = min batch (unat (bucket_capacity a))"
    and room: "(n + k) * unat (bucket_capacity a) < 2 ^ 63"
  shows "\<exists>s'. BatchAllocateID hash kv a type key batch s =
      Inr (C_OK, map (\<lambda>i. of_nat ((n + i) * unat (bucket_capacity a) +
        bucket_of hash (bucket_capacity a) key + 1)) [0..<k], s') \<and>
    contents s' = (contents s)(alloc_key hash a type key \<mapsto> dec_of_nat ((n + k) * unat (bucket_capacity a)))"
proof -
  let ?cap = "bucket_capacity a" and ?b = "bucket_of hash (bucket_capacity a) key"
  let ?idx = "and (hash key) (ucast (?cap - 1)) :: u64"
  obtain bk where bk: "id_info a type = Some bk" "length bk = unat ?cap" "\<forall>info \<in> set bk. left_num info = 0"
    using a by (auto simp: fresh_allocator_def)
  have cap: "0 < ?cap" using a(1) by (simp add: fresh_allocator_def)
  have b: "?b < unat ?cap" by (rule bucket_less [OF cap])
  then have idx: "unat ?idx < length bk" by (simp add: bk(2) bucket_of_def)
  have l0: "left_num (bk ! unat ?idx) = 0" using bk(3) idx by simp
  have need: "need_fetch ?cap batch (bk ! unat ?idx) = k" by (simp add: need_fetch_def l0 k min_def Let_def)
  have key: "GenIncKey type (ucast ?idx) [] = alloc_key hash a type key"
    by (simp add: alloc_key_def bucket_of_def)
  have capn: "(ucast ?cap :: u64) = of_nat (unat ?cap)" by (simp add: word_unat_eq_iff unat_of_nat)
  have nc: "n * unat ?cap < 2 ^ 63" using room by (simp add: algebra_simps)
  let ?v = "of_nat (n * unat ?cap) + of_nat k * ucast ?cap :: u64"
  have v: "?v = of_nat ((n + k) * unat ?cap)" unfolding capn by (simp only: of_nat_add of_nat_mult distrib_right)
  have uv: "unat ?v = (n + k) * unat ?cap" unfolding v by (rule unat_of_nat_u64 [OF order.strict_trans [OF room]]) simp
  obtain s' where s': "Incrby kv (alloc_key hash a type key) (of_nat k * ucast ?cap) s = Inr (C_OK, Some ?v, s')"
    "contents s' = (contents s)(alloc_key hash a type key \<mapsto> dec_of_nat ((n + k) * unat ?cap))"
    using Incrby_law [OF counter_add_of [OF n nc], of "of_nat k * ucast ?cap"] uv by metis
  have first: "(if k = 0 then run_id_alloc ?cap ?idx batch (bk ! unat ?idx) [] else (bk ! unat ?idx, [])) =
      (bk ! unat ?idx, [])"
    by (simp add: run_id_alloc_def l0)
  have bi: "?idx = of_nat ?b" by (simp add: bucket_of_def)
  have cur: "?v - of_nat k * ucast ?cap = of_nat (n * unat ?cap)" by simp
  have "id_alloc ?cap ?idx batch k (of_nat (n * unat ?cap)) [] = (0, of_nat (n * unat ?cap) + of_nat k * ucast ?cap,
      [] @ map (\<lambda>i. of_nat (n * unat ?cap) + of_nat i * ucast ?cap + ?idx + 1) [0..<k])"
    by (rule id_alloc_result) (simp add: k)
  moreover have "of_nat (n * unat ?cap) + of_nat i * ucast ?cap + ?idx + 1 =
      (of_nat ((n + i) * unat ?cap + ?b + 1) :: u64)" for i
    unfolding bi capn by (simp add: distrib_right)
  ultimately have ids: "snd (run_id_alloc ?cap ?idx batch \<lparr>cur_id = ?v - of_nat k * ucast ?cap, max_id = ?v, left_num = k\<rparr> []) =
      map (\<lambda>i. of_nat ((n + i) * unat ?cap + ?b + 1)) [0..<k]"
    unfolding cur by (simp only: run_id_alloc_def Let_def alloc_info.simps case_prod_conv snd_conv append_Nil)
  show ?thesis
    unfolding BatchAllocateID_def Let_def bk(1) option.case
    using idx s' first ids by (simp add: need key case_prod_beta)
qed

lemma allocate_one:
  assumes "fresh_allocator a" "type \<noteq> ID_Unknown"
    "counter_of (contents s) (alloc_key hash a type key) (n * unat (bucket_capacity a))"
    "(n + 1) * unat (bucket_capacity a) < 2 ^ 63"
  shows "\<exists>s'. AllocateID hash kv a type key s = Inr (C_OK,
      of_nat (n * unat (bucket_capacity a) + bucket_of hash (bucket_capacity a) key + 1), s') \<and>
    contents s' = (contents s)(alloc_key hash a type key \<mapsto> dec_of_nat ((n + 1) * unat (bucket_capacity a)))"
proof -
  have "0 < unat (bucket_capacity a)" using assms(1) by (simp add: fresh_allocator_def word_less_nat_alt)
  then have k: "1 = min 1 (unat (bucket_capacity a))" by simp
  from batch_alloc [OF assms(1-3) k assms(4)] show ?thesis by (auto simp: AllocateID_def)
qed

end

section \<open>Many requests\<close>

type_synonym id_request = "IDType \<times> bytes \<times> nat"

fun alloc_all ::
    "(bytes \<Rightarrow> u64) \<Rightarrow> 's kv_api \<Rightarrow> id_allocator \<Rightarrow> id_request list \<Rightarrow> 's \<Rightarrow> ((IDType \<times> u64 list) list \<times> 's) res" where
  "alloc_all hash kv a [] s = Inr ([], s)"
| "alloc_all hash kv a ((type, key, batch) # reqs) s =
     bindR (BatchAllocateID hash kv a type key batch s) (\<lambda>(_, ids, s1).
       bindR (alloc_all hash kv a reqs s1) (\<lambda>(outs, s2). Inr ((type, ids) # outs, s2)))"

definition ids_of :: "IDType \<Rightarrow> (IDType \<times> u64 list) list \<Rightarrow> u64 list" where
  "ids_of type outs = concat (map snd (filter (\<lambda>(t, _). t = type) outs))"

lemma ids_of_simps [simp]:
  "ids_of type [] = []"
  "ids_of type ((t, ids) # outs) = (if t = type then ids @ ids_of type outs else ids_of type outs)"
  by (simp_all add: ids_of_def)

text \<open>\<open>N type b\<close> rows of the bucket have been taken.\<close>

definition counters :: "(bytes \<rightharpoonup> bytes) \<Rightarrow> u32 \<Rightarrow> (IDType \<Rightarrow> nat \<Rightarrow> nat) \<Rightarrow> bool" where
  "counters m cap N \<longleftrightarrow> (\<forall>type b. type \<noteq> ID_Unknown \<longrightarrow> b < unat cap \<longrightarrow>
     counter_of m (GenIncKey type (of_nat b) []) (N type b * unat cap))"

lemma unat_of_nat_u32: "x < 2 ^ 32 \<Longrightarrow> unat (of_nat x :: u32) = x"
  by (simp add: unat_of_nat)

lemma of_nat_u32_inj:
  assumes "b < unat (cap :: u32)" "b' < unat cap" "(of_nat b :: u32) = of_nat b'"
  shows "b = b'"
proof -
  have "unat cap < 2 ^ 32" using unsigned_less [of cap, where ?'a = nat] by simp
  then have "b < 2 ^ 32" "b' < 2 ^ 32" using assms(1,2) by linarith+
  from this [THEN unat_of_nat_u32] assms(3) show ?thesis by metis
qed

lemma counters_step:
  assumes c: "counters m cap N" and b: "b < unat cap" "type \<noteq> ID_Unknown"
  shows "counters (m(GenIncKey type (of_nat b) [] \<mapsto> dec_of_nat ((N type b + k) * unat cap))) cap
    (N(type := (N type)(b := N type b + k)))"
  unfolding counters_def
proof (intro allI impI)
  fix t b' assume t: "t \<noteq> ID_Unknown" "b' < unat cap"
  show "counter_of (m(GenIncKey type (of_nat b) [] \<mapsto> dec_of_nat ((N type b + k) * unat cap)))
      (GenIncKey t (of_nat b') []) ((N(type := (N type)(b := N type b + k))) t b' * unat cap)"
  proof (cases "GenIncKey t (of_nat b') [] = GenIncKey type (of_nat b) []")
    case True
    then have "t = type" "b' = b"
      using GenIncKey_inj [OF t(1) b(2)] of_nat_u32_inj [OF t(2) b(1)] by blast+
    then show ?thesis by (simp add: counter_of_def)
  next
    case False
    then have "t \<noteq> type \<or> b' \<noteq> b" by auto
    with False c t show ?thesis by (auto simp: counters_def counter_of_def)
  qed
qed

text \<open>The ids of one type, as numbers: each is in a row its bucket had not handed out before.\<close>

definition new_ids :: "nat \<Rightarrow> (nat \<Rightarrow> nat) \<Rightarrow> nat list \<Rightarrow> bool" where
  "new_ids cap n xs \<longleftrightarrow> distinct xs \<and>
     (\<forall>x \<in> set xs. 0 < x \<and> x < 2 ^ 63 \<and> n ((x - 1) mod cap) \<le> (x - 1) div cap)"

lemma row_split: "b < cap \<Longrightarrow> ((i * cap + b + 1) - 1) mod cap = b \<and> ((i * cap + b + 1) - 1) div cap = (i :: nat)"
  by (cases "cap = 0") (simp_all add: div_add1_eq)

lemma new_ids_append:
  assumes b: "b < cap" and new: "new_ids cap (n(b := n b + k)) xs" and room: "(n b + k + 1) * cap < 2 ^ 63"
  shows "new_ids cap n (map (\<lambda>i. (n b + i) * cap + b + 1) [0..<k] @ xs)"
proof -
  let ?f = "\<lambda>i. (n b + i) * cap + b + 1"
  have cap: "0 < cap" using b by simp
  have "inj_on ?f {0..<k}" using cap by (auto intro!: inj_onI)
  then have d: "distinct (map ?f [0..<k])" by (simp add: distinct_map)
  have old: "n ((?f i - 1) mod cap) \<le> (?f i - 1) div cap \<and> (?f i - 1) div cap < n b + k \<and> (?f i - 1) mod cap = b"
    if "i < k" for i
    using row_split [OF b, of "n b + i"] that by simp
  have lt: "?f i < 2 ^ 63" if "i < k" for i
  proof -
    have "?f i \<le> (n b + i + 1) * cap" using b by simp
    also have "\<dots> \<le> (n b + k + 1) * cap" using that by (intro mult_right_mono) simp_all
    finally show ?thesis using room by simp
  qed
  have up: "(n(b := n b + k)) j = (if j = b then n b + k else n j)" for j by simp
  have xs: "distinct xs" "\<forall>x \<in> set xs. 0 < x \<and> x < 2 ^ 63" using new by (simp_all add: new_ids_def)
  have Q: "n ((x - 1) mod cap) \<le> (x - 1) div cap" if "x \<in> set xs" for x
    using new that unfolding new_ids_def up by (fastforce split: if_splits)
  have nd: "x \<notin> ?f ` {0..<k}" if "x \<in> set xs" for x
  proof
    assume "x \<in> ?f ` {0..<k}"
    then obtain i where i: "i < k" "x = ?f i" by auto
    with old have "(x - 1) mod cap = b" "(x - 1) div cap < n b + k" by blast+
    with new that show False unfolding new_ids_def up by (fastforce split: if_splits)
  qed
  have P: "0 < x \<and> x < 2 ^ 63 \<and> n ((x - 1) mod cap) \<le> (x - 1) div cap" if "x \<in> ?f ` {0..<k}" for x
  proof -
    obtain i where i: "i < k" "x = ?f i" using \<open>x \<in> ?f ` {0..<k}\<close> by auto
    have "0 < ?f i" by simp
    with old [OF i(1)] lt [OF i(1)] show ?thesis unfolding i(2) by blast
  qed
  have img: "set (map ?f [0..<k]) = ?f ` {0..<k}" by (simp only: set_map set_upt)
  have "set (map ?f [0..<k]) \<inter> set xs = {}" unfolding img using nd by blast
  then have "distinct (map ?f [0..<k] @ xs)" using d xs(1) by (simp only: distinct_append simp_thms)
  moreover have "0 < x \<and> x < 2 ^ 63 \<and> n ((x - 1) mod cap) \<le> (x - 1) div cap"
    if "x \<in> set (map ?f [0..<k] @ xs)" for x
  proof -
    from that consider "x \<in> ?f ` {0..<k}" | "x \<in> set xs" unfolding set_append img by (elim UnE)
    then show ?thesis
    proof cases
      case 1
      then show ?thesis by (rule P)
    next
      case 2
      with Q [OF 2] xs(2) show ?thesis by blast
    qed
  qed
  ultimately show ?thesis unfolding new_ids_def by blast
qed

context kv_store
begin

lemma alloc_all_new:
  assumes "fresh_allocator a" "\<forall>r \<in> set reqs. fst r \<noteq> ID_Unknown"
    "counters (contents s) (bucket_capacity a) N" "\<forall>type b. N type b \<le> M"
    "(M + sum_list (map (\<lambda>(_, _, batch). batch) reqs) + 1) * unat (bucket_capacity a) < 2 ^ 63"
  shows "\<exists>outs s'. alloc_all hash kv a reqs s = Inr (outs, s') \<and>
    (\<forall>type. \<exists>xs. ids_of type outs = map of_nat xs \<and> new_ids (unat (bucket_capacity a)) (N type) xs)"
  using assms
proof (induction reqs arbitrary: s N M)
  case Nil
  then show ?case by (auto simp: new_ids_def)
next
  case (Cons req reqs)
  obtain type key batch where req: "req = (type, key, batch)" by (cases req)
  let ?cap = "bucket_capacity a" and ?b = "bucket_of hash (bucket_capacity a) key"
  let ?k = "min batch (unat ?cap)"
  let ?N = "N(type := (N type)(?b := N type ?b + ?k))"
  have t: "type \<noteq> ID_Unknown" using Cons.prems(2) req by simp
  have b: "?b < unat ?cap" using Cons.prems(1) by (intro bucket_less) (simp add: fresh_allocator_def)
  have le: "(N type ?b + ?k + 1) * unat ?cap \<le>
      (M + sum_list (map (\<lambda>(_, _, batch). batch) (req # reqs)) + 1) * unat ?cap"
    using Cons.prems(4) [rule_format, of type ?b] req by (intro mult_right_mono) simp_all
  have room1: "(N type ?b + ?k + 1) * unat ?cap < 2 ^ 63" by (rule le_less_trans [OF le Cons.prems(5)])
  have room: "(N type ?b + ?k) * unat ?cap < 2 ^ 63" using room1 by simp
  have c: "counter_of (contents s) (alloc_key hash a type key) (N type ?b * unat ?cap)"
    using Cons.prems(3) t b by (simp add: counters_def alloc_key_def)
  obtain s1 where s1: "BatchAllocateID hash kv a type key batch s =
      Inr (C_OK, map (\<lambda>i. of_nat ((N type ?b + i) * unat ?cap + ?b + 1)) [0..<?k], s1)"
    "contents s1 = (contents s)(alloc_key hash a type key \<mapsto> dec_of_nat ((N type ?b + ?k) * unat ?cap))"
    using batch_alloc [OF Cons.prems(1) t c refl room] by blast
  have c1: "counters (contents s1) ?cap ?N"
    using counters_step [OF Cons.prems(3) b t] by (simp add: s1(2) alloc_key_def)
  have "?N t' b' \<le> M + batch" for t' b'
    using Cons.prems(4) [rule_format, of t' b'] Cons.prems(4) [rule_format, of type ?b]
    by (auto simp: min_def)
  then have M: "\<forall>t' b'. ?N t' b' \<le> M + batch" by blast
  have r: "(M + batch + sum_list (map (\<lambda>(_, _, batch). batch) reqs) + 1) * unat ?cap < 2 ^ 63"
    using Cons.prems(5) req by (simp add: add.assoc)
  have p: "\<forall>r \<in> set reqs. fst r \<noteq> ID_Unknown" using Cons.prems(2) by simp
  obtain outs s2 where o: "alloc_all hash kv a reqs s1 = Inr (outs, s2)"
    "\<forall>t'. \<exists>xs. ids_of t' outs = map of_nat xs \<and> new_ids (unat ?cap) (?N t') xs"
    using Cons.IH [OF Cons.prems(1) p c1 M r] by blast
  have "\<exists>ys. ids_of t' ((type, map (\<lambda>i. of_nat ((N type ?b + i) * unat ?cap + ?b + 1)) [0..<?k]) # outs) = map of_nat ys \<and>
      new_ids (unat ?cap) (N t') ys" for t'
  proof -
    obtain xs where xs: "ids_of t' outs = map of_nat xs" "new_ids (unat ?cap) (?N t') xs" using o(2) by blast
    show ?thesis
    proof (cases "t' = type")
      case False
      with xs show ?thesis by auto
    next
      case True
      let ?ys = "map (\<lambda>i. (N type ?b + i) * unat ?cap + ?b + 1) [0..<?k] @ xs"
      have "new_ids (unat ?cap) (N type) ?ys"
        by (rule new_ids_append [where n = "N type" and k = ?k, OF b _ room1]) (use xs(2) True in simp)
      moreover have "map (\<lambda>i. of_nat ((N type ?b + i) * unat ?cap + ?b + 1)) [0..<?k] @ map of_nat xs = map of_nat ?ys"
        by (simp add: comp_def)
      ultimately show ?thesis using xs(1) True by (intro exI [of _ ?ys]) (simp only: ids_of_simps simp_thms if_True)
    qed
  qed
  with s1(1) o(1) show ?case by (simp add: req)
qed

end

section \<open>Uniqueness\<close>

lemma no_counters: "\<forall>type b. m (GenIncKey type b []) = None \<Longrightarrow> counters m cap (\<lambda>_ _. 0)"
  by (simp add: counters_def counter_of_def)

text \<open>C16: No id is handed out twice: over any sequence of batches for any types and keys, executed
  on a storage that no allocator has used, every request succeeds and all the ids of one type are
  different and non-zero, whatever the hash function and however the keys meet in the buckets, as
  long as the counters stay below \<open>2^63\<close>.\<close>

theorem allocated_ids_unique:
  assumes "leveldb_spec L view" "fresh_allocator a" "\<forall>r \<in> set reqs. fst r \<noteq> ID_Unknown"
    "\<forall>type b. view s (GenIncKey type b []) = None"
    "(sum_list (map (\<lambda>(_, _, batch). batch) reqs) + 1) * unat (bucket_capacity a) < 2 ^ 63"
  shows "\<exists>outs s'. alloc_all hash (LevelDbClient L) a reqs s = Inr (outs, s') \<and>
    (\<forall>type. distinct (ids_of type outs) \<and> 0 \<notin> set (ids_of type outs))"
proof -
  obtain outs s' where o: "alloc_all hash (LevelDbClient L) a reqs s = Inr (outs, s')"
    "\<forall>type. \<exists>xs. ids_of type outs = map of_nat xs \<and> new_ids (unat (bucket_capacity a)) (\<lambda>_. 0) xs"
    using kv_store.alloc_all_new [OF leveldb_spec.client_store [OF assms(1)] assms(2,3) no_counters [OF assms(4)],
        of 0 hash] assms(5) by auto
  have "distinct (ids_of type outs) \<and> 0 \<notin> set (ids_of type outs)" for type
  proof -
    obtain xs where xs: "ids_of type outs = map of_nat xs" "new_ids (unat (bucket_capacity a)) (\<lambda>_. 0) xs"
      using o(2) by blast
    have lt: "0 < x" "x < 2 ^ 63" if "x \<in> set xs" for x
      using xs(2) that unfolding new_ids_def by blast+
    have u: "unat (of_nat x :: u64) = x" if "x \<in> set xs" for x
      by (rule unat_of_nat_u64 [OF order.strict_trans [OF lt(2) [OF that]]]) simp
    have "inj_on (of_nat :: nat \<Rightarrow> u64) (set xs)" by (rule inj_onI) (metis u)
    then have "distinct (ids_of type outs)" using xs by (simp add: distinct_map new_ids_def)
    moreover have "(of_nat x :: u64) \<noteq> 0" if "x \<in> set xs" for x
      using u [OF that] lt(1) [OF that] by (metis less_irrefl unsigned_0)
    ultimately show ?thesis unfolding xs(1) by auto
  qed
  with o(1) show ?thesis by blast
qed

theorem allocated_ids_unique_witness:
  "\<exists>outs s'. alloc_all (\<lambda>key. of_nat (length key)) (LevelDbClient mem_leveldb) (IdAllocator 1024)
      [(ID_Table, [1], 2), (ID_Table, [1, 2], 3), (ID_Table, [9], 1)] Map.empty = Inr (outs, s') \<and>
    distinct (ids_of ID_Table outs)"
proof -
  have "\<exists>outs s'. alloc_all (\<lambda>key. of_nat (length key)) (LevelDbClient mem_leveldb) (IdAllocator 1024)
      [(ID_Table, [1], 2), (ID_Table, [1, 2], 3), (ID_Table, [9], 1)] Map.empty = Inr (outs, s') \<and>
    (\<forall>type. distinct (ids_of type outs) \<and> 0 \<notin> set (ids_of type outs))"
    by (rule allocated_ids_unique [OF mem_leveldb_spec fresh_IdAllocator]) (simp_all add: IdAllocator_def)
  then show ?thesis by blast
qed

text \<open>C17: A batch succeeds with fewer ids than were asked for when it is larger than the capacity
  of the allocator: it returns C_OK and the smaller of the two numbers of ids.\<close>

theorem batch_capped_at_capacity:
  assumes "leveldb_spec L view" "fresh_allocator a" "type \<noteq> ID_Unknown"
    "view s (alloc_key hash a type key) = None"
    "min batch (unat (bucket_capacity a)) * unat (bucket_capacity a) < 2 ^ 63"
  shows "\<exists>ids s'. BatchAllocateID hash (LevelDbClient L) a type key batch s = Inr (C_OK, ids, s') \<and>
    length ids = min batch (unat (bucket_capacity a))"
proof -
  have "counter_of (view s) (alloc_key hash a type key) (0 * unat (bucket_capacity a))"
    using assms(4) by (simp add: counter_of_def)
  note b = kv_store.batch_alloc [OF leveldb_spec.client_store [OF assms(1)] assms(2,3) this refl, of batch]
  have "(0 + min batch (unat (bucket_capacity a))) * unat (bucket_capacity a) < 2 ^ 63"
    unfolding add_0 by (rule assms(5))
  from b [OF this] show ?thesis
  proof (elim exE conjE)
    fix s' assume "BatchAllocateID hash (LevelDbClient L) a type key batch s =
      Inr (C_OK, map (\<lambda>i. of_nat ((0 + i) * unat (bucket_capacity a) +
        bucket_of hash (bucket_capacity a) key + 1)) [0..<min batch (unat (bucket_capacity a))], s')"
    then show ?thesis by (intro exI conjI) (assumption, simp)
  qed
qed

theorem batch_capped_at_capacity_witness:
  "\<exists>ids s'. BatchAllocateID (\<lambda>_. 0) (LevelDbClient mem_leveldb) (IdAllocator 1024) ID_Column [] 2000 Map.empty =
      Inr (C_OK, ids, s') \<and> length ids = 1024"
proof -
  have "\<exists>ids s'. BatchAllocateID (\<lambda>_. 0) (LevelDbClient mem_leveldb) (IdAllocator 1024) ID_Column [] 2000 Map.empty =
      Inr (C_OK, ids, s') \<and> length ids = min 2000 (unat (bucket_capacity (IdAllocator 1024)))"
    by (rule batch_capped_at_capacity [OF mem_leveldb_spec fresh_IdAllocator]) (simp_all add: IdAllocator_def)
  then show ?thesis by (simp add: IdAllocator_def)
qed

end
