(* ===== verification/CreateStatements.thy ===== *)
theory CreateStatements
  imports Metadata IdAllocator
begin

text \<open>
  \<open>CREATE DATABASE\<close> and \<open>CREATE TABLE\<close>: the syntax trees the parser hands over (\<open>parser/ddl.h\<close>,
  \<open>parser/dml.h\<close>, \<open>parser/expr.h\<close>), the analyzers that make the schema of the new object
  (\<open>analyzer/create_analyzer.cc\<close>) and the executors that write it to the catalogue
  (\<open>executor/create_executor.cc\<close>). The clock and the hash function are arguments. The optimizer
  hands the plan's table from the analyzer to the executor unchanged.

  Of the syntax trees only the fields the analyzers read are here; the pointers in them are not
  null in a tree the parser made, and a null string is the empty one. The entries the analyzer
  adds to the lookup tables of a table point to its own copies of columns and indexes, which are
  equal to the elements at that position and never changed afterwards.
\<close>

section \<open>Syntax trees\<close>

record TableName =
  tn_db :: bytes
  tn_table :: bytes

record ColumnName =
  cn_db :: "bytes option"
  cn_table :: "bytes option"
  cn_name :: bytes

record ColumnDef =
  cd_name :: ColumnName
  cd_type :: MysqlType

record Constraint =
  cons_type :: ConstraintType
  cons_name :: bytes
  cons_columns :: "ColumnName list"

record CreateTableStmt =
  ct_if_not_exist :: bool
  ct_table_name :: TableName
  ct_columns :: "ColumnDef list"
  ct_constraints :: "Constraint list"

record CreateDatabaseStmt =
  cdb_if_not_exist :: bool
  cdb_name :: bytes

section \<open>CREATE DATABASE\<close>

text \<open>The plan is the schema it carries; there is none when the statement is refused. The status of
  the allocation is not looked at.\<close>

definition CreateDatabase_Analyze ::
    "(bytes \<Rightarrow> u64) \<Rightarrow> 's kv_api \<Rightarrow> proto_ops \<Rightarrow> id_allocator \<Rightarrow> u64 \<Rightarrow> CreateDatabaseStmt \<Rightarrow> 's \<Rightarrow>
     (status \<times> DatabaseInfo option \<times> 's) res" where
  "CreateDatabase_Analyze hash kv pb a now stmt s =
     bindR (LoadDatabaseIdByName kv (cdb_name stmt) kInvalidIDatabaseID s) (\<lambda>(st, db_id).
       if st = C_OK then
         if \<not> cdb_if_not_exist stmt then Inr (C_DATABASE_EXISTED, None, s)
         else bindR (LoadDatabaseMeta kv pb db_id DatabaseInfo_new s) (\<lambda>(st, info).
           if st \<noteq> C_OK then Inr (st, None, s) else Inr (C_OK, Some info, s))
       else bindR (AllocateID hash kv a ID_Database (cdb_name stmt) s) (\<lambda>(_, db_id, s1).
         Inr (C_OK,
           Some (DatabaseInfo_new\<lparr>dbi_name := cdb_name stmt, dbi_id := db_id, dbi_create_ts := now,
             dbi_update_ts := now\<rparr>), s1)))"

definition CreateDatabase_DoWork ::
    "'s kv_api \<Rightarrow> proto_ops \<Rightarrow> (u64 set \<Rightarrow> u64 list) \<Rightarrow> DatabaseInfo \<Rightarrow> 's \<Rightarrow> (status \<times> 's) res" where
  "CreateDatabase_DoWork kv pb order info s =
     bindR (DumpDatabaseMeta kv pb order (dbi_id info) info s) (\<lambda>(st, s1).
       if st \<noteq> C_OK then Inr (st, s1)
       else bindR (DumpDatabaseIdByName kv (dbi_name info) (dbi_id info) s1) (\<lambda>(st, s2).
         if st \<noteq> C_OK then Inr (st, s2) else Inr (C_OK, s2)))"

section \<open>CREATE TABLE\<close>

text \<open>\<open>emplace\<close> of a hash map leaves an entry that is there alone.\<close>

definition emplace_pos :: "'k \<Rightarrow> nat \<Rightarrow> ('k \<rightharpoonup> nat) \<Rightarrow> ('k \<rightharpoonup> nat)" where
  "emplace_pos k v m = (case m k of None \<Rightarrow> m(k \<mapsto> v) | Some _ \<Rightarrow> m)"

text \<open>The ASCII text \<open>hello world\<close>.\<close>

definition hello_world :: bytes where
  "hello_world = [104, 101, 108, 108, 111, 32, 119, 111, 114, 108, 100]"

definition new_column :: "u64 \<Rightarrow> bytes \<Rightarrow> nat \<Rightarrow> ColumnDef \<Rightarrow> ColumnInfo" where
  "new_column table_id table_name i d =
     \<lparr>col_id = of_nat i, col_table_id = table_id, col_name = cn_name (cd_name d),
      col_table_name = table_name, col_type = \<lparr>ct_type = cd_type d, ct_charset = CHARSET_UTF8\<rparr>,
      col_comment = hello_world\<rparr>"

definition add_column :: "ColumnInfo \<Rightarrow> TableInfo \<Rightarrow> TableInfo" where
  "add_column c t =
     t\<lparr>column_list := column_list t @ [c],
       id_to_column := emplace_pos (col_id c) (length (column_list t)) (id_to_column t),
       name_to_column := emplace_pos (col_name c) (length (column_list t)) (name_to_column t)\<rparr>"

text \<open>The columns of an index are looked up by name; the result of the lookup is dereferenced
  without a test.\<close>

definition index_column :: "TableInfo \<Rightarrow> ColumnName \<Rightarrow> ColumnInfo res" where
  "index_column t n =
     (case name_to_column t (cn_name n) of
        None \<Rightarrow> Inl Undefined_Behaviour
      | Some k \<Rightarrow> Inr (column_list t ! k))"

definition new_index :: "u64 \<Rightarrow> bytes \<Rightarrow> nat \<Rightarrow> Constraint \<Rightarrow> ColumnInfo list \<Rightarrow> IndexInfo" where
  "new_index table_id table_name i d cols =
     \<lparr>idx_id = of_nat i, idx_table_id = table_id, idx_name = cons_name d, idx_table_name = table_name,
      idx_columns = cols, idx_root_node_id = 0, idx_max_tree_node_id = 0, idx_type = cons_type d,
      idx_comment = hello_world\<rparr>"

definition add_index :: "IndexInfo \<Rightarrow> TableInfo \<Rightarrow> TableInfo" where
  "add_index i t =
     t\<lparr>index_list := index_list t @ [i],
       id_to_index := emplace_pos (idx_id i) (length (index_list t)) (id_to_index t),
       name_to_index := emplace_pos (idx_name i) (length (index_list t)) (name_to_index t)\<rparr>"

fun add_columns :: "u64 \<Rightarrow> bytes \<Rightarrow> nat \<Rightarrow> ColumnDef list \<Rightarrow> TableInfo \<Rightarrow> TableInfo" where
  "add_columns table_id table_name i [] t = t"
| "add_columns table_id table_name i (d # ds) t =
     add_columns table_id table_name (Suc i) ds (add_column (new_column table_id table_name i d) t)"

fun add_indexes :: "u64 \<Rightarrow> bytes \<Rightarrow> nat \<Rightarrow> Constraint list \<Rightarrow> TableInfo \<Rightarrow> TableInfo res" where
  "add_indexes table_id table_name i [] t = Inr t"
| "add_indexes table_id table_name i (d # ds) t =
     bindR (mapR (index_column t) (cons_columns d)) (\<lambda>cols.
       add_indexes table_id table_name (Suc i) ds (add_index (new_index table_id table_name i d cols) t))"

definition CreateTable_Analyze ::
    "(bytes \<Rightarrow> u64) \<Rightarrow> 's kv_api \<Rightarrow> proto_ops \<Rightarrow> id_allocator \<Rightarrow> u64 \<Rightarrow> CreateTableStmt \<Rightarrow> 's \<Rightarrow>
     (status \<times> (DatabaseInfo \<times> TableInfo) option \<times> 's) res" where
  "CreateTable_Analyze hash kv pb a now stmt s =
     (let db_name = tn_db (ct_table_name stmt); table_name = tn_table (ct_table_name stmt) in
      bindR (LoadDatabaseIdByName kv db_name kInvalidIDatabaseID s) (\<lambda>(st, db_id).
        if st \<noteq> C_OK then Inr (C_DATABASE_NOT_FOUND, None, s)
        else bindR (LoadDatabaseMeta kv pb db_id DatabaseInfo_new s) (\<lambda>(st, db_info).
          if st \<noteq> C_OK then Inr (st, None, s)
          else bindR (LoadTableIdByName kv db_id table_name kInvalidTableID s) (\<lambda>(st, table_id).
            if st = C_OK then
              if \<not> ct_if_not_exist stmt then Inr (C_TABLE_EXISTE, None, s)
              else bindR (LoadTableMeta kv pb db_id table_id TableInfo_new s) (\<lambda>(st, t).
                if st \<noteq> C_OK then Inr (st, None, s) else Inr (C_OK, Some (db_info, t), s))
            else bindR (AllocateID hash kv a ID_Table table_name s) (\<lambda>(_, table_id, s1).
              bindR (add_indexes table_id table_name 0 (ct_constraints stmt)
                  (add_columns table_id table_name 0 (ct_columns stmt)
                    (TableInfo_new\<lparr>tbl_db_id := db_id, tbl_db_name := db_name, tbl_id := table_id,
                      tbl_name := table_name, tbl_create_ts := now, tbl_update_ts := now\<rparr>))) (\<lambda>t.
                Inr (C_OK, Some (db_info, t), s1)))))))"

text \<open>The executor fills in the database id of the table and adds the table to its database.\<close>

definition CreateTable_DoWork ::
    "'s kv_api \<Rightarrow> proto_ops \<Rightarrow> (u64 set \<Rightarrow> u64 list) \<Rightarrow> TableInfo \<Rightarrow> 's \<Rightarrow> (status \<times> TableInfo \<times> 's) res" where
  "CreateTable_DoWork kv pb order t s =
     bindR (LoadDatabaseIdByName kv (tbl_db_name t) (tbl_db_id t) s) (\<lambda>(st, db_id).
       let t1 = t\<lparr>tbl_db_id := db_id\<rparr> in
       if st \<noteq> C_OK then Inr (st, t1, s)
       else bindR (ModifyDatabaseMeta kv pb order db_id
           (\<lambda>info. Inr (C_OK, info\<lparr>table_ids := insert (tbl_id t1) (table_ids info)\<rparr>)) s) (\<lambda>(st, s1).
         if st \<noteq> C_OK then Inr (st, t1, s1)
         else bindR (DumpTableMeta kv pb db_id (tbl_id t1) t1 s1) (\<lambda>(st, s2).
           if st \<noteq> C_OK then Inr (st, t1, s2)
           else bindR (DumpTableIdByName kv db_id (tbl_name t1) (tbl_id t1) s2) (\<lambda>(st, s3).
             if st \<noteq> C_OK then Inr (st, t1, s3) else Inr (C_OK, t1, s3)))))"

section \<open>The schema that is made\<close>

lemma emplace_points: "points_to m ks \<Longrightarrow> points_to (emplace_pos k (length ks) m) (ks @ [k])"
  unfolding emplace_pos_def by (auto split: option.split intro: points_to_emplace)

lemma add_column_ok: "columns_ok t \<Longrightarrow> columns_ok (add_column c t)"
  using emplace_points [of "id_to_column t" "map col_id (column_list t)" "col_id c"]
    emplace_points [of "name_to_column t" "map col_name (column_list t)" "col_name c"]
  by (simp add: columns_ok_def add_column_def)

definition new_columns :: "u64 \<Rightarrow> bytes \<Rightarrow> nat \<Rightarrow> ColumnDef list \<Rightarrow> ColumnInfo list" where
  "new_columns table_id table_name i ds =
     map (\<lambda>(j, d). new_column table_id table_name j d) (zip [i..<i + length ds] ds)"

lemma new_columns_simps [simp]:
  "new_columns table_id table_name i [] = []"
  "new_columns table_id table_name i (d # ds) =
     new_column table_id table_name i d # new_columns table_id table_name (Suc i) ds"
  by (simp_all add: new_columns_def upt_conv_Cons del: upt_Suc)

lemma new_columns_names: "map col_name (new_columns table_id table_name i ds) = map (\<lambda>d. cn_name (cd_name d)) ds"
  by (induction ds arbitrary: i) (simp_all add: new_column_def)

lemma new_columns_text:
  "utf8 table_name \<Longrightarrow> list_all (\<lambda>d. utf8 (cn_name (cd_name d))) ds \<Longrightarrow>
   list_all column_text (new_columns table_id table_name i ds)"
  by (induction ds arbitrary: i) (simp_all add: new_column_def column_text_def hello_world_def)

lemma add_columns_result:
  "columns_ok t \<Longrightarrow> columns_ok (add_columns table_id table_name i ds t) \<and>
   column_list (add_columns table_id table_name i ds t) = column_list t @ new_columns table_id table_name i ds"
proof (induction ds arbitrary: i t)
  case (Cons d ds)
  from Cons.IH [OF add_column_ok [OF Cons.prems], of "Suc i" "new_column table_id table_name i d"] show ?case
    by (simp add: add_column_def)
qed simp

lemma add_columns_frame:
  "index_list (add_columns table_id table_name i ds t) = index_list t"
  "tbl_id (add_columns table_id table_name i ds t) = tbl_id t"
  "tbl_db_id (add_columns table_id table_name i ds t) = tbl_db_id t"
  "tbl_name (add_columns table_id table_name i ds t) = tbl_name t"
  "tbl_db_name (add_columns table_id table_name i ds t) = tbl_db_name t"
  by (induction ds arbitrary: i t) (simp_all add: add_column_def)

text \<open>An index whose columns the table has.\<close>

definition known_columns :: "bytes list \<Rightarrow> Constraint \<Rightarrow> bool" where
  "known_columns names d \<longleftrightarrow> (\<forall>n \<in> set (cons_columns d). cn_name n \<in> set names)"

lemma index_column_known:
  assumes "columns_ok t" "cn_name n \<in> set (map col_name (column_list t))"
  shows "\<exists>c \<in> set (column_list t). index_column t n = Inr c \<and> col_name c = cn_name n"
proof -
  have p: "points_to (name_to_column t) (map col_name (column_list t))" using assms(1) by (simp add: columns_ok_def)
  then obtain k where k: "name_to_column t (cn_name n) = Some k"
    using assms(2) unfolding points_to_def by blast
  with p have len: "k < length (column_list t)" and nth: "map col_name (column_list t) ! k = cn_name n"
    unfolding points_to_def by force+
  from nth len have "col_name (column_list t ! k) = cn_name n" by simp
  with k len show ?thesis by (auto simp: index_column_def)
qed

lemma index_columns_known:
  assumes "columns_ok t" "\<forall>n \<in> set ns. cn_name n \<in> set (map col_name (column_list t))"
  shows "\<exists>cols. mapR (index_column t) ns = Inr cols \<and> map col_name cols = map cn_name ns \<and>
    set cols \<subseteq> set (column_list t)"
  using assms(2)
proof (induction ns)
  case (Cons n ns)
  with index_column_known [OF assms(1), of n] show ?case by auto
qed simp

lemma add_index_frame:
  "column_list (add_index i t) = column_list t" "name_to_column (add_index i t) = name_to_column t"
  "id_to_column (add_index i t) = id_to_column t" "index_list (add_index i t) = index_list t @ [i]"
  "tbl_id (add_index i t) = tbl_id t" "tbl_db_id (add_index i t) = tbl_db_id t"
  "tbl_name (add_index i t) = tbl_name t" "tbl_db_name (add_index i t) = tbl_db_name t"
  by (simp_all add: add_index_def)

lemma add_indexes_result:
  assumes "columns_ok t" "list_all (known_columns (map col_name (column_list t))) ds"
  shows "\<exists>t' is. add_indexes table_id table_name i ds t = Inr t' \<and> column_list t' = column_list t \<and>
    index_list t' = index_list t @ is \<and> map idx_name is = map cons_name ds \<and> map idx_type is = map cons_type ds \<and>
    map (\<lambda>x. map col_name (idx_columns x)) is = map (\<lambda>d. map cn_name (cons_columns d)) ds \<and>
    (\<forall>x \<in> set is. idx_table_name x = table_name \<and> idx_comment x = hello_world \<and>
       set (idx_columns x) \<subseteq> set (column_list t)) \<and>
    tbl_id t' = tbl_id t \<and> tbl_db_id t' = tbl_db_id t \<and> tbl_name t' = tbl_name t \<and> tbl_db_name t' = tbl_db_name t"
  using assms
proof (induction ds arbitrary: i t)
  case (Cons d ds)
  have "\<forall>n \<in> set (cons_columns d). cn_name n \<in> set (map col_name (column_list t))"
    using Cons.prems(2) by (simp add: known_columns_def)
  then obtain cols where cols: "mapR (index_column t) (cons_columns d) = Inr cols"
    "map col_name cols = map cn_name (cons_columns d)" "set cols \<subseteq> set (column_list t)"
    using index_columns_known [OF Cons.prems(1)] by blast
  let ?i = "new_index table_id table_name i d cols"
  have "columns_ok (add_index ?i t)" using Cons.prems(1) by (simp add: columns_ok_def add_index_frame)
  moreover have "list_all (known_columns (map col_name (column_list (add_index ?i t)))) ds"
    using Cons.prems(2) by (simp add: add_index_frame)
  ultimately obtain t' "is" where r: "add_indexes table_id table_name (Suc i) ds (add_index ?i t) = Inr t'"
    "column_list t' = column_list t" "index_list t' = index_list t @ ?i # is" "map idx_name is = map cons_name ds"
    "map idx_type is = map cons_type ds"
    "map (\<lambda>x. map col_name (idx_columns x)) is = map (\<lambda>d. map cn_name (cons_columns d)) ds"
    "\<forall>x \<in> set is. idx_table_name x = table_name \<and> idx_comment x = hello_world \<and> set (idx_columns x) \<subseteq> set (column_list t)"
    "tbl_id t' = tbl_id t" "tbl_db_id t' = tbl_db_id t" "tbl_name t' = tbl_name t" "tbl_db_name t' = tbl_db_name t"
    using Cons.IH [of "add_index ?i t" "Suc i"] by (auto simp: add_index_frame)
  show ?case
    using cols r by (intro exI [of _ t'] exI [of _ "?i # is"]) (simp add: new_index_def)
qed simp

end
