(* ===== verification/CatalogueTheorems.thy ===== *)
theory CatalogueTheorems
  imports CreateStatements
begin

text \<open>
  The properties of the catalogue and of the statements that create databases and tables, over
  any LevelDB and any protobuf implementation that behave as documented.
\<close>

section \<open>The statements\<close>

text \<open>A string whose length fits the length field of its encoding.\<close>

definition short_string :: "bytes \<Rightarrow> bool" where
  "short_string s \<longleftrightarrow> length s < 2 ^ 32"

lemma key_wf_names [simp]:
  "key_wf (DatabaseNameKey name) \<longleftrightarrow> short_string name" "key_wf (TableNameKey i name) \<longleftrightarrow> short_string name"
  by (simp_all add: short_string_def)

declare key_bytes.simps [simp del]

text \<open>The allocator can hand out an id for a key: \<open>n\<close> rows of its bucket are taken and there is
  room for one more.\<close>

definition can_allocate :: "(bytes \<Rightarrow> u64) \<Rightarrow> id_allocator \<Rightarrow> IDType \<Rightarrow> bytes \<Rightarrow> (bytes \<rightharpoonup> bytes) \<Rightarrow> nat \<Rightarrow> bool" where
  "can_allocate hash a type key m n \<longleftrightarrow> fresh_allocator a \<and>
     counter_of m (alloc_key hash a type key) (n * unat (bucket_capacity a)) \<and>
     (n + 1) * unat (bucket_capacity a) < 2 ^ 63"

lemma alloc_key_wf:
  "alloc_key hash a ID_Database key = key_bytes (DatabaseAllocKey (ucast (of_nat (bucket_of hash (bucket_capacity a) key) :: u32)))"
  "alloc_key hash a ID_Table key = key_bytes (TableAllocKey (ucast (of_nat (bucket_of hash (bucket_capacity a) key) :: u32)))"
  by (simp_all only: alloc_key_def GenIncKey_key)

lemma database_name_not_alloc:
  "short_string name \<Longrightarrow> key_bytes (DatabaseNameKey name) \<noteq> alloc_key hash a ID_Database key"
  by (simp only: alloc_key_wf key_bytes_eq key_wf_names key_wf.simps(1) ucast_u32_less store_key.simps simp_thms)

lemma table_alloc_not_catalogue:
  "key_bytes (DatabaseIDKey i) \<noteq> alloc_key hash a ID_Table key"
  "key_bytes (DatabaseIDKey i) \<noteq> alloc_key hash a ID_Database key"
  "short_string name \<Longrightarrow> key_bytes (DatabaseNameKey name) \<noteq> alloc_key hash a ID_Table key"
  "key_bytes (TableIDKey i j) \<noteq> alloc_key hash a ID_Table key"
  "short_string name \<Longrightarrow> key_bytes (TableNameKey i name) \<noteq> alloc_key hash a ID_Table key"
  by (simp_all only: alloc_key_wf key_bytes_eq key_wf_names key_wf.simps(1,8-) ucast_u32_less store_key.simps simp_thms)

lemma catalogue_keys_differ:
  "short_string name \<Longrightarrow> key_bytes (DatabaseNameKey name) \<noteq> key_bytes (DatabaseIDKey i)"
  "key_bytes (TableIDKey i j) \<noteq> key_bytes (DatabaseIDKey k)"
  "short_string name \<Longrightarrow> key_bytes (TableNameKey i name) \<noteq> key_bytes (DatabaseIDKey k)"
  "short_string name \<Longrightarrow> key_bytes (TableNameKey i name) \<noteq> key_bytes (TableIDKey j k)"
  "short_string name \<Longrightarrow> short_string name' \<Longrightarrow>
    key_bytes (TableNameKey i name) \<noteq> key_bytes (DatabaseNameKey name')"
  "short_string name \<Longrightarrow> key_bytes (TableIDKey j k) \<noteq> key_bytes (DatabaseNameKey name)"
  by (simp_all only: key_bytes_eq key_wf_names key_wf.simps(1,8-) store_key.simps simp_thms)

lemma database_keys_same:
  "key_bytes (DatabaseIDKey i) = key_bytes (DatabaseIDKey j) \<longleftrightarrow> i = j"
  "short_string n \<Longrightarrow> short_string n' \<Longrightarrow>
    key_bytes (DatabaseNameKey n) = key_bytes (DatabaseNameKey n') \<longleftrightarrow> n = n'"
  by (simp_all only: key_bytes_eq key_wf_names key_wf.simps(1,8-) store_key.simps simp_thms)

lemmas key_neqs = database_name_not_alloc table_alloc_not_catalogue catalogue_keys_differ

lemmas key_facts = key_neqs key_neqs [THEN not_sym] database_keys_same

definition database_made :: "CreateDatabaseStmt \<Rightarrow> u64 \<Rightarrow> u64 \<Rightarrow> DatabaseInfo" where
  "database_made stmt i now =
     \<lparr>dbi_id = i, dbi_name = cdb_name stmt, table_ids = {}, dbi_create_ts = now, dbi_update_ts = now,
      dbi_comment = []\<rparr>"

text \<open>A \<open>CREATE TABLE\<close> whose names are UTF-8 text and whose constraints are over columns it defines.\<close>

definition stmt_columns :: "CreateTableStmt \<Rightarrow> bytes list" where
  "stmt_columns stmt = map (\<lambda>d. cn_name (cd_name d)) (ct_columns stmt)"

definition stmt_ok :: "CreateTableStmt \<Rightarrow> bool" where
  "stmt_ok stmt \<longleftrightarrow> utf8 (tn_table (ct_table_name stmt)) \<and> list_all utf8 (stmt_columns stmt) \<and>
     list_all (\<lambda>c. utf8 (cons_name c) \<and> constraint_ok (cons_type c)) (ct_constraints stmt) \<and>
     list_all (known_columns (stmt_columns stmt)) (ct_constraints stmt)"

text \<open>The table has the columns and the indexes of the statement.\<close>

definition follows_stmt :: "CreateTableStmt \<Rightarrow> TableInfo \<Rightarrow> bool" where
  "follows_stmt stmt t \<longleftrightarrow>
     tbl_name t = tn_table (ct_table_name stmt) \<and> tbl_db_name t = tn_db (ct_table_name stmt) \<and>
     map col_name (column_list t) = stmt_columns stmt \<and>
     map idx_name (index_list t) = map cons_name (ct_constraints stmt) \<and>
     map idx_type (index_list t) = map cons_type (ct_constraints stmt) \<and>
     map (\<lambda>x. map col_name (idx_columns x)) (index_list t) =
       map (\<lambda>c. map cn_name (cons_columns c)) (ct_constraints stmt)"

text \<open>The catalogue has keys of its own.\<close>

definition catalogue_keys_of :: "DatabaseInfo \<Rightarrow> TableInfo \<Rightarrow> bytes set" where
  "catalogue_keys_of d tt =
     {key_bytes (DatabaseIDKey (dbi_id d)), key_bytes (DatabaseNameKey (dbi_name d)),
      key_bytes (TableIDKey (tbl_db_id tt) (tbl_id tt)), key_bytes (TableNameKey (tbl_db_id tt) (tbl_name tt))}"

text \<open>The table the analyzer makes.\<close>

definition made_table :: "CreateTableStmt \<Rightarrow> u64 \<Rightarrow> u64 \<Rightarrow> u64 \<Rightarrow> TableInfo res" where
  "made_table stmt i d now =
     add_indexes i (tn_table (ct_table_name stmt)) 0 (ct_constraints stmt)
       (add_columns i (tn_table (ct_table_name stmt)) 0 (ct_columns stmt)
         (TableInfo_new\<lparr>tbl_db_id := d, tbl_db_name := tn_db (ct_table_name stmt), tbl_id := i,
           tbl_name := tn_table (ct_table_name stmt), tbl_create_ts := now, tbl_update_ts := now\<rparr>))"

context catalogue
begin

lemma create_database_new:
  assumes "contents s (key_bytes (DatabaseNameKey (cdb_name stmt))) = None" "utf8 (cdb_name stmt)"
    "short_string (cdb_name stmt)" "can_allocate hash a ID_Database (cdb_name stmt) (contents s) n"
  shows "\<exists>i s1 s2. CreateDatabase_Analyze hash kv pb a now stmt s = Inr (C_OK, Some (database_made stmt i now), s1) \<and>
    CreateDatabase_DoWork kv pb order (database_made stmt i now) s1 = Inr (C_OK, s2) \<and>
    has_database pb order (contents s2) (database_made stmt i now) \<and>
    (\<forall>d. has_database pb order (contents s) d \<longrightarrow> dbi_id d \<noteq> i \<longrightarrow> short_string (dbi_name d) \<longrightarrow>
       has_database pb order (contents s2) d) \<and>
    i \<noteq> 0 \<and> (\<forall>key. key \<notin> {alloc_key hash a ID_Database (cdb_name stmt), key_bytes (DatabaseIDKey i), key_bytes (DatabaseNameKey (cdb_name stmt))} \<longrightarrow>
      contents s2 key = contents s key)"
proof -
  let ?name = "cdb_name stmt"
  let ?i = "n * unat (bucket_capacity a) + bucket_of hash (bucket_capacity a) ?name + 1"
  obtain i s1 where a: "AllocateID hash kv a ID_Database ?name s = Inr (C_OK, i, s1)"
    "contents s1 = (contents s)(alloc_key hash a ID_Database ?name \<mapsto> dec_of_nat ((n + 1) * unat (bucket_capacity a)))"
    "i = of_nat ?i"
    using allocate_one [of a ID_Database s hash ?name n] assms(4) by (auto simp: can_allocate_def)
  have i0: "i \<noteq> 0"
  proof
    have "0 < bucket_capacity a" "(n + 1) * unat (bucket_capacity a) < 2 ^ 63"
      using assms(4) by (simp_all add: can_allocate_def fresh_allocator_def)
    then have "?i < 2 ^ 64" using bucket_less [of "bucket_capacity a" hash ?name] by simp
    moreover assume "i = 0"
    ultimately have "?i = 0" using a(3) unat_of_nat_u64 [of ?i] by simp
    then show False by simp
  qed
  let ?d = "database_made stmt i now"
  have an: "CreateDatabase_Analyze hash kv pb a now stmt s = Inr (C_OK, Some ?d, s1)"
    by (simp add: CreateDatabase_Analyze_def load_database_id_absent [OF assms(1)] a(1) database_made_def DatabaseInfo_new_def)
  obtain s2 where s2: "DumpDatabaseMeta kv pb order i ?d s1 = Inr (C_OK, s2)"
    "contents s2 = (contents s1)(key_bytes (DatabaseIDKey i) \<mapsto> ser_database pb (DatabaseInfo_Serialize order ?d))"
    using dump_database by blast
  obtain s3 where s3: "DumpDatabaseIdByName kv ?name i s2 = Inr (C_OK, s3)"
    "contents s3 = (contents s2)(key_bytes (DatabaseNameKey ?name) \<mapsto> key_bytes (DatabaseIDKey i))"
    using dump_database_name by blast
  have d: "dbi_id ?d = i" "dbi_name ?d = ?name" by (simp_all add: database_made_def)
  have w: "CreateDatabase_DoWork kv pb order ?d s1 = Inr (C_OK, s3)"
    by (simp add: CreateDatabase_DoWork_def d s2(1) s3(1))
  have "database_text ?d" using assms(2) by (simp add: database_text_def database_made_def)
  then have h: "has_database pb order (contents s3) ?d"
    unfolding has_database_def d s3(2) s2(2) by (simp add: key_facts assms(3))
  have "has_database pb order (contents s3) d"
    if "has_database pb order (contents s) d" "dbi_id d \<noteq> i" "short_string (dbi_name d)" for d
  proof -
    have "dbi_name d \<noteq> ?name" using that(1) assms(1) by (auto simp: has_database_def)
    then show ?thesis
      using that(1,2) unfolding has_database_def s3(2) s2(2) a(2) by (simp add: key_facts assms(3) that(3))
  qed
  moreover have "contents s3 key = contents s key"
    if "key \<notin> {alloc_key hash a ID_Database ?name, key_bytes (DatabaseIDKey i), key_bytes (DatabaseNameKey ?name)}" for key
    using that by (simp add: s3(2) s2(2) a(2))
  ultimately show ?thesis using an w h i0 by blast
qed

lemma create_database_existing:
  assumes "has_database pb order (contents s) d" "dbi_name d = cdb_name stmt"
  shows "CreateDatabase_Analyze hash kv pb a now stmt s =
    (if cdb_if_not_exist stmt then Inr (C_OK, Some d, s) else Inr (C_DATABASE_EXISTED, None, s))"
  using assms load_database_id [of s "cdb_name stmt" "dbi_id d"] load_database [of s "dbi_id d" d]
  by (simp add: CreateDatabase_Analyze_def has_database_def)

lemma analyzed_table:
  assumes "stmt_ok stmt" "utf8 (tn_db (ct_table_name stmt))"
  shows "\<exists>t. made_table stmt i d now = Inr t \<and>
    follows_stmt stmt t \<and> tbl_id t = i \<and> tbl_db_id t = d \<and> table_text t"
proof -
  let ?name = "tn_table (ct_table_name stmt)" and ?cs = "ct_columns stmt"
  let ?t0 = "TableInfo_new\<lparr>tbl_db_id := d, tbl_db_name := tn_db (ct_table_name stmt), tbl_id := i,
          tbl_name := ?name, tbl_create_ts := now, tbl_update_ts := now\<rparr>"
  let ?t1 = "add_columns i ?name 0 ?cs ?t0"
  have "columns_ok ?t0" by (simp add: columns_ok_def TableInfo_new_def)
  from add_columns_result [OF this] have c: "columns_ok ?t1" "column_list ?t1 = new_columns i ?name 0 ?cs"
    by (simp_all add: TableInfo_new_def)
  have names: "map col_name (column_list ?t1) = stmt_columns stmt"
    by (simp only: c(2) new_columns_names stmt_columns_def)
  have "list_all (known_columns (map col_name (column_list ?t1))) (ct_constraints stmt)"
    using assms(1) names by (simp add: stmt_ok_def)
  from add_indexes_result [OF c(1) this, of i ?name 0] obtain t "is" where
    t: "add_indexes i ?name 0 (ct_constraints stmt) ?t1 = Inr t" "column_list t = column_list ?t1"
      "index_list t = index_list ?t1 @ is" "map idx_name is = map cons_name (ct_constraints stmt)"
      "map idx_type is = map cons_type (ct_constraints stmt)"
      "map (\<lambda>x. map col_name (idx_columns x)) is = map (\<lambda>c. map cn_name (cons_columns c)) (ct_constraints stmt)"
      "\<forall>x \<in> set is. idx_table_name x = ?name \<and> idx_comment x = hello_world \<and> set (idx_columns x) \<subseteq> set (column_list ?t1)"
      "tbl_id t = tbl_id ?t1" "tbl_db_id t = tbl_db_id ?t1" "tbl_name t = tbl_name ?t1" "tbl_db_name t = tbl_db_name ?t1"
    by metis
  have is0: "index_list t = is" by (simp add: t(3) add_columns_frame TableInfo_new_def)
  have f: "tbl_id t = i" "tbl_db_id t = d" "tbl_name t = ?name" "tbl_db_name t = tn_db (ct_table_name stmt)"
    by (simp_all add: t add_columns_frame TableInfo_new_def)
  have "follows_stmt stmt t"
    using names t(4-6) by (simp add: follows_stmt_def f t(2) is0)
  moreover have cols: "list_all column_text (column_list t)"
    unfolding t(2) c(2) using assms(1) by (intro new_columns_text) (simp_all add: stmt_ok_def stmt_columns_def list_all_iff)
  moreover have "index_text x" if "x \<in> set is" for x
  proof -
    have "idx_name x \<in> set (map cons_name (ct_constraints stmt))" "idx_type x \<in> set (map cons_type (ct_constraints stmt))"
      unfolding t(4) [symmetric] t(5) [symmetric] using that by simp_all
    then have "utf8 (idx_name x)" "constraint_ok (idx_type x)"
      using assms(1) by (auto simp: stmt_ok_def list_all_iff)
    moreover have "utf8 hello_world" by (simp add: hello_world_def)
    ultimately show ?thesis
      using t(7) that cols assms(1) unfolding t(2) index_text_def by (auto simp: stmt_ok_def list_all_iff)
  qed
  ultimately show ?thesis
    using t(1) f assms by (auto simp: table_text_def list_all_iff is0 stmt_ok_def made_table_def)
qed

lemma create_table_new:
  assumes "has_database pb order (contents s) d" "dbi_name d = tn_db (ct_table_name stmt)"
    "short_string (dbi_name d)" "short_string (tn_table (ct_table_name stmt))" "stmt_ok stmt"
    "contents s (key_bytes (TableNameKey (dbi_id d) (tn_table (ct_table_name stmt)))) = None"
    "can_allocate hash a ID_Table (tn_table (ct_table_name stmt)) (contents s) n"
  shows "\<exists>t s1 s2. CreateTable_Analyze hash kv pb a now stmt s = Inr (C_OK, Some (d, t), s1) \<and>
    CreateTable_DoWork kv pb order t s1 = Inr (C_OK, t, s2) \<and> follows_stmt stmt t \<and>
    tbl_db_id t = dbi_id d \<and> has_table pb (contents s2) t \<and>
    has_database pb order (contents s2) (d\<lparr>table_ids := insert (tbl_id t) (table_ids d)\<rparr>) \<and>
    made_table stmt (tbl_id t) (dbi_id d) now = Inr t \<and>
    (\<forall>key. key \<notin> insert (alloc_key hash a ID_Table (tn_table (ct_table_name stmt))) (catalogue_keys_of d t) \<longrightarrow>
      contents s2 key = contents s key)"
proof -
  let ?name = "tn_table (ct_table_name stmt)"
  have u: "utf8 (tn_db (ct_table_name stmt))" using assms(1,2) by (simp add: has_database_def database_text_def)
  obtain i s1 where a: "AllocateID hash kv a ID_Table ?name s = Inr (C_OK, i, s1)"
    "contents s1 = (contents s)(alloc_key hash a ID_Table ?name \<mapsto> dec_of_nat ((n + 1) * unat (bucket_capacity a)))"
    using allocate_one [of a ID_Table s hash ?name n] assms(7) by (auto simp: can_allocate_def)
  obtain t where t: "made_table stmt i (dbi_id d) now = Inr t"
    "follows_stmt stmt t" "tbl_id t = i" "tbl_db_id t = dbi_id d" "table_text t"
    using analyzed_table [OF assms(5) u] by blast
  have n: "tbl_name t = ?name" "tbl_db_name t = dbi_name d" using t(2) assms(2) by (simp_all add: follows_stmt_def)
  have dt: "database_text d"
    and idk: "contents s (key_bytes (DatabaseIDKey (dbi_id d))) = Some (ser_database pb (DatabaseInfo_Serialize order d))"
    and nk: "contents s (key_bytes (DatabaseNameKey (dbi_name d))) = Some (key_bytes (DatabaseIDKey (dbi_id d)))"
    using assms(1) by (simp_all add: has_database_def)
  have an: "CreateTable_Analyze hash kv pb a now stmt s = Inr (C_OK, Some (d, t), s1)"
    using load_database_id [OF nk] load_database [OF idk dt] load_table_id_absent [OF assms(6)] a(1) t(1)
    by (simp add: CreateTable_Analyze_def made_table_def assms(2))
  have c1: "contents s1 (key_bytes (DatabaseIDKey (dbi_id d))) = Some (ser_database pb (DatabaseInfo_Serialize order d))"
    "contents s1 (key_bytes (DatabaseNameKey (dbi_name d))) = Some (key_bytes (DatabaseIDKey (dbi_id d)))"
    using idk nk by (simp_all add: a(2) key_facts assms(3))
  let ?d = "d\<lparr>table_ids := insert i (table_ids d)\<rparr>"
  let ?cb = "\<lambda>info. Inr (C_OK, info\<lparr>table_ids := insert i (table_ids info)\<rparr>) :: (status \<times> DatabaseInfo) res"
  obtain s2 where s2: "ModifyDatabaseMeta kv pb order (dbi_id d) ?cb s1 = Inr (C_OK, s2)"
    "contents s2 = (contents s1)(key_bytes (DatabaseIDKey (dbi_id d)) \<mapsto> ser_database pb (DatabaseInfo_Serialize order ?d))"
    using modify_database [OF c1(1) dt, of ?cb ?d] by auto
  obtain s3 where s3: "DumpTableMeta kv pb (dbi_id d) i t s2 = Inr (C_OK, s3)"
    "contents s3 = (contents s2)(key_bytes (TableIDKey (dbi_id d) i) \<mapsto> ser_table pb (TableInfo_Serialize t))"
    using dump_table by blast
  obtain s4 where s4: "DumpTableIdByName kv (dbi_id d) ?name i s3 = Inr (C_OK, s4)"
    "contents s4 = (contents s3)(key_bytes (TableNameKey (dbi_id d) ?name) \<mapsto> key_bytes (TableIDKey (dbi_id d) i))"
    using dump_table_name by blast
  have t1: "t\<lparr>tbl_db_id := dbi_id d\<rparr> = t" using t(4) by simp
  have w: "CreateTable_DoWork kv pb order t s1 = Inr (C_OK, t, s4)"
    using load_database_id [OF c1(2)] s2(1) s3(1) s4(1) by (simp add: CreateTable_DoWork_def n t(3) t1)
  have "has_table pb (contents s4) t"
    unfolding has_table_def using t(5) by (simp add: t(3,4) n s4(2) s3(2) key_facts assms(4))
  moreover have "has_database pb order (contents s4) ?d"
    unfolding has_database_def using dt c1 by (simp add: database_text_def s4(2) s3(2) s2(2) key_facts assms(3,4))
  moreover have "contents s4 key = contents s key"
    if "key \<notin> insert (alloc_key hash a ID_Table ?name) (catalogue_keys_of d t)" for key
    using that by (simp add: catalogue_keys_of_def t(3,4) n s4(2) s3(2) s2(2) a(2))
  ultimately show ?thesis using an w t by blast
qed

end

section \<open>Properties\<close>

text \<open>C20: A table written to the catalogue and read back has the same id, names and times, the same
  columns and indexes in the same order except for the types of the columns, and lookups by id,
  by name and by column that lead to the elements they name.\<close>

theorem table_meta_roundtrip:
  assumes "leveldb_spec L view" "protobuf pb" "table_text t"
  shows "\<exists>s' t'. DumpTableMeta (LevelDbClient L) pb (tbl_db_id t) (tbl_id t) t s = Inr (C_OK, s') \<and>
    LoadTableMeta (LevelDbClient L) pb (tbl_db_id t) (tbl_id t) TableInfo_new s' = Inr (C_OK, t') \<and>
    tbl_id t' = tbl_id t \<and> tbl_db_id t' = tbl_db_id t \<and> tbl_name t' = tbl_name t \<and>
    tbl_db_name t' = tbl_db_name t \<and> tbl_create_ts t' = tbl_create_ts t \<and> tbl_update_ts t' = tbl_update_ts t \<and>
    column_list t' = map stored_column (column_list t) \<and> index_list t' = map stored_index (index_list t) \<and>
    table_ok t'"
proof -
  note c = catalogue_of [OF assms(1,2) set_order_sorted]
  obtain s' where s': "DumpTableMeta (LevelDbClient L) pb (tbl_db_id t) (tbl_id t) t s = Inr (C_OK, s')"
    "view s' = (view s)(key_bytes (TableIDKey (tbl_db_id t) (tbl_id t)) \<mapsto> ser_table pb (TableInfo_Serialize t))"
    using catalogue.dump_table [OF c] by blast
  have "LoadTableMeta (LevelDbClient L) pb (tbl_db_id t) (tbl_id t) TableInfo_new s' = Inr (C_OK, stored_table t)"
    by (rule catalogue.load_table [OF c _ assms(3)]) (simp add: s'(2))
  with s'(1) assms(3) show ?thesis
    by (simp add: stored_table_fields stored_table_columns stored_table_indexes stored_table_ok table_text_def)
qed

definition demo_table :: TableInfo where
  "demo_table = TableInfo_new\<lparr>tbl_id := 7, tbl_db_id := 3, tbl_name := [116], tbl_db_name := [100],
     column_list := [ColumnInfo_new\<lparr>col_id := 0, col_name := [107], col_type := \<lparr>ct_type = MYSQL_TYPE_STRING, ct_charset = CHARSET_UTF8\<rparr>\<rparr>],
     index_list := [IndexInfo_new\<lparr>idx_id := 0, idx_name := [112], idx_type := CONSTRAINT_PRIMARY\<rparr>]\<rparr>"

lemma demo_table_text: "table_text demo_table"
  by (simp add: demo_table_def table_text_def TableInfo_new_def ColumnInfo_new_def IndexInfo_new_def column_text_def index_text_def)

theorem table_meta_roundtrip_witness:
  "\<exists>s' t'. DumpTableMeta (LevelDbClient mem_leveldb) sd_proto 3 7 demo_table Map.empty = Inr (C_OK, s') \<and>
    LoadTableMeta (LevelDbClient mem_leveldb) sd_proto 3 7 TableInfo_new s' = Inr (C_OK, t') \<and>
    map col_name (column_list t') = [[107]] \<and> table_ok t'"
  using table_meta_roundtrip [OF mem_leveldb_spec sd_protobuf demo_table_text, of Map.empty]
  by (auto simp: demo_table_def stored_column_def ColumnInfo_new_def)

text \<open>C21: Whatever the types of its columns were, a table that is read from the catalogue has
  columns of type \<open>DECIMAL\<close> only, whose values are 64-bit integers: the types are not written.\<close>

theorem column_types_lost:
  assumes "LoadTableMeta kv pb d i TableInfo_new s = Inr (C_OK, t)" "c \<in> set (column_list t)"
  shows "ct_type (col_type c) = MYSQL_TYPE_DECIMAL \<and> ToExprType (col_type c) = Int64"
proof -
  obtain p where "t = TableInfo_Deserialize p TableInfo_new"
    using assms(1) by (auto simp: LoadTableMeta_def bindR_Inr_iff split: if_splits option.splits prod.splits)
  then obtain q where "c = ColumnInfo_Deserialize q ColumnInfo_new"
    using assms(2) by (auto simp: deserialize_lists)
  then show ?thesis by (simp add: ColumnInfo_Deserialize_def ColumnInfo_new_def ToExprType_def)
qed

theorem column_types_lost_witness:
  "\<exists>s' t' c. DumpTableMeta (LevelDbClient mem_leveldb) sd_proto 3 7 demo_table Map.empty = Inr (C_OK, s') \<and>
    LoadTableMeta (LevelDbClient mem_leveldb) sd_proto 3 7 TableInfo_new s' = Inr (C_OK, t') \<and>
    ToExprType (col_type (hd (column_list demo_table))) = String \<and>
    c = hd (column_list t') \<and> col_name c = [107] \<and> ToExprType (col_type c) = Int64"
proof -
  have "tbl_db_id demo_table = 3" "tbl_id demo_table = 7" "column_list demo_table \<noteq> []"
    "col_name (hd (column_list demo_table)) = [107]" "ToExprType (col_type (hd (column_list demo_table))) = String"
    by (simp_all add: demo_table_def ToExprType_def)
  note d = this
  obtain s' t' where r: "DumpTableMeta (LevelDbClient mem_leveldb) sd_proto 3 7 demo_table Map.empty = Inr (C_OK, s')"
    "LoadTableMeta (LevelDbClient mem_leveldb) sd_proto 3 7 TableInfo_new s' = Inr (C_OK, t')"
    "column_list t' = map stored_column (column_list demo_table)"
    using mem_catalogue.dump_table [of 3 7 demo_table Map.empty] mem_catalogue.load_table [OF _ demo_table_text, of _ 3 7]
    by (auto simp: stored_table_columns)
  then have "hd (column_list t') \<in> set (column_list t')" "col_name (hd (column_list t')) = [107]"
    using d(3,4) by (simp_all add: hd_map stored_column_def)
  with column_types_lost [OF r(2) this(1)] r d show ?thesis by blast
qed

text \<open>C19: \<open>CREATE DATABASE\<close> of a new name makes a database without tables that is found under its
  name and its id afterwards; the databases with other ids stay as they are. A second
  \<open>CREATE DATABASE\<close> of the name is refused and changes nothing.\<close>

theorem create_database_found:
  assumes "leveldb_spec L view" "protobuf pb" "set_order order"
    "view s (key_bytes (DatabaseNameKey (cdb_name stmt))) = None" "utf8 (cdb_name stmt)"
    "short_string (cdb_name stmt)" "can_allocate hash a ID_Database (cdb_name stmt) (view s) n"
  shows "\<exists>d s1 s2. CreateDatabase_Analyze hash (LevelDbClient L) pb a now stmt s = Inr (C_OK, Some d, s1) \<and>
    CreateDatabase_DoWork (LevelDbClient L) pb order d s1 = Inr (C_OK, s2) \<and>
    dbi_name d = cdb_name stmt \<and> table_ids d = {} \<and>
    LoadDatabaseIdByName (LevelDbClient L) (cdb_name stmt) old s2 = Inr (C_OK, dbi_id d) \<and>
    LoadDatabaseMeta (LevelDbClient L) pb (dbi_id d) DatabaseInfo_new s2 = Inr (C_OK, d) \<and>
    CreateDatabase_Analyze hash (LevelDbClient L) pb a now (stmt\<lparr>cdb_if_not_exist := False\<rparr>) s2 =
      Inr (C_DATABASE_EXISTED, None, s2) \<and>
    (\<forall>d'. has_database pb order (view s) d' \<and> dbi_id d' \<noteq> dbi_id d \<and> short_string (dbi_name d') \<longrightarrow>
       LoadDatabaseIdByName (LevelDbClient L) (dbi_name d') old s2 = Inr (C_OK, dbi_id d') \<and>
       LoadDatabaseMeta (LevelDbClient L) pb (dbi_id d') DatabaseInfo_new s2 = Inr (C_OK, d'))"
proof -
  note c = catalogue_of [OF assms(1-3)]
  obtain i s1 s2 where r: "CreateDatabase_Analyze hash (LevelDbClient L) pb a now stmt s = Inr (C_OK, Some (database_made stmt i now), s1)"
    "CreateDatabase_DoWork (LevelDbClient L) pb order (database_made stmt i now) s1 = Inr (C_OK, s2)"
    "has_database pb order (view s2) (database_made stmt i now)"
    "\<And>d. has_database pb order (view s) d \<Longrightarrow> dbi_id d \<noteq> i \<Longrightarrow> short_string (dbi_name d) \<Longrightarrow> has_database pb order (view s2) d"
    using catalogue.create_database_new [OF c assms(4-7)] by metis
  have f: "LoadDatabaseIdByName (LevelDbClient L) (dbi_name d) old s2 = Inr (C_OK, dbi_id d) \<and>
      LoadDatabaseMeta (LevelDbClient L) pb (dbi_id d) DatabaseInfo_new s2 = Inr (C_OK, d)"
    if "has_database pb order (view s2) d" for d
    using that catalogue.load_database_id [OF c] catalogue.load_database [OF c] by (auto simp: has_database_def)
  have m: "dbi_name (database_made stmt i now) = cdb_name stmt" "table_ids (database_made stmt i now) = {}"
    "dbi_id (database_made stmt i now) = i"
    by (simp_all add: database_made_def)
  from f [OF r(3)] have "LoadDatabaseIdByName (LevelDbClient L) (cdb_name stmt) old s2 = Inr (C_OK, i)"
    by (simp add: m)
  moreover have "CreateDatabase_Analyze hash (LevelDbClient L) pb a now (stmt\<lparr>cdb_if_not_exist := False\<rparr>) s2 =
      Inr (C_DATABASE_EXISTED, None, s2)"
    by (subst catalogue.create_database_existing [OF c r(3)]) (simp_all add: m)
  ultimately show ?thesis
    using r(1,2,4) f [OF r(3)] f m by (intro exI [of _ "database_made stmt i now"] exI [of _ s1] exI [of _ s2]) auto
qed

definition demo_allocator :: id_allocator where
  "demo_allocator = IdAllocator 1024"

lemma demo_can_allocate:
  "type \<noteq> ID_Unknown \<Longrightarrow> m (alloc_key hash demo_allocator type key) = None \<Longrightarrow>
   can_allocate hash demo_allocator type key m 0"
  using fresh_IdAllocator [of 1024]
  by (simp add: can_allocate_def demo_allocator_def counter_of_def) (simp add: IdAllocator_def)

theorem create_database_found_witness:
  "\<exists>d s1 s2. CreateDatabase_Analyze (\<lambda>_. 5) (LevelDbClient mem_leveldb) sd_proto demo_allocator 9
      \<lparr>cdb_if_not_exist = False, cdb_name = [100, 98]\<rparr> Map.empty = Inr (C_OK, Some d, s1) \<and>
    CreateDatabase_DoWork (LevelDbClient mem_leveldb) sd_proto sorted_list_of_set d s1 = Inr (C_OK, s2) \<and>
    LoadDatabaseIdByName (LevelDbClient mem_leveldb) [100, 98] 0 s2 = Inr (C_OK, dbi_id d)"
  using create_database_found [OF mem_leveldb_spec sd_protobuf set_order_sorted,
      of Map.empty "\<lparr>cdb_if_not_exist = False, cdb_name = [100, 98]\<rparr>" "\<lambda>_. 5" demo_allocator 0 9 0]
    demo_can_allocate [of ID_Database Map.empty "\<lambda>_. 5" "[100, 98]"]
  by (simp add: short_string_def) blast

text \<open>C18: \<open>CREATE TABLE\<close> of a new name in an existing database makes a table with the columns and
  indexes of the statement; it is found afterwards under its name and its id, with the same
  columns and indexes, and the database lists it.\<close>

theorem create_table_found:
  assumes "leveldb_spec L view" "protobuf pb" "set_order order" "has_database pb order (view s) d"
    "dbi_name d = tn_db (ct_table_name stmt)" "short_string (dbi_name d)"
    "short_string (tn_table (ct_table_name stmt))" "stmt_ok stmt"
    "view s (key_bytes (TableNameKey (dbi_id d) (tn_table (ct_table_name stmt)))) = None"
    "can_allocate hash a ID_Table (tn_table (ct_table_name stmt)) (view s) n"
  shows "\<exists>t t' s1 s2. CreateTable_Analyze hash (LevelDbClient L) pb a now stmt s = Inr (C_OK, Some (d, t), s1) \<and>
    CreateTable_DoWork (LevelDbClient L) pb order t s1 = Inr (C_OK, t, s2) \<and> follows_stmt stmt t \<and>
    LoadTableIdByName (LevelDbClient L) (dbi_id d) (tn_table (ct_table_name stmt)) old s2 = Inr (C_OK, tbl_id t) \<and>
    LoadTableMeta (LevelDbClient L) pb (dbi_id d) (tbl_id t) TableInfo_new s2 = Inr (C_OK, t') \<and>
    follows_stmt stmt t' \<and> table_ok t' \<and>
    LoadDatabaseMeta (LevelDbClient L) pb (dbi_id d) DatabaseInfo_new s2 =
      Inr (C_OK, d\<lparr>table_ids := insert (tbl_id t) (table_ids d)\<rparr>)"
proof -
  note c = catalogue_of [OF assms(1-3)]
  obtain t s1 s2 where r: "CreateTable_Analyze hash (LevelDbClient L) pb a now stmt s = Inr (C_OK, Some (d, t), s1)"
    "CreateTable_DoWork (LevelDbClient L) pb order t s1 = Inr (C_OK, t, s2)" "follows_stmt stmt t"
    "tbl_db_id t = dbi_id d" "has_table pb (view s2) t"
    "has_database pb order (view s2) (d\<lparr>table_ids := insert (tbl_id t) (table_ids d)\<rparr>)"
    using catalogue.create_table_new [OF c assms(4-10)] by metis
  have n: "tbl_name t = tn_table (ct_table_name stmt)" using r(3) by (simp add: follows_stmt_def)
  have x: "table_text t" "list_all index_text (index_list t)" using r(5) by (simp_all add: has_table_def table_text_def)
  have "follows_stmt stmt (stored_table t)"
    using r(3) by (simp add: follows_stmt_def stored_table_fields stored_table_columns stored_table_indexes [OF x(2)]
        stored_index_def stored_column_def comp_def)
  moreover have "LoadTableIdByName (LevelDbClient L) (dbi_id d) (tn_table (ct_table_name stmt)) old s2 = Inr (C_OK, tbl_id t)"
    using r(5) by (intro catalogue.load_table_id [OF c]) (simp add: has_table_def r(4) n)
  moreover have "LoadTableMeta (LevelDbClient L) pb (dbi_id d) (tbl_id t) TableInfo_new s2 = Inr (C_OK, stored_table t)"
    using r(5) by (intro catalogue.load_table [OF c]) (simp_all add: has_table_def r(4))
  moreover have "LoadDatabaseMeta (LevelDbClient L) pb (dbi_id d) DatabaseInfo_new s2 =
      Inr (C_OK, d\<lparr>table_ids := insert (tbl_id t) (table_ids d)\<rparr>)"
    using r(6) by (intro catalogue.load_database [OF c]) (simp_all add: has_database_def)
  ultimately show ?thesis using r(1-3) stored_table_ok by blast
qed

definition demo_stmt :: CreateTableStmt where
  "demo_stmt = \<lparr>ct_if_not_exist = False, ct_table_name = \<lparr>tn_db = [100], tn_table = [116]\<rparr>,
     ct_columns = [\<lparr>cd_name = \<lparr>cn_db = None, cn_table = None, cn_name = [107]\<rparr>, cd_type = MYSQL_TYPE_LONG\<rparr>],
     ct_constraints = [\<lparr>cons_type = CONSTRAINT_PRIMARY, cons_name = [112],
       cons_columns = [\<lparr>cn_db = None, cn_table = None, cn_name = [107]\<rparr>]\<rparr>]\<rparr>"

definition demo_database :: DatabaseInfo where
  "demo_database = DatabaseInfo_new\<lparr>dbi_id := 3, dbi_name := [100]\<rparr>"

definition demo_storage :: "bytes \<rightharpoonup> bytes" where
  "demo_storage = [key_bytes (DatabaseIDKey 3) \<mapsto> ser_database sd_proto (DatabaseInfo_Serialize sorted_list_of_set demo_database),
     key_bytes (DatabaseNameKey [100]) \<mapsto> key_bytes (DatabaseIDKey 3)]"

theorem create_table_found_witness:
  "\<exists>t t' s1 s2. CreateTable_Analyze (\<lambda>_. 5) (LevelDbClient mem_leveldb) sd_proto demo_allocator 9 demo_stmt demo_storage =
      Inr (C_OK, Some (demo_database, t), s1) \<and>
    CreateTable_DoWork (LevelDbClient mem_leveldb) sd_proto sorted_list_of_set t s1 = Inr (C_OK, t, s2) \<and>
    LoadTableMeta (LevelDbClient mem_leveldb) sd_proto 3 (tbl_id t) TableInfo_new s2 = Inr (C_OK, t') \<and>
    map col_name (column_list t') = [[107]]"
proof -
  have s: "short_string [100]" "short_string [116]" by (simp_all add: short_string_def)
  have d: "has_database sd_proto sorted_list_of_set (id demo_storage) demo_database"
    by (simp add: has_database_def database_text_def demo_database_def demo_storage_def key_facts s DatabaseInfo_new_def)
  have ok: "stmt_ok demo_stmt" by (simp add: stmt_ok_def demo_stmt_def stmt_columns_def known_columns_def)
  have none: "id demo_storage (key_bytes (TableNameKey (dbi_id demo_database) (tn_table (ct_table_name demo_stmt)))) = None"
    by (simp add: demo_storage_def demo_stmt_def key_facts s)
  have can: "can_allocate (\<lambda>_. 5) demo_allocator ID_Table (tn_table (ct_table_name demo_stmt)) (id demo_storage) 0"
    by (rule demo_can_allocate) (simp_all add: demo_storage_def key_facts s not_sym [OF key_neqs(2)])
  have n: "dbi_name demo_database = tn_db (ct_table_name demo_stmt)" "short_string (dbi_name demo_database)"
    "short_string (tn_table (ct_table_name demo_stmt))" "dbi_id demo_database = 3"
    by (simp_all add: demo_database_def demo_stmt_def s)
  from create_table_found [OF mem_leveldb_spec sd_protobuf set_order_sorted, of demo_storage demo_database demo_stmt
      "\<lambda>_. 5" demo_allocator 0 9 0, OF d n(1-3) ok none can]
  show ?thesis by (auto simp: n(4) follows_stmt_def demo_stmt_def stmt_columns_def)
qed

end
