(* ===== verification/SqlText.thy ===== *)
theory SqlText
  imports ExprValue
begin

text \<open>
  The text of statements (\<open>parser/utils.h\<close>, the literals of \<open>parser/expr.h\<close>, \<open>parser/parser.cc\<close>):
  strings of the syntax tree, the literals made from the tokens of the scanner, and the detour that
  hides the backslashes in the second bytes of GBK characters from the scanner.

  A string of the syntax tree is its bytes; a null one is empty. A C string ends at its first zero
  byte. The functions of the C library that classify and convert characters are those of the C
  locale, which leave bytes of 128 and more alone. Conversion of text to doubles is an argument.
\<close>

unbundle bit_operations_syntax

section \<open>Strings\<close>

definition c_str :: "bytes \<Rightarrow> bytes" where "c_str s = takeWhile (\<lambda>b. b \<noteq> 0) s"

definition String_empty :: "bytes \<Rightarrow> bool" where "String_empty s \<longleftrightarrow> s = [] \<or> hd s = 0"

definition String_append :: "bytes \<Rightarrow> bytes \<Rightarrow> bytes" where "String_append s str = s @ c_str str"

definition String_eq :: "bytes \<Rightarrow> bytes \<Rightarrow> bool" where
  "String_eq a b =
     (if String_empty a \<and> String_empty b then True
      else if String_empty a \<or> String_empty b then False
      else c_str a = c_str b)"

definition starts_with :: "bytes \<Rightarrow> bytes \<Rightarrow> bool" where
  "starts_with prefix value =
     (let prefix_len = length (c_str prefix); value_len = length (c_str value) in
      \<not> value_len < prefix_len \<and> (\<forall>idx < prefix_len. prefix ! idx = value ! idx))"

definition is_print :: "bytes \<Rightarrow> bool" where "is_print s = list_all (\<lambda>b. 32 \<le> b \<and> b \<le> 126) s"

definition tolower_char :: "u8 \<Rightarrow> u8" where "tolower_char b = (if 65 \<le> b \<and> b \<le> 90 then b + 32 else b)"
definition to_lower :: "bytes \<Rightarrow> bytes" where "to_lower s = map tolower_char s"

section \<open>Escapes\<close>

definition trans_map :: "u8 \<Rightarrow> u8 option" where
  "trans_map b =
     (if b = 92 then Some 92 else if b = 34 then Some 34 else if b = 39 then Some 39
      else if b = 114 then Some 13 else if b = 116 then Some 9 else if b = 110 then Some 10
      else if b = 98 then Some 8 else if b = 90 then Some 0x1A else None)"

text \<open>The loop of \<open>stripslashes\<close> over the buffer: it reads at \<open>fast\<close> and writes at \<open>slow\<close>. A
  backslash before any other character is dropped, except that it stays before a wild card.\<close>

function stripslashes_loop :: "bytes \<Rightarrow> nat \<Rightarrow> nat \<Rightarrow> nat \<Rightarrow> bool \<Rightarrow> bytes \<times> nat" where
  "stripslashes_loop value len slow fast has_slash =
     (if fast < len then
        if has_slash then
          (case trans_map (value ! fast) of
             Some c \<Rightarrow> stripslashes_loop (value[slow := c]) len (slow + 1) (fast + 1) False
           | None \<Rightarrow>
               if value ! fast = 37 \<or> value ! fast = 95 then
                 let v1 = value[slow := 92]
                 in stripslashes_loop (v1[slow + 1 := v1 ! fast]) len (slow + 2) (fast + 1) False
               else stripslashes_loop value len slow fast False)
        else if value ! fast = 92 then stripslashes_loop value len slow (fast + 1) True
        else stripslashes_loop (value[slow := value ! fast]) len (slow + 1) (fast + 1) False
      else (value[slow := 0], slow))"
  by pat_completeness auto
termination
  by (relation "measure (\<lambda>(_, len, _, fast, has_slash). 2 * (len - fast) + (if has_slash then 1 else 0))") auto

declare stripslashes_loop.simps [simp del]

text \<open>The buffer of a string has a zero byte behind it.\<close>

definition stripslashes :: "bytes \<Rightarrow> bytes" where
  "stripslashes s = (let (value, slow) = stripslashes_loop (s @ [0]) (length s) 0 0 False in take slow value)"

section \<open>Literals\<close>

datatype literal =
  LT_INT u64 | LT_DOUBLE u64 | LT_STRING bytes | LT_BOOL bool | LT_NULL | LT_PLACE_HOLDER u64 | LT_HEX bytes

definition std_strtoull :: "bytes \<Rightarrow> u64" where
  "std_strtoull s =
     (let s1 = dropWhile is_space s;
          neg = (s1 \<noteq> [] \<and> hd s1 = 45);
          s2 = (if s1 \<noteq> [] \<and> (hd s1 = 45 \<or> hd s1 = 43) then tl s1 else s1);
          v = digits_value (takeWhile is_digit s2)
      in if 2 ^ 64 \<le> v then - 1 else if neg then - of_nat v else of_nat v)"

definition make_int :: "bytes \<Rightarrow> literal" where "make_int str = LT_INT (std_strtoull str)"

definition make_double :: "(bytes \<Rightarrow> u64) \<Rightarrow> bytes \<Rightarrow> literal" where "make_double strtod str = LT_DOUBLE (strtod str)"

definition bit_to_char :: "bytes \<Rightarrow> u8" where "bit_to_char str = foldl (\<lambda>out b. out * 2 + b - 48) 0 str"

definition hex_to_char :: "bytes \<Rightarrow> u8" where
  "hex_to_char str =
     foldl (\<lambda>out b. if 65 \<le> b \<and> b \<le> 70 then out * 16 + b - 65 + 10
                    else if 97 \<le> b \<and> b \<le> 102 then out * 16 + b - 97 + 10
                    else out * 16 + b - 48) 0 str"

text \<open>The loop over the rest of the text, some digits at a time.\<close>

fun char_chunks :: "(bytes \<Rightarrow> u8) \<Rightarrow> nat \<Rightarrow> bytes \<Rightarrow> bytes" where
  "char_chunks to_char k [] = []"
| "char_chunks to_char k (b # bs) = to_char (take k (b # bs)) # char_chunks to_char k (drop (k - 1) bs)"

definition make_bit :: "bytes \<Rightarrow> literal" where
  "make_bit str =
     (let pos = length str mod 8
      in LT_HEX ((if pos \<noteq> 0 then [bit_to_char (take pos str)] else []) @ char_chunks bit_to_char 8 (drop pos str)))"

definition make_hex :: "bytes \<Rightarrow> literal" where
  "make_hex str =
     (let pos = length str mod 2
      in LT_HEX ((if pos \<noteq> 0 then [hex_to_char (take pos str)] else []) @ char_chunks hex_to_char 2 (drop pos str)))"

text \<open>The text of a string is a C string; the empty one has a zero byte in front.\<close>

definition make_string :: "bytes \<Rightarrow> literal" where
  "make_string text =
     (let str = c_str text; str_len = length str in
      if str \<noteq> [] \<and> (hd str = 34 \<or> hd str = 39)
      then let cut_num = (if str_len = 1 \<or> str ! (str_len - 1) \<noteq> hd str then 1 else 2)
           in LT_STRING (take (str_len - cut_num) (drop 1 str))
      else LT_STRING str)"

definition make_true :: literal where "make_true = LT_BOOL True"
definition make_false :: literal where "make_false = LT_BOOL False"
definition make_null :: literal where "make_null = LT_NULL"
definition make_place_holder :: "u32 \<Rightarrow> literal" where "make_place_holder i = LT_PLACE_HOLDER (scast i)"

section \<open>GBK\<close>

text \<open>The second byte of a two byte character is changed, and the change is noted.\<close>

fun change_5c_to_7f :: "bytes \<Rightarrow> bool \<Rightarrow> bytes \<times> bool" where
  "change_5c_to_7f [] has_5c = ([], has_5c)"
| "change_5c_to_7f [b] has_5c = ([b], has_5c)"
| "change_5c_to_7f (b # c # bs) has_5c =
     (if b AND 0x80 \<noteq> 0
      then if c = 0x5C then let (r, h) = change_5c_to_7f bs True in (b # 0x7F # r, h)
           else let (r, h) = change_5c_to_7f bs has_5c in (b # c # r, h)
      else let (r, h) = change_5c_to_7f (c # bs) has_5c in (b # r, h))"

fun restore_5c :: "bytes \<Rightarrow> bytes" where
  "restore_5c [] = []"
| "restore_5c [b] = [b]"
| "restore_5c (b # c # bs) =
     (if b AND 0x80 \<noteq> 0 then b # (if c = 0x7F then 0x5C else c) # restore_5c bs
      else b # restore_5c (c # bs))"

text \<open>The rule of the scanner for a string token; the flag tells that backslashes were hidden.\<close>

definition string_token :: "bool \<Rightarrow> bytes \<Rightarrow> literal" where
  "string_token hidden text =
     (case make_string text of
        LT_STRING s \<Rightarrow> LT_STRING (if hidden then restore_5c (stripslashes s) else stripslashes s)
      | lit \<Rightarrow> lit)"

end
