(* ===== verification/SqlTextTheorems.thy ===== *)
theory SqlTextTheorems
  imports SqlText
begin

text \<open>
  Correctness of the scanner's literals: numbers, bit and hexadecimal strings, quoted strings with
  their escapes, and the detour over GBK text.
\<close>

unbundle bit_operations_syntax

section \<open>Escapes\<close>

text \<open>What the escapes in a string mean, read from left to right.\<close>

fun unescape :: "bytes \<Rightarrow> bool \<Rightarrow> bytes" where
  "unescape [] has_slash = []"
| "unescape (b # bs) True =
     (case trans_map b of
        Some c \<Rightarrow> c # unescape bs False
      | None \<Rightarrow> if b = 37 \<or> b = 95 then 92 # b # unescape bs False else b # unescape bs False)"
| "unescape (b # bs) False = (if b = 92 then unescape bs True else b # unescape bs False)"

lemma unescape_plain: "b \<noteq> 92 \<Longrightarrow> unescape (b # bs) False = b # unescape bs False" by simp

lemma trans_map_slash: "trans_map 92 = Some 92" by (simp add: trans_map_def)

lemma rest_at: "fast < len \<Longrightarrow> len < length buf \<Longrightarrow>
    take (len - fast) (drop fast buf) = buf ! fast # take (len - (fast + 1)) (drop (fast + 1) buf)"
  by (simp add: Cons_nth_drop_Suc [symmetric] take_Cons' Suc_diff_Suc)

text \<open>Writing behind the reader does not change what is still to be read.\<close>

lemma rest_update: "i < fast \<Longrightarrow> drop fast (xs[i := x]) = drop fast xs"
  by (simp add: drop_update_cancel)

lemma take_write: "slow < length buf \<Longrightarrow> take (Suc slow) (buf[slow := c]) = take slow buf @ [c]"
  by (simp add: take_Suc_conv_app_nth)

lemma stripslashes_loop_unescape:
  "slow + (if has_slash then 1 else 0) \<le> fast \<Longrightarrow> fast \<le> len \<Longrightarrow> len < length buf \<Longrightarrow>
   stripslashes_loop buf len slow fast has_slash = (v, n) \<Longrightarrow>
   take n v = take slow buf @ unescape (take (len - fast) (drop fast buf)) has_slash \<and> n \<le> len \<and> length v = length buf \<and> v ! n = 0"
proof (induction buf len slow fast has_slash rule: stripslashes_loop.induct)
  case (1 buf len slow fast has_slash)
  note less = 1(6-8) and run = 1(9)
  show ?case
  proof (cases "fast < len")
    case False
    with less run show ?thesis by (auto simp: stripslashes_loop.simps [of buf len] split: if_splits)
  next
    case True
    note rest = rest_at [OF True less(3)]
    consider (plain) "\<not> has_slash" "buf ! fast \<noteq> 92" | (slash) "\<not> has_slash" "buf ! fast = 92"
      | (known) c where "has_slash" "trans_map (buf ! fast) = Some c"
      | (wild) "has_slash" "trans_map (buf ! fast) = None" "buf ! fast = 37 \<or> buf ! fast = 95"
      | (other) "has_slash" "trans_map (buf ! fast) = None" "\<not> (buf ! fast = 37 \<or> buf ! fast = 95)"
      by (cases has_slash; cases "trans_map (buf ! fast)") auto
    then show ?thesis
    proof cases
      case plain
      with 1(5) [OF True] True less run show ?thesis
        by (simp add: stripslashes_loop.simps [of buf len] rest rest_update take_write)
    next
      case slash
      with 1(4) [OF True] True less run show ?thesis
        by (simp add: stripslashes_loop.simps [of buf len] rest)
    next
      case known
      with 1(3) [OF True known] True less run known show ?thesis
        by (simp add: stripslashes_loop.simps [of buf len] rest rest_update take_write)
    next
      case wild
      let ?v = "(buf[slow := 92])[slow + 1 := buf ! fast]"
      have "(buf[slow := 92]) ! fast = buf ! fast" using wild(1) less by (simp add: nth_list_update)
      moreover have "take (slow + 2) ?v = take slow buf @ [92, buf ! fast]"
        using wild(1) less by (simp add: take_Suc_conv_app_nth nth_list_update)
      moreover have "drop (fast + 1) ?v = drop (fast + 1) buf" using wild(1) less by (simp add: rest_update)
      ultimately show ?thesis
        using 1(1) [OF True wild(1,2,3) refl] True less run wild
        by (simp add: stripslashes_loop.simps [of buf len] rest Let_def)
    next
      case other
      then have "buf ! fast \<noteq> 92" by (auto simp: trans_map_slash)
      with 1(2) [OF True other] True less run other show ?thesis
        by (simp add: stripslashes_loop.simps [of buf len] rest)
    qed
  qed
qed

lemma stripslashes_unescape: "stripslashes s = unescape s False"
proof -
  obtain v n where run: "stripslashes_loop (s @ [0]) (length s) 0 0 False = (v, n)" by (cases "stripslashes_loop (s @ [0]) (length s) 0 0 False")
  from stripslashes_loop_unescape [OF _ _ _ run] show ?thesis by (simp add: stripslashes_def run)
qed

text \<open>C32: Taking the escapes out of a string in its own buffer gives the string they stand for: the
  writer never passes the reader, so that no byte is overwritten before it is read, and the loop
  ends.\<close>

theorem stripslashes_decodes:
  "\<exists>value slow. stripslashes_loop (s @ [0]) (length s) 0 0 False = (value, slow) \<and> slow \<le> length s \<and>
    length value = length s + 1 \<and> value ! slow = 0 \<and> take slow value = unescape s False"
  using stripslashes_loop_unescape [of 0 False 0 "length s" "s @ [0]"]
  by (cases "stripslashes_loop (s @ [0]) (length s) 0 0 False") simp

text \<open>A text whose backslashes and quotes are escaped.\<close>

definition escape :: "u8 \<Rightarrow> bytes \<Rightarrow> bytes" where
  "escape q s = concat (map (\<lambda>b. if b = 92 \<or> b = q then [92, b] else [b]) s)"

lemma unescape_escape: "trans_map q = Some q \<Longrightarrow> unescape (escape q s) False = s"
  by (induction s) (simp_all add: escape_def trans_map_slash)

lemma c_str_same: "0 \<notin> set s \<Longrightarrow> c_str s = s"
  unfolding c_str_def by (rule takeWhile_eq_all_conv [THEN iffD2]) auto

lemma escape_no_zero: "0 \<notin> set s \<Longrightarrow> q \<noteq> 0 \<Longrightarrow> 0 \<notin> set (escape q s)"
  by (auto simp: escape_def split: if_splits)

text \<open>C33: The literal of a quoted string is the string: whatever bytes other than zero it has,
  between single or double quotes and with its backslashes and quotes escaped, the scanner cuts the
  quotes off, the ones in the text not among them, and takes the escapes out.\<close>

theorem quoted_string_literal:
  assumes "q = 34 \<or> q = 39" "0 \<notin> set s"
  shows "string_token False (q # escape q s @ [q]) = LT_STRING s"
proof -
  have q: "q \<noteq> 0" "trans_map q = Some q" using assms(1) by (auto simp: trans_map_def)
  have "c_str (q # escape q s @ [q]) = q # escape q s @ [q]"
    using escape_no_zero [OF assms(2) q(1)] q(1) by (intro c_str_same) auto
  then have "make_string (q # escape q s @ [q]) = LT_STRING (escape q s)"
    using assms(1) by (auto simp: make_string_def Let_def)
  then show ?thesis
    using unescape_escape [OF q(2), of s]
    by (simp add: string_token_def stripslashes_unescape)
qed

theorem quoted_string_literal_witness:
  "string_token False (39 # escape 39 [105, 116, 39, 115] @ [39]) = LT_STRING [105, 116, 39, 115]"
  by (rule quoted_string_literal) simp_all

section \<open>Numbers\<close>

lemma strtoull_digits:
  assumes "ds \<noteq> []" "list_all is_digit ds"
  shows "std_strtoull ds = (if 2 ^ 64 \<le> digits_value ds then - 1 else of_nat (digits_value ds))"
proof -
  from assms have "is_digit (hd ds)" by (cases ds) simp_all
  from digit_not_space [OF this] assms show ?thesis
    by (cases ds) (simp_all add: std_strtoull_def list_all_iff takeWhile_eq_all_conv [THEN iffD2])
qed

lemma mod_int_shift:
  "n < 18446744073709551616 \<Longrightarrow> (int n + 9223372036854775808) mod 18446744073709551616 - 9223372036854775808 =
     (if n < 9223372036854775808 then int n else int n - 18446744073709551616)"
  by (simp add: mod_pos_geq)

text \<open>C34: A token of digits is a 64 bit value, read back as a signed number where it is used: the
  number itself below two to the 63rd, a negative number from there up to two to the 64th, and
  minus one for every larger number, without an error.\<close>

theorem integer_literal:
  assumes "ds \<noteq> []" "list_all is_digit ds"
  defines "n \<equiv> digits_value ds"
  shows "\<exists>v. make_int ds = LT_INT v \<and>
    sint v = (if n < 2 ^ 63 then int n else if n < 2 ^ 64 then int n - 2 ^ 64 else - 1)"
proof (cases "n < 2 ^ 64")
  case True
  then have v: "std_strtoull ds = of_nat n" using strtoull_digits [OF assms(1,2)] by (simp add: n_def)
  have u: "uint (of_nat n :: u64) = int n" using True by (simp add: unsigned_of_nat take_bit_nat_eq_self)
  have "sint (of_nat n :: u64) = (if n < 2 ^ 63 then int n else int n - 2 ^ 64)"
    using True u by (simp add: sint_uint signed_take_bit_eq_take_bit_shift take_bit_eq_mod mod_int_shift)
  with v True show ?thesis by (simp add: make_int_def)
next
  case False
  then have "std_strtoull ds = - 1" using strtoull_digits [OF assms(1,2)] by (simp add: n_def)
  with False show ?thesis by (simp add: make_int_def)
qed


theorem integer_literal_witness:
  "\<exists>v. make_int [49, 56, 52, 52, 54, 55, 52, 52, 48, 55, 51, 55, 48, 57, 53, 53, 49, 54, 49, 53] = LT_INT v \<and> sint v = - 1"
  using integer_literal [of "[49, 56, 52, 52, 54, 55, 52, 52, 48, 55, 51, 55, 48, 57, 53, 53, 49, 54, 49, 53]"]
  by (simp add: is_digit_def digits_value_def)

section \<open>Bits and hexadecimal digits\<close>

text \<open>Bytes written as digits, the most significant ones first.\<close>

definition bit_digits :: "u8 \<Rightarrow> bytes" where
  "bit_digits b = map (\<lambda>i. if bit b i then 49 else 48) (rev [0..<8])"

definition hex_char :: "u8 \<Rightarrow> u8" where "hex_char d = (if d < 10 then 48 + d else 87 + d)"
definition hex_digits :: "u8 \<Rightarrow> bytes" where "hex_digits b = [hex_char (b div 16), hex_char (b mod 16)]"

lemma char_chunks_append:
  "length xs = k \<Longrightarrow> 0 < k \<Longrightarrow> char_chunks f k (xs @ ys) = f xs # char_chunks f k ys"
  by (cases xs) auto

lemma char_chunks_concat:
  "(\<And>b. length (digits b) = k \<and> f (digits b) = b) \<Longrightarrow> 0 < k \<Longrightarrow> char_chunks f k (concat (map digits bs)) = bs"
  by (induction bs) (simp_all add: char_chunks_append)

lemma length_digits: "(\<And>b. length (digits b) = k) \<Longrightarrow> length (concat (map digits bs)) = k * length bs"
  by (induction bs) simp_all

lemma fold_bits:
  "foldl (\<lambda>out b. out * 2 + b - 48) (acc::u8) (map (\<lambda>x. if x then 49 else 48) xs) =
     foldl (\<lambda>out x. out * 2 + of_bool x) acc xs"
  by (induction xs arbitrary: acc) (simp_all add: add.commute)

lemma bits_horner: "foldl (\<lambda>out x. out * 2 + of_bool x) (0::u8) xs = horner_sum of_bool 2 (rev xs)"
  by (induction xs rule: rev_induct) (simp_all add: mult.commute add.commute)

lemma bit_to_char_digits: "bit_to_char (bit_digits b) = b"
proof -
  have "bit_digits b = map (\<lambda>x. if x then 49 else 48) (rev (map (bit b) [0..<8]))"
    by (simp add: bit_digits_def rev_map)
  then have "bit_to_char (bit_digits b) = horner_sum of_bool 2 (map (bit b) [0..<8])"
    by (simp only: bit_to_char_def fold_bits bits_horner rev_rev_ident)
  then show ?thesis by (simp add: horner_sum_bit_eq_take_bit take_bit_word_eq_self)
qed

lemma hex_char_value:
  "d < 16 \<Longrightarrow> foldl (\<lambda>out b. if 65 \<le> b \<and> b \<le> 70 then out * 16 + b - 65 + 10
      else if 97 \<le> b \<and> b \<le> 102 then out * 16 + b - 97 + 10 else out * 16 + b - 48) acc [hex_char d] = acc * 16 + d"
proof -
  assume "d < 16"
  then obtain n where "n < 16" "d = of_nat n"
    by (intro that [of "unat d"]) (simp_all add: word_less_nat_alt)
  then have "d = 0 \<or> d = 1 \<or> d = 2 \<or> d = 3 \<or> d = 4 \<or> d = 5 \<or> d = 6 \<or> d = 7 \<or> d = 8 \<or> d = 9 \<or> d = 10 \<or> d = 11 \<or>
      d = 12 \<or> d = 13 \<or> d = 14 \<or> d = 15"
    by (simp add: numeral_eq_Suc less_Suc_eq) auto
  then show ?thesis by (elim disjE) (simp_all add: hex_char_def)
qed

lemma hex_to_char_digits: "hex_to_char (hex_digits b) = b"
proof -
  have "b div 16 < 16" "b mod 16 < 16"
    by (simp_all add: word_less_nat_alt unat_div unat_mod div_less_iff_less_mult unsigned_less [of b, simplified])
  from hex_char_value [OF this(1), of 0] hex_char_value [OF this(2), of "b div 16"]
  show ?thesis by (simp add: hex_to_char_def hex_digits_def div_mult_mod_eq)
qed

text \<open>The literal of a hexadecimal or of a bit string is the bytes whose digits it has, in order
  and with zero bytes kept.\<close>

lemma digit_string_literal:
  "make_hex (concat (map hex_digits bs)) = LT_HEX bs \<and> make_bit (concat (map bit_digits bs)) = LT_HEX bs"
proof -
  have l: "length (hex_digits b) = 2" "length (bit_digits b) = 8" for b
    by (simp_all add: hex_digits_def bit_digits_def)
  have "char_chunks hex_to_char 2 (concat (map hex_digits bs)) = bs"
    by (rule char_chunks_concat) (simp_all add: l hex_to_char_digits)
  moreover have "char_chunks bit_to_char 8 (concat (map bit_digits bs)) = bs"
    by (rule char_chunks_concat) (simp_all add: l bit_to_char_digits)
  ultimately show ?thesis
    by (simp add: make_hex_def make_bit_def length_digits [OF l(1)] length_digits [OF l(2)])
qed

section \<open>GBK\<close>

text \<open>Text whose two byte characters never have 7F as their second byte, as in GBK.\<close>

fun gbk_text :: "bytes \<Rightarrow> bool" where
  "gbk_text [] \<longleftrightarrow> True"
| "gbk_text [b] \<longleftrightarrow> True"
| "gbk_text (b # c # bs) \<longleftrightarrow> (if b AND 0x80 \<noteq> 0 then c \<noteq> 0x7F \<and> gbk_text bs else gbk_text (c # bs))"

text \<open>The bytes that stand alone.\<close>

fun single_bytes :: "bytes \<Rightarrow> bytes" where
  "single_bytes [] = []"
| "single_bytes [b] = (if b AND 0x80 \<noteq> 0 then [] else [b])"
| "single_bytes (b # c # bs) = (if b AND 0x80 \<noteq> 0 then single_bytes bs else b # single_bytes (c # bs))"

lemma change_restore:
  "gbk_text s \<Longrightarrow> change_5c_to_7f s h = (r, h1) \<Longrightarrow>
     restore_5c r = s \<and> length r = length s \<and> (h1 \<longleftrightarrow> h \<or> r \<noteq> s) \<and>
     filter (\<lambda>b. b = 0x5C) r = filter (\<lambda>b. b = 0x5C) (single_bytes s)"
proof (induction s h arbitrary: r h1 rule: change_5c_to_7f.induct)
  case (3 b c bs h)
  consider (hidden) "b AND 0x80 \<noteq> 0" "c = 0x5C" | (double) "b AND 0x80 \<noteq> 0" "c \<noteq> 0x5C" | (single) "b AND 0x80 = 0" by blast
  then show ?case
  proof cases
    case hidden
    obtain r1 where "change_5c_to_7f bs True = (r1, h1)" "r = b # 0x7F # r1" using 3(5) hidden by (auto split: prod.splits)
    with 3(1) [OF hidden] 3(4) hidden show ?thesis by auto
  next
    case double
    obtain r1 where "change_5c_to_7f bs h = (r1, h1)" "r = b # c # r1" using 3(5) double by (auto split: prod.splits)
    with 3(2) [OF double] 3(4) double show ?thesis by auto
  next
    case single
    obtain r1 where r1: "change_5c_to_7f (c # bs) h = (r1, h1)" "r = b # r1" using 3(5) single by (auto split: prod.splits)
    with 3(3) [of r1 h1] 3(4) single show ?thesis by (cases r1) auto
  qed
qed auto

text \<open>C35: Hiding the backslashes in the second bytes of two byte characters keeps the length of the
  text, leaves just the backslashes that are characters of their own for the scanner to see, and is
  undone when the flag says that something was hidden.\<close>

theorem gbk_backslashes:
  assumes "gbk_text s"
  shows "\<exists>r h. change_5c_to_7f s False = (r, h) \<and> length r = length s \<and> (if h then restore_5c r else r) = s \<and>
    filter (\<lambda>b. b = 0x5C) r = filter (\<lambda>b. b = 0x5C) (single_bytes s)"
proof -
  obtain r h where r: "change_5c_to_7f s False = (r, h)" by (cases "change_5c_to_7f s False")
  from change_restore [OF assms r] r show ?thesis by auto
qed

theorem gbk_backslashes_witness:
  "\<exists>r h. change_5c_to_7f [0x95, 0x5C, 0x41, 0x5C] False = (r, h) \<and> length r = 4 \<and>
    (if h then restore_5c r else r) = [0x95, 0x5C, 0x41, 0x5C] \<and> filter (\<lambda>b. b = 0x5C) r = [0x5C]"
  using gbk_backslashes [of "[0x95, 0x5C, 0x41, 0x5C]"] by simp

end
