(* ===== verification/Syntax.thy ===== *)
theory Syntax
  imports CreateStatements SqlText
begin

text \<open>
  The syntax trees of expressions and of the statements that read and change rows (\<open>parser/base.h\<close>,
  \<open>parser/expr.h\<close>, \<open>parser/expr.cc\<close>, \<open>parser/dml.h\<close>), and their virtual functions: printing as SQL
  text, the test for joins and subqueries, and the flag that hides the literals in printed text.

  The class hierarchy is one type with a constructor for each class and one, \<open>Nullptr\<close>, for the null
  pointer. A virtual function is a recursive function whose cases are the overriding functions,
  each of them a definition over the results of the children. The flag \<open>print_sample\<close> is kept in the
  classes that read it; whether a node is complex is computed again where the code caches it.
  A statement that has no tree of its own here is its type. Doubles are printed by an argument.
\<close>

section \<open>Enumerations\<close>

datatype PriorityEnum = PE_NO_PRIORITY | PE_LOW_PRIORITY | PE_DELAYED_PRIORITY | PE_HIGH_PRIORITY
datatype IndexHintType = IHT_HINT_NONE | IHT_HINT_USE | IHT_HINT_IGNORE | IHT_HINT_FORCE
datatype IndexHintScope = IHS_HINT_NONE | IHS_HINT_SCAN | IHS_HINT_JOIN | IHS_HINT_ORDER_BY | IHS_HINT_GROUP_BY
datatype JoinType = JT_NONE | JT_INNER_JOIN | JT_LEFT_JOIN | JT_RIGHT_JOIN
datatype SelectLock = SL_NONE | SL_FOR_UPDATE | SL_IN_SHARE
datatype CompareType = CMP_ANY | CMP_SOME | CMP_ALL
datatype OnDuplicateKeyHandle = ON_DUPLICATE_KEY_ERROR | ON_DUPLICATE_KEY_IGNORE | ON_DUPLICATE_KEY_REPLACE

datatype ExprType =
  ET_COLUMN | ET_LITETAL | ET_FUNC | ET_ROW_EXPR | ET_SUB_QUERY_EXPR | ET_CMP_SUB_QUERY_EXPR | ET_EXISTS_SUB_QUERY_EXPR

datatype FuncType =
  FT_COMMON | FT_AGG | FT_BIT_NOT | FT_LOGIC_NOT | FT_UMINUS | FT_ADD | FT_MINUS | FT_MULTIPLIES | FT_DIVIDES
| FT_MOD | FT_LS | FT_RS | FT_BIT_AND | FT_BIT_OR | FT_BIT_XOR | FT_EQ | FT_NE | FT_GT | FT_GE | FT_LT | FT_LE
| FT_LOGIC_AND | FT_LOGIC_OR | FT_LOGIC_XOR | FT_IS_NULL | FT_IS_TRUE | FT_IS_UNKNOWN | FT_IN | FT_LIKE
| FT_EXACT_LIKE | FT_REGEXP | FT_MATCH_AGAINST | FT_BETWEEN | FT_VALUES

datatype NodeType =
  NT_BASE | NT_STMT | NT_DML | NT_DDL | NT_TABLE | NT_COLUMN | NT_JOIN | NT_TABLE_SOURCE | NT_INDEX_HINT
| NT_BY_ITEM | NT_GROUP_BY | NT_ORDER_BY | NT_LIMIT | NT_WILDCARD | NT_SELECT_FEILD | NT_RESULT_SET
| NT_ASSIGNMENT | NT_INSERT | NT_UPDATE | NT_DELETE | NT_SELECT | NT_UNION | NT_TRUNCATE | NT_SHOW | NT_EXPLAIN
| NT_EXPR | NT_COLUMN_OPT | NT_COLUMN_DEF | NT_CONSTRAINT | NT_INDEX_OPT | NT_TABLE_OPT | NT_CREATE_TABLE
| NT_FLOAT_OPT | NT_TYPE_OPT | NT_FIELD_TYPE | NT_DROP_TABLE | NT_RESTORE_TABLE | NT_DATABASE_OPT
| NT_CREATE_DATABASE | NT_DROP_DATABASE | NT_ALTER_TABLE | NT_ALTER_SEPC | NT_FIELDS | NT_FIELDS_ITEM | NT_LINES
| NT_LOAD_DATA | NT_START_TRANSACTION | NT_COMMIT_TRANSACTION | NT_ROLLBACK_TRANSACTION | NT_SET_CMD
| NT_VAR_ASSIGN | NT_NEW_PREPARE | NT_EXEC_PREPARE | NT_DEALLOC_PREPARE | NT_KILL

section \<open>Nodes\<close>

text \<open>The fields that hold no nodes.\<close>

record FuncHead =
  fe_print_sample :: bool
  fe_fn_name :: bytes
  fe_func_type :: FuncType
  fe_is_not :: bool
  fe_distinct :: bool
  fe_is_star :: bool

record IndexHint =
  ih_type :: IndexHintType
  ih_scope :: IndexHintScope
  index_name_list :: "bytes list"

record JoinHead =
  join_type :: JoinType
  is_natural :: bool
  is_straight :: bool

record WildCardField =
  wc_table_name :: bytes
  wc_db_name :: bytes

record SelectStmtOpts =
  so_distinct :: bool
  so_sql_cache :: bool
  so_calc_found_rows :: bool
  so_straight_join :: bool
  so_priority :: PriorityEnum

record SelectHead =
  select_opt :: "SelectStmtOpts option"
  se_is_in_braces :: bool
  se_lock :: SelectLock

record UnionHead =
  un_distinct :: bool
  un_lock :: SelectLock
  un_is_in_braces :: bool

record DeleteHead =
  de_priority :: PriorityEnum
  de_is_ignore :: bool
  de_is_quick :: bool

record InsertHead =
  in_print_sample :: bool
  in_priority :: PriorityEnum
  in_is_replace :: bool
  in_is_ignore :: bool
  in_table_name :: "TableName option"
  in_columns :: "ColumnName list"

record FieldsClause =
  fc_terminated :: bytes
  fc_enclosed :: bytes
  fc_escaped :: bytes
  fc_opt_enclosed :: bool

record LinesClause =
  lc_starting :: bytes
  lc_terminated :: bytes

record LoadHead =
  ld_ignore_lines :: u32
  ld_is_local :: bool
  ld_path :: bytes
  ld_char_set :: bytes
  ld_fields_info :: "FieldsClause option"
  ld_lines_info :: "LinesClause option"
  ld_table_name :: "TableName option"
  ld_on_duplicate_handle :: OnDuplicateKeyHandle
  ld_columns :: "ColumnName list"

datatype node =
  Nullptr
| ColumnNode ColumnName
| LiteralNode bool literal
| FuncNode FuncHead "node list"
| RowNode "node list"
| SubqueryNode node
| CompareSubqueryNode CompareType FuncType node node
| ExistsSubqueryNode bool node
| TableNameNode TableName
| IndexHintNode IndexHint
| TableSourceNode "TableName option" bytes node "IndexHint list"
| JoinNode JoinHead node node node "ColumnName list"
| ByItemNode bool node
| GroupByNode "node list"
| OrderByNode "node list"
| LimitNode node node
| WildCardNode WildCardField
| SelectFieldNode node bytes bytes "WildCardField option"
| AssignmentNode "ColumnName option" node
| TruncateNode "TableName option"
| DeleteNode DeleteHead node "TableName list" node node node
| UpdateNode bool node "node list" node node node
| SelectNode SelectHead "node list" node node node node node node
| UnionNode UnionHead "node list" node node
| InsertNode InsertHead node "node list" "node list"
| LoadDataNode LoadHead "node list"
| CreateTableNode CreateTableStmt
| CreateDatabaseNode CreateDatabaseStmt
| OtherStmtNode NodeType

text \<open>The type of a node; the null pointer has none.\<close>

fun node_type :: "node \<Rightarrow> NodeType res" where
  "node_type Nullptr = Inl Undefined_Behaviour"
| "node_type (TableNameNode _) = Inr NT_TABLE"
| "node_type (IndexHintNode _) = Inr NT_INDEX_HINT"
| "node_type (TableSourceNode _ _ _ _) = Inr NT_TABLE_SOURCE"
| "node_type (JoinNode _ _ _ _ _) = Inr NT_JOIN"
| "node_type (ByItemNode _ _) = Inr NT_BY_ITEM"
| "node_type (GroupByNode _) = Inr NT_GROUP_BY"
| "node_type (OrderByNode _) = Inr NT_ORDER_BY"
| "node_type (LimitNode _ _) = Inr NT_LIMIT"
| "node_type (WildCardNode _) = Inr NT_WILDCARD"
| "node_type (SelectFieldNode _ _ _ _) = Inr NT_SELECT_FEILD"
| "node_type (AssignmentNode _ _) = Inr NT_ASSIGNMENT"
| "node_type (TruncateNode _) = Inr NT_TRUNCATE"
| "node_type (DeleteNode _ _ _ _ _ _) = Inr NT_DELETE"
| "node_type (UpdateNode _ _ _ _ _ _) = Inr NT_UPDATE"
| "node_type (SelectNode _ _ _ _ _ _ _ _) = Inr NT_SELECT"
| "node_type (UnionNode _ _ _ _) = Inr NT_UNION"
| "node_type (InsertNode _ _ _ _) = Inr NT_INSERT"
| "node_type (LoadDataNode _ _) = Inr NT_LOAD_DATA"
| "node_type (CreateTableNode _) = Inr NT_CREATE_TABLE"
| "node_type (CreateDatabaseNode _) = Inr NT_CREATE_DATABASE"
| "node_type (OtherStmtNode t) = Inr t"
| "node_type _ = Inr NT_EXPR"

text \<open>The type of an expression; reading it of another node is not defined.\<close>

fun expr_type :: "node \<Rightarrow> ExprType res" where
  "expr_type (ColumnNode _) = Inr ET_COLUMN"
| "expr_type (LiteralNode _ _) = Inr ET_LITETAL"
| "expr_type (FuncNode _ _) = Inr ET_FUNC"
| "expr_type (RowNode _) = Inr ET_ROW_EXPR"
| "expr_type (SubqueryNode _) = Inr ET_SUB_QUERY_EXPR"
| "expr_type (CompareSubqueryNode _ _ _ _) = Inr ET_CMP_SUB_QUERY_EXPR"
| "expr_type (ExistsSubqueryNode _ _) = Inr ET_EXISTS_SUB_QUERY_EXPR"
| "expr_type _ = Inl Undefined_Behaviour"

definition is_subquery :: "ExprType \<Rightarrow> bool" where
  "is_subquery t \<longleftrightarrow> t = ET_SUB_QUERY_EXPR \<or> t = ET_CMP_SUB_QUERY_EXPR \<or> t = ET_EXISTS_SUB_QUERY_EXPR"

fun has_subquery :: "node list \<Rightarrow> bool res" where
  "has_subquery [] = Inr False"
| "has_subquery (c # cs) = bindR (expr_type c) (\<lambda>t. if is_subquery t then Inr True else has_subquery cs)"

section \<open>Functions\<close>

fun func_str :: "FuncType \<Rightarrow> string" where
  "func_str FT_BIT_NOT = ''~''"
| "func_str FT_LOGIC_NOT = ''!''"
| "func_str FT_UMINUS = ''-''"
| "func_str FT_ADD = '' + ''"
| "func_str FT_MINUS = '' - ''"
| "func_str FT_MULTIPLIES = '' * ''"
| "func_str FT_DIVIDES = '' / ''"
| "func_str FT_MOD = '' % ''"
| "func_str FT_LS = '' << ''"
| "func_str FT_RS = '' >> ''"
| "func_str FT_BIT_AND = '' & ''"
| "func_str FT_BIT_OR = '' | ''"
| "func_str FT_BIT_XOR = '' ^ ''"
| "func_str FT_EQ = '' = ''"
| "func_str FT_NE = '' != ''"
| "func_str FT_GT = '' > ''"
| "func_str FT_GE = '' >= ''"
| "func_str FT_LT = '' < ''"
| "func_str FT_LE = '' <= ''"
| "func_str FT_LOGIC_AND = '' && ''"
| "func_str FT_LOGIC_OR = '' || ''"
| "func_str FT_LOGIC_XOR = '' XOR ''"
| "func_str FT_IS_NULL = ''IS NULL''"
| "func_str FT_IS_TRUE = ''IS TRUE''"
| "func_str FT_IS_UNKNOWN = ''IS UNKNOWN''"
| "func_str FT_IN = ''IN''"
| "func_str FT_LIKE = ''LIKE''"
| "func_str FT_EXACT_LIKE = ''EXACT_LIKE''"
| "func_str FT_REGEXP = ''REGEXP''"
| "func_str FT_BETWEEN = ''BETWEEN''"
| "func_str FT_VALUES = ''VALUES''"
| "func_str _ = ''''"

fun type_to_name :: "FuncType \<Rightarrow> string" where
  "type_to_name FT_COMMON = ''''"
| "type_to_name FT_AGG = ''''"
| "type_to_name FT_BIT_NOT = ''bit_not''"
| "type_to_name FT_LOGIC_NOT = ''logic_not''"
| "type_to_name FT_UMINUS = ''minus''"
| "type_to_name FT_ADD = ''add''"
| "type_to_name FT_MINUS = ''minus''"
| "type_to_name FT_MULTIPLIES = ''multiplies''"
| "type_to_name FT_DIVIDES = ''divides''"
| "type_to_name FT_MOD = ''mod''"
| "type_to_name FT_LS = ''left_shift''"
| "type_to_name FT_RS = ''right_shift''"
| "type_to_name FT_BIT_AND = ''bit_and''"
| "type_to_name FT_BIT_OR = ''bit_or''"
| "type_to_name FT_BIT_XOR = ''bit_xor''"
| "type_to_name FT_EQ = ''eq''"
| "type_to_name FT_NE = ''ne''"
| "type_to_name FT_GT = ''gt''"
| "type_to_name FT_GE = ''ge''"
| "type_to_name FT_LT = ''lt''"
| "type_to_name FT_LE = ''le''"
| "type_to_name FT_LOGIC_AND = ''logic_and''"
| "type_to_name FT_LOGIC_OR = ''logic_or''"
| "type_to_name FT_LOGIC_XOR = ''logic_xor''"
| "type_to_name FT_IS_NULL = ''is_null''"
| "type_to_name FT_IS_TRUE = ''is_true''"
| "type_to_name FT_IS_UNKNOWN = ''is_unknown''"
| "type_to_name FT_IN = ''in''"
| "type_to_name FT_LIKE = ''like''"
| "type_to_name FT_EXACT_LIKE = ''exact_like''"
| "type_to_name FT_REGEXP = ''regexp''"
| "type_to_name FT_MATCH_AGAINST = ''match_against''"
| "type_to_name FT_BETWEEN = ''between''"
| "type_to_name FT_VALUES = ''unkown''"

definition ascii :: "string \<Rightarrow> bytes" where "ascii s = map of_char s"

definition new_op_node :: "FuncType \<Rightarrow> node list \<Rightarrow> node" where
  "new_op_node t args =
     FuncNode \<lparr>fe_print_sample = False, fe_fn_name = ascii (type_to_name t), fe_func_type = t, fe_is_not = False,
       fe_distinct = False, fe_is_star = False\<rparr> args"

definition new_unary_op_node :: "FuncType \<Rightarrow> node \<Rightarrow> node" where
  "new_unary_op_node t arg1 = new_op_node t [arg1]"
definition new_binary_op_node :: "FuncType \<Rightarrow> node \<Rightarrow> node \<Rightarrow> node" where
  "new_binary_op_node t arg1 arg2 = new_op_node t [arg1, arg2]"
definition new_ternary_op_node :: "FuncType \<Rightarrow> node \<Rightarrow> node \<Rightarrow> node \<Rightarrow> node" where
  "new_ternary_op_node t arg1 arg2 arg3 = new_op_node t [arg1, arg2, arg3]"

end
