(* ===== verification/Printing.thy ===== *)
theory Printing
  imports Syntax
begin

text \<open>
  The virtual functions of the syntax trees: \<open>to_stream\<close>, \<open>set_print_sample\<close> and \<open>is_complex_node\<close>
  (\<open>parser/base.h\<close>, \<open>parser/expr.cc\<close>, \<open>parser/dml.h\<close>).

  \<open>to_stream\<close> of a pointer is the output operator, which prints nothing for a null pointer; where the
  code calls the virtual function itself a null pointer is undefined. What is printed is put
  together from parts, each of which may be undefined.
\<close>

section \<open>Output\<close>

definition emit :: "bytes res list \<Rightarrow> bytes res" where
  "emit parts = bindR (mapR (\<lambda>p. p) parts) (\<lambda>ps. Inr (concat ps))"

definition put :: "string \<Rightarrow> bytes res" where "put s = Inr (ascii s)"
definition str :: "bytes \<Rightarrow> bytes res" where "str s = Inr (c_str s)"

fun sep_by :: "string \<Rightarrow> bytes res list \<Rightarrow> bytes res list" where
  "sep_by sep [] = []"
| "sep_by sep [r] = [r]"
| "sep_by sep (r # rs) = r # put sep # sep_by sep rs"

text \<open>A child together with what is printed for it.\<close>

type_synonym printed = "node \<times> bytes res"

definition call :: "printed \<Rightarrow> bytes res" where
  "call c = (if fst c = Nullptr then Inl Undefined_Behaviour else snd c)"

definition clause :: "string \<Rightarrow> printed \<Rightarrow> bytes res list" where
  "clause keyword c = (if fst c = Nullptr then [] else [put keyword, snd c])"

definition priority_str :: "PriorityEnum \<Rightarrow> string" where
  "priority_str p =
     (case p of PE_NO_PRIORITY \<Rightarrow> '''' | PE_LOW_PRIORITY \<Rightarrow> '' LOW_PRIORITY'' | PE_DELAYED_PRIORITY \<Rightarrow> '' DELAYED''
      | PE_HIGH_PRIORITY \<Rightarrow> '' HIGH_PRIORITY'')"

definition for_lock_str :: "SelectLock \<Rightarrow> string" where
  "for_lock_str l = (case l of SL_NONE \<Rightarrow> '''' | SL_FOR_UPDATE \<Rightarrow> '' FOR UPDATE'' | SL_IN_SHARE \<Rightarrow> '' IN SHARED MODE'')"

section \<open>Expressions\<close>

definition ColumnName_to_stream :: "ColumnName \<Rightarrow> bytes res" where
  "ColumnName_to_stream c =
     emit ((case cn_db c of None \<Rightarrow> [] | Some db \<Rightarrow> [str db, put ''.'']) @
           (case cn_table c of None \<Rightarrow> [] | Some t \<Rightarrow> [str t, put ''.'']) @ [str (cn_name c)])"

definition LiteralExpr_to_stream :: "(u64 \<Rightarrow> bytes) \<Rightarrow> bool \<Rightarrow> literal \<Rightarrow> bytes res" where
  "LiteralExpr_to_stream print_double print_sample lit =
     (if print_sample then put ''?''
      else case lit of
        LT_INT v \<Rightarrow> Inr (dec_of_int (sint v))
      | LT_DOUBLE v \<Rightarrow> Inr (print_double v)
      | LT_STRING s \<Rightarrow> emit [Inr [39], str s, Inr [39]]
      | LT_HEX s \<Rightarrow> emit [Inr [39], str s, Inr [39]]
      | LT_BOOL b \<Rightarrow> put (if b then ''TRUE'' else ''FALSE'')
      | LT_NULL \<Rightarrow> put ''NULL''
      | LT_PLACE_HOLDER _ \<Rightarrow> put ''?'')"

definition LiteralExpr_to_string :: "(u64 \<Rightarrow> bytes) \<Rightarrow> bool \<Rightarrow> literal \<Rightarrow> bytes res" where
  "LiteralExpr_to_string print_double print_sample lit =
     (if print_sample then put ''?''
      else case lit of
        LT_INT v \<Rightarrow> Inr (dec_of_int (sint v))
      | LT_DOUBLE v \<Rightarrow> Inr (print_double v)
      | LT_STRING s \<Rightarrow> str s
      | LT_HEX s \<Rightarrow> str s
      | LT_BOOL b \<Rightarrow> put (if b then ''TRUE'' else ''FALSE'')
      | LT_NULL \<Rightarrow> put ''NULL''
      | LT_PLACE_HOLDER _ \<Rightarrow> put ''?'')"

text \<open>The arguments of a call: of those of the sketch functions a sample shows two.\<close>

definition shown_arguments :: "FuncHead \<Rightarrow> nat \<Rightarrow> nat" where
  "shown_arguments h n =
     (if fe_print_sample h \<and> 2 < n \<and>
         (starts_with (ascii ''hll_'') (fe_fn_name h) \<or> starts_with (ascii ''rb_'') (fe_fn_name h) \<or>
          starts_with (ascii ''tdigest_'') (fe_fn_name h))
      then 2 else n)"

definition FuncExpr_call :: "FuncHead \<Rightarrow> bytes res list \<Rightarrow> bytes res" where
  "FuncExpr_call h rs =
     emit ([str (fe_fn_name h), put ''('', put (if fe_distinct h then ''DISTINCT '' else '''')] @
       sep_by '','' (take (shown_arguments h (length rs)) rs) @ [put (if fe_is_star h then ''*'' else ''''), put '')''])"

text \<open>What stands between the parentheses; besides the types named here it is the binary operators.\<close>

definition FuncExpr_body :: "FuncHead \<Rightarrow> node list \<Rightarrow> bytes res list \<Rightarrow> (nat \<Rightarrow> bytes res) \<Rightarrow> bytes res" where
  "FuncExpr_body h cs rs child =
     (let not_str = put (if fe_is_not h then '' NOT'' else '''') in
      case fe_func_type h of
        FT_COMMON \<Rightarrow> FuncExpr_call h rs
      | FT_AGG \<Rightarrow> FuncExpr_call h rs
      | FT_IS_NULL \<Rightarrow> emit [child 0, put '' IS'', not_str, put '' NULL'']
      | FT_IS_TRUE \<Rightarrow> emit [child 0, put '' IS '', put (if fe_is_not h then ''FALSE'' else ''TRUE'')]
      | FT_IS_UNKNOWN \<Rightarrow> emit [child 0, put '' IS'', not_str, put '' UNKNOWN'']
      | FT_IN \<Rightarrow>
          bindR (if fe_print_sample h then has_subquery cs else Inr True) (\<lambda>full.
            if full then emit [child 0, not_str, put '' IN '', child 1]
            else emit [child 0, not_str, put '' IN (?)''])
      | FT_LIKE \<Rightarrow> emit [child 0, not_str, put '' LIKE '', child 1]
      | FT_EXACT_LIKE \<Rightarrow> emit [child 0, not_str, put '' EXACT_LIKE '', child 1]
      | FT_REGEXP \<Rightarrow> emit [child 0, not_str, put '' REGEXP '', child 1]
      | FT_MATCH_AGAINST \<Rightarrow> emit [put ''MATCH'', child 0, put '' AGAINST ('', child 1, put '' '', child 2, put '')'']
      | FT_BETWEEN \<Rightarrow> emit [child 0, not_str, put '' BETWEEN '', child 1, put '' AND '', child 2]
      | FT_VALUES \<Rightarrow> emit [put ''VALUES('', child 0, put '')'']
      | _ \<Rightarrow> emit [child 0, put (func_str (fe_func_type h)), child 1])"

text \<open>Unary operators have no parentheses.\<close>

definition FuncExpr_to_stream :: "FuncHead \<Rightarrow> printed list \<Rightarrow> bytes res" where
  "FuncExpr_to_stream h cs =
     (let t = fe_func_type h; rs = map snd cs;
          child = (\<lambda>i. if i < length rs then rs ! i else Inl Undefined_Behaviour)
      in
      if t = FT_BIT_NOT \<or> t = FT_LOGIC_NOT \<or> t = FT_UMINUS then
        bindR (if cs = [] then Inl Undefined_Behaviour else expr_type (fst (hd cs))) (\<lambda>et.
          if et \<noteq> ET_SUB_QUERY_EXPR then emit [put (func_str t), child 0] else emit [put ''NOT '', child 0])
      else emit [put ''('', FuncExpr_body h (map fst cs) rs child, put '')''])"

definition RowExpr_to_stream :: "printed list \<Rightarrow> bytes res" where
  "RowExpr_to_stream cs = emit ([put ''(''] @ sep_by '', '' (map snd cs) @ [put '')''])"

definition SubqueryExpr_to_stream :: "printed \<Rightarrow> bytes res" where
  "SubqueryExpr_to_stream q =
     emit ([put ''(''] @
       (if node_type (fst q) = Inr NT_SELECT \<or> node_type (fst q) = Inr NT_UNION then [snd q] else []) @ [put '')''])"

definition CompareSubqueryExpr_to_stream :: "CompareType \<Rightarrow> FuncType \<Rightarrow> printed \<Rightarrow> printed \<Rightarrow> bytes res" where
  "CompareSubqueryExpr_to_stream cmp_type t left right =
     emit [call left,
       put (if t \<in> {FT_EQ, FT_NE, FT_GT, FT_GE, FT_LT, FT_LE} then func_str t else ''''),
       put (case cmp_type of CMP_ANY \<Rightarrow> ''ANY'' | CMP_SOME \<Rightarrow> ''SOME'' | CMP_ALL \<Rightarrow> ''ALL''), put '' '', call right]"

definition get_func_name :: "FuncType \<Rightarrow> string" where "get_func_name t = type_to_name t"

definition ExistsSubqueryExpr_to_stream :: "printed \<Rightarrow> bytes res" where
  "ExistsSubqueryExpr_to_stream q = emit [put ''EXISTS '', call q]"

section \<open>Clauses\<close>

definition IndexHint_to_stream :: "IndexHint \<Rightarrow> bytes res" where
  "IndexHint_to_stream h =
     emit ([put (case ih_type h of IHT_HINT_NONE \<Rightarrow> '''' | IHT_HINT_USE \<Rightarrow> '' USE INDEX'' | IHT_HINT_IGNORE \<Rightarrow> '' IGNORE INDEX''
              | IHT_HINT_FORCE \<Rightarrow> '' FORCE INDEX''),
            put (case ih_scope h of IHS_HINT_NONE \<Rightarrow> '''' | IHS_HINT_SCAN \<Rightarrow> '' FOR SCAN'' | IHS_HINT_JOIN \<Rightarrow> '' FOR JOIN''
              | IHS_HINT_ORDER_BY \<Rightarrow> '' FOR ORDER_BY'' | IHS_HINT_GROUP_BY \<Rightarrow> '' FOR GROUP_BY''), put '' (''] @
           sep_by '','' (map (\<lambda>n. emit [put '' '', str n]) (index_name_list h)) @ [put '' )''])"

definition TableName_to_stream :: "TableName \<Rightarrow> bytes res" where
  "TableName_to_stream t =
     emit ((if \<not> String_empty (tn_db t) then [str (tn_db t), put ''.''] else []) @ [str (tn_table t)])"

definition TableSource_to_stream :: "TableName option \<Rightarrow> bytes \<Rightarrow> printed \<Rightarrow> IndexHint list \<Rightarrow> bytes res" where
  "TableSource_to_stream table_name as_name derived_table index_hints =
     emit (clause '' '' derived_table @
       (case table_name of None \<Rightarrow> [] | Some t \<Rightarrow> [put '' '', TableName_to_stream t]) @
       (if \<not> String_empty as_name then [put '' AS '', str as_name] else []) @ map IndexHint_to_stream index_hints)"

definition JoinNode_to_stream :: "JoinHead \<Rightarrow> printed \<Rightarrow> printed \<Rightarrow> printed \<Rightarrow> ColumnName list \<Rightarrow> bytes res" where
  "JoinNode_to_stream h left right expr using_col =
     emit ([put '' ('', snd left, put '' )'', put (if is_natural h then '' NATURE'' else ''''),
            put (if is_straight h then '' STRAIGHT'' else ''''),
            put (case join_type h of JT_NONE \<Rightarrow> '''' | JT_INNER_JOIN \<Rightarrow> '' inner join'' | JT_LEFT_JOIN \<Rightarrow> '' left join''
              | JT_RIGHT_JOIN \<Rightarrow> '' right join''), put '' ('', snd right, put '' )''] @
           clause '' ON '' expr @
           (if using_col \<noteq> [] then [put '' USING (''] else []) @ sep_by '', '' (map ColumnName_to_stream using_col) @
           (if using_col \<noteq> [] then [put '')''] else []))"

definition ByItem_to_stream :: "bool \<Rightarrow> printed \<Rightarrow> bytes res" where
  "ByItem_to_stream is_desc expr = emit [snd expr, put (if is_desc then '' DESC'' else '' ASC'')]"

definition GroupByClause_to_stream :: "printed list \<Rightarrow> bytes res" where
  "GroupByClause_to_stream items = emit (sep_by '','' (map (\<lambda>i. emit [put '' '', snd i]) items))"

definition OrderByClause_to_stream :: "printed list \<Rightarrow> bytes res" where
  "OrderByClause_to_stream items = emit (sep_by '','' (map (\<lambda>i. emit [put '' '', snd i]) items))"

definition LimitClause_to_stream :: "printed \<Rightarrow> printed \<Rightarrow> bytes res" where
  "LimitClause_to_stream offset count = emit [put '' '', snd offset, put '', '', snd count]"

definition WildCardField_to_stream :: "WildCardField \<Rightarrow> bytes res" where
  "WildCardField_to_stream f =
     emit ((if \<not> String_empty (wc_db_name f) then [str (wc_db_name f), put ''.''] else []) @
           (if \<not> String_empty (wc_table_name f) then [str (wc_table_name f), put ''.''] else []) @ [put ''*''])"

definition SelectField_to_stream :: "printed \<Rightarrow> bytes \<Rightarrow> WildCardField option \<Rightarrow> bytes res" where
  "SelectField_to_stream expr as_name wild_card =
     emit ([put '' '', snd expr] @ (case wild_card of None \<Rightarrow> [] | Some f \<Rightarrow> [WildCardField_to_stream f]) @
           (if \<not> String_empty as_name then [put '' AS '', str as_name] else []))"

definition Assignment_to_stream :: "ColumnName option \<Rightarrow> printed \<Rightarrow> bytes res" where
  "Assignment_to_stream name expr =
     emit ((case name of None \<Rightarrow> [] | Some n \<Rightarrow> [ColumnName_to_stream n]) @ [put '' = '', snd expr])"

section \<open>Statements\<close>

definition TruncateStmt_to_stream :: "TableName option \<Rightarrow> bytes res" where
  "TruncateStmt_to_stream table_name =
     emit (put ''TRUNCATE '' # (case table_name of None \<Rightarrow> [] | Some t \<Rightarrow> [TableName_to_stream t]))"

definition DeleteStmt_to_stream ::
    "DeleteHead \<Rightarrow> printed \<Rightarrow> TableName list \<Rightarrow> printed \<Rightarrow> printed \<Rightarrow> printed \<Rightarrow> bytes res" where
  "DeleteStmt_to_stream h from_table delete_table_list where_expr order limit =
     emit ([put ''DELETE'', put (priority_str (de_priority h)), put (if de_is_quick h then '' QUICK'' else ''''),
            put (if de_is_ignore h then '' IGNORE'' else '''')] @
           sep_by '','' (map (\<lambda>t. emit [put '' '', TableName_to_stream t]) delete_table_list) @
           [put '' FROM '', call from_table] @ clause '' WHERE '' where_expr @ clause '' ORDER BY'' order @
           clause '' LIMIT'' limit)"

definition UpdateStmt_to_stream ::
    "bool \<Rightarrow> printed \<Rightarrow> printed list \<Rightarrow> printed \<Rightarrow> printed \<Rightarrow> printed \<Rightarrow> bytes res" where
  "UpdateStmt_to_stream is_ignore table_refs set_list where_expr order limit =
     emit ([put ''UPDATE'', put (if is_ignore then '' IGNORE'' else ''''), snd table_refs, put '' SET''] @
           sep_by '','' (map (\<lambda>a. emit [put '' '', snd a]) set_list) @ clause '' WHERE '' where_expr @
           clause '' ORDER BY'' order @ clause '' LIMIT'' limit)"

definition SelectStmtOpts_to_stream :: "SelectStmtOpts \<Rightarrow> bytes res" where
  "SelectStmtOpts_to_stream o1 =
     emit [put (if so_distinct o1 then '' DISTINCT'' else ''''), put (if so_straight_join o1 then '' STRAIGHT_JOIN'' else ''''),
           put (if so_sql_cache o1 then '' SQL_CACHE'' else ''''),
           put (if so_calc_found_rows o1 then '' SQL_CALC_FOUND_ROWS'' else ''''), put (priority_str (so_priority o1))]"

definition SelectStmt_to_stream ::
    "SelectHead \<Rightarrow> printed list \<Rightarrow> printed \<Rightarrow> printed \<Rightarrow> printed \<Rightarrow> printed \<Rightarrow> printed \<Rightarrow> printed \<Rightarrow> bytes res" where
  "SelectStmt_to_stream h select_fields table_refs where_expr group_by having order limit =
     emit ([put (if se_is_in_braces h then ''('' else ''''), put ''SELECT'',
            (case select_opt h of None \<Rightarrow> Inl Undefined_Behaviour | Some o1 \<Rightarrow> SelectStmtOpts_to_stream o1)] @
           sep_by '','' (map snd select_fields) @ clause '' FROM'' table_refs @ clause '' WHERE '' where_expr @
           clause '' GROUP BY'' group_by @ clause '' HAVING'' having @ clause '' ORDER BY'' order @
           clause '' LIMIT'' limit @ [put (for_lock_str (se_lock h)), put (if se_is_in_braces h then '')'' else '''')])"

definition UnionStmt_to_stream :: "UnionHead \<Rightarrow> printed list \<Rightarrow> printed \<Rightarrow> printed \<Rightarrow> bytes res" where
  "UnionStmt_to_stream h select_stmts order limit =
     emit ([put (if un_is_in_braces h then ''('' else '''')] @
           sep_by (if un_distinct h then '' UNION '' else '' UNION ALL '') (map call select_stmts) @
           clause '' ORDER BY'' order @ clause '' LIMIT'' limit @
           [put (for_lock_str (un_lock h)), put (if un_is_in_braces h then '')'' else '''')])"

definition InsertStmt_to_stream :: "InsertHead \<Rightarrow> printed \<Rightarrow> printed list \<Rightarrow> printed list \<Rightarrow> bytes res" where
  "InsertStmt_to_stream h subquery_stmt value_lists on_duplicate =
     (let start = [put (if in_is_replace h then '' REPLACE'' else '' INSERT''), put (priority_str (in_priority h)),
            put (if in_is_ignore h then '' IGNORE'' else ''''), put '' INTO ''] @
            (case in_table_name h of None \<Rightarrow> [] | Some t \<Rightarrow> [TableName_to_stream t]) @
            (if in_columns h \<noteq> [] then [put ''(''] else []) @ sep_by '', '' (map ColumnName_to_stream (in_columns h)) @
            (if in_columns h \<noteq> [] then [put '')''] else [])
      in if fst subquery_stmt \<noteq> Nullptr then emit (start @ [put '' '', snd subquery_stmt])
         else emit (start @ [put '' VALUES''] @
           (if in_print_sample h then [put '' (?) '']
            else sep_by '','' (map (\<lambda>l. emit [put '' '', call l]) value_lists)) @
           (if on_duplicate \<noteq> [] then [put '' ON DUPLICATE KEY UPDATE''] else []) @
           sep_by '','' (map (\<lambda>a. emit [put '' '', call a]) on_duplicate)))"

text \<open>The parts of \<open>LOAD DATA\<close> about the format of the file.\<close>

definition FieldsClause_parts :: "FieldsClause \<Rightarrow> bytes res list" where
  "FieldsClause_parts f =
     (if \<not> String_empty (fc_terminated f)
      then if is_print (fc_terminated f) then [put ''TERMINATED BY '', Inr [39], str (fc_terminated f), Inr [39]]
           else [put ''TERMINATED BY NONPRINT'']
      else []) @
     (if \<not> String_empty (fc_enclosed f) \<and> is_print (fc_enclosed f)
      then [put (if fc_opt_enclosed f then '' OPTIONALLY ENCLOSED BY '' else '' ENCLOSED BY ''), Inr [39], str (fc_enclosed f), Inr [39]]
      else if \<not> String_empty (fc_enclosed f) then [put ''ENCLOSED BY NONPRINT''] else []) @
     (if \<not> String_empty (fc_escaped f) \<and> is_print (fc_escaped f)
      then [put '' ESCAPED BY '', Inr [39], str (fc_escaped f), Inr [39]]
      else if \<not> String_empty (fc_escaped f) then [put ''ESCAPED BY NONPRINT''] else [])"

definition LinesClause_parts :: "LinesClause \<Rightarrow> bytes res list" where
  "LinesClause_parts l =
     [put '' LINES ''] @
     (if \<not> String_empty (lc_starting l) \<and> is_print (lc_starting l)
      then [put ''STARTING BY '', Inr [39], str (lc_starting l), Inr [39]]
      else if \<not> String_empty (lc_starting l) then [put ''STARTING BY NONPRINT''] else []) @
     (if \<not> String_empty (lc_terminated l) \<and> is_print (lc_terminated l)
      then [put ''TERMINATED BY '', Inr [39], str (lc_terminated l), Inr [39]]
      else if \<not> String_empty (lc_terminated l) then [put ''TERMINATED BY NONPRINT''] else [])"

definition LoadDataStmt_to_stream :: "LoadHead \<Rightarrow> printed list \<Rightarrow> bytes res" where
  "LoadDataStmt_to_stream h set_list =
     emit ([put ''LOAD DATA '', put (if ld_is_local h then ''LOCAL '' else ''''), put ''INFILE ''] @
       (if \<not> String_empty (ld_path h) then [Inr [39], str (ld_path h), Inr [39], put '' ''] else []) @
       [put (if ld_on_duplicate_handle h = ON_DUPLICATE_KEY_REPLACE then ''REPLACE '' else ''IGNORE ''), put ''INTO TABLE '',
        (case ld_table_name h of None \<Rightarrow> Inl Undefined_Behaviour | Some t \<Rightarrow> TableName_to_stream t)] @
       (if \<not> String_empty (ld_char_set h) then [put '' CHARACTER SET '', str (ld_char_set h), put '' ''] else []) @
       (case ld_fields_info h of None \<Rightarrow> [] | Some f \<Rightarrow> FieldsClause_parts f) @
       (case ld_lines_info h of None \<Rightarrow> [] | Some l \<Rightarrow> LinesClause_parts l) @
       (if 0 < sint (ld_ignore_lines h) then [put '' IGNORE '', Inr (dec_of_int (sint (ld_ignore_lines h)))] else []) @
       (if ld_columns h \<noteq> []
        then [put '' (''] @ sep_by '', '' (map ColumnName_to_stream (ld_columns h)) @ [put '')''] else []) @
       (if set_list \<noteq> [] then [put '' SET ''] @ sep_by '', '' (map call set_list) else []))"

section \<open>The virtual functions\<close>

text \<open>Printing: the class that is not overridden prints nothing.\<close>

fun to_stream :: "(u64 \<Rightarrow> bytes) \<Rightarrow> node \<Rightarrow> bytes res" where
  "to_stream pd Nullptr = Inr []"
| "to_stream pd (ColumnNode c) = ColumnName_to_stream c"
| "to_stream pd (LiteralNode sample lit) = LiteralExpr_to_stream pd sample lit"
| "to_stream pd (FuncNode h cs) = FuncExpr_to_stream h (map (\<lambda>c. (c, to_stream pd c)) cs)"
| "to_stream pd (RowNode cs) = RowExpr_to_stream (map (\<lambda>c. (c, to_stream pd c)) cs)"
| "to_stream pd (SubqueryNode q) = SubqueryExpr_to_stream (q, to_stream pd q)"
| "to_stream pd (CompareSubqueryNode cmp t l r) =
     CompareSubqueryExpr_to_stream cmp t (l, to_stream pd l) (r, to_stream pd r)"
| "to_stream pd (ExistsSubqueryNode is_not q) = ExistsSubqueryExpr_to_stream (q, to_stream pd q)"
| "to_stream pd (TableNameNode t) = TableName_to_stream t"
| "to_stream pd (IndexHintNode h) = IndexHint_to_stream h"
| "to_stream pd (TableSourceNode t a d hs) = TableSource_to_stream t a (d, to_stream pd d) hs"
| "to_stream pd (JoinNode h l r e us) =
     JoinNode_to_stream h (l, to_stream pd l) (r, to_stream pd r) (e, to_stream pd e) us"
| "to_stream pd (ByItemNode is_desc e) = ByItem_to_stream is_desc (e, to_stream pd e)"
| "to_stream pd (GroupByNode cs) = GroupByClause_to_stream (map (\<lambda>c. (c, to_stream pd c)) cs)"
| "to_stream pd (OrderByNode cs) = OrderByClause_to_stream (map (\<lambda>c. (c, to_stream pd c)) cs)"
| "to_stream pd (LimitNode off cnt) = LimitClause_to_stream (off, to_stream pd off) (cnt, to_stream pd cnt)"
| "to_stream pd (WildCardNode f) = WildCardField_to_stream f"
| "to_stream pd (SelectFieldNode e as_name org_name f) = SelectField_to_stream (e, to_stream pd e) as_name f"
| "to_stream pd (AssignmentNode n e) = Assignment_to_stream n (e, to_stream pd e)"
| "to_stream pd (TruncateNode t) = TruncateStmt_to_stream t"
| "to_stream pd (DeleteNode h f ts wh ord lim) =
     DeleteStmt_to_stream h (f, to_stream pd f) ts (wh, to_stream pd wh) (ord, to_stream pd ord) (lim, to_stream pd lim)"
| "to_stream pd (UpdateNode is_ignore t sets wh ord lim) =
     UpdateStmt_to_stream is_ignore (t, to_stream pd t) (map (\<lambda>c. (c, to_stream pd c)) sets) (wh, to_stream pd wh)
       (ord, to_stream pd ord) (lim, to_stream pd lim)"
| "to_stream pd (SelectNode h fs t wh gr hav ord lim) =
     SelectStmt_to_stream h (map (\<lambda>c. (c, to_stream pd c)) fs) (t, to_stream pd t) (wh, to_stream pd wh)
       (gr, to_stream pd gr) (hav, to_stream pd hav) (ord, to_stream pd ord) (lim, to_stream pd lim)"
| "to_stream pd (UnionNode h ss ord lim) =
     UnionStmt_to_stream h (map (\<lambda>c. (c, to_stream pd c)) ss) (ord, to_stream pd ord) (lim, to_stream pd lim)"
| "to_stream pd (InsertNode h q ls ds) =
     InsertStmt_to_stream h (q, to_stream pd q) (map (\<lambda>c. (c, to_stream pd c)) ls) (map (\<lambda>c. (c, to_stream pd c)) ds)"
| "to_stream pd (LoadDataNode h sets) = LoadDataStmt_to_stream h (map (\<lambda>c. (c, to_stream pd c)) sets)"
| "to_stream pd (CreateTableNode s) = Inr []"
| "to_stream pd (CreateDatabaseNode s) = Inr []"
| "to_stream pd (OtherStmtNode t) = Inr []"

text \<open>The flag of a tree. A class that does not override the function hands the flag to its children;
  other pointers are tested where the class does.\<close>

fun set_print_sample :: "bool \<Rightarrow> node \<Rightarrow> node res" where
  "set_print_sample b Nullptr = Inl Undefined_Behaviour"
| "set_print_sample b (LiteralNode _ lit) = Inr (LiteralNode b lit)"
| "set_print_sample b (FuncNode h cs) =
     bindR (mapR (set_print_sample b) cs) (\<lambda>cs1. Inr (FuncNode (h\<lparr>fe_print_sample := b\<rparr>) cs1))"
| "set_print_sample b (RowNode cs) = bindR (mapR (set_print_sample b) cs) (\<lambda>cs1. Inr (RowNode cs1))"
| "set_print_sample b (SubqueryNode q) = bindR (set_print_sample b q) (\<lambda>q1. Inr (SubqueryNode q1))"
| "set_print_sample b (CompareSubqueryNode cmp t l r) =
     bindR (set_print_sample b l) (\<lambda>l1. bindR (set_print_sample b r) (\<lambda>r1. Inr (CompareSubqueryNode cmp t l1 r1)))"
| "set_print_sample b (ExistsSubqueryNode is_not q) =
     bindR (set_print_sample b q) (\<lambda>q1. Inr (ExistsSubqueryNode is_not q1))"
| "set_print_sample b (TableSourceNode t a d hs) =
     bindR (if d = Nullptr then Inr Nullptr else set_print_sample b d) (\<lambda>d1. Inr (TableSourceNode t a d1 hs))"
| "set_print_sample b (JoinNode h l r e us) =
     bindR (if l = Nullptr then Inr Nullptr else set_print_sample b l) (\<lambda>l1.
     bindR (if r = Nullptr then Inr Nullptr else set_print_sample b r) (\<lambda>r1.
     bindR (if e = Nullptr then Inr Nullptr else set_print_sample b e) (\<lambda>e1. Inr (JoinNode h l1 r1 e1 us))))"
| "set_print_sample b (ByItemNode is_desc e) =
     bindR (if e = Nullptr then Inr Nullptr else set_print_sample b e) (\<lambda>e1. Inr (ByItemNode is_desc e1))"
| "set_print_sample b (GroupByNode cs) = bindR (mapR (set_print_sample b) cs) (\<lambda>cs1. Inr (GroupByNode cs1))"
| "set_print_sample b (OrderByNode cs) = bindR (mapR (set_print_sample b) cs) (\<lambda>cs1. Inr (OrderByNode cs1))"
| "set_print_sample b (LimitNode off cnt) =
     bindR (if off = Nullptr then Inr Nullptr else set_print_sample b off) (\<lambda>off1.
     bindR (if cnt = Nullptr then Inr Nullptr else set_print_sample b cnt) (\<lambda>cnt1. Inr (LimitNode off1 cnt1)))"
| "set_print_sample b (SelectFieldNode e as_name org_name f) =
     bindR (if e = Nullptr then Inr Nullptr else set_print_sample b e) (\<lambda>e1. Inr (SelectFieldNode e1 as_name org_name f))"
| "set_print_sample b (AssignmentNode n e) =
     bindR (if e = Nullptr then Inr Nullptr else set_print_sample b e) (\<lambda>e1. Inr (AssignmentNode n e1))"
| "set_print_sample b (DeleteNode h f ts wh ord lim) =
     bindR (if f = Nullptr then Inr Nullptr else set_print_sample b f) (\<lambda>f1.
     bindR (if wh = Nullptr then Inr Nullptr else set_print_sample b wh) (\<lambda>wh1.
     bindR (if ord = Nullptr then Inr Nullptr else set_print_sample b ord) (\<lambda>ord1.
     bindR (if lim = Nullptr then Inr Nullptr else set_print_sample b lim) (\<lambda>lim1. Inr (DeleteNode h f1 ts wh1 ord1 lim1)))))"
| "set_print_sample b (UpdateNode is_ignore t sets wh ord lim) =
     bindR (if t = Nullptr then Inr Nullptr else set_print_sample b t) (\<lambda>t1.
     bindR (if wh = Nullptr then Inr Nullptr else set_print_sample b wh) (\<lambda>wh1.
     bindR (mapR (set_print_sample b) sets) (\<lambda>sets1.
     bindR (if ord = Nullptr then Inr Nullptr else set_print_sample b ord) (\<lambda>ord1.
     bindR (if lim = Nullptr then Inr Nullptr else set_print_sample b lim) (\<lambda>lim1.
       Inr (UpdateNode is_ignore t1 sets1 wh1 ord1 lim1))))))"
| "set_print_sample b (SelectNode h fs t wh gr hav ord lim) =
     bindR (mapR (set_print_sample b) fs) (\<lambda>fs1.
     bindR (if t = Nullptr then Inr Nullptr else set_print_sample b t) (\<lambda>t1.
     bindR (if wh = Nullptr then Inr Nullptr else set_print_sample b wh) (\<lambda>wh1.
     bindR (if gr = Nullptr then Inr Nullptr else set_print_sample b gr) (\<lambda>gr1.
     bindR (if hav = Nullptr then Inr Nullptr else set_print_sample b hav) (\<lambda>hav1.
     bindR (if ord = Nullptr then Inr Nullptr else set_print_sample b ord) (\<lambda>ord1.
     bindR (if lim = Nullptr then Inr Nullptr else set_print_sample b lim) (\<lambda>lim1.
       Inr (SelectNode h fs1 t1 wh1 gr1 hav1 ord1 lim1))))))))"
| "set_print_sample b (UnionNode h ss ord lim) =
     bindR (mapR (set_print_sample b) ss) (\<lambda>ss1. Inr (UnionNode h ss1 ord lim))"
| "set_print_sample b (InsertNode h q ls ds) =
     bindR (mapR (set_print_sample b) ls) (\<lambda>ls1.
     bindR (if q = Nullptr then Inr Nullptr else set_print_sample b q) (\<lambda>q1.
     bindR (mapR (set_print_sample b) ds) (\<lambda>ds1. Inr (InsertNode (h\<lparr>in_print_sample := b\<rparr>) q1 ls1 ds1))))"
| "set_print_sample b n = Inr n"

text \<open>Joins and subqueries. The loop over children stops at the first that is complex.\<close>

fun anyR :: "('a \<Rightarrow> bool res) \<Rightarrow> 'a list \<Rightarrow> bool res" where
  "anyR f [] = Inr False"
| "anyR f (x # xs) = bindR (f x) (\<lambda>b. if b then Inr True else anyR f xs)"

lemma anyR_cong [fundef_cong]:
  "xs = ys \<Longrightarrow> (\<And>x. x \<in> set ys \<Longrightarrow> f x = g x) \<Longrightarrow> anyR f xs = anyR g ys"
  by (induction xs arbitrary: ys) (auto intro!: bindR_cong)

fun is_complex_node :: "node \<Rightarrow> bool res" where
  "is_complex_node Nullptr = Inl Undefined_Behaviour"
| "is_complex_node (FuncNode h cs) = anyR is_complex_node cs"
| "is_complex_node (RowNode cs) = anyR is_complex_node cs"
| "is_complex_node (SubqueryNode q) = Inr True"
| "is_complex_node (CompareSubqueryNode cmp t l r) = Inr True"
| "is_complex_node (ExistsSubqueryNode is_not q) = Inr True"
| "is_complex_node (TableSourceNode t a d hs) = Inr (d \<noteq> Nullptr)"
| "is_complex_node (JoinNode h l r e us) = Inr True"
| "is_complex_node (GroupByNode cs) = anyR is_complex_node cs"
| "is_complex_node (OrderByNode cs) = anyR is_complex_node cs"
| "is_complex_node (LimitNode off cnt) = anyR is_complex_node [off, cnt]"
| "is_complex_node (SelectFieldNode e as_name org_name f) = (if e = Nullptr then Inr False else is_complex_node e)"
| "is_complex_node (SelectNode h fs t wh gr hav ord lim) =
     bindR (anyR is_complex_node fs) (\<lambda>b. if b then Inr True
       else anyR (\<lambda>c. if c = Nullptr then Inr False else is_complex_node c) [t, wh, gr, hav, ord, lim])"
| "is_complex_node (UnionNode h ss ord lim) = Inr True"
| "is_complex_node n = Inr False"

end
