(* ===== verification/PrintingTypes.thy ===== *)
theory PrintingTypes
  imports Printing
begin

text \<open>
  A typing of the syntax trees: of a well formed tree neither printing nor setting the flag
  dereferences a null pointer or reads an argument that is not there, and it stays well formed.
\<close>

section \<open>Well formed trees\<close>

text \<open>The trees of which no null pointer is dereferenced and no missing argument is read.\<close>

definition arity :: "FuncType \<Rightarrow> nat" where
  "arity t =
     (if t = FT_COMMON \<or> t = FT_AGG then 0
      else if t \<in> {FT_BIT_NOT, FT_LOGIC_NOT, FT_UMINUS, FT_IS_NULL, FT_IS_TRUE, FT_IS_UNKNOWN, FT_VALUES} then 1
      else if t = FT_MATCH_AGAINST \<or> t = FT_BETWEEN then 3 else 2)"

definition is_expr :: "node \<Rightarrow> bool" where "is_expr n \<longleftrightarrow> expr_type n \<noteq> Inl Undefined_Behaviour"

fun well_formed :: "node \<Rightarrow> bool" where
  "well_formed (FuncNode h cs) \<longleftrightarrow> list_all is_expr cs \<and> list_all well_formed cs \<and> arity (fe_func_type h) \<le> length cs"
| "well_formed (RowNode cs) \<longleftrightarrow> list_all is_expr cs \<and> list_all well_formed cs"
| "well_formed (SubqueryNode q) \<longleftrightarrow> q \<noteq> Nullptr \<and> well_formed q"
| "well_formed (CompareSubqueryNode cmp t l r) \<longleftrightarrow> l \<noteq> Nullptr \<and> well_formed l \<and> r \<noteq> Nullptr \<and> well_formed r"
| "well_formed (ExistsSubqueryNode is_not q) \<longleftrightarrow> q \<noteq> Nullptr \<and> well_formed q"
| "well_formed (TableSourceNode t a d hs) \<longleftrightarrow> well_formed d"
| "well_formed (JoinNode h l r e us) \<longleftrightarrow> well_formed l \<and> well_formed r \<and> well_formed e"
| "well_formed (ByItemNode is_desc e) \<longleftrightarrow> well_formed e"
| "well_formed (GroupByNode cs) \<longleftrightarrow> list_all (\<lambda>c. c \<noteq> Nullptr) cs \<and> list_all well_formed cs"
| "well_formed (OrderByNode cs) \<longleftrightarrow> list_all (\<lambda>c. c \<noteq> Nullptr) cs \<and> list_all well_formed cs"
| "well_formed (LimitNode off cnt) \<longleftrightarrow> well_formed off \<and> well_formed cnt"
| "well_formed (SelectFieldNode e as_name org_name f) \<longleftrightarrow> well_formed e"
| "well_formed (AssignmentNode n e) \<longleftrightarrow> well_formed e"
| "well_formed (DeleteNode h f ts wh ord lim) \<longleftrightarrow>
     f \<noteq> Nullptr \<and> well_formed f \<and> well_formed wh \<and> well_formed ord \<and> well_formed lim"
| "well_formed (UpdateNode is_ignore t sets wh ord lim) \<longleftrightarrow>
     well_formed t \<and> list_all (\<lambda>c. c \<noteq> Nullptr) sets \<and> list_all well_formed sets \<and> well_formed wh \<and> well_formed ord \<and>
     well_formed lim"
| "well_formed (SelectNode h fs t wh gr hav ord lim) \<longleftrightarrow>
     select_opt h \<noteq> None \<and> list_all (\<lambda>c. c \<noteq> Nullptr) fs \<and> list_all well_formed fs \<and> well_formed t \<and> well_formed wh \<and>
     well_formed gr \<and> well_formed hav \<and> well_formed ord \<and> well_formed lim"
| "well_formed (UnionNode h ss ord lim) \<longleftrightarrow>
     list_all (\<lambda>c. c \<noteq> Nullptr) ss \<and> list_all well_formed ss \<and> well_formed ord \<and> well_formed lim"
| "well_formed (InsertNode h q ls ds) \<longleftrightarrow>
     well_formed q \<and> list_all (\<lambda>c. c \<noteq> Nullptr) ls \<and> list_all well_formed ls \<and>
     list_all (\<lambda>c. c \<noteq> Nullptr) ds \<and> list_all well_formed ds"
| "well_formed (LoadDataNode h sets) \<longleftrightarrow>
     ld_table_name h \<noteq> None \<and> list_all (\<lambda>c. c \<noteq> Nullptr) sets \<and> list_all well_formed sets"
| "well_formed n \<longleftrightarrow> True"

named_theorems prints \<open>parts of the output that are defined\<close>

definition defined :: "'a res \<Rightarrow> bool" where "defined r \<longleftrightarrow> (\<exists>x. r = Inr x)"

lemma defined_Inr [prints]: "defined (Inr x)" "\<not> defined (Inl e)" by (simp_all add: defined_def)
lemma defined_put [prints]: "defined (put s)" "defined (str b)" by (simp_all add: defined_def put_def str_def)

definition all_defined :: "bytes res list \<Rightarrow> bool" where "all_defined rs \<longleftrightarrow> (\<forall>r \<in> set rs. defined r)"

lemma defined_emit [prints]: "defined (emit ps) \<longleftrightarrow> all_defined ps"
proof (induction ps)
  case (Cons p ps)
  then show ?case by (cases p; cases "mapR (\<lambda>p. p) ps") (auto simp: emit_def defined_def all_defined_def)
qed (simp add: emit_def defined_def all_defined_def)

lemma defined_sep_by [prints]: "all_defined (sep_by s rs) \<longleftrightarrow> all_defined rs"
  by (induction s rs rule: sep_by.induct) (auto simp: defined_put all_defined_def)

lemma defined_call [prints]: "defined (call c) \<longleftrightarrow> fst c \<noteq> Nullptr \<and> defined (snd c)"
  by (simp add: call_def defined_def)

lemma defined_clause [prints]: "all_defined (clause k c) \<longleftrightarrow> fst c = Nullptr \<or> defined (snd c)"
  by (simp add: clause_def defined_put all_defined_def)

lemma defined_if [prints]:
  "defined (if b then r else r1) \<longleftrightarrow> (if b then defined r else defined r1)"
  "all_defined (if b then rs else rs1) \<longleftrightarrow> (if b then all_defined rs else all_defined rs1)"
  by simp_all

lemma defined_append [prints]:
  "all_defined (xs @ ys) \<longleftrightarrow> all_defined xs \<and> all_defined ys"
  "all_defined (x # xs) \<longleftrightarrow> defined x \<and> all_defined xs"
  "all_defined [] \<longleftrightarrow> True"
  "all_defined (map f zs) \<longleftrightarrow> (\<forall>z \<in> set zs. defined (f z))"
  "all_defined (take n rs) \<longleftrightarrow> (\<forall>r \<in> set (take n rs). defined r)"
  by (auto simp: all_defined_def)

lemma defined_option [prints]:
  "all_defined (case o1 of None \<Rightarrow> rs | Some z \<Rightarrow> g z) \<longleftrightarrow>
     (case o1 of None \<Rightarrow> all_defined rs | Some z \<Rightarrow> all_defined (g z))"
  by (simp split: option.split)

lemma defined_bindR: "defined m \<Longrightarrow> (\<And>x. m = Inr x \<Longrightarrow> defined (f x)) \<Longrightarrow> defined (bindR m f)"
  by (auto simp: defined_def)

lemma defined_names [prints]: "defined (ColumnName_to_stream c)" "defined (TableName_to_stream t)"
  "defined (IndexHint_to_stream i)" "defined (WildCardField_to_stream w)" "defined (SelectStmtOpts_to_stream o1)"
  by (auto simp: ColumnName_to_stream_def TableName_to_stream_def IndexHint_to_stream_def WildCardField_to_stream_def
      SelectStmtOpts_to_stream_def prints simp del: set_append split: option.split)

lemma defined_literal [prints]: "defined (LiteralExpr_to_stream pd b lit)"
  by (simp add: LiteralExpr_to_stream_def prints split: literal.split)

lemma has_subquery_defined: "list_all is_expr cs \<Longrightarrow> defined (has_subquery cs)"
proof (induction cs)
  case (Cons c cs)
  then obtain t where "expr_type c = Inr t" by (cases c) (auto simp: is_expr_def)
  with Cons show ?case by (simp add: prints)
qed (simp add: prints)

lemma FuncExpr_body_defined:
  assumes "\<And>i. i < arity (fe_func_type h) \<Longrightarrow> defined (child i)" "defined (FuncExpr_call h rs)"
    "defined (has_subquery cs)" "fe_func_type h \<notin> {FT_BIT_NOT, FT_LOGIC_NOT, FT_UMINUS}"
  shows "defined (FuncExpr_body h cs rs child)"
proof -
  have c: "0 < arity (fe_func_type h) \<Longrightarrow> defined (child 0)" "1 < arity (fe_func_type h) \<Longrightarrow> defined (child 1)"
    "2 < arity (fe_func_type h) \<Longrightarrow> defined (child 2)" using assms(1) by blast+
  show ?thesis
  proof (cases "fe_func_type h")
    case FT_IN
    with c assms(3) show ?thesis
      by (auto simp: FuncExpr_body_def arity_def prints Let_def intro!: defined_bindR)
  qed (use c assms(2,4) in \<open>simp_all add: FuncExpr_body_def arity_def prints Let_def\<close>)
qed

lemma FuncExpr_defined:
  assumes "list_all is_expr (map fst cs)" "list_all (\<lambda>c. defined (snd c)) cs" "arity (fe_func_type h) \<le> length cs"
  shows "defined (FuncExpr_to_stream h cs)"
proof -
  let ?child = "\<lambda>i. if i < length (map snd cs) then map snd cs ! i else Inl Undefined_Behaviour"
  have child: "defined (?child i)" if "i < length cs" for i
    using assms(2) that by (simp add: list_all_length)
  have call: "defined (FuncExpr_call h (map snd cs))"
    using assms(2) by (auto simp: FuncExpr_call_def prints list_all_iff dest!: in_set_takeD)
  show ?thesis
  proof (cases "fe_func_type h \<in> {FT_BIT_NOT, FT_LOGIC_NOT, FT_UMINUS}")
    case True
    then have "cs \<noteq> []" using assms(3) by (auto simp: arity_def)
    moreover from this have "defined (expr_type (fst (hd cs)))"
      using assms(1) by (cases cs; cases "fst (hd cs)") (auto simp: is_expr_def prints)
    moreover have "defined (?child 0)" using \<open>cs \<noteq> []\<close> child by blast
    ultimately show ?thesis
      using True unfolding FuncExpr_to_stream_def Let_def by (auto simp: prints intro!: defined_bindR)
  next
    case False
    have "defined (FuncExpr_body h (map fst cs) (map snd cs) ?child)"
      using assms(3) child call has_subquery_defined [OF assms(1)] False by (intro FuncExpr_body_defined) auto
    with False show ?thesis by (simp add: FuncExpr_to_stream_def Let_def prints)
  qed
qed

lemma parts_defined: "all_defined (FieldsClause_parts f)" "all_defined (LinesClause_parts l)"
  by (simp_all add: FieldsClause_parts_def LinesClause_parts_def prints cong: if_cong split del: if_split)

lemma well_formed_prints: "well_formed n \<Longrightarrow> defined (to_stream pd n)"
proof (induction n)
  case (FuncNode h cs)
  then have "list_all (\<lambda>c. defined (snd c)) (map (\<lambda>c. (c, to_stream pd c)) cs)" by (auto simp: list_all_iff)
  with FuncNode.prems show ?case by (simp add: FuncExpr_defined comp_def)
next
  case (LoadDataNode h sets)
  then have s: "\<forall>c \<in> set sets. c \<noteq> Nullptr \<and> defined (to_stream pd c)" and t: "\<exists>t. ld_table_name h = Some t"
    by (auto simp: list_all_iff)
  have o: "all_defined (case ld_fields_info h of None \<Rightarrow> [] | Some f \<Rightarrow> FieldsClause_parts f)"
    "all_defined (case ld_lines_info h of None \<Rightarrow> [] | Some l \<Rightarrow> LinesClause_parts l)"
    by (auto simp: parts_defined prints split: option.splits)
  from t s o show ?case
    by (auto simp: LoadDataStmt_to_stream_def prints )
next
  case (RowNode cs)
  then show ?case by (auto simp: prints Let_def list_all_iff RowExpr_to_stream_def  split: option.split)
next
  case (SubqueryNode q)
  then show ?case by (auto simp: prints Let_def list_all_iff SubqueryExpr_to_stream_def  split: option.split)
next
  case (CompareSubqueryNode cmp t l r)
  then show ?case by (auto simp: prints Let_def list_all_iff CompareSubqueryExpr_to_stream_def  split: option.split)
next
  case (ExistsSubqueryNode is_not q)
  then show ?case by (auto simp: prints Let_def list_all_iff ExistsSubqueryExpr_to_stream_def  split: option.split)
next
  case (TableSourceNode t a d hs)
  then show ?case by (auto simp: prints Let_def list_all_iff TableSource_to_stream_def  split: option.split)
next
  case (JoinNode h l r e us)
  then show ?case by (auto simp: prints Let_def list_all_iff JoinNode_to_stream_def  split: option.split)
next
  case (ByItemNode is_desc e)
  then show ?case by (auto simp: prints Let_def list_all_iff ByItem_to_stream_def  split: option.split)
next
  case (GroupByNode cs)
  then show ?case by (auto simp: prints Let_def list_all_iff GroupByClause_to_stream_def  split: option.split)
next
  case (OrderByNode cs)
  then show ?case by (auto simp: prints Let_def list_all_iff OrderByClause_to_stream_def  split: option.split)
next
  case (LimitNode off cnt)
  then show ?case by (auto simp: prints Let_def list_all_iff LimitClause_to_stream_def  split: option.split)
next
  case (SelectFieldNode e as_name org_name f)
  then show ?case by (auto simp: prints Let_def list_all_iff SelectField_to_stream_def  split: option.split)
next
  case (AssignmentNode n e)
  then show ?case by (auto simp: prints Let_def list_all_iff Assignment_to_stream_def  split: option.split)
next
  case (DeleteNode h f ts wh ord lim)
  then show ?case by (auto simp: prints Let_def list_all_iff DeleteStmt_to_stream_def  split: option.split)
next
  case (UpdateNode is_ignore t sets wh ord lim)
  then show ?case by (auto simp: prints Let_def list_all_iff UpdateStmt_to_stream_def  split: option.split)
next
  case (SelectNode h fs t wh gr hav ord lim)
  then show ?case by (auto simp: prints Let_def list_all_iff SelectStmt_to_stream_def  split: option.split)
next
  case (UnionNode h ss ord lim)
  then show ?case by (auto simp: prints Let_def list_all_iff UnionStmt_to_stream_def  split: option.split)
next
  case (InsertNode h q ls ds)
  then show ?case by (auto simp: prints Let_def list_all_iff InsertStmt_to_stream_def  split: option.split)
qed (auto simp: prints TruncateStmt_to_stream_def  split: option.split)

section \<open>Setting the flag\<close>

definition marked :: "bool \<Rightarrow> node \<Rightarrow> node \<Rightarrow> bool" where
  "marked b n n1 \<longleftrightarrow> set_print_sample b n = Inr n1 \<and> well_formed n1 \<and> n1 \<noteq> Nullptr \<and> expr_type n1 = expr_type n"

lemma marked_list:
  "(\<And>c. c \<in> set cs \<Longrightarrow> \<exists>c1. marked b c c1) \<Longrightarrow>
     \<exists>cs1. mapR (set_print_sample b) cs = Inr cs1 \<and> list_all well_formed cs1 \<and> list_all (\<lambda>c. c \<noteq> Nullptr) cs1 \<and>
       length cs1 = length cs \<and> (list_all is_expr cs \<longrightarrow> list_all is_expr cs1)"
proof (induction cs)
  case (Cons c cs)
  then obtain c1 cs1 where "marked b c c1" "mapR (set_print_sample b) cs = Inr cs1" "list_all well_formed cs1"
    "list_all (\<lambda>c. c \<noteq> Nullptr) cs1" "length cs1 = length cs" "list_all is_expr cs \<longrightarrow> list_all is_expr cs1"
    by (metis list.set_intros)
  moreover from \<open>marked b c c1\<close> have "is_expr c1 \<longleftrightarrow> is_expr c" by (simp add: marked_def is_expr_def)
  ultimately show ?case by (intro exI [of _ "c1 # cs1"]) (simp add: marked_def)
qed simp

lemma ex_marked: "(\<exists>n1. marked b n n1) \<longleftrightarrow>
    (\<exists>n1. set_print_sample b n = Inr n1 \<and> well_formed n1 \<and> n1 \<noteq> Nullptr \<and> expr_type n1 = expr_type n)"
  by (simp add: marked_def)

lemma marked_optional:
  "(n \<noteq> Nullptr \<Longrightarrow> \<exists>n1. marked b n n1) \<Longrightarrow>
     \<exists>n1. (if n = Nullptr then Inr Nullptr else set_print_sample b n) = Inr n1 \<and> well_formed n1"
  by (auto simp: marked_def)

lemma is_expr_not_null: "list_all is_expr cs \<Longrightarrow> list_all (\<lambda>c. c \<noteq> Nullptr) cs"
  by (auto simp: list_all_iff is_expr_def)

lemma well_formed_marked: "well_formed n \<Longrightarrow> n \<noteq> Nullptr \<Longrightarrow> \<exists>n1. marked b n n1"
proof (induction n)
  case (FuncNode h cs)
  have "\<exists>c1. marked b c c1" if "c \<in> set cs" for c
    using FuncNode.IH that FuncNode.prems is_expr_not_null [of cs] by (auto simp: list_all_iff)
  from marked_list [OF this] obtain cs1 where cs_m: "mapR (set_print_sample b) cs = Inr cs1" "list_all well_formed cs1"
    "list_all (\<lambda>c. c \<noteq> Nullptr) cs1" "length cs1 = length cs" "list_all is_expr cs \<longrightarrow> list_all is_expr cs1" by blast
  show ?case
    using FuncNode.prems cs_m
    by (intro exI [of _ "FuncNode (h\<lparr>fe_print_sample := b\<rparr>) cs1"]) (simp add: marked_def)
next
  case (RowNode cs)
  have "\<exists>c1. marked b c c1" if "c \<in> set cs" for c
    using RowNode.IH that RowNode.prems is_expr_not_null [of cs] by (auto simp: list_all_iff)
  from marked_list [OF this] obtain cs1 where cs_m: "mapR (set_print_sample b) cs = Inr cs1" "list_all well_formed cs1"
    "list_all (\<lambda>c. c \<noteq> Nullptr) cs1" "length cs1 = length cs" "list_all is_expr cs \<longrightarrow> list_all is_expr cs1" by blast
  show ?case
    using RowNode.prems cs_m
    by (intro exI [of _ "RowNode cs1"]) (simp add: marked_def)
next
  case (GroupByNode cs)
  have "\<exists>c1. marked b c c1" if "c \<in> set cs" for c
    using GroupByNode.IH that GroupByNode.prems is_expr_not_null [of cs] by (auto simp: list_all_iff)
  from marked_list [OF this] obtain cs1 where cs_m: "mapR (set_print_sample b) cs = Inr cs1" "list_all well_formed cs1"
    "list_all (\<lambda>c. c \<noteq> Nullptr) cs1" "length cs1 = length cs" "list_all is_expr cs \<longrightarrow> list_all is_expr cs1" by blast
  show ?case
    using GroupByNode.prems cs_m
    by (intro exI [of _ "GroupByNode cs1"]) (simp add: marked_def)
next
  case (OrderByNode cs)
  have "\<exists>c1. marked b c c1" if "c \<in> set cs" for c
    using OrderByNode.IH that OrderByNode.prems is_expr_not_null [of cs] by (auto simp: list_all_iff)
  from marked_list [OF this] obtain cs1 where cs_m: "mapR (set_print_sample b) cs = Inr cs1" "list_all well_formed cs1"
    "list_all (\<lambda>c. c \<noteq> Nullptr) cs1" "length cs1 = length cs" "list_all is_expr cs \<longrightarrow> list_all is_expr cs1" by blast
  show ?case
    using OrderByNode.prems cs_m
    by (intro exI [of _ "OrderByNode cs1"]) (simp add: marked_def)
next
  case (SubqueryNode q)
  obtain q1 where q_m: "marked b q q1" using SubqueryNode.IH SubqueryNode.prems by auto
  show ?case
    using SubqueryNode.prems q_m
    by (intro exI [of _ "SubqueryNode q1"]) (simp add: marked_def)
next
  case (CompareSubqueryNode cmp t l r)
  obtain l1 where l_m: "marked b l l1" using CompareSubqueryNode.IH(1) CompareSubqueryNode.prems by auto
  obtain r1 where r_m: "marked b r r1" using CompareSubqueryNode.IH(2) CompareSubqueryNode.prems by auto
  show ?case
    using CompareSubqueryNode.prems l_m r_m
    by (intro exI [of _ "CompareSubqueryNode cmp t l1 r1"]) (simp add: marked_def)
next
  case (ExistsSubqueryNode is_not q)
  obtain q1 where q_m: "marked b q q1" using ExistsSubqueryNode.IH ExistsSubqueryNode.prems by auto
  show ?case
    using ExistsSubqueryNode.prems q_m
    by (intro exI [of _ "ExistsSubqueryNode is_not q1"]) (simp add: marked_def)
next
  case (TableSourceNode t a d hs)
  obtain d1 where d_m: "(if d = Nullptr then Inr Nullptr else set_print_sample b d) = Inr d1" "well_formed d1"
    using marked_optional [of d b] TableSourceNode.IH TableSourceNode.prems by auto
  show ?case
    using TableSourceNode.prems d_m
    by (intro exI [of _ "TableSourceNode t a d1 hs"]) (simp add: marked_def)
next
  case (JoinNode h l r e us)
  obtain l1 where l_m: "(if l = Nullptr then Inr Nullptr else set_print_sample b l) = Inr l1" "well_formed l1"
    using marked_optional [of l b] JoinNode.IH(1) JoinNode.prems by auto
  obtain r1 where r_m: "(if r = Nullptr then Inr Nullptr else set_print_sample b r) = Inr r1" "well_formed r1"
    using marked_optional [of r b] JoinNode.IH(2) JoinNode.prems by auto
  obtain e1 where e_m: "(if e = Nullptr then Inr Nullptr else set_print_sample b e) = Inr e1" "well_formed e1"
    using marked_optional [of e b] JoinNode.IH(3) JoinNode.prems by auto
  show ?case
    using JoinNode.prems l_m r_m e_m
    by (intro exI [of _ "JoinNode h l1 r1 e1 us"]) (simp add: marked_def)
next
  case (ByItemNode is_desc e)
  obtain e1 where e_m: "(if e = Nullptr then Inr Nullptr else set_print_sample b e) = Inr e1" "well_formed e1"
    using marked_optional [of e b] ByItemNode.IH ByItemNode.prems by auto
  show ?case
    using ByItemNode.prems e_m
    by (intro exI [of _ "ByItemNode is_desc e1"]) (simp add: marked_def)
next
  case (LimitNode off cnt)
  obtain off1 where off_m: "(if off = Nullptr then Inr Nullptr else set_print_sample b off) = Inr off1" "well_formed off1"
    using marked_optional [of off b] LimitNode.IH(1) LimitNode.prems by auto
  obtain cnt1 where cnt_m: "(if cnt = Nullptr then Inr Nullptr else set_print_sample b cnt) = Inr cnt1" "well_formed cnt1"
    using marked_optional [of cnt b] LimitNode.IH(2) LimitNode.prems by auto
  show ?case
    using LimitNode.prems off_m cnt_m
    by (intro exI [of _ "LimitNode off1 cnt1"]) (simp add: marked_def)
next
  case (SelectFieldNode e as_name org_name f)
  obtain e1 where e_m: "(if e = Nullptr then Inr Nullptr else set_print_sample b e) = Inr e1" "well_formed e1"
    using marked_optional [of e b] SelectFieldNode.IH SelectFieldNode.prems by auto
  show ?case
    using SelectFieldNode.prems e_m
    by (intro exI [of _ "SelectFieldNode e1 as_name org_name f"]) (simp add: marked_def)
next
  case (AssignmentNode n e)
  obtain e1 where e_m: "(if e = Nullptr then Inr Nullptr else set_print_sample b e) = Inr e1" "well_formed e1"
    using marked_optional [of e b] AssignmentNode.IH AssignmentNode.prems by auto
  show ?case
    using AssignmentNode.prems e_m
    by (intro exI [of _ "AssignmentNode n e1"]) (simp add: marked_def)
next
  case (DeleteNode h f ts wh ord lim)
  obtain f1 where f_m: "(if f = Nullptr then Inr Nullptr else set_print_sample b f) = Inr f1" "well_formed f1"
    using marked_optional [of f b] DeleteNode.IH(1) DeleteNode.prems by auto
  obtain wh1 where wh_m: "(if wh = Nullptr then Inr Nullptr else set_print_sample b wh) = Inr wh1" "well_formed wh1"
    using marked_optional [of wh b] DeleteNode.IH(2) DeleteNode.prems by auto
  obtain ord1 where ord_m: "(if ord = Nullptr then Inr Nullptr else set_print_sample b ord) = Inr ord1" "well_formed ord1"
    using marked_optional [of ord b] DeleteNode.IH(3) DeleteNode.prems by auto
  obtain lim1 where lim_m: "(if lim = Nullptr then Inr Nullptr else set_print_sample b lim) = Inr lim1" "well_formed lim1"
    using marked_optional [of lim b] DeleteNode.IH(4) DeleteNode.prems by auto
  have f_n: "f1 \<noteq> Nullptr" using f_m(1) DeleteNode.prems DeleteNode.IH(1) by (auto simp: marked_def)
  show ?case
    using DeleteNode.prems f_m wh_m ord_m lim_m f_n
    by (intro exI [of _ "DeleteNode h f1 ts wh1 ord1 lim1"]) (simp add: marked_def)
next
  case (UpdateNode is_ignore t sets wh ord lim)
  have "\<exists>c1. marked b c c1" if "c \<in> set sets" for c
    using UpdateNode.IH(2) that UpdateNode.prems is_expr_not_null [of sets] by (auto simp: list_all_iff)
  from marked_list [OF this] obtain sets1 where sets_m: "mapR (set_print_sample b) sets = Inr sets1" "list_all well_formed sets1"
    "list_all (\<lambda>c. c \<noteq> Nullptr) sets1" "length sets1 = length sets" "list_all is_expr sets \<longrightarrow> list_all is_expr sets1" by blast
  obtain t1 where t_m: "(if t = Nullptr then Inr Nullptr else set_print_sample b t) = Inr t1" "well_formed t1"
    using marked_optional [of t b] UpdateNode.IH(1) UpdateNode.prems by auto
  obtain wh1 where wh_m: "(if wh = Nullptr then Inr Nullptr else set_print_sample b wh) = Inr wh1" "well_formed wh1"
    using marked_optional [of wh b] UpdateNode.IH(3) UpdateNode.prems by auto
  obtain ord1 where ord_m: "(if ord = Nullptr then Inr Nullptr else set_print_sample b ord) = Inr ord1" "well_formed ord1"
    using marked_optional [of ord b] UpdateNode.IH(4) UpdateNode.prems by auto
  obtain lim1 where lim_m: "(if lim = Nullptr then Inr Nullptr else set_print_sample b lim) = Inr lim1" "well_formed lim1"
    using marked_optional [of lim b] UpdateNode.IH(5) UpdateNode.prems by auto
  show ?case
    using UpdateNode.prems sets_m t_m wh_m ord_m lim_m
    by (intro exI [of _ "UpdateNode is_ignore t1 sets1 wh1 ord1 lim1"]) (simp add: marked_def)
next
  case (SelectNode h fs t wh gr hav ord lim)
  have "\<exists>c1. marked b c c1" if "c \<in> set fs" for c
    using SelectNode.IH(1) that SelectNode.prems is_expr_not_null [of fs] by (auto simp: list_all_iff)
  from marked_list [OF this] obtain fs1 where fs_m: "mapR (set_print_sample b) fs = Inr fs1" "list_all well_formed fs1"
    "list_all (\<lambda>c. c \<noteq> Nullptr) fs1" "length fs1 = length fs" "list_all is_expr fs \<longrightarrow> list_all is_expr fs1" by blast
  obtain t1 where t_m: "(if t = Nullptr then Inr Nullptr else set_print_sample b t) = Inr t1" "well_formed t1"
    using marked_optional [of t b] SelectNode.IH(2) SelectNode.prems by auto
  obtain wh1 where wh_m: "(if wh = Nullptr then Inr Nullptr else set_print_sample b wh) = Inr wh1" "well_formed wh1"
    using marked_optional [of wh b] SelectNode.IH(3) SelectNode.prems by auto
  obtain gr1 where gr_m: "(if gr = Nullptr then Inr Nullptr else set_print_sample b gr) = Inr gr1" "well_formed gr1"
    using marked_optional [of gr b] SelectNode.IH(4) SelectNode.prems by auto
  obtain hav1 where hav_m: "(if hav = Nullptr then Inr Nullptr else set_print_sample b hav) = Inr hav1" "well_formed hav1"
    using marked_optional [of hav b] SelectNode.IH(5) SelectNode.prems by auto
  obtain ord1 where ord_m: "(if ord = Nullptr then Inr Nullptr else set_print_sample b ord) = Inr ord1" "well_formed ord1"
    using marked_optional [of ord b] SelectNode.IH(6) SelectNode.prems by auto
  obtain lim1 where lim_m: "(if lim = Nullptr then Inr Nullptr else set_print_sample b lim) = Inr lim1" "well_formed lim1"
    using marked_optional [of lim b] SelectNode.IH(7) SelectNode.prems by auto
  show ?case
    using SelectNode.prems fs_m t_m wh_m gr_m hav_m ord_m lim_m
    by (intro exI [of _ "SelectNode h fs1 t1 wh1 gr1 hav1 ord1 lim1"]) (simp add: marked_def)
next
  case (UnionNode h ss ord lim)
  have "\<exists>c1. marked b c c1" if "c \<in> set ss" for c
    using UnionNode.IH(1) that UnionNode.prems is_expr_not_null [of ss] by (auto simp: list_all_iff)
  from marked_list [OF this] obtain ss1 where ss_m: "mapR (set_print_sample b) ss = Inr ss1" "list_all well_formed ss1"
    "list_all (\<lambda>c. c \<noteq> Nullptr) ss1" "length ss1 = length ss" "list_all is_expr ss \<longrightarrow> list_all is_expr ss1" by blast
  show ?case
    using UnionNode.prems ss_m
    by (intro exI [of _ "UnionNode h ss1 ord lim"]) (simp add: marked_def)
next
  case (InsertNode h q ls ds)
  have "\<exists>c1. marked b c c1" if "c \<in> set ls" for c
    using InsertNode.IH(2) that InsertNode.prems is_expr_not_null [of ls] by (auto simp: list_all_iff)
  from marked_list [OF this] obtain ls1 where ls_m: "mapR (set_print_sample b) ls = Inr ls1" "list_all well_formed ls1"
    "list_all (\<lambda>c. c \<noteq> Nullptr) ls1" "length ls1 = length ls" "list_all is_expr ls \<longrightarrow> list_all is_expr ls1" by blast
  have "\<exists>c1. marked b c c1" if "c \<in> set ds" for c
    using InsertNode.IH(3) that InsertNode.prems is_expr_not_null [of ds] by (auto simp: list_all_iff)
  from marked_list [OF this] obtain ds1 where ds_m: "mapR (set_print_sample b) ds = Inr ds1" "list_all well_formed ds1"
    "list_all (\<lambda>c. c \<noteq> Nullptr) ds1" "length ds1 = length ds" "list_all is_expr ds \<longrightarrow> list_all is_expr ds1" by blast
  obtain q1 where q_m: "(if q = Nullptr then Inr Nullptr else set_print_sample b q) = Inr q1" "well_formed q1"
    using marked_optional [of q b] InsertNode.IH(1) InsertNode.prems by auto
  show ?case
    using InsertNode.prems ls_m ds_m q_m
    by (intro exI [of _ "InsertNode (h\<lparr>in_print_sample := b\<rparr>) q1 ls1 ds1"]) (simp add: marked_def)
qed (auto simp: ex_marked)

text \<open>C37: A well formed tree is printed, and takes the flag, without a fault: no null pointer is
  dereferenced and no argument is missing, whatever the nesting, and the tree with the flag is
  well formed again, so that it is printed without a fault as well.\<close>

theorem well_formed_tree_prints:
  assumes "well_formed n" "n \<noteq> Nullptr"
  shows "\<exists>n1 text text1. to_stream pd n = Inr text \<and> set_print_sample b n = Inr n1 \<and> well_formed n1 \<and>
    to_stream pd n1 = Inr text1"
  using well_formed_marked [OF assms] well_formed_prints [OF assms(1), of pd] well_formed_prints [of _ pd]
  unfolding marked_def defined_def by blast

theorem well_formed_tree_prints_witness:
  "\<exists>n1 text text1. to_stream (\<lambda>_. []) (new_binary_op_node FT_ADD (LiteralNode False (LT_INT 1)) (LiteralNode False LT_NULL)) = Inr text \<and>
    set_print_sample True (new_binary_op_node FT_ADD (LiteralNode False (LT_INT 1)) (LiteralNode False LT_NULL)) = Inr n1 \<and>
    well_formed n1 \<and> to_stream (\<lambda>_. []) n1 = Inr text1"
  by (rule well_formed_tree_prints) (simp_all add: new_binary_op_node_def new_op_node_def arity_def is_expr_def)

text \<open>Not every tree the parser makes is well formed. \<open>TRIM (LEADING FROM s)\<close> has a null pointer
  among its arguments: it is printed, with nothing between two commas, but giving it the flag or
  asking whether it is complex dereferences the null pointer.\<close>

definition trim_leading :: "node \<Rightarrow> node \<Rightarrow> node" where
  "trim_leading s direction =
     FuncNode \<lparr>fe_print_sample = False, fe_fn_name = ascii ''trim'', fe_func_type = FT_COMMON, fe_is_not = False,
       fe_distinct = False, fe_is_star = False\<rparr> [s, Nullptr, direction]"

lemma trim_without_text_faults:
  "set_print_sample b (trim_leading (ColumnNode c) (LiteralNode False lit)) = Inl Undefined_Behaviour \<and>
   is_complex_node (trim_leading (ColumnNode c) (LiteralNode False lit)) = Inl Undefined_Behaviour \<and>
   (\<exists>text. to_stream pd (trim_leading (ColumnNode c) (LiteralNode False lit)) = Inr text)"
proof -
  have "defined (to_stream pd (trim_leading (ColumnNode c) (LiteralNode False lit)))"
    by (simp add: trim_leading_def FuncExpr_to_stream_def FuncExpr_body_def FuncExpr_call_def shown_arguments_def prints Let_def
      starts_with_def ascii_def c_str_def)
  then show ?thesis by (simp add: trim_leading_def defined_def)
qed

end
