(* ===== verification/Plan.thy ===== *)
theory Plan
  imports Schema BptIterator
begin

text \<open>
  Plans (\<open>sql/plan\<close>) and the expressions in them (\<open>expression/literal_expr.cc\<close>). A plan node is
  an operator with its payload and the nodes it reads from. Costs, identifiers and hashes of nodes
  are constants of the program and left out.
\<close>

section \<open>Expressions\<close>

text \<open>Literals are the only kind of expression node there is.\<close>

datatype expr_node = LiteralExpr expr_value

definition kLiteral :: u8 where "kLiteral = 1"

definition LiteralExpr_HashCode :: "expr_node \<Rightarrow> bytes \<Rightarrow> bytes res" where
  "LiteralExpr_HashCode e hash_code =
     (case e of LiteralExpr v \<Rightarrow>
        if hash_code \<noteq> [] then Inr hash_code
        else let h = snd (EncodeUInt8 kLiteral hash_code) in
          if ev_type v = Null then Inr h else bindR (EncodeExprValue v h) (\<lambda>(_, h1). Inr h1))"

definition LiteralExpr_ToString :: "float_ops \<Rightarrow> expr_node \<Rightarrow> bytes res" where
  "LiteralExpr_ToString fo e = (case e of LiteralExpr v \<Rightarrow> ToString fo v)"

section \<open>Nodes\<close>

text \<open>Pointers to schema objects may be null.\<close>

record RelOptTable =
  rel_schema :: "DatabaseInfo option"
  rel_table :: "TableInfo option"

record TableScan =
  scan_table :: RelOptTable
  primary_ranges :: "index_range list"
  primary_filters :: "expr_node option list"
  table_filters :: "expr_node option list"

record Insert =
  insert_table :: RelOptTable
  expr_nodes :: "expr_node option list list"

datatype RelOptNode =
  LogicalTableScan TableScan | PhysicalTableScan TableScan
| LogicalFilter "expr_node option list" | PhysicalFilter "expr_node option list"
| LogicalResultSet | PhysicalResultSet
| LogicalCreateDatabase RelOptTable | PhysicalCreateDatabase RelOptTable
| LogicalCreateTable RelOptTable | PhysicalCreateTable RelOptTable
| LogicalInsert Insert | PhysicalInsert Insert

datatype RelOptNodeType =
  kLogicalTableScan | kLogicalFilter | kLogicalResultSet | kLogicalCreateDatabase | kLogicalCreateTable
| kLogicalInsert | kPhysicalTableScan | kPhysicalFilter | kPhysicalResultSet | kPhysicalCreateDatabase
| kPhysicalCreateTable | kPhysicalInsert

fun node_type_code :: "RelOptNodeType \<Rightarrow> u32" where
  "node_type_code kLogicalTableScan = 100"
| "node_type_code kLogicalFilter = 101"
| "node_type_code kLogicalResultSet = 102"
| "node_type_code kLogicalCreateDatabase = 103"
| "node_type_code kLogicalCreateTable = 104"
| "node_type_code kLogicalInsert = 105"
| "node_type_code kPhysicalTableScan = 200"
| "node_type_code kPhysicalFilter = 201"
| "node_type_code kPhysicalResultSet = 202"
| "node_type_code kPhysicalCreateDatabase = 203"
| "node_type_code kPhysicalCreateTable = 204"
| "node_type_code kPhysicalInsert = 205"

fun GetType :: "RelOptNode \<Rightarrow> RelOptNodeType" where
  "GetType (LogicalTableScan _) = kLogicalTableScan"
| "GetType (PhysicalTableScan _) = kPhysicalTableScan"
| "GetType (LogicalFilter _) = kLogicalFilter"
| "GetType (PhysicalFilter _) = kPhysicalFilter"
| "GetType LogicalResultSet = kLogicalResultSet"
| "GetType PhysicalResultSet = kPhysicalResultSet"
| "GetType (LogicalCreateDatabase _) = kLogicalCreateDatabase"
| "GetType (PhysicalCreateDatabase _) = kPhysicalCreateDatabase"
| "GetType (LogicalCreateTable _) = kLogicalCreateTable"
| "GetType (PhysicalCreateTable _) = kPhysicalCreateTable"
| "GetType (LogicalInsert _) = kLogicalInsert"
| "GetType (PhysicalInsert _) = kPhysicalInsert"

text \<open>The names; one class has the name of another.\<close>

fun GetName :: "RelOptNode \<Rightarrow> string" where
  "GetName (LogicalTableScan _) = ''LogicalTableScan''"
| "GetName (PhysicalTableScan _) = ''PhysicalTableScan''"
| "GetName (LogicalFilter _) = ''LogicalFilter''"
| "GetName (PhysicalFilter _) = ''PhysicalFilter''"
| "GetName LogicalResultSet = ''LogicalResultSet''"
| "GetName PhysicalResultSet = ''PhysicalResultSet''"
| "GetName (LogicalCreateDatabase _) = ''LogicalCreateDatabase''"
| "GetName (PhysicalCreateDatabase _) = ''PhysicalCreateDatabase''"
| "GetName (LogicalCreateTable _) = ''LogicalCreateTable''"
| "GetName (PhysicalCreateTable _) = ''PhysicalTableScan''"
| "GetName (LogicalInsert _) = ''LogicalInsert''"
| "GetName (PhysicalInsert _) = ''PhysicalInsert''"

definition IsLogical :: "RelOptNode \<Rightarrow> bool" where
  "IsLogical n \<longleftrightarrow> 100 \<le> node_type_code (GetType n) \<and> node_type_code (GetType n) < 200"

definition IsPhysical :: "RelOptNode \<Rightarrow> bool" where
  "IsPhysical n \<longleftrightarrow> 200 \<le> node_type_code (GetType n) \<and> node_type_code (GetType n) < 300"

datatype plan = RelNode RelOptNode "plan list"

fun plan_op :: "plan \<Rightarrow> RelOptNode" where "plan_op (RelNode n _) = n"
fun GetInputs :: "plan \<Rightarrow> plan list" where "GetInputs (RelNode _ ps) = ps"

end
