(* ===== verification/Cascades.thy ===== *)
theory Cascades
  imports Plan
begin

text \<open>
  The optimizer (\<open>sql/optimizer\<close>): the memo of groups of equivalent expressions
  (\<open>cascades/memo.cc\<close>), the rules (\<open>rules\<close>), the tasks (\<open>cascades/*_task.cc\<close>), the stack on
  which they are run (\<open>cascades/cascades.cc\<close>) and \<open>BuildPlan\<close> (\<open>planner.cc\<close>).

  A node in the memo is its operator; the inputs of a logical node are not looked at again once
  the memo is initialized, those of a physical node are place holders of groups. Deleting these
  when the best plan is put together is taken to have no effect but to free them. The map from
  memo nodes to expression ids is only written to and left out, as is logging.
\<close>

section \<open>Costs\<close>

text \<open>Costs are doubles, given by their bits; arithmetic on them is an argument.\<close>

record double_ops =
  d_add :: "u64 \<Rightarrow> u64 \<Rightarrow> u64"
  d_less :: "u64 \<Rightarrow> u64 \<Rightarrow> bool"

record Cost =
  cpu_cost :: u64
  mem_cost :: u64
  network_cost :: u64
  disk_cost :: u64

definition EstimateCost :: "double_ops \<Rightarrow> Cost \<Rightarrow> u64" where
  "EstimateCost D c = d_add D (d_add D (d_add D (cpu_cost c) (mem_cost c)) (network_cost c)) (disk_cost c)"

definition Cost_greater :: "double_ops \<Rightarrow> Cost \<Rightarrow> Cost \<Rightarrow> bool" where
  "Cost_greater D c1 c2 = d_less D (EstimateCost D c2) (EstimateCost D c1)"

definition Cost_Zero :: Cost where
  "Cost_Zero = \<lparr>cpu_cost = 0, mem_cost = 0, network_cost = 0, disk_cost = 0\<rparr>"

definition Cost_Accumulate :: "double_ops \<Rightarrow> Cost \<Rightarrow> Cost \<Rightarrow> Cost" where
  "Cost_Accumulate D total_cost cost =
     \<lparr>cpu_cost = d_add D (cpu_cost total_cost) (cpu_cost cost), mem_cost = d_add D (mem_cost total_cost) (mem_cost cost),
      network_cost = d_add D (network_cost total_cost) (network_cost cost),
      disk_cost = d_add D (disk_cost total_cost) (disk_cost cost)\<rparr>"

definition Cost_Sum :: "double_ops \<Rightarrow> Cost \<Rightarrow> Cost list \<Rightarrow> Cost" where
  "Cost_Sum D cost costs = foldl (Cost_Accumulate D) cost costs"

section \<open>The memo\<close>

record RelMemoNode =
  memo_node :: RelOptNode
  memo_children :: "u64 list"

record Winner =
  impossible :: bool
  win_expr :: u64
  win_cost :: Cost

text \<open>The set of the expressions of a group is only read in sorted order.\<close>

record Group =
  group_exprs :: "u64 list"
  winner :: "Winner option"

record Memo =
  expr_group :: "u64 \<rightharpoonup> u64"
  expr_nodes :: "u64 \<rightharpoonup> RelMemoNode"
  groups :: "u64 \<rightharpoonup> Group"
  merged_groups :: "u64 \<rightharpoonup> u64"
  group_expr_counter :: u64

definition Memo_new :: Memo where
  "Memo_new = \<lparr>expr_group = Map.empty, expr_nodes = Map.empty, groups = Map.empty, merged_groups = Map.empty,
     group_expr_counter = 0\<rparr>"

text \<open>Expressions and groups are numbered from one counter.\<close>

definition NextId :: "Memo \<Rightarrow> u64 \<times> Memo" where
  "NextId m = (group_expr_counter m + 1, m\<lparr>group_expr_counter := group_expr_counter m + 1\<rparr>)"

definition GetReduceGroupId :: "u64 \<Rightarrow> Memo \<Rightarrow> u64" where
  "GetReduceGroupId g m = (case merged_groups m g of Some g1 \<Rightarrow> g1 | None \<Rightarrow> g)"

definition GetAllExprsInGroup :: "u64 \<Rightarrow> Memo \<Rightarrow> u64 list" where
  "GetAllExprsInGroup g m =
     (case groups m (GetReduceGroupId g m) of None \<Rightarrow> [] | Some gr \<Rightarrow> sort (group_exprs gr))"

definition GetGroupId :: "u64 \<Rightarrow> Memo \<Rightarrow> u64 option" where
  "GetGroupId e m = (case expr_group m e of None \<Rightarrow> None | Some g \<Rightarrow> Some (GetReduceGroupId g m))"

text \<open>Looking up a group that is not there puts an empty one into the map.\<close>

definition GetGroupInfo :: "u64 \<Rightarrow> Memo \<Rightarrow> Winner option \<times> Memo" where
  "GetGroupInfo g m =
     (let r = GetReduceGroupId g m in
      case groups m r of
        Some gr \<Rightarrow> (winner gr, m)
      | None \<Rightarrow> (None, m\<lparr>groups := (groups m)(r \<mapsto> \<lparr>group_exprs = [], winner = None\<rparr>)\<rparr>))"

definition UpdateGroupInfo :: "u64 \<Rightarrow> Winner option \<Rightarrow> Memo \<Rightarrow> Memo" where
  "UpdateGroupInfo g info m =
     (let r = GetReduceGroupId g m in
      m\<lparr>groups := (groups m)(r \<mapsto> \<lparr>group_exprs = (case groups m r of Some gr \<Rightarrow> group_exprs gr | None \<Rightarrow> []), winner = info\<rparr>)\<rparr>)"

text \<open>A node that is not there is a null pointer, which every caller dereferences.\<close>

definition GetExprMemoNode :: "u64 \<Rightarrow> Memo \<Rightarrow> RelMemoNode res" where
  "GetExprMemoNode e m = (case expr_nodes m e of None \<Rightarrow> Inl Undefined_Behaviour | Some n \<Rightarrow> Inr n)"

definition addExprToGroup :: "u64 \<Rightarrow> u64 \<Rightarrow> Memo \<Rightarrow> Memo" where
  "addExprToGroup e g m =
     (case groups m g of
        Some gr \<Rightarrow> m\<lparr>groups := (groups m)(g \<mapsto> gr\<lparr>group_exprs := List.insert e (group_exprs gr)\<rparr>)\<rparr>
      | None \<Rightarrow> m\<lparr>groups := (groups m)(g \<mapsto> \<lparr>group_exprs = [e], winner = None\<rparr>)\<rparr>)"

text \<open>Entering a node into the tables: \<open>insert\<close> keeps what is there.\<close>

definition new_entry :: "'k \<Rightarrow> 'v \<Rightarrow> ('k \<rightharpoonup> 'v) \<Rightarrow> ('k \<rightharpoonup> 'v)" where
  "new_entry k v m = (if m k = None then m(k \<mapsto> v) else m)"

definition enter_node :: "u64 \<Rightarrow> u64 \<Rightarrow> RelMemoNode \<Rightarrow> Memo \<Rightarrow> Memo" where
  "enter_node e g n m =
     addExprToGroup e g (m\<lparr>expr_nodes := new_entry e n (expr_nodes m), expr_group := new_entry e g (expr_group m)\<rparr>)"

fun InitMemo :: "plan \<Rightarrow> Memo \<Rightarrow> (u64 \<times> u64) \<times> Memo"
and InitInputs :: "plan list \<Rightarrow> Memo \<Rightarrow> u64 list \<times> Memo" where
  "InitMemo (RelNode op ps) m =
     (let (cs, m1) = InitInputs ps m; (e, m2) = NextId m1; (g, m3) = NextId m2
      in ((g, e), enter_node e g \<lparr>memo_node = op, memo_children = cs\<rparr> m3))"
| "InitInputs [] m = ([], m)"
| "InitInputs (p # ps) m =
     (let ((g, _), m1) = InitMemo p m; (gs, m2) = InitInputs ps m1 in (g # gs, m2))"

text \<open>A place holder of a node or, without one, of a group.\<close>

datatype placeholder = PlaceHolder "RelOptNode option" u64 "placeholder list"

fun holder_groups :: "placeholder list \<Rightarrow> u64 list" where
  "holder_groups [] = []"
| "holder_groups (PlaceHolder None g _ # hs) = g # holder_groups hs"
| "holder_groups (PlaceHolder (Some _) g _ # hs) = holder_groups hs"

definition AddNewGroupExpr :: "RelOptNode \<Rightarrow> placeholder list \<Rightarrow> u64 option \<Rightarrow> Memo \<Rightarrow> (u64 \<times> u64) \<times> Memo" where
  "AddNewGroupExpr node holders gid m =
     (case gid of
        None \<Rightarrow> ((0, 0), m)
      | Some g0 \<Rightarrow>
          let g = GetReduceGroupId g0 m; (e, m1) = NextId m
          in ((g, e), enter_node e g \<lparr>memo_node = node, memo_children = holder_groups holders\<rparr> m1))"

text \<open>The best plan of a group. A group without a winner has none to dereference.\<close>

function getBestGroupBind :: "nat \<Rightarrow> u64 \<Rightarrow> Memo \<Rightarrow> (plan \<times> Memo) res"
and bind_children :: "nat \<Rightarrow> u64 list \<Rightarrow> Memo \<Rightarrow> (plan list \<times> Memo) res" where
  "getBestGroupBind fuel g m =
     (case fuel of
        0 \<Rightarrow> Inl Diverges
      | Suc fuel1 \<Rightarrow>
        (let (w, m1) = GetGroupInfo g m in
         case w of
           None \<Rightarrow> Inl Undefined_Behaviour
         | Some win \<Rightarrow>
             bindR (GetExprMemoNode (win_expr win) m1) (\<lambda>n.
             bindR (bind_children fuel1 (memo_children n) m1) (\<lambda>(ps, m2). Inr (RelNode (memo_node n) ps, m2)))))"
| "bind_children fuel [] m = Inr ([], m)"
| "bind_children fuel (g # gs) m =
     bindR (getBestGroupBind fuel g m) (\<lambda>(p, m1). bindR (bind_children fuel gs m1) (\<lambda>(ps, m2). Inr (p # ps, m2)))"
  by pat_completeness auto
termination
  by (relation "measures [case_sum (\<lambda>(n, _, _). n) (\<lambda>(n, _, _). n), case_sum (\<lambda>_. 0) (\<lambda>(_, gs, _). Suc (length gs))]") auto

declare getBestGroupBind.simps [simp del]

section \<open>Rules\<close>

datatype RuleMatcher =
  MatchAndPickNode nat "RuleMatcher list" RelOptNodeType
| MatchNode "RuleMatcher list" RelOptNodeType
| PickOne nat bool
| PickMany nat
| IgnoreOne
| IgnoreMany

datatype rule = EnumerableResultSetRule | EnumerableFilterRule | EnumerableTableScanRule

definition InitCascadesRules :: "rule list" where
  "InitCascadesRules = [EnumerableResultSetRule, EnumerableFilterRule, EnumerableTableScanRule]"

fun Matcher :: "rule \<Rightarrow> RuleMatcher" where
  "Matcher EnumerableResultSetRule = MatchAndPickNode 0 [IgnoreMany] kLogicalResultSet"
| "Matcher EnumerableFilterRule = MatchAndPickNode 0 [IgnoreMany] kLogicalFilter"
| "Matcher EnumerableTableScanRule = MatchAndPickNode 0 [IgnoreMany] kLogicalTableScan"

text \<open>The node is cast to the class the rule expects; the cast of another is null.\<close>

fun Apply :: "rule \<Rightarrow> RelOptNode option \<Rightarrow> RelOptNode res" where
  "Apply EnumerableResultSetRule _ = Inr PhysicalResultSet"
| "Apply EnumerableFilterRule (Some (LogicalFilter conds)) = Inr (PhysicalFilter conds)"
| "Apply EnumerableTableScanRule (Some (LogicalTableScan sc)) = Inr (PhysicalTableScan sc)"
| "Apply _ _ = Inl Undefined_Behaviour"

definition TopMatches :: "RuleMatcher \<Rightarrow> RelOptNode \<Rightarrow> bool" where
  "TopMatches matcher node =
     (case matcher of
        MatchAndPickNode _ _ ty \<Rightarrow> ty = GetType node
      | MatchNode _ ty \<Rightarrow> ty = GetType node
      | _ \<Rightarrow> False)"

definition picked_root :: "RelMemoNode \<Rightarrow> placeholder" where
  "picked_root n = PlaceHolder (Some (memo_node n)) 0 (map (\<lambda>g. PlaceHolder None g []) (memo_children n))"

fun MatchAndPick :: "Memo \<Rightarrow> RelMemoNode \<Rightarrow> RuleMatcher \<Rightarrow> placeholder list res"
and MatchNodeInner :: "Memo \<Rightarrow> RelMemoNode \<Rightarrow> nat \<Rightarrow> RuleMatcher list \<Rightarrow> placeholder list res" where
  "MatchAndPick m n (MatchAndPickNode _ cs ty) =
     (if GetType (memo_node n) \<noteq> ty then Inr []
      else bindR (MatchNodeInner m n 0 cs) (\<lambda>picks. Inr (picks @ [picked_root n])))"
| "MatchAndPick m n (MatchNode cs ty) =
     (if GetType (memo_node n) \<noteq> ty then Inr [] else MatchNodeInner m n 0 cs)"
| "MatchAndPick m n _ = Inr []"
| "MatchNodeInner m n i [] = Inr []"
| "MatchNodeInner m n i (c # cs) =
     (if c = IgnoreOne \<or> c = IgnoreMany \<or> (\<exists>p. c = PickMany p) then MatchNodeInner m n (Suc i) cs
      else if length (memo_children n) \<le> i then Inl Undefined_Behaviour
      else if \<exists>p x. c = PickOne p x then MatchNodeInner m n (Suc i) cs
      else bindR (mapR (\<lambda>e. bindR (GetExprMemoNode e m) (\<lambda>n1. MatchAndPick m n1 c))
                   (GetAllExprsInGroup (memo_children n ! i) m)) (\<lambda>new_picks.
           bindR (MatchNodeInner m n (Suc i) cs) (\<lambda>rest. Inr (concat new_picks @ rest))))"

section \<open>Tasks\<close>

record ContinueTask =
  next_group_idx :: nat
  input_cost :: "Cost list"
  return_from_optimize_group :: bool

datatype task =
  OptimizeGroupTask u64
| OptimizeExprTask u64 bool
| ExploreGroupTask u64
| ApplyRuleTask nat u64 bool
| OptimizeInputsTask u64 "ContinueTask option" bool

record cascades =
  memo :: Memo
  rules :: "rule list"
  fired_rules :: "u64 \<rightharpoonup> nat list"
  disable_rules :: "nat list"
  explored_group :: "u64 list"

definition Cascades :: cascades where
  "Cascades = \<lparr>memo = Memo_new, rules = InitCascadesRules, fired_rules = Map.empty, disable_rules = [], explored_group = []\<rparr>"

definition IsRuleFired :: "u64 \<Rightarrow> nat \<Rightarrow> cascades \<Rightarrow> bool" where
  "IsRuleFired e r st = (case fired_rules st e of None \<Rightarrow> False | Some rs \<Rightarrow> r \<in> set rs)"

definition MarkRuleFired :: "u64 \<Rightarrow> nat \<Rightarrow> cascades \<Rightarrow> cascades" where
  "MarkRuleFired e r st =
     st\<lparr>fired_rules := (fired_rules st)(e \<mapsto> List.insert r (case fired_rules st e of None \<Rightarrow> [] | Some rs \<Rightarrow> rs))\<rparr>"

definition IsGroupExplored :: "u64 \<Rightarrow> cascades \<Rightarrow> bool" where "IsGroupExplored g st \<longleftrightarrow> g \<in> set (explored_group st)"
definition MarkGroupExplored :: "u64 \<Rightarrow> cascades \<Rightarrow> cascades" where
  "MarkGroupExplored g st = st\<lparr>explored_group := List.insert g (explored_group st)\<rparr>"
definition IsRuleDisabled :: "nat \<Rightarrow> cascades \<Rightarrow> bool" where "IsRuleDisabled r st \<longleftrightarrow> r \<in> set (disable_rules st)"

text \<open>\<open>OptimizeGroupTask::execute\<close>: the logical expressions of the group first, then the physical ones.\<close>

definition execute_group :: "u64 \<Rightarrow> cascades \<Rightarrow> (task list \<times> cascades) res" where
  "execute_group g st =
     (let (info, m1) = GetGroupInfo g (memo st); st1 = st\<lparr>memo := m1\<rparr> in
      if info \<noteq> None then Inr ([], st1)
      else let es = GetAllExprsInGroup g m1 in
        bindR (mapR (\<lambda>e. bindR (GetExprMemoNode e m1) (\<lambda>n. Inr (e, memo_node n))) es) (\<lambda>ns.
          Inr (map (\<lambda>(e, n). OptimizeExprTask e False) (filter (\<lambda>(e, n). IsLogical n) ns) @
               map (\<lambda>(e, n). OptimizeInputsTask e None True) (filter (\<lambda>(e, n). IsPhysical n) ns), st1)))"

text \<open>\<open>OptimizeExprTask::execute\<close>, whose loop over the rules skips every rule while exploring.\<close>

definition rule_tasks :: "u64 \<Rightarrow> bool \<Rightarrow> RelMemoNode \<Rightarrow> cascades \<Rightarrow> nat \<times> rule \<Rightarrow> task list" where
  "rule_tasks e exploring n st ir =
     (case ir of (i, r) \<Rightarrow>
        if IsRuleFired e i st \<or> exploring then []
        else if TopMatches (Matcher r) (memo_node n)
             then ApplyRuleTask i e exploring # map ExploreGroupTask (memo_children n) else [])"

definition execute_expr :: "u64 \<Rightarrow> bool \<Rightarrow> cascades \<Rightarrow> (task list \<times> cascades) res" where
  "execute_expr e exploring st =
     bindR (GetExprMemoNode e (memo st)) (\<lambda>n.
       Inr (concat (map (rule_tasks e exploring n st) (zip [0..<length (rules st)] (rules st))), st))"

definition execute_explore :: "u64 \<Rightarrow> cascades \<Rightarrow> (task list \<times> cascades) res" where
  "execute_explore g st =
     (if IsGroupExplored g st then Inr ([], st)
      else bindR (mapR (\<lambda>e. bindR (GetExprMemoNode e (memo st)) (\<lambda>n. Inr (e, memo_node n)))
                   (GetAllExprsInGroup g (memo st))) (\<lambda>ns.
        Inr (map (\<lambda>(e, n). OptimizeExprTask e True) (filter (\<lambda>(e, n). IsLogical n) ns), MarkGroupExplored g st)))"

text \<open>The loop of \<open>ApplyRuleTask::execute\<close> over the bindings.\<close>

fun apply_bindings :: "rule \<Rightarrow> u64 \<Rightarrow> bool \<Rightarrow> placeholder list \<Rightarrow> cascades \<Rightarrow> (task list \<times> cascades) res" where
  "apply_bindings r g exploring [] st = Inr ([], st)"
| "apply_bindings r g exploring (PlaceHolder node _ holders # bs) st =
     bindR (Apply r node) (\<lambda>applied.
       let ((_, e1), m1) = AddNewGroupExpr applied holders (Some g) (memo st);
           t = (if IsLogical applied then OptimizeExprTask e1 exploring else OptimizeInputsTask e1 None True)
       in bindR (apply_bindings r g exploring bs (st\<lparr>memo := m1\<rparr>)) (\<lambda>(ts, st2). Inr (t # ts, st2)))"

definition execute_apply :: "nat \<Rightarrow> u64 \<Rightarrow> bool \<Rightarrow> cascades \<Rightarrow> (task list \<times> cascades) res" where
  "execute_apply i e exploring st =
     (if IsRuleFired e i st then Inr ([], st)
      else if IsRuleDisabled i st then Inr ([], MarkRuleFired e i st)
      else if length (rules st) \<le> i then Inl Undefined_Behaviour
      else case GetGroupId e (memo st) of
             None \<Rightarrow> Inl Std_Exception
           | Some g \<Rightarrow>
               bindR (GetExprMemoNode e (memo st)) (\<lambda>n.
               bindR (MatchAndPick (memo st) n (Matcher (rules st ! i))) (\<lambda>bs.
               bindR (apply_bindings (rules st ! i) g exploring bs st) (\<lambda>(ts, st1). Inr (ts, MarkRuleFired e i st1)))))"

text \<open>\<open>OptimizeInputsTask::execute\<close>. Only the winner that is possible counts as a cost of an input.\<close>

definition full_winner :: "Winner option \<Rightarrow> bool" where
  "full_winner w = (case w of None \<Rightarrow> False | Some x \<Rightarrow> \<not> impossible x)"

fun FirstInvoke :: "u64 list \<Rightarrow> Memo \<Rightarrow> Cost list \<times> Memo" where
  "FirstInvoke [] m = ([], m)"
| "FirstInvoke (g # gs) m =
     (let (w, m1) = GetGroupInfo g m; (costs, m2) = FirstInvoke gs m1
      in ((if full_winner w then win_cost (the w) else Cost_Zero) # costs, m2))"

definition IsUpdateWinner :: "double_ops \<Rightarrow> Cost \<Rightarrow> Winner option \<Rightarrow> bool" where
  "IsUpdateWinner D cost_so_far w =
     (case w of None \<Rightarrow> True | Some x \<Rightarrow> impossible x \<or> Cost_greater D (win_cost x) cost_so_far)"

definition execute_inputs :: "double_ops \<Rightarrow> u64 \<Rightarrow> ContinueTask option \<Rightarrow> bool \<Rightarrow> cascades \<Rightarrow> (task list \<times> cascades) res" where
  "execute_inputs D e cont pruning st =
     bindR (GetExprMemoNode e (memo st)) (\<lambda>n. let cs = memo_children n in
       case cont of
         None \<Rightarrow>
           let (costs, m1) = FirstInvoke cs (memo st)
           in Inr ([OptimizeInputsTask e (Some \<lparr>next_group_idx = 0, input_cost = costs, return_from_optimize_group = False\<rparr>) pruning],
                   st\<lparr>memo := m1\<rparr>)
       | Some c \<Rightarrow>
           if next_group_idx c < length cs then
             let g = cs ! next_group_idx c; (w, m1) = GetGroupInfo g (memo st); st1 = st\<lparr>memo := m1\<rparr> in
             if \<not> full_winner w \<and> \<not> return_from_optimize_group c
             then Inr ([OptimizeInputsTask e (Some (c\<lparr>return_from_optimize_group := True\<rparr>)) pruning, OptimizeGroupTask g], st1)
             else Inr ([OptimizeInputsTask e (Some (c\<lparr>next_group_idx := next_group_idx c + 1, return_from_optimize_group := False\<rparr>)) pruning], st1)
           else
             (case GetGroupId e (memo st) of
                None \<Rightarrow> Inl Std_Exception
              | Some g \<Rightarrow>
                  let cost_so_far = Cost_Sum D Cost_Zero (input_cost c); (w, m1) = GetGroupInfo g (memo st) in
                  Inr ([], st\<lparr>memo := (if IsUpdateWinner D cost_so_far w
                      then UpdateGroupInfo g (Some \<lparr>impossible = False, win_expr = e, win_cost = cost_so_far\<rparr>) m1 else m1)\<rparr>)))"

fun execute :: "double_ops \<Rightarrow> task \<Rightarrow> cascades \<Rightarrow> (task list \<times> cascades) res" where
  "execute D (OptimizeGroupTask g) st = execute_group g st"
| "execute D (OptimizeExprTask e exploring) st = execute_expr e exploring st"
| "execute D (ExploreGroupTask g) st = execute_explore g st"
| "execute D (ApplyRuleTask i e exploring) st = execute_apply i e exploring st"
| "execute D (OptimizeInputsTask e cont pruning) st = execute_inputs D e cont pruning st"

text \<open>The stack of tasks, its top in front: the tasks that a task returns are pushed in their order, so
  the last one is on top. The number of tasks that are run is bounded by the fuel.\<close>

fun fireOptimizeTask :: "double_ops \<Rightarrow> nat \<Rightarrow> task list \<Rightarrow> cascades \<Rightarrow> cascades res" where
  "fireOptimizeTask D fuel [] st = Inr st"
| "fireOptimizeTask D 0 (t # ts) st = Inl Diverges"
| "fireOptimizeTask D (Suc fuel) (t # ts) st =
     bindR (execute D t st) (\<lambda>(new, st1). fireOptimizeTask D fuel (rev new @ ts) st1)"

definition GetBestPlan :: "nat \<Rightarrow> u64 \<Rightarrow> Memo \<Rightarrow> (plan \<times> Memo) res" where
  "GetBestPlan fuel g m = getBestGroupBind fuel g m"

definition FindBestExp :: "double_ops \<Rightarrow> nat \<Rightarrow> plan \<Rightarrow> plan res" where
  "FindBestExp D fuel logical_plan =
     (let ((g, _), m) = InitMemo logical_plan (memo Cascades) in
      bindR (fireOptimizeTask D fuel [OptimizeGroupTask g] (Cascades\<lparr>memo := m\<rparr>)) (\<lambda>st.
      bindR (GetBestPlan fuel g (memo st)) (\<lambda>(p, _). Inr p)))"

section \<open>Building the physical plan\<close>

text \<open>The nodes of the other statements are converted without their inputs, of which they have none;
  a null plan is dereferenced when it is executed.\<close>

definition ToPhysicalNode :: "RelOptNode \<Rightarrow> plan option" where
  "ToPhysicalNode logical =
     (case logical of
        LogicalCreateDatabase t \<Rightarrow> Some (RelNode (PhysicalCreateDatabase t) [])
      | LogicalCreateTable t \<Rightarrow> Some (RelNode (PhysicalCreateTable t) [])
      | LogicalInsert i \<Rightarrow> Some (RelNode (PhysicalInsert i) [])
      | _ \<Rightarrow> None)"

definition BuildPlan :: "double_ops \<Rightarrow> nat \<Rightarrow> bool \<Rightarrow> plan \<Rightarrow> plan option res" where
  "BuildPlan D fuel is_select logical_plan =
     (if \<not> is_select then Inr (ToPhysicalNode (plan_op logical_plan))
      else bindR (FindBestExp D fuel logical_plan) (\<lambda>p. Inr (Some p)))"

end
