(* ===== verification/Chunk.thy ===== *)
theory Chunk
  imports ExprValue Codec
begin

text \<open>
  Rows and chunks (\<open>chunk/row_description.cc\<close>, \<open>chunk/column_description.cc\<close>, \<open>chunk/row.cc\<close>,
  \<open>chunk/chunk.cc\<close>, \<open>chunk/iterator.cc\<close>) and the copying of values into and out of the memory of
  a row (\<open>ToData\<close> and \<open>ToExprValue\<close> of \<open>expression/expr_value.cc\<close>).

  The memory of a tuple is a list of bytes; a byte nothing was written to cannot be read. A string
  is kept as the address of a \<open>std::string\<close> object on the heap, whose eight bytes are known only
  as the bytes of that address. The bytes of such an object itself are an argument: they depend on
  the standard library.
\<close>

section \<open>Descriptors\<close>

record ColumnDescriptor =
  desc_type :: ExprValueType
  desc_id :: u32
  bytes_count :: u32
  bytes_offset :: u32

definition ColumnDescriptor :: "ExprValueType \<Rightarrow> u32 \<Rightarrow> ColumnDescriptor" where
  "ColumnDescriptor type i = \<lparr>desc_type = type, desc_id = i, bytes_count = 0, bytes_offset = 0\<rparr>"

record RowDescriptor =
  cols :: "ColumnDescriptor list"
  var_cols :: "ColumnDescriptor list"
  byte_size :: u64
  varlen_data :: bool
  row_id :: u32

definition RowDescriptor :: "u32 \<Rightarrow> RowDescriptor" where
  "RowDescriptor i = \<lparr>cols = [], var_cols = [], byte_size = 0, varlen_data = False, row_id = i\<rparr>"

definition AddColumnDesc :: "ColumnDescriptor \<Rightarrow> RowDescriptor \<Rightarrow> RowDescriptor" where
  "AddColumnDesc c d = d\<lparr>cols := cols d @ [c]\<rparr>"

text \<open>The loop of \<open>InitAllColDesc\<close>, on the running size.\<close>

fun init_cols :: "ColumnDescriptor list \<Rightarrow> u64 \<Rightarrow> ColumnDescriptor list \<times> u64" where
  "init_cols [] bsum = ([], bsum)"
| "init_cols (c # cs) bsum =
     (let n = (ucast (TypeSize (desc_type c)) :: u32);
          (cs1, bsum1) = init_cols cs (bsum + ucast n)
      in (c\<lparr>bytes_count := n, bytes_offset := ucast bsum\<rparr> # cs1, bsum1))"

definition InitAllColDesc :: "RowDescriptor \<Rightarrow> RowDescriptor" where
  "InitAllColDesc d =
     (let (cs, bsum) = init_cols (cols d) 0;
          vars = filter (\<lambda>c. IsVariableSize (desc_type c)) cs
      in d\<lparr>cols := cs, byte_size := bsum, varlen_data := varlen_data d \<or> vars \<noteq> [],
           var_cols := var_cols d @ vars\<rparr>)"

definition GetColumnDesc :: "u32 \<Rightarrow> RowDescriptor \<Rightarrow> ColumnDescriptor res" where
  "GetColumnDesc i d = (if unat i < length (cols d) then Inr (cols d ! unat i) else Inl Std_Exception)"

section \<open>Memory\<close>

datatype mem_byte = Unset | Byte u8 | Str_ptr bytes nat

type_synonym tuple = "mem_byte list"

definition poke :: "nat \<Rightarrow> mem_byte list \<Rightarrow> tuple \<Rightarrow> tuple res" where
  "poke off bs t =
     (if off + length bs \<le> length t then Inr (take off t @ bs @ drop (off + length bs) t)
      else Inl Undefined_Behaviour)"

definition peek :: "nat \<Rightarrow> nat \<Rightarrow> tuple \<Rightarrow> mem_byte list res" where
  "peek off n t = (if off + n \<le> length t then Inr (take n (drop off t)) else Inl Undefined_Behaviour)"

fun byte_of :: "mem_byte \<Rightarrow> u8 res" where
  "byte_of (Byte b) = Inr b"
| "byte_of _ = Inl Undefined_Behaviour"

text \<open>Numbers in the order of the machine, least byte first.\<close>

definition poke_bytes :: "nat \<Rightarrow> bytes \<Rightarrow> tuple \<Rightarrow> tuple res" where
  "poke_bytes off bs t = poke off (map Byte (rev bs)) t"

definition peek_bytes :: "nat \<Rightarrow> nat \<Rightarrow> tuple \<Rightarrow> bytes res" where
  "peek_bytes off n t = bindR (peek off n t) (\<lambda>ms. bindR (mapR byte_of ms) (\<lambda>bs. Inr (rev bs)))"

definition str_ptr :: "bytes \<Rightarrow> mem_byte list" where
  "str_ptr s = map (Str_ptr s) [0..<8]"

definition peek_str :: "nat \<Rightarrow> tuple \<Rightarrow> bytes res" where
  "peek_str off t = bindR (peek off 8 t) (\<lambda>ms.
     case hd ms of
       Str_ptr s _ \<Rightarrow> if ms = str_ptr s then Inr s else Inl Undefined_Behaviour
     | _ \<Rightarrow> Inl Undefined_Behaviour)"

definition ToData :: "expr_value \<Rightarrow> nat \<Rightarrow> tuple \<Rightarrow> tuple res" where
  "ToData v off t =
     (case ev_type v of
        Int8 \<Rightarrow> bindR (Int8Value v) (\<lambda>x. poke_bytes off [x] t)
      | UInt8 \<Rightarrow> bindR (UInt8Value v) (\<lambda>x. poke_bytes off [x] t)
      | Int32 \<Rightarrow> bindR (Int32Value v) (\<lambda>x. poke_bytes off (be32 x) t)
      | UInt32 \<Rightarrow> bindR (UInt32Value v) (\<lambda>x. poke_bytes off (be32 x) t)
      | Int64 \<Rightarrow> bindR (Int64Value v) (\<lambda>x. poke_bytes off (be64 x) t)
      | UInt64 \<Rightarrow> bindR (UInt64Value v) (\<lambda>x. poke_bytes off (be64 x) t)
      | String \<Rightarrow> bindR (StringValue v) (\<lambda>s. bindR (poke off (str_ptr s) t) (\<lambda>t1.
          poke_bytes (off + 8) (be32 (of_nat (length s))) t1))
      | _ \<Rightarrow> Inr t)"

text \<open>The string case reads the bytes of the string object, not those the object points to; it
  reads past the object when the string is longer than the object.\<close>

definition ToExprValue :: "(bytes \<Rightarrow> bytes) \<Rightarrow> nat \<Rightarrow> tuple \<Rightarrow> expr_value \<Rightarrow> expr_value res" where
  "ToExprValue obj off t v =
     (case ev_type v of
        Int8 \<Rightarrow> bindR (peek_bytes off 1 t) (\<lambda>bs. Inr (v\<lparr>ev_u := U8 (hd bs)\<rparr>))
      | UInt8 \<Rightarrow> bindR (peek_bytes off 1 t) (\<lambda>bs. Inr (v\<lparr>ev_u := U8 (hd bs)\<rparr>))
      | Int32 \<Rightarrow> bindR (peek_bytes off 4 t) (\<lambda>bs. Inr (v\<lparr>ev_u := U32 (of_be32 bs)\<rparr>))
      | UInt32 \<Rightarrow> bindR (peek_bytes off 4 t) (\<lambda>bs. Inr (v\<lparr>ev_u := U32 (of_be32 bs)\<rparr>))
      | Int64 \<Rightarrow> bindR (peek_bytes off 8 t) (\<lambda>bs. Inr (v\<lparr>ev_u := U64 (of_be64 bs)\<rparr>))
      | UInt64 \<Rightarrow> bindR (peek_bytes off 8 t) (\<lambda>bs. Inr (v\<lparr>ev_u := U64 (of_be64 bs)\<rparr>))
      | String \<Rightarrow> bindR (peek_str off t) (\<lambda>s. bindR (peek_bytes (off + 8) 4 t) (\<lambda>bs.
          let n = unat (of_be32 bs) in
          if n \<le> unat sizeof_std_string then Inr (v\<lparr>ev_str := Some (take n (obj s))\<rparr>)
          else Inl Undefined_Behaviour))
      | _ \<Rightarrow> Inr v)"

section \<open>Rows\<close>

text \<open>The array of tuples of a row has as many entries as the row has columns; a null entry is a
  tuple that is not allocated yet.\<close>

record Row =
  row_desc :: RowDescriptor
  row_data :: "tuple option list"

definition Row :: "RowDescriptor \<Rightarrow> Row" where
  "Row d = \<lparr>row_desc = d, row_data = replicate (length (cols d)) None\<rparr>"

definition tupleAt :: "u32 \<Rightarrow> Row \<Rightarrow> tuple option res" where
  "tupleAt i r = (if unat i < length (row_data r) then Inr (row_data r ! unat i) else Inl Undefined_Behaviour)"

definition setTuple :: "u32 \<Rightarrow> tuple \<Rightarrow> Row \<Rightarrow> Row" where
  "setTuple i t r = r\<lparr>row_data := (row_data r)[unat i := Some t]\<rparr>"

definition SetColValue :: "u32 \<Rightarrow> u32 \<Rightarrow> expr_value \<Rightarrow> Row \<Rightarrow> (status \<times> Row) res" where
  "SetColValue i c v r =
     bindR (tupleAt i r) (\<lambda>found.
       let t = (case found of None \<Rightarrow> replicate (unat (byte_size (row_desc r))) Unset | Some t \<Rightarrow> t);
           r1 = setTuple i t r in
       bindR (GetColumnDesc c (row_desc r)) (\<lambda>d.
         if ev_type v \<noteq> desc_type d then Inr (C_COLUMN_DESC_ERROR, r1)
         else bindR (ToData v (unat (bytes_offset d)) t) (\<lambda>t1. Inr (C_OK, setTuple i t1 r1))))"

definition GetColValue :: "(bytes \<Rightarrow> bytes) \<Rightarrow> u32 \<Rightarrow> u32 \<Rightarrow> Row \<Rightarrow> expr_value res" where
  "GetColValue obj i c r =
     bindR (tupleAt i r) (\<lambda>found.
       case found of
         None \<Rightarrow> Inr (NewNull Null)
       | Some t \<Rightarrow> bindR (GetColumnDesc c (row_desc r)) (\<lambda>d.
           ToExprValue obj (unat (bytes_offset d)) t (NewEmpty (desc_type d))))"

section \<open>Chunks\<close>

record chunk =
  cursor :: u32
  select :: "Row list"
  chunk_row_desc :: "RowDescriptor option"
  cur_capacity :: u32
  max_capacity :: u32

definition Chunk :: chunk where
  "Chunk = \<lparr>cursor = 0, select = [], chunk_row_desc = None, cur_capacity = 0, max_capacity = 1024\<rparr>"

text \<open>Moving leaves the descriptor of both chunks as it is; the source has no rows afterwards.\<close>

definition Chunk_move :: "chunk \<Rightarrow> chunk \<Rightarrow> chunk \<times> chunk" where
  "Chunk_move this other =
     (this\<lparr>select := select other, cursor := cursor other, cur_capacity := cur_capacity other,
           max_capacity := max_capacity other\<rparr>, other\<lparr>select := []\<rparr>)"

definition Chunk_Size :: "chunk \<Rightarrow> u32" where "Chunk_Size c = of_nat (length (select c))"
definition AddRow :: "Row \<Rightarrow> chunk \<Rightarrow> chunk" where "AddRow r c = c\<lparr>select := select c @ [r]\<rparr>"
definition ResetCursor :: "chunk \<Rightarrow> chunk" where "ResetCursor c = c\<lparr>cursor := 0\<rparr>"
definition Chunk_Next :: "chunk \<Rightarrow> chunk" where "Chunk_Next c = c\<lparr>cursor := cursor c + 1\<rparr>"
definition ReachEnd :: "chunk \<Rightarrow> bool" where "ReachEnd c \<longleftrightarrow> length (select c) \<le> unat (cursor c)"
definition CurrentRow :: "chunk \<Rightarrow> Row res" where
  "CurrentRow c = (if unat (cursor c) < length (select c) then Inr (select c ! unat (cursor c)) else Inl Std_Exception)"
definition SetRowDesc :: "RowDescriptor \<Rightarrow> chunk \<Rightarrow> chunk" where "SetRowDesc d c = c\<lparr>chunk_row_desc := Some d\<rparr>"

text \<open>The iterator over a chunk is a position.\<close>

definition Iterator_HasNext :: "chunk \<Rightarrow> nat \<Rightarrow> bool" where "Iterator_HasNext c i \<longleftrightarrow> i < length (select c)"
definition Iterator_GetRow :: "chunk \<Rightarrow> nat \<Rightarrow> Row res" where
  "Iterator_GetRow c i = (if i < length (select c) then Inr (select c ! i) else Inl Std_Exception)"

text \<open>The loop \<open>for (itr.Open(); itr.HasNext(); itr.Next())\<close> that collects a result for every row.\<close>

function for_rows :: "(Row \<Rightarrow> 'a res) \<Rightarrow> chunk \<Rightarrow> nat \<Rightarrow> 'a list res" where
  "for_rows f c i =
     (if Iterator_HasNext c i then
        bindR (Iterator_GetRow c i) (\<lambda>r. bindR (f r) (\<lambda>x. bindR (for_rows f c (Suc i)) (\<lambda>xs. Inr (x # xs))))
      else Inr [])"
  by pat_completeness auto

termination for_rows
  by (relation "measure (\<lambda>(_, c, i). length (select c) - i)") (auto simp: Iterator_HasNext_def)

declare for_rows.simps [simp del]

lemma for_rows_drop: "for_rows f c i = mapR f (drop i (select c))"
proof (induction f c i rule: for_rows.induct)
  case (1 f c i)
  show ?case
  proof (cases "i < length (select c)")
    case True
    then have "drop i (select c) = select c ! i # drop (Suc i) (select c)" by (rule Cons_nth_drop_Suc [symmetric])
    with True 1 show ?thesis
      by (subst for_rows.simps) (auto simp: Iterator_HasNext_def Iterator_GetRow_def intro!: bindR_cong)
  qed (subst for_rows.simps, simp add: Iterator_HasNext_def)
qed

text \<open>The loop visits the rows of the chunk in order.\<close>

lemma for_rows_all: "for_rows f c 0 = mapR f (select c)"
  by (simp add: for_rows_drop)

end
