(* ===== verification/RowLayout.thy ===== *)
theory RowLayout
  imports Chunk
begin

text \<open>
  The layout of rows: the columns of an initialized descriptor lie side by side in a tuple, so
  that what is written to one column is read back from it and leaves the others alone.
\<close>

section \<open>Offsets\<close>

definition col_size :: "ColumnDescriptor \<Rightarrow> nat" where
  "col_size c = unat (TypeSize (desc_type c))"

definition col_offset :: "ColumnDescriptor list \<Rightarrow> nat \<Rightarrow> nat" where
  "col_offset cs i = sum_list (map col_size (take i cs))"

lemma col_offset_Suc: "i < length cs \<Longrightarrow> col_offset cs (Suc i) = col_offset cs i + col_size (cs ! i)"
  by (simp add: col_offset_def take_Suc_conv_app_nth)

lemma col_offset_mono: "i \<le> j \<Longrightarrow> col_offset cs i \<le> col_offset cs j"
proof (induction j)
  case (Suc j)
  then show ?case
    by (cases "i = Suc j"; cases "j < length cs") (auto simp: col_offset_Suc, simp add: col_offset_def)
qed (simp add: col_offset_def)

lemma col_offset_all: "length cs \<le> i \<Longrightarrow> col_offset cs i = sum_list (map col_size cs)"
  by (simp add: col_offset_def)

text \<open>Two columns do not overlap.\<close>

lemma columns_disjoint:
  assumes "i < length cs" "j < length cs" "i \<noteq> j"
  shows "col_offset cs i + col_size (cs ! i) \<le> col_offset cs j \<or> col_offset cs j + col_size (cs ! j) \<le> col_offset cs i"
proof (cases "i < j")
  case True
  then have "col_offset cs (Suc i) \<le> col_offset cs j" by (intro col_offset_mono) simp
  then show ?thesis using assms(1) by (simp add: col_offset_Suc)
next
  case False
  then have "col_offset cs (Suc j) \<le> col_offset cs i" using assms(3) by (intro col_offset_mono) simp
  then show ?thesis using assms(2) by (simp add: col_offset_Suc)
qed

lemma column_inside: "i < length cs \<Longrightarrow> col_offset cs i + col_size (cs ! i) \<le> sum_list (map col_size cs)"
  using col_offset_mono [of "Suc i" "length cs" cs] by (simp add: col_offset_Suc col_offset_all)

text \<open>A descriptor whose offsets are those of its columns side by side.\<close>

definition layout_ok :: "RowDescriptor \<Rightarrow> bool" where
  "layout_ok d \<longleftrightarrow> unat (byte_size d) = sum_list (map col_size (cols d)) \<and>
     (\<forall>i < length (cols d). unat (bytes_offset (cols d ! i)) = col_offset (cols d) i)"

lemma unat_ucast_small: "unat (w :: u8) < 256"
  using unsigned_less [of w, where ?'a = nat] by simp

lemma unat_u64_of_size: "unat (ucast (ucast (w :: u8) :: u32) :: u64) = unat w"
proof -
  have "unat (ucast w :: u32) = unat w" using unat_ucast_small [of w] by (simp add: unsigned_ucast_eq take_bit_eq_mod)
  moreover have "unat (ucast v :: u64) = unat v" for v :: u32
    using unsigned_less [of v, where ?'a = nat] by (simp add: unsigned_ucast_eq take_bit_eq_mod)
  ultimately show ?thesis by (rule trans [rotated])
qed

lemma init_cols_result:
  assumes "unat s + sum_list (map col_size cs) < 2 ^ 32" "init_cols cs s = (cs1, s1)"
  shows "map desc_type cs1 = map desc_type cs \<and> map desc_id cs1 = map desc_id cs \<and>
    unat s1 = unat s + sum_list (map col_size cs) \<and>
    (\<forall>i < length cs. unat (bytes_offset (cs1 ! i)) = unat s + col_offset cs i)"
  using assms
proof (induction cs arbitrary: s cs1)
  case (Cons c cs)
  let ?n = "ucast (TypeSize (desc_type c)) :: u32"
  obtain cs2 where cs2: "init_cols cs (s + ucast ?n) = (cs2, s1)"
    "cs1 = c\<lparr>bytes_count := ?n, bytes_offset := ucast s\<rparr> # cs2"
    using Cons.prems(2) by (auto simp: Let_def split: prod.splits)
  have lt: "unat s + col_size c < 2 ^ 32" using Cons.prems(1) by simp
  have u: "unat (s + ucast ?n) = unat s + col_size c"
    using lt unat_u64_of_size [of "TypeSize (desc_type c)"] by (simp add: unat_word_ariths col_size_def)
  have s: "unat (ucast s :: u32) = unat s" using lt by (simp add: unsigned_ucast_eq take_bit_eq_mod)
  have "unat (s + ucast ?n) + sum_list (map col_size cs) < 2 ^ 32" using Cons.prems(1) u by simp
  from Cons.IH [OF this cs2(1)] show ?case
    using u s by (auto simp: cs2(2) nth_Cons col_offset_def split: nat.split)
qed (auto simp: col_offset_def)

lemma InitAllColDesc_layout:
  assumes "sum_list (map col_size (cols d)) < 2 ^ 32"
  shows "layout_ok (InitAllColDesc d)" "map desc_type (cols (InitAllColDesc d)) = map desc_type (cols d)"
    "map desc_id (cols (InitAllColDesc d)) = map desc_id (cols d)" "row_id (InitAllColDesc d) = row_id d"
proof -
  obtain cs s where r: "init_cols (cols d) 0 = (cs, s)" by fastforce
  then have c: "cols (InitAllColDesc d) = cs" "byte_size (InitAllColDesc d) = s" "row_id (InitAllColDesc d) = row_id d"
    by (simp_all add: InitAllColDesc_def Let_def)
  note i = init_cols_result [OF _ r, simplified, OF assms [simplified]]
  have sz: "map col_size cs = map col_size (cols d)"
  proof -
    have "map (\<lambda>t. unat (TypeSize t)) (map desc_type cs) = map (\<lambda>t. unat (TypeSize t)) (map desc_type (cols d))"
      using i by simp
    then show ?thesis by (simp add: comp_def col_size_def [abs_def])
  qed
  have o: "col_offset cs j = col_offset (cols d) j" for j
    by (simp only: col_offset_def take_map [symmetric] sz)
  have "length cs = length (cols d)" using i by (metis length_map)
  then show "layout_ok (InitAllColDesc d)" using i by (simp add: layout_ok_def c sz o)
  show "map desc_type (cols (InitAllColDesc d)) = map desc_type (cols d)"
    "map desc_id (cols (InitAllColDesc d)) = map desc_id (cols d)" "row_id (InitAllColDesc d) = row_id d"
    using i by (simp_all add: c)
qed

section \<open>Memory\<close>

lemma mapR_Byte [simp]: "mapR byte_of (map Byte bs) = Inr bs"
  by (induction bs) simp_all

lemma poke_ok:
  assumes "off + length bs \<le> length t"
  obtains t1 where "poke off bs t = Inr t1" "length t1 = length t" "peek off (length bs) t1 = Inr bs"
    "\<And>o' n. o' + n \<le> off \<or> off + length bs \<le> o' \<Longrightarrow> peek o' n t1 = peek o' n t"
proof
  let ?t = "take off t @ bs @ drop (off + length bs) t"
  show "poke off bs t = Inr ?t" using assms by (simp add: poke_def)
  show len: "length ?t = length t" using assms by simp
  show "peek off (length bs) ?t = Inr bs" using assms by (simp add: peek_def)
  show "peek o' n ?t = peek o' n t" if d: "o' + n \<le> off \<or> off + length bs \<le> o'" for o' n
  proof -
    have "take n (drop o' ?t) = take n (drop o' t)"
    proof (cases "o' + n \<le> off")
      case True
      then have "take n (drop o' ?t) = take n (drop o' (take off t))" using assms by simp
      also have "\<dots> = take n (drop o' t)" using True by (simp add: drop_take)
      finally show ?thesis .
    next
      case False
      then have o: "off + length bs \<le> o'" using d by simp
      then have "drop o' (take off t @ bs @ drop (off + length bs) t) = drop (o' - off - length bs) (drop (off + length bs) t)"
        using assms by simp
      then show ?thesis using o by simp
    qed
    then show ?thesis unfolding peek_def len by simp
  qed
qed

text \<open>A number, of any of the six integer types.\<close>

definition number :: "expr_value \<Rightarrow> bool" where
  "number v \<longleftrightarrow> wf_value v \<and> ev_type v \<noteq> String"

lemma number_cases:
  assumes "number v"
  obtains (Int8) x where "v = NewInt8 x" | (UInt8) x where "v = NewUInt8 x"
  | (Int32) x where "v = NewInt32 x" | (UInt32) x where "v = NewUInt32 x"
  | (Int64) x where "v = NewInt64 x" | (UInt64) x where "v = NewUInt64 x"
  using assms that by (auto simp: number_def elim!: wf_value_cases)

lemma number_New [simp]:
  "number (NewInt8 b)" "number (NewUInt8 b)" "number (NewInt32 w)" "number (NewUInt32 w)"
  "number (NewInt64 d)" "number (NewUInt64 d)"
  by (simp_all add: number_def)

lemma be_lengths [simp]: "length (be32 w) = 4" "length (be64 d) = 8"
  by (simp_all add: be32_def be64_def)

text \<open>The bytes a number takes in a tuple.\<close>

definition number_bytes :: "expr_value \<Rightarrow> mem_byte list" where
  "number_bytes v = map Byte (rev (value_bytes v))"

lemma New_payload:
  "ev_u (NewInt8 b) = U8 b" "ev_u (NewUInt8 b) = U8 b" "ev_u (NewInt32 w) = U32 w" "ev_u (NewUInt32 w) = U32 w"
  "ev_u (NewInt64 d) = U64 d" "ev_u (NewUInt64 d) = U64 d"
  "(NewEmpty Int8)\<lparr>ev_u := U8 b\<rparr> = NewInt8 b" "(NewEmpty UInt8)\<lparr>ev_u := U8 b\<rparr> = NewUInt8 b"
  "(NewEmpty Int32)\<lparr>ev_u := U32 w\<rparr> = NewInt32 w" "(NewEmpty UInt32)\<lparr>ev_u := U32 w\<rparr> = NewUInt32 w"
  "(NewEmpty Int64)\<lparr>ev_u := U64 d\<rparr> = NewInt64 d" "(NewEmpty UInt64)\<lparr>ev_u := U64 d\<rparr> = NewUInt64 d"
  "ev_type (NewEmpty ty) = ty"
  by (simp_all add: New_defs)

lemma number_bytes_New:
  "number_bytes (NewInt8 b) = map Byte (rev [b])" "number_bytes (NewUInt8 b) = map Byte (rev [b])"
  "number_bytes (NewInt32 w) = map Byte (rev (be32 w))" "number_bytes (NewUInt32 w) = map Byte (rev (be32 w))"
  "number_bytes (NewInt64 d) = map Byte (rev (be64 d))" "number_bytes (NewUInt64 d) = map Byte (rev (be64 d))"
  by (simp_all only: number_bytes_def value_bytes_New)

lemma ToData_number: "number v \<Longrightarrow> ToData v off t = poke off (number_bytes v) t"
  by (elim number_cases) (simp_all add: ToData_def poke_bytes_def number_bytes_New value_defs New_payload)

lemma number_bytes_length: "number v \<Longrightarrow> length (number_bytes v) = unat (TypeSize (ev_type v))"
  by (elim number_cases) (simp_all add: number_bytes_New)

lemma peek_bytes_Byte: "peek off n t = Inr (map Byte (rev bs)) \<Longrightarrow> peek_bytes off n t = Inr bs"
  by (simp only: peek_bytes_def bindR_simps mapR_Byte rev_rev_ident)

lemma ToExprValue_number:
  assumes "number v" "peek off (unat (TypeSize (ev_type v))) t = Inr (number_bytes v)"
  shows "ToExprValue obj off t (NewEmpty (ev_type v)) = Inr v"
  using assms(1)
proof (cases rule: number_cases)
  case (Int8 x)
  then have "peek_bytes off 1 t = Inr [x]" using assms(2) by (intro peek_bytes_Byte) (simp add: number_bytes_New)
  then show ?thesis by (simp add: Int8 ToExprValue_def New_payload)
next
  case (UInt8 x)
  then have "peek_bytes off 1 t = Inr [x]" using assms(2) by (intro peek_bytes_Byte) (simp add: number_bytes_New)
  then show ?thesis by (simp add: UInt8 ToExprValue_def New_payload)
next
  case (Int32 x)
  then have "peek_bytes off 4 t = Inr (be32 x)" using assms(2) by (intro peek_bytes_Byte) (simp add: number_bytes_New)
  then show ?thesis by (simp add: Int32 ToExprValue_def New_payload)
next
  case (UInt32 x)
  then have "peek_bytes off 4 t = Inr (be32 x)" using assms(2) by (intro peek_bytes_Byte) (simp add: number_bytes_New)
  then show ?thesis by (simp add: UInt32 ToExprValue_def New_payload)
next
  case (Int64 x)
  then have "peek_bytes off 8 t = Inr (be64 x)" using assms(2) by (intro peek_bytes_Byte) (simp add: number_bytes_New)
  then show ?thesis by (simp add: Int64 ToExprValue_def New_payload)
next
  case (UInt64 x)
  then have "peek_bytes off 8 t = Inr (be64 x)" using assms(2) by (intro peek_bytes_Byte) (simp add: number_bytes_New)
  then show ?thesis by (simp add: UInt64 ToExprValue_def New_payload)
qed

section \<open>Rows\<close>

text \<open>A tuple of the right size holds a number in a column.\<close>

definition holds :: "RowDescriptor \<Rightarrow> tuple \<Rightarrow> nat \<Rightarrow> expr_value \<Rightarrow> bool" where
  "holds d t c v \<longleftrightarrow> peek (col_offset (cols d) c) (col_size (cols d ! c)) t = Inr (number_bytes v)"

definition row_ok :: "Row \<Rightarrow> bool" where
  "row_ok r \<longleftrightarrow> layout_ok (row_desc r) \<and> unat (row_id (row_desc r)) < length (row_data r) \<and>
     (\<forall>t. row_data r ! unat (row_id (row_desc r)) = Some t \<longrightarrow> length t = unat (byte_size (row_desc r)))"

definition row_holds :: "Row \<Rightarrow> nat \<Rightarrow> expr_value \<Rightarrow> bool" where
  "row_holds r c v \<longleftrightarrow>
     (\<exists>t. row_data r ! unat (row_id (row_desc r)) = Some t \<and> holds (row_desc r) t c v)"

lemma row_ok_Row:
  "layout_ok d \<Longrightarrow> unat (row_id d) < length (cols d) \<Longrightarrow> row_ok (Row d)"
  by (simp add: row_ok_def Row_def)

lemma set_column:
  assumes r: "row_ok r" and c: "unat c < length (cols (row_desc r))" and v: "number v"
    and ty: "ev_type v = desc_type (cols (row_desc r) ! unat c)"
  obtains r1 where "SetColValue (row_id (row_desc r)) c v r = Inr (C_OK, r1)" "row_ok r1" "row_desc r1 = row_desc r"
    "row_holds r1 (unat c) v"
    "\<And>c' w. c' \<noteq> unat c \<Longrightarrow> c' < length (cols (row_desc r)) \<Longrightarrow> row_holds r c' w \<Longrightarrow> row_holds r1 c' w"
proof -
  let ?d = "row_desc r" and ?i = "unat (row_id (row_desc r))"
  let ?off = "col_offset (cols ?d) (unat c)"
  define t where "t = (case row_data r ! ?i of None \<Rightarrow> replicate (unat (byte_size ?d)) Unset | Some t \<Rightarrow> t)"
  have len: "length t = sum_list (map col_size (cols ?d))"
    using r by (auto simp: t_def row_ok_def layout_ok_def split: option.splits)
  have sz: "length (number_bytes v) = col_size (cols ?d ! unat c)"
    using number_bytes_length [OF v] ty by (simp add: col_size_def)
  have off: "unat (bytes_offset (cols ?d ! unat c)) = ?off" using r c by (simp add: row_ok_def layout_ok_def)
  have fit: "?off + length (number_bytes v) \<le> length t" using column_inside [OF c] by (simp add: sz len)
  obtain t1 where t1: "poke ?off (number_bytes v) t = Inr t1" "length t1 = length t"
    "peek ?off (length (number_bytes v)) t1 = Inr (number_bytes v)"
    "\<And>o' n. o' + n \<le> ?off \<or> ?off + length (number_bytes v) \<le> o' \<Longrightarrow> peek o' n t1 = peek o' n t"
    by (rule poke_ok [OF fit]) blast
  let ?r1 = "setTuple (row_id ?d) t1 (setTuple (row_id ?d) t r)"
  have i: "?i < length (row_data r)" using r by (simp add: row_ok_def)
  have d1: "row_desc ?r1 = ?d" "row_data ?r1 ! ?i = Some t1" "length (row_data ?r1) = length (row_data r)"
    using i by (simp_all add: setTuple_def)
  show ?thesis
  proof
    show "SetColValue (row_id ?d) c v r = Inr (C_OK, ?r1)"
      using i c ty by (simp add: SetColValue_def tupleAt_def GetColumnDesc_def off ToData_number [OF v] t_def [symmetric] t1(1))
    show "row_ok ?r1" using r t1(2) len by (simp add: row_ok_def layout_ok_def d1)
    show "row_desc ?r1 = ?d" by (rule d1)
    show "row_holds ?r1 (unat c) v" using t1(3) by (simp add: row_holds_def holds_def d1 sz)
    show "row_holds ?r1 c' w" if o: "c' \<noteq> unat c" "c' < length (cols ?d)" "row_holds r c' w" for c' w
    proof -
      have "holds ?d t c' w" using o(3) by (auto simp: row_holds_def t_def)
      moreover have "peek (col_offset (cols ?d) c') (col_size (cols ?d ! c')) t1 =
          peek (col_offset (cols ?d) c') (col_size (cols ?d ! c')) t"
        using columns_disjoint [OF o(2) c o(1)] by (intro t1(4)) (auto simp: sz)
      ultimately show ?thesis by (simp add: row_holds_def holds_def d1)
    qed
  qed
qed

lemma get_column:
  assumes "row_ok r" "unat c < length (cols (row_desc r))" "number v"
    "ev_type v = desc_type (cols (row_desc r) ! unat c)" "row_holds r (unat c) v"
  shows "GetColValue obj (row_id (row_desc r)) c r = Inr v"
proof -
  let ?d = "row_desc r"
  obtain t where t: "row_data r ! unat (row_id ?d) = Some t" "holds ?d t (unat c) v"
    using assms(5) by (auto simp: row_holds_def)
  have "unat (bytes_offset (cols ?d ! unat c)) = col_offset (cols ?d) (unat c)"
    using assms(1,2) by (simp add: row_ok_def layout_ok_def)
  moreover have "ToExprValue obj (col_offset (cols ?d) (unat c)) t (NewEmpty (ev_type v)) = Inr v"
    using t(2) by (intro ToExprValue_number [OF assms(3)]) (simp add: holds_def col_size_def assms(4))
  ultimately show ?thesis
    using assms(1,2) t(1) by (simp add: GetColValue_def tupleAt_def GetColumnDesc_def row_ok_def flip: assms(4))
qed

text \<open>Setting the columns one after another.\<close>

fun set_columns :: "u32 \<Rightarrow> nat \<Rightarrow> expr_value list \<Rightarrow> Row \<Rightarrow> Row res" where
  "set_columns i c [] r = Inr r"
| "set_columns i c (v # vs) r = bindR (SetColValue i (of_nat c) v r) (\<lambda>(_, r1). set_columns i (Suc c) vs r1)"

lemma set_columns_hold:
  assumes "row_ok r" "row_desc r = d" "c + length vs = length (cols d)" "length (cols d) < 2 ^ 32"
    "\<forall>j < length vs. number (vs ! j) \<and> ev_type (vs ! j) = desc_type (cols d ! (c + j))"
    "\<And>j. j < c \<Longrightarrow> row_holds r j (f j)"
  shows "\<exists>r1. set_columns (row_id d) c vs r = Inr r1 \<and> row_ok r1 \<and> row_desc r1 = d \<and>
    (\<forall>j < c. row_holds r1 j (f j)) \<and> (\<forall>j < length vs. row_holds r1 (c + j) (vs ! j))"
  using assms
proof (induction vs arbitrary: c r f)
  case (Cons v vs)
  have c: "c < length (cols d)" using Cons.prems(3) by simp
  then have u: "unat (of_nat c :: u32) = c" using Cons.prems(4) by (simp add: unat_of_nat)
  have v: "number v" "ev_type v = desc_type (cols d ! c)" using Cons.prems(5) [rule_format, of 0] by simp_all
  obtain r1 where r1: "SetColValue (row_id d) (of_nat c) v r = Inr (C_OK, r1)" "row_ok r1" "row_desc r1 = d"
    "row_holds r1 c v" "\<And>c' w. c' \<noteq> c \<Longrightarrow> c' < length (cols d) \<Longrightarrow> row_holds r c' w \<Longrightarrow> row_holds r1 c' w"
    using set_column [OF Cons.prems(1), of "of_nat c" v] c v u Cons.prems(2) by metis
  let ?f = "f(c := v)"
  have f: "row_holds r1 j (?f j)" if "j < Suc c" for j
    using that r1(4) r1(5) [of j "f j"] Cons.prems(6) [of j] c by (cases "j = c") auto
  have vs: "\<forall>j < length vs. number (vs ! j) \<and> ev_type (vs ! j) = desc_type (cols d ! (Suc c + j))"
    using Cons.prems(5) by auto
  have l: "Suc c + length vs = length (cols d)" using Cons.prems(3) by simp
  obtain r2 where r2: "set_columns (row_id d) (Suc c) vs r1 = Inr r2" "row_ok r2" "row_desc r2 = d"
    "\<forall>j < Suc c. row_holds r2 j (?f j)" "\<forall>j < length vs. row_holds r2 (Suc c + j) (vs ! j)"
    using Cons.IH [OF r1(2,3) l Cons.prems(4) vs f] by blast
  have "row_holds r2 (c + j) ((v # vs) ! j)" if "j < length (v # vs)" for j
    using that r2(4) [rule_format, of c] r2(5) [rule_format, of "j - 1"] by (cases j) auto
  moreover have "row_holds r2 j (f j)" if "j < c" for j using r2(4) [rule_format, of j] that by auto
  ultimately show ?case using r1(1) r2(1-3) by auto
qed auto

end
