(* ===== verification/RcCodec.thy ===== *)
theory RcCodec
  imports RowLayout Schema SchemaCodec
begin

text \<open>
  The encoding of rows and index entries (\<open>codec/rc_codec.cc\<close>), the descriptor made from a table
  (\<open>chunk/chunk_util.cc\<close>) and \<open>Chunk::PullData\<close> (\<open>chunk/chunk.cc\<close>). The status of \<open>SetColValue\<close>
  is never looked at.
\<close>

section \<open>Encoding\<close>

text \<open>Reading a column of the row by the id of the column: the id is cut to 32 bits.\<close>

definition read_column :: "(bytes \<Rightarrow> bytes) \<Rightarrow> Row \<Rightarrow> ColumnInfo \<Rightarrow> expr_value res" where
  "read_column obj r c = GetColValue obj (row_id (row_desc r)) (ucast (col_id c)) r"

text \<open>The values of some columns, each with its type in front, appended to the output.\<close>

fun encode_columns :: "(bytes \<Rightarrow> bytes) \<Rightarrow> Row \<Rightarrow> ColumnInfo list \<Rightarrow> bytes \<Rightarrow> bytes res" where
  "encode_columns obj r [] out = Inr out"
| "encode_columns obj r (c # cs) out =
     bindR (read_column obj r c) (\<lambda>v.
       bindR (EncodeExprValue v (snd (EncodeUInt8 (type_code (ev_type v)) out))) (\<lambda>(_, out1).
         encode_columns obj r cs out1))"

definition primary_of :: "TableInfo \<Rightarrow> IndexInfo res" where
  "primary_of t =
     (case primary_index t of
        None \<Rightarrow> Inl Undefined_Behaviour
      | Some k \<Rightarrow> if k < length (index_list t) then Inr (index_list t ! k) else Inl Undefined_Behaviour)"

text \<open>The columns of an index entry: those of the index and those of the primary index, which for
  the primary index itself are written once.\<close>

definition index_columns :: "TableInfo \<Rightarrow> IndexInfo \<Rightarrow> ColumnInfo list res" where
  "index_columns t i = bindR (primary_of t) (\<lambda>p.
     Inr ((if idx_type p \<noteq> idx_type i then idx_columns i else []) @ idx_columns p))"

definition EncodeIndex :: "(bytes \<Rightarrow> bytes) \<Rightarrow> TableInfo \<Rightarrow> IndexInfo \<Rightarrow> Row \<Rightarrow> bytes \<Rightarrow> (bytes \<times> bytes) res" where
  "EncodeIndex obj t i r key =
     bindR (index_columns t i) (\<lambda>cs. bindR (encode_columns obj r cs key) (\<lambda>key1. Inr (key1, [])))"

fun encode_row_key :: "float_ops \<Rightarrow> (bytes \<Rightarrow> bytes) \<Rightarrow> TableInfo \<Rightarrow> Row \<Rightarrow> ColumnInfo list \<Rightarrow> bytes \<Rightarrow> bytes res" where
  "encode_row_key fo obj t r [] key = Inr key"
| "encode_row_key fo obj t r (c # cs) key =
     bindR (read_column obj r c) (\<lambda>v. bindR (ToString fo v) (\<lambda>s.
       encode_row_key fo obj t r cs (snd (EncodeDataKey (tbl_db_id t) (tbl_id t) s key))))"

definition EncodeRow ::
    "float_ops \<Rightarrow> (bytes \<Rightarrow> bytes) \<Rightarrow> TableInfo \<Rightarrow> Row \<Rightarrow> bytes \<Rightarrow> bytes \<Rightarrow> (bytes \<times> bytes) res" where
  "EncodeRow fo obj t r key val =
     bindR (primary_of t) (\<lambda>p. bindR (encode_row_key fo obj t r (idx_columns p) key) (\<lambda>key1.
       bindR (encode_columns obj r (column_list t) val) (\<lambda>val1. Inr (key1, val1))))"

section \<open>Decoding\<close>

text \<open>A byte that is no enumerator of the type has no case anywhere and is the type of no column,
  as \<open>Invalid\<close>.\<close>

definition type_of_byte :: "u8 \<Rightarrow> ExprValueType" where
  "type_of_byte b = (case type_of_code b of Some t \<Rightarrow> t | None \<Rightarrow> Invalid)"

lemma type_of_byte_code [simp]: "type_of_byte (type_code t) = t"
  by (simp add: type_of_byte_def)

text \<open>The lambda of \<open>DecodeIndex\<close>. Its offset is its own: every call starts at the front of the key.\<close>

definition decode_index_column :: "bytes \<Rightarrow> ColumnInfo \<Rightarrow> Row \<Rightarrow> Row res" where
  "decode_index_column key c r =
     bindR (read_raw 1 key) (\<lambda>tmp. bindR (DecodeUInt8 tmp) (\<lambda>(n, b).
       let v = NewEmpty (type_of_byte b) in
       bindR (read_at (unat n) (Length v) key) (\<lambda>tmp. bindR (DecodeExprValue tmp v) (\<lambda>(_, v1).
         bindR (SetColValue (row_id (row_desc r)) (ucast (col_id c)) v1 r) (\<lambda>(_, r1). Inr r1)))))"

fun decode_index_columns :: "bytes \<Rightarrow> ColumnInfo list \<Rightarrow> Row \<Rightarrow> Row res" where
  "decode_index_columns key [] r = Inr r"
| "decode_index_columns key (c # cs) r = bindR (decode_index_column key c r) (decode_index_columns key cs)"

definition DecodeIndex :: "TableInfo \<Rightarrow> IndexInfo \<Rightarrow> bytes \<Rightarrow> Row \<Rightarrow> (bytes \<times> Row) res" where
  "DecodeIndex t i key r =
     bindR (index_columns t i) (\<lambda>cs. bindR (decode_index_columns key cs r) (\<lambda>r1. Inr ([], r1)))"

text \<open>The loop of \<open>DecodeRow\<close>. Behind the end, the length of the rest wraps around, which the
  library refuses.\<close>

fun decode_columns :: "bytes \<Rightarrow> u64 \<Rightarrow> ColumnInfo list \<Rightarrow> Row \<Rightarrow> Row res" where
  "decode_columns val offset [] r = Inr r"
| "decode_columns val offset (c # cs) r =
     bindR (read_at (unat offset) 1 val) (\<lambda>tmp. bindR (DecodeUInt8 tmp) (\<lambda>(n, b).
       let v = NewEmpty (type_of_byte b); offset1 = offset + n in
       bindR (requireR Std_Exception (unat offset1 \<le> length val)) (\<lambda>_.
         bindR (DecodeExprValue (drop (unat offset1) val) v) (\<lambda>(n1, v1).
           bindR (SetColValue (row_id (row_desc r)) (ucast (col_id c)) v1 r) (\<lambda>(_, r1).
             decode_columns val (offset1 + n1) cs r1)))))"

definition DecodeRow :: "TableInfo \<Rightarrow> bytes \<Rightarrow> Row \<Rightarrow> Row res" where
  "DecodeRow t val r = decode_columns val 0 (column_list t) r"

section \<open>Chunks of a table\<close>

definition ToRowDesc :: "TableInfo \<Rightarrow> RowDescriptor" where
  "ToRowDesc t =
     InitAllColDesc (fold (\<lambda>c. AddColumnDesc (ColumnDescriptor (ToExprType (col_type c)) (ucast (col_id c))))
       (column_list t) (RowDescriptor 0))"

fun pull_rows :: "TableInfo \<Rightarrow> RowDescriptor option \<Rightarrow> bytes list \<Rightarrow> Row list \<Rightarrow> Row list res" where
  "pull_rows t d [] rows = Inr rows"
| "pull_rows t d (v # vs) rows =
     (case d of
        None \<Rightarrow> Inl Undefined_Behaviour
      | Some desc \<Rightarrow> bindR (DecodeRow t v (Row desc)) (\<lambda>r. pull_rows t d vs (rows @ [r])))"

text \<open>The rows are added behind those the chunk has.\<close>

definition PullData :: "TableInfo \<Rightarrow> bytes list \<Rightarrow> chunk \<Rightarrow> (status \<times> chunk) res" where
  "PullData t vs c =
     bindR (pull_rows t (chunk_row_desc c) vs (select c)) (\<lambda>rows.
       Inr (C_OK, c\<lparr>cursor := 0, cur_capacity := of_nat (length vs), select := rows\<rparr>))"

end
