(* ===== verification/TableStore.thy ===== *)
theory TableStore
  imports RcCodec BptIterator KvStorage
begin

text \<open>
  Indexes, tables and their scans (\<open>storage/index.cc\<close>, \<open>storage/table.cc\<close>,
  \<open>storage/table_iterator.cc\<close>, \<open>storage/index_iterator.cc\<close>).

  An index points to an element of the index list of its table, so it is the tree and the position
  in that list; the table descriptor is passed along, since inserting and deleting write the node
  counter of the tree into it. All indexes share the one storage of the program: a table keeps it,
  lends it to the tree of an index for the time of a call and takes it back.
\<close>

section \<open>An index\<close>

record 's index =
  ix_tree :: "'s tree"
  ix_pos :: nat

definition index_info :: "TableInfo \<Rightarrow> nat \<Rightarrow> IndexInfo res" where
  "index_info t i = (if i < length (index_list t) then Inr (index_list t ! i) else Inl Undefined_Behaviour)"

definition index_schema :: "TableInfo \<Rightarrow> IndexInfo \<Rightarrow> tree_schema" where
  "index_schema t i =
     \<lparr>ts_db_id = tbl_db_id t, ts_table_id = tbl_id t, ts_index_id = idx_id i,
      ts_root_id = idx_root_node_id i, ts_tree_id = idx_max_tree_node_id i\<rparr>"

definition Index :: "'s kv_api \<Rightarrow> proto_ops \<Rightarrow> TableInfo \<Rightarrow> nat \<Rightarrow> 's \<Rightarrow> 's index res" where
  "Index kv pb t pos s =
     bindR (index_info t pos) (\<lambda>i. bindR (open_index kv pb (index_schema t i) s) (\<lambda>tr.
       Inr \<lparr>ix_tree = tr, ix_pos = pos\<rparr>))"

definition Index_GetRecords ::
    "'s kv_api \<Rightarrow> bytes list \<Rightarrow> bytes list \<Rightarrow> 's index \<Rightarrow> (status \<times> bytes list) res" where
  "Index_GetRecords kv ks vs x = MGetKV kv ks vs (storage (ix_tree x))"

text \<open>\<open>index_info_->max_tree_node_id = tree_ctx_->MaxNodeID()\<close>\<close>

definition set_max_node :: "'s index \<Rightarrow> TableInfo \<Rightarrow> TableInfo" where
  "set_max_node x t =
     t\<lparr>index_list := (index_list t)[ix_pos x :=
         (index_list t ! ix_pos x)\<lparr>idx_max_tree_node_id := MaxNodeID (ix_tree x)\<rparr>]\<rparr>"

text \<open>The first loop of \<open>Insert\<close> also reads every column of the row, for nothing but the
  undefined behaviour this may have.\<close>

definition index_entry :: "(bytes \<Rightarrow> bytes) \<Rightarrow> TableInfo \<Rightarrow> IndexInfo \<Rightarrow> Row \<Rightarrow> (bytes \<times> bytes) res" where
  "index_entry obj t i r =
     bindR (mapR (\<lambda>d. GetColValue obj (row_id (row_desc r)) (desc_id d) r) (cols (row_desc r))) (\<lambda>_.
       EncodeIndex obj t i r [])"

fun insert_entries ::
    "'s kv_api \<Rightarrow> proto_ops \<Rightarrow> (bytes \<times> bytes) list \<Rightarrow> 's tree \<Rightarrow> (status \<times> 's tree) res" where
  "insert_entries kv pb [] tr = Inr (C_OK, tr)"
| "insert_entries kv pb ((k, v) # es) tr =
     bindR (Bptree_Insert kv pb k v tr) (\<lambda>(st, tr1).
       if st \<noteq> C_OK then Inr (st, tr1) else insert_entries kv pb es tr1)"

definition Index_Insert ::
    "'s kv_api \<Rightarrow> proto_ops \<Rightarrow> (bytes \<Rightarrow> bytes) \<Rightarrow> chunk \<Rightarrow> TableInfo \<Rightarrow> 's index \<Rightarrow>
     (status \<times> TableInfo \<times> 's index) res" where
  "Index_Insert kv pb obj c t x =
     bindR (index_info t (ix_pos x)) (\<lambda>i.
     bindR (for_rows (index_entry obj t i) c 0) (\<lambda>es.
     bindR (insert_entries kv pb es (ix_tree x)) (\<lambda>(st, tr).
       let x1 = x\<lparr>ix_tree := tr\<rparr> in
       Inr (st, if st \<noteq> C_OK then t else set_max_node x1 t, x1))))"

fun delete_keys :: "'s kv_api \<Rightarrow> proto_ops \<Rightarrow> bytes list \<Rightarrow> 's tree \<Rightarrow> (status \<times> 's tree) res" where
  "delete_keys kv pb [] tr = Inr (C_OK, tr)"
| "delete_keys kv pb (k # ks) tr =
     bindR (Bptree_Delete kv pb k tr) (\<lambda>(st, tr1).
       if st \<noteq> C_OK then Inr (st, tr1) else delete_keys kv pb ks tr1)"

definition Index_Delete ::
    "'s kv_api \<Rightarrow> proto_ops \<Rightarrow> (bytes \<Rightarrow> bytes) \<Rightarrow> chunk \<Rightarrow> TableInfo \<Rightarrow> 's index \<Rightarrow>
     (status \<times> TableInfo \<times> 's index) res" where
  "Index_Delete kv pb obj c t x =
     bindR (index_info t (ix_pos x)) (\<lambda>i.
     bindR (for_rows (\<lambda>r. bindR (EncodeIndex obj t i r []) (\<lambda>(k, _). Inr k)) c 0) (\<lambda>ks.
     bindR (delete_keys kv pb ks (ix_tree x)) (\<lambda>(st, tr).
       let x1 = x\<lparr>ix_tree := tr\<rparr> in
       Inr (st, if st \<noteq> C_OK then t else set_max_node x1 t, x1))))"

section \<open>A table\<close>

text \<open>\<open>col_index\<close> is an unordered map: the list has its pairs in the order they were put in, and
  the order in which they are visited is an argument of the operations.\<close>

record 's table =
  table_info :: TableInfo
  index_objs :: "'s index list"
  col_index :: "(u64 \<times> nat) list"
  row_index :: "nat option"
  table_storage :: 's

type_synonym hash_order = "(u64 \<times> nat) list \<Rightarrow> (u64 \<times> nat) list"

definition Table :: "TableInfo \<Rightarrow> 's \<Rightarrow> 's table" where
  "Table t s = \<lparr>table_info = t, index_objs = [], col_index = [], row_index = None, table_storage = s\<rparr>"

text \<open>One round of \<open>loadMeta\<close>. The map keeps the first of two indexes with one id.\<close>

definition load_index_obj :: "'s kv_api \<Rightarrow> proto_ops \<Rightarrow> nat \<Rightarrow> 's table \<Rightarrow> 's table res" where
  "load_index_obj kv pb pos tb =
     bindR (index_info (table_info tb) pos) (\<lambda>i.
     bindR (Index kv pb (table_info tb) pos (table_storage tb)) (\<lambda>x.
       let n = length (index_objs tb) in
       Inr (tb\<lparr>index_objs := index_objs tb @ [x],
               col_index := (if idx_id i \<in> fst ` set (col_index tb) then col_index tb
                             else col_index tb @ [(idx_id i, n)]),
               row_index := (if idx_type i = CONSTRAINT_PRIMARY then Some n else row_index tb)\<rparr>)))"

fun load_index_objs :: "'s kv_api \<Rightarrow> proto_ops \<Rightarrow> nat list \<Rightarrow> 's table \<Rightarrow> 's table res" where
  "load_index_objs kv pb [] tb = Inr tb"
| "load_index_objs kv pb (pos # ps) tb = bindR (load_index_obj kv pb pos tb) (load_index_objs kv pb ps)"

definition loadMeta :: "'s kv_api \<Rightarrow> proto_ops \<Rightarrow> 's table \<Rightarrow> (status \<times> 's table) res" where
  "loadMeta kv pb tb =
     (if row_index tb \<noteq> None then Inr (C_OK, tb)
      else bindR (load_index_objs kv pb [0..<length (index_list (table_info tb))] tb) (\<lambda>tb1. Inr (C_OK, tb1)))"

definition Prepare :: "'s kv_api \<Rightarrow> proto_ops \<Rightarrow> 's table \<Rightarrow> (status \<times> 's table) res" where
  "Prepare kv pb tb = bindR (loadMeta kv pb tb) (\<lambda>(st, tb1). Inr (st, tb1))"

text \<open>A call on one index, and the loop over all that stops at the first error.\<close>

definition on_index ::
    "(TableInfo \<Rightarrow> 's index \<Rightarrow> (status \<times> TableInfo \<times> 's index) res) \<Rightarrow> nat \<Rightarrow> 's table \<Rightarrow>
     (status \<times> 's table) res" where
  "on_index f n tb =
     (if n < length (index_objs tb) then
        let x = index_objs tb ! n in
        bindR (f (table_info tb) (x\<lparr>ix_tree := (ix_tree x)\<lparr>storage := table_storage tb\<rparr>\<rparr>)) (\<lambda>(st, t1, x1).
          Inr (st, tb\<lparr>table_info := t1, index_objs := (index_objs tb)[n := x1],
                      table_storage := storage (ix_tree x1)\<rparr>))
      else Inl Undefined_Behaviour)"

fun each_index ::
    "(TableInfo \<Rightarrow> 's index \<Rightarrow> (status \<times> TableInfo \<times> 's index) res) \<Rightarrow> (u64 \<times> nat) list \<Rightarrow> 's table \<Rightarrow>
     (status \<times> 's table) res" where
  "each_index f [] tb = Inr (C_OK, tb)"
| "each_index f ((i, n) # ns) tb =
     bindR (on_index f n tb) (\<lambda>(st, tb1). if st \<noteq> C_OK then Inr (st, tb1) else each_index f ns tb1)"

definition Submit :: "'s kv_api \<Rightarrow> proto_ops \<Rightarrow> hash_order \<Rightarrow> 's table \<Rightarrow> (status \<times> 's table) res" where
  "Submit kv pb ord tb =
     each_index (\<lambda>t x. bindR (Index_Save kv pb (ix_tree x)) (\<lambda>(st, tr). Inr (st, t, x\<lparr>ix_tree := tr\<rparr>)))
       (ord (col_index tb)) tb"

definition insertCore ::
    "'s kv_api \<Rightarrow> proto_ops \<Rightarrow> float_ops \<Rightarrow> (bytes \<Rightarrow> bytes) \<Rightarrow> hash_order \<Rightarrow> chunk \<Rightarrow> 's table \<Rightarrow>
     (status \<times> 's table) res" where
  "insertCore kv pb fo obj ord c tb =
     bindR (for_rows (\<lambda>r. EncodeRow fo obj (table_info tb) r [] []) c 0) (\<lambda>es.
     bindR (MPutKV kv (map fst es) (map snd es) (table_storage tb)) (\<lambda>(st, s1).
       let tb1 = tb\<lparr>table_storage := s1\<rparr> in
       if st \<noteq> C_OK then Inr (st, tb1)
       else each_index (Index_Insert kv pb obj c) (ord (col_index tb1)) tb1))"

definition deleteCore ::
    "'s kv_api \<Rightarrow> proto_ops \<Rightarrow> float_ops \<Rightarrow> (bytes \<Rightarrow> bytes) \<Rightarrow> hash_order \<Rightarrow> chunk \<Rightarrow> 's table \<Rightarrow>
     (status \<times> 's table) res" where
  "deleteCore kv pb fo obj ord c tb =
     bindR (each_index (Index_Delete kv pb obj c) (ord (col_index tb)) tb) (\<lambda>(st, tb1).
       if st \<noteq> C_OK then Inr (st, tb1)
       else bindR (for_rows (\<lambda>r. bindR (EncodeRow fo obj (table_info tb1) r [] []) (\<lambda>(k, _). Inr k)) c 0) (\<lambda>ks.
         bindR (MDelKV kv ks (table_storage tb1)) (\<lambda>(st2, s2). Inr (st2, tb1\<lparr>table_storage := s2\<rparr>))))"

definition updateCore :: "chunk \<Rightarrow> chunk \<Rightarrow> 's table \<Rightarrow> (status \<times> 's table) res" where
  "updateCore old_chunk new_chunk tb = Inr (C_OK, tb)"

text \<open>\<open>RETURN_ERR_NOT_OK(a); RETURN_ERR_NOT_OK(b)\<close>\<close>

definition then_ok :: "(status \<times> 's table) res \<Rightarrow> ('s table \<Rightarrow> (status \<times> 's table) res) \<Rightarrow> (status \<times> 's table) res" where
  "then_ok r f = bindR r (\<lambda>(st, tb). if st \<noteq> C_OK then Inr (st, tb) else f tb)"

definition Table_Insert ::
    "'s kv_api \<Rightarrow> proto_ops \<Rightarrow> float_ops \<Rightarrow> (bytes \<Rightarrow> bytes) \<Rightarrow> hash_order \<Rightarrow> chunk \<Rightarrow> 's table \<Rightarrow>
     (status \<times> 's table) res" where
  "Table_Insert kv pb fo obj ord c tb =
     then_ok (Prepare kv pb tb) (\<lambda>tb1. then_ok (insertCore kv pb fo obj ord c tb1) (Submit kv pb ord))"

definition Table_Delete ::
    "'s kv_api \<Rightarrow> proto_ops \<Rightarrow> float_ops \<Rightarrow> (bytes \<Rightarrow> bytes) \<Rightarrow> hash_order \<Rightarrow> chunk \<Rightarrow> 's table \<Rightarrow>
     (status \<times> 's table) res" where
  "Table_Delete kv pb fo obj ord c tb =
     then_ok (Prepare kv pb tb) (\<lambda>tb1. then_ok (deleteCore kv pb fo obj ord c tb1) (Submit kv pb ord))"

definition Table_Update ::
    "'s kv_api \<Rightarrow> proto_ops \<Rightarrow> hash_order \<Rightarrow> chunk \<Rightarrow> chunk \<Rightarrow> 's table \<Rightarrow> (status \<times> 's table) res" where
  "Table_Update kv pb ord old_chunk new_chunk tb =
     then_ok (Prepare kv pb tb) (\<lambda>tb1. then_ok (updateCore old_chunk new_chunk tb1) (Submit kv pb ord))"

section \<open>Scanning a table and an index\<close>

text \<open>\<open>TableIterator\<close> runs over the row index: a null one is dereferenced later on. The key of
  the record of an entry is made from the primary columns of the decoded row. \<open>DecodeIndex\<close> clears
  the value of the entry it is given, which is the one in the segment.\<close>

fun record_key_columns :: "float_ops \<Rightarrow> (bytes \<Rightarrow> bytes) \<Rightarrow> TableInfo \<Rightarrow> Row \<Rightarrow> ColumnInfo list \<Rightarrow> bytes \<Rightarrow> bytes res" where
  "record_key_columns fo obj t r [] key = Inr key"
| "record_key_columns fo obj t r (c # cs) key =
     bindR (read_column obj r c) (\<lambda>v. bindR (ToString fo v) (\<lambda>col_key.
       record_key_columns fo obj t r cs (snd (EncodeDataKey (tbl_db_id t) (tbl_id t) col_key key))))"

definition record_key ::
    "float_ops \<Rightarrow> (bytes \<Rightarrow> bytes) \<Rightarrow> TableInfo \<Rightarrow> IndexInfo \<Rightarrow> RowDescriptor option \<Rightarrow> bytes \<times> bytes \<Rightarrow> bytes res" where
  "record_key fo obj t i d segment =
     (case d of
        None \<Rightarrow> Inl Undefined_Behaviour
      | Some desc \<Rightarrow>
          bindR (DecodeIndex t i (fst segment) (Row desc)) (\<lambda>(_, r).
          bindR (primary_of t) (\<lambda>p. record_key_columns fo obj t r (idx_columns p) [])))"

definition TableIterator_GetItem ::
    "'s kv_api \<Rightarrow> float_ops \<Rightarrow> (bytes \<Rightarrow> bytes) \<Rightarrow> TableInfo \<Rightarrow> 's index \<Rightarrow> base_iter \<Rightarrow> chunk \<Rightarrow>
     (status \<times> base_iter \<times> chunk) res" where
  "TableIterator_GetItem kv fo obj t x b c =
     (if code b \<noteq> C_OK \<and> code b \<noteq> C_BPTREE_ITERATOR_END then Inr (code b, b, c)
      else if data_segment b = [] then Inr (C_OK, b, c)
      else bindR (index_info t (ix_pos x)) (\<lambda>i.
        bindR (mapR (record_key fo obj t i (chunk_row_desc c)) (data_segment b)) (\<lambda>ks.
        let b1 = b\<lparr>data_segment := map (\<lambda>(k, _). (k, [])) (data_segment b)\<rparr> in
        bindR (Index_GetRecords kv ks [] x) (\<lambda>(st, vs).
          if st \<noteq> C_OK then Inr (st, b1, c)
          else bindR (PullData t vs c) (\<lambda>(st1, c1).
            Inr (st1, b1\<lparr>visited_kv_count := visited_kv_count b1 + length (data_segment b1)\<rparr>, c1))))))"

definition IndexIterator_GetItem :: "base_iter \<Rightarrow> chunk \<Rightarrow> status \<times> base_iter \<times> chunk" where
  "IndexIterator_GetItem b c =
     (if code b \<noteq> C_OK \<and> code b \<noteq> C_BPTREE_ITERATOR_END then (code b, b, c)
      else if data_segment b = [] then (C_OK, b, c)
      else (C_OK, b\<lparr>visited_kv_count := visited_kv_count b + length (data_segment b)\<rparr>, c))"

end
