(* ===== verification/Executors.thy ===== *)
theory Executors
  imports Plan TableStore CreateStatements
begin

text \<open>
  The executors of a statement (\<open>sql/executor\<close>) and their ports (\<open>scheduler/port.cc\<close>,
  \<open>scheduler/source.cc\<close>, \<open>scheduler/transform.cc\<close>, \<open>scheduler/sink.cc\<close>).

  Executors and chunks are objects of the runtime and referred to by their position. Two connected
  ports share a cache that holds a chunk pointer; an uninitialized one must not be read. What the
  program gets from its surroundings is the environment: the storage, the messages, floating point
  texts, string objects and the orders of the hash containers.
\<close>

record 's env =
  en_kv :: "'s kv_api"
  en_pb :: proto_ops
  en_fo :: float_ops
  en_obj :: "bytes \<Rightarrow> bytes"
  en_ord :: hash_order
  en_set :: "u64 set \<Rightarrow> u64 list"

record 's scan_exec =
  sx_table :: "'s table"
  sx_iter :: "base_iter option"
  sx_ranges :: "index_range list"
  sx_row_desc :: RowDescriptor
  sx_chunk :: nat

record 's insert_exec =
  ix_plan :: Insert
  ix_table :: "'s table"
  ix_row_desc :: RowDescriptor
  ix_chunk :: nat

datatype 's executor =
  TableScanExec "'s scan_exec"
| FilterExec nat nat
| ResultSetExec nat
| InsertExec "'s insert_exec"
| CreateDatabaseExec RelOptTable
| CreateTableExec RelOptTable

text \<open>An executor with the ports it has: the executor at the other end and the shared cache.\<close>

record 's exec_obj =
  exec :: "'s executor"
  inputs :: "(nat \<times> nat) list"
  outputs :: "(nat \<times> nat) list"

record 's runtime =
  exec_objs :: "'s exec_obj list"
  caches :: "nat option list"
  chunk_objs :: "chunk list"
  rt_storage :: 's
  cout :: bytes

datatype exec_state = kNeedData | kPortFull | kReady | kFinished

section \<open>Ports\<close>

definition new_chunk :: "'s runtime \<Rightarrow> nat \<times> 's runtime" where
  "new_chunk rt = (length (chunk_objs rt), rt\<lparr>chunk_objs := chunk_objs rt @ [Chunk]\<rparr>)"

definition get_chunk :: "nat \<Rightarrow> 's runtime \<Rightarrow> chunk res" where
  "get_chunk c rt = (if c < length (chunk_objs rt) then Inr (chunk_objs rt ! c) else Inl Undefined_Behaviour)"

definition put_chunk :: "nat \<Rightarrow> chunk \<Rightarrow> 's runtime \<Rightarrow> 's runtime" where
  "put_chunk c ch rt = rt\<lparr>chunk_objs := (chunk_objs rt)[c := ch]\<rparr>"

definition PushData :: "nat \<times> nat \<Rightarrow> nat \<Rightarrow> 's runtime \<Rightarrow> 's runtime" where
  "PushData port c rt = rt\<lparr>caches := (caches rt)[snd port := Some c]\<rparr>"

definition PullData_port :: "nat \<times> nat \<Rightarrow> 's runtime \<Rightarrow> nat res" where
  "PullData_port port rt = (case caches rt ! snd port of Some c \<Rightarrow> Inr c | None \<Rightarrow> Inl Undefined_Behaviour)"

section \<open>Scanning\<close>

text \<open>A row index that is still null after \<open>Prepare\<close> is dereferenced by the iterator.\<close>

definition scan_index :: "'s table \<Rightarrow> 's index res" where
  "scan_index tb =
     (case row_index tb of
        None \<Rightarrow> Inl Undefined_Behaviour
      | Some n \<Rightarrow> let x = index_objs tb ! n in Inr (x\<lparr>ix_tree := (ix_tree x)\<lparr>storage := table_storage tb\<rparr>\<rparr>))"

fun add_ranges :: "index_range list \<Rightarrow> base_iter \<Rightarrow> (index_range list \<times> base_iter) res" where
  "add_ranges [] b = Inr ([], b)"
| "add_ranges (r # rs) b =
     bindR (AddRange r b) (\<lambda>(_, r1, b1). bindR (add_ranges rs b1) (\<lambda>(rs1, b2). Inr (r1 # rs1, b2)))"

text \<open>\<open>Generate\<close>. The number of rounds of the loop of \<open>Next\<close> is bounded as in \<open>scan_pages\<close>.\<close>

definition Generate :: "'s env \<Rightarrow> 's scan_exec \<Rightarrow> chunk \<Rightarrow> (status \<times> 's scan_exec \<times> chunk) res" where
  "Generate en x c =
     bindR (if row_index (sx_table x) = None then
              bindR (Prepare (en_kv en) (en_pb en) (sx_table x)) (\<lambda>(st, tb). Inr (st, tb, SetRowDesc (sx_row_desc x) c))
            else Inr (C_OK, sx_table x, c)) (\<lambda>(st, tb, c1).
     let x1 = x\<lparr>sx_table := tb\<rparr> in
     if st \<noteq> C_OK then Inr (st, x1, c1)
     else bindR (case sx_iter x1 of
                   None \<Rightarrow> bindR (add_ranges (sx_ranges x1) (BaseIterator 1024)) (\<lambda>(rs, b).
                     Inr (x1\<lparr>sx_ranges := rs\<rparr>, b))
                 | Some b \<Rightarrow> Inr (x1, b)) (\<lambda>(x2, b).
       bindR (scan_index tb) (\<lambda>ix.
       let back = (\<lambda>b tr. x2\<lparr>sx_iter := Some b,
              sx_table := tb\<lparr>index_objs := (index_objs tb)[the (row_index tb) := ix\<lparr>ix_tree := tr\<rparr>],
                             table_storage := storage tr\<rparr>\<rparr>) in
       bindR (BaseIterator_Open (en_kv en) (en_pb en) b (ix_tree ix)) (\<lambda>(st1, b1, tr1).
       if st1 \<noteq> C_OK then Inr (st1, back b1 tr1, c1)
       else bindR (BaseIterator_Next (en_kv en) (en_pb en) (2 * length (it_ops b1) + 2) b1 tr1) (\<lambda>(b2, tr2).
         bindR (TableIterator_GetItem (en_kv en) (en_fo en) (en_obj en) (table_info tb) (ix\<lparr>ix_tree := tr2\<rparr>) b2 c1)
           (\<lambda>(st2, b3, c2). Inr (st2, back b3 tr2, c2)))))))"

section \<open>Inserting\<close>

fun set_record :: "RowDescriptor \<Rightarrow> nat \<Rightarrow> expr_node option list \<Rightarrow> Row \<Rightarrow> Row res" where
  "set_record d j [] r = Inr r"
| "set_record d j (cell # cs) r =
     bindR (GetColumnDesc (of_nat j) d) (\<lambda>cd.
       case cell of
         None \<Rightarrow> Inl Undefined_Behaviour
       | Some (LiteralExpr v) \<Rightarrow> bindR (SetColValue (row_id d) (desc_id cd) v r) (\<lambda>(_, r1). set_record d (Suc j) cs r1))"

fun add_records :: "RowDescriptor \<Rightarrow> expr_node option list list \<Rightarrow> chunk \<Rightarrow> chunk res" where
  "add_records d [] c = Inr c"
| "add_records d (rec # recs) c =
     bindR (set_record d 0 rec (Row d)) (\<lambda>r. add_records d recs (AddRow r c))"

text \<open>A failed insertion is logged and reported as success.\<close>

definition Insert_Consume :: "'s env \<Rightarrow> 's insert_exec \<Rightarrow> chunk \<Rightarrow> (status \<times> 's insert_exec \<times> chunk) res" where
  "Insert_Consume en x c =
     (let c1 = (if chunk_row_desc c = None then SetRowDesc (ix_row_desc x) c else c) in
      bindR (add_records (ix_row_desc x) (expr_nodes (ix_plan x)) c1) (\<lambda>c2.
      bindR (Table_Insert (en_kv en) (en_pb en) (en_fo en) (en_obj en) (en_ord en) c2 (ix_table x)) (\<lambda>(_, tb).
        Inr (C_OK, x\<lparr>ix_table := tb\<rparr>, c2))))"

section \<open>Printing\<close>

definition space_bar_space :: bytes where "space_bar_space = [32, 124, 32]"
definition space_bar_endl :: bytes where "space_bar_endl = [32, 124, 10]"

fun print_columns :: "'s env \<Rightarrow> Row \<Rightarrow> ColumnDescriptor list \<Rightarrow> bytes \<Rightarrow> bytes res" where
  "print_columns en r [] out = Inr out"
| "print_columns en r (d # ds) out =
     bindR (GetColValue (en_obj en) (row_id (row_desc r)) (desc_id d) r) (\<lambda>v.
     bindR (ToString (en_fo en) v) (\<lambda>s. print_columns en r ds (out @ space_bar_space @ s)))"

definition print_row :: "'s env \<Rightarrow> Row \<Rightarrow> bytes \<Rightarrow> bytes res" where
  "print_row en r out = bindR (print_columns en r (cols (row_desc r)) out) (\<lambda>o1. Inr (o1 @ space_bar_endl))"

fun print_rows :: "'s env \<Rightarrow> nat \<Rightarrow> chunk \<Rightarrow> bytes \<Rightarrow> (chunk \<times> bytes) res" where
  "print_rows en fuel c out =
     (if ReachEnd c then Inr (c, out)
      else (case fuel of 0 \<Rightarrow> Inl Diverges
            | Suc n \<Rightarrow> bindR (CurrentRow c) (\<lambda>r. bindR (print_row en r out) (\<lambda>o1. print_rows en n (Chunk_Next c) o1))))"

declare print_rows.simps [simp del]

definition ResultSet_Consume :: "'s env \<Rightarrow> chunk \<Rightarrow> bytes \<Rightarrow> (chunk \<times> bytes) res" where
  "ResultSet_Consume en c out = print_rows en (length (select c)) (ResetCursor c) out"

section \<open>Prepare and Work\<close>

definition first_port :: "(nat \<times> nat) list \<Rightarrow> (nat \<times> nat) res" where
  "first_port ps = (case ps of [] \<Rightarrow> Inl Std_Exception | p # _ \<Rightarrow> Inr p)"

definition put_exec :: "nat \<Rightarrow> 's executor \<Rightarrow> 's runtime \<Rightarrow> 's runtime" where
  "put_exec p e rt = rt\<lparr>exec_objs := (exec_objs rt)[p := (exec_objs rt ! p)\<lparr>exec := e\<rparr>]\<rparr>"

text \<open>A source pushes its chunk before it is filled; a transform passes both pointers on; a sink
  without input keeps its own chunk.\<close>

definition sink_Prepare :: "'s exec_obj \<Rightarrow> nat \<Rightarrow> 's runtime \<Rightarrow> (exec_state \<times> nat) res" where
  "sink_Prepare o1 own rt =
     (case inputs o1 of
        [] \<Rightarrow> Inr (kFinished, own)
      | p # _ \<Rightarrow> bindR (PullData_port p rt) (\<lambda>c. Inr (kReady, c)))"

definition exec_Prepare :: "nat \<Rightarrow> 's runtime \<Rightarrow> (exec_state \<times> 's runtime) res" where
  "exec_Prepare p rt =
     (let o1 = exec_objs rt ! p in
      case exec o1 of
        TableScanExec x \<Rightarrow> bindR (first_port (outputs o1)) (\<lambda>out. Inr (kFinished, PushData out (sx_chunk x) rt))
      | FilterExec c_in c_out \<Rightarrow>
          bindR (first_port (inputs o1)) (\<lambda>i. bindR (PullData_port i rt) (\<lambda>c.
          bindR (first_port (outputs o1)) (\<lambda>out.
            Inr (kNeedData, PushData out c_out (put_exec p (FilterExec c c_out) rt)))))
      | ResultSetExec c \<Rightarrow> bindR (sink_Prepare o1 c rt) (\<lambda>(s, c1). Inr (s, put_exec p (ResultSetExec c1) rt))
      | InsertExec x \<Rightarrow> bindR (sink_Prepare o1 (ix_chunk x) rt) (\<lambda>(s, c1).
          Inr (s, put_exec p (InsertExec (x\<lparr>ix_chunk := c1\<rparr>)) rt))
      | CreateDatabaseExec t \<Rightarrow> Inr (kNeedData, rt)
      | CreateTableExec t \<Rightarrow> Inr (kNeedData, rt))"

text \<open>\<open>FilterExecutor::Transform\<close> looks at no condition.\<close>

definition Filter_Transform :: "nat \<Rightarrow> nat \<Rightarrow> 's runtime \<Rightarrow> (status \<times> 's runtime) res" where
  "Filter_Transform c_in c_out rt =
     bindR (get_chunk c_in rt) (\<lambda>ci. bindR (get_chunk c_out rt) (\<lambda>co.
       let (co1, ci1) = Chunk_move co ci in Inr (C_OK, put_chunk c_out co1 (put_chunk c_in ci1 rt))))"

definition exec_Work :: "'s env \<Rightarrow> nat \<Rightarrow> 's runtime \<Rightarrow> (status \<times> 's runtime) res" where
  "exec_Work en p rt =
     (case exec (exec_objs rt ! p) of
        TableScanExec x \<Rightarrow>
          bindR (get_chunk (sx_chunk x) rt) (\<lambda>c.
          bindR (Generate en (x\<lparr>sx_table := (sx_table x)\<lparr>table_storage := rt_storage rt\<rparr>\<rparr>) c) (\<lambda>(st, x1, c1).
            Inr (st, put_chunk (sx_chunk x) c1
              (put_exec p (TableScanExec x1) (rt\<lparr>rt_storage := table_storage (sx_table x1)\<rparr>)))))
      | FilterExec c_in c_out \<Rightarrow> Filter_Transform c_in c_out rt
      | ResultSetExec c \<Rightarrow>
          bindR (get_chunk c rt) (\<lambda>ch. bindR (ResultSet_Consume en ch (cout rt)) (\<lambda>(ch1, out).
            Inr (C_OK, put_chunk c ch1 (rt\<lparr>cout := out\<rparr>))))
      | InsertExec x \<Rightarrow>
          bindR (get_chunk (ix_chunk x) rt) (\<lambda>c.
          bindR (Insert_Consume en (x\<lparr>ix_table := (ix_table x)\<lparr>table_storage := rt_storage rt\<rparr>\<rparr>) c) (\<lambda>(st, x1, c1).
            Inr (st, put_chunk (ix_chunk x) c1
              (put_exec p (InsertExec x1) (rt\<lparr>rt_storage := table_storage (ix_table x1)\<rparr>)))))
      | CreateDatabaseExec t \<Rightarrow>
          (case rel_schema t of
             None \<Rightarrow> Inl Undefined_Behaviour
           | Some i \<Rightarrow> bindR (CreateDatabase_DoWork (en_kv en) (en_pb en) (en_set en) i (rt_storage rt)) (\<lambda>(st, s1).
               Inr (st, rt\<lparr>rt_storage := s1\<rparr>)))
      | CreateTableExec t \<Rightarrow>
          (case rel_table t of
             None \<Rightarrow> Inl Undefined_Behaviour
           | Some i \<Rightarrow> bindR (CreateTable_DoWork (en_kv en) (en_pb en) (en_set en) i (rt_storage rt)) (\<lambda>(st, i1, s1).
               Inr (st, put_exec p (CreateTableExec (t\<lparr>rel_table := Some i1\<rparr>)) (rt\<lparr>rt_storage := s1\<rparr>)))))"

text \<open>No executor does anything to open or close.\<close>

definition exec_Open :: "nat \<Rightarrow> 's runtime \<Rightarrow> status" where "exec_Open p rt = C_OK"
definition exec_Close :: "nat \<Rightarrow> 's runtime \<Rightarrow> status" where "exec_Close p rt = C_OK"

end
