(* ===== verification/Scheduler.thy ===== *)
theory Scheduler
  imports Executors
begin

text \<open>
  From a physical plan to its execution: \<open>executor/executor_util.cc\<close>, \<open>scheduler/port.cc\<close>,
  \<open>scheduler/executing_graph.cc\<close> and \<open>scheduler/scheduler.cc\<close>. Executors are created parent first
  and numbered children first; every one is prepared and run once, in the order of the numbers.
\<close>

section \<open>Executors of a plan\<close>

definition new_exec :: "'s executor \<Rightarrow> 's runtime \<Rightarrow> nat \<times> 's runtime" where
  "new_exec e rt =
     (length (exec_objs rt), rt\<lparr>exec_objs := exec_objs rt @ [\<lparr>exec = e, inputs = [], outputs = []\<rparr>]\<rparr>)"

text \<open>A node of another type leaves the pointer that is returned uninitialized.\<close>

definition ToExecutor :: "RelOptNode \<Rightarrow> 's runtime \<Rightarrow> (nat \<times> 's runtime) res" where
  "ToExecutor physical rt =
     (case physical of
        PhysicalResultSet \<Rightarrow> let (c, rt1) = new_chunk rt in Inr (new_exec (ResultSetExec c) rt1)
      | PhysicalTableScan sc \<Rightarrow>
          let (c, rt1) = new_chunk rt in
          (case rel_table (scan_table sc) of
             None \<Rightarrow> Inl Undefined_Behaviour
           | Some t \<Rightarrow> Inr (new_exec (TableScanExec
               \<lparr>sx_table = Table t (rt_storage rt), sx_iter = None, sx_ranges = primary_ranges sc,
                sx_row_desc = ToRowDesc t, sx_chunk = c\<rparr>) rt1))
      | PhysicalFilter _ \<Rightarrow>
          let (c_in, rt1) = new_chunk rt; (c_out, rt2) = new_chunk rt1 in
          Inr (new_exec (FilterExec c_in c_out) rt2)
      | PhysicalCreateDatabase t \<Rightarrow> Inr (new_exec (CreateDatabaseExec t) rt)
      | PhysicalCreateTable t \<Rightarrow> Inr (new_exec (CreateTableExec t) rt)
      | PhysicalInsert i \<Rightarrow>
          let (c, rt1) = new_chunk rt in
          (case rel_table (insert_table i) of
             None \<Rightarrow> Inl Undefined_Behaviour
           | Some t \<Rightarrow> Inr (new_exec (InsertExec
               \<lparr>ix_plan = i, ix_table = Table t (rt_storage rt), ix_row_desc = ToRowDesc t, ix_chunk = c\<rparr>) rt1))
      | _ \<Rightarrow> Inl Undefined_Behaviour)"

text \<open>The cache of a new pair of ports holds no pointer yet.\<close>

definition upd_exec :: "nat \<Rightarrow> ('s exec_obj \<Rightarrow> 's exec_obj) \<Rightarrow> 's runtime \<Rightarrow> 's runtime" where
  "upd_exec p f rt = rt\<lparr>exec_objs := (exec_objs rt)[p := f (exec_objs rt ! p)]\<rparr>"

definition Connect :: "nat \<Rightarrow> nat \<Rightarrow> 's runtime \<Rightarrow> 's runtime" where
  "Connect p c rt =
     (let ch = length (caches rt) in
      upd_exec c (\<lambda>x. x\<lparr>outputs := outputs x @ [(p, ch)]\<rparr>)
        (upd_exec p (\<lambda>x. x\<lparr>inputs := inputs x @ [(c, ch)]\<rparr>)
          (rt\<lparr>caches := caches rt @ [None]\<rparr>)))"

text \<open>The objects and the vector \<open>executors_\<close>.\<close>

fun graph_ToExecutor :: "plan \<Rightarrow> 's runtime \<times> nat list \<Rightarrow> (nat \<times> 's runtime \<times> nat list) res"
and graph_inputs :: "nat \<Rightarrow> plan list \<Rightarrow> 's runtime \<times> nat list \<Rightarrow> ('s runtime \<times> nat list) res" where
  "graph_ToExecutor (RelNode op ps) (rt, es) =
     bindR (ToExecutor op rt) (\<lambda>(p, rt1).
     bindR (graph_inputs p ps (rt1, es)) (\<lambda>(rt2, es2). Inr (p, rt2, es2 @ [p])))"
| "graph_inputs p [] s = Inr s"
| "graph_inputs p (q # qs) s =
     bindR (graph_ToExecutor q s) (\<lambda>(c, rt1, es1). graph_inputs p qs (Connect p c rt1, es1))"

section \<open>The graph\<close>

datatype run_state = kIdle | kPreparing | kExecuting | kRunFinished

definition StateConv :: "exec_state \<Rightarrow> run_state" where
  "StateConv s = (case s of kNeedData \<Rightarrow> kIdle | kPortFull \<Rightarrow> kIdle | kReady \<Rightarrow> kExecuting | kFinished \<Rightarrow> kRunFinished)"

record edge = to :: nat  backward :: bool

record graph_node =
  node_exec :: nat
  node_id :: nat
  directed_edges :: "edge list"
  backward_edges :: "edge list"
  running_state :: run_state
  data_state :: exec_state

record graph =
  executors :: "nat list"
  nodes :: "graph_node list"
  exec_to_id :: "nat \<rightharpoonup> nat"

definition Node :: "nat \<Rightarrow> nat \<Rightarrow> graph_node" where
  "Node e i = \<lparr>node_exec = e, node_id = i, directed_edges = [], backward_edges = [],
               running_state = kIdle, data_state = kNeedData\<rparr>"

definition initExecutors :: "plan \<Rightarrow> 's runtime \<Rightarrow> (graph \<times> 's runtime) res" where
  "initExecutors pl rt =
     bindR (graph_ToExecutor pl (rt, [])) (\<lambda>(_, rt1, es).
       Inr (\<lparr>executors = es, nodes = [], exec_to_id = Map.empty\<rparr>, rt1))"

definition initNodes :: "graph \<Rightarrow> graph" where
  "initNodes g =
     (let numbered = zip (executors g) [0..<length (executors g)] in
      g\<lparr>exec_to_id := fold (\<lambda>(e, i) m. m(e \<mapsto> i)) numbered (exec_to_id g),
        nodes := nodes g @ map (\<lambda>(e, i). Node e i) numbered\<rparr>)"

text \<open>The edges of one node. A port of the peer is found by its address, which dangles when the
  vector of the ports of the peer has grown since the connection.\<close>

definition peer_edge :: "graph \<Rightarrow> 's runtime \<Rightarrow> bool \<Rightarrow> nat \<times> nat \<Rightarrow> edge res" where
  "peer_edge g rt back port =
     (let peer = exec_objs rt ! fst port; ports = (if back then outputs peer else inputs peer) in
      if ports = [] \<or> snd (last ports) \<noteq> snd port then Inl Undefined_Behaviour
      else case exec_to_id g (fst port) of
             None \<Rightarrow> Inl Assert_Abort
           | Some i \<Rightarrow> Inr \<lparr>to = i, backward = back\<rparr>)"

fun node_edges :: "graph \<Rightarrow> 's runtime \<Rightarrow> graph_node list \<Rightarrow> graph_node list res" where
  "node_edges g rt [] = Inr []"
| "node_edges g rt (n # ns) =
     (let o1 = exec_objs rt ! node_exec n in
      bindR (mapR (peer_edge g rt True) (inputs o1)) (\<lambda>bs.
      bindR (mapR (peer_edge g rt False) (outputs o1)) (\<lambda>ds.
      bindR (node_edges g rt ns) (\<lambda>ns1. Inr (n\<lparr>backward_edges := bs, directed_edges := ds\<rparr> # ns1)))))"

definition initEdges :: "'s runtime \<Rightarrow> graph \<Rightarrow> graph res" where
  "initEdges rt g = bindR (node_edges g rt (nodes g)) (\<lambda>ns. Inr (g\<lparr>nodes := ns\<rparr>))"

definition Graph_Init :: "plan \<Rightarrow> 's runtime \<Rightarrow> (graph \<times> 's runtime) res" where
  "Graph_Init pl rt =
     bindR (initExecutors pl rt) (\<lambda>(g, rt1). bindR (initEdges rt1 (initNodes g)) (\<lambda>g1. Inr (g1, rt1)))"

text \<open>The loops of \<open>Open\<close> and \<open>Close\<close> run from the last node to the first.\<close>

fun until_failure :: "(nat \<Rightarrow> status) \<Rightarrow> nat list \<Rightarrow> status" where
  "until_failure f [] = C_OK"
| "until_failure f (p # ps) = (if f p \<noteq> C_OK then f p else until_failure f ps)"

definition Graph_Open :: "graph \<Rightarrow> 's runtime \<Rightarrow> status" where
  "Graph_Open g rt = until_failure (\<lambda>p. exec_Open p rt) (rev (map node_exec (nodes g)))"

definition Graph_Close :: "graph \<Rightarrow> 's runtime \<Rightarrow> status" where
  "Graph_Close g rt = until_failure (\<lambda>p. exec_Close p rt) (rev (map node_exec (nodes g)))"

definition Graph_Prepare :: "nat \<Rightarrow> graph \<Rightarrow> 's runtime \<Rightarrow> (graph \<times> 's runtime) res" where
  "Graph_Prepare i g rt =
     bindR (exec_Prepare (node_exec (nodes g ! i)) rt) (\<lambda>(s, rt1).
       Inr (g\<lparr>nodes := (nodes g)[i := (nodes g ! i)\<lparr>data_state := s, running_state := StateConv s\<rparr>]\<rparr>, rt1))"

definition Graph_Work :: "'s env \<Rightarrow> nat \<Rightarrow> graph \<Rightarrow> 's runtime \<Rightarrow> (status \<times> 's runtime) res" where
  "Graph_Work en i g rt = exec_Work en (node_exec (nodes g ! i)) rt"

section \<open>The scheduler\<close>

text \<open>A task is the index of its node. First the queue of the tasks that execute is emptied; what is
  pending then becomes executing, until nothing is left.\<close>

fun run_queue :: "'s env \<Rightarrow> nat list \<Rightarrow> graph \<Rightarrow> 's runtime \<Rightarrow> (status \<times> graph \<times> 's runtime) res" where
  "run_queue en [] g rt = Inr (C_OK, g, rt)"
| "run_queue en (i # ix) g rt =
     bindR (Graph_Prepare i g rt) (\<lambda>(g1, rt1). bindR (Graph_Work en i g1 rt1) (\<lambda>(st, rt2).
       if st \<noteq> C_OK then Inr (st, g1, rt2) else run_queue en ix g1 rt2))"

function run_tasks :: "'s env \<Rightarrow> nat list \<Rightarrow> nat list \<Rightarrow> graph \<Rightarrow> 's runtime \<Rightarrow> (status \<times> graph \<times> 's runtime) res" where
  "run_tasks en pending executing g rt =
     bindR (run_queue en executing g rt) (\<lambda>(st, g1, rt1).
       if st \<noteq> C_OK then Inr (st, g1, rt1)
       else if pending \<noteq> [] then run_tasks en [] pending g1 rt1
       else Inr (C_OK, g1, rt1))"
  by pat_completeness auto
termination by (relation "measure (\<lambda>(_, pending, _). length pending)") auto

declare run_tasks.simps [simp del]

definition Scheduler_Run :: "'s env \<Rightarrow> plan \<Rightarrow> 's runtime \<Rightarrow> (status \<times> 's runtime) res" where
  "Scheduler_Run en pl rt =
     bindR (Graph_Init pl rt) (\<lambda>(g, rt1).
     if Graph_Open g rt1 \<noteq> C_OK then Inr (Graph_Open g rt1, rt1)
     else bindR (run_tasks en [0..<length (nodes g)] [] g rt1) (\<lambda>(st, g2, rt2).
       if st \<noteq> C_OK then Inr (st, rt2) else Inr (Graph_Close g2 rt2, rt2)))"

definition Runtime :: "'s \<Rightarrow> bytes \<Rightarrow> 's runtime" where
  "Runtime s out = \<lparr>exec_objs = [], caches = [], chunk_objs = [], rt_storage = s, cout = out\<rparr>"

definition ExecutePlan :: "'s env \<Rightarrow> plan \<Rightarrow> 's \<Rightarrow> bytes \<Rightarrow> (status \<times> 's \<times> bytes) res" where
  "ExecutePlan en physical_plan s out =
     bindR (Scheduler_Run en physical_plan (Runtime s out)) (\<lambda>(st, rt). Inr (st, rt_storage rt, cout rt))"

section \<open>Execution in order\<close>

text \<open>What the scheduler amounts to: prepare and run the executors one by one.\<close>

fun run_in_order :: "'s env \<Rightarrow> nat list \<Rightarrow> 's runtime \<Rightarrow> (status \<times> 's runtime) res" where
  "run_in_order en [] rt = Inr (C_OK, rt)"
| "run_in_order en (p # ps) rt =
     bindR (exec_Prepare p rt) (\<lambda>(_, rt1). bindR (exec_Work en p rt1) (\<lambda>(st, rt2).
       if st \<noteq> C_OK then Inr (st, rt2) else run_in_order en ps rt2))"

lemma until_failure_ok: "(\<And>p. f p = C_OK) \<Longrightarrow> until_failure f ps = C_OK"
  by (induction ps) auto

lemma Graph_Open_ok: "Graph_Open g rt = C_OK"
  by (simp add: Graph_Open_def until_failure_ok exec_Open_def)

lemma Graph_Close_ok: "Graph_Close g rt = C_OK"
  by (simp add: Graph_Close_def until_failure_ok exec_Close_def)

lemma Graph_Prepare_execs:
  "Graph_Prepare i g rt = Inr (g1, rt1) \<Longrightarrow> map node_exec (nodes g1) = map node_exec (nodes g)"
  by (auto simp: Graph_Prepare_def bindR_Inr_iff map_update intro!: nth_equalityI)
    (metis graph_node.select_convs(1) length_map list_update_beyond list_update_id linorder_not_less map_update nth_map graph_node.surjective graph_node.update_convs(5,6))

end
