(* ===== verification/Analyzers.thy ===== *)
theory Analyzers
  imports Printing Cascades Scheduler
begin

text \<open>
  From the syntax tree of a statement to its execution: the analyzers (\<open>sql/analyzer\<close>), the function
  \<open>run\<close> and the program \<open>main\<close> (\<open>sql/main.cc\<close>), and \<open>GenAst\<close> (\<open>parser/parser.cc\<close>).

  The scanner and parser are generated from \<open>sql_lex.l\<close> and \<open>sql_parse.y\<close> and an argument: they give a
  status and the statements found in a text. The hash function of the id allocator, its
  options and the clock are gathered in \<open>machine\<close>. What a statement prints is appended to the output.
\<close>

record 's machine =
  mc_env :: "'s env"
  mc_hash :: "bytes \<Rightarrow> u64"
  mc_alloc :: id_allocator
  mc_now :: u64
  mc_double :: double_ops
  mc_parse :: "bytes \<Rightarrow> status \<times> node list"

section \<open>Expressions\<close>

text \<open>Literals of other types than these become null pointers.\<close>

fun toLiteralNode :: "literal \<Rightarrow> expr_node option" where
  "toLiteralNode (LT_INT v) = Some (LiteralExpr (NewInt64 v))"
| "toLiteralNode (LT_DOUBLE v) = Some (LiteralExpr (NewDouble v))"
| "toLiteralNode (LT_BOOL b) = Some (LiteralExpr (NewBool b))"
| "toLiteralNode LT_NULL = Some (LiteralExpr (NewNull Null))"
| "toLiteralNode _ = None"

text \<open>So do expressions that are no literals; a pointer to no expression at all is cast to null and
  dereferenced.\<close>

definition toExprNode :: "node \<Rightarrow> expr_node option res" where
  "toExprNode parse_expr =
     bindR (expr_type parse_expr) (\<lambda>t.
       Inr (case parse_expr of LiteralNode _ lit \<Rightarrow> toLiteralNode lit | _ \<Rightarrow> None))"

definition AnalyzeNode :: "node \<Rightarrow> expr_node option res" where
  "AnalyzeNode expr = toExprNode expr"

section \<open>INSERT\<close>

text \<open>The rows of values: each is the children of a row expression.\<close>

definition analyze_row :: "node \<Rightarrow> expr_node option list res" where
  "analyze_row row = (case row of RowNode items \<Rightarrow> mapR AnalyzeNode items | _ \<Rightarrow> Inl Undefined_Behaviour)"

definition Insert_Analyze :: "'s env \<Rightarrow> InsertHead \<Rightarrow> node list \<Rightarrow> 's \<Rightarrow> (status \<times> plan option) res" where
  "Insert_Analyze en h value_lists s =
     (case in_table_name h of
        None \<Rightarrow> Inl Undefined_Behaviour
      | Some tn \<Rightarrow>
          bindR (LoadDatabaseIdByName (en_kv en) (tn_db tn) kInvalidIDatabaseID s) (\<lambda>(st, db_id).
          if st \<noteq> C_OK then Inr (C_DATABASE_NOT_FOUND, None)
          else bindR (LoadTableIdByName (en_kv en) db_id (tn_table tn) kInvalidTableID s) (\<lambda>(st, table_id).
          if st \<noteq> C_OK then Inr (C_TABLE_NOT_FOUND, None)
          else bindR (LoadDatabaseMeta (en_kv en) (en_pb en) db_id DatabaseInfo_new s) (\<lambda>(st, db_info).
          if st \<noteq> C_OK then Inr (st, None)
          else bindR (LoadTableMeta (en_kv en) (en_pb en) db_id table_id TableInfo_new s) (\<lambda>(st, t).
          if st \<noteq> C_OK then Inr (st, None)
          else bindR (mapR analyze_row value_lists) (\<lambda>rows.
            Inr (C_OK, Some (RelNode (LogicalInsert
              \<lparr>insert_table = \<lparr>rel_schema = Some db_info, rel_table = Some t\<rparr>, expr_nodes = rows\<rparr>) []))))))))"

section \<open>SELECT\<close>

text \<open>A range for each column of the primary index, from the least to the greatest value of its type.\<close>

definition primary_range :: "ColumnInfo \<Rightarrow> index_range" where
  "primary_range c =
     \<lparr>rng_lower = \<lparr>rpt_value = [NewMin (ToExprType (col_type c))], rpt_type = LEFT_CLOSE\<rparr>,
      rng_upper = \<lparr>rpt_value = [NewMax (ToExprType (col_type c))], rpt_type = RIGHT_OPEN\<rparr>, lower_str = [], upper_str = []\<rparr>"

definition logical_query :: "RelOptTable \<Rightarrow> index_range list \<Rightarrow> plan" where
  "logical_query table index_ranges =
     RelNode LogicalResultSet [RelNode (LogicalFilter []) [RelNode (LogicalTableScan
       \<lparr>scan_table = table, primary_ranges = index_ranges, primary_filters = [], table_filters = []\<rparr>) []]]"

text \<open>The source must be a table: neither the cast of another node nor its name is tested.\<close>

definition Select_Analyze :: "'s env \<Rightarrow> node \<Rightarrow> 's \<Rightarrow> (status \<times> plan option) res" where
  "Select_Analyze en table_refs s =
     (case table_refs of
        TableSourceNode (Some tn) _ _ _ \<Rightarrow>
          bindR (LoadDatabaseIdByName (en_kv en) (tn_db tn) kInvalidIDatabaseID s) (\<lambda>(st, db_id).
          if st \<noteq> C_OK then Inr (st, None)
          else bindR (LoadDatabaseMeta (en_kv en) (en_pb en) db_id DatabaseInfo_new s) (\<lambda>(st, db_info).
          if st \<noteq> C_OK then Inr (st, None)
          else bindR (LoadTableIdByName (en_kv en) db_id (tn_table tn) kInvalidTableID s) (\<lambda>(st, table_id).
          if st \<noteq> C_OK then Inr (st, None)
          else bindR (LoadTableMeta (en_kv en) (en_pb en) db_id table_id TableInfo_new s) (\<lambda>(st, t).
          if st \<noteq> C_OK then Inr (st, None)
          else case primary_index t of
                 None \<Rightarrow> Inl Undefined_Behaviour
               | Some k \<Rightarrow>
                   Inr (C_OK, Some (logical_query \<lparr>rel_schema = Some db_info, rel_table = Some t\<rparr>
                     (map primary_range (idx_columns (index_list t ! k)))))))))
      | _ \<Rightarrow> Inl Undefined_Behaviour)"

section \<open>Statements\<close>

text \<open>For a statement of any other type the analyzer is a null pointer.\<close>

definition AnalyzeAst :: "'s machine \<Rightarrow> node \<Rightarrow> 's \<Rightarrow> (status \<times> plan option \<times> 's) res" where
  "AnalyzeAst mc stmt s =
     (let en = mc_env mc in
      case stmt of
        SelectNode _ _ table_refs _ _ _ _ _ \<Rightarrow> bindR (Select_Analyze en table_refs s) (\<lambda>(st, p). Inr (st, p, s))
      | InsertNode h _ value_lists _ \<Rightarrow> bindR (Insert_Analyze en h value_lists s) (\<lambda>(st, p). Inr (st, p, s))
      | CreateDatabaseNode d \<Rightarrow>
          bindR (CreateDatabase_Analyze (mc_hash mc) (en_kv en) (en_pb en) (mc_alloc mc) (mc_now mc) d s) (\<lambda>(st, info, s1).
            Inr (st, map_option (\<lambda>i. RelNode (LogicalCreateDatabase \<lparr>rel_schema = Some i, rel_table = None\<rparr>) []) info, s1))
      | CreateTableNode d \<Rightarrow>
          bindR (CreateTable_Analyze (mc_hash mc) (en_kv en) (en_pb en) (mc_alloc mc) (mc_now mc) d s) (\<lambda>(st, info, s1).
            Inr (st, map_option (\<lambda>(i, t). RelNode (LogicalCreateTable \<lparr>rel_schema = Some i, rel_table = Some t\<rparr>) []) info, s1))
      | _ \<Rightarrow> Inl Undefined_Behaviour)"

text \<open>The first statement of a text; an empty text has none to take.\<close>

definition GenAst :: "'s machine \<Rightarrow> bytes \<Rightarrow> (status \<times> node) res" where
  "GenAst mc raw_sql =
     (let (error, result) = mc_parse mc raw_sql in
      if error \<noteq> C_OK then Inr (error, Nullptr)
      else case result of [] \<Rightarrow> Inl Undefined_Behaviour | stmt # _ \<Rightarrow> Inr (C_OK, stmt))"

text \<open>\<open>run\<close>: the fuel bounds the optimizer. A null plan is dereferenced, by the planner or by the scheduler.\<close>

definition run_ast :: "'s machine \<Rightarrow> nat \<Rightarrow> node \<Rightarrow> 's \<Rightarrow> bytes \<Rightarrow> (status \<times> 's \<times> bytes) res" where
  "run_ast mc fuel stmt s out =
     bindR (AnalyzeAst mc stmt s) (\<lambda>(st, logical_plan, s1).
       if st \<noteq> C_OK then Inr (st, s1, out)
       else case logical_plan of
              None \<Rightarrow> Inl Undefined_Behaviour
            | Some lp \<Rightarrow>
                bindR (BuildPlan (mc_double mc) fuel (node_type stmt = Inr NT_SELECT) lp) (\<lambda>physical_plan.
                  case physical_plan of
                    None \<Rightarrow> Inl Undefined_Behaviour
                  | Some pp \<Rightarrow> ExecutePlan (mc_env mc) pp s1 out))"

definition run :: "'s machine \<Rightarrow> nat \<Rightarrow> bytes \<Rightarrow> 's \<Rightarrow> bytes \<Rightarrow> (status \<times> 's \<times> bytes) res" where
  "run mc fuel sql s out =
     bindR (GenAst mc sql) (\<lambda>(st, stmt). if st \<noteq> C_OK then Inr (st, s, out) else run_ast mc fuel stmt s out)"

section \<open>The program\<close>

definition insert_text :: "nat \<Rightarrow> bytes" where
  "insert_text i =
     ascii ''INSERT INTO db_test.db_table(`id`, `age`) VALUES('' @ dec_of_nat i @ ascii '', '' @ dec_of_nat (100 - i) @ ascii '')''"

definition main_statements :: "bytes list" where
  "main_statements =
     [ascii ''CREATE DATABASE IF NOT EXISTS db_test'',
      ascii ''CREATE TABLE IF NOT EXISTS db_test.db_table(id BIGINT not null, age BIGINT, PRIMARY KEY (`id`))''] @
     map insert_text [0..<10] @ [ascii ''SELECT id, age FROM db_test.db_table'']"

text \<open>Every statement must succeed, or the program is aborted.\<close>

fun run_all :: "'s machine \<Rightarrow> nat \<Rightarrow> bytes list \<Rightarrow> 's \<Rightarrow> bytes \<Rightarrow> ('s \<times> bytes) res" where
  "run_all mc fuel [] s out = Inr (s, out)"
| "run_all mc fuel (sql # sqls) s out =
     bindR (run mc fuel sql s out) (\<lambda>(st, s1, out1). if st \<noteq> C_OK then Inl Assert_Abort else run_all mc fuel sqls s1 out1)"

text \<open>\<open>init\<close> opens the storage and makes the id allocator. The log is set up before, which does not fail;
  a fatal log message ends the program. \<open>open_db\<close> is \<open>leveldb::DB::Open\<close> and \<open>dir\<close> the flag \<open>leveldb_dir\<close>.\<close>

definition init :: "'s leveldb \<Rightarrow> (bytes \<Rightarrow> ldb_status \<times> 's) \<Rightarrow> bytes \<Rightarrow> 's machine \<Rightarrow> (int \<times> 's machine \<times> 's) res" where
  "init L open_db dir mc =
     bindR (KvStorageAPISingleton_Init L open_db dir) (\<lambda>(st, kv, s).
       if st \<noteq> C_OK then Inl Assert_Abort
       else let (st1, a) = IdAllocator_Init in
         if st1 \<noteq> C_OK then Inl Assert_Abort
         else Inr (0, mc\<lparr>mc_env := (mc_env mc)\<lparr>en_kv := kv\<rparr>, mc_alloc := a\<rparr>, s))"

text \<open>The program: its arguments are the libraries, the machine without storage and allocator, and the fuel
  of the optimizer.\<close>

definition main_program ::
    "'s leveldb \<Rightarrow> (bytes \<Rightarrow> ldb_status \<times> 's) \<Rightarrow> bytes \<Rightarrow> 's machine \<Rightarrow> nat \<Rightarrow> ('s \<times> bytes) res" where
  "main_program L open_db dir mc fuel =
     bindR (init L open_db dir mc) (\<lambda>(_, mc1, s). run_all mc1 fuel main_statements s [])"

end
