(* ===== verification/RowTheorems.thy ===== *)
theory RowTheorems
  imports RcCodec
begin

text \<open>
  The properties of rows: the columns of a row are independent of each other, and a row is read
  back from its encoding.
\<close>

section \<open>Columns of a table\<close>

text \<open>A row for a table: its descriptor is laid out, and the id of every column is its position, as
  \<open>CREATE TABLE\<close> makes them.\<close>

definition columns_numbered :: "TableInfo \<Rightarrow> bool" where
  "columns_numbered t \<longleftrightarrow> map col_id (column_list t) = map of_nat [0..<length (column_list t)]"

definition table_row :: "TableInfo \<Rightarrow> Row \<Rightarrow> bool" where
  "table_row t r \<longleftrightarrow> row_ok r \<and> row_id (row_desc r) = 0 \<and> column_list t \<noteq> [] \<and> columns_numbered t \<and> length (cols (row_desc r)) = length (column_list t) \<and>
     length (column_list t) < 2 ^ 32"

text \<open>The row holds these numbers, one in each column, of the type of the column.\<close>

definition row_has :: "Row \<Rightarrow> expr_value list \<Rightarrow> bool" where
  "row_has r vs \<longleftrightarrow> map ev_type vs = map desc_type (cols (row_desc r)) \<and>
     (\<forall>j < length vs. number (vs ! j) \<and> row_holds r j (vs ! j))"

lemma fold_AddColumnDesc: "fold (\<lambda>c. AddColumnDesc (f c)) cs d = d\<lparr>cols := cols d @ map f cs\<rparr>"
  by (induction cs arbitrary: d) (simp_all add: AddColumnDesc_def)

lemma ToRowDesc_cols:
  assumes "length (column_list t) < 2 ^ 24"
  shows "layout_ok (ToRowDesc t)" "row_id (ToRowDesc t) = 0"
    "map desc_type (cols (ToRowDesc t)) = map (\<lambda>c. ToExprType (col_type c)) (column_list t)"
    "length (cols (ToRowDesc t)) = length (column_list t)"
proof -
  let ?d = "fold (\<lambda>c. AddColumnDesc (ColumnDescriptor (ToExprType (col_type c)) (ucast (col_id c)))) (column_list t) (RowDescriptor 0)"
  have cd: "cols ?d = map (\<lambda>c. ColumnDescriptor (ToExprType (col_type c)) (ucast (col_id c))) (column_list t)" "row_id ?d = 0"
    by (simp_all add: fold_AddColumnDesc RowDescriptor_def)
  have "sum_list (map col_size cs) \<le> length cs * 255" for cs
  proof (induction cs)
    case (Cons c cs)
    have "col_size c \<le> 255" using unat_ucast_small [of "TypeSize (desc_type c)"] by (simp add: col_size_def)
    with Cons.IH show ?case by simp
  qed simp
  from this [of "cols ?d"] have "sum_list (map col_size (cols ?d)) < 2 ^ 32" using assms by (simp add: cd)
  note l = InitAllColDesc_layout [OF this]
  show "layout_ok (ToRowDesc t)" "row_id (ToRowDesc t) = 0" using l cd(2) by (simp_all add: ToRowDesc_def)
  show ty: "map desc_type (cols (ToRowDesc t)) = map (\<lambda>c. ToExprType (col_type c)) (column_list t)"
    by (simp only: ToRowDesc_def l(2) cd(1) map_map comp_def) (simp add: ColumnDescriptor_def)
  then show "length (cols (ToRowDesc t)) = length (column_list t)" by (metis length_map)
qed

lemma column_position:
  assumes "columns_numbered t" "k < length (column_list t)" "length (column_list t) < 2 ^ 32"
  shows "unat (ucast (col_id (column_list t ! k)) :: u32) = k"
proof -
  have "col_id (column_list t ! k) = of_nat k"
    using arg_cong [OF assms(1) [unfolded columns_numbered_def], of "\<lambda>xs. xs ! k"] assms(2) by simp
  then show ?thesis using assms(2,3) by (simp add: unsigned_ucast_eq take_bit_eq_mod unat_of_nat)
qed

lemma read_table_column:
  assumes "table_row t r" "row_has r vs" "k < length (column_list t)"
  shows "read_column obj r (column_list t ! k) = Inr (vs ! k)"
proof -
  have p: "unat (ucast (col_id (column_list t ! k)) :: u32) = k"
    using assms(1,3) by (intro column_position) (simp_all add: table_row_def)
  have l: "length vs = length (column_list t)"
    using assms(1,2) unfolding table_row_def row_has_def by (metis length_map)
  have "ev_type (vs ! k) = desc_type (cols (row_desc r) ! k)"
    using assms(2,3) l unfolding row_has_def by (metis length_map nth_map)
  then show ?thesis
    unfolding read_column_def using assms p l
    by (intro get_column) (simp_all add: table_row_def row_has_def)
qed

section \<open>Encodings\<close>

text \<open>The bytes of some values, each with its type in front.\<close>

definition tagged_bytes :: "expr_value list \<Rightarrow> bytes" where
  "tagged_bytes vs = concat (map (\<lambda>v. type_code (ev_type v) # value_bytes v) vs)"

lemma tagged_bytes_simps [simp]:
  "tagged_bytes [] = []"
  "tagged_bytes (v # vs) = type_code (ev_type v) # value_bytes v @ tagged_bytes vs"
  by (simp_all add: tagged_bytes_def)

lemma encode_columns_bytes:
  assumes "list_all2 (\<lambda>c v. read_column obj r c = Inr v \<and> wf_value v) cs vs"
  shows "encode_columns obj r cs out = Inr (out @ tagged_bytes vs)"
  using assms
proof (induction arbitrary: out rule: list_all2_induct)
  case (Cons c cs v vs)
  obtain n where "EncodeExprValue v (out @ [type_code (ev_type v)]) = Inr (n, (out @ [type_code (ev_type v)]) @ value_bytes v)"
    using EncodeExprValue_appends Cons.hyps(1) by blast
  with Cons show ?case by simp
qed simp

lemma encode_row_columns:
  assumes "table_row t r" "row_has r vs"
  shows "encode_columns obj r (column_list t) out = Inr (out @ tagged_bytes vs)"
proof (rule encode_columns_bytes)
  have "length vs = length (column_list t)"
    using assms unfolding table_row_def row_has_def by (metis length_map)
  then show "list_all2 (\<lambda>c v. read_column obj r c = Inr v \<and> wf_value v) (column_list t) vs"
    using assms read_table_column [OF assms] by (auto simp: list_all2_conv_all_nth row_has_def number_def)
qed

text \<open>Reading one tagged value off a string.\<close>

lemma type_byte_at:
  assumes "off < length s"
  shows "read_at off 1 s = Inr [s ! off]"
proof -
  have "drop off (s @ [0]) = s ! off # drop (Suc off) (s @ [0])"
    using assms Cons_nth_drop_Suc [of off "s @ [0]"] by (simp add: nth_append)
  then show ?thesis using assms by (simp add: read_at_def)
qed

lemma value_bytes_small: "number v \<Longrightarrow> length (value_bytes v) \<le> 8"
  by (elim number_cases) simp_all

lemma decode_columns_bytes:
  assumes "row_ok r" "row_desc r = d" "length pre < 2 ^ 63" "length vs \<le> 2 ^ 32"
    "cs = map (\<lambda>k. column_list t ! k) [k0..<length (column_list t)]" "columns_numbered t"
    "length (cols d) = length (column_list t)" "length (column_list t) < 2 ^ 32"
    "k0 + length vs = length (column_list t)"
    "\<forall>j < length vs. number (vs ! j) \<and> decodable (vs ! j) \<and> ev_type (vs ! j) = desc_type (cols d ! (k0 + j))"
    "length pre + 9 * length vs < 2 ^ 63" "\<And>j. j < k0 \<Longrightarrow> row_holds r j (f j)"
  shows "\<exists>r1. decode_columns (pre @ tagged_bytes vs) (of_nat (length pre)) cs r = Inr r1 \<and> row_ok r1 \<and>
    row_desc r1 = d \<and> (\<forall>j < k0. row_holds r1 j (f j)) \<and> (\<forall>j < length vs. row_holds r1 (k0 + j) (vs ! j))"
  using assms
proof (induction vs arbitrary: k0 pre r cs f)
  case (Cons v vs)
  have k0: "k0 < length (column_list t)" using Cons.prems(9) by simp
  have v: "number v" "decodable v" "ev_type v = desc_type (cols d ! k0)"
    using Cons.prems(10) [rule_format, of 0] by simp_all
  let ?s = "pre @ tagged_bytes (v # vs)" and ?c = "column_list t ! k0"
  have cs: "cs = ?c # map (\<lambda>k. column_list t ! k) [Suc k0..<length (column_list t)]"
    using k0 by (simp add: Cons.prems(5) upt_conv_Cons)
  have u: "unat (of_nat (length pre) :: u64) = length pre"
    using Cons.prems(3) by (simp add: unat_of_nat)
  have u1: "unat (of_nat (length pre) + 1 :: u64) = Suc (length pre)"
  proof -
    have "unat (of_nat (Suc (length pre)) :: u64) = Suc (length pre)"
      using Cons.prems(3) by (subst unat_of_nat) simp
    then show ?thesis by (simp add: add.commute)
  qed
  have tag: "read_at (length pre) 1 ?s = Inr [type_code (ev_type v)]"
    by (subst type_byte_at) simp_all
  have rest: "drop (Suc (length pre)) ?s = value_bytes v @ tagged_bytes vs" by simp
  have pos: "unat (ucast (col_id ?c) :: u32) = k0" by (rule column_position [OF Cons.prems(6) k0 Cons.prems(8)])
  obtain r1 where r1: "SetColValue (row_id d) (ucast (col_id ?c)) v r = Inr (C_OK, r1)" "row_ok r1" "row_desc r1 = d"
    "row_holds r1 k0 v" "\<And>c' w. c' \<noteq> k0 \<Longrightarrow> c' < length (cols d) \<Longrightarrow> row_holds r c' w \<Longrightarrow> row_holds r1 c' w"
    using set_column [OF Cons.prems(1), of "ucast (col_id ?c)" v] k0 v Cons.prems(2,7) pos by metis
  let ?pre = "pre @ type_code (ev_type v) # value_bytes v"
  have sz: "length (value_bytes v) \<le> 8" by (rule value_bytes_small [OF v(1)])
  have off: "of_nat (length pre) + 1 + of_nat (length (value_bytes v)) = (of_nat (length ?pre) :: u64)"
    by simp
  have f: "row_holds r1 j ((f(k0 := v)) j)" if "j < Suc k0" for j
    using that r1(4) r1(5) [of j "f j"] Cons.prems(12) [of j] k0 Cons.prems(7) by (cases "j = k0") auto
  have vs: "\<forall>j < length vs. number (vs ! j) \<and> decodable (vs ! j) \<and> ev_type (vs ! j) = desc_type (cols d ! (Suc k0 + j))"
    using Cons.prems(10) by auto
  have a: "length ?pre < 2 ^ 63" "length vs \<le> 2 ^ 32" "Suc k0 + length vs = length (column_list t)"
    "length ?pre + 9 * length vs < 2 ^ 63"
    using Cons.prems(4,9,11) sz by simp_all
  obtain r2 where r2: "decode_columns (?pre @ tagged_bytes vs) (of_nat (length ?pre))
      (map (\<lambda>k. column_list t ! k) [Suc k0..<length (column_list t)]) r1 = Inr r2" "row_ok r2" "row_desc r2 = d"
    "\<forall>j < Suc k0. row_holds r2 j ((f(k0 := v)) j)" "\<forall>j < length vs. row_holds r2 (Suc k0 + j) (vs ! j)"
    using Cons.IH [OF r1(2,3) a(1,2) refl Cons.prems(6,7,8) a(3) vs a(4) f] by blast
  have dec: "DecodeUInt8 [b] = Inr (1, b)" for b by (simp add: DecodeUInt8_def)
  have rq: "requireR Std_Exception (Suc (length pre) \<le> length ?s) = Inr ()" by simp
  have de: "DecodeExprValue (drop (Suc (length pre)) ?s) (NewEmpty (ev_type v)) = Inr (of_nat (length (value_bytes v)), v)"
    unfolding rest by (rule DecodeExprValue_prefix [OF v(2)])
  have st: "decode_columns ?s (of_nat (length pre)) cs r =
      decode_columns ?s (of_nat (length ?pre)) (map (\<lambda>k. column_list t ! k) [Suc k0..<length (column_list t)]) r1"
    by (simp only: cs decode_columns.simps u tag bindR_simps dec Let_def prod.case type_of_byte_code u1 rq de
        Cons.prems(2) r1(1) off)
  have "row_holds r2 (k0 + j) ((v # vs) ! j)" if "j < length (v # vs)" for j
    using that r2(4) [rule_format, of k0] r2(5) [rule_format, of "j - 1"] by (cases j) auto
  moreover have "row_holds r2 j (f j)" if "j < k0" for j using r2(4) [rule_format, of j] that by auto
  ultimately show ?case using r2(1-3) unfolding st by auto
qed (simp_all)

text \<open>Index entries: every column decodes the value at the front of the key.\<close>

lemma number_length: "number v \<Longrightarrow> Length v = length (value_bytes v)"
  by (elim number_cases) (simp_all add: Length_def)

lemma decode_index_column_front:
  assumes "number v" "decodable v" "row_ok r" "columns_numbered t" "k < length (column_list t)"
    "length (cols (row_desc r)) = length (column_list t)" "length (column_list t) < 2 ^ 32"
    "ev_type v = desc_type (cols (row_desc r) ! k)"
  shows "\<exists>r1. decode_index_column (type_code (ev_type v) # value_bytes v @ rest) (column_list t ! k) r = Inr r1 \<and>
    row_ok r1 \<and> row_desc r1 = row_desc r \<and> row_holds r1 k v \<and>
    (\<forall>c' w. c' \<noteq> k \<longrightarrow> c' < length (column_list t) \<longrightarrow> row_holds r c' w \<longrightarrow> row_holds r1 c' w)"
proof -
  let ?key = "type_code (ev_type v) # value_bytes v @ rest" and ?c = "column_list t ! k"
  have pos: "unat (ucast (col_id ?c) :: u32) = k" by (rule column_position [OF assms(4,5,7)])
  obtain r1 where r1: "SetColValue (row_id (row_desc r)) (ucast (col_id ?c)) v r = Inr (C_OK, r1)" "row_ok r1"
    "row_desc r1 = row_desc r" "row_holds r1 k v"
    "\<And>c' w. c' \<noteq> k \<Longrightarrow> c' < length (cols (row_desc r)) \<Longrightarrow> row_holds r c' w \<Longrightarrow> row_holds r1 c' w"
    using set_column [OF assms(3), of "ucast (col_id ?c)" v] assms(1,5,6,8) pos by metis
  have 1: "read_raw 1 ?key = Inr [type_code (ev_type v)]" by (simp add: read_raw_def)
  have 2: "DecodeUInt8 [b] = Inr (1, b)" for b by (simp add: DecodeUInt8_def)
  have 3: "Length (NewEmpty (ev_type v)) = length (value_bytes v)"
    using number_length [OF assms(1)] by (simp add: Length_def NewEmpty_def)
  have 4: "read_at 1 (length (value_bytes v)) ?key = Inr (value_bytes v)"
    by (rule read_at_middle [where pre = "[type_code (ev_type v)]" and post = rest]) simp_all
  have 5: "DecodeExprValue (value_bytes v) (NewEmpty (ev_type v)) = Inr (of_nat (length (value_bytes v)), v)"
    using DecodeExprValue_prefix [OF assms(2), of "[]"] by simp
  have "decode_index_column ?key ?c r = Inr r1"
    by (simp only: decode_index_column_def 1 2 3 5 bindR_simps prod.case Let_def type_of_byte_code unsigned_1 4 r1(1))
  with r1 assms(6) show ?thesis by auto
qed

lemma decode_index_columns_front:
  assumes "number v" "decodable v" "row_ok r" "columns_numbered t" "set ks \<subseteq> {0..<length (column_list t)}"
    "length (cols (row_desc r)) = length (column_list t)" "length (column_list t) < 2 ^ 32"
    "\<forall>k \<in> set ks. desc_type (cols (row_desc r) ! k) = ev_type v"
  shows "\<exists>r1. decode_index_columns (type_code (ev_type v) # value_bytes v @ rest) (map ((!) (column_list t)) ks) r = Inr r1 \<and>
    row_ok r1 \<and> row_desc r1 = row_desc r \<and> (\<forall>k \<in> set ks. row_holds r1 k v) \<and>
    (\<forall>c'. c' < length (column_list t) \<longrightarrow> row_holds r c' v \<longrightarrow> row_holds r1 c' v)"
  using assms
proof (induction ks arbitrary: r)
  case (Cons k ks)
  obtain r1 where r1: "decode_index_column (type_code (ev_type v) # value_bytes v @ rest) (column_list t ! k) r = Inr r1"
    "row_ok r1" "row_desc r1 = row_desc r" "row_holds r1 k v"
    "\<forall>c' w. c' \<noteq> k \<longrightarrow> c' < length (column_list t) \<longrightarrow> row_holds r c' w \<longrightarrow> row_holds r1 c' w"
    using decode_index_column_front [OF Cons.prems(1-4), of k rest] Cons.prems(5-8) by auto
  obtain r2 where r2: "decode_index_columns (type_code (ev_type v) # value_bytes v @ rest) (map ((!) (column_list t)) ks) r1 = Inr r2"
    "row_ok r2" "row_desc r2 = row_desc r1" "\<forall>k \<in> set ks. row_holds r2 k v"
    "\<forall>c'. c' < length (column_list t) \<longrightarrow> row_holds r1 c' v \<longrightarrow> row_holds r2 c' v"
    using Cons.IH [OF Cons.prems(1,2) r1(2) Cons.prems(4)] Cons.prems(5-8) r1(3) by auto
  have "k < length (column_list t)" using Cons.prems(5) by simp
  with r1 r2 show ?case by simp metis
qed auto

section \<open>Properties\<close>

text \<open>C23: A row made for a table gives back, for every column, the number that was set there: the
  columns of its memory do not overlap.\<close>

theorem row_columns_independent:
  assumes "map ev_type vs = map (\<lambda>c. ToExprType (col_type c)) (column_list t)" "\<forall>v \<in> set vs. number v"
    "vs \<noteq> []" "length vs < 2 ^ 24"
  shows "\<exists>r. set_columns 0 0 vs (Row (ToRowDesc t)) = Inr r \<and>
    (\<forall>j < length vs. GetColValue obj 0 (of_nat j) r = Inr (vs ! j))"
proof -
  have l: "length (column_list t) = length vs" using arg_cong [OF assms(1), of length] by simp
  then have "length (column_list t) < 2 ^ 24" using assms(4) by simp
  note d = ToRowDesc_cols [OF this]
  have ok: "row_ok (Row (ToRowDesc t))" by (rule row_ok_Row) (use d(1,2,4) l assms(3) in simp_all)
  have ty: "ev_type (vs ! j) = desc_type (cols (ToRowDesc t) ! j)" if "j < length vs" for j
    using arg_cong [OF d(3), of "\<lambda>xs. xs ! j"] arg_cong [OF assms(1), of "\<lambda>xs. xs ! j"] that l d(4) by simp
  obtain r where r: "set_columns 0 0 vs (Row (ToRowDesc t)) = Inr r" "row_ok r" "row_desc r = ToRowDesc t"
    "\<forall>j < length vs. row_holds r j (vs ! j)"
    using set_columns_hold [OF ok, of "ToRowDesc t" 0 vs "\<lambda>_. undefined"] ty assms(2,4) l d(2,4)
    by (auto simp: Row_def)
  have "GetColValue obj 0 (of_nat j) r = Inr (vs ! j)" if j: "j < length vs" for j
  proof -
    have "unat (of_nat j :: u32) = j" using j assms(4) by (simp add: unat_of_nat)
    then show ?thesis
      using get_column [OF r(2), of "of_nat j" "vs ! j" obj] r(3,4) j l d(2,4) ty [OF j] assms(2) by simp
  qed
  with r(1) show ?thesis by blast
qed

definition two_columns :: "TableInfo" where
  "two_columns = TableInfo_new\<lparr>tbl_id := 7, tbl_db_id := 3,
     column_list := [ColumnInfo_new\<lparr>col_id := 0\<rparr>, ColumnInfo_new\<lparr>col_id := 1\<rparr>],
     index_list := [IndexInfo_new\<lparr>idx_id := 0, idx_type := CONSTRAINT_PRIMARY,
       idx_columns := [ColumnInfo_new\<lparr>col_id := 0\<rparr>]\<rparr>], primary_index := Some 0\<rparr>"

lemma two_columns_types: "map (\<lambda>c. ToExprType (col_type c)) (column_list two_columns) = [Int64, Int64]"
  by (simp add: two_columns_def ColumnInfo_new_def ToExprType_def)

theorem row_columns_independent_witness:
  "\<exists>r. set_columns 0 0 [NewInt64 5, NewInt64 (- 2)] (Row (ToRowDesc two_columns)) = Inr r \<and>
    GetColValue id 0 0 r = Inr (NewInt64 5) \<and> GetColValue id 0 1 r = Inr (NewInt64 (- 2))"
proof -
  have "\<exists>r. set_columns 0 0 [NewInt64 5, NewInt64 (- 2)] (Row (ToRowDesc two_columns)) = Inr r \<and>
    (\<forall>j < length [NewInt64 5, NewInt64 (- 2)]. GetColValue id 0 (of_nat j) r = Inr ([NewInt64 5, NewInt64 (- 2)] ! j))"
    by (rule row_columns_independent) (simp_all add: two_columns_types)
  then show ?thesis by (auto simp: less_Suc_eq)
qed

text \<open>C22: The value of an encoded row decodes into a row with the same value in every column, and
  its key is made of the primary columns only. This holds for numbers of every type but the
  signed byte, which has no decoder.\<close>

theorem encode_decode_row:
  assumes "table_row t r" "row_has r vs" "\<forall>v \<in> set vs. ev_type v \<noteq> Int8"
    "primary_of t = Inr p" "set (idx_columns p) \<subseteq> set (column_list t)" "9 * length vs < 2 ^ 63"
  shows "\<exists>key val r1. EncodeRow fo obj t r [] [] = Inr (key, val) \<and> val = tagged_bytes vs \<and>
    DecodeRow t val (Row (row_desc r)) = Inr r1 \<and>
    (\<forall>k < length (column_list t). read_column obj r1 (column_list t ! k) = Inr (vs ! k))"
proof -
  have n: "length vs = length (column_list t)" "length (cols (row_desc r)) = length (column_list t)"
    "columns_numbered t" "length (column_list t) < 2 ^ 32" "layout_ok (row_desc r)"
    using assms(1,2) unfolding table_row_def row_has_def row_ok_def by (metis length_map)+
  have num: "number (vs ! j)" "decodable (vs ! j)" "ev_type (vs ! j) = desc_type (cols (row_desc r) ! j)"
    if "j < length vs" for j
  proof -
    show nu: "number (vs ! j)" using assms(2) that by (simp add: row_has_def)
    moreover have "ev_type (vs ! j) \<noteq> Int8" using assms(3) that by simp
    ultimately show "decodable (vs ! j)" by (elim number_cases) (simp_all add: decodable_def New_defs wf_value_def)
    show "ev_type (vs ! j) = desc_type (cols (row_desc r) ! j)"
      using assms(2) that unfolding row_has_def by (metis length_map nth_map)
  qed
  have str: "\<exists>s. ToString fo v = Inr s" if "number v" for v
    using that by (elim number_cases) (simp_all add: ToString_def value_defs New_payload)
  have key: "\<exists>key. encode_row_key fo obj t r cs out = Inr key" if "set cs \<subseteq> set (column_list t)" for cs out
    using that
  proof (induction cs arbitrary: out)
    case (Cons c cs)
    then obtain k where "k < length (column_list t)" "c = column_list t ! k" by (auto simp: in_set_conv_nth)
    then have "read_column obj r c = Inr (vs ! k)" "number (vs ! k)"
      using read_table_column [OF assms(1,2)] num n by simp_all
    with str [of "vs ! k"] Cons show ?case by auto
  qed simp
  obtain key where k: "encode_row_key fo obj t r (idx_columns p) [] = Inr key" using key [OF assms(5)] by blast
  have enc: "EncodeRow fo obj t r [] [] = Inr (key, tagged_bytes vs)"
    by (simp add: EncodeRow_def assms(4) k encode_row_columns [OF assms(1,2)])
  have first: "unat (row_id (row_desc r)) < length (cols (row_desc r))" using assms(1) n(2) by (simp add: table_row_def)
  have ok: "row_ok (Row (row_desc r))" by (rule row_ok_Row [OF n(5) first])
  have f: "row_holds (Row (row_desc r)) j undefined" if "j < 0" for j :: nat using that by simp
  have cs: "column_list t = map (\<lambda>k. column_list t ! k) [0..<length (column_list t)]" by (simp add: map_nth)
  obtain r1 where r1: "decode_columns ([] @ tagged_bytes vs) (of_nat (length ([] :: bytes))) (column_list t) (Row (row_desc r)) = Inr r1"
    "row_ok r1" "row_desc r1 = row_desc r" "\<forall>j < length vs. row_holds r1 (0 + j) (vs ! j)"
    using decode_columns_bytes [OF ok, of "row_desc r" "[]" vs "column_list t" t 0 "\<lambda>_. undefined"] cs n num assms(6)
    by (auto simp: Row_def)
  have tr: "table_row t r1" using r1(2,3) n assms(1) by (simp add: table_row_def)
  have rh: "row_has r1 vs" using assms(2) r1(3,4) by (simp add: row_has_def)
  show ?thesis using enc r1(1) read_table_column [OF tr rh] by (simp add: DecodeRow_def)
qed

text \<open>A row of two numbers.\<close>

lemma two_columns_row:
  obtains r where "set_columns 0 0 [NewInt64 a, NewInt64 b] (Row (ToRowDesc two_columns)) = Inr r"
    "table_row two_columns r" "row_has r [NewInt64 a, NewInt64 b]" "row_desc r = ToRowDesc two_columns"
proof -
  have l: "length (column_list two_columns) = 2" by (simp add: two_columns_def)
  have "length (column_list two_columns) < 2 ^ 24" by (simp add: l)
  note d = ToRowDesc_cols [OF this]
  have ty: "map desc_type (cols (ToRowDesc two_columns)) = [Int64, Int64]" by (simp only: d(3) two_columns_types)
  have ty': "desc_type (cols (ToRowDesc two_columns) ! j) = Int64" if "j < 2" for j
    using arg_cong [OF ty, of "\<lambda>xs. xs ! j"] that d(4) l by (auto simp: less_Suc_eq numeral_2_eq_2)
  have ok: "row_ok (Row (ToRowDesc two_columns))" by (rule row_ok_Row) (use d(1,2,4) l in simp_all)
  have nu: "\<forall>j < length [NewInt64 a, NewInt64 b]. number ([NewInt64 a, NewInt64 b] ! j) \<and>
      ev_type ([NewInt64 a, NewInt64 b] ! j) = desc_type (cols (ToRowDesc two_columns) ! (0 + j))"
    using ty' by (auto simp: less_Suc_eq)
  have "\<exists>r1. set_columns (row_id (ToRowDesc two_columns)) 0 [NewInt64 a, NewInt64 b] (Row (ToRowDesc two_columns)) = Inr r1 \<and>
      row_ok r1 \<and> row_desc r1 = ToRowDesc two_columns \<and> (\<forall>j < 0. row_holds r1 j (undefined j)) \<and>
      (\<forall>j < length [NewInt64 a, NewInt64 b]. row_holds r1 (0 + j) ([NewInt64 a, NewInt64 b] ! j))"
    by (rule set_columns_hold [OF ok _ _ _ nu]) (use d(4) l in \<open>simp_all add: Row_def\<close>)
  then obtain r where r: "set_columns 0 0 [NewInt64 a, NewInt64 b] (Row (ToRowDesc two_columns)) = Inr r" "row_ok r"
    "row_desc r = ToRowDesc two_columns" "\<forall>j < 2. row_holds r j ([NewInt64 a, NewInt64 b] ! j)"
    using d(2) by auto
  have "table_row two_columns r"
    using r(2,3) d(2,4) l by (simp add: table_row_def columns_numbered_def two_columns_def)
  moreover have "row_has r [NewInt64 a, NewInt64 b]"
    using r(3,4) ty by (auto simp: row_has_def less_Suc_eq numeral_2_eq_2)
  ultimately show thesis using that r(1,3) by blast
qed

theorem encode_decode_row_witness:
  "\<forall>fo. \<exists>r key val r1. set_columns 0 0 [NewInt64 5, NewInt64 (- 2)] (Row (ToRowDesc two_columns)) = Inr r \<and>
    EncodeRow fo id two_columns r [] [] = Inr (key, val) \<and> DecodeRow two_columns val (Row (row_desc r)) = Inr r1 \<and>
    read_column id r1 (ColumnInfo_new\<lparr>col_id := 1\<rparr>) = Inr (NewInt64 (- 2))"
proof
  fix fo
  obtain r where r: "set_columns 0 0 [NewInt64 5, NewInt64 (- 2)] (Row (ToRowDesc two_columns)) = Inr r"
    "table_row two_columns r" "row_has r [NewInt64 5, NewInt64 (- 2)]"
    by (rule two_columns_row [of 5 "- 2"]) blast
  have p: "primary_of two_columns = Inr (hd (index_list two_columns))"
    "set (idx_columns (hd (index_list two_columns))) \<subseteq> set (column_list two_columns)"
    by (simp_all add: primary_of_def two_columns_def)
  have "column_list two_columns ! 1 = ColumnInfo_new\<lparr>col_id := 1\<rparr>" "1 < length (column_list two_columns)"
    by (simp_all add: two_columns_def)
  with encode_decode_row [OF r(2,3) _ p, of fo id] r(1) show "\<exists>r key val r1. set_columns 0 0 [NewInt64 5, NewInt64 (- 2)] (Row (ToRowDesc two_columns)) = Inr r \<and>
    EncodeRow fo id two_columns r [] [] = Inr (key, val) \<and> DecodeRow two_columns val (Row (row_desc r)) = Inr r1 \<and>
    read_column id r1 (ColumnInfo_new\<lparr>col_id := 1\<rparr>) = Inr (NewInt64 (- 2))" by fastforce
qed

text \<open>Decoding an index entry puts the value of the first column of the entry into every column of
  the index: for a primary index of one column this is the value that was encoded, for one of
  several columns of the same type the later ones get the value of the first.\<close>

theorem decode_index_first_value:
  assumes "table_row t r" "row_has r vs" "primary_of t = Inr p" "idx_columns p = map ((!) (column_list t)) ks"
    "ks \<noteq> []" "set ks \<subseteq> {0..<length (column_list t)}"
    "\<forall>k \<in> set ks. ev_type (vs ! k) = ev_type (vs ! hd ks)" "ev_type (vs ! hd ks) \<noteq> Int8"
  shows "\<exists>key r1. EncodeIndex obj t p r [] = Inr (key, []) \<and> key = tagged_bytes (map ((!) vs) ks) \<and>
    DecodeIndex t p key (Row (row_desc r)) = Inr ([], r1) \<and>
    (\<forall>k \<in> set ks. read_column obj r1 (column_list t ! k) = Inr (vs ! hd ks))"
proof -
  have n: "length vs = length (column_list t)" "length (cols (row_desc r)) = length (column_list t)"
    "columns_numbered t" "length (column_list t) < 2 ^ 32" "layout_ok (row_desc r)" "row_id (row_desc r) = 0"
    "column_list t \<noteq> []"
    using assms(1,2) unfolding table_row_def row_has_def row_ok_def by (metis length_map)+
  have num: "number (vs ! k)" "ev_type (vs ! k) = desc_type (cols (row_desc r) ! k)" if "k < length vs" for k
    using assms(2) that unfolding row_has_def by (simp, metis length_map nth_map)
  have ic: "index_columns t p = Inr (map ((!) (column_list t)) ks)"
    by (simp add: index_columns_def assms(3,4))
  have "encode_columns obj r (map ((!) (column_list t)) ks) [] = Inr ([] @ tagged_bytes (map ((!) vs) ks))"
    using assms(6) read_table_column [OF assms(1,2)] num n(1)
    by (intro encode_columns_bytes) (auto simp: list_all2_conv_all_nth number_def subset_eq)
  then have enc: "EncodeIndex obj t p r [] = Inr (tagged_bytes (map ((!) vs) ks), [])"
    by (simp add: EncodeIndex_def ic)
  obtain k ks1 where k: "ks = k # ks1" using assms(5) by (cases ks) auto
  let ?v = "vs ! k"
  have kl: "k < length vs" using assms(6) k n(1) by simp
  have v: "number ?v" "decodable ?v"
    using num(1) [OF kl] assms(8) k by (auto elim!: number_cases simp: decodable_def New_defs wf_value_def)
  have ok: "row_ok (Row (row_desc r))" by (rule row_ok_Row) (use n in simp_all)
  have ty: "\<forall>j \<in> set ks. desc_type (cols (row_desc (Row (row_desc r))) ! j) = ev_type ?v"
    using assms(6,7) num(2) n(1) k by (auto simp: Row_def subset_eq)
  obtain r1 where r1: "decode_index_columns (type_code (ev_type ?v) # value_bytes ?v @ tagged_bytes (map ((!) vs) ks1))
      (map ((!) (column_list t)) ks) (Row (row_desc r)) = Inr r1" "row_ok r1" "row_desc r1 = row_desc r"
    "\<forall>j \<in> set ks. row_holds r1 j ?v"
    using decode_index_columns_front [OF v ok n(3) assms(6) _ n(4) ty, of "tagged_bytes (map ((!) vs) ks1)"] n(2)
    by (auto simp: Row_def)
  have "DecodeIndex t p (tagged_bytes (map ((!) vs) ks)) (Row (row_desc r)) = Inr ([], r1)"
    using r1(1) by (simp add: DecodeIndex_def ic k)
  moreover have "read_column obj r1 (column_list t ! j) = Inr ?v" if "j \<in> set ks" for j
  proof -
    have j: "j < length (column_list t)" using assms(6) that by auto
    have "unat (ucast (col_id (column_list t ! j)) :: u32) = j" by (rule column_position [OF n(3) j n(4)])
    then show ?thesis
      unfolding read_column_def using r1 v(1) n(2) j that ty by (intro get_column) (simp_all add: Row_def)
  qed
  ultimately show ?thesis using enc k by auto
qed

definition both_primary :: TableInfo where
  "both_primary = two_columns\<lparr>index_list := [IndexInfo_new\<lparr>idx_id := 0, idx_type := CONSTRAINT_PRIMARY,
     idx_columns := column_list two_columns\<rparr>]\<rparr>"

theorem decode_index_first_value_witness:
  "\<exists>r key r1. row_has r [NewInt64 5, NewInt64 6] \<and>
    EncodeIndex id both_primary (hd (index_list both_primary)) r [] = Inr (key, []) \<and>
    DecodeIndex both_primary (hd (index_list both_primary)) key (Row (row_desc r)) = Inr ([], r1) \<and>
    read_column id r1 (column_list both_primary ! 0) = Inr (NewInt64 5) \<and>
    read_column id r1 (column_list both_primary ! 1) = Inr (NewInt64 5)"
proof -
  obtain r where r: "table_row two_columns r" "row_has r [NewInt64 5, NewInt64 6]"
    by (rule two_columns_row [of 5 6]) blast
  have "table_row both_primary r"
    using r(1) by (simp add: table_row_def both_primary_def columns_numbered_def)
  moreover have "primary_of both_primary = Inr (hd (index_list both_primary))"
    "idx_columns (hd (index_list both_primary)) = map ((!) (column_list both_primary)) [0, 1]"
    "set [0, 1] \<subseteq> {0..<length (column_list both_primary)}"
    by (simp_all add: both_primary_def primary_of_def two_columns_def)
  ultimately have "\<exists>key r1. EncodeIndex id both_primary (hd (index_list both_primary)) r [] = Inr (key, []) \<and>
      key = tagged_bytes (map ((!) [NewInt64 5, NewInt64 6]) [0, 1]) \<and>
      DecodeIndex both_primary (hd (index_list both_primary)) key (Row (row_desc r)) = Inr ([], r1) \<and>
      (\<forall>k \<in> set [0, 1]. read_column id r1 (column_list both_primary ! k) = Inr ([NewInt64 5, NewInt64 6] ! hd [0, 1]))"
    by (intro decode_index_first_value r(2)) simp_all
  with r(2) show ?thesis by auto
qed

text \<open>A column of a row in which another column was set, but which was not set itself, has no
  value: reading it is undefined, not the null value a row without any column set gives.\<close>

theorem unset_column_undefined:
  assumes "row_ok r" "row_data r ! unat (row_id (row_desc r)) = None" "number v"
    "unat c < length (cols (row_desc r))" "ev_type v = desc_type (cols (row_desc r) ! unat c)"
    "unat c' < length (cols (row_desc r))" "c' \<noteq> c" "desc_type (cols (row_desc r) ! unat c') = Int64"
  shows "GetColValue obj (row_id (row_desc r)) c' r = Inr (NewNull Null) \<and>
    (\<exists>r1. SetColValue (row_id (row_desc r)) c v r = Inr (C_OK, r1) \<and>
      GetColValue obj (row_id (row_desc r)) c' r1 = Inl Undefined_Behaviour)"
proof -
  let ?d = "row_desc r" and ?i = "unat (row_id (row_desc r))"
  let ?off = "col_offset (cols ?d) (unat c)" and ?off' = "col_offset (cols ?d) (unat c')"
  let ?t = "replicate (unat (byte_size ?d)) Unset"
  have i: "?i < length (row_data r)" using assms(1) by (simp add: row_ok_def)
  have l: "unat (byte_size ?d) = sum_list (map col_size (cols ?d))"
    "unat (bytes_offset (cols ?d ! unat c)) = ?off" "unat (bytes_offset (cols ?d ! unat c')) = ?off'"
    using assms(1,4,6) by (simp_all add: row_ok_def layout_ok_def)
  have sz: "length (number_bytes v) = col_size (cols ?d ! unat c)" "col_size (cols ?d ! unat c') = 8"
    using number_bytes_length [OF assms(3)] assms(5,8) by (simp_all add: col_size_def)
  have fit: "?off + length (number_bytes v) \<le> length ?t" using column_inside [OF assms(4)] by (simp add: sz l)
  obtain t1 where t1: "poke ?off (number_bytes v) ?t = Inr t1" "length t1 = length ?t"
    "\<And>o' n. o' + n \<le> ?off \<or> ?off + length (number_bytes v) \<le> o' \<Longrightarrow> peek o' n t1 = peek o' n ?t"
    by (rule poke_ok [OF fit]) blast
  let ?r1 = "setTuple (row_id ?d) t1 (setTuple (row_id ?d) ?t r)"
  have s: "SetColValue (row_id ?d) c v r = Inr (C_OK, ?r1)"
    using i assms(2,4,5) by (simp add: SetColValue_def tupleAt_def GetColumnDesc_def l(2) ToData_number [OF assms(3)] t1(1))
  have "unat c' \<noteq> unat c" using assms(7) by (simp add: word_unat_eq_iff)
  then have "peek ?off' 8 t1 = peek ?off' 8 ?t"
    using columns_disjoint [OF assms(6,4)] by (intro t1(3)) (simp add: sz)
  also have "\<dots> = Inr (replicate 8 Unset)" using column_inside [OF assms(6)] by (simp add: peek_def l sz)
  finally have "peek_bytes ?off' 8 t1 = Inl Undefined_Behaviour" by (simp add: peek_bytes_def numeral_eq_Suc)
  then have "GetColValue obj (row_id ?d) c' ?r1 = Inl Undefined_Behaviour"
    using i assms(6,8) by (simp add: GetColValue_def tupleAt_def setTuple_def GetColumnDesc_def l(3) ToExprValue_def New_payload)
  with s show ?thesis using i assms(2) by (simp add: GetColValue_def tupleAt_def)
qed

theorem unset_column_undefined_witness:
  "\<exists>r1. SetColValue 0 0 (NewInt64 5) (Row (ToRowDesc two_columns)) = Inr (C_OK, r1) \<and>
    GetColValue id 0 1 r1 = Inl Undefined_Behaviour"
proof -
  have l: "length (column_list two_columns) = 2" "length (column_list two_columns) < 2 ^ 24" by (simp_all add: two_columns_def)
  note d = ToRowDesc_cols [OF l(2)]
  have ty: "desc_type (cols (ToRowDesc two_columns) ! j) = Int64" if "j < 2" for j
    using arg_cong [OF trans [OF d(3) two_columns_types], of "\<lambda>xs. xs ! j"] that d(4) l(1) by (auto simp: less_Suc_eq numeral_2_eq_2)
  have ok: "row_ok (Row (ToRowDesc two_columns))" by (rule row_ok_Row) (use d(1,2,4) l in simp_all)
  have "GetColValue id (row_id (row_desc (Row (ToRowDesc two_columns)))) 1 (Row (ToRowDesc two_columns)) = Inr (NewNull Null) \<and>
    (\<exists>r1. SetColValue (row_id (row_desc (Row (ToRowDesc two_columns)))) 0 (NewInt64 5) (Row (ToRowDesc two_columns)) = Inr (C_OK, r1) \<and>
      GetColValue id (row_id (row_desc (Row (ToRowDesc two_columns)))) 1 r1 = Inl Undefined_Behaviour)"
    by (rule unset_column_undefined [OF ok]) (use d(2,4) l(1) ty in \<open>simp_all add: Row_def\<close>)
  then show ?thesis using d(2) by (simp add: Row_def)
qed

text \<open>C24: A string that is set in a row is not what the row gives back: the bytes are those of the
  string object, and reading is undefined when the string is longer than the object.\<close>

theorem string_column_garbled:
  assumes "layout_ok d" "cols d = [c]" "desc_type c = String" "row_id d = 0" "length s < 2 ^ 32"
  shows "\<exists>r. SetColValue 0 0 (NewString s) (Row d) = Inr (C_OK, r) \<and>
    GetColValue obj 0 0 r =
      (if length s \<le> 32 then Inr (NewString (take (length s) (obj s))) else Inl Undefined_Behaviour)"
proof -
  have c: "bytes_offset c = 0" "byte_size d = 12"
    using assms(1-3) by (simp_all add: layout_ok_def col_offset_def col_size_def word_unat_eq_iff)
  let ?n = "map Byte (rev (be32 (of_nat (length s))))"
  let ?t = "str_ptr s @ ?n"
  have len: "length (str_ptr s) = 8" by (simp add: str_ptr_def)
  have "poke 0 (str_ptr s) (replicate 12 Unset) = Inr (str_ptr s @ replicate 4 Unset)"
    by (simp add: poke_def len)
  moreover have "poke_bytes 8 (be32 (of_nat (length s))) (str_ptr s @ replicate 4 Unset) = Inr ?t"
    by (simp add: poke_bytes_def poke_def len)
  moreover have "ev_type (NewString s) = String" "StringValue (NewString s) = Inr s" by (simp_all add: New_defs value_defs)
  ultimately have td: "ToData (NewString s) 0 (replicate 12 Unset) = Inr ?t" by (simp add: ToData_def)
  let ?r = "\<lparr>row_desc = d, row_data = [Some ?t]\<rparr>"
  have s: "SetColValue 0 0 (NewString s) (Row d) = Inr (C_OK, ?r)"
    using assms(2,3) td c by (simp add: SetColValue_def tupleAt_def Row_def setTuple_def GetColumnDesc_def)
  have "peek_str 0 ?t = Inr s"
  proof -
    have "hd (str_ptr s) = Str_ptr s 0" by (simp add: str_ptr_def upt_conv_Cons)
    then show ?thesis using len by (simp add: peek_str_def peek_def)
  qed
  moreover have "peek_bytes 8 4 ?t = Inr (be32 (of_nat (length s)))"
    by (rule peek_bytes_Byte) (simp add: peek_def len)
  moreover have "unat (of_be32 (be32 (of_nat (length s)))) = length s"
    using unat_length_u32 [OF assms(5)] by simp
  ultimately have "ToExprValue obj 0 ?t (NewEmpty String) =
      (if length s \<le> 32 then Inr (NewString (take (length s) (obj s))) else Inl Undefined_Behaviour)"
    by (simp add: ToExprValue_def sizeof_std_string_def New_defs Let_def)
  then have "GetColValue obj 0 0 ?r =
      (if length s \<le> 32 then Inr (NewString (take (length s) (obj s))) else Inl Undefined_Behaviour)"
    using assms(2,3) c by (simp add: GetColValue_def tupleAt_def GetColumnDesc_def)
  with s show ?thesis by blast
qed

theorem string_column_garbled_witness:
  "\<exists>d r. SetColValue 0 0 (NewString [97]) (Row d) = Inr (C_OK, r) \<and>
    GetColValue (\<lambda>_. replicate 32 7) 0 0 r = Inr (NewString [7])"
proof -
  let ?d = "InitAllColDesc ((RowDescriptor 0)\<lparr>cols := [ColumnDescriptor String 0]\<rparr>)"
  have "layout_ok ?d" by (rule InitAllColDesc_layout) (simp add: ColumnDescriptor_def col_size_def)
  moreover have "cols ?d = [\<lparr>desc_type = String, desc_id = 0, bytes_count = 12, bytes_offset = 0\<rparr>]" "row_id ?d = 0"
    by (simp_all add: InitAllColDesc_def ColumnDescriptor_def RowDescriptor_def Let_def)
  ultimately show ?thesis
    using string_column_garbled [of ?d _ "[97]" "\<lambda>_. replicate 32 7"] by (intro exI [of _ ?d]) simp
qed

end
