(* ===== verification/TableInv.thy ===== *)
theory TableInv
  imports TableStore RowTheorems BptTheorems
begin

text \<open>
  What a table with a one-column primary index holds. The rows are those of the index, in the order
  of its keys; each has its record in the storage. The table is the one a statement works on: its
  index is loaded and saved.
\<close>

section \<open>Texts of numbers\<close>

lemma dec_of_nat_inj: "dec_of_nat m = dec_of_nat n \<longleftrightarrow> m = n"
  by (metis digits_value_dec)

lemma dec_of_nat_no_sign: "dec_of_nat n \<noteq> 45 # bs"
proof
  assume "dec_of_nat n = 45 # bs"
  then have "is_digit 45" using dec_of_nat_digits [of 45 n] by simp
  then show False by (simp add: is_digit_def)
qed

lemma dec_of_int_inj: "dec_of_int i = dec_of_int j \<longleftrightarrow> i = j"
proof (cases "i < 0"; cases "j < 0")
  assume "i < 0" "\<not> j < 0"
  then show ?thesis using dec_of_nat_no_sign [of "nat j"] by (simp add: dec_of_int_def eq_commute [of "_ # _"])
next
  assume "\<not> i < 0" "j < 0"
  then show ?thesis using dec_of_nat_no_sign [of "nat i"] by (simp add: dec_of_int_def)
qed (auto simp: dec_of_int_def dec_of_nat_inj nat_eq_iff)

lemma length_dec_of_nat: "n < 10 ^ Suc m \<Longrightarrow> length (dec_of_nat n) \<le> Suc m"
proof (induction m arbitrary: n)
  case 0
  then show ?case by (simp add: dec_of_nat.simps)
next
  case (Suc m)
  then have "n div 10 < 10 ^ Suc m" by (simp add: less_mult_imp_div_less)
  from Suc.IH [OF this] show ?case by (simp add: dec_of_nat.simps [of n])
qed

lemma length_dec_of_int: "\<bar>i\<bar> < 10 ^ Suc m \<Longrightarrow> length (dec_of_int i) \<le> Suc (Suc m)"
  using length_dec_of_nat [of "nat \<bar>i\<bar>" m] by (auto simp: dec_of_int_def nat_less_iff abs_if split: if_splits)

definition number_text :: "expr_value \<Rightarrow> bytes" where
  "number_text v =
     (if ev_type v \<in> {Int8, Int32, Int64}
      then dec_of_int (case ev_u v of U8 x \<Rightarrow> sint x | U32 x \<Rightarrow> sint x | U64 x \<Rightarrow> sint x)
      else dec_of_nat (case ev_u v of U8 x \<Rightarrow> unat x | U32 x \<Rightarrow> unat x | U64 x \<Rightarrow> unat x))"

lemma ToString_number: "number v \<Longrightarrow> ToString fo v = Inr (number_text v)"
  by (elim number_cases) (simp_all add: ToString_def number_text_def value_defs New_payload New_defs)

lemma number_text_inj:
  assumes "number v" "number w" "ev_type v = ev_type w" "number_text v = number_text w"
  shows "v = w"
  using assms
  by (elim number_cases) (auto simp: number_text_def New_payload New_defs dec_of_int_inj dec_of_nat_inj intro: signed_word_eqI unsigned_word_eqI)

lemma number_text_short: "number v \<Longrightarrow> length (number_text v) < 2 ^ 32"
proof -
  assume v: "number v"
  have s: "length (dec_of_int i) < 2 ^ 32" if "\<bar>i\<bar> < 10 ^ Suc 20" for i
    using length_dec_of_int [OF that] by simp
  have u: "length (dec_of_nat n) < 2 ^ 32" if "n < 10 ^ Suc 20" for n
    using length_dec_of_nat [OF that] by simp
  have b: "\<bar>sint x\<bar> < 10 ^ Suc 20" if "LENGTH('a) \<le> 64" for x :: "'a::len word"
  proof -
    have "\<bar>sint x\<bar> \<le> 2 ^ (LENGTH('a) - 1)" using sint_ge [of x] sint_lt [of x] by simp
    also have "(2 :: int) ^ (LENGTH('a) - 1) \<le> 2 ^ 63" using that by (intro power_increasing) simp_all
    finally show ?thesis by simp
  qed
  have w: "unat x < 10 ^ Suc 20" if "LENGTH('a) \<le> 64" for x :: "'a::len word"
  proof -
    have "unat x < 2 ^ LENGTH('a)" by (rule unsigned_less)
    also have "(2 :: nat) ^ LENGTH('a) \<le> 2 ^ 64" using that by (intro power_increasing) simp_all
    finally show ?thesis by simp
  qed
  have sw: "length (dec_of_int (sint x)) < 4294967296" if "LENGTH('a) \<le> 64" for x :: "'a::len word"
    using s [OF b [OF that]] by simp
  have uw: "length (dec_of_nat (unat x)) < 4294967296" if "LENGTH('a) \<le> 64" for x :: "'a::len word"
    using u [OF w [OF that]] by simp
  from v show ?thesis
    by (elim number_cases) (simp_all add: number_text_def New_payload New_defs sw uw)
qed

section \<open>Rows of a table\<close>

text \<open>The table has one index, its primary index, on column \<open>k\<close>.\<close>

definition single_index :: "TableInfo \<Rightarrow> nat \<Rightarrow> bool" where
  "single_index t k \<longleftrightarrow>
     columns_numbered t \<and> k < length (column_list t) \<and> length (column_list t) < 2 ^ 24 \<and> tbl_db_id t \<noteq> 0 \<and>
     primary_index t = Some 0 \<and>
     (\<exists>p. index_list t = [p] \<and> idx_type p = CONSTRAINT_PRIMARY \<and> idx_columns p = [column_list t ! k])"

definition row_values :: "TableInfo \<Rightarrow> expr_value list \<Rightarrow> bool" where
  "row_values t vs \<longleftrightarrow>
     map ev_type vs = map (\<lambda>c. ToExprType (col_type c)) (column_list t) \<and>
     (\<forall>v \<in> set vs. number v \<and> ev_type v \<noteq> Int8)"

definition entry_key :: "nat \<Rightarrow> expr_value list \<Rightarrow> bytes" where
  "entry_key k vs = tagged_bytes [vs ! k]"

definition row_record :: "TableInfo \<Rightarrow> nat \<Rightarrow> expr_value list \<Rightarrow> bytes" where
  "row_record t k vs = key_bytes (RowKey (tbl_db_id t) (tbl_id t) (number_text (vs ! k)))"

definition stored_rows :: "(bytes \<rightharpoonup> bytes) \<Rightarrow> TableInfo \<Rightarrow> nat \<Rightarrow> expr_value list list \<Rightarrow> bool" where
  "stored_rows m t k rows \<longleftrightarrow> (\<forall>vs \<in> set rows. row_values t vs \<and> m (row_record t k vs) = Some (tagged_bytes vs))"

definition entries_of :: "nat \<Rightarrow> expr_value list list \<Rightarrow> kvs" where
  "entries_of k rows = map (\<lambda>vs. (entry_key k vs, [])) rows"

definition table_tree :: "'s table \<Rightarrow> 's tree" where
  "table_tree tb = (ix_tree (index_objs tb ! 0))\<lparr>storage := table_storage tb\<rparr>"

definition table_shape :: "'s table \<Rightarrow> nat \<Rightarrow> bool" where
  "table_shape tb k \<longleftrightarrow>
     single_index (table_info tb) k \<and> row_index tb = Some 0 \<and> length (index_objs tb) = 1 \<and>
     ix_pos (index_objs tb ! 0) = 0 \<and> (\<exists>i. col_index tb = [(i, 0)]) \<and>
     ts_db_id (schema (table_tree tb)) = tbl_db_id (table_info tb) \<and>
     ts_table_id (schema (table_tree tb)) = tbl_id (table_info tb)"

definition table_holds ::
    "proto_ops \<Rightarrow> ('s \<Rightarrow> bytes \<rightharpoonup> bytes) \<Rightarrow> 's table \<Rightarrow> nat \<Rightarrow> expr_value list list \<Rightarrow> bool" where
  "table_holds pb contents tb k rows \<longleftrightarrow>
     table_shape tb k \<and>
     (\<exists>ls. tree_clean pb contents (table_tree tb) ls \<and> concat ls = entries_of k rows) \<and>
     stored_rows (contents (table_storage tb)) (table_info tb) k rows"

text \<open>A row object of this table with these values.\<close>

definition row_object :: "TableInfo \<Rightarrow> Row \<Rightarrow> expr_value list \<Rightarrow> bool" where
  "row_object t r vs \<longleftrightarrow> row_desc r = ToRowDesc t \<and> row_ok r \<and> row_has r vs"

lemma entry_key_inj:
  assumes "row_values t vs" "row_values t ws" "single_index t k" "number_text (vs ! k) = number_text (ws ! k)"
  shows "vs ! k = ws ! k"
proof -
  have l: "k < length vs" "k < length ws" "ev_type (vs ! k) = ev_type (ws ! k)"
    using assms(1-3) unfolding row_values_def single_index_def by (metis length_map, metis length_map, metis length_map nth_map)
  with assms(1,2,4) show ?thesis by (intro number_text_inj) (simp_all add: row_values_def)
qed

text \<open>Rows of the table differ in the key of their record as they differ in the key of their entry.\<close>

lemma tagged_single_inj:
  assumes "number v" "number w" "ev_type v \<noteq> Int8" "ev_type w = ev_type v" "tagged_bytes [v] = tagged_bytes [w]"
  shows "v = w"
proof -
  have d: "decodable u" if "number u" "ev_type u \<noteq> Int8" for u
    using that by (elim number_cases) (simp_all add: decodable_def New_defs wf_value_def)
  have dec: "DecodeExprValue (value_bytes u) (NewEmpty (ev_type u)) = Inr (of_nat (length (value_bytes u)), u)"
    if "number u" "ev_type u \<noteq> Int8" for u
    using DecodeExprValue_prefix [OF d [OF that], of "[]"] by simp
  have eq: "value_bytes w = value_bytes v" using assms(5) by simp
  have "ev_type w \<noteq> Int8" using assms(3,4) by simp
  from dec [OF assms(2) this] have "DecodeExprValue (value_bytes v) (NewEmpty (ev_type v)) = Inr (of_nat (length (value_bytes v)), w)"
    by (simp only: eq assms(4))
  with dec [OF assms(1,3)] show "v = w" by simp
qed

lemma row_value_at:
  assumes "row_values t vs" "single_index t k"
  shows "k < length vs" "number (vs ! k)" "ev_type (vs ! k) \<noteq> Int8" "ev_type (vs ! k) = ToExprType (col_type (column_list t ! k))"
proof -
  have l: "length vs = length (column_list t)" using assms(1) unfolding row_values_def by (metis length_map)
  then show k: "k < length vs" using assms(2) by (simp add: single_index_def)
  then show "number (vs ! k)" "ev_type (vs ! k) \<noteq> Int8" using assms(1) by (simp_all add: row_values_def)
  show "ev_type (vs ! k) = ToExprType (col_type (column_list t ! k))"
    using assms k l unfolding row_values_def by (metis nth_map)
qed

lemma same_row:
  assumes "row_values t vs" "row_values t ws" "single_index t k"
  shows "entry_key k vs = entry_key k ws \<longleftrightarrow> vs ! k = ws ! k" "row_record t k vs = row_record t k ws \<longleftrightarrow> vs ! k = ws ! k"
proof -
  note v = row_value_at [OF assms(1,3)] and w = row_value_at [OF assms(2,3)]
  show "entry_key k vs = entry_key k ws \<longleftrightarrow> vs ! k = ws ! k"
    using tagged_single_inj [OF v(2) w(2) v(3)] v(4) w(4) by (auto simp: entry_key_def)
  have "tbl_db_id t \<noteq> 0" using assms(3) by (simp add: single_index_def)
  then have wf: "key_wf (RowKey (tbl_db_id t) (tbl_id t) (number_text x))" if "number x" for x
    using number_text_short [OF that] by simp
  show "row_record t k vs = row_record t k ws \<longleftrightarrow> vs ! k = ws ! k"
    using key_bytes_inj [OF wf wf, OF v(2) w(2)] entry_key_inj [OF assms] by (auto simp: row_record_def)
qed

lemma record_not_node:
  assumes "row_values t vs" "single_index t k" "ts_db_id sc = tbl_db_id t"
  shows "row_record t k vs \<noteq> node_key sc i"
proof
  assume eq: "row_record t k vs = node_key sc i"
  have d: "tbl_db_id t \<noteq> 0" using assms(2) by (simp add: single_index_def)
  have "node_key sc i = key_bytes (TreeNodeKey (ts_db_id sc) (ts_table_id sc) (ts_index_id sc) i)"
    by (simp add: node_key_def)
  with eq have "RowKey (tbl_db_id t) (tbl_id t) (number_text (vs ! k)) = TreeNodeKey (ts_db_id sc) (ts_table_id sc) (ts_index_id sc) i"
    using d number_text_short [OF row_value_at(2) [OF assms(1,2)]] assms(3)
    by (intro key_bytes_inj) (simp_all add: row_record_def)
  then show False by simp
qed

section \<open>Trees and the rest of the storage\<close>

text \<open>A tree depends on the storage only through the keys of its own nodes.\<close>

lemma tree_inv_frame:
  assumes inv: "tree_inv pb contents t ls"
    and eq: "\<And>i. contents s (node_key (schema t) i) = contents (storage t) (node_key (schema t) i)"
  shows "tree_inv pb contents (t\<lparr>storage := s\<rparr>) ls"
proof -
  have leaf: "leaf_ok pb (contents s) (t\<lparr>storage := s\<rparr>) = leaf_ok pb (contents (storage t)) t"
    by (simp add: fun_eq_iff leaf_ok_def leaf_saved_def stored_leaf_def eq)
  have i: "id_of (t\<lparr>storage := s\<rparr>) = id_of t" by (simp add: fun_eq_iff id_of_def)
  have "root_saved pb (contents s) (t\<lparr>storage := s\<rparr>) n = root_saved pb (contents (storage t)) t n" for n
    by (simp add: root_saved_def stored_root_def root_refs_def NodeRef_def eq)
  moreover have "ids_ok (contents s) (t\<lparr>storage := s\<rparr>) ps = ids_ok (contents (storage t)) t ps" for ps
    by (simp add: ids_ok_def i eq)
  moreover have "unsaved_ok (t\<lparr>storage := s\<rparr>) ps = unsaved_ok t ps" for ps by (simp add: unsaved_ok_def i)
  ultimately show ?thesis using inv by (simp add: tree_inv_def leaf)
qed

lemma tree_clean_frame:
  assumes "tree_clean pb contents t ls"
    "\<And>i. contents s (node_key (schema t) i) = contents (storage t) (node_key (schema t) i)"
  shows "tree_clean pb contents (t\<lparr>storage := s\<rparr>) ls"
  using assms tree_inv_frame [of pb contents t ls s] by (simp add: tree_clean_def)

context bpt_env
begin

text \<open>Saving a tree writes the keys of its nodes and no others.\<close>

lemma pull_nodes_frame:
  "pull_nodes kv pb us t = Inr (st, t') \<Longrightarrow> (\<And>i. key \<noteq> node_key (schema t) i) \<Longrightarrow>
   contents (storage t') key = contents (storage t) key \<and> schema t' = schema t"
proof (induction us arbitrary: t)
  case (Cons u us)
  obtain i p where u: "u = (i, p)" by (cases u)
  from Cons.prems(1) obtain st1 t1 where d: "DumpTreeNode kv pb (schema t) i p t = Inr (st1, t1)"
    "(if st1 \<noteq> C_OK then Inr (st1, t1) else pull_nodes kv pb us t1) = Inr (st, t')"
    by (auto simp: u bindR_Inr_iff)
  from d(1) obtain v st2 s1 where p: "PutKV kv (node_key (schema t) i) v (storage t) = Inr (st2, s1)" "t1 = t\<lparr>storage := s1\<rparr>"
    by (auto simp: DumpTreeNode_def bindR_Inr_iff)
  obtain s2 where "PutKV kv (node_key (schema t) i) v (storage t) = Inr (C_OK, s2)"
    "contents s2 = (contents (storage t))(node_key (schema t) i \<mapsto> v)" using PutKV_law by blast
  with p(1) have "contents s1 = (contents (storage t))(node_key (schema t) i \<mapsto> v)" by simp
  then have t1: "contents (storage t1) key = contents (storage t) key" "schema t1 = schema t"
    using Cons.prems(2) p(2) by simp_all
  show ?case
  proof (cases "st1 = C_OK")
    case True
    then have "pull_nodes kv pb us t1 = Inr (st, t')" using d(2) by simp
    from Cons.IH [OF this] Cons.prems(2) t1 show ?thesis by simp
  next
    case False
    with d(2) t1 show ?thesis by simp
  qed
qed simp

lemma save_frame:
  assumes "PullUnsavedTreeNode kv pb t = Inr t'" "\<And>i. key \<noteq> node_key (schema t) i"
  shows "contents (storage t') key = contents (storage t) key"
proof -
  from assms(1) obtain st t1 where "pull_nodes kv pb (unsaved t) t = Inr (st, t1)"
    "t' = (if st \<noteq> C_OK then t1 else t1\<lparr>unsaved := []\<rparr>)"
    by (auto simp: PullUnsavedTreeNode_def bindR_Inr_iff)
  then show ?thesis using pull_nodes_frame [OF _ assms(2)] by auto
qed

end

end
