(* ===== verification/TableTheorems.thy ===== *)
theory TableTheorems
  imports TableInv "HOL-Library.Multiset"
begin

text \<open>
  Inserting, deleting and scanning rows of a table that is kept loaded: the operations of a table
  refine those of a finite set of rows identified by their primary key.
\<close>

section \<open>Encoding the rows of a table\<close>

lemma init_cols_ids: "map desc_id (fst (init_cols cs b)) = map desc_id cs"
  by (induction cs b rule: init_cols.induct) (simp_all add: Let_def split_beta)

lemma ToRowDesc_ids: "map desc_id (cols (ToRowDesc t)) = map (\<lambda>c. ucast (col_id c)) (column_list t)"
proof -
  have "map desc_id (cols (InitAllColDesc d)) = map desc_id (cols d)" for d
    using init_cols_ids [of "cols d" 0] by (simp add: InitAllColDesc_def split_beta Let_def)
  then show ?thesis
    by (simp add: ToRowDesc_def fold_AddColumnDesc RowDescriptor_def ColumnDescriptor_def comp_def)
qed

lemma row_object_table:
  assumes "row_object t r vs" "single_index t k"
  shows "table_row t r" "row_values t vs \<longleftrightarrow> (\<forall>v \<in> set vs. ev_type v \<noteq> Int8)"
proof -
  have d: "length (column_list t) < 2 ^ 24" "row_desc r = ToRowDesc t" "row_ok r" "row_has r vs"
    "k < length (column_list t)" "columns_numbered t"
    using assms by (simp_all add: row_object_def single_index_def)
  note l = ToRowDesc_cols [OF d(1)]
  show "table_row t r" using d l by (auto simp: table_row_def)
  show "row_values t vs \<longleftrightarrow> (\<forall>v \<in> set vs. ev_type v \<noteq> Int8)"
    using d(4) l(3) d(2) by (auto simp: row_values_def row_has_def in_set_conv_nth)
qed

lemma index_infoI:
  assumes "single_index t k"
  obtains p where "index_info t 0 = Inr p" "primary_of t = Inr p" "index_list t = [p]" "index_columns t p = Inr [column_list t ! k]"
    "idx_columns p = [column_list t ! k]"
  using assms by (auto simp: single_index_def index_info_def primary_of_def index_columns_def)

lemma encode_row_object:
  assumes r: "row_object t r vs" and t: "single_index t k"
  shows "EncodeRow fo obj t r [] [] = Inr (row_record t k vs, tagged_bytes vs)"
proof -
  note tr = row_object_table(1) [OF r t]
  have rh: "row_has r vs" using r by (simp add: row_object_def)
  have k: "k < length (column_list t)" using t by (simp add: single_index_def)
  have "length vs = length (column_list t)" using tr rh unfolding table_row_def row_has_def by (metis length_map)
  then have num: "number (vs ! k)" using rh k by (simp add: row_has_def)
  obtain p where p: "primary_of t = Inr p" "idx_columns p = [column_list t ! k]" using index_infoI [OF t] by metis
  show ?thesis
    by (simp add: EncodeRow_def p read_table_column [OF tr rh k] ToString_number [OF num] row_record_def
        encode_row_columns [OF tr rh])
qed

lemma encode_index_object:
  assumes r: "row_object t r vs" and t: "single_index t k" and p: "index_info t 0 = Inr p"
  shows "EncodeIndex obj t p r [] = Inr (entry_key k vs, [])" "index_entry obj t p r = Inr (entry_key k vs, [])"
proof -
  note tr = row_object_table(1) [OF r t]
  have rh: "row_has r vs" and d: "row_desc r = ToRowDesc t" using r by (simp_all add: row_object_def)
  have k: "k < length (column_list t)" using t by (simp add: single_index_def)
  have l: "length vs = length (column_list t)" using tr rh unfolding table_row_def row_has_def by (metis length_map)
  then have num: "number (vs ! k)" using rh k by (simp add: row_has_def)
  have ic: "index_columns t p = Inr [column_list t ! k]" using index_infoI [OF t] p by (metis sum.inject(2))
  have "encode_columns obj r [column_list t ! k] [] = Inr ([] @ tagged_bytes [vs ! k])"
    by (rule encode_columns_bytes) (use num read_table_column [OF tr rh k] in \<open>simp add: number_def\<close>)
  then show e: "EncodeIndex obj t p r [] = Inr (entry_key k vs, [])" by (simp add: EncodeIndex_def ic entry_key_def)
  have "\<exists>v. GetColValue obj (row_id (row_desc r)) (desc_id c) r = Inr v" if c: "c \<in> set (cols (row_desc r))" for c
  proof -
    from c have "desc_id c \<in> set (map desc_id (cols (ToRowDesc t)))" by (simp add: d)
    then obtain ci where ci: "ci \<in> set (column_list t)" "desc_id c = ucast (col_id ci)" by (auto simp: ToRowDesc_ids)
    then obtain j where "j < length (column_list t)" "ci = column_list t ! j" by (auto simp: in_set_conv_nth)
    then show ?thesis using read_table_column [OF tr rh, of j obj] ci(2) by (auto simp: read_column_def)
  qed
  then obtain f where "\<And>c. c \<in> set (cols (row_desc r)) \<Longrightarrow> GetColValue obj (row_id (row_desc r)) (desc_id c) r = Inr (f c)"
    by metis
  then have "mapR (\<lambda>c. GetColValue obj (row_id (row_desc r)) (desc_id c) r) (cols (row_desc r)) = Inr (map f (cols (row_desc r)))"
    by (rule mapR_total)
  then show "index_entry obj t p r = Inr (entry_key k vs, [])" by (simp add: index_entry_def e)
qed

section \<open>The loop over the indexes\<close>

text \<open>An unordered map may be visited in any order.\<close>

definition visits_all :: "hash_order \<Rightarrow> bool" where
  "visits_all ord \<longleftrightarrow> (\<forall>xs. mset (ord xs) = mset xs)"

lemma visits_single: "visits_all ord \<Longrightarrow> ord [a] = [a]"
  unfolding visits_all_def by (drule spec [of _ "[a]"]) simp

lemma each_single: "each_index f [(i, n)] tb = on_index f n tb"
  by (auto simp: bindR_def split: sum.splits prod.splits intro!: ext)

text \<open>The table after a call on its only index.\<close>

definition back_from_index :: "'s table \<Rightarrow> TableInfo \<Rightarrow> 's tree \<Rightarrow> 's table" where
  "back_from_index tb t tr =
     tb\<lparr>table_info := t, index_objs := [(index_objs tb ! 0)\<lparr>ix_tree := tr\<rparr>], table_storage := storage tr\<rparr>"

lemma each_index_table:
  assumes "table_shape tb k" "visits_all ord"
    "f (table_info tb) ((index_objs tb ! 0)\<lparr>ix_tree := table_tree tb\<rparr>) =
       Inr (st, t, (index_objs tb ! 0)\<lparr>ix_tree := tr\<rparr>)"
  shows "each_index f (ord (col_index tb)) tb = Inr (st, back_from_index tb t tr)"
proof -
  obtain i where i: "col_index tb = [(i, 0)]" "length (index_objs tb) = 1" using assms(1) by (auto simp: table_shape_def)
  obtain x where x: "index_objs tb = [x]" using i(2) by (cases "index_objs tb") auto
  have "on_index f 0 tb = Inr (st, back_from_index tb t tr)"
    using assms(3) by (simp add: on_index_def x table_tree_def back_from_index_def)
  then show ?thesis by (simp add: i visits_single [OF assms(2)] each_single del: each_index.simps)
qed

lemma back_from_index_simps [simp]:
  "table_info (back_from_index tb t tr) = t" "table_storage (back_from_index tb t tr) = storage tr"
  "table_tree (back_from_index tb t tr) = tr" "col_index (back_from_index tb t tr) = col_index tb"
  "row_index (back_from_index tb t tr) = row_index tb" "length (index_objs (back_from_index tb t tr)) = 1"
  "index_objs (back_from_index tb t tr) ! 0 = (index_objs tb ! 0)\<lparr>ix_tree := tr\<rparr>"
  by (simp_all add: back_from_index_def table_tree_def)

text \<open>The parts of a descriptor the invariant looks at; the node counter of the index is not one.\<close>

definition same_table :: "TableInfo \<Rightarrow> TableInfo \<Rightarrow> bool" where
  "same_table t t' \<longleftrightarrow> (\<exists>ix. t' = t\<lparr>index_list := ix\<rparr>) \<and>
     map idx_type (index_list t') = map idx_type (index_list t) \<and>
     map idx_columns (index_list t') = map idx_columns (index_list t)"

lemma same_table_refl [simp]: "same_table t t"
  by (auto simp: same_table_def intro: exI [of _ "index_list t"])

lemma same_tableD:
  assumes "same_table t t'"
  shows "row_values t' = row_values t" "row_record t' = row_record t" "row_object t' = row_object t"
    "stored_rows m t' k rows = stored_rows m t k rows" "tbl_db_id t' = tbl_db_id t" "tbl_id t' = tbl_id t"
    "single_index t k \<Longrightarrow> single_index t' k"
proof -
  obtain ix where t': "t' = t\<lparr>index_list := ix\<rparr>" "map idx_type ix = map idx_type (index_list t)"
    "map idx_columns ix = map idx_columns (index_list t)" using assms by (auto simp: same_table_def)
  show v: "row_values t' = row_values t" "row_record t' = row_record t"
    by (simp_all add: fun_eq_iff row_values_def row_record_def t')
  show "row_object t' = row_object t" by (simp add: fun_eq_iff row_object_def ToRowDesc_def t')
  show "stored_rows m t' k rows = stored_rows m t k rows" by (simp add: stored_rows_def v)
  show "tbl_db_id t' = tbl_db_id t" "tbl_id t' = tbl_id t" by (simp_all add: t')
  show "single_index t' k" if "single_index t k"
    using that t'(2,3) by (auto simp: single_index_def columns_numbered_def t'(1) map_eq_Cons_conv)
qed

lemma set_max_node_same:
  assumes "single_index t k" "ix_pos x = 0"
  shows "same_table t (set_max_node x t)"
  using assms by (auto simp: same_table_def set_max_node_def single_index_def)

lemma table_shape_back:
  assumes "table_shape tb k" "same_table (table_info tb) t" "schema tr = schema (table_tree tb)"
  shows "table_shape (back_from_index tb t tr) k"
  using assms same_tableD [OF assms(2)] by (auto simp: table_shape_def)

text \<open>The rows in the order of their keys.\<close>

fun row_emplace :: "nat \<Rightarrow> expr_value list \<Rightarrow> expr_value list list \<Rightarrow> expr_value list list" where
  "row_emplace k vs [] = [vs]"
| "row_emplace k vs (ws # rows) =
     (if entry_key k vs < entry_key k ws then vs # ws # rows
      else if entry_key k vs = entry_key k ws then ws # rows else ws # row_emplace k vs rows)"

lemma entries_emplace: "smap_emplace (entry_key k vs) [] (entries_of k rows) = entries_of k (row_emplace k vs rows)"
  by (induction k vs rows rule: row_emplace.induct) (simp_all add: entries_of_def)

lemma set_row_emplace:
  "entry_key k vs \<notin> entry_key k ` set rows \<Longrightarrow> set (row_emplace k vs rows) = insert vs (set rows)"
  by (induction k vs rows rule: row_emplace.induct) auto

lemma length_row_emplace:
  "entry_key k vs \<notin> entry_key k ` set rows \<Longrightarrow> length (row_emplace k vs rows) = Suc (length rows)"
  by (induction k vs rows rule: row_emplace.induct) auto

lemma keys_of_entries: "fst ` set (entries_of k rows) = entry_key k ` set rows"
  by (auto simp: entries_of_def image_comp)

lemma entries_erase:
  "smap_ok (entries_of k rows) \<Longrightarrow>
   smap_erase key (entries_of k rows) = entries_of k (filter (\<lambda>ws. entry_key k ws \<noteq> key) rows)"
proof (induction rows)
  case (Cons ws rows)
  then have "\<forall>w \<in> set rows. entry_key k ws < entry_key k w" "smap_ok (entries_of k rows)"
    by (auto simp: entries_of_def)
  moreover from this(1) have "filter (\<lambda>w. entry_key k w \<noteq> entry_key k ws) rows = rows"
    by (intro filter_True) auto
  ultimately show ?case using Cons.IH by (auto simp: entries_of_def)
qed (simp add: entries_of_def)

text \<open>A chunk with one row.\<close>

definition one_row :: "chunk \<Rightarrow> Row \<Rightarrow> bool" where
  "one_row c r \<longleftrightarrow> select c = [r]"

lemma for_one_row: "one_row c r \<Longrightarrow> for_rows f c 0 = bindR (f r) (\<lambda>x. Inr [x])"
  by (simp add: one_row_def for_rows_all)

context bpt_env
begin

lemma submit_ok:
  assumes shape: "table_shape tb k" and ord: "visits_all ord" and inv: "tree_inv pb contents (table_tree tb) ls"
  obtains tb' where "Submit kv pb ord tb = Inr (C_OK, tb')" "table_shape tb' k" "table_info tb' = table_info tb"
    "tree_clean pb contents (table_tree tb') ls" "ctx_id (table_tree tb') = ctx_id (table_tree tb)"
    "\<And>key. (\<And>i. key \<noteq> node_key (schema (table_tree tb)) i) \<Longrightarrow>
       contents (table_storage tb') key = contents (table_storage tb) key"
    "schema (table_tree tb') = schema (table_tree tb)"
proof -
  obtain tr where tr: "PullUnsavedTreeNode kv pb (table_tree tb) = Inr tr" "tree_clean pb contents tr ls"
    "schema tr = schema (table_tree tb)" "ctx_id tr = ctx_id (table_tree tb)" "heap tr = heap (table_tree tb)"
    "root tr = root (table_tree tb)" by (rule save_ok [OF inv])
  let ?tb = "back_from_index tb (table_info tb) tr"
  show thesis
  proof
    show "Submit kv pb ord tb = Inr (C_OK, ?tb)"
      unfolding Submit_def by (rule each_index_table [OF shape ord]) (simp add: Index_Save_def tr(1))
    show "table_shape ?tb k" by (rule table_shape_back [OF shape _ tr(3)]) simp
    show "contents (table_storage ?tb) key = contents (table_storage tb) key"
      if "\<And>i. key \<noteq> node_key (schema (table_tree tb)) i" for key
      using save_frame [OF tr(1) that] by (simp add: table_tree_def)
  qed (simp_all add: tr)
qed

text \<open>Writing the record of a row: the tree does not see it, and of the other rows only those with
  the same key.\<close>

lemma put_record:
  assumes h: "table_holds pb contents tb k rows" and vs: "row_values (table_info tb) vs"
  obtains s ls where
    "MPutKV kv [row_record (table_info tb) k vs] [tagged_bytes vs] (table_storage tb) = Inr (C_OK, s)"
    "table_shape (tb\<lparr>table_storage := s\<rparr>) k" "tree_clean pb contents (table_tree (tb\<lparr>table_storage := s\<rparr>)) ls"
    "concat ls = entries_of k rows"
    "ctx_id (table_tree (tb\<lparr>table_storage := s\<rparr>)) = ctx_id (table_tree tb)"
    "schema (table_tree (tb\<lparr>table_storage := s\<rparr>)) = schema (table_tree tb)"
    "contents s (row_record (table_info tb) k vs) = Some (tagged_bytes vs)"
    "\<And>ws. ws \<in> set rows \<Longrightarrow> entry_key k ws \<noteq> entry_key k vs \<Longrightarrow>
       contents s (row_record (table_info tb) k ws) = Some (tagged_bytes ws)"
proof -
  let ?t = "table_info tb"
  obtain ls where ls: "table_shape tb k" "tree_clean pb contents (table_tree tb) ls" "concat ls = entries_of k rows"
    "stored_rows (contents (table_storage tb)) ?t k rows" using h by (auto simp: table_holds_def)
  have si: "single_index ?t k" and db: "ts_db_id (schema (table_tree tb)) = tbl_db_id ?t"
    using ls(1) by (simp_all add: table_shape_def)
  obtain s where s: "MPutKV kv [row_record ?t k vs] [tagged_bytes vs] (table_storage tb) = Inr (C_OK, s)"
    "contents s = (contents (table_storage tb))(row_record ?t k vs \<mapsto> tagged_bytes vs)"
    using MPutKV_law [of "[row_record ?t k vs]" "[tagged_bytes vs]" "table_storage tb"] by auto
  have tr: "table_tree (tb\<lparr>table_storage := s\<rparr>) = (table_tree tb)\<lparr>storage := s\<rparr>" by (simp add: table_tree_def)
  show thesis
  proof
    show "tree_clean pb contents (table_tree (tb\<lparr>table_storage := s\<rparr>)) ls" unfolding tr
      by (rule tree_clean_frame [OF ls(2)]) (use record_not_node [OF vs si db, symmetric] in \<open>simp add: s(2) table_tree_def\<close>)
    show "table_shape (tb\<lparr>table_storage := s\<rparr>) k" using ls(1) by (simp add: table_shape_def tr)
    show "contents s (row_record ?t k ws) = Some (tagged_bytes ws)"
      if "ws \<in> set rows" "entry_key k ws \<noteq> entry_key k vs" for ws
    proof -
      have w: "row_values ?t ws" "contents (table_storage tb) (row_record ?t k ws) = Some (tagged_bytes ws)"
        using ls(4) that(1) by (simp_all add: stored_rows_def)
      from same_row [OF w(1) vs si] that(2) have "row_record ?t k ws \<noteq> row_record ?t k vs" by simp
      then show ?thesis by (simp add: s(2) w(2))
    qed
  qed (simp_all add: s ls tr)
qed

lemma insertCore_object:
  assumes "row_object (table_info tb) r vs" "single_index (table_info tb) k" "one_row c r"
    "MPutKV kv [row_record (table_info tb) k vs] [tagged_bytes vs] (table_storage tb) = Inr (C_OK, s)"
  shows "insertCore kv pb fo obj ord c tb =
    each_index (Index_Insert kv pb obj c) (ord (col_index tb)) (tb\<lparr>table_storage := s\<rparr>)"
  by (simp add: insertCore_def for_one_row [OF assms(3)] encode_row_object [OF assms(1,2)] assms(4))

lemma Index_Insert_object:
  assumes r: "row_object t r vs" and t: "single_index t k" and c: "one_row c r" and x: "ix_pos x = 0"
    and ins: "Bptree_Insert kv pb (entry_key k vs) [] (ix_tree x) = Inr (st, tr)"
  shows "Index_Insert kv pb obj c t x =
    Inr (st, if st \<noteq> C_OK then t else set_max_node (x\<lparr>ix_tree := tr\<rparr>) t, x\<lparr>ix_tree := tr\<rparr>)"
proof -
  obtain p where p: "index_info t 0 = Inr p" using index_infoI [OF t] by metis
  show ?thesis
    by (simp add: Index_Insert_def x p for_one_row [OF c] encode_index_object(2) [OF r t p] ins Let_def)
qed

lemma table_insert_new:
  assumes h: "table_holds pb contents tb k rows" and ord: "visits_all ord"
    and r: "row_object (table_info tb) r vs" "row_values (table_info tb) vs" "one_row c r"
    and new: "entry_key k vs \<notin> entry_key k ` set rows"
    and room: "unat (ctx_id (table_tree tb)) < 2 ^ 64 - 1" "length rows < 2 ^ 64 - 2"
  obtains tb' rows' where "Table_Insert kv pb fo obj ord c tb = Inr (C_OK, tb')" "table_holds pb contents tb' k rows'"
    "set rows' = insert vs (set rows)" "length rows' = Suc (length rows)" "same_table (table_info tb) (table_info tb')"
    "ctx_id (table_tree tb') = ctx_id (table_tree tb) \<or> ctx_id (table_tree tb') = ctx_id (table_tree tb) + 1"
    "schema (table_tree tb') = schema (table_tree tb)"
proof -
  let ?t = "table_info tb" and ?x = "index_objs tb ! 0" and ?rows = "row_emplace k vs rows"
  have shape: "table_shape tb k" using h by (simp add: table_holds_def)
  then have si: "single_index ?t k" and x: "ix_pos ?x = 0" and prep: "Prepare kv pb tb = Inr (C_OK, tb)"
    and db: "ts_db_id (schema (table_tree tb)) = tbl_db_id ?t"
    by (simp_all add: table_shape_def Prepare_def loadMeta_def)
  obtain s ls where s: "MPutKV kv [row_record ?t k vs] [tagged_bytes vs] (table_storage tb) = Inr (C_OK, s)"
    "table_shape (tb\<lparr>table_storage := s\<rparr>) k" "tree_clean pb contents (table_tree (tb\<lparr>table_storage := s\<rparr>)) ls"
    "concat ls = entries_of k rows"
    "ctx_id (table_tree (tb\<lparr>table_storage := s\<rparr>)) = ctx_id (table_tree tb)"
    "schema (table_tree (tb\<lparr>table_storage := s\<rparr>)) = schema (table_tree tb)"
    "contents s (row_record ?t k vs) = Some (tagged_bytes vs)"
    "\<And>ws. ws \<in> set rows \<Longrightarrow> entry_key k ws \<noteq> entry_key k vs \<Longrightarrow>
       contents s (row_record ?t k ws) = Some (tagged_bytes ws)"
    by (rule put_record [OF h r(2)]) blast
  let ?tb1 = "tb\<lparr>table_storage := s\<rparr>"
  note v = row_value_at [OF r(2) si]
  have kl: "length (entry_key k vs) \<le> max_key_len"
    using value_bytes_small [OF v(2)] by (simp add: entry_key_def max_key_len_def)
  have key: "entry_key k vs \<notin> fst ` set (concat ls)" using new by (simp add: s(4) keys_of_entries)
  obtain tr ls1 where tr: "Bptree_Insert kv pb (entry_key k vs) [] (table_tree ?tb1) = Inr (C_OK, tr)"
    "tree_inv pb contents tr ls1" "concat ls1 = smap_emplace (entry_key k vs) [] (concat ls)"
    "storage tr = storage (table_tree ?tb1)" "schema tr = schema (table_tree ?tb1)"
    "ctx_id tr = ctx_id (table_tree ?tb1) \<or> ctx_id tr = ctx_id (table_tree ?tb1) + 1"
  proof (rule insert_new [OF clean_safe [OF s(3)] key kl])
    show "unat (ctx_id (table_tree ?tb1)) < 2 ^ 64 - 1" by (subst s(5)) (rule room(1))
    show "length (concat ls) < 2 ^ 64 - 2" using room(2) by (simp add: s(4) entries_of_def)
    show "length [] < (2 :: nat) ^ 32" by simp
  qed
  let ?t1 = "set_max_node (?x\<lparr>ix_tree := tr\<rparr>) ?t"
  have same: "same_table ?t ?t1" by (rule set_max_node_same [OF si]) (simp add: x)
  have call: "Index_Insert kv pb obj c ?t (?x\<lparr>ix_tree := table_tree ?tb1\<rparr>) =
      Inr (C_OK, ?t1, ?x\<lparr>ix_tree := tr\<rparr>)"
    using Index_Insert_object [OF r(1) si r(3), of "?x\<lparr>ix_tree := table_tree ?tb1\<rparr>" C_OK tr obj] tr(1) x by simp
  let ?tb2 = "back_from_index ?tb1 ?t1 tr"
  have core: "insertCore kv pb fo obj ord c tb = Inr (C_OK, ?tb2)"
    unfolding insertCore_object [OF r(1) si r(3) s(1)]
    using each_index_table [OF s(2) ord, of "Index_Insert kv pb obj c" C_OK ?t1 tr] call by simp
  have shape2: "table_shape ?tb2 k" by (rule table_shape_back [OF s(2)]) (simp_all add: same tr(5))
  have inv2: "tree_inv pb contents (table_tree ?tb2) ls1" using tr(2) by simp
  obtain tb' where tb': "Submit kv pb ord ?tb2 = Inr (C_OK, tb')" "table_shape tb' k" "table_info tb' = table_info ?tb2"
    "tree_clean pb contents (table_tree tb') ls1" "ctx_id (table_tree tb') = ctx_id (table_tree ?tb2)"
    "\<And>key. (\<And>i. key \<noteq> node_key (schema (table_tree ?tb2)) i) \<Longrightarrow>
       contents (table_storage tb') key = contents (table_storage ?tb2) key"
    "schema (table_tree tb') = schema (table_tree ?tb2)"
    by (rule submit_ok [OF shape2 ord inv2]) blast
  have st2: "table_storage ?tb2 = s" using tr(4) by (simp add: table_tree_def)
  have old: "row_values ?t ws" if "ws \<in> set rows" for ws
    using h that by (simp add: table_holds_def stored_rows_def)
  have "contents (table_storage tb') (row_record ?t k ws) = contents s (row_record ?t k ws)" if "row_values ?t ws" for ws
  proof -
    have "contents (table_storage tb') (row_record ?t k ws) = contents (table_storage ?tb2) (row_record ?t k ws)"
      by (rule tb'(6)) (use record_not_node [OF that si] db tr(5) s(6) in simp)
    then show ?thesis using st2 by simp
  qed
  then have stored: "stored_rows (contents (table_storage tb')) ?t k ?rows"
    using new old r(2) s(7,8) by (auto simp: stored_rows_def set_row_emplace image_iff)
  show thesis
  proof
    show "Table_Insert kv pb fo obj ord c tb = Inr (C_OK, tb')"
      by (simp add: Table_Insert_def then_ok_def prep core tb'(1))
    show "table_holds pb contents tb' k ?rows"
      using tb'(2,4) stored same_tableD(4) [OF same] tr(3) s(4) entries_emplace [of k vs rows]
      by (auto simp: table_holds_def tb'(3))
    show "set ?rows = insert vs (set rows)" by (rule set_row_emplace [OF new])
    show "length ?rows = Suc (length rows)" by (rule length_row_emplace [OF new])
    show "same_table ?t (table_info tb')" using same by (simp add: tb'(3))
    show "ctx_id (table_tree tb') = ctx_id (table_tree tb) \<or> ctx_id (table_tree tb') = ctx_id (table_tree tb) + 1"
      using tr(6) by (simp add: tb'(5) s(5))
    show "schema (table_tree tb') = schema (table_tree tb)" using tr(5) by (simp add: tb'(7) s(6))
  qed
qed

text \<open>A row whose key is taken: the index refuses it, after the record was overwritten.\<close>

lemma table_insert_dup:
  assumes h: "table_holds pb contents tb k rows" and ord: "visits_all ord"
    and r: "row_object (table_info tb) r vs" "row_values (table_info tb) vs" "one_row c r"
    and dup: "entry_key k vs \<in> entry_key k ` set rows"
  obtains tb' where "Table_Insert kv pb fo obj ord c tb = Inr (C_BPTREE_DUPLICATE_KEY, tb')"
    "table_holds pb contents tb' k (map (\<lambda>ws. if entry_key k ws = entry_key k vs then vs else ws) rows)"
    "table_info tb' = table_info tb" "ctx_id (table_tree tb') = ctx_id (table_tree tb)"
    "schema (table_tree tb') = schema (table_tree tb)"
proof -
  let ?t = "table_info tb" and ?x = "index_objs tb ! 0"
  let ?rows = "map (\<lambda>ws. if entry_key k ws = entry_key k vs then vs else ws) rows"
  have shape: "table_shape tb k" using h by (simp add: table_holds_def)
  then have si: "single_index ?t k" and x: "ix_pos ?x = 0" and prep: "Prepare kv pb tb = Inr (C_OK, tb)"
    by (simp_all add: table_shape_def Prepare_def loadMeta_def)
  obtain s ls where s: "MPutKV kv [row_record ?t k vs] [tagged_bytes vs] (table_storage tb) = Inr (C_OK, s)"
    "table_shape (tb\<lparr>table_storage := s\<rparr>) k" "tree_clean pb contents (table_tree (tb\<lparr>table_storage := s\<rparr>)) ls"
    "concat ls = entries_of k rows"
    "ctx_id (table_tree (tb\<lparr>table_storage := s\<rparr>)) = ctx_id (table_tree tb)"
    "schema (table_tree (tb\<lparr>table_storage := s\<rparr>)) = schema (table_tree tb)"
    "contents s (row_record ?t k vs) = Some (tagged_bytes vs)"
    "\<And>ws. ws \<in> set rows \<Longrightarrow> entry_key k ws \<noteq> entry_key k vs \<Longrightarrow>
       contents s (row_record ?t k ws) = Some (tagged_bytes ws)"
    by (rule put_record [OF h r(2)]) blast
  let ?tb1 = "tb\<lparr>table_storage := s\<rparr>"
  have key: "entry_key k vs \<in> fst ` set (concat ls)" using dup by (simp add: s(4) keys_of_entries)
  obtain tr where tr: "Bptree_Insert kv pb (entry_key k vs) [] (table_tree ?tb1) = Inr (C_BPTREE_DUPLICATE_KEY, tr)"
    "tree_safe pb contents tr ls" "storage tr = storage (table_tree ?tb1)" "schema tr = schema (table_tree ?tb1)"
    "ctx_id tr = ctx_id (table_tree ?tb1)" "unsaved tr = unsaved (table_tree ?tb1)"
    by (rule insert_dup [OF clean_safe [OF s(3)] key])
  have call: "Index_Insert kv pb obj c ?t (?x\<lparr>ix_tree := table_tree ?tb1\<rparr>) =
      Inr (C_BPTREE_DUPLICATE_KEY, ?t, ?x\<lparr>ix_tree := tr\<rparr>)"
    using Index_Insert_object [OF r(1) si r(3), of "?x\<lparr>ix_tree := table_tree ?tb1\<rparr>" C_BPTREE_DUPLICATE_KEY tr obj] tr(1) x
    by simp
  let ?tb2 = "back_from_index ?tb1 ?t tr"
  have core: "insertCore kv pb fo obj ord c tb = Inr (C_BPTREE_DUPLICATE_KEY, ?tb2)"
    unfolding insertCore_object [OF r(1) si r(3) s(1)]
    using each_index_table [OF s(2) ord, of "Index_Insert kv pb obj c" C_BPTREE_DUPLICATE_KEY ?t tr] call by simp
  have old: "row_values ?t ws" if "ws \<in> set rows" for ws
    using h that by (simp add: table_holds_def stored_rows_def)
  have stored: "stored_rows (contents s) ?t k ?rows"
    using old r(2) s(7,8) by (auto simp: stored_rows_def)
  have entries: "entries_of k ?rows = entries_of k rows" by (simp add: entries_of_def)
  show thesis
  proof
    show "Table_Insert kv pb fo obj ord c tb = Inr (C_BPTREE_DUPLICATE_KEY, ?tb2)"
      by (simp add: Table_Insert_def then_ok_def prep core)
    have "storage tr = s" by (simp add: tr(3) table_tree_def)
    moreover have "tree_clean pb contents tr ls" using tr(2,6) s(3) by (simp add: tree_clean_def tree_safe_def)
    moreover have "table_shape ?tb2 k" by (rule table_shape_back [OF s(2)]) (simp_all add: tr(4))
    ultimately show "table_holds pb contents ?tb2 k ?rows"
      using stored s(4) by (auto simp: table_holds_def entries)
  qed (simp_all add: tr(4,5) s(5,6))
qed

lemma Index_Delete_object:
  assumes r: "row_object t r vs" and t: "single_index t k" and c: "one_row c r" and x: "ix_pos x = 0"
    and del: "Bptree_Delete kv pb (entry_key k vs) (ix_tree x) = Inr (C_OK, tr)"
  shows "Index_Delete kv pb obj c t x = Inr (C_OK, set_max_node (x\<lparr>ix_tree := tr\<rparr>) t, x\<lparr>ix_tree := tr\<rparr>)"
proof -
  obtain p where p: "index_info t 0 = Inr p" using index_infoI [OF t] by metis
  show ?thesis
    by (simp add: Index_Delete_def x p for_one_row [OF c] encode_index_object(1) [OF r t p] del Let_def)
qed

lemma table_delete:
  assumes h: "table_holds pb contents tb k rows" and ord: "visits_all ord"
    and r: "row_object (table_info tb) r vs" "row_values (table_info tb) vs" "one_row c r"
  obtains tb' where "Table_Delete kv pb fo obj ord c tb = Inr (C_OK, tb')"
    "table_holds pb contents tb' k (filter (\<lambda>ws. entry_key k ws \<noteq> entry_key k vs) rows)"
    "same_table (table_info tb) (table_info tb')" "ctx_id (table_tree tb') = ctx_id (table_tree tb)"
proof -
  let ?t = "table_info tb" and ?x = "index_objs tb ! 0"
  let ?rows = "filter (\<lambda>ws. entry_key k ws \<noteq> entry_key k vs) rows"
  obtain ls where ls: "table_shape tb k" "tree_clean pb contents (table_tree tb) ls" "concat ls = entries_of k rows"
    "stored_rows (contents (table_storage tb)) ?t k rows" using h by (auto simp: table_holds_def)
  then have si: "single_index ?t k" and x: "ix_pos ?x = 0" and prep: "Prepare kv pb tb = Inr (C_OK, tb)"
    and db: "ts_db_id (schema (table_tree tb)) = tbl_db_id ?t"
    by (simp_all add: table_shape_def Prepare_def loadMeta_def)
  obtain tr ls1 where tr: "Bptree_Delete kv pb (entry_key k vs) (table_tree tb) = Inr (C_OK, tr)"
    "tree_inv pb contents tr ls1" "concat ls1 = smap_erase (entry_key k vs) (concat ls)"
    "storage tr = storage (table_tree tb)" "schema tr = schema (table_tree tb)" "ctx_id tr = ctx_id (table_tree tb)"
    by (rule delete_clean [OF ls(2)])
  let ?t1 = "set_max_node (?x\<lparr>ix_tree := tr\<rparr>) ?t"
  have same: "same_table ?t ?t1" by (rule set_max_node_same [OF si]) (simp add: x)
  have call: "Index_Delete kv pb obj c ?t (?x\<lparr>ix_tree := table_tree tb\<rparr>) = Inr (C_OK, ?t1, ?x\<lparr>ix_tree := tr\<rparr>)"
    using Index_Delete_object [OF r(1) si r(3), of "?x\<lparr>ix_tree := table_tree tb\<rparr>" tr obj] tr(1) x by simp
  let ?tb1 = "back_from_index tb ?t1 tr"
  have ix: "each_index (Index_Delete kv pb obj c) (ord (col_index tb)) tb = Inr (C_OK, ?tb1)"
    using each_index_table [OF ls(1) ord, of "Index_Delete kv pb obj c" C_OK ?t1 tr] call by simp
  have r1: "row_object ?t1 r vs" "single_index ?t1 k" using r(1) si same_tableD [OF same] by simp_all
  have rec: "row_record ?t1 k vs = row_record ?t k vs" using same_tableD [OF same] by simp
  obtain s where s: "MDelKV kv [row_record ?t k vs] (storage tr) = Inr (C_OK, s)"
    "contents s = contents (storage tr) |` (- {row_record ?t k vs})"
    using MDelKV_law [of "[row_record ?t k vs]" "storage tr"] by auto
  let ?tb2 = "?tb1\<lparr>table_storage := s\<rparr>"
  have core: "deleteCore kv pb fo obj ord c tb = Inr (C_OK, ?tb2)"
    by (simp add: deleteCore_def ix for_one_row [OF r(3)] encode_row_object [OF r1] rec s(1))
  have tt: "table_tree ?tb2 = tr\<lparr>storage := s\<rparr>" by (simp add: table_tree_def)
  have "table_shape ?tb1 k" by (rule table_shape_back [OF ls(1) same tr(5)])
  then have shape2: "table_shape ?tb2 k" by (simp add: table_shape_def tt)
  have inv2: "tree_inv pb contents (table_tree ?tb2) ls1" unfolding tt
    by (rule tree_inv_frame [OF tr(2)]) (use record_not_node [OF r(2) si, symmetric] db tr(5) in \<open>simp add: s(2) restrict_map_def\<close>)
  obtain tb' where tb': "Submit kv pb ord ?tb2 = Inr (C_OK, tb')" "table_shape tb' k" "table_info tb' = table_info ?tb2"
    "tree_clean pb contents (table_tree tb') ls1" "ctx_id (table_tree tb') = ctx_id (table_tree ?tb2)"
    "\<And>key. (\<And>i. key \<noteq> node_key (schema (table_tree ?tb2)) i) \<Longrightarrow>
       contents (table_storage tb') key = contents (table_storage ?tb2) key"
    by (rule submit_ok [OF shape2 ord inv2]) blast
  have kept: "contents (table_storage tb') (row_record ?t k ws) = Some (tagged_bytes ws)" if "ws \<in> set ?rows" for ws
  proof -
    have w: "row_values ?t ws" "contents (table_storage tb) (row_record ?t k ws) = Some (tagged_bytes ws)"
      using ls(4) that by (simp_all add: stored_rows_def)
    have "row_record ?t k ws \<noteq> row_record ?t k vs" using same_row [OF w(1) r(2) si] that by simp
    then have "contents s (row_record ?t k ws) = Some (tagged_bytes ws)"
      using w(2) by (simp add: s(2) tr(4) table_tree_def)
    moreover have "contents (table_storage tb') (row_record ?t k ws) = contents (table_storage ?tb2) (row_record ?t k ws)"
      by (rule tb'(6)) (use record_not_node [OF w(1) si] db tr(5) in \<open>simp add: tt\<close>)
    ultimately show ?thesis by simp
  qed
  have "smap_ok (concat ls)" using ls(2) by (auto simp: tree_clean_def intro: kvs_ok_smap dest: tree_inv_concat)
  then have entries: "concat ls1 = entries_of k ?rows" by (simp add: tr(3) ls(3) entries_erase)
  have info: "table_info tb' = ?t1" by (simp add: tb'(3))
  show thesis
  proof
    show "Table_Delete kv pb fo obj ord c tb = Inr (C_OK, tb')"
      by (simp add: Table_Delete_def then_ok_def prep core tb'(1))
    have "stored_rows (contents (table_storage tb')) ?t k ?rows"
      using kept ls(4) unfolding stored_rows_def by (simp only: set_filter mem_Collect_eq) blast
    then show "table_holds pb contents tb' k ?rows"
      using tb'(2,4) entries same_tableD(4) [OF same] by (auto simp: table_holds_def info)
    show "same_table ?t (table_info tb')" by (simp add: info same)
    show "ctx_id (table_tree tb') = ctx_id (table_tree tb)" by (simp add: tb'(5) tt tr(6))
  qed
qed

text \<open>Opening a table whose index and rows are in the storage.\<close>

lemma prepare_table:
  assumes t: "single_index t k" and st: "stored_tree pb (contents s) (index_schema t (hd (index_list t))) ls"
    and rows: "concat ls = entries_of k rows" "stored_rows (contents s) t k rows"
  obtains tb where "Prepare kv pb (Table t s) = Inr (C_OK, tb)" "table_holds pb contents tb k rows" "table_info tb = t"
    "ctx_id (table_tree tb) = idx_max_tree_node_id (hd (index_list t))" "table_storage tb = s"
    "schema (table_tree tb) = index_schema t (hd (index_list t))"
proof -
  obtain p where p: "index_info t 0 = Inr p" "index_list t = [p]" using index_infoI [OF t] by metis
  obtain tr where tr: "open_index kv pb (index_schema t p) s = Inr tr" "tree_clean pb contents tr ls"
    "schema tr = index_schema t p" "storage tr = s" "ctx_id tr = ts_tree_id (index_schema t p)"
    using open_ok [OF st] p(2) by auto
  have prim: "idx_type p = CONSTRAINT_PRIMARY" using t p(2) by (simp add: single_index_def)
  let ?tb = "(Table t s)\<lparr>index_objs := [\<lparr>ix_tree = tr, ix_pos = 0\<rparr>], col_index := [(idx_id p, 0)], row_index := Some 0\<rparr>"
  have "tr = tr\<lparr>storage := s\<rparr>" using tr(4) by (cases tr) simp
  then have tt: "table_tree ?tb = tr" by (simp add: table_tree_def Table_def)
  show thesis
  proof
    show "Prepare kv pb (Table t s) = Inr (C_OK, ?tb)"
      by (simp add: Prepare_def loadMeta_def Table_def p load_index_obj_def Index_def tr(1) prim)
    have "table_shape ?tb k" using t by (simp add: table_shape_def tt tr(3) index_schema_def) (simp add: Table_def)
    then show "table_holds pb contents ?tb k rows"
      using tr(2) rows by (auto simp: table_holds_def tt) (auto simp: Table_def)
    show "ctx_id (table_tree ?tb) = idx_max_tree_node_id (hd (index_list t))" unfolding tt by (simp add: tr(5) index_schema_def p(2))
    show "table_info ?tb = t" "table_storage ?tb = s" by (simp_all add: Table_def)
    show "schema (table_tree ?tb) = index_schema t (hd (index_list t))" unfolding tt by (simp add: tr(3) p(2))
  qed
qed

end

section \<open>Sessions on a table\<close>

datatype table_op = Insert_Chunk chunk | Delete_Chunk chunk

fun op_chunk :: "table_op \<Rightarrow> chunk" where
  "op_chunk (Insert_Chunk c) = c"
| "op_chunk (Delete_Chunk c) = c"

fun run_ops ::
    "'s kv_api \<Rightarrow> proto_ops \<Rightarrow> float_ops \<Rightarrow> (bytes \<Rightarrow> bytes) \<Rightarrow> hash_order \<Rightarrow> table_op list \<Rightarrow> 's table \<Rightarrow>
     (status list \<times> 's table) res" where
  "run_ops kv pb fo obj ord [] tb = Inr ([], tb)"
| "run_ops kv pb fo obj ord (op # ops) tb =
     bindR (case op of Insert_Chunk c \<Rightarrow> Table_Insert kv pb fo obj ord c tb
            | Delete_Chunk c \<Rightarrow> Table_Delete kv pb fo obj ord c tb) (\<lambda>(st, tb1).
     bindR (run_ops kv pb fo obj ord ops tb1) (\<lambda>(sts, tb2). Inr (st # sts, tb2)))"

text \<open>The specification: a set of rows, at most one for each value of column \<open>k\<close>.\<close>

fun rows_op :: "nat \<Rightarrow> table_op \<Rightarrow> expr_value list \<Rightarrow> expr_value list set \<Rightarrow> status \<times> expr_value list set" where
  "rows_op k (Insert_Chunk c) vs R =
     (if \<exists>ws \<in> R. ws ! k = vs ! k then (C_BPTREE_DUPLICATE_KEY, insert vs {ws \<in> R. ws ! k \<noteq> vs ! k})
      else (C_OK, insert vs R))"
| "rows_op k (Delete_Chunk c) vs R = (C_OK, {ws \<in> R. ws ! k \<noteq> vs ! k})"

fun rows_ops :: "nat \<Rightarrow> (table_op \<times> expr_value list) list \<Rightarrow> expr_value list set \<Rightarrow> status list \<times> expr_value list set" where
  "rows_ops k [] R = ([], R)"
| "rows_ops k ((op, vs) # ops) R =
     (let (st, R1) = rows_op k op vs R; (sts, R2) = rows_ops k ops R1 in (st # sts, R2))"

text \<open>The operation is on a chunk with one row of the table, which has these values.\<close>

definition op_values :: "TableInfo \<Rightarrow> table_op \<times> expr_value list \<Rightarrow> bool" where
  "op_values t opv \<longleftrightarrow>
     (\<exists>r. one_row (op_chunk (fst opv)) r \<and> row_object t r (snd opv) \<and> row_values t (snd opv))"

definition table_room :: "'s table \<Rightarrow> expr_value list list \<Rightarrow> nat \<Rightarrow> bool" where
  "table_room tb rows n \<longleftrightarrow> unat (ctx_id (table_tree tb)) + n < 2 ^ 64 \<and> length rows + n + 1 < 2 ^ 64"

lemma op_values_same: "same_table t t' \<Longrightarrow> op_values t' = op_values t"
  by (simp add: fun_eq_iff op_values_def same_tableD)

lemma rows_with_key:
  assumes "table_holds pb contents tb k rows" "row_values (table_info tb) vs" "ws \<in> set rows"
  shows "entry_key k ws = entry_key k vs \<longleftrightarrow> ws ! k = vs ! k"
  using assms by (intro same_row) (auto simp: table_holds_def table_shape_def stored_rows_def)

lemma replace_image:
  assumes "w \<in> R" "P w" "\<And>x. x \<in> R \<Longrightarrow> P x \<longleftrightarrow> Q x"
  shows "(\<lambda>x. if P x then v else x) ` R = insert v {x \<in> R. \<not> Q x}"
proof -
  have "(\<lambda>x. if P x then v else x) ` R = (\<lambda>x. if Q x then v else x) ` R" by (rule image_cong) (simp_all add: assms(3))
  moreover have "Q w" using assms by simp
  ultimately show ?thesis using assms(1) by auto
qed

context bpt_env
begin

lemma run_ops_simulates:
  assumes "table_holds pb contents tb k rows" "visits_all ord" "\<forall>opv \<in> set ops. op_values (table_info tb) opv"
    "table_room tb rows (length ops)"
  shows "\<exists>sts tb' rows'. run_ops kv pb fo obj ord (map fst ops) tb = Inr (sts, tb') \<and>
    table_holds pb contents tb' k rows' \<and> rows_ops k ops (set rows) = (sts, set rows')"
  using assms
proof (induction ops arbitrary: tb rows)
  case (Cons opv ops)
  obtain op vs where opv: "opv = (op, vs)" by (cases opv)
  obtain r where r: "one_row (op_chunk op) r" "row_object (table_info tb) r vs" "row_values (table_info tb) vs"
    using Cons.prems(3) by (auto simp: opv op_values_def)
  note h = Cons.prems(1) and ord = Cons.prems(2)
  note key = rows_with_key [OF h r(3)]
  let ?call = "case op of Insert_Chunk c \<Rightarrow> Table_Insert kv pb fo obj ord c tb | Delete_Chunk c \<Rightarrow> Table_Delete kv pb fo obj ord c tb"
  have "\<exists>st tb1 rows1. ?call = Inr (st, tb1) \<and> table_holds pb contents tb1 k rows1 \<and>
      rows_op k op vs (set rows) = (st, set rows1) \<and> same_table (table_info tb) (table_info tb1) \<and>
      table_room tb1 rows1 (length ops)"
  proof (cases op)
    case (Insert_Chunk c)
    show ?thesis
    proof (cases "entry_key k vs \<in> entry_key k ` set rows")
      case False
      have room: "unat (ctx_id (table_tree tb)) < 2 ^ 64 - 1" "length rows < 2 ^ 64 - 2"
        using Cons.prems(4) by (simp_all add: table_room_def)
      obtain tb1 rows1 where tb1: "Table_Insert kv pb fo obj ord c tb = Inr (C_OK, tb1)" "table_holds pb contents tb1 k rows1"
        "set rows1 = insert vs (set rows)" "length rows1 = Suc (length rows)" "same_table (table_info tb) (table_info tb1)"
        "ctx_id (table_tree tb1) = ctx_id (table_tree tb) \<or> ctx_id (table_tree tb1) = ctx_id (table_tree tb) + 1"
        "schema (table_tree tb1) = schema (table_tree tb)"
        by (rule table_insert_new [OF h ord r(2,3) _ False room]) (use r(1) Insert_Chunk in simp)
      have "unat (ctx_id (table_tree tb) + 1) = unat (ctx_id (table_tree tb)) + 1"
        by (rule unat_inc) (use Cons.prems(4) in \<open>simp add: table_room_def\<close>)
      then have "table_room tb1 rows1 (length ops)" using Cons.prems(4) tb1(4,6) by (auto simp: table_room_def)
      moreover have "\<not> (\<exists>ws \<in> set rows. ws ! k = vs ! k)" using False key by (metis image_eqI)
      then have "rows_op k op vs (set rows) = (C_OK, set rows1)" by (simp add: Insert_Chunk tb1(3))
      ultimately show ?thesis using tb1 Insert_Chunk by auto
    next
      case True
      obtain tb1 where tb1: "Table_Insert kv pb fo obj ord c tb = Inr (C_BPTREE_DUPLICATE_KEY, tb1)"
        "table_holds pb contents tb1 k (map (\<lambda>ws. if entry_key k ws = entry_key k vs then vs else ws) rows)"
        "table_info tb1 = table_info tb" "ctx_id (table_tree tb1) = ctx_id (table_tree tb)"
        "schema (table_tree tb1) = schema (table_tree tb)"
        by (rule table_insert_dup [OF h ord r(2,3) _ True]) (use r(1) Insert_Chunk in simp)
      obtain w where w: "w \<in> set rows" "w ! k = vs ! k" using True key by (metis imageE)
      have "set (map (\<lambda>ws. if entry_key k ws = entry_key k vs then vs else ws) rows) =
          insert vs {ws \<in> set rows. ws ! k \<noteq> vs ! k}"
        unfolding set_map by (rule replace_image [OF w(1)]) (simp_all add: key w)
      then have "rows_op k op vs (set rows) = (C_BPTREE_DUPLICATE_KEY,
          set (map (\<lambda>ws. if entry_key k ws = entry_key k vs then vs else ws) rows))"
        using bexI [where P = "\<lambda>ws. ws ! k = vs ! k", OF w(2,1)] by (simp only: Insert_Chunk rows_op.simps if_True)
      moreover have "table_room tb1 (map (\<lambda>ws. if entry_key k ws = entry_key k vs then vs else ws) rows) (length ops)"
        using Cons.prems(4) by (simp add: table_room_def tb1(4))
      ultimately show ?thesis using tb1 Insert_Chunk by (intro exI conjI) auto
    qed
  next
    case (Delete_Chunk c)
    obtain tb1 where tb1: "Table_Delete kv pb fo obj ord c tb = Inr (C_OK, tb1)"
      "table_holds pb contents tb1 k (filter (\<lambda>ws. entry_key k ws \<noteq> entry_key k vs) rows)"
      "same_table (table_info tb) (table_info tb1)" "ctx_id (table_tree tb1) = ctx_id (table_tree tb)"
      by (rule table_delete [OF h ord r(2,3)]) (use r(1) Delete_Chunk in simp)
    have "rows_op k op vs (set rows) = (C_OK, set (filter (\<lambda>ws. entry_key k ws \<noteq> entry_key k vs) rows))"
      using key by (auto simp: Delete_Chunk)
    moreover have "table_room tb1 (filter (\<lambda>ws. entry_key k ws \<noteq> entry_key k vs) rows) (length ops)"
      using Cons.prems(4) length_filter_le [of "\<lambda>ws. entry_key k ws \<noteq> entry_key k vs" rows]
      by (simp add: table_room_def tb1(4) del: length_filter_le)
    ultimately show ?thesis using tb1 Delete_Chunk by (intro exI conjI) auto
  qed
  then obtain st tb1 rows1 where 1: "?call = Inr (st, tb1)" "table_holds pb contents tb1 k rows1"
    "rows_op k op vs (set rows) = (st, set rows1)" "same_table (table_info tb) (table_info tb1)"
    "table_room tb1 rows1 (length ops)" by blast
  have "\<forall>opv \<in> set ops. op_values (table_info tb1) opv" using Cons.prems(3) op_values_same [OF 1(4)] by simp
  from Cons.IH [OF 1(2) ord this 1(5)] obtain sts tb' rows' where
    "run_ops kv pb fo obj ord (map fst ops) tb1 = Inr (sts, tb')" "table_holds pb contents tb' k rows'"
    "rows_ops k ops (set rows1) = (sts, set rows')" by blast
  with 1(1,3) show ?case by (auto simp: opv)
qed auto

end

section \<open>Properties\<close>

definition one_row_chunk :: "Row \<Rightarrow> chunk" where
  "one_row_chunk r = Chunk\<lparr>select := [r]\<rparr>"

text \<open>C25: Any sequence of insertions and deletions of rows through a table with a one-column
  numeric primary key runs to its end without undefined behaviour and behaves like a set of rows
  identified by the primary key: the set is kept both in the index and in the records, whatever
  the order in which the hash map of the indexes is visited. Insertions of a taken key return
  C_BPTREE_DUPLICATE_KEY.\<close>

theorem table_refines_row_set:
  assumes "am_storage L view pb" "table_holds pb view tb k rows" "visits_all ord"
    "\<forall>opv \<in> set ops. op_values (table_info tb) opv" "table_room tb rows (length ops)"
  shows "\<exists>sts tb' rows'. run_ops (LevelDbClient L) pb fo obj ord (map fst ops) tb = Inr (sts, tb') \<and>
    table_holds pb view tb' k rows' \<and> rows_ops k ops (set rows) = (sts, set rows')"
  by (rule bpt_env.run_ops_simulates [OF am_storage.env [OF assms(1)] assms(2-5)])

text \<open>An empty table in memory, with two numeric columns; nothing in it is a float.\<close>

definition no_floats :: float_ops where
  "no_floats = \<lparr>f32_near = (=), f32_less = (<), f32_to_string = (\<lambda>_. []),
     f64_near = (=), f64_less = (<), f64_to_string = (\<lambda>_. [])\<rparr>"

lemma two_columns_index: "single_index two_columns 0"
  by (simp add: single_index_def two_columns_def columns_numbered_def)

lemma empty_two_columns:
  obtains tb where "Prepare (LevelDbClient mem_leveldb) sd_proto (Table two_columns Map.empty) = Inr (C_OK, tb)"
    "table_holds sd_proto id tb 0 []" "table_info tb = two_columns" "ctx_id (table_tree tb) = 0"
proof (rule in_memory.prepare_table [OF two_columns_index])
  show "stored_tree sd_proto (id Map.empty) (index_schema two_columns (hd (index_list two_columns))) []"
    by (simp add: stored_tree_def kvs_ok_def index_schema_def two_columns_def IndexInfo_new_def)
  show "concat [] = entries_of 0 []" "stored_rows (id Map.empty) two_columns 0 []"
    by (simp_all add: entries_of_def stored_rows_def)
next
  fix tb assume "Prepare (LevelDbClient mem_leveldb) sd_proto (Table two_columns Map.empty) = Inr (C_OK, tb)"
    "table_holds sd_proto id tb 0 []" "table_info tb = two_columns"
    "ctx_id (table_tree tb) = idx_max_tree_node_id (hd (index_list two_columns))"
  then show thesis by (intro that) (simp_all add: two_columns_def IndexInfo_new_def)
qed

lemma two_columns_object:
  obtains r where "set_columns 0 0 [NewInt64 a, NewInt64 b] (Row (ToRowDesc two_columns)) = Inr r"
    "row_object two_columns r [NewInt64 a, NewInt64 b]" "row_values two_columns [NewInt64 a, NewInt64 b]"
proof -
  obtain r where r: "set_columns 0 0 [NewInt64 a, NewInt64 b] (Row (ToRowDesc two_columns)) = Inr r"
    "table_row two_columns r" "row_has r [NewInt64 a, NewInt64 b]" "row_desc r = ToRowDesc two_columns"
    by (rule two_columns_row)
  moreover have "row_values two_columns [NewInt64 a, NewInt64 b]"
    by (simp add: row_values_def two_columns_types)
  ultimately show thesis using that by (simp add: row_object_def table_row_def)
qed

theorem table_refines_row_set_witness:
  "\<exists>tb r1 r2 sts tb' rows'. Prepare (LevelDbClient mem_leveldb) sd_proto (Table two_columns Map.empty) = Inr (C_OK, tb) \<and>
    set_columns 0 0 [NewInt64 5, NewInt64 1] (Row (ToRowDesc two_columns)) = Inr r1 \<and>
    set_columns 0 0 [NewInt64 5, NewInt64 2] (Row (ToRowDesc two_columns)) = Inr r2 \<and>
    run_ops (LevelDbClient mem_leveldb) sd_proto no_floats id id
      [Insert_Chunk (one_row_chunk r1), Insert_Chunk (one_row_chunk r2)] tb = Inr (sts, tb') \<and>
    sts = [C_OK, C_BPTREE_DUPLICATE_KEY] \<and> table_holds sd_proto id tb' 0 rows' \<and>
    set rows' = {[NewInt64 5, NewInt64 2]}"
proof -
  obtain tb where tb: "Prepare (LevelDbClient mem_leveldb) sd_proto (Table two_columns Map.empty) = Inr (C_OK, tb)"
    "table_holds sd_proto id tb 0 []" "table_info tb = two_columns" "ctx_id (table_tree tb) = 0"
    by (rule empty_two_columns)
  obtain r1 where r1: "set_columns 0 0 [NewInt64 5, NewInt64 1] (Row (ToRowDesc two_columns)) = Inr r1"
    "row_object two_columns r1 [NewInt64 5, NewInt64 1]" "row_values two_columns [NewInt64 5, NewInt64 1]"
    by (rule two_columns_object)
  obtain r2 where r2: "set_columns 0 0 [NewInt64 5, NewInt64 2] (Row (ToRowDesc two_columns)) = Inr r2"
    "row_object two_columns r2 [NewInt64 5, NewInt64 2]" "row_values two_columns [NewInt64 5, NewInt64 2]"
    by (rule two_columns_object)
  let ?ops = "[(Insert_Chunk (one_row_chunk r1), [NewInt64 5, NewInt64 1]),
    (Insert_Chunk (one_row_chunk r2), [NewInt64 5, NewInt64 2])]"
  have ops: "\<forall>opv \<in> set ?ops. op_values (table_info tb) opv"
    using r1(2,3) r2(2,3) by (auto simp: op_values_def tb(3) one_row_def one_row_chunk_def)
  have room: "table_room tb [] (length ?ops)" by (simp add: table_room_def tb(4))
  have ord: "visits_all id" by (simp add: visits_all_def)
  from table_refines_row_set [OF in_memory.am_storage_axioms tb(2) ord ops room, of no_floats id]
  obtain sts tb' rows' where run: "run_ops (LevelDbClient mem_leveldb) sd_proto no_floats id id (map fst ?ops) tb = Inr (sts, tb')"
    "table_holds sd_proto id tb' 0 rows'" "rows_ops 0 ?ops (set []) = (sts, set rows')" by blast
  have none: "{ws \<in> {[NewInt64 5, NewInt64 1]}. ws ! 0 \<noteq> [NewInt64 5, NewInt64 2] ! 0} = {}" by auto
  have "rows_ops 0 ?ops {} = ([C_OK, C_BPTREE_DUPLICATE_KEY], {[NewInt64 5, NewInt64 2]})"
    by (simp only: rows_ops.simps rows_op.simps none Let_def prod.case) auto
  with run(3) have "sts = [C_OK, C_BPTREE_DUPLICATE_KEY]" "set rows' = {[NewInt64 5, NewInt64 2]}" by simp_all
  with tb(1) r1(1) r2(1) run(1,2) show ?thesis by (intro exI conjI) simp_all
qed

text \<open>C26: Inserting a row whose primary key is taken returns C_BPTREE_DUPLICATE_KEY, but the record
  of the row that is in the table has been replaced by the new one: the record is written before
  the index is asked.\<close>

theorem duplicate_insert_overwrites:
  assumes "am_storage L view pb" "table_holds pb view tb k rows" "visits_all ord"
    "row_object (table_info tb) r vs" "row_values (table_info tb) vs" "ws \<in> set rows" "ws ! k = vs ! k"
  shows "\<exists>tb' rows'. Table_Insert (LevelDbClient L) pb fo obj ord (one_row_chunk r) tb = Inr (C_BPTREE_DUPLICATE_KEY, tb') \<and>
    table_holds pb view tb' k rows' \<and> vs \<in> set rows' \<and> (ws \<noteq> vs \<longrightarrow> ws \<notin> set rows') \<and>
    view (table_storage tb') (row_record (table_info tb) k ws) = Some (tagged_bytes vs)"
proof -
  note env = am_storage.env [OF assms(1)]
  have eq: "entry_key k ws = entry_key k vs" using rows_with_key [OF assms(2,5,6)] assms(7) by simp
  then have dup: "entry_key k vs \<in> entry_key k ` set rows" using assms(6) by (metis image_eqI)
  have c: "one_row (one_row_chunk r) r" by (simp add: one_row_def one_row_chunk_def)
  obtain tb' where tb': "Table_Insert (LevelDbClient L) pb fo obj ord (one_row_chunk r) tb = Inr (C_BPTREE_DUPLICATE_KEY, tb')"
    "table_holds pb view tb' k (map (\<lambda>ws. if entry_key k ws = entry_key k vs then vs else ws) rows)"
    "table_info tb' = table_info tb" "ctx_id (table_tree tb') = ctx_id (table_tree tb)"
    "schema (table_tree tb') = schema (table_tree tb)"
    by (rule bpt_env.table_insert_dup [OF env assms(2-5) c dup])
  let ?rows = "map (\<lambda>ws. if entry_key k ws = entry_key k vs then vs else ws) rows"
  have vs: "vs \<in> set ?rows" using assms(6) eq by force
  then have "view (table_storage tb') (row_record (table_info tb) k vs) = Some (tagged_bytes vs)"
    using tb'(2) by (simp add: table_holds_def stored_rows_def tb'(3))
  then have "view (table_storage tb') (row_record (table_info tb) k ws) = Some (tagged_bytes vs)"
    by (simp add: row_record_def assms(7))
  moreover have "ws \<noteq> vs \<longrightarrow> ws \<notin> set ?rows" using eq by auto
  ultimately show ?thesis using tb'(1,2) vs by blast
qed

theorem duplicate_insert_overwrites_witness:
  "\<exists>tb rows r tb' rows'. set rows = {[NewInt64 5, NewInt64 1]} \<and> table_holds sd_proto id tb 0 rows \<and>
    set_columns 0 0 [NewInt64 5, NewInt64 2] (Row (ToRowDesc two_columns)) = Inr r \<and>
    Table_Insert (LevelDbClient mem_leveldb) sd_proto no_floats id id (one_row_chunk r) tb = Inr (C_BPTREE_DUPLICATE_KEY, tb') \<and>
    table_holds sd_proto id tb' 0 rows' \<and> [NewInt64 5, NewInt64 2] \<in> set rows'"
proof -
  obtain tb where tb: "Prepare (LevelDbClient mem_leveldb) sd_proto (Table two_columns Map.empty) = Inr (C_OK, tb)"
    "table_holds sd_proto id tb 0 []" "table_info tb = two_columns" "ctx_id (table_tree tb) = 0"
    by (rule empty_two_columns)
  obtain r1 where r1: "set_columns 0 0 [NewInt64 5, NewInt64 1] (Row (ToRowDesc two_columns)) = Inr r1"
    "row_object two_columns r1 [NewInt64 5, NewInt64 1]" "row_values two_columns [NewInt64 5, NewInt64 1]"
    by (rule two_columns_object)
  obtain r2 where r2: "set_columns 0 0 [NewInt64 5, NewInt64 2] (Row (ToRowDesc two_columns)) = Inr r2"
    "row_object two_columns r2 [NewInt64 5, NewInt64 2]" "row_values two_columns [NewInt64 5, NewInt64 2]"
    by (rule two_columns_object)
  have ord: "visits_all id" by (simp add: visits_all_def)
  obtain tb1 rows1 where tb1: "table_holds sd_proto id tb1 0 rows1" "set rows1 = insert [NewInt64 5, NewInt64 1] (set [])"
    "same_table (table_info tb) (table_info tb1)"
    by (rule in_memory.table_insert_new [OF tb(2) ord r1(2,3) [folded tb(3)], of "one_row_chunk r1" no_floats id])
      (simp_all add: one_row_def one_row_chunk_def tb(4))
  have o: "row_object (table_info tb1) r2 [NewInt64 5, NewInt64 2]" "row_values (table_info tb1) [NewInt64 5, NewInt64 2]"
    using r2(2,3) same_tableD [OF tb1(3)] by (simp_all add: tb(3))
  have w: "[NewInt64 5, NewInt64 1] \<in> set rows1" "[NewInt64 5, NewInt64 1] ! 0 = [NewInt64 5, NewInt64 2] ! 0"
    by (simp_all add: tb1(2))
  from duplicate_insert_overwrites [OF in_memory.am_storage_axioms tb1(1) ord o w, of no_floats id] tb1(1,2) r2(1)
  show ?thesis by auto
qed

end
