(* ===== verification/SchedulerTheorems.thy ===== *)
theory SchedulerTheorems
  imports Scheduler TableTheorems
begin

text \<open>
  What the scheduler does: the executors of a plan are the nodes of the plan in post-order, and a run
  prepares and works each of them once, in that order.
\<close>

section \<open>Executors in post-order\<close>

fun post_order :: "plan \<Rightarrow> RelOptNode list" where
  "post_order (RelNode n ps) = concat (map post_order ps) @ [n]"

fun implements :: "'s executor \<Rightarrow> RelOptNode \<Rightarrow> bool" where
  "implements (TableScanExec x) (PhysicalTableScan sc) \<longleftrightarrow>
     rel_table (scan_table sc) = Some (table_info (sx_table x)) \<and> sx_ranges x = primary_ranges sc"
| "implements (FilterExec c1 c2) (PhysicalFilter _) \<longleftrightarrow> c1 \<noteq> c2"
| "implements (ResultSetExec c) PhysicalResultSet \<longleftrightarrow> True"
| "implements (InsertExec x) (PhysicalInsert i) \<longleftrightarrow>
     rel_table (insert_table i) = Some (table_info (ix_table x)) \<and> ix_plan x = i"
| "implements (CreateDatabaseExec t) (PhysicalCreateDatabase u) \<longleftrightarrow> t = u"
| "implements (CreateTableExec t) (PhysicalCreateTable u) \<longleftrightarrow> t = u"
| "implements _ _ \<longleftrightarrow> False"

lemma ToExecutor_new:
  assumes "ToExecutor op rt = Inr (p, rt1)"
  shows "p = length (exec_objs rt) \<and>
    (\<exists>e. exec_objs rt1 = exec_objs rt @ [\<lparr>exec = e, inputs = [], outputs = []\<rparr>] \<and> implements e op)"
  using assms by (cases op) (auto simp: ToExecutor_def new_exec_def new_chunk_def Table_def split: option.splits)

lemma upd_exec_execs:
  assumes "\<And>x. exec (f x) = exec x"
  shows "map exec (exec_objs (upd_exec p f rt)) = map exec (exec_objs rt)"
proof (cases "p < length (exec_objs rt)")
  case True
  have "(map exec (exec_objs rt))[p := exec (exec_objs rt ! p)] = map exec (exec_objs rt)"
    using True by (metis length_map list_update_id nth_map)
  then show ?thesis by (simp add: upd_exec_def map_update assms)
qed (simp add: upd_exec_def list_update_beyond)

lemma Connect_execs [simp]: "map exec (exec_objs (Connect p c rt)) = map exec (exec_objs rt)"
  by (simp add: Connect_def Let_def upd_exec_execs)

lemma Connect_length [simp]: "length (exec_objs (Connect p c rt)) = length (exec_objs rt)"
  by (simp add: Connect_def upd_exec_def Let_def)

text \<open>A piece of the construction adds executors behind those that are there.\<close>

definition adds :: "RelOptNode list \<Rightarrow> 's runtime \<times> nat list \<Rightarrow> 's runtime \<times> nat list \<Rightarrow> bool" where
  "adds ops s s1 \<longleftrightarrow> (\<exists>new es. map exec (exec_objs (fst s1)) = map exec (exec_objs (fst s)) @ es \<and> snd s1 = snd s @ new \<and>
     distinct new \<and> set new = {length (exec_objs (fst s)) ..< length (exec_objs (fst s1))} \<and>
     list_all2 implements (map (\<lambda>p. map exec (exec_objs (fst s1)) ! p) new) ops)"

lemma adds_refl: "adds [] s s"
  by (auto simp: adds_def)

lemma adds_trans:
  assumes "adds a s s1" and "adds b s1 s2"
  shows "adds (a @ b) s s2"
proof -
  obtain n1 e1 where 1: "map exec (exec_objs (fst s1)) = map exec (exec_objs (fst s)) @ e1" "snd s1 = snd s @ n1"
    "distinct n1" "set n1 = {length (exec_objs (fst s)) ..< length (exec_objs (fst s1))}"
    "list_all2 implements (map (\<lambda>p. map exec (exec_objs (fst s1)) ! p) n1) a"
    using assms(1) by (auto simp: adds_def)
  obtain n2 e2 where 2: "map exec (exec_objs (fst s2)) = map exec (exec_objs (fst s1)) @ e2" "snd s2 = snd s1 @ n2"
    "distinct n2" "set n2 = {length (exec_objs (fst s1)) ..< length (exec_objs (fst s2))}"
    "list_all2 implements (map (\<lambda>p. map exec (exec_objs (fst s2)) ! p) n2) b"
    using assms(2) by (auto simp: adds_def)
  have l1: "length (exec_objs (fst s)) \<le> length (exec_objs (fst s1))"
    using arg_cong [OF 1(1), where f = length] by simp
  have l2: "length (exec_objs (fst s1)) \<le> length (exec_objs (fst s2))"
    using arg_cong [OF 2(1), where f = length] by simp
  have "map (\<lambda>p. map exec (exec_objs (fst s2)) ! p) n1 = map (\<lambda>p. map exec (exec_objs (fst s1)) ! p) n1"
    unfolding 2(1) using 1(4) by (auto simp: nth_append)
  then have "list_all2 implements (map (\<lambda>p. map exec (exec_objs (fst s2)) ! p) (n1 @ n2)) (a @ b)"
    using 1(5) 2(5) by (simp only: map_append list_all2_appendI)
  moreover have "distinct (n1 @ n2)" using 1(3,4) 2(3,4) by auto
  moreover have "set (n1 @ n2) = {length (exec_objs (fst s)) ..< length (exec_objs (fst s2))}"
    using 1(4) 2(4) l1 l2 by auto
  ultimately show ?thesis
    unfolding adds_def using 1(1,2) 2(1,2)
    by (intro exI [of _ "n1 @ n2"] exI [of _ "e1 @ e2"]) (simp only: append_assoc simp_thms)
qed

lemma adds_Connect: "adds a s (rt, es) \<Longrightarrow> adds a s (Connect p c rt, es)"
  by (simp add: adds_def)

lemma graph_ToExecutor_adds:
  shows "graph_ToExecutor pl s = Inr (p, rt1, es1) \<Longrightarrow> adds (post_order pl) s (rt1, es1)"
    and "graph_inputs q ps s = Inr s2 \<Longrightarrow>
      adds (concat (map post_order ps)) s s2"
proof (induction pl s and q ps s arbitrary: p rt1 es1 and s2 rule: graph_ToExecutor_graph_inputs.induct)
  case (1 op ps rt es)
  obtain p0 rta where a: "ToExecutor op rt = Inr (p0, rta)"
    using "1.prems" by (auto simp: bindR_Inr_iff)
  obtain rtb esb where b: "graph_inputs p0 ps (rta, es) = Inr (rtb, esb)" and r: "p = p0" "rt1 = rtb" "es1 = esb @ [p0]"
    using "1.prems" a by (auto simp: bindR_Inr_iff)
  obtain e where e: "exec_objs rta = exec_objs rt @ [\<lparr>exec = e, inputs = [], outputs = []\<rparr>]"
    "implements e op" "p0 = length (exec_objs rt)"
    using ToExecutor_new [OF a] by auto
  have "adds (concat (map post_order ps)) (rta, es) (rtb, esb)"
    using "1.IH" a b by blast
  then obtain new es' where n: "map exec (exec_objs rtb) = map exec (exec_objs rta) @ es'" "esb = es @ new"
    "distinct new" "set new = {length (exec_objs rta) ..< length (exec_objs rtb)}"
    "list_all2 implements (map (\<lambda>p. map exec (exec_objs rtb) ! p) new) (concat (map post_order ps))"
    by (auto simp: adds_def)
  have l: "length (exec_objs rta) \<le> length (exec_objs rtb)"
    using arg_cong [OF n(1), where f = length] by simp
  have "list_all2 implements (map (\<lambda>p. map exec (exec_objs rtb) ! p) (new @ [p0])) (post_order (RelNode op ps))"
    using n(5) e by (simp add: n(1) list_all2_appendI nth_append)
  moreover have "set (new @ [p0]) = {length (exec_objs rt) ..< length (exec_objs rtb)}"
    using n(4) e l by auto
  moreover have "distinct (new @ [p0])" using n(3,4) e by auto
  moreover have "map exec (exec_objs rtb) = map exec (exec_objs rt) @ (e # es')" using n(1) e by simp
  ultimately show ?case
    unfolding adds_def r using n(2) by (intro exI [of _ "new @ [p0]"] exI [of _ "e # es'"]) simp
next
  case (3 p0 qq qs s)
  obtain c rta esa where a: "graph_ToExecutor qq s = Inr (c, rta, esa)"
    and b: "graph_inputs p0 qs (Connect p0 c rta, esa) = Inr s2"
    using "3.prems" by (auto simp: bindR_Inr_iff)
  have "adds (post_order qq) s (Connect p0 c rta, esa)"
    by (rule adds_Connect [OF "3.IH"(1) [OF a]])
  then show ?case
    using adds_trans "3.IH"(2) [OF a refl refl b] by fastforce
qed (auto simp: adds_refl)

section \<open>The order of execution\<close>

lemma node_edges_execs: "node_edges g rt ns = Inr ns1 \<Longrightarrow> map node_exec ns1 = map node_exec ns"
  by (induction ns arbitrary: ns1) (auto simp: bindR_Inr_iff Let_def)

lemma map_snd_zip_comp: "map (\<lambda>(e, i). f e) (zip xs [n..<n + length xs]) = map f xs"
  by (induction xs arbitrary: n) (simp_all add: upt_conv_Cons del: upt_Suc flip: add_Suc)

lemma initNodes_execs:
  assumes "nodes g = []"
  shows "map node_exec (nodes (initNodes g)) = executors g"
proof -
  have "map (node_exec \<circ> (\<lambda>(e, i). Node e i)) (zip (executors g) [0..<length (executors g)]) =
    map (\<lambda>(e, i). e) (zip (executors g) [0..<length (executors g)])"
    by (rule map_cong) (auto simp: Node_def)
  also have "\<dots> = executors g"
    using map_snd_zip_comp [of "\<lambda>e. e" "executors g" 0] by simp
  finally show ?thesis by (simp add: initNodes_def Let_def assms)
qed

lemma Graph_Init_execs:
  assumes "Graph_Init pl rt = Inr (g, rt1)"
  shows "map node_exec (nodes g) = executors g \<and> adds (post_order pl) (rt, []) (rt1, executors g)"
proof -
  obtain p es ns where a: "graph_ToExecutor pl (rt, []) = Inr (p, rt1, es)"
    and e: "node_edges (initNodes \<lparr>executors = es, nodes = [], exec_to_id = Map.empty\<rparr>) rt1
              (nodes (initNodes \<lparr>executors = es, nodes = [], exec_to_id = Map.empty\<rparr>)) = Inr ns"
    and g: "g = (initNodes \<lparr>executors = es, nodes = [], exec_to_id = Map.empty\<rparr>)\<lparr>nodes := ns\<rparr>"
    using assms by (auto simp: Graph_Init_def initExecutors_def initEdges_def bindR_Inr_iff)
  have x: "executors g = es" by (simp add: g initNodes_def Let_def)
  show ?thesis
    using node_edges_execs [OF e] initNodes_execs [of "\<lparr>executors = es, nodes = [], exec_to_id = Map.empty\<rparr>"]
      graph_ToExecutor_adds(1) [OF a] by (simp add: x) (simp add: g)
qed

lemma run_queue_order:
  "(\<And>i. i \<in> set ix \<Longrightarrow> i < length (nodes g)) \<Longrightarrow>
   bindR (run_queue en ix g rt) (\<lambda>(st, g1, rt1). Inr (st, rt1)) =
   run_in_order en (map (\<lambda>i. map node_exec (nodes g) ! i) ix) rt"
proof (induction ix arbitrary: g rt)
  case (Cons i ix)
  have i: "i < length (nodes g)" using Cons.prems by simp
  show ?case
  proof (cases "exec_Prepare (node_exec (nodes g ! i)) rt")
    case (Inr sr)
    obtain s rt1 where sr: "sr = (s, rt1)" by (cases sr)
    let ?g = "g\<lparr>nodes := (nodes g)[i := (nodes g ! i)\<lparr>data_state := s, running_state := StateConv s\<rparr>]\<rparr>"
    have p: "Graph_Prepare i g rt = Inr (?g, rt1)" by (simp add: Graph_Prepare_def Inr sr)
    have n: "map node_exec (nodes ?g) = map node_exec (nodes g)" by (rule Graph_Prepare_execs [OF p])
    have len: "length (nodes ?g) = length (nodes g)" by simp
    have e: "node_exec (nodes ?g ! i) = node_exec (nodes g ! i)" using i by simp
    have IH: "bindR (run_queue en ix ?g r) (\<lambda>(st, g1, rt1). Inr (st, rt1)) =
      run_in_order en (map (\<lambda>i. map node_exec (nodes g) ! i) ix) r" for r
      using Cons.IH [of ?g r] Cons.prems unfolding n len by simp
    show ?thesis
    proof (cases "exec_Work en (node_exec (nodes g ! i)) rt1")
      case (Inr w)
      then show ?thesis using IH [of "snd w"] i
        by (cases w) (simp add: p Graph_Work_def e Inr \<open>exec_Prepare (node_exec (nodes g ! i)) rt = Inr sr\<close> sr)
    qed (simp add: p Graph_Work_def e i Inr sr)
  qed (simp add: Graph_Prepare_def i)
qed simp

lemma run_tasks_order:
  "bindR (run_tasks en [0..<length (nodes g)] [] g rt) (\<lambda>(st, g1, rt1). Inr (st, rt1)) =
   run_in_order en (map node_exec (nodes g)) rt"
proof -
  have "run_tasks en [] ix g rt = run_queue en ix g rt" for ix
    by (subst run_tasks.simps) (cases "run_queue en ix g rt", auto)
  then have r: "run_tasks en ix [] g rt = run_queue en ix g rt" for ix
    by (subst run_tasks.simps) auto
  have m: "map (\<lambda>i. map node_exec (nodes g) ! i) [0..<length (nodes g)] = map node_exec (nodes g)"
    by (metis length_map map_nth)
  show ?thesis unfolding r using run_queue_order [of "[0..<length (nodes g)]" g en rt] by (simp add: m)
qed

lemma Scheduler_Run_order:
  assumes "Graph_Init pl rt = Inr (g, rt1)"
  shows "Scheduler_Run en pl rt = run_in_order en (executors g) rt1"
proof -
  have "Scheduler_Run en pl rt =
      bindR (run_tasks en [0..<length (nodes g)] [] g rt1) (\<lambda>(st, g2, rt2). Inr (st, rt2))"
    unfolding Scheduler_Run_def assms
    by (simp add: Graph_Open_ok Graph_Close_ok)
      (cases "run_tasks en [0..<length (nodes g)] [] g rt1", auto simp: Graph_Close_ok)
  then show ?thesis using run_tasks_order [of en g rt1] Graph_Init_execs [OF assms] by simp
qed

section \<open>Property\<close>

text \<open>C27: Whenever the graph of a physical plan can be built, its executors are all the executors that
  were created, each once, they implement the nodes of the plan in post-order, and the
  run over its two queues is the same as preparing and working them one by one in this order,
  stopping at the first status that is not C_OK.\<close>

theorem scheduler_runs_post_order:
  assumes "Graph_Init pl (Runtime s out) = Inr (g, rt)"
  shows "distinct (executors g) \<and> set (executors g) = {0..<length (exec_objs rt)} \<and>
    list_all2 implements (map (\<lambda>p. exec (exec_objs rt ! p)) (executors g)) (post_order pl) \<and>
    Scheduler_Run en pl (Runtime s out) = run_in_order en (executors g) rt"
proof -
  have "adds (post_order pl) (Runtime s out, []) (rt, executors g)"
    using Graph_Init_execs [OF assms] by simp
  then have a: "distinct (executors g)" "set (executors g) = {0..<length (exec_objs rt)}"
    "list_all2 implements (map (\<lambda>p. map exec (exec_objs rt) ! p) (executors g)) (post_order pl)"
    by (auto simp: adds_def Runtime_def)
  have "map (\<lambda>p. map exec (exec_objs rt) ! p) (executors g) = map (\<lambda>p. exec (exec_objs rt ! p)) (executors g)"
    using a(2) by simp
  with a show ?thesis using Scheduler_Run_order [OF assms] by simp
qed

theorem scheduler_runs_post_order_witness:
  "\<exists>g rt. Graph_Init (RelNode PhysicalResultSet [RelNode (PhysicalFilter []) []]) (Runtime () []) = Inr (g, rt) \<and>
    executors g = [1, 0] \<and>
    list_all2 implements (map (\<lambda>p. exec (exec_objs rt ! p)) (executors g)) [PhysicalFilter [], PhysicalResultSet]"
proof -
  let ?rt = "\<lparr>exec_objs = [\<lparr>exec = ResultSetExec 0, inputs = [(1, 0)], outputs = []\<rparr>,
      \<lparr>exec = FilterExec 1 2, inputs = [], outputs = [(0, 0)]\<rparr>],
    caches = [None], chunk_objs = [Chunk, Chunk, Chunk], rt_storage = (), cout = []\<rparr>"
  have a: "graph_ToExecutor (RelNode PhysicalResultSet [RelNode (PhysicalFilter []) []]) (Runtime () [], []) = Inr (0, ?rt, [1, 0])"
    by (simp add: Runtime_def ToExecutor_def new_chunk_def new_exec_def Connect_def upd_exec_def Let_def)
  have "\<exists>g. Graph_Init (RelNode PhysicalResultSet [RelNode (PhysicalFilter []) []]) (Runtime () []) = Inr (g, ?rt) \<and> executors g = [1, 0]"
    by (simp add: Graph_Init_def initExecutors_def a initNodes_def initEdges_def Let_def upt_conv_Cons Node_def peer_edge_def
        del: graph_ToExecutor.simps)
  then obtain g where "Graph_Init (RelNode PhysicalResultSet [RelNode (PhysicalFilter []) []]) (Runtime () []) = Inr (g, ?rt)"
    "executors g = [1, 0]" by (elim exE conjE)
  with scheduler_runs_post_order [OF this(1)] show ?thesis by auto
qed

end
