(* ===== verification/ScanFrame.thy ===== *)
theory ScanFrame
  imports BptScan
begin

text \<open>
  Scans only read: whatever they load into the tree, the storage stays as it is. This holds for any
  storage and any messages.
\<close>

named_theorems reads \<open>operations that leave the storage as it is\<close>

lemma put_reads [simp]: "storage (put p n t) = storage t"
  by (simp add: put_def)

lemma create_refs_reads: "create_refs par rs t = (ps, t1) \<Longrightarrow> storage t1 = storage t"
  by (induction rs arbitrary: t ps t1) (auto simp: create_node_def Let_def split: prod.splits)

lemma Deserialize_reads [reads]: "Deserialize pb v p t = Inr (st, t1) \<Longrightarrow> storage t1 = storage t"
  by (auto simp: Deserialize_def bindR_Inr_iff split: if_splits option.splits prod.splits dest: create_refs_reads)

lemma LoadNode_reads [reads]: "LoadNodeFromKVStorage kv pb p t = Inr (st, t1) \<Longrightarrow> storage t1 = storage t"
  by (auto simp: LoadNodeFromKVStorage_def GetNodeFromKVStorage_def LoadTreeNode_def on_node_def bindR_Inr_iff
      split: if_splits dest: reads)

lemma open_descend_reads [reads]:
  "open_descend kv pb opts fuel p t = Inr (st, q, t1) \<Longrightarrow> storage t1 = storage t"
proof (induction kv pb opts fuel p t rule: open_descend.induct)
  case (2 kv pb opts fuel cursor t)
  from "2.prems" obtain n where n: "deref t cursor = Inr n" by (auto simp: bindR_Inr_iff)
  show ?case
  proof (cases "is_leaf n \<or> \<not> HasChild n")
    case True
    with "2.prems" n show ?thesis by (auto split: if_splits)
  next
    case False
    with "2.prems" n obtain i where i: "(if lower_open opts then MaxKeyUpperBound (it_lower opts) n t
        else MaxKeyLowerBound (it_lower opts) n t) = Inr i"
      by (auto simp: bindR_Inr_iff simp del: if_split)
    show ?thesis
    proof (cases "i = length (children n)")
      case True
      with "2.prems" n False i show ?thesis by (simp split: if_splits)
    next
      case inner: False
      with "2.prems" n False i obtain st1 ta where ta: "LoadNodeFromKVStorage kv pb (children n ! i) t = Inr (st1, ta)"
        "(if st1 \<noteq> C_OK then Inr (st1, cursor, ta) else open_descend kv pb opts fuel (children n ! i) ta) = Inr (st, q, t1)"
        by (auto simp: bindR_Inr_iff Let_def)
      show ?thesis
      proof (cases "st1 = C_OK")
        case True
        then have "storage t1 = storage ta"
          using "2.IH" [OF n] ta False i inner by fastforce
        with LoadNode_reads [OF ta(1)] show ?thesis by simp
      next
        case False
        with ta LoadNode_reads [OF ta(1)] show ?thesis by simp
      qed
    qed
  qed
qed simp

lemma Open_reads [reads]: "BptIterator_Open kv pb it t = Inr (st, it1, t1) \<Longrightarrow> storage t1 = storage t"
  by (auto simp: BptIterator_Open_def bindR_Inr_iff simp del: open_descend.simps split: if_splits dest: reads)

lemma next_leaf_reads [reads]:
  "next_leaf_loop kv pb opts fuel p b t = Inr (st, q, t1) \<Longrightarrow> storage t1 = storage t"
proof (induction kv pb opts fuel p b t rule: next_leaf_loop.induct)
  case (2 kv pb opts fuel cur runs_out t)
  from "2.prems" obtain w where w: "walk_round opts cur runs_out t = Inr w" by (auto simp: bindR_Inr_iff)
  show ?case
  proof (cases w)
    case Walk_end
    with "2.prems" w show ?thesis by simp
  next
    case (Walk_up c)
    with "2.prems" w obtain n where "deref t c = Inr n" by (auto simp: bindR_Inr_iff)
    with "2.prems" w Walk_up "2.IH"(1) [OF w Walk_up] show ?thesis by (auto split: if_splits)
  next
    case (Walk_to c)
    with "2.prems" w obtain st1 ta where ta: "LoadNodeFromKVStorage kv pb c t = Inr (st1, ta)"
      "(if st1 \<noteq> C_OK then Inr (st1, Some c, ta) else bindR (deref ta c) (\<lambda>n. if is_leaf n then Inr (C_OK, Some c, ta)
         else next_leaf_loop kv pb opts fuel c False ta)) = Inr (st, q, t1)"
      by (auto simp: bindR_Inr_iff)
    show ?thesis
    proof (cases "st1 = C_OK")
      case True
      with ta obtain n where n: "deref ta c = Inr n"
        "(if is_leaf n then Inr (C_OK, Some c, ta) else next_leaf_loop kv pb opts fuel c False ta) = Inr (st, q, t1)"
        by (auto simp: bindR_Inr_iff)
      have "storage t1 = storage ta"
      proof (cases "is_leaf n")
        case False
        with "2.IH"(2) [OF w Walk_to ta(1) refl _ n(1)] True n(2) show ?thesis by simp
      qed (use n in simp)
      with LoadNode_reads [OF ta(1)] show ?thesis by simp
    next
      case False
      with ta LoadNode_reads [OF ta(1)] show ?thesis by simp
    qed
  qed
qed simp

lemma nextLeaf_reads [reads]: "nextLeafNode kv pb it t = Inr (st, it1, t1) \<Longrightarrow> storage t1 = storage t"
  by (auto simp: nextLeafNode_def bindR_Inr_iff simp del: next_leaf_loop.simps dest: reads)

lemma iter_next_reads [reads]:
  "iter_next kv pb rows data it t = Inr (st, seg, it1, t1) \<Longrightarrow> storage t1 = storage t"
proof (induction kv pb rows data it t rule: iter_next.induct)
  case (1 kv pb rows data it t)
  note eq = "1.prems" [unfolded iter_next.simps [of kv pb rows data it t]]
  show ?case
  proof (cases "rows = 0")
    case True
    with eq show ?thesis by simp
  next
    case rows: False
    show ?thesis
    proof (cases "kv_it_reach_end it")
      case False
      with eq rows obtain b where b: "reachRangeBound it = Inr b" by (auto simp: bindR_Inr_iff)
      with eq rows False "1.IH"(1) [OF rows _ b] show ?thesis by (auto split: if_splits)
    next
      case kend: True
      show ?thesis
      proof (cases "node_it_reach_end it")
        case True
        with eq rows kend show ?thesis by simp
      next
        case False
        with eq rows kend obtain st1 ita ta where a: "nextLeafNode kv pb it t = Inr (st1, ita, ta)"
          by (auto simp: bindR_Inr_iff)
        have sa: "storage ta = storage t" by (rule nextLeaf_reads [OF a])
        show ?thesis
        proof (cases "st1 \<noteq> C_OK \<or> node_it_reach_end ita")
          case True
          with eq rows kend False a sa show ?thesis by (auto split: if_splits)
        next
          case go: False
          with eq rows kend False a obtain itb where b: "resetCurKV ita ta = Inr itb"
            "iter_next kv pb rows data itb ta = Inr (st, seg, it1, t1)"
            by (auto simp: bindR_Inr_iff)
          have "storage t1 = storage ta"
            using "1.IH"(2) [OF rows _ False a refl refl _ _ b(1) b(2)] kend go by simp
          with sa show ?thesis by simp
        qed
      qed
    qed
  qed
qed

lemma base_open_reads [reads]:
  "base_open_loop kv pb ops b t = Inr (st, b1, t1) \<Longrightarrow> storage t1 = storage t"
proof (induction ops arbitrary: b t)
  case (Cons op ops)
  from Cons.prems obtain st1 it ta where a: "BptIterator_Open kv pb (BptIterator op t) t = Inr (st1, it, ta)"
    by (auto simp: bindR_Inr_iff)
  show ?case
    using Cons.prems a Open_reads [OF a] Cons.IH by (auto simp: Let_def split: if_splits)
qed simp

lemma base_Open_reads [reads]: "BaseIterator_Open kv pb b t = Inr (st, b1, t1) \<Longrightarrow> storage t1 = storage t"
  unfolding BaseIterator_Open_def by (rule base_open_reads)

lemma base_next_reads [reads]:
  "base_next_loop kv pb fuel b t = Inr (b1, t1) \<Longrightarrow> storage t1 = storage t"
proof (induction fuel arbitrary: b t)
  case 0
  then show ?case by (subst (asm) base_next_loop.simps) (simp split: if_splits)
next
  case (Suc fuel)
  note eq = Suc.prems [unfolded base_next_loop.simps [of kv pb "Suc fuel" b t]]
  show ?case
  proof (cases "code b = C_OK \<and> length (data_segment b) < page_size b")
    case False
    with eq show ?thesis by simp
  next
    case True
    with eq obtain it more where it: "tree_it b = Some it" "HashNext it = Inr more"
      by (auto simp: bindR_Inr_iff split: option.splits)
    show ?thesis
    proof (cases more)
      case True
      with eq \<open>code b = C_OK \<and> _\<close> it obtain st seg it1 ta where a:
        "iter_next kv pb (page_size b - length (data_segment b)) (data_segment b) it t = Inr (st, seg, it1, ta)"
        "base_next_loop kv pb fuel (b\<lparr>data_segment := seg, tree_it := Some it1\<rparr>) ta = Inr (b1, t1)"
        by (auto simp: bindR_Inr_iff)
      show ?thesis using Suc.IH [OF a(2)] iter_next_reads [OF a(1)] by simp
    next
      case False
      with eq \<open>code b = C_OK \<and> _\<close> it obtain st ba ta where a: "BaseIterator_Open kv pb b t = Inr (st, ba, ta)"
        "base_next_loop kv pb fuel (if st \<noteq> C_OK then ba\<lparr>code := st\<rparr> else ba) ta = Inr (b1, t1)"
        by (auto simp: bindR_Inr_iff)
      show ?thesis using Suc.IH [OF a(2)] base_Open_reads [OF a(1)] by simp
    qed
  qed
qed

lemma base_Next_reads [reads]: "BaseIterator_Next kv pb fuel b t = Inr (b1, t1) \<Longrightarrow> storage t1 = storage t"
  by (auto simp: BaseIterator_Next_def split: if_splits dest: reads)

end
