(* ===== verification/ScanCounter.thy ===== *)
theory ScanCounter
  imports ScanFrame BptSave
begin

text \<open>
  Scans do not use the node counter: a tree that was opened with another counter is scanned with
  the same result. The program opens an index with the counter that was stored when the table was
  created, whatever nodes have been created since.
\<close>

definition retag :: "u64 \<Rightarrow> u64 \<Rightarrow> 's tree \<Rightarrow> 's tree" where
  "retag c d t = t\<lparr>ctx_id := c, schema := (schema t)\<lparr>ts_tree_id := d\<rparr>\<rparr>"

named_theorems retags \<open>operations commute with a change of the counter\<close>

definition retag2 :: "u64 \<Rightarrow> u64 \<Rightarrow> ('a \<times> 's tree) res \<Rightarrow> ('a \<times> 's tree) res" where
  "retag2 c d r = bindR r (\<lambda>(x, t). Inr (x, retag c d t))"

definition retag3 :: "u64 \<Rightarrow> u64 \<Rightarrow> ('a \<times> 'b \<times> 's tree) res \<Rightarrow> ('a \<times> 'b \<times> 's tree) res" where
  "retag3 c d r = bindR r (\<lambda>(x, y, t). Inr (x, y, retag c d t))"

definition retag4 :: "u64 \<Rightarrow> u64 \<Rightarrow> ('a \<times> 'b \<times> 'c \<times> 's tree) res \<Rightarrow> ('a \<times> 'b \<times> 'c \<times> 's tree) res" where
  "retag4 c d r = bindR r (\<lambda>(x, y, z, t). Inr (x, y, z, retag c d t))"

lemma retag_sel [simp]:
  "heap (retag c d t) = heap t" "next_ptr (retag c d t) = next_ptr t" "unsaved (retag c d t) = unsaved t"
  "storage (retag c d t) = storage t" "root (retag c d t) = root t"
  "schema (retag c d t) = (schema t)\<lparr>ts_tree_id := d\<rparr>"
  by (simp_all add: retag_def)

lemma retag_deref [simp]: "deref (retag c d t) = deref t"
  by (simp add: fun_eq_iff deref_def)

lemma retag_put [simp]: "put p n (retag c d t) = retag c d (put p n t)"
  by (simp add: put_def retag_def)

lemma retag_res [simp]:
  "retag2 c d (Inl f) = Inl f" "retag2 c d (Inr (x, t)) = Inr (x, retag c d t)"
  "retag3 c d (Inl f) = Inl f" "retag3 c d (Inr (x, y, t)) = Inr (x, y, retag c d t)"
  "retag4 c d (Inl f) = Inl f" "retag4 c d (Inr (x, y, z, t)) = Inr (x, y, z, retag c d t)"
  by (simp_all add: retag2_def retag3_def retag4_def)

lemma retag_bind [simp]:
  "bindR (retag2 c d r2) f2 = bindR r2 (\<lambda>(x, t). f2 (x, retag c d t))"
  "bindR (retag3 c d r3) f3 = bindR r3 (\<lambda>(x, y, t). f3 (x, y, retag c d t))"
  "bindR (retag4 c d r4) f4 = bindR r4 (\<lambda>(x, y, z, t). f4 (x, y, z, retag c d t))"
  by (cases r2, auto) ((cases r3, auto)[1], cases r4, auto)

lemma retag_of_bind:
  "retag2 c d (bindR r g2) = bindR r (\<lambda>x. retag2 c d (g2 x))"
  "retag3 c d (bindR r g3) = bindR r (\<lambda>x. retag3 c d (g3 x))"
  "retag4 c d (bindR r g4) = bindR r (\<lambda>x. retag4 c d (g4 x))"
  by (cases r; simp)+

lemma bindR_eqI: "(\<And>x. r = Inr x \<Longrightarrow> f x = g x) \<Longrightarrow> bindR r f = bindR r g"
  by (cases r) auto

lemma create_refs_retag [retags]:
  "create_refs par rs (retag c d t) = (let (ps, t1) = create_refs par rs t in (ps, retag c d t1))"
proof (induction rs arbitrary: t)
  case (Cons r rs)
  have n: "create_node n (retag c d t) = (let (p, t1) = create_node n t in (p, retag c d t1))" for n
    by (simp add: create_node_def retag_def put_def)
  show ?case by (simp add: n Let_def Cons.IH split: prod.splits)
qed simp

lemma Deserialize_retag [retags]: "Deserialize pb v p (retag c d t) = retag2 c d (Deserialize pb v p t)"
  by (auto simp: Deserialize_def retag_of_bind retags Let_def split: option.splits prod.splits intro!: bindR_eqI)

lemma LoadNode_retag [retags]: "LoadNodeFromKVStorage kv pb p (retag c d t) = retag2 c d (LoadNodeFromKVStorage kv pb p t)"
  by (auto simp: LoadNodeFromKVStorage_def GetNodeFromKVStorage_def LoadTreeNode_def on_node_def retag_of_bind retags
      bindR_def split: sum.splits prod.splits)

lemma child_stats_retag [retags]: "child_stats n (retag c d t) = child_stats n t"
  by (simp add: child_stats_def)

lemma bound_retag [retags]:
  "MaxKeyUpperBound k n (retag c d t) = MaxKeyUpperBound k n t"
  "MaxKeyLowerBound k n (retag c d t) = MaxKeyLowerBound k n t"
  "FindChild_node p n (retag c d t) = FindChild_node p n t"
  by (simp_all add: MaxKeyUpperBound_def MaxKeyLowerBound_def FindChild_node_def retags)

lemma open_descend_retag [retags]:
  "open_descend kv pb opts fuel p (retag c d t) = retag3 c d (open_descend kv pb opts fuel p t)"
proof (induction fuel arbitrary: p t)
  case (Suc fuel)
  show ?case
    by (auto simp: Suc.IH retag_of_bind retags Let_def intro!: bindR_eqI)
qed simp

lemma Open_retag [retags]: "BptIterator_Open kv pb it (retag c d t) = retag3 c d (BptIterator_Open kv pb it t)"
  by (auto simp: BptIterator_Open_def retag_of_bind retags simp del: open_descend.simps intro!: bindR_eqI)

lemma walk_retag [retags]: "walk_round opts p b (retag c d t) = walk_round opts p b t"
  by (auto simp: walk_round_def walk_to_def retags split: option.splits list.splits intro!: bindR_eqI)

lemma next_leaf_retag [retags]:
  "next_leaf_loop kv pb opts fuel p b (retag c d t) = retag3 c d (next_leaf_loop kv pb opts fuel p b t)"
proof (induction fuel arbitrary: p b t)
  case (Suc fuel)
  show ?case
    by (auto simp: Suc.IH retag_of_bind retags split: leaf_walk.splits intro!: bindR_eqI)
qed simp

lemma nextLeaf_retag [retags]: "nextLeafNode kv pb it (retag c d t) = retag3 c d (nextLeafNode kv pb it t)"
  by (auto simp: nextLeafNode_def retag_of_bind retags simp del: next_leaf_loop.simps intro!: bindR_eqI)

lemma reset_retag [retags]: "resetCurKV it (retag c d t) = resetCurKV it t"
  by (simp add: resetCurKV_def)

lemma iter_next_retag [retags]:
  "iter_next kv pb rows data it (retag c d t) = retag4 c d (iter_next kv pb rows data it t)"
proof (induction kv pb rows data it t rule: iter_next.induct)
  case (1 kv pb rows data it t)
  show ?case
  proof (cases "rows = 0 \<or> kv_it_reach_end it \<and> node_it_reach_end it")
    case True
    then show ?thesis by (subst (1 2) iter_next.simps) auto
  next
    case False
    then have rows: "rows \<noteq> 0" by simp
    show ?thesis
    proof (cases "kv_it_reach_end it")
      case False
      then show ?thesis using rows "1.IH"(1) [OF rows]
        by (subst (1 2) iter_next.simps) (auto simp: retag_of_bind intro!: bindR_eqI)
    next
      case True
      with False have ends: "kv_it_reach_end it" "\<not> node_it_reach_end it" by auto
      show ?thesis
      proof (cases "nextLeafNode kv pb it t")
        case (Inl f)
        then show ?thesis using rows ends by (subst (1 2) iter_next.simps) (simp add: retags)
      next
        case (Inr y)
        obtain st ita ta where y: "nextLeafNode kv pb it t = Inr (st, ita, ta)" using Inr by (cases y) auto
        show ?thesis using rows ends "1.IH"(2) [OF rows _ ends(2) y refl refl]
          by (subst (1 2) iter_next.simps) (auto simp: retags y retag_of_bind intro!: bindR_eqI)
      qed
    qed
  qed
qed

lemma base_open_retag [retags]:
  "base_open_loop kv pb ops b (retag c d t) = retag3 c d (base_open_loop kv pb ops b t)"
proof (induction ops arbitrary: b t)
  case (Cons op ops)
  have "BptIterator op (retag c d t) = BptIterator op t" by (simp add: BptIterator_def)
  then show ?case by (auto simp: retag_of_bind retags Cons.IH Let_def intro!: bindR_eqI)
qed simp

lemma base_Open_retag [retags]: "BaseIterator_Open kv pb b (retag c d t) = retag3 c d (BaseIterator_Open kv pb b t)"
  by (simp add: BaseIterator_Open_def retags)

lemma base_next_retag [retags]:
  "base_next_loop kv pb fuel b (retag c d t) = retag2 c d (base_next_loop kv pb fuel b t)"
proof (induction fuel arbitrary: b t)
  case 0
  show ?case by (subst (1 2) base_next_loop.simps) simp
next
  case (Suc fuel)
  show ?case
    by (subst (1 2) base_next_loop.simps)
      (auto simp: retag_of_bind retags Suc.IH split: option.splits intro!: bindR_eqI)
qed

lemma base_Next_retag [retags]:
  "BaseIterator_Next kv pb fuel b (retag c d t) = retag2 c d (BaseIterator_Next kv pb fuel b t)"
  by (simp add: BaseIterator_Next_def retags)

lemma LoadTreeNode_retag:
  "LoadTreeNode kv pb (sc\<lparr>ts_tree_id := e\<rparr>) i p (retag c d t) = retag2 c d (LoadTreeNode kv pb sc i p t)"
  by (auto simp: LoadTreeNode_def retag_of_bind retags intro!: bindR_eqI)

lemma BptNode_root_retag:
  "BptNode_root proto (retag c d t) = (let (r, t1) = BptNode_root proto t in (r, retag c d t1))"
proof -
  have n: "create_node n (retag c d t) = (let (p, t1) = create_node n t in (p, retag c d t1))" for n t
    by (simp add: create_node_def retag_def put_def)
  show ?thesis by (auto simp: BptNode_root_def n Let_def retags split: prod.splits)
qed

lemma open_index_retag:
  "open_index kv pb (sc\<lparr>ts_tree_id := d\<rparr>) s = bindR (open_index kv pb sc s) (\<lambda>t. Inr (retag d d t))"
proof -
  have e: "\<lparr>heap = Map.empty, next_ptr = 0, unsaved = [], ctx_id = d, schema = sc\<lparr>ts_tree_id := d\<rparr>, storage = s, root = 0\<rparr> =
      retag d d \<lparr>heap = Map.empty, next_ptr = 0, unsaved = [], ctx_id = ts_tree_id sc, schema = sc, storage = s, root = 0\<rparr>"
    by (simp add: retag_def)
  have root: "(retag d d t)\<lparr>root := r\<rparr> = retag d d (t\<lparr>root := r\<rparr>)" for t :: "'a tree" and r by (simp add: retag_def)
  show ?thesis unfolding open_index_def
    by (simp add: e BptNode_root_retag Let_def LoadTreeNode_retag root split: prod.split)
      (auto simp: bindR_def split: sum.split prod.split)
qed

end
