(* ===== verification/SelectTheorems.thy ===== *)
theory SelectTheorems
  imports SchedulerTheorems ScanCounter
begin

text \<open>
  What a query prints: the plan of a SELECT statement, run by the scheduler over a table, prints the
  rows in its ranges.
\<close>

section \<open>The pipeline of a query\<close>

definition query_plan :: "expr_node option list \<Rightarrow> TableScan \<Rightarrow> plan" where
  "query_plan conds sc =
     RelNode PhysicalResultSet [RelNode (PhysicalFilter conds) [RelNode (PhysicalTableScan sc) []]]"

definition scan_start :: "TableScan \<Rightarrow> TableInfo \<Rightarrow> 's \<Rightarrow> 's scan_exec" where
  "scan_start sc t s =
     \<lparr>sx_table = Table t s, sx_iter = None, sx_ranges = primary_ranges sc, sx_row_desc = ToRowDesc t, sx_chunk = 3\<rparr>"

text \<open>The scan fills its chunk, the filter takes the rows over, the result set prints them.\<close>

definition query_result :: "'s env \<Rightarrow> bytes \<Rightarrow> (status \<times> 's scan_exec \<times> chunk) res \<Rightarrow> (status \<times> 's \<times> bytes) res" where
  "query_result en out g =
     bindR g (\<lambda>(st, x, c).
       if st \<noteq> C_OK then Inr (st, table_storage (sx_table x), out)
       else bindR (ResultSet_Consume en (fst (Chunk_move Chunk c)) out) (\<lambda>(_, out1).
         Inr (C_OK, table_storage (sx_table x), out1)))"

definition query_runtime :: "TableScan \<Rightarrow> TableInfo \<Rightarrow> 's \<Rightarrow> bytes \<Rightarrow> 's runtime" where
  "query_runtime sc t s out =
     \<lparr>exec_objs = [\<lparr>exec = ResultSetExec 0, inputs = [(1, 1)], outputs = []\<rparr>,
                   \<lparr>exec = FilterExec 1 2, inputs = [(2, 0)], outputs = [(0, 1)]\<rparr>,
                   \<lparr>exec = TableScanExec (scan_start sc t s), inputs = [], outputs = [(1, 0)]\<rparr>],
      caches = [None, None], chunk_objs = [Chunk, Chunk, Chunk, Chunk], rt_storage = s, cout = out\<rparr>"

lemma put_sel [simp]:
  "rt_storage (put_chunk c ch rt) = rt_storage rt" "cout (put_chunk c ch rt) = cout rt"
  "rt_storage (put_exec p e rt) = rt_storage rt" "cout (put_exec p e rt) = cout rt"
  by (simp_all add: put_chunk_def put_exec_def)

lemma query_executors:
  assumes "rel_table (scan_table sc) = Some t"
  shows "graph_ToExecutor (query_plan conds sc) (Runtime s out, []) = Inr (0, query_runtime sc t s out, [2, 1, 0])"
  by (simp add: query_plan_def query_runtime_def scan_start_def Runtime_def ToExecutor_def new_chunk_def new_exec_def
      Connect_def upd_exec_def Let_def assms)

lemma query_Init:
  assumes "rel_table (scan_table sc) = Some t"
  shows "\<exists>g. Graph_Init (query_plan conds sc) (Runtime s out) = Inr (g, query_runtime sc t s out) \<and> executors g = [2, 1, 0]"
proof -
  let ?rt = "query_runtime sc t s out"
  have o1: "exec_objs ?rt ! 0 = \<lparr>exec = ResultSetExec 0, inputs = [(1, 1)], outputs = []\<rparr>"
    "exec_objs ?rt ! 1 = \<lparr>exec = FilterExec 1 2, inputs = [(2, 0)], outputs = [(0, 1)]\<rparr>"
    "exec_objs ?rt ! 2 = \<lparr>exec = TableScanExec (scan_start sc t s), inputs = [], outputs = [(1, 0)]\<rparr>"
    by (simp_all add: query_runtime_def)
  have "exec_objs ?rt ! Suc 0 = exec_objs ?rt ! 1" by simp
  then show ?thesis
    by (simp add: Graph_Init_def initExecutors_def query_executors [OF assms] initNodes_def initEdges_def Let_def
        upt_conv_Cons Node_def peer_edge_def o1 del: One_nat_def)
qed

lemma query_run:
  assumes "rel_table (scan_table sc) = Some t"
  shows "ExecutePlan en (query_plan conds sc) s out = query_result en out (Generate en (scan_start sc t s) Chunk)"
proof -
  obtain g where g: "Graph_Init (query_plan conds sc) (Runtime s out) = Inr (g, query_runtime sc t s out)" "executors g = [2, 1, 0]"
    using query_Init [OF assms, of conds s out] by (elim exE conjE)
  have x: "(scan_start sc t s)\<lparr>sx_table := (sx_table (scan_start sc t s))\<lparr>table_storage := s\<rparr>\<rparr> = scan_start sc t s"
    by (simp add: scan_start_def Table_def)
  have sx: "sx_chunk (scan_start sc t s) = 3" by (simp add: scan_start_def)
  let ?rt = "query_runtime sc t s out"
  let ?rt1 = "?rt\<lparr>caches := [Some 3, None]\<rparr>"
  have p2: "exec_Prepare 2 ?rt = Inr (kFinished, ?rt1)"
    by (simp add: exec_Prepare_def query_runtime_def first_port_def PushData_def sx)
  have w2: "exec_Work en 2 ?rt1 =
      bindR (Generate en (scan_start sc t s) Chunk) (\<lambda>(st, x1, c1).
        Inr (st, put_chunk 3 c1 (put_exec 2 (TableScanExec x1) (?rt1\<lparr>rt_storage := table_storage (sx_table x1)\<rparr>))))"
    by (simp add: exec_Work_def query_runtime_def get_chunk_def sx x numeral_eq_Suc)
  show ?thesis
  proof (cases "Generate en (scan_start sc t s) Chunk")
    case (Inl f)
    then show ?thesis
      by (simp add: ExecutePlan_def Scheduler_Run_order [OF g(1)] g(2) p2 w2 query_result_def)
  next
    case (Inr y)
    obtain st x1 c1 where y: "y = (st, x1, c1)" by (cases y)
    let ?rt2 = "put_chunk 3 c1 (put_exec 2 (TableScanExec x1) (?rt1\<lparr>rt_storage := table_storage (sx_table x1)\<rparr>))"
    have w: "exec_Work en 2 ?rt1 = Inr (st, ?rt2)" by (simp add: w2 Inr y)
    let ?rt3 = "?rt2\<lparr>exec_objs := (exec_objs ?rt2)[1 := (exec_objs ?rt2 ! 1)\<lparr>exec := FilterExec 3 2\<rparr>], caches := [Some 3, Some 2]\<rparr>"
    have p1: "exec_Prepare 1 ?rt2 = Inr (kNeedData, ?rt3)"
      by (simp add: exec_Prepare_def query_runtime_def first_port_def PushData_def PullData_port_def put_chunk_def put_exec_def)
    let ?c2 = "fst (Chunk_move Chunk c1)"
    let ?rt4 = "put_chunk 2 ?c2 (put_chunk 3 (c1\<lparr>select := []\<rparr>) ?rt3)"
    have w1: "exec_Work en 1 ?rt3 = Inr (C_OK, ?rt4)"
      by (simp add: exec_Work_def Filter_Transform_def query_runtime_def get_chunk_def put_chunk_def put_exec_def Chunk_move_def
          numeral_eq_Suc)
    let ?rt5 = "put_exec 0 (ResultSetExec 2) ?rt4"
    have p0: "exec_Prepare 0 ?rt4 = Inr (kReady, ?rt5)"
      by (simp add: exec_Prepare_def query_runtime_def sink_Prepare_def PullData_port_def put_chunk_def put_exec_def)
    have w0: "exec_Work en 0 ?rt5 = bindR (ResultSet_Consume en ?c2 out) (\<lambda>(ch1, o1).
        Inr (C_OK, put_chunk 2 ch1 (?rt5\<lparr>cout := o1\<rparr>)))"
      by (simp add: exec_Work_def query_runtime_def get_chunk_def put_chunk_def put_exec_def numeral_eq_Suc)
    have fail: "rt_storage ?rt2 = table_storage (sx_table x1)" "cout ?rt2 = out"
      by (simp_all add: query_runtime_def)
    show ?thesis
    proof (cases "st = C_OK")
      case False
      then show ?thesis
        by (simp add: ExecutePlan_def Scheduler_Run_order [OF g(1)] g(2) p2 w query_result_def Inr y fail)
          (simp add: query_runtime_def)
    next
      case True
      have "run_in_order en [2, 1, 0] ?rt = bindR (exec_Work en 0 ?rt5) (\<lambda>(st, rt). Inr (st, rt))"
        by (simp only: run_in_order.simps p2 bindR_simps prod.case w True p1 w1 p0 if_False simp_thms)
          (cases "exec_Work en 0 ?rt5", auto)
      then have "run_in_order en [2, 1, 0] ?rt = exec_Work en 0 ?rt5"
        by (simp add: w0) (cases "exec_Work en 0 ?rt5"; simp)
      then have r: "ExecutePlan en (query_plan conds sc) s out = bindR (exec_Work en 0 ?rt5) (\<lambda>(st, rt). Inr (st, rt_storage rt, cout rt))"
        by (simp only: ExecutePlan_def Scheduler_Run_order [OF g(1)] g(2))
      show ?thesis
      proof (cases "ResultSet_Consume en ?c2 out")
        case (Inl f)
        then show ?thesis unfolding r w0 by (simp add: query_result_def \<open>Generate _ _ _ = Inr y\<close> y True)
      next
        case (Inr z)
        then show ?thesis unfolding r w0
          by (cases z) (simp add: query_result_def \<open>Generate _ _ _ = Inr y\<close> y True)
      qed
    qed
  qed
qed

section \<open>Rows of a chunk\<close>

text \<open>A line of output.\<close>

definition row_line :: "expr_value list \<Rightarrow> bytes" where
  "row_line vs = concat (map (\<lambda>v. space_bar_space @ number_text v) vs) @ space_bar_endl"

lemma row_object_facts:
  assumes "row_object t r vs" "single_index t k"
  shows "table_row t r" "length vs = length (column_list t)" "row_desc r = ToRowDesc t" "row_ok r" "row_has r vs"
  using assms row_object_table(1) [OF assms] unfolding row_object_def table_row_def row_has_def
  by (simp_all, metis length_map)

lemma print_row_object:
  assumes r: "row_object t r vs" and t: "single_index t k"
  shows "print_row en r out = Inr (out @ row_line vs)"
proof -
  note f = row_object_facts [OF r t]
  have c: "length (cols (row_desc r)) = length (column_list t)" using f(1) by (simp add: table_row_def)
  have ids: "map desc_id (cols (row_desc r)) = map (\<lambda>c. ucast (col_id c)) (column_list t)"
    by (simp add: f(3) ToRowDesc_ids)
  have col: "GetColValue (en_obj en) (row_id (row_desc r)) (desc_id (cols (row_desc r) ! j)) r = Inr (vs ! j)"
    "ToString (en_fo en) (vs ! j) = Inr (number_text (vs ! j))" if "j < length vs" for j
  proof -
    have "desc_id (cols (row_desc r) ! j) = ucast (col_id (column_list t ! j))"
      using arg_cong [OF ids, of "\<lambda>xs. xs ! j"] that c f(2) by simp
    then show "GetColValue (en_obj en) (row_id (row_desc r)) (desc_id (cols (row_desc r) ! j)) r = Inr (vs ! j)"
      using read_table_column [OF f(1,5), of j "en_obj en"] that f(2) by (simp add: read_column_def)
    show "ToString (en_fo en) (vs ! j) = Inr (number_text (vs ! j))"
      using f(5) that by (intro ToString_number) (simp add: row_has_def)
  qed
  have "print_columns en r (drop n (cols (row_desc r))) o1 =
      Inr (o1 @ concat (map (\<lambda>v. space_bar_space @ number_text v) (drop n vs)))" if "n \<le> length vs" for n o1
    using that
  proof (induction "length vs - n" arbitrary: n o1)
    case 0
    then show ?case using c f(2) by simp
  next
    case (Suc m)
    then have n: "n < length vs" by simp
    have d: "drop n vs = vs ! n # drop (Suc n) vs" "drop n (cols (row_desc r)) = cols (row_desc r) ! n # drop (Suc n) (cols (row_desc r))"
      using n c f(2) by (simp_all add: Cons_nth_drop_Suc)
    show ?case using Suc.hyps(1) [of "Suc n"] Suc.hyps(2) n by (simp add: d col)
  qed
  from this [of 0] show ?thesis by (simp add: print_row_def row_line_def)
qed

lemma print_rows_objects:
  assumes "list_all2 (row_object t) (drop (unat (cursor c)) (select c)) rows" "single_index t k"
    "length (select c) < 2 ^ 32" "length rows \<le> fuel"
  shows "\<exists>c1. print_rows en fuel c out = Inr (c1, out @ concat (map row_line rows))"
  using assms
proof (induction rows arbitrary: c out fuel rule: list.induct)
  case Nil
  have "drop (unat (cursor c)) (select c) = []" using Nil.prems(1) by (rule list_all2_Nil2 [THEN iffD1])
  then have "ReachEnd c" unfolding ReachEnd_def drop_eq_Nil .
  then show ?case by (subst print_rows.simps) simp
next
  case (Cons vs rows)
  obtain r rs where d: "drop (unat (cursor c)) (select c) = r # rs" "row_object t r vs" "list_all2 (row_object t) rs rows"
    using Cons.prems(1) by (auto simp: list_all2_Cons2)
  have n: "unat (cursor c) < length (select c)" using d(1) by (metis drop_all list.distinct(1) not_le)
  have cur: "CurrentRow c = Inr r" using n d(1) by (simp add: CurrentRow_def) (metis Cons_nth_drop_Suc list.inject)
  obtain m where m: "fuel = Suc m" "length rows \<le> m" using Cons.prems(4) by (cases fuel) auto
  have "unat (cursor c + 1) = Suc (unat (cursor c))"
  proof -
    have "unat (cursor c) + 1 < 2 ^ 32" using n Cons.prems(3) by simp
    then show ?thesis by (simp add: unat_word_ariths)
  qed
  then have "drop (unat (cursor (Chunk_Next c))) (select (Chunk_Next c)) = rs"
    using d(1) n by (simp add: Chunk_Next_def) (metis Cons_nth_drop_Suc list.inject)
  then obtain c1 where "print_rows en m (Chunk_Next c) (out @ row_line vs) = Inr (c1, (out @ row_line vs) @ concat (map row_line rows))"
    using Cons.IH [of "Chunk_Next c" m "out @ row_line vs"] d(3) Cons.prems(2,3) m(2) by (auto simp: Chunk_Next_def)
  then show ?case
    using n by (subst print_rows.simps) (simp add: ReachEnd_def m(1) cur print_row_object [OF d(2) Cons.prems(2)])
qed

lemma consume_objects:
  assumes "list_all2 (row_object t) (select c) rows" "single_index t k" "length rows < 2 ^ 32"
  shows "\<exists>c1. ResultSet_Consume en c out = Inr (c1, out @ concat (map row_line rows))"
  unfolding ResultSet_Consume_def
  by (rule print_rows_objects [OF _ assms(2)]) (use assms(1,3) list_all2_lengthD [OF assms(1)] in \<open>simp_all add: ResetCursor_def\<close>)

section \<open>Decoding rows and their keys\<close>

lemma empty_row:
  assumes "single_index t k"
  shows "row_ok (Row (ToRowDesc t))" "length (cols (ToRowDesc t)) = length (column_list t)" "row_id (ToRowDesc t) = 0"
    "row_values t vs \<Longrightarrow> j < length vs \<Longrightarrow> ev_type (vs ! j) = desc_type (cols (ToRowDesc t) ! j)"
proof -
  have l: "length (column_list t) < 2 ^ 24" "k < length (column_list t)" using assms by (simp_all add: single_index_def)
  note d = ToRowDesc_cols [OF l(1)]
  show "row_ok (Row (ToRowDesc t))" by (rule row_ok_Row) (use d l(2) in auto)
  show "length (cols (ToRowDesc t)) = length (column_list t)" "row_id (ToRowDesc t) = 0" by (fact d)+
  show "ev_type (vs ! j) = desc_type (cols (ToRowDesc t) ! j)" if "row_values t vs" "j < length vs"
    using that d(3) unfolding row_values_def by (metis length_map nth_map)
qed

lemma number_decodable: "number v \<Longrightarrow> ev_type v \<noteq> Int8 \<Longrightarrow> decodable v"
  by (elim number_cases) (simp_all add: decodable_def New_defs wf_value_def)

lemma decode_row_object:
  assumes v: "row_values t vs" and t: "single_index t k"
  obtains r where "DecodeRow t (tagged_bytes vs) (Row (ToRowDesc t)) = Inr r" "row_object t r vs"
proof -
  note e = empty_row [OF t]
  have l: "length vs = length (column_list t)" using v unfolding row_values_def by (metis length_map)
  have n: "length (column_list t) < 2 ^ 24" "columns_numbered t" using t by (simp_all add: single_index_def)
  have dec: "\<forall>j < length vs. number (vs ! j) \<and> decodable (vs ! j)"
    using v by (auto simp: row_values_def intro: number_decodable)
  have "\<exists>r1. decode_columns ([] @ tagged_bytes vs) (of_nat (length ([] :: bytes)))
      (map ((!) (column_list t)) [0..<length (column_list t)]) (Row (ToRowDesc t)) = Inr r1 \<and> row_ok r1 \<and>
    row_desc r1 = ToRowDesc t \<and> (\<forall>j < 0. row_holds r1 j (undefined j)) \<and> (\<forall>j < length vs. row_holds r1 (0 + j) (vs ! j))"
    by (rule decode_columns_bytes [OF e(1) _ _ _ refl n(2) e(2)])
      (use n l dec e(4) [OF v] in \<open>simp_all add: Row_def\<close>)
  then obtain r1 where r1: "DecodeRow t (tagged_bytes vs) (Row (ToRowDesc t)) = Inr r1" "row_ok r1" "row_desc r1 = ToRowDesc t"
    "\<forall>j < length vs. row_holds r1 j (vs ! j)"
    by (auto simp: DecodeRow_def map_nth)
  have "map ev_type vs = map desc_type (cols (ToRowDesc t))"
    by (rule nth_equalityI) (use l e(2,4) v in simp_all)
  then have "row_object t r1 vs" using r1 v by (auto simp: row_object_def row_has_def row_values_def)
  with r1(1) that show thesis by blast
qed

lemma pull_row_objects:
  assumes "\<forall>vs \<in> set rows. row_values t vs" "single_index t k"
  shows "\<exists>rs. pull_rows t (Some (ToRowDesc t)) (map tagged_bytes rows) acc = Inr (acc @ rs) \<and> list_all2 (row_object t) rs rows"
  using assms(1)
proof (induction rows arbitrary: acc)
  case (Cons vs rows)
  obtain r where r: "DecodeRow t (tagged_bytes vs) (Row (ToRowDesc t)) = Inr r" "row_object t r vs"
    using decode_row_object [OF _ assms(2)] Cons.prems by (metis list.set_intros(1))
  obtain rs where "pull_rows t (Some (ToRowDesc t)) (map tagged_bytes rows) (acc @ [r]) = Inr ((acc @ [r]) @ rs)"
    "list_all2 (row_object t) rs rows"
    using Cons.IH [of "acc @ [r]"] Cons.prems by auto
  with r show ?case by (intro exI [of _ "r # rs"]) simp
qed simp

lemma record_key_entry:
  assumes v: "row_values t vs" and t: "single_index t k" and i: "index_info t 0 = Inr i"
  shows "record_key fo obj t i (Some (ToRowDesc t)) (entry_key k vs, x) = Inr (row_record t k vs)"
proof -
  note e = empty_row [OF t] and a = row_value_at [OF v t]
  have n: "length (column_list t) < 2 ^ 32" "columns_numbered t" "k < length (column_list t)" using t by (simp_all add: single_index_def)
  obtain p where p: "index_info t 0 = Inr p" "primary_of t = Inr p" "index_columns t p = Inr [column_list t ! k]"
    "idx_columns p = [column_list t ! k]"
    using index_infoI [OF t] by metis
  have ip: "i = p" using i p(1) by simp
  have ty: "ev_type (vs ! k) = desc_type (cols (ToRowDesc t) ! k)" by (rule e(4) [OF v a(1)])
  obtain r1 where r1: "decode_index_columns (type_code (ev_type (vs ! k)) # value_bytes (vs ! k) @ [])
      (map ((!) (column_list t)) [k]) (Row (ToRowDesc t)) = Inr r1" "row_ok r1" "row_desc r1 = ToRowDesc t" "row_holds r1 k (vs ! k)"
    using decode_index_columns_front [OF a(2) number_decodable [OF a(2,3)] e(1) n(2), of "[k]" "[]"] n e(2) ty
    by (auto simp: Row_def)
  have "unat (ucast (col_id (column_list t ! k)) :: u32) = k" by (rule column_position [OF n(2,3,1)])
  then have "read_column obj r1 (column_list t ! k) = Inr (vs ! k)"
    unfolding read_column_def using r1 a(2) ty e(2) n(3) by (intro get_column) simp_all
  then show ?thesis
    using r1(1) by (simp add: record_key_def DecodeIndex_def ip p entry_key_def ToString_number [OF a(2)] row_record_def)
qed

section \<open>The scan of a query\<close>

text \<open>The options \<open>AddRange\<close> makes of a range, and the rows in some ranges.\<close>

definition opts_of :: "index_range \<Rightarrow> iter_opts" where
  "opts_of r =
     \<lparr>it_lower = lower_str r @ tagged_bytes (rpt_value (rng_lower r)),
      it_upper = upper_str r @ tagged_bytes (rpt_value (rng_upper r)),
      lower_open = (rpt_type (rng_lower r) = LEFT_OPEN), upper_open = (rpt_type (rng_upper r) = RIGHT_OPEN)\<rparr>"

definition range_ok :: "index_range \<Rightarrow> bool" where
  "range_ok r \<longleftrightarrow> (\<forall>v \<in> set (rpt_value (rng_lower r) @ rpt_value (rng_upper r)). wf_value v) \<and> scan_ok (opts_of r)"

definition rows_in :: "nat \<Rightarrow> index_range list \<Rightarrow> expr_value list list \<Rightarrow> expr_value list list" where
  "rows_in k rs rows = concat (map (\<lambda>r. filter (\<lambda>vs. in_scan (opts_of r) (entry_key k vs, [])) rows) rs)"

lemma encode_bound_bytes:
  "\<forall>v \<in> set vs. wf_value v \<Longrightarrow> encode_bound vs out = Inr (out @ tagged_bytes vs)"
proof (induction vs arbitrary: out)
  case (Cons v vs)
  obtain n where "EncodeExprValue v (out @ [type_code (ev_type v)]) = Inr (n, (out @ [type_code (ev_type v)]) @ value_bytes v)"
    using EncodeExprValue_appends Cons.prems by (metis list.set_intros(1))
  with Cons show ?case by simp
qed simp

lemma add_ranges_ok:
  "\<forall>r \<in> set rs. range_ok r \<Longrightarrow> \<exists>rs1. add_ranges rs b = Inr (rs1, b\<lparr>it_ops := it_ops b @ map opts_of rs\<rparr>)"
proof (induction rs arbitrary: b)
  case (Cons r rs)
  have "\<exists>r1. AddRange r b = Inr (C_OK, r1, b\<lparr>it_ops := it_ops b @ [opts_of r]\<rparr>)"
    using Cons.prems by (simp add: AddRange_def encode_bound_bytes range_ok_def opts_of_def)
  with Cons.IH [of "b\<lparr>it_ops := it_ops b @ [opts_of r]\<rparr>"] Cons.prems show ?case by auto
qed simp

lemma ranges_rest_rows:
  assumes "concat ls = entries_of k rows"
  shows "ranges_rest ls (map opts_of rs) = entries_of k (rows_in k rs rows)"
proof -
  have f: "filter (in_scan op) (entries_of k rows) = entries_of k (filter (\<lambda>vs. in_scan op (entry_key k vs, [])) rows)" for op
    by (simp add: entries_of_def filter_map comp_def)
  have e: "entries_of k (xs @ ys) = entries_of k xs @ entries_of k ys" for xs ys by (simp add: entries_of_def)
  show ?thesis
    by (induction rs) (simp_all add: rows_in_def assms f e, simp add: entries_of_def)
qed

context bpt_env
begin

lemma first_page:
  assumes c: "tree_clean pb contents t ls" and ops: "\<forall>op \<in> set ops. scan_ok op"
    and b: "b = with_ranges ops page"
  obtains b1 t1 b2 t2 where "BaseIterator_Open kv pb b t = Inr (C_OK, b1, t1)"
    "BaseIterator_Next kv pb (2 * length (it_ops b1) + 2) b1 t1 = Inr (b2, t2)"
    "data_segment b2 = take page (ranges_rest ls ops)" "code b2 = C_OK \<or> code b2 = C_BPTREE_ITERATOR_END"
    "tree_clean pb contents t2 ls" "storage t2 = storage t"
proof -
  have p: "\<forall>op \<in> set (it_ops b). scan_ok op" "code b = C_OK" "ops = ops_left b" "page_size b = page" "data_segment b = []"
    using ops by (simp_all add: b with_ranges_def BaseIterator_def)
  have op: "BaseIterator_Open kv pb b t = base_open_loop kv pb ops b t"
    using p(3) by (simp add: BaseIterator_Open_def)
  show thesis
  proof (cases rule: base_open_scan [OF c p(1-3)])
    case (1 b1 t1)
    have o1: "BaseIterator_Open kv pb b t = Inr (C_OK, b1, t1)" using 1(1) op by simp
    have "BaseIterator_Next kv pb (2 * length (it_ops b1) + 2) b1 t1 = Inr (b1, t1)"
      using 1(2) by (simp add: BaseIterator_Next_def Valid_def)
    then show thesis
      by (rule that [OF o1]) (use 1(2-4,6) p(5) base_Open_reads [OF o1] in simp_all)
  next
    case (2 b1 t1)
    have o1: "BaseIterator_Open kv pb b t = Inr (C_OK, b1, t1)" using 2(1) op by simp
    obtain b2 t2 where n: "BaseIterator_Next kv pb (2 * length (it_ops b1) + 2) b1 t1 = Inr (b2, t2)"
      "data_segment b2 = take (page_size b1) (ranges_rest ls ops)" "page_size b2 = page_size b1" "it_ops b2 = it_ops b1"
      "tree_clean pb contents t2 ls"
      "code b2 = C_OK \<and> base_at pb contents b2 t2 ls (drop (page_size b1) (ranges_rest ls ops)) \<or>
       code b2 = C_BPTREE_ITERATOR_END \<and> drop (page_size b1) (ranges_rest ls ops) = []"
      by (rule next_page [OF 2(2) order_refl])
    show thesis
      using n 2(4) p(4) base_Open_reads [OF o1] base_Next_reads [OF n(1)] by (intro that [OF o1 n(1)]) auto
  qed
qed

lemma get_table_items:
  assumes t: "single_index t k" and rows: "\<forall>vs \<in> set rows. row_values t vs"
    "\<forall>vs \<in> set rows. contents (storage (ix_tree x)) (row_record t k vs) = Some (tagged_bytes vs)"
    and x: "ix_pos x = 0" and seg: "data_segment b = entries_of k rows" "code b = C_OK \<or> code b = C_BPTREE_ITERATOR_END"
  obtains b1 c1 where "TableIterator_GetItem kv fo obj t x b (SetRowDesc (ToRowDesc t) Chunk) = Inr (C_OK, b1, c1)"
    "list_all2 (row_object t) (select c1) rows"
proof (cases "rows = []")
  case True
  then show thesis
    using seg by (intro that) (auto simp: TableIterator_GetItem_def entries_of_def SetRowDesc_def Chunk_def)
next
  case False
  let ?c = "SetRowDesc (ToRowDesc t) Chunk"
  have c: "chunk_row_desc ?c = Some (ToRowDesc t)" "select ?c = []" by (simp_all add: SetRowDesc_def Chunk_def)
  obtain i where i: "index_info t 0 = Inr i" using index_infoI [OF t] by metis
  have ks: "mapR (record_key fo obj t i (chunk_row_desc ?c)) (entries_of k rows) = Inr (map (row_record t k) rows)"
  proof -
    have "mapR (record_key fo obj t i (Some (ToRowDesc t))) (entries_of k rs) = Inr (map (row_record t k) rs)"
      if "\<forall>vs \<in> set rs. row_values t vs" for rs
      using that by (induction rs) (simp_all add: entries_of_def record_key_entry [OF _ t i])
    with rows(1) c(1) show ?thesis by simp
  qed
  have get: "MGetKV kv (map (row_record t k) rows) [] (storage (ix_tree x)) = Inr (C_OK, map tagged_bytes rows)"
  proof -
    let ?f = "\<lambda>key. the (contents (storage (ix_tree x)) key)"
    have "MGetKV kv (map (row_record t k) rows) [] (storage (ix_tree x)) = Inr (C_OK, map ?f (map (row_record t k) rows))"
      using rows(2) by (intro MGetKV_hit) auto
    moreover have "map ?f (map (row_record t k) rows) = map tagged_bytes rows" using rows(2) by simp
    ultimately show ?thesis by simp
  qed
  obtain rs where rs: "pull_rows t (chunk_row_desc ?c) (map tagged_bytes rows) (select ?c) = Inr rs" "list_all2 (row_object t) rs rows"
    using pull_row_objects [OF rows(1) t, of "[]"] c by auto
  have ne: "entries_of k rows \<noteq> []" using False by (simp add: entries_of_def)
  show thesis
    by (rule that, use seg ne rs in \<open>simp add: TableIterator_GetItem_def x i ks Index_GetRecords_def get PullData_def Let_def\<close>)
      (simp add: rs)
qed

text \<open>Opening a table, with whatever node counter its descriptor has.\<close>

lemma prepare_index:
  assumes t: "single_index t k" and st: "stored_tree pb (contents s) ((index_schema t (hd (index_list t)))\<lparr>ts_tree_id := c\<rparr>) ls"
  obtains tb tr d where "Prepare kv pb (Table t s) = Inr (C_OK, tb)" "table_info tb = t" "table_storage tb = s"
    "row_index tb = Some 0" "ix_pos (index_objs tb ! 0) = 0" "table_tree tb = retag d d tr" "tree_clean pb contents tr ls" "storage tr = s"
    "open_index kv pb ((index_schema t (hd (index_list t)))\<lparr>ts_tree_id := c\<rparr>) s = Inr tr" "ctx_id tr = c"
    "schema tr = (index_schema t (hd (index_list t)))\<lparr>ts_tree_id := c\<rparr>" "d = idx_max_tree_node_id (hd (index_list t))" "table_shape tb k"
proof -
  obtain p where p: "index_info t 0 = Inr p" "index_list t = [p]" using index_infoI [OF t] by metis
  let ?d = "ts_tree_id (index_schema t p)"
  obtain tr where tr: "open_index kv pb ((index_schema t p)\<lparr>ts_tree_id := c\<rparr>) s = Inr tr" "tree_clean pb contents tr ls" "storage tr = s"
    "ctx_id tr = c" "schema tr = (index_schema t p)\<lparr>ts_tree_id := c\<rparr>"
    using open_ok [OF st] p(2) by auto
  have "index_schema t p = ((index_schema t p)\<lparr>ts_tree_id := c\<rparr>)\<lparr>ts_tree_id := ?d\<rparr>" by simp
  then have o1: "open_index kv pb (index_schema t p) s = Inr (retag ?d ?d tr)"
    using open_index_retag [where kv = kv and pb = pb and sc = "(index_schema t p)\<lparr>ts_tree_id := c\<rparr>" and d = ?d and s = s] tr(1) by simp
  have prim: "idx_type p = CONSTRAINT_PRIMARY" using t p(2) by (simp add: single_index_def)
  let ?tb = "(Table t s)\<lparr>index_objs := [\<lparr>ix_tree = retag ?d ?d tr, ix_pos = 0\<rparr>], col_index := [(idx_id p, 0)], row_index := Some 0\<rparr>"
  have "Prepare kv pb (Table t s) = Inr (C_OK, ?tb)"
    by (simp add: Prepare_def loadMeta_def Table_def p load_index_obj_def Index_def o1 prim)
  moreover have "table_tree ?tb = retag ?d ?d tr"
    using tr(3) by (cases tr) (simp add: table_tree_def Table_def retag_def)
  ultimately show thesis
    using tr p(2) t by (intro that [of ?tb ?d tr]) (simp_all add: Table_def index_schema_def table_shape_def)
qed

lemma generate_rows:
  assumes en: "en_kv en = kv" "en_pb en = pb"
    and t: "single_index t k" and st: "stored_tree pb (contents s) ((index_schema t (hd (index_list t)))\<lparr>ts_tree_id := c0\<rparr>) ls"
    and rows: "concat ls = entries_of k rows" "stored_rows (contents s) t k rows"
    and rs: "\<forall>r \<in> set (primary_ranges sc). range_ok r"
  obtains x c where "Generate en (scan_start sc t s) Chunk = Inr (C_OK, x, c)"
    "list_all2 (row_object t) (select c) (take 1024 (rows_in k (primary_ranges sc) rows))" "table_storage (sx_table x) = s"
proof -
  obtain tb tr d where tb: "Prepare kv pb (Table t s) = Inr (C_OK, tb)" "table_info tb = t" "table_storage tb = s"
    "row_index tb = Some 0" "ix_pos (index_objs tb ! 0) = 0" "table_tree tb = retag d d tr" "tree_clean pb contents tr ls" "storage tr = s"
    by (rule prepare_index [OF t st]) blast
  let ?ix = "(index_objs tb ! 0)\<lparr>ix_tree := retag d d tr\<rparr>"
  have ix: "scan_index tb = Inr ?ix" using tb(6) by (simp add: scan_index_def tb(4) table_tree_def Let_def)
  let ?ops = "map opts_of (primary_ranges sc)"
  obtain rs1 where ar: "add_ranges (primary_ranges sc) (BaseIterator 1024) = Inr (rs1, with_ranges ?ops 1024)"
    using add_ranges_ok [OF rs, of "BaseIterator 1024"] by (auto simp: with_ranges_def BaseIterator_def)
  have ops: "\<forall>op \<in> set ?ops. scan_ok op" using rs by (simp add: range_ok_def)
  obtain b1 t1 b2 t2 where p: "BaseIterator_Open kv pb (with_ranges ?ops 1024) tr = Inr (C_OK, b1, t1)"
    "BaseIterator_Next kv pb (2 * length (it_ops b1) + 2) b1 t1 = Inr (b2, t2)"
    "data_segment b2 = take 1024 (ranges_rest ls ?ops)" "code b2 = C_OK \<or> code b2 = C_BPTREE_ITERATOR_END"
    "tree_clean pb contents t2 ls" "storage t2 = storage tr"
    by (rule first_page [OF tb(7) ops refl])
  let ?t2 = "retag d d t2"
  have q: "BaseIterator_Open kv pb (with_ranges ?ops 1024) (retag d d tr) = Inr (C_OK, b1, retag d d t1)"
    "BaseIterator_Next kv pb (2 * length (it_ops b1) + 2) b1 (retag d d t1) = Inr (b2, ?t2)"
    by (simp_all only: base_Open_retag base_Next_retag p(1,2) retag_res)
  have sto: "storage ?t2 = s" using p(6) tb(8) by simp
  let ?rows = "take 1024 (rows_in k (primary_ranges sc) rows)"
  have seg: "data_segment b2 = entries_of k ?rows"
    by (simp add: p(3) ranges_rest_rows [OF rows(1)] entries_of_def take_map)
  have sub: "set ?rows \<subseteq> set rows" using set_take_subset by (fastforce simp: rows_in_def)
  have good: "\<forall>vs \<in> set ?rows. row_values t vs"
    "\<forall>vs \<in> set ?rows. contents (storage (ix_tree (?ix\<lparr>ix_tree := ?t2\<rparr>))) (row_record t k vs) = Some (tagged_bytes vs)"
    using sub rows(2) sto unfolding stored_rows_def by auto
  have pos: "ix_pos (?ix\<lparr>ix_tree := ?t2\<rparr>) = 0" using tb(5) by simp
  obtain b3 c where g: "TableIterator_GetItem kv (en_fo en) (en_obj en) t (?ix\<lparr>ix_tree := ?t2\<rparr>) b2 (SetRowDesc (ToRowDesc t) Chunk) =
      Inr (C_OK, b3, c)" "list_all2 (row_object t) (select c) ?rows"
    by (rule get_table_items [OF t good pos seg p(4)])
  let ?start = "scan_start sc t s"
  have start: "sx_table ?start = Table t s" "sx_iter ?start = None" "sx_ranges ?start = primary_ranges sc" "sx_row_desc ?start = ToRowDesc t"
    by (simp_all add: scan_start_def)
  have none: "row_index (Table t s) = None" by (simp add: Table_def)
  let ?x = "?start\<lparr>sx_table := tb\<lparr>index_objs := (index_objs tb)[0 := ?ix\<lparr>ix_tree := ?t2\<rparr>], table_storage := storage ?t2\<rparr>,
    sx_ranges := rs1, sx_iter := Some b3\<rparr>"
  have "Generate en ?start Chunk = Inr (C_OK, ?x, c)"
    using q(2) g(1)
    by (simp add: Generate_def start none en tb(1,2,4) ar ix q(1) del: list_update.simps)
  then show thesis by (rule that [OF _ g(2)]) (simp add: sto [simplified])
qed

lemma query_prints:
  assumes en: "en_kv en = kv" "en_pb en = pb"
    and t: "single_index t k" "rel_table (scan_table sc) = Some t"
    and st: "stored_tree pb (contents s) ((index_schema t (hd (index_list t)))\<lparr>ts_tree_id := c0\<rparr>) ls"
    and rows: "concat ls = entries_of k rows" "stored_rows (contents s) t k rows"
    and rs: "\<forall>r \<in> set (primary_ranges sc). range_ok r"
  shows "ExecutePlan en (query_plan conds sc) s out =
    Inr (C_OK, s, out @ concat (map row_line (take 1024 (rows_in k (primary_ranges sc) rows))))"
proof -
  obtain x c where g: "Generate en (scan_start sc t s) Chunk = Inr (C_OK, x, c)"
    "list_all2 (row_object t) (select c) (take 1024 (rows_in k (primary_ranges sc) rows))" "table_storage (sx_table x) = s"
    by (rule generate_rows [OF en t(1) st rows rs])
  have "select (fst (Chunk_move Chunk c)) = select c" by (simp add: Chunk_move_def)
  then obtain c1 where "ResultSet_Consume en (fst (Chunk_move Chunk c)) out =
      Inr (c1, out @ concat (map row_line (take 1024 (rows_in k (primary_ranges sc) rows))))"
    using consume_objects [OF _ t(1), of "fst (Chunk_move Chunk c)" "take 1024 (rows_in k (primary_ranges sc) rows)"] g(2)
    by fastforce
  then show ?thesis by (simp add: query_run [OF t(2)] query_result_def g(1,3))
qed

end

end
