(* ===== verification/IndexGrowth.thy ===== *)
theory IndexGrowth
  imports ScanCounter BptInsertThm
begin

text \<open>
  The index of a table grows over many statements, each of which opens it with the counter of the
  time when the table was created. The entries of an index have no values, so its leaves never reach the
  size at which they are split: after the first leaf no node is created, and the counter does not matter.
\<close>

section \<open>Runs without a new node\<close>

lemma retag_ctx [simp]: "ctx_id (retag c d t) = c"
  by (simp add: retag_def)

lemma retag_same: "retag (ctx_id t) (ts_tree_id (schema t)) t = t"
  by (cases t, cases "schema t") (simp add: retag_def)

text \<open>What commutes with a change of the counter does not change it.\<close>

lemma retag2_ctx: "r = retag2 (ctx_id t) d r \<Longrightarrow> r = Inr (x, t1) \<Longrightarrow> ctx_id t1 = ctx_id t"
  by (metis retag_ctx retag_res(2) Inr_inject prod.inject)

lemma load_ctx: "LoadNodeFromKVStorage kv pb p t = Inr (st, t1) \<Longrightarrow> ctx_id t1 = ctx_id t"
  by (rule retag2_ctx) (rule LoadNode_retag [of kv pb p "ctx_id t" "ts_tree_id (schema t)" t, unfolded retag_same])

lemma new_leaf_ctx:
  "NewMutableLeafChild p t = Inr (q, t1) \<Longrightarrow> ctx_id t1 = ctx_id t + 1 \<and> (\<exists>n. heap t1 q = Some n \<and> is_leaf n)"
  by (auto simp: NewMutableLeafChild_def BptNode_new_def AllocateNodeID_def create_node_def Let_def on_node_def deref_def put_def
      bindR_Inr_iff split: option.splits if_splits)

lemma insert_descend_retag:
  "insert_descend kv pb key fuel p path t = Inr (st, path1, t1) \<Longrightarrow> ctx_id t1 = ctx_id t \<Longrightarrow>
   insert_descend kv pb key fuel p path (retag c d t) = Inr (st, path1, retag c d t1)"
proof (induction fuel arbitrary: p path t)
  case (Suc fuel)
  from Suc.prems(1) obtain n where n: "heap t p = Some n" by (auto simp: deref_def split: option.splits)
  show ?case
  proof (cases "is_leaf n \<or> \<not> HasChild n")
    case True
    show ?thesis
    proof (cases "is_leaf n")
      case True
      then show ?thesis using Suc.prems(1) n by (simp add: deref_def)
    next
      case False
      with True Suc.prems(1) n obtain q t2 where q: "NewMutableLeafChild p t = Inr (q, t2)"
        "insert_descend kv pb key fuel q (q # path) t2 = Inr (st, path1, t1)" by (auto simp: deref_def bindR_Inr_iff)
      obtain n2 where "heap t2 q = Some n2" "is_leaf n2" "ctx_id t2 = ctx_id t + 1" using new_leaf_ctx [OF q(1)] by blast
      with q(2) have "ctx_id t1 = ctx_id t + 1" by (cases fuel) (auto simp: deref_def)
      with Suc.prems(2) show ?thesis by simp
    qed
  next
    case False
    with Suc.prems(1) n obtain i where i: "MaxKeyLowerBound key n t = Inr i" by (auto simp: deref_def bindR_Inr_iff)
    let ?q = "if i = length (children n) then last (children n) else children n ! i"
    from False Suc.prems(1) n i obtain st2 t2 where q: "LoadNodeFromKVStorage kv pb ?q t = Inr (st2, t2)"
      "(if st2 \<noteq> C_OK \<and> st2 \<noteq> C_STORAGE_KV_NOT_FOUND then Inr (st2, path, t2)
        else insert_descend kv pb key fuel ?q (?q # path) t2) = Inr (st, path1, t1)"
      by (auto simp: deref_def bindR_Inr_iff Let_def)
    have "ctx_id t2 = ctx_id t" by (rule load_ctx [OF q(1)])
    then show ?thesis
      using q False n i Suc.prems(2) Suc.IH [of ?q "?q # path" t2] by (auto simp: deref_def retags Let_def split: if_splits)
  qed
qed simp

definition retag1 :: "u64 \<Rightarrow> u64 \<Rightarrow> 's tree res \<Rightarrow> 's tree res" where
  "retag1 c d r = bindR r (\<lambda>t. Inr (retag c d t))"

lemma retag1_res [simp]: "retag1 c d (Inr t) = Inr (retag c d t)" "retag1 c d (Inl e) = Inl e"
  by (simp_all add: retag1_def)

lemma collect_retag [retags]: "CollectUnsavedTreeNode p (retag c d t) = retag1 c d (CollectUnsavedTreeNode p t)"
  by (simp add: CollectUnsavedTreeNode_def deref_def retag_def retag1_def split: option.split)

lemma range_change_retag [retags]: "UpdateStatByRangeChange b p (retag c d t) = retag1 c d (UpdateStatByRangeChange b p t)"
  by (auto simp: UpdateStatByRangeChange_def requireR_def retag1_def bindR_def split: sum.split)

lemma retag1_ctx: "r = retag1 (ctx_id t) d r \<Longrightarrow> r = Inr t1 \<Longrightarrow> ctx_id t1 = ctx_id t"
  by (metis retag_ctx retag1_res(1) Inr_inject)

lemma collect_ctx: "CollectUnsavedTreeNode p t = Inr t1 \<Longrightarrow> ctx_id t1 = ctx_id t"
  by (rule retag1_ctx) (rule collect_retag [of p "ctx_id t" "ts_tree_id (schema t)" t, unfolded retag_same])

lemma range_change_ctx: "UpdateStatByRangeChange b p t = Inr t1 \<Longrightarrow> ctx_id t1 = ctx_id t"
  by (rule retag1_ctx) (rule range_change_retag [of b p "ctx_id t" "ts_tree_id (schema t)" t, unfolded retag_same])

lemma on_node_ctx: "on_node p f t = Inr t1 \<Longrightarrow> ctx_id t1 = ctx_id t"
  by (auto simp: on_node_def bindR_Inr_iff)

lemma move_children_ctx: "move_children r cs t = Inr t1 \<Longrightarrow> ctx_id t1 = ctx_id t"
proof (induction cs arbitrary: t)
  case (Cons q cs)
  then show ?case by (auto simp: bindR_Inr_iff dest!: Cons.IH on_node_ctx)
qed simp

lemma Split_ctx: "Split p t = Inr (q, t1) \<Longrightarrow> ctx_id t1 = ctx_id t + 1"
  by (auto simp: Split_def split_inner_def BptNode_new_def AllocateNodeID_def create_node_def Let_def bindR_Inr_iff
      split: if_splits dest!: move_children_ctx)

lemma join_ctx: "BptNode_join a b t = Inr (q, t1) \<Longrightarrow> ctx_id t1 = ctx_id t + 1"
  by (auto simp: BptNode_join_def AllocateNodeID_def create_node_def Let_def bindR_Inr_iff dest!: on_node_ctx)

lemma AddChild_ctx: "AddChild p q t = Inr t1 \<Longrightarrow> ctx_id t1 = ctx_id t"
  by (auto simp: AddChild_def bindR_Inr_iff)

text \<open>The walk up counts the nodes it creates.\<close>

lemma insert_ascend_count:
  "insert_ascend key value path t = Inr (st, t1) \<Longrightarrow>
   \<exists>m \<le> 2 * length path. ctx_id t1 = ctx_id t + of_nat m \<and>
     (m = 0 \<longrightarrow> insert_ascend key value path (retag c d t) = Inr (st, retag c d t1))"
proof (induction path arbitrary: t)
  case (Cons p path)
  from Cons.prems obtain n t2 n2 where n: "deref t p = Inr n"
    "(if is_leaf n then Inr (put p (UpdateStatByAddKV key value n) t) else UpdateStatByRangeChange True p t) = Inr t2"
    "deref t2 p = Inr n2" by (subst (asm) insert_ascend.simps) (auto simp: bindR_Inr_iff)
  have c2: "ctx_id t2 = ctx_id t" using n(2) by (auto split: if_splits dest: range_change_ctx)
  have r2: "(if is_leaf n then Inr (put p (UpdateStatByAddKV key value n) (retag c d t)) else UpdateStatByRangeChange True p (retag c d t)) =
      Inr (retag c d t2)" using n(2) by (auto simp: retags split: if_splits)
  show ?case
  proof (cases "NeedSplit n2")
    case False
    with Cons.prems n obtain t3 where t3: "CollectUnsavedTreeNode p t2 = Inr t3" "insert_ascend key value path t3 = Inr (st, t1)"
      by (subst (asm) insert_ascend.simps) (auto simp: bindR_Inr_iff)
    from Cons.IH [OF t3(2)] obtain m where m: "m \<le> 2 * length path" "ctx_id t1 = ctx_id t3 + of_nat m"
      "m = 0 \<longrightarrow> insert_ascend key value path (retag c d t3) = Inr (st, retag c d t1)" by blast
    have "insert_ascend key value (p # path) (retag c d t) = Inr (st, retag c d t1)" if "m = 0"
      using that m(3) False n(1,3) r2 t3(1) by (subst insert_ascend.simps) (simp add: retags)
    then show ?thesis using m(1,2) c2 collect_ctx [OF t3(1)] by (intro exI [of _ m]) simp
  next
    case True
    with Cons.prems n obtain q t3 t4 t5 n5 where s: "Split p t2 = Inr (q, t3)" "CollectUnsavedTreeNode q t3 = Inr t4"
      "CollectUnsavedTreeNode p t4 = Inr t5" "deref t5 p = Inr n5"
      "(if is_root n5 then bindR (BptNode_join p q t5) (\<lambda>(r, t6). bindR (CollectUnsavedTreeNode r (t6\<lparr>root := r\<rparr>)) (\<lambda>t7. insert_ascend key value path t7))
        else case parent n5 of None \<Rightarrow> Inl Undefined_Behaviour
          | Some r \<Rightarrow> bindR (AddChild r q t5) (\<lambda>t6. insert_ascend key value path t6)) = Inr (st, t1)"
      by (subst (asm) insert_ascend.simps) (auto simp: bindR_Inr_iff)
    have c5: "ctx_id t5 = ctx_id t + 1"
      using Split_ctx [OF s(1)] collect_ctx [OF s(2)] collect_ctx [OF s(3)] c2 by simp
    have "\<exists>t7 j. insert_ascend key value path t7 = Inr (st, t1) \<and> ctx_id t7 = ctx_id t5 + of_nat j \<and> j \<le> (1 :: nat)"
    proof (cases "is_root n5")
      case True
      with s(5) obtain r t6 t7 where j: "BptNode_join p q t5 = Inr (r, t6)" "CollectUnsavedTreeNode r (t6\<lparr>root := r\<rparr>) = Inr t7"
        "insert_ascend key value path t7 = Inr (st, t1)" by (auto simp: bindR_Inr_iff)
      have "ctx_id t7 = ctx_id t5 + of_nat 1" using join_ctx [OF j(1)] collect_ctx [OF j(2)] by simp
      with j(3) show ?thesis by blast
    next
      case False
      with s(5) obtain r t6 where j: "AddChild r q t5 = Inr t6" "insert_ascend key value path t6 = Inr (st, t1)"
        by (auto simp: bindR_Inr_iff split: option.splits)
      have "ctx_id t6 = ctx_id t5 + of_nat 0" using AddChild_ctx [OF j(1)] by simp
      with j(2) show ?thesis by blast
    qed
    then obtain t7 j where t7: "insert_ascend key value path t7 = Inr (st, t1)" "ctx_id t7 = ctx_id t5 + of_nat j" "j \<le> (1 :: nat)" by blast
    from Cons.IH [OF t7(1)] obtain m where "m \<le> 2 * length path" "ctx_id t1 = ctx_id t7 + of_nat m" by blast
    then show ?thesis using c5 t7(2,3) by (intro exI [of _ "m + j + 1"]) (simp add: add.commute add.left_commute)
  qed
qed (simp add: insert_ascend.simps exI [of _ 0])

lemma insert_ascend_retag:
  assumes "insert_ascend key value path t = Inr (st, t1)" "ctx_id t1 = ctx_id t" "2 * length path < 2 ^ 64"
  shows "insert_ascend key value path (retag c d t) = Inr (st, retag c d t1)"
proof -
  obtain m where m: "m \<le> 2 * length path" "ctx_id t1 = ctx_id t + of_nat m"
    "m = 0 \<longrightarrow> insert_ascend key value path (retag c d t) = Inr (st, retag c d t1)"
    using insert_ascend_count [OF assms(1)] by blast
  from m(2) assms(2) have "(of_nat m :: u64) = 0" by simp
  then have "2 ^ 64 dvd m" by (simp add: word_of_nat_eq_0_iff)
  with m(1) assms(3) have "m = 0" by (auto dest: dvd_imp_le)
  with m(3) show ?thesis by simp
qed

text \<open>An insertion after which the counter is what it was.\<close>

lemma insert_retag:
  assumes run: "Bptree_Insert kv pb key value t = Inr (st, t1)" and same: "ctx_id t1 = ctx_id t"
    and path: "insert_descend kv pb key (next_ptr t + 2) (root t) [root t] t = Inr (C_OK, path, t2)"
      "ctx_id t2 = ctx_id t" "length path \<le> 2"
  shows "Bptree_Insert kv pb key value (retag c d t) = Inr (st, retag c d t1)"
proof -
  have "insert_descend kv pb key (next_ptr t + 2) (root t) [root t] (retag c d t) = Inr (C_OK, path, retag c d t2)"
    by (rule insert_descend_retag [OF path(1,2)])
  moreover obtain n st3 n3 where n: "deref t2 (hd path) = Inr n" "BptNode_Insert key value n = Inr (st3, n3)"
    "(if st3 \<noteq> C_OK then Inr (st3, put (hd path) n3 t2) else insert_ascend key value path (put (hd path) n3 t2)) = Inr (st, t1)"
    using run path(1) by (auto simp: Bptree_Insert_def bindR_Inr_iff Let_def)
  moreover have "insert_ascend key value path (retag c d (put (hd path) n3 t2)) = Inr (st, retag c d t1)" if "st3 = C_OK"
    by (rule insert_ascend_retag) (use n(3) that same path(2,3) in simp_all)
  ultimately show ?thesis by (auto simp: Bptree_Insert_def Let_def split: if_splits)
qed

section \<open>Leaves without values\<close>

lemma slim_add:
  assumes "slim n" "is_leaf n" "kvs n = es" "es \<noteq> []" "k \<notin> fst ` set es" "length es < 2 ^ 64 - 1"
  shows "slim (UpdateStatByAddKV k [] (with_kv k [] n))"
proof -
  let ?es = "smap_emplace k [] es"
  have l: "length ?es = Suc (length es)" by (rule length_emplace [OF assms(5)])
  have "length ?es < 2 ^ 64" "length ?es \<noteq> 1" using l assms(4,6) by simp_all
  then have "of_nat (length ?es) \<noteq> (1 :: u64)" using of_nat_eq_1 by metis
  then show ?thesis using assms(1-3)
    by (simp add: slim_def UpdateStatByAddKV_def with_kv_def Let_def len64_def)
qed

lemma slim_no_split:
  assumes "slim n" "is_leaf n" "length (min_key (stat n)) \<le> 100" "length (max_key (stat n)) \<le> 100"
  shows "\<not> NeedSplit n"
proof -
  have u: "unat (len64 (min_key (stat n))) \<le> 100" "unat (len64 (max_key (stat n))) \<le> 100"
    using assms(3,4) by (simp_all add: len64_def unat_of_nat)
  have "unat (node_size (stat n)) \<le> 220"
    using assms(1,2) u by (simp add: slim_def unat_word_ariths)
  then have "node_size (stat n) \<le> bptree_max_node_size" by (simp add: bptree_max_node_size_def word_le_nat_alt)
  then show ?thesis by (simp add: NeedSplit_def not_less)
qed

section \<open>Slim trees\<close>

text \<open>The references to such leaves that the record of the root has.\<close>

definition slim_ref :: "BptNodeRefProto \<Rightarrow> bool" where
  "slim_ref r \<longleftrightarrow> sp_node_size (rp_stat r) = len64 (sp_min_key (rp_stat r)) + len64 (sp_max_key (rp_stat r)) + 20"

definition slim_stored :: "proto_ops \<Rightarrow> (bytes \<rightharpoonup> bytes) \<Rightarrow> tree_schema \<Rightarrow> bool" where
  "slim_stored pb m sc \<longleftrightarrow> (\<forall>refs. stored_root pb m sc refs \<longrightarrow> list_all slim_ref refs)"

lemma slim_tree_put: "slim_tree t \<Longrightarrow> slim n \<Longrightarrow> slim_tree (put p n t)"
  by (simp add: slim_tree_def)

lemma slim_tree_heap: "heap t = heap t' \<Longrightarrow> slim_tree t = slim_tree t'"
  by (simp add: slim_tree_def)

lemma slim_inner: "\<not> is_leaf n \<Longrightarrow> slim n"
  by (simp add: slim_def)

lemma create_refs_slim: "list_all slim_ref rs \<Longrightarrow> slim_tree t \<Longrightarrow> slim_tree (snd (create_refs p rs t))"
proof (induction rs arbitrary: t)
  case (Cons r rs)
  have "slim (BptNode_ref p r)" using Cons.prems(1) by (simp add: slim_def slim_ref_def BptNode_ref_def)
  then have "slim_tree (snd (create_node (BptNode_ref p r) t))"
    using slim_tree_put [OF Cons.prems(2)] by (simp add: create_node_def slim_tree_def)
  from Cons.IH [OF _ this] Cons.prems(1) show ?case by (simp add: split_beta Let_def)
qed simp

lemma slim_tree_loaded: "slim_tree t \<Longrightarrow> heap t p = Some n \<Longrightarrow> slim_tree (loaded p es t)"
  by (simp add: slim_tree_def heap_loaded slim_def)

context bpt_env
begin

lemma open_slim:
  assumes "stored_tree pb (contents s) sc ls" "slim_stored pb (contents s) sc" "open_index kv pb sc s = Inr t"
  shows "slim_tree t"
proof -
  obtain refs where refs: "stored_root pb (contents s) sc refs \<or> refs = [] \<and> contents s (node_key sc (ts_root_id sc)) = None"
    using assms(1) unfolding stored_tree_def by blast
  let ?rn = "\<lparr>node_id = ts_root_id sc, is_loaded = True, is_leaf = False, is_root = True,
    parent = None, children = [], kvs = [], write_kvs = Map.empty, stat = root_stat []\<rparr>"
  let ?t1 = "\<lparr>heap = [0 \<mapsto> ?rn], next_ptr = 1, unsaved = [], ctx_id = ts_tree_id sc, schema = sc, storage = s, root = 0\<rparr>"
  have b: "BptNode_root \<lparr>np_id = ts_root_id sc, np_children = []\<rparr>
      \<lparr>heap = Map.empty, next_ptr = 0, unsaved = [], ctx_id = ts_tree_id sc, schema = sc, storage = s, root = 0\<rparr> = (0, ?t1)"
    by (simp add: BptNode_root_def create_node_def Let_def put_def)
  have t1: "slim_tree ?t1" by (simp add: slim_tree_def slim_def)
  show ?thesis
  proof (cases "contents s (node_key sc (ts_root_id sc))")
    case None
    then have "t = ?t1" using assms(3) unfolding open_index_def Let_def b by (simp add: LoadTreeNode_def GetKV_miss)
    with t1 show ?thesis by simp
  next
    case (Some v)
    with refs have v: "v = ser_node pb \<lparr>np_id = ts_root_id sc, np_children = refs\<rparr>" and st: "stored_root pb (contents s) sc refs"
      by (auto simp: stored_root_def)
    have g: "GetKV kv (node_key sc (ts_root_id sc)) [] s = Inr (C_OK, v)" by (rule GetKV_hit [OF Some])
    have l: "list_all slim_ref refs" using assms(2) st by (simp add: slim_stored_def)
    obtain ps t2 where c: "create_refs 0 refs ?t1 = (ps, t2)" by fastforce
    have "t = (put 0 (?rn\<lparr>children := ps\<rparr>) t2)\<lparr>root := 0\<rparr>"
      using assms(3) c unfolding open_index_def Let_def b by (simp add: LoadTreeNode_def g v Deserialize_def deref_def)
    moreover have "slim_tree t2" using create_refs_slim [OF l t1, of 0] c by simp
    ultimately show ?thesis by (simp add: slim_tree_def slim_def)
  qed
qed

lemma clean_slim:
  assumes clean: "tree_clean pb contents t ls" and slim: "slim_tree t"
  shows "slim_stored pb (contents (storage t)) (schema t)"
  unfolding slim_stored_def
proof (intro allI impI)
  fix refs assume st: "stored_root pb (contents (storage t)) (schema t) refs"
  obtain rn where rn: "root_saved pb (contents (storage t)) t rn" "list_all2 (leaf_ok pb (contents (storage t)) t) (children rn) ls"
    using clean by (auto simp: tree_clean_def elim!: tree_invE)
  have "unsaved t = []" using clean by (simp add: tree_clean_def)
  with rn(1) st have "ser_node pb \<lparr>np_id = ts_root_id (schema t), np_children = refs\<rparr> =
      ser_node pb \<lparr>np_id = ts_root_id (schema t), np_children = root_refs t (children rn)\<rparr>"
    by (auto simp: root_saved_def stored_root_def)
  then have refs: "refs = root_refs t (children rn)" by (auto dest: ser_node_inj)
  have "slim_ref (NodeRef (the (heap t p)))" if p: "p \<in> set (children rn)" for p
  proof -
    obtain es where "leaf_ok pb (contents (storage t)) t p es" using list_all2_in [OF rn(2) p] by blast
    then obtain n where "heap t p = Some n" "is_leaf n" by (auto simp: leaf_ok_def leaf_shape_def)
    then show ?thesis using slim by (auto simp: slim_tree_def slim_def slim_ref_def NodeRef_def)
  qed
  then show "list_all slim_ref refs" by (simp add: refs root_refs_def list_all_iff)
qed

text \<open>A new entry of an index that was opened with any counter, or with the right one when it is empty.\<close>

lemma index_insert:
  assumes clean: "tree_clean pb contents t ls" and slim: "slim_tree t" and key: "k \<notin> fst ` set (concat ls)"
    and short: "length k \<le> 100" "\<forall>e \<in> set (concat ls). length (fst e) \<le> 100"
    and room: "length (concat ls) < 2 ^ 64 - 2" "ls = [] \<Longrightarrow> unat (ctx_id t) < 2 ^ 64 - 1"
    and d: "ls = [] \<Longrightarrow> retag d d t = t"
  obtains t' e ls' where "Bptree_Insert kv pb k [] (retag d d t) = Inr (C_OK, retag e d t')"
    "tree_inv pb contents t' ls'" "concat ls' = smap_emplace k [] (concat ls)" "storage t' = storage t" "schema t' = schema t"
    "slim_tree t'"
proof (cases "ls = []")
  case True
  have kv: "length k \<le> max_key_len" "length ([] :: bytes) < 2 ^ 32" using short(1) by (simp_all add: max_key_len_def)
  have inv: "tree_inv pb contents t []" using clean True by (simp add: tree_clean_def)
  then obtain rn where rn: "heap t (root t) = Some rn" "children rn = []" by (elim tree_invE) auto
  obtain t' where t': "Bptree_Insert kv pb k [] t = Inr (C_OK, t')" "tree_inv pb contents t' [[(k, [])]]"
    "storage t' = storage t" "schema t' = schema t" "slim_tree t'"
    by (rule insert_first [OF inv rn kv room(2) [OF True], of kv]) (use slim in blast)
  have "ts_tree_id (schema t) = d" using arg_cong [OF d [OF True], of "\<lambda>t. ts_tree_id (schema t)"] by simp
  then have "retag (ctx_id t') d t' = t'" using retag_same [of t'] t'(4) by simp
  with t' True d [OF True] show thesis by (intro that [of "ctx_id t'" t' "[[(k, [])]]"]) simp_all
next
  case False
  obtain LA es LC rn A p C n where i: "ls = LA @ es # LC" "below LA k" "above k LC" "k \<notin> fst ` set es"
    "heap (loaded p es t) (root (loaded p es t)) = Some rn" "children rn = A @ p # C" "length A = length LA"
    "heap t p = Some n" "heap (loaded p es t) p = Some (loaded_node es n)" "tree_inv pb contents (loaded p es t) (LA @ es # LC)"
    "Bptree_Insert kv pb k [] t = insert_ascend k [] [p, root (loaded p es t)] (put p (with_kv k [] (loaded_node es n)) (loaded p es t))"
    "insert_descend kv pb k (next_ptr t + 2) (root t) [root t] t = Inr (C_OK, [p, root t], loaded p es t)"
    by (rule insert_to_leaf [OF clean_safe [OF clean] key False])
  have kv: "length k \<le> max_key_len" "length ([] :: bytes) < 2 ^ 32" using short(1) by (simp_all add: max_key_len_def)
  let ?t = "loaded p es t" and ?n = "loaded_node es n"
  let ?n3 = "UpdateStatByAddKV k [] (with_kv k [] ?n)"
  from childE [OF i(10,5-7)] i(9) have sh: "leaf_shape (root t) ?n es" by (metis option.inject loaded_simps(6))
  have lenes: "length es < 2 ^ 64 - 1" using room(1) i(1) by simp
  have st: "slim_tree ?t" by (rule slim_tree_loaded [OF slim i(8)])
  have n3: "slim ?n3"
    by (rule slim_add [where es = es]) (use st i(4,9) sh lenes in \<open>simp_all add: slim_tree_def leaf_shape_def\<close>)
  have sh3: "leaf_shape (root t) ?n3 (smap_emplace k [] es)"
    by (rule add_kv_shape [OF sh]) (use kvs_ok_smap [OF kvs_ok_concat [OF tree_inv_concat [OF i(10)]]] i(4) lenes in simp_all)
  have l3: "length (fst e) \<le> 100" if "e \<in> set (smap_emplace k [] es)" for e
    using that set_emplace [of k "[]" es] short i(1) by auto
  have ns: "\<not> NeedSplit ?n3"
    by (rule slim_no_split [OF n3]) (use sh3 l3 in \<open>auto simp: leaf_shape_def\<close>)
  have kn: "kvs ?n = es" by simp
  obtain t' rn' where t': "insert_ascend k [] [p, root ?t] (put p (with_kv k [] ?n) ?t) = Inr (C_OK, t')"
    "tree_inv pb contents t' (LA @ smap_emplace k [] es # LC)" "storage t' = storage ?t" "schema t' = schema ?t"
    "ctx_id t' = ctx_id ?t" "heap t' (root t') = Some rn'" "heap t' p = Some ?n3" "root_shape (schema ?t) rn'"
    "\<And>x. x \<noteq> p \<Longrightarrow> x \<noteq> root t' \<Longrightarrow> heap t' x = heap ?t x"
    by (rule insert_nosplit [OF i(10,5-7,9) kn i(2-4) kv lenes ns]) blast
  have run: "Bptree_Insert kv pb k [] t = Inr (C_OK, t')" using i(11) t'(1) by simp
  have ctx: "ctx_id t' = ctx_id t" "ctx_id ?t = ctx_id t" using t'(5) by simp_all
  have "Bptree_Insert kv pb k [] (retag d d t) = Inr (C_OK, retag d d t')"
    by (rule insert_retag [OF run ctx(1) i(12) ctx(2)]) simp
  moreover have "slim n'" if "heap t' x = Some n'" for x n'
  proof -
    have "slim rn'" using t'(8) by (simp add: root_shape_def slim_inner)
    then show ?thesis using that st n3 t'(6,7) t'(9) [of x] by (cases "x = p"; cases "x = root t'") (auto simp: slim_tree_def)
  qed
  then have "slim_tree t'" by (simp add: slim_tree_def)
  moreover have "concat (LA @ smap_emplace k [] es # LC) = smap_emplace k [] (concat ls)"
    unfolding i(1) by (rule concat_emplace [OF i(2,3)])
  ultimately show thesis using t'(2-4) \<open>slim_tree t'\<close> by (intro that [of d t' "LA @ smap_emplace k [] es # LC"]) simp_all
qed

end

end
