(* ===== verification/TableGrowth.thy ===== *)
theory TableGrowth
  imports SelectTheorems IndexGrowth
begin

text \<open>
  The rows of a table over many statements. Every statement opens the index with the node counter of the
  descriptor, which is the one of the time when the table was created; the invariant \<open>live_table\<close> is
  what an \<open>INSERT\<close> keeps all the same.
\<close>

section \<open>More operations and the counter\<close>

lemma save_nodes_retag:
  "pull_nodes kv pb us (retag c d t) = retag2 c d (pull_nodes kv pb us t)"
proof (induction us arbitrary: t)
  case (Cons u us)
  obtain i p where u: "u = (i, p)" by (cases u)
  have ser: "Serialize pb n (retag c d t) = Serialize pb n t" for n by (simp add: Serialize_def)
  have sto: "(retag c d t)\<lparr>storage := s\<rparr> = retag c d (t\<lparr>storage := s\<rparr>)" for s by (simp add: retag_def)
  have "DumpTreeNode kv pb (schema (retag c d t)) i p (retag c d t) = retag2 c d (DumpTreeNode kv pb (schema t) i p t)"
    by (auto simp: DumpTreeNode_def ser sto retag_of_bind intro!: bindR_eqI)
  then show ?case by (auto simp: u retag_of_bind Cons.IH intro!: bindR_eqI)
qed simp

lemma save_retag: "PullUnsavedTreeNode kv pb (retag c d t) = retag1 c d (PullUnsavedTreeNode kv pb t)"
proof -
  have u: "(retag c d t)\<lparr>unsaved := us\<rparr> = retag c d (t\<lparr>unsaved := us\<rparr>)" for us and t :: "'a tree" by (simp add: retag_def)
  show ?thesis
    by (auto simp: PullUnsavedTreeNode_def save_nodes_retag retag1_def bindR_def u split: sum.split)
qed

lemma insert_ascend_ok: "insert_ascend key value path t = Inr (st, t1) \<Longrightarrow> st = C_OK"
proof (induction path arbitrary: t)
  case (Cons p path)
  from Cons.prems show ?case
    by (subst (asm) insert_ascend.simps) (auto simp: bindR_Inr_iff split: if_splits option.splits dest: Cons.IH)
qed (simp add: insert_ascend.simps)

text \<open>A refused insertion.\<close>

lemma insert_refused_retag:
  assumes run: "Bptree_Insert kv pb key value t = Inr (st, t1)" "st \<noteq> C_OK" and same: "ctx_id t1 = ctx_id t"
  shows "Bptree_Insert kv pb key value (retag c d t) = Inr (st, retag c d t1)"
proof -
  obtain st2 path t2 where desc: "insert_descend kv pb key (next_ptr t + 2) (root t) [root t] t = Inr (st2, path, t2)"
    and rest: "(if st2 \<noteq> C_OK then Inr (st2, t2)
       else bindR (deref t2 (hd path)) (\<lambda>n. bindR (BptNode_Insert key value n) (\<lambda>(st1, n1).
         let t3 = put (hd path) n1 t2 in
         if st1 \<noteq> C_OK then Inr (st1, t3) else insert_ascend key value path t3))) = Inr (st, t1)"
    using run(1) by (auto simp: Bptree_Insert_def bindR_Inr_iff)
  show ?thesis
  proof (cases "st2 = C_OK")
    case False
    with rest have t2: "st2 = st" "t2 = t1" by simp_all
    show ?thesis using insert_descend_retag [OF desc [unfolded t2] same] False t2 by (simp add: Bptree_Insert_def)
  next
    case True
    with rest obtain n st3 n3 where n: "deref t2 (hd path) = Inr n" "BptNode_Insert key value n = Inr (st3, n3)"
      "(if st3 \<noteq> C_OK then Inr (st3, put (hd path) n3 t2) else insert_ascend key value path (put (hd path) n3 t2)) = Inr (st, t1)"
      by (auto simp: bindR_Inr_iff Let_def)
    have r: "st3 = st" "t1 = put (hd path) n3 t2" using n(3) run(2) by (auto split: if_splits dest: insert_ascend_ok)
    then have "ctx_id t2 = ctx_id t" using same by simp
    from insert_descend_retag [OF desc this] True n(1,2) r run(2) show ?thesis by (simp add: Bptree_Insert_def)
  qed
qed

section \<open>The stored rows of a table\<close>

text \<open>The storage holds these rows in the order of their keys; the node counter \<open>c\<close> is the one the
  tree was saved with.\<close>

definition stored_with :: "u64 \<Rightarrow> proto_ops \<Rightarrow> (bytes \<rightharpoonup> bytes) \<Rightarrow> TableInfo \<Rightarrow> nat \<Rightarrow> expr_value list list \<Rightarrow> bool" where
  "stored_with c pb m t k rows \<longleftrightarrow>
     single_index t k \<and> stored_rows m t k rows \<and>
     (\<exists>ls. stored_tree pb m ((index_schema t (hd (index_list t)))\<lparr>ts_tree_id := c\<rparr>) ls \<and> concat ls = entries_of k rows)"

definition table_stored :: "proto_ops \<Rightarrow> (bytes \<rightharpoonup> bytes) \<Rightarrow> TableInfo \<Rightarrow> nat \<Rightarrow> expr_value list list \<Rightarrow> bool" where
  "table_stored pb m t k rows \<longleftrightarrow> (\<exists>c. stored_with c pb m t k rows)"

lemma stored_with_sorted:
  assumes "stored_with c pb m t k rows"
  shows "sorted_wrt (<) (map (entry_key k) rows)"
proof -
  obtain ls where "kvs_ok (concat ls)" "concat ls = entries_of k rows"
    using assms unfolding stored_with_def stored_tree_def by blast
  then show ?thesis by (auto simp: kvs_ok_def entries_of_def comp_def strict_sorted_iff)
qed

text \<open>They are stored under keys of their own.\<close>

definition own_key :: "TableInfo \<Rightarrow> nat \<Rightarrow> bytes \<Rightarrow> bool" where
  "own_key t k key \<longleftrightarrow> (\<exists>i. key = node_key (index_schema t (hd (index_list t))) i) \<or> (\<exists>vs. row_values t vs \<and> key = row_record t k vs)"

lemma stored_with_frame:
  assumes "stored_with c pb m t k rows" "\<And>key. own_key t k key \<Longrightarrow> m' key = m key"
  shows "stored_with c pb m' t k rows"
proof -
  let ?sc = "(index_schema t (hd (index_list t)))\<lparr>ts_tree_id := c\<rparr>"
  obtain ls where ls: "single_index t k" "stored_rows m t k rows" "stored_tree pb m ?sc ls" "concat ls = entries_of k rows"
    using assms(1) by (auto simp: stored_with_def)
  have n: "m' (node_key ?sc i) = m (node_key ?sc i)" for i using assms(2) by (simp add: own_key_def)
  have "stored_tree pb m' ?sc ls"
    using ls(3) unfolding stored_tree_def stored_root_def stored_leaf_def n .
  moreover have "m' (row_record t k vs) = m (row_record t k vs)" if "row_values t vs" for vs
    using assms(2) that by (auto simp: own_key_def)
  then have "stored_rows m' t k rows" using ls(2) by (simp add: stored_rows_def)
  ultimately show ?thesis using ls(1,4) by (auto simp: stored_with_def)
qed

section \<open>Live tables\<close>

text \<open>A live table: its rows are stored, the leaves of its index have entries without values, and while it is
  empty the counter of its descriptor is the one its tree was saved with. \<open>CREATE TABLE\<close> makes it, and it
  stays live while its index grows and the counter of the descriptor falls behind.\<close>

definition live_table :: "proto_ops \<Rightarrow> (bytes \<rightharpoonup> bytes) \<Rightarrow> TableInfo \<Rightarrow> nat \<Rightarrow> expr_value list list \<Rightarrow> bool" where
  "live_table pb m t k rows \<longleftrightarrow>
     slim_stored pb m (index_schema t (hd (index_list t))) \<and>
     (\<exists>c. stored_with c pb m t k rows \<and>
        (rows = [] \<longrightarrow> c = idx_max_tree_node_id (hd (index_list t)) \<and> unat c < 2 ^ 64 - 1))"

lemma live_stored: "live_table pb m t k rows \<Longrightarrow> table_stored pb m t k rows"
  by (auto simp: live_table_def table_stored_def)

lemma live_sorted: "live_table pb m t k rows \<Longrightarrow> sorted_wrt (<) (map (entry_key k) rows)"
  by (auto simp: live_table_def intro: stored_with_sorted)

lemma live_rows: "live_table pb m t k rows \<Longrightarrow> single_index t k \<and> (\<forall>vs \<in> set rows. row_values t vs)"
  by (auto simp: live_table_def stored_with_def stored_rows_def)

lemma slim_stored_counter: "slim_stored pb m (sc\<lparr>ts_tree_id := c\<rparr>) = slim_stored pb m sc"
  by (simp add: slim_stored_def stored_root_def)

lemma live_frame:
  assumes "live_table pb m t k rows" "\<And>key. own_key t k key \<Longrightarrow> m' key = m key"
  shows "live_table pb m' t k rows"
proof -
  let ?sc = "index_schema t (hd (index_list t))"
  have n: "m' (node_key ?sc i) = m (node_key ?sc i)" for i using assms(2) by (simp add: own_key_def)
  have "slim_stored pb m' ?sc = slim_stored pb m ?sc" unfolding slim_stored_def stored_root_def n by (rule refl)
  moreover have "stored_with c pb m' t k rows" if "stored_with c pb m t k rows" for c
    by (rule stored_with_frame [OF that assms(2)])
  ultimately show ?thesis using assms(1) unfolding live_table_def by blast
qed

text \<open>The effect of an \<open>INSERT\<close> on the rows: a row with the same key is replaced.\<close>

fun upsert :: "nat \<Rightarrow> expr_value list \<Rightarrow> expr_value list list \<Rightarrow> expr_value list list" where
  "upsert k vs [] = [vs]"
| "upsert k vs (ws # rows) =
     (if entry_key k vs < entry_key k ws then vs # ws # rows
      else if entry_key k vs = entry_key k ws then vs # rows else ws # upsert k vs rows)"

lemma upsert_new: "entry_key k vs \<notin> entry_key k ` set rows \<Longrightarrow> upsert k vs rows = row_emplace k vs rows"
  by (induction k vs rows rule: upsert.induct) auto

lemma upsert_taken:
  "sorted_wrt (<) (map (entry_key k) rows) \<Longrightarrow> entry_key k vs \<in> entry_key k ` set rows \<Longrightarrow>
   upsert k vs rows = map (\<lambda>ws. if entry_key k ws = entry_key k vs then vs else ws) rows"
proof (induction k vs rows rule: upsert.induct)
  case (2 k vs ws rows)
  have s: "\<forall>us \<in> set rows. entry_key k ws < entry_key k us" using 2(2) by simp
  consider "entry_key k vs = entry_key k ws" | "entry_key k ws < entry_key k vs" using 2(3) s by fastforce
  then show ?case
  proof cases
    case 1
    have "map (\<lambda>us. if entry_key k us = entry_key k vs then vs else us) rows = rows" using s 1 by (intro map_idI) auto
    with 1 show ?thesis by simp
  next
    case 2
    with "2.prems" "2.IH" show ?thesis by auto
  qed
qed simp

lemma upsert_set:
  "sorted_wrt (<) (map (entry_key k) rows) \<Longrightarrow> set (upsert k vs rows) = insert vs {ws \<in> set rows. entry_key k ws \<noteq> entry_key k vs}"
proof (induction k vs rows rule: upsert.induct)
  case (2 k vs ws rows)
  have s: "entry_key k ws < entry_key k us" if "us \<in> set rows" for us using 2(2) that by simp
  consider "entry_key k vs < entry_key k ws" | "entry_key k vs = entry_key k ws" | "entry_key k ws < entry_key k vs"
    by (rule linorder_cases)
  then show ?case
  proof cases
    case 1
    then have "entry_key k us \<noteq> entry_key k vs" if "us \<in> set (ws # rows)" for us using that s [of us] by auto
    then show ?thesis using 1 by auto
  next
    case 2
    then have "entry_key k us \<noteq> entry_key k vs" if "us \<in> set rows" for us using that s [of us] by auto
    then show ?thesis using 2 by auto
  next
    case 3
    then have n: "\<not> entry_key k vs < entry_key k ws" "entry_key k vs \<noteq> entry_key k ws" by auto
    then have e: "upsert k vs (ws # rows) = ws # upsert k vs rows" by simp
    have u: "set (upsert k vs rows) = insert vs {ws \<in> set rows. entry_key k ws \<noteq> entry_key k vs}"
      using "2.prems" by (intro "2.IH" n) simp
    show ?thesis unfolding e list.set u using n(2) by auto
  qed
qed simp

lemma length_upsert: "length (upsert k vs rows) \<le> Suc (length rows)"
  by (induction k vs rows rule: upsert.induct) auto

text \<open>What an insertion leaves alone.\<close>

definition kept_keys :: "TableInfo \<Rightarrow> nat \<Rightarrow> expr_value list \<Rightarrow> bytes set" where
  "kept_keys t k vs = {key. (\<forall>i. key \<noteq> node_key (index_schema t (hd (index_list t))) i) \<and> key \<noteq> row_record t k vs}"

lemma entry_short:
  assumes "row_values t vs" "single_index t k"
  shows "length (entry_key k vs) \<le> 100"
proof -
  note v = row_value_at [OF assms]
  have "length (value_bytes (vs ! k)) \<le> 8" by (rule value_bytes_small [OF v(2)])
  then show ?thesis by (simp add: entry_key_def)
qed

context bpt_env
begin

text \<open>The table a statement works on: the tree of its index differs in the counter from one that was loaded
  with the counter it was saved with.\<close>

lemma live_prepare:
  assumes "live_table pb (contents s) t k rows"
  obtains tb tr ls d where "Prepare kv pb (Table t s) = Inr (C_OK, tb)" "Prepare kv pb tb = Inr (C_OK, tb)"
    "table_info tb = t" "table_storage tb = s" "table_shape tb k" "table_tree tb = retag d d tr" "storage tr = s"
    "tree_clean pb contents tr ls" "slim_tree tr" "concat ls = entries_of k rows" "stored_rows (contents s) t k rows"
    "\<exists>c. schema tr = (index_schema t (hd (index_list t)))\<lparr>ts_tree_id := c\<rparr>"
    "ls = [] \<Longrightarrow> retag d d tr = tr \<and> unat (ctx_id tr) < 2 ^ 64 - 1"
proof -
  let ?sc = "index_schema t (hd (index_list t))"
  obtain c ls where c: "single_index t k" "stored_rows (contents s) t k rows" "stored_tree pb (contents s) (?sc\<lparr>ts_tree_id := c\<rparr>) ls"
    "concat ls = entries_of k rows" "rows = [] \<longrightarrow> c = idx_max_tree_node_id (hd (index_list t)) \<and> unat c < 2 ^ 64 - 1"
    "slim_stored pb (contents s) (?sc\<lparr>ts_tree_id := c\<rparr>)"
    using assms unfolding live_table_def stored_with_def slim_stored_counter by blast
  obtain tb tr d where tb: "Prepare kv pb (Table t s) = Inr (C_OK, tb)" "table_info tb = t" "table_storage tb = s"
    "table_tree tb = retag d d tr" "tree_clean pb contents tr ls" "storage tr = s"
    "open_index kv pb (?sc\<lparr>ts_tree_id := c\<rparr>) s = Inr tr" "ctx_id tr = c"
    "schema tr = ?sc\<lparr>ts_tree_id := c\<rparr>" "d = idx_max_tree_node_id (hd (index_list t))" "table_shape tb k"
    by (rule prepare_index [OF c(1,3)]) blast
  have slim: "slim_tree tr" by (rule open_slim [OF c(3,6) tb(7)])
  have again: "Prepare kv pb tb = Inr (C_OK, tb)" using tb(11) by (simp add: table_shape_def Prepare_def loadMeta_def)
  have "retag d d tr = tr \<and> unat (ctx_id tr) < 2 ^ 64 - 1" if "ls = []"
  proof -
    have "rows = []" using that c(4) by (simp add: entries_of_def)
    with c(5) have "c = idx_max_tree_node_id (hd (index_list t))" "unat c < 2 ^ 64 - 1" by blast+
    with tb(8-10) have "d = ctx_id tr" "d = ts_tree_id (schema tr)" "unat (ctx_id tr) < 2 ^ 64 - 1" by simp_all
    then show ?thesis using retag_same [of tr] by simp
  qed
  then show thesis
    by (intro that [OF tb(1) again tb(2,3,11,4,6,5) slim c(4,2)] exI [of _ c]) (simp_all only: tb(9))
qed

text \<open>Writing the record of a row.\<close>

lemma live_put:
  assumes tb: "table_info tb = t" "table_storage tb = s" "table_shape tb k" "table_tree tb = retag d d tr" "storage tr = s"
    "tree_clean pb contents tr ls" "concat ls = entries_of k rows" "stored_rows (contents s) t k rows"
    and vs: "row_values t vs"
  obtains s1 where "MPutKV kv [row_record t k vs] [tagged_bytes vs] s = Inr (C_OK, s1)"
    "contents s1 = (contents s)(row_record t k vs \<mapsto> tagged_bytes vs)"
    "table_shape (tb\<lparr>table_storage := s1\<rparr>) k" "table_tree (tb\<lparr>table_storage := s1\<rparr>) = retag d d (tr\<lparr>storage := s1\<rparr>)"
    "tree_clean pb contents (tr\<lparr>storage := s1\<rparr>) ls" "stored_rows (contents s1) t k (upsert k vs rows)"
proof -
  have si: "single_index t k" and db: "ts_db_id (schema tr) = tbl_db_id t"
    using tb(1,3,4) by (simp_all add: table_shape_def)
  obtain s1 where s1: "MPutKV kv [row_record t k vs] [tagged_bytes vs] s = Inr (C_OK, s1)"
    "contents s1 = (contents s)(row_record t k vs \<mapsto> tagged_bytes vs)"
    using MPutKV_law [of "[row_record t k vs]" "[tagged_bytes vs]" s] by auto
  have tt: "table_tree (tb\<lparr>table_storage := s1\<rparr>) = (table_tree tb)\<lparr>storage := s1\<rparr>" by (simp add: table_tree_def)
  moreover have "(retag d d tr)\<lparr>storage := s1\<rparr> = retag d d (tr\<lparr>storage := s1\<rparr>)" by (simp add: retag_def)
  moreover have "table_shape (tb\<lparr>table_storage := s1\<rparr>) k" using tb(3) by (simp add: table_shape_def tt)
  moreover have "tree_clean pb contents (tr\<lparr>storage := s1\<rparr>) ls"
    by (rule tree_clean_frame [OF tb(6)]) (use record_not_node [OF vs si db, symmetric] in \<open>simp add: s1(2) tb(5)\<close>)
  moreover have "stored_rows (contents s1) t k (upsert k vs rows)"
  proof -
    have w: "row_values t ws \<and> contents s1 (row_record t k ws) = Some (tagged_bytes ws)"
      if "ws \<in> set rows" "entry_key k ws \<noteq> entry_key k vs" for ws
    proof -
      have v: "row_values t ws" "contents s (row_record t k ws) = Some (tagged_bytes ws)" using tb(8) that(1) by (simp_all add: stored_rows_def)
      with same_row [OF v(1) vs si] that(2) show ?thesis by (simp add: s1(2))
    qed
    have "kvs_ok (concat ls)" using tb(6) by (auto simp: tree_clean_def dest: tree_inv_concat)
    then have "sorted_wrt (<) (map (entry_key k) rows)"
      unfolding tb(7) by (auto simp: kvs_ok_def entries_of_def comp_def strict_sorted_iff)
    from upsert_set [OF this, of vs] w vs show ?thesis by (auto simp: stored_rows_def s1(2))
  qed
  ultimately show thesis using that s1 tb(4) by simp
qed

lemma live_insert_new:
  assumes tb: "table_info tb = t" "table_storage tb = s" "table_shape tb k" "table_tree tb = retag d d tr" "storage tr = s"
    "tree_clean pb contents tr ls" "slim_tree tr" "concat ls = entries_of k rows" "stored_rows (contents s) t k rows"
    "schema tr = (index_schema t (hd (index_list t)))\<lparr>ts_tree_id := c0\<rparr>"
    "ls = [] \<Longrightarrow> retag d d tr = tr \<and> unat (ctx_id tr) < 2 ^ 64 - 1" "Prepare kv pb tb = Inr (C_OK, tb)"
    and ord: "visits_all ord" and r: "row_object t r vs" "row_values t vs" "one_row c r"
    and new: "entry_key k vs \<notin> entry_key k ` set rows" and len: "length rows < 2 ^ 64 - 2"
  obtains tb' where "Table_Insert kv pb fo obj ord c tb = Inr (C_OK, tb')"
    "live_table pb (contents (table_storage tb')) t k (upsert k vs rows)"
    "\<And>key. key \<in> kept_keys t k vs \<Longrightarrow> contents (table_storage tb') key = contents s key"
proof -
  let ?x = "index_objs tb ! 0" and ?rows = "upsert k vs rows" and ?sc = "index_schema t (hd (index_list t))"
  have si: "single_index t k" and x: "ix_pos ?x = 0" using tb(1,3) by (simp_all add: table_shape_def)
  obtain s1 where s1: "MPutKV kv [row_record t k vs] [tagged_bytes vs] s = Inr (C_OK, s1)"
    "contents s1 = (contents s)(row_record t k vs \<mapsto> tagged_bytes vs)"
    "table_shape (tb\<lparr>table_storage := s1\<rparr>) k" "table_tree (tb\<lparr>table_storage := s1\<rparr>) = retag d d (tr\<lparr>storage := s1\<rparr>)"
    "tree_clean pb contents (tr\<lparr>storage := s1\<rparr>) ls" "stored_rows (contents s1) t k ?rows"
    by (rule live_put [OF tb(1-6,8,9) r(2)])
  let ?tb1 = "tb\<lparr>table_storage := s1\<rparr>" and ?tr1 = "tr\<lparr>storage := s1\<rparr>"
  have short: "\<forall>e \<in> set (concat ls). length (fst e) \<le> 100"
    using tb(9) entry_short [OF _ si] by (auto simp: tb(8) entries_of_def stored_rows_def)
  obtain t' e ls' where ins: "Bptree_Insert kv pb (entry_key k vs) [] (retag d d ?tr1) = Inr (C_OK, retag e d t')"
    "tree_inv pb contents t' ls'" "concat ls' = smap_emplace (entry_key k vs) [] (concat ls)" "storage t' = storage ?tr1"
    "schema t' = schema ?tr1" "slim_tree t'"
  proof (rule index_insert [OF s1(5) _ _ entry_short [OF r(2) si] short])
    show "slim_tree ?tr1" using tb(7) by (simp add: slim_tree_def)
    show "entry_key k vs \<notin> fst ` set (concat ls)" using new by (simp add: tb(8) keys_of_entries)
    show "length (concat ls) < 2 ^ 64 - 2" using len by (simp add: tb(8) entries_of_def)
    show "unat (ctx_id ?tr1) < 2 ^ 64 - 1" if "ls = []" using tb(11) [OF that] by simp
    show "retag d d ?tr1 = ?tr1" if "ls = []"
      using conjunct1 [OF tb(11) [OF that]] by (cases tr) (simp add: retag_def)
  qed
  let ?u = "retag e d t'"
  let ?t1 = "set_max_node (?x\<lparr>ix_tree := ?u\<rparr>) t"
  have same: "same_table t ?t1" by (rule set_max_node_same [OF si]) (simp add: x)
  have call: "Index_Insert kv pb obj c t (?x\<lparr>ix_tree := table_tree ?tb1\<rparr>) = Inr (C_OK, ?t1, ?x\<lparr>ix_tree := ?u\<rparr>)"
    using Index_Insert_object [OF r(1) si r(3), of "?x\<lparr>ix_tree := table_tree ?tb1\<rparr>" C_OK ?u obj] ins(1) x by (simp add: s1(4))
  let ?tb2 = "back_from_index ?tb1 ?t1 ?u"
  have core: "insertCore kv pb fo obj ord c tb = Inr (C_OK, ?tb2)"
    using insertCore_object [of tb r vs k c s1, unfolded tb(1,2), OF r(1) si r(3) s1(1)]
      each_index_table [OF s1(3) ord, of "Index_Insert kv pb obj c" C_OK ?t1 ?u] call by (simp add: tb(1))
  have sc: "schema ?u = schema (table_tree ?tb1)" unfolding s1(4) using ins(5) by simp
  have shape2: "table_shape ?tb2 k" by (rule table_shape_back [OF s1(3) _ sc]) (simp add: same tb(1))
  obtain tr2 where tr2: "PullUnsavedTreeNode kv pb t' = Inr tr2" "tree_clean pb contents tr2 ls'" "schema tr2 = schema t'"
    "heap tr2 = heap t'" by (rule save_ok [OF ins(2)])
  let ?tb3 = "back_from_index ?tb2 ?t1 (retag e d tr2)"
  have sub: "Submit kv pb ord ?tb2 = Inr (C_OK, ?tb3)"
    unfolding Submit_def by (rule each_index_table [OF shape2 ord]) (simp add: Index_Save_def save_retag tr2(1))
  have nk: "node_key (schema t') = node_key ?sc" using ins(5) by (simp add: tb(10))
  have frame: "contents (storage tr2) key = contents s1 key" if "\<And>i. key \<noteq> node_key ?sc i" for key
    using save_frame [OF tr2(1)] that ins(4) by (simp add: nk)
  have db: "ts_db_id ?sc = tbl_db_id t" by (simp add: index_schema_def)
  have rows: "stored_rows (contents (storage tr2)) t k ?rows"
    unfolding stored_rows_def
  proof
    fix ws assume "ws \<in> set ?rows"
    with s1(6) have w: "row_values t ws" "contents s1 (row_record t k ws) = Some (tagged_bytes ws)" by (simp_all add: stored_rows_def)
    with frame [of "row_record t k ws"] record_not_node [OF w(1) si db]
    show "row_values t ws \<and> contents (storage tr2) (row_record t k ws) = Some (tagged_bytes ws)" by simp
  qed
  have ls': "concat ls' = entries_of k ?rows" by (simp add: ins(3) tb(8) entries_emplace upsert_new [OF new])
  have ne: "?rows \<noteq> []" using arg_cong [OF length_row_emplace [OF new], of "\<lambda>n. n = 0"] by (auto simp: upsert_new [OF new])
  have sctr: "(schema tr2)\<lparr>ts_tree_id := c\<rparr> = ?sc\<lparr>ts_tree_id := c\<rparr>" for c using tr2(3) ins(5) by (simp add: tb(10))
  have "slim_stored pb (contents (storage tr2)) (schema tr2)"
    by (rule clean_slim [OF tr2(2)]) (use ins(6) tr2(4) slim_tree_heap in blast)
  then have "slim_stored pb (contents (storage tr2)) ?sc"
    using sctr slim_stored_counter by metis
  moreover have "stored_with (ctx_id tr2) pb (contents (storage tr2)) t k ?rows"
    using clean_stored [OF tr2(2)] ls' si rows unfolding stored_with_def sctr by blast
  ultimately have "live_table pb (contents (storage tr2)) t k ?rows" using ne by (auto simp: live_table_def)
  moreover have "contents (storage tr2) key = contents s key" if "key \<in> kept_keys t k vs" for key
    using that frame [of key] by (simp add: kept_keys_def s1(2))
  moreover have "Table_Insert kv pb fo obj ord c tb = Inr (C_OK, ?tb3)"
    by (simp add: Table_Insert_def then_ok_def tb(12) core sub)
  ultimately show thesis by (intro that [of ?tb3]) simp_all
qed

lemma live_insert_taken:
  assumes tb: "table_info tb = t" "table_storage tb = s" "table_shape tb k" "table_tree tb = retag d d tr" "storage tr = s"
    "tree_clean pb contents tr ls" "concat ls = entries_of k rows" "stored_rows (contents s) t k rows" "Prepare kv pb tb = Inr (C_OK, tb)"
    and live: "live_table pb (contents s) t k rows"
    and ord: "visits_all ord" and r: "row_object t r vs" "row_values t vs" "one_row c r"
    and taken: "entry_key k vs \<in> entry_key k ` set rows"
  obtains tb' where "Table_Insert kv pb fo obj ord c tb = Inr (C_BPTREE_DUPLICATE_KEY, tb')"
    "live_table pb (contents (table_storage tb')) t k (upsert k vs rows)"
    "contents (table_storage tb') = (contents s)(row_record t k vs \<mapsto> tagged_bytes vs)"
proof -
  let ?x = "index_objs tb ! 0" and ?rows = "upsert k vs rows" and ?sc = "index_schema t (hd (index_list t))"
  have si: "single_index t k" and x: "ix_pos ?x = 0" using tb(1,3) by (simp_all add: table_shape_def)
  obtain s1 where s1: "MPutKV kv [row_record t k vs] [tagged_bytes vs] s = Inr (C_OK, s1)"
    "contents s1 = (contents s)(row_record t k vs \<mapsto> tagged_bytes vs)"
    "table_shape (tb\<lparr>table_storage := s1\<rparr>) k" "table_tree (tb\<lparr>table_storage := s1\<rparr>) = retag d d (tr\<lparr>storage := s1\<rparr>)"
    "tree_clean pb contents (tr\<lparr>storage := s1\<rparr>) ls" "stored_rows (contents s1) t k ?rows"
    by (rule live_put [OF tb(1-8) r(2)])
  let ?tb1 = "tb\<lparr>table_storage := s1\<rparr>" and ?tr1 = "tr\<lparr>storage := s1\<rparr>"
  have key: "entry_key k vs \<in> fst ` set (concat ls)" using taken by (simp add: tb(7) keys_of_entries)
  obtain tr2 where i: "Bptree_Insert kv pb (entry_key k vs) [] ?tr1 = Inr (C_BPTREE_DUPLICATE_KEY, tr2)"
    "storage tr2 = storage ?tr1" "ctx_id tr2 = ctx_id ?tr1"
    by (rule insert_dup [OF clean_safe [OF s1(5)] key]) blast
  let ?u = "retag d d tr2"
  have "Bptree_Insert kv pb (entry_key k vs) [] (retag d d ?tr1) = Inr (C_BPTREE_DUPLICATE_KEY, ?u)"
    by (rule insert_refused_retag [OF i(1) _ i(3)]) simp
  then have call: "Index_Insert kv pb obj c t (?x\<lparr>ix_tree := table_tree ?tb1\<rparr>) = Inr (C_BPTREE_DUPLICATE_KEY, t, ?x\<lparr>ix_tree := ?u\<rparr>)"
    using Index_Insert_object [OF r(1) si r(3), of "?x\<lparr>ix_tree := table_tree ?tb1\<rparr>" C_BPTREE_DUPLICATE_KEY ?u obj] x by (simp add: s1(4))
  let ?tb2 = "back_from_index ?tb1 t ?u"
  have core: "insertCore kv pb fo obj ord c tb = Inr (C_BPTREE_DUPLICATE_KEY, ?tb2)"
    using insertCore_object [of tb r vs k c s1, unfolded tb(1,2), OF r(1) si r(3) s1(1)]
      each_index_table [OF s1(3) ord, of "Index_Insert kv pb obj c" C_BPTREE_DUPLICATE_KEY t ?u] call by (simp add: tb(1))
  have st: "table_storage ?tb2 = s1" using i(2) by simp
  have sorted: "sorted_wrt (<) (map (entry_key k) rows)" by (rule live_sorted [OF live])
  have entries: "entries_of k ?rows = entries_of k rows" by (simp add: upsert_taken [OF sorted taken] entries_of_def)
  have ne: "?rows \<noteq> []" using upsert_set [OF sorted, of vs] by auto
  have db: "ts_db_id ?sc = tbl_db_id t" by (simp add: index_schema_def)
  have n: "contents s1 (node_key ?sc i) = contents s (node_key ?sc i)" for i
    using record_not_node [OF r(2) si db, of i] by (simp add: s1(2))
  have "stored_with c pb (contents s1) t k ?rows" if "stored_with c pb (contents s) t k rows" for c
    using that s1(6) unfolding stored_with_def entries stored_tree_def stored_root_def stored_leaf_def node_key_tree_id n by blast
  moreover have "slim_stored pb (contents s1) ?sc = slim_stored pb (contents s) ?sc"
    unfolding slim_stored_def stored_root_def n by (rule refl)
  ultimately have "live_table pb (contents s1) t k ?rows" using live ne unfolding live_table_def by blast
  moreover have "Table_Insert kv pb fo obj ord c tb = Inr (C_BPTREE_DUPLICATE_KEY, ?tb2)"
    by (simp add: Table_Insert_def then_ok_def tb(9) core)
  ultimately show thesis by (intro that [of ?tb2]) (simp_all only: st s1(2))
qed

end

end
