(* ===== verification/StatementTheorems.thy ===== *)
theory StatementTheorems
  imports TableGrowth
begin

text \<open>
  Statements over the stored state of the database: the plans of INSERT and SELECT, run by the
  scheduler, keep and print the rows of a table.
\<close>

section \<open>The INSERT statement\<close>

definition insert_plan :: "RelOptTable \<Rightarrow> expr_node option list list \<Rightarrow> plan" where
  "insert_plan rt es = RelNode (PhysicalInsert \<lparr>insert_table = rt, expr_nodes = es\<rparr>) []"

definition insert_begin :: "RelOptTable \<Rightarrow> expr_node option list list \<Rightarrow> TableInfo \<Rightarrow> 's \<Rightarrow> 's insert_exec" where
  "insert_begin rt es t s =
     \<lparr>ix_plan = \<lparr>insert_table = rt, expr_nodes = es\<rparr>, ix_table = Table t s, ix_row_desc = ToRowDesc t, ix_chunk = 0\<rparr>"

lemma insert_plan_run:
  assumes "rel_table rt = Some t"
  shows "ExecutePlan en (insert_plan rt es) s out =
    bindR (Insert_Consume en (insert_begin rt es t s) Chunk) (\<lambda>(st, x, c). Inr (st, table_storage (ix_table x), out))"
proof -
  let ?rt = "\<lparr>exec_objs = [\<lparr>exec = InsertExec (insert_begin rt es t s), inputs = [], outputs = []\<rparr>],
    caches = [], chunk_objs = [Chunk], rt_storage = s, cout = out\<rparr>"
  have a: "graph_ToExecutor (insert_plan rt es) (Runtime s out, []) = Inr (0, ?rt, [0])"
    by (simp add: insert_plan_def insert_begin_def Runtime_def ToExecutor_def new_chunk_def new_exec_def Let_def assms)
  have "\<exists>g. Graph_Init (insert_plan rt es) (Runtime s out) = Inr (g, ?rt) \<and> executors g = [0]"
    by (simp add: Graph_Init_def initExecutors_def a initNodes_def initEdges_def Let_def upt_conv_Cons Node_def)
  then obtain g where g: "Graph_Init (insert_plan rt es) (Runtime s out) = Inr (g, ?rt)" "executors g = [0]" by (elim exE conjE)
  have x: "(insert_begin rt es t s)\<lparr>ix_table := (ix_table (insert_begin rt es t s))\<lparr>table_storage := s\<rparr>\<rparr> = insert_begin rt es t s"
    "(insert_begin rt es t s)\<lparr>ix_chunk := 0\<rparr> = insert_begin rt es t s" "ix_chunk (insert_begin rt es t s) = 0"
    by (simp_all add: insert_begin_def Table_def)
  have "exec_Prepare 0 ?rt = Inr (kFinished, ?rt)"
    by (simp add: exec_Prepare_def sink_Prepare_def put_exec_def x)
  moreover have "exec_Work en 0 ?rt = bindR (Insert_Consume en (insert_begin rt es t s) Chunk) (\<lambda>(st, x1, c1).
      Inr (st, put_chunk 0 c1 (put_exec 0 (InsertExec x1) (?rt\<lparr>rt_storage := table_storage (ix_table x1)\<rparr>))))"
    by (simp add: exec_Work_def get_chunk_def x)
  ultimately show ?thesis
    by (simp only: ExecutePlan_def Scheduler_Run_order [OF g(1)] g(2) run_in_order.simps bindR_simps prod.case)
      (cases "Insert_Consume en (insert_begin rt es t s) Chunk", auto)
qed

definition insert_record :: "RelOptTable \<Rightarrow> expr_value list \<Rightarrow> plan" where
  "insert_record rt vs = insert_plan rt [map (\<lambda>v. Some (LiteralExpr v)) vs]"

definition insert_start :: "RelOptTable \<Rightarrow> expr_value list \<Rightarrow> TableInfo \<Rightarrow> 's \<Rightarrow> 's insert_exec" where
  "insert_start rt vs t s = insert_begin rt [map (\<lambda>v. Some (LiteralExpr v)) vs] t s"

lemma insert_run:
  "rel_table rt = Some t \<Longrightarrow> ExecutePlan en (insert_record rt vs) s out =
    bindR (Insert_Consume en (insert_start rt vs t s) Chunk) (\<lambda>(st, x, c). Inr (st, table_storage (ix_table x), out))"
  unfolding insert_record_def insert_start_def by (rule insert_plan_run)

lemma set_record_columns:
  assumes "map desc_id (cols d) = map of_nat [0..<length (cols d)]" "j + length vs \<le> length (cols d)" "length (cols d) < 2 ^ 32"
  shows "set_record d j (map (\<lambda>v. Some (LiteralExpr v)) vs) r = set_columns (row_id d) j vs r"
  using assms(2)
proof (induction vs arbitrary: j r)
  case (Cons v vs)
  have "desc_id (cols d ! j) = of_nat j"
    using arg_cong [OF assms(1), of "\<lambda>xs. xs ! j"] Cons.prems by simp
  moreover have "GetColumnDesc (of_nat j) d = Inr (cols d ! j)"
    using Cons.prems assms(3) by (simp add: GetColumnDesc_def unat_of_nat)
  ultimately show ?case using Cons.IH [of "Suc j"] Cons.prems by (auto intro!: bindR_cong)
qed simp

lemma record_object:
  assumes v: "row_values t vs" and t: "single_index t k"
  obtains r where "set_record (ToRowDesc t) 0 (map (\<lambda>v. Some (LiteralExpr v)) vs) (Row (ToRowDesc t)) = Inr r" "row_object t r vs"
proof -
  note e = empty_row [OF t]
  have l: "length vs = length (column_list t)" using v unfolding row_values_def by (metis length_map)
  have n: "length (column_list t) < 2 ^ 24" "columns_numbered t" using t by (simp_all add: single_index_def)
  have "map desc_id (cols (ToRowDesc t)) = map ((ucast :: u64 \<Rightarrow> u32) \<circ> of_nat) [0..<length (column_list t)]"
    using arg_cong [OF n(2) [unfolded columns_numbered_def], of "map (ucast :: u64 \<Rightarrow> u32)"] by (simp add: ToRowDesc_ids comp_def)
  also have "\<dots> = map of_nat [0..<length (column_list t)]"
    using n(1) by (auto simp: comp_def word_unat_eq_iff unsigned_ucast_eq take_bit_eq_mod unat_of_nat)
  finally have ids: "map desc_id (cols (ToRowDesc t)) = map of_nat [0..<length (cols (ToRowDesc t))]" by (simp add: e(2))
  have num: "\<forall>j < length vs. number (vs ! j) \<and> ev_type (vs ! j) = desc_type (cols (ToRowDesc t) ! (0 + j))"
    using v e(4) [OF v] by (auto simp: row_values_def)
  have "\<exists>r1. set_columns (row_id (ToRowDesc t)) 0 vs (Row (ToRowDesc t)) = Inr r1 \<and> row_ok r1 \<and> row_desc r1 = ToRowDesc t \<and>
    (\<forall>j < 0. row_holds r1 j (undefined j)) \<and> (\<forall>j < length vs. row_holds r1 (0 + j) (vs ! j))"
    by (rule set_columns_hold [OF e(1) _ _ _ num]) (use n(1) l e(2) in \<open>simp_all add: Row_def\<close>)
  then obtain r1 where r1: "set_columns (row_id (ToRowDesc t)) 0 vs (Row (ToRowDesc t)) = Inr r1" "row_ok r1"
    "row_desc r1 = ToRowDesc t" "\<forall>j < length vs. row_holds r1 j (vs ! j)" by auto
  have "map ev_type vs = map desc_type (cols (ToRowDesc t))"
    by (rule nth_equalityI) (use l e(2) num in simp_all)
  then have "row_object t r1 vs" using r1 num by (simp add: row_object_def row_has_def)
  moreover have "set_record (ToRowDesc t) 0 (map (\<lambda>v. Some (LiteralExpr v)) vs) (Row (ToRowDesc t)) = Inr r1"
    using set_record_columns [OF ids, of 0 vs] l e(2) n(1) r1(1) by simp
  ultimately show thesis using that by blast
qed

context bpt_env
begin

text \<open>The scheduler hands the chunk with the one row to the table.\<close>

lemma insert_table_call:
  assumes v: "row_values t vs" and t: "single_index t k" "rel_table rt = Some t"
    and en: "en_kv en = kv" "en_pb en = pb"
    and prep: "Prepare kv pb (Table t s) = Inr (C_OK, tb)" "Prepare kv pb tb = Inr (C_OK, tb)"
  obtains r c where "row_object t r vs" "one_row c r"
    "\<And>st tb'. Table_Insert kv pb (en_fo en) (en_obj en) (en_ord en) c tb = Inr (st, tb') \<Longrightarrow>
      ExecutePlan en (insert_record rt vs) s out = Inr (C_OK, table_storage tb', out)"
proof -
  obtain r where r: "set_record (ToRowDesc t) 0 (map (\<lambda>v. Some (LiteralExpr v)) vs) (Row (ToRowDesc t)) = Inr r" "row_object t r vs"
    by (rule record_object [OF v t(1)])
  let ?c = "AddRow r (SetRowDesc (ToRowDesc t) Chunk)"
  have c: "one_row ?c r" by (simp add: one_row_def AddRow_def SetRowDesc_def Chunk_def)
  have none: "chunk_row_desc Chunk = None" by (simp add: Chunk_def)
  have same: "Table_Insert kv pb fo obj ord ?c (Table t s) = Table_Insert kv pb fo obj ord ?c tb" for fo obj ord
    by (simp add: Table_Insert_def then_ok_def prep)
  have "ExecutePlan en (insert_record rt vs) s out = Inr (C_OK, table_storage tb', out)"
    if "Table_Insert kv pb (en_fo en) (en_obj en) (en_ord en) ?c tb = Inr (st, tb')" for st tb'
    using that by (simp add: insert_run [OF t(2)] Insert_Consume_def insert_start_def insert_begin_def none r(1) en same Let_def)
  with r(2) c that show thesis by blast
qed

text \<open>The statement on a live table, whether its key is new or taken.\<close>

lemma insert_statement_live:
  assumes live: "live_table pb (contents s) t k rows" and v: "row_values t vs" and rt: "rel_table rt = Some t"
    and en: "en_kv en = kv" "en_pb en = pb" "visits_all (en_ord en)"
    and len: "entry_key k vs \<notin> entry_key k ` set rows \<Longrightarrow> length rows < 2 ^ 64 - 2"
  obtains s' where "ExecutePlan en (insert_record rt vs) s out = Inr (C_OK, s', out)"
    "live_table pb (contents s') t k (upsert k vs rows)"
    "\<And>key. key \<in> kept_keys t k vs \<Longrightarrow> contents s' key = contents s key"
    "entry_key k vs \<in> entry_key k ` set rows \<Longrightarrow> contents s' = (contents s)(row_record t k vs \<mapsto> tagged_bytes vs)"
proof -
  obtain tb tr ls d c0 where tb: "Prepare kv pb (Table t s) = Inr (C_OK, tb)" "Prepare kv pb tb = Inr (C_OK, tb)"
    "table_info tb = t" "table_storage tb = s" "table_shape tb k" "table_tree tb = retag d d tr" "storage tr = s"
    "tree_clean pb contents tr ls" "slim_tree tr" "concat ls = entries_of k rows" "stored_rows (contents s) t k rows"
    "schema tr = (index_schema t (hd (index_list t)))\<lparr>ts_tree_id := c0\<rparr>"
    "ls = [] \<Longrightarrow> retag d d tr = tr \<and> unat (ctx_id tr) < 2 ^ 64 - 1"
    by (rule live_prepare [OF live]) blast
  have t: "single_index t k" using live_rows [OF live] by blast
  obtain r c where r: "row_object t r vs" "one_row c r"
    "\<And>st tb'. Table_Insert kv pb (en_fo en) (en_obj en) (en_ord en) c tb = Inr (st, tb') \<Longrightarrow>
      ExecutePlan en (insert_record rt vs) s out = Inr (C_OK, table_storage tb', out)"
    by (rule insert_table_call [OF v t rt en(1,2) tb(1,2)]) blast
  show thesis
  proof (cases "entry_key k vs \<in> entry_key k ` set rows")
    case True
    show thesis
      by (rule live_insert_taken [OF tb(3-8,10,11,2) live en(3) r(1) v r(2) True, where fo = "en_fo en" and obj = "en_obj en"])
        (rule that [OF r(3)], simp_all add: kept_keys_def)
  next
    case False
    show thesis
      by (rule live_insert_new [OF tb(3-13,2) en(3) r(1) v r(2) False len [OF False], where fo = "en_fo en" and obj = "en_obj en"])
        (assumption, rule that [OF r(3)], simp_all add: False)
  qed
qed

end

text \<open>One \<open>INSERT\<close> after another.\<close>

fun insert_records :: "'s env \<Rightarrow> RelOptTable \<Rightarrow> expr_value list list \<Rightarrow> 's \<Rightarrow> bytes \<Rightarrow> (status \<times> 's \<times> bytes) res" where
  "insert_records en rt [] s out = Inr (C_OK, s, out)"
| "insert_records en rt (vs # vss) s out =
     bindR (ExecutePlan en (insert_record rt vs) s out) (\<lambda>(st, s1, out1).
       if st \<noteq> C_OK then Inr (st, s1, out1) else insert_records en rt vss s1 out1)"

context bpt_env
begin

lemma insert_records_live:
  "live_table pb (contents s) t k rows \<Longrightarrow> \<forall>vs \<in> set vss. row_values t vs \<Longrightarrow> rel_table rt = Some t \<Longrightarrow>
   en_kv en = kv \<Longrightarrow> en_pb en = pb \<Longrightarrow> visits_all (en_ord en) \<Longrightarrow> length rows + length vss < 2 ^ 64 - 1 \<Longrightarrow>
   \<exists>s'. insert_records en rt vss s out = Inr (C_OK, s', out) \<and> live_table pb (contents s') t k (fold (upsert k) vss rows)"
proof (induction vss arbitrary: s rows)
  case (Cons vs vss)
  have "row_values t vs" "length rows < 2 ^ 64 - 2" using Cons.prems(2,7) by simp_all
  from insert_statement_live [OF Cons.prems(1) this(1) Cons.prems(3-6) this(2)] obtain s1 where
    s1: "ExecutePlan en (insert_record rt vs) s out = Inr (C_OK, s1, out)" "live_table pb (contents s1) t k (upsert k vs rows)"
    by metis
  from Cons.IH [OF s1(2)] Cons.prems(2-7) length_upsert [of k vs rows] s1(1) show ?case by force
qed simp

end

section \<open>Properties\<close>

text \<open>C28: Executing the plan of a query over a table with a one-column numeric primary key prints exactly the
  rows of the table whose keys are in the ranges of the scan, one line for each, in the order of
  their keys, range after range, but no more than the first 1024 of them; it ends with C_OK and
  leaves the storage as it is. The conditions of the filter have no effect, and the node counter
  in the descriptor of the table need not be the current one.\<close>

theorem select_prints_rows:
  assumes "am_storage L view pb" "en_kv en = LevelDbClient L" "en_pb en = pb"
    "table_stored pb (view s) t k rows" "rel_table (scan_table sc) = Some t" "\<forall>r \<in> set (primary_ranges sc). range_ok r"
  shows "sorted_wrt (<) (map (entry_key k) rows) \<and>
    ExecutePlan en (query_plan conds sc) s out =
      Inr (C_OK, s, out @ concat (map row_line (take 1024 (rows_in k (primary_ranges sc) rows))))"
proof -
  obtain c ls where st: "stored_with c pb (view s) t k rows"
    "stored_tree pb (view s) ((index_schema t (hd (index_list t)))\<lparr>ts_tree_id := c\<rparr>) ls" "concat ls = entries_of k rows"
    "single_index t k" "stored_rows (view s) t k rows"
    using assms(4) by (auto simp: table_stored_def stored_with_def)
  show ?thesis
    using bpt_env.query_prints [OF am_storage.env [OF assms(1)] assms(2,3) st(4) assms(5) st(2,3,5) assms(6)]
      stored_with_sorted [OF st(1)] by blast
qed

text \<open>A database in memory.\<close>

definition mem_env :: "(bytes \<rightharpoonup> bytes) env" where
  "mem_env = \<lparr>en_kv = LevelDbClient mem_leveldb, en_pb = sd_proto, en_fo = no_floats, en_obj = id, en_ord = id,
     en_set = sorted_list_of_set\<rparr>"

lemma mem_env_sel [simp]:
  "en_kv mem_env = LevelDbClient mem_leveldb" "en_pb mem_env = sd_proto" "visits_all (en_ord mem_env)"
  by (simp_all add: mem_env_def visits_all_def)

definition whole_range :: index_range where
  "whole_range = \<lparr>rng_lower = \<lparr>rpt_value = [NewInt64 0], rpt_type = LEFT_CLOSE\<rparr>,
     rng_upper = \<lparr>rpt_value = [NewInt64 9223372036854775807], rpt_type = RIGHT_OPEN\<rparr>, lower_str = [], upper_str = []\<rparr>"

definition two_columns_scan :: TableScan where
  "two_columns_scan = \<lparr>scan_table = \<lparr>rel_schema = None, rel_table = Some two_columns\<rparr>, primary_ranges = [whole_range],
     primary_filters = [], table_filters = []\<rparr>"

lemma whole_range_ok: "\<forall>r \<in> set (primary_ranges two_columns_scan). range_ok r"
  by (simp add: two_columns_scan_def whole_range_def range_ok_def scan_ok_def opts_of_def wf_value_def New_defs)

lemma two_columns_scan_table: "rel_table (scan_table two_columns_scan) = Some two_columns"
  by (simp add: two_columns_scan_def)

lemma two_columns_counter: "idx_max_tree_node_id (hd (index_list two_columns)) = 0"
  by (simp add: two_columns_def IndexInfo_new_def)

text \<open>A table under whose keys nothing is stored is live and empty.\<close>

lemma new_table_live:
  assumes "single_index t k" "\<And>i. m (node_key (index_schema t (hd (index_list t))) i) = None"
    "unat (idx_max_tree_node_id (hd (index_list t))) < 2 ^ 64 - 1" "idx_root_node_id (hd (index_list t)) \<le> idx_max_tree_node_id (hd (index_list t))"
  shows "live_table pb m t k []"
proof -
  let ?sc = "index_schema t (hd (index_list t))"
  have "slim_stored pb m ?sc" by (simp add: slim_stored_def stored_root_def assms(2))
  moreover have "stored_tree pb m (?sc\<lparr>ts_tree_id := idx_max_tree_node_id (hd (index_list t))\<rparr>) []"
    using assms(4) by (simp add: stored_tree_def kvs_ok_def assms(2)) (simp add: index_schema_def)
  ultimately show ?thesis
    using assms(1,3) by (auto simp: live_table_def stored_with_def stored_rows_def entries_of_def intro!: exI [of _ "[]"])
qed

lemma two_columns_live: "live_table sd_proto (id Map.empty) two_columns 0 []"
  by (rule new_table_live [OF two_columns_index]) (simp_all add: two_columns_def IndexInfo_new_def)

lemma five_one_values: "row_values two_columns [NewInt64 5, NewInt64 1]"
  by (simp add: row_values_def two_columns_types)

lemma five_one_line:
  "concat (map row_line (take 1024 (rows_in 0 (primary_ranges two_columns_scan) [[NewInt64 5, NewInt64 1]]))) =
    [32, 124, 32, 53, 32, 124, 32, 49, 32, 124, 10]"
proof -
  have "in_scan (opts_of whole_range) (entry_key 0 [NewInt64 5, NewInt64 1], [])"
    by code_simp
  moreover have "row_line [NewInt64 5, NewInt64 1] = [32, 124, 32, 53, 32, 124, 32, 49, 32, 124, 10]"
    by code_simp
  ultimately show ?thesis by (simp add: two_columns_scan_def rows_in_def)
qed

definition two_columns_rel :: RelOptTable where
  "two_columns_rel = \<lparr>rel_schema = None, rel_table = Some two_columns\<rparr>"

lemma two_columns_rel_table: "rel_table two_columns_rel = Some two_columns"
  by (simp add: two_columns_rel_def)

lemma five_one_stored:
  obtains s where "ExecutePlan mem_env (insert_record two_columns_rel [NewInt64 5, NewInt64 1]) Map.empty [] = Inr (C_OK, s, [])"
    "live_table sd_proto (id s) two_columns 0 [[NewInt64 5, NewInt64 1]]"
  by (rule in_memory.insert_statement_live [OF two_columns_live five_one_values two_columns_rel_table, where en = mem_env and out = "[]"])
    simp_all

theorem select_prints_rows_witness:
  "\<exists>s s'. ExecutePlan mem_env (insert_record two_columns_rel [NewInt64 5, NewInt64 1]) Map.empty [] = Inr (C_OK, s, []) \<and>
    ExecutePlan mem_env (query_plan [] two_columns_scan) s [] =
      Inr (C_OK, s, [32, 124, 32, 53, 32, 124, 32, 49, 32, 124, 10])"
proof -
  obtain s where s: "ExecutePlan mem_env (insert_record two_columns_rel [NewInt64 5, NewInt64 1]) Map.empty [] = Inr (C_OK, s, [])"
    "live_table sd_proto (id s) two_columns 0 [[NewInt64 5, NewInt64 1]]" by (rule five_one_stored)
  note live_stored [OF s(2)]
  from select_prints_rows [where view = id and s = s and conds = "[]" and out = "[]", OF in_memory.am_storage_axioms
      mem_env_sel(1,2) this two_columns_scan_table whole_range_ok]
  show ?thesis using s(1) by (simp add: five_one_line)
qed

text \<open>C29: INSERT statements executed one after another on a live table, with any keys, all end with C_OK, though
  each opens the index with the counter of the descriptor and the index has grown since. The table is
  live afterwards and holds for every key the row inserted last, in the order of the keys; a query
  then prints those of its rows whose keys are in the ranges of the scan, the first 1024.\<close>

theorem inserts_then_select:
  assumes "am_storage L view pb" "en_kv en = LevelDbClient L" "en_pb en = pb" "visits_all (en_ord en)"
    "live_table pb (view s) t k rows" "\<forall>vs \<in> set vss. row_values t vs" "length rows + length vss < 2 ^ 64 - 1"
    "rel_table rt = Some t" "rel_table (scan_table sc) = Some t" "\<forall>r \<in> set (primary_ranges sc). range_ok r"
  shows "\<exists>s'. insert_records en rt vss s out = Inr (C_OK, s', out) \<and>
    live_table pb (view s') t k (fold (upsert k) vss rows) \<and>
    sorted_wrt (<) (map (entry_key k) (fold (upsert k) vss rows)) \<and>
    ExecutePlan en (query_plan conds sc) s' out =
      Inr (C_OK, s', out @ concat (map row_line (take 1024 (rows_in k (primary_ranges sc) (fold (upsert k) vss rows)))))"
proof -
  note env = am_storage.env [OF assms(1)]
  let ?rows = "fold (upsert k) vss rows"
  obtain s' where i: "insert_records en rt vss s out = Inr (C_OK, s', out)" "live_table pb (view s') t k ?rows"
    using bpt_env.insert_records_live [OF env assms(5,6,8,2-4,7)] by blast
  obtain c ls where st: "stored_tree pb (view s') ((index_schema t (hd (index_list t)))\<lparr>ts_tree_id := c\<rparr>) ls" "concat ls = entries_of k ?rows"
    "single_index t k" "stored_rows (view s') t k ?rows"
    using live_stored [OF i(2)] by (auto simp: table_stored_def stored_with_def)
  from bpt_env.query_prints [OF env assms(2,3) st(3) assms(9) st(1,2,4) assms(10)] i live_sorted [OF i(2)]
  show ?thesis by blast
qed

definition witness_rows :: "expr_value list list" where
  "witness_rows = [[NewInt64 5, NewInt64 1], [NewInt64 3, NewInt64 2], [NewInt64 5, NewInt64 7]]"

theorem inserts_then_select_witness:
  "\<exists>s'. insert_records mem_env two_columns_rel witness_rows Map.empty [] = Inr (C_OK, s', []) \<and>
    ExecutePlan mem_env (query_plan [] two_columns_scan) s' [] =
      Inr (C_OK, s', [32, 124, 32, 51, 32, 124, 32, 50, 32, 124, 10, 32, 124, 32, 53, 32, 124, 32, 55, 32, 124, 10])"
proof -
  have v: "\<forall>vs \<in> set witness_rows. row_values two_columns vs"
    by (simp add: witness_rows_def row_values_def two_columns_types)
  have len: "length ([] :: expr_value list list) + length witness_rows < 2 ^ 64 - 1" by (simp add: witness_rows_def)
  have "fold (upsert 0) witness_rows [] = [[NewInt64 3, NewInt64 2], [NewInt64 5, NewInt64 7]]" by code_simp
  moreover have "in_scan (opts_of whole_range) (entry_key 0 [NewInt64 3, NewInt64 2], [])"
    "in_scan (opts_of whole_range) (entry_key 0 [NewInt64 5, NewInt64 7], [])" by code_simp+
  moreover have "row_line [NewInt64 3, NewInt64 2] = [32, 124, 32, 51, 32, 124, 32, 50, 32, 124, 10]"
    "row_line [NewInt64 5, NewInt64 7] = [32, 124, 32, 53, 32, 124, 32, 55, 32, 124, 10]" by code_simp+
  ultimately have "concat (map row_line (take 1024 (rows_in 0 (primary_ranges two_columns_scan) (fold (upsert 0) witness_rows [])))) =
      [32, 124, 32, 51, 32, 124, 32, 50, 32, 124, 10, 32, 124, 32, 53, 32, 124, 32, 55, 32, 124, 10]"
    by (simp add: two_columns_scan_def rows_in_def)
  then show ?thesis
    using inserts_then_select [where view = id and s = Map.empty and conds = "[]" and out = "[]", OF in_memory.am_storage_axioms
        mem_env_sel two_columns_live v len two_columns_rel_table two_columns_scan_table whole_range_ok] by auto
qed

text \<open>C30: Executing an INSERT of a row whose primary key is taken in a live table ends with C_OK, and the row that
  was in the table is replaced by the new one: the executor drops the status C_BPTREE_DUPLICATE_KEY,
  and the record was overwritten before the index was asked. Only that record changes in the storage.\<close>

theorem duplicate_statement_succeeds:
  assumes "am_storage L view pb" "en_kv en = LevelDbClient L" "en_pb en = pb" "visits_all (en_ord en)"
    "live_table pb (view s) t k rows" "row_values t vs" "ws \<in> set rows" "ws ! k = vs ! k" "rel_table rt = Some t"
  shows "\<exists>s'. ExecutePlan en (insert_record rt vs) s out = Inr (C_OK, s', out) \<and>
    live_table pb (view s') t k (map (\<lambda>ws. if ws ! k = vs ! k then vs else ws) rows) \<and>
    view s' = (view s)(row_record t k vs \<mapsto> tagged_bytes vs)"
proof -
  have key: "entry_key k us = entry_key k vs \<longleftrightarrow> us ! k = vs ! k" if "us \<in> set rows" for us
    using live_rows [OF assms(5)] that same_row(1) [OF _ assms(6)] by blast
  then have taken: "entry_key k vs \<in> entry_key k ` set rows" using assms(7,8) by (metis image_eqI)
  obtain s' where "ExecutePlan en (insert_record rt vs) s out = Inr (C_OK, s', out)" "live_table pb (view s') t k (upsert k vs rows)"
    "view s' = (view s)(row_record t k vs \<mapsto> tagged_bytes vs)"
    by (rule bpt_env.insert_statement_live [OF am_storage.env [OF assms(1)] assms(5,6,9,2-4)]) (use taken in blast)+
  moreover have "upsert k vs rows = map (\<lambda>ws. if ws ! k = vs ! k then vs else ws) rows"
    using upsert_taken [OF live_sorted [OF assms(5)] taken] key by simp
  ultimately show ?thesis by auto
qed

theorem duplicate_statement_succeeds_witness:
  "\<exists>s s'. ExecutePlan mem_env (insert_record two_columns_rel [NewInt64 5, NewInt64 1]) Map.empty [] = Inr (C_OK, s, []) \<and>
    ExecutePlan mem_env (insert_record two_columns_rel [NewInt64 5, NewInt64 2]) s [] = Inr (C_OK, s', []) \<and>
    live_table sd_proto (id s') two_columns 0 [[NewInt64 5, NewInt64 2]]"
proof -
  obtain s where s: "ExecutePlan mem_env (insert_record two_columns_rel [NewInt64 5, NewInt64 1]) Map.empty [] = Inr (C_OK, s, [])"
    "live_table sd_proto (id s) two_columns 0 [[NewInt64 5, NewInt64 1]]" by (rule five_one_stored)
  have v: "row_values two_columns [NewInt64 5, NewInt64 2]" by (simp add: row_values_def two_columns_types)
  from duplicate_statement_succeeds [where view = id and s = s and ws = "[NewInt64 5, NewInt64 1]" and out = "[]",
      OF in_memory.am_storage_axioms mem_env_sel s(2) v _ _ two_columns_rel_table] s(1)
  show ?thesis by auto
qed

end
