(* ===== verification/CascadesTheorems.thy ===== *)
theory CascadesTheorems
  imports Cascades
begin

text \<open>
  The optimizer ends and returns the physical plan: for every plan made of result sets, filters and
  scans, the tasks it puts on its stack are finitely many and the best plan of the root group is
  the plan with every operator replaced by its physical counterpart.

  The memo numbers the nodes of a plan in post-order, two numbers for each: its expression and its
  group. A subtree whose numbers start behind \<open>lo\<close> has them up to the number of its group.
\<close>

section \<open>Plans and their numbers\<close>

fun nodes_of :: "plan \<Rightarrow> nat" where
  "nodes_of (RelNode op ps) = Suc (sum_list (map nodes_of ps))"

definition group_at :: "nat \<Rightarrow> plan \<Rightarrow> nat" where
  "group_at lo p = lo + 2 * nodes_of p"

definition end_at :: "nat \<Rightarrow> plan list \<Rightarrow> nat" where
  "end_at lo ps = lo + 2 * sum_list (map nodes_of ps)"

fun groups_at :: "nat \<Rightarrow> plan list \<Rightarrow> nat list" where
  "groups_at lo [] = []"
| "groups_at lo (p # ps) = group_at lo p # groups_at (group_at lo p) ps"

lemma end_at_simps [simp]: "end_at lo [] = lo" "end_at lo (p # ps) = end_at (group_at lo p) ps"
  by (simp_all add: end_at_def group_at_def)

lemma group_at_node: "group_at lo (RelNode op ps) = end_at lo ps + 2"
  by (simp add: group_at_def end_at_def)

lemma nodes_pos: "0 < nodes_of p" by (cases p) simp
lemma group_at_gt: "lo < group_at lo p" using nodes_pos [of p] by (simp add: group_at_def)
lemma end_at_ge: "lo \<le> end_at lo ps" by (simp add: end_at_def)

lemma groups_at_range: "g \<in> set (groups_at lo ps) \<Longrightarrow> lo < g \<and> g \<le> end_at lo ps"
proof (induction ps arbitrary: lo)
  case (Cons p ps)
  then show ?case using group_at_gt [of lo p] end_at_ge [of "group_at lo p" ps] by fastforce
qed simp

lemma length_groups_at [simp]: "length (groups_at lo ps) = length ps"
  by (induction ps arbitrary: lo) auto

text \<open>The operators the rules know, and their physical counterparts.\<close>

fun rule_of :: "RelOptNode \<Rightarrow> nat option" where
  "rule_of LogicalResultSet = Some 0"
| "rule_of (LogicalFilter _) = Some 1"
| "rule_of (LogicalTableScan _) = Some 2"
| "rule_of _ = None"

fun physical_op :: "RelOptNode \<Rightarrow> RelOptNode" where
  "physical_op LogicalResultSet = PhysicalResultSet"
| "physical_op (LogicalFilter conds) = PhysicalFilter conds"
| "physical_op (LogicalTableScan sc) = PhysicalTableScan sc"
| "physical_op op = op"

fun has_rules :: "plan \<Rightarrow> bool" where
  "has_rules (RelNode op ps) \<longleftrightarrow> rule_of op \<noteq> None \<and> list_all has_rules ps"

fun to_physical :: "plan \<Rightarrow> plan" where
  "to_physical (RelNode op ps) = RelNode (physical_op op) (map to_physical ps)"

lemma numbered_rules:
  "zip [0..<length InitCascadesRules] InitCascadesRules =
     [(0, EnumerableResultSetRule), (1, EnumerableFilterRule), (2, EnumerableTableScanRule)]"
  by (simp add: InitCascadesRules_def upt_conv_Cons)

fun_cases rule_ofE: "rule_of op = Some i"

lemma rule_applies:
  assumes "rule_of op = Some i"
  shows "i < length InitCascadesRules" "Apply (InitCascadesRules ! i) (Some op) = Inr (physical_op op)"
    "MatchAndPick m \<lparr>memo_node = op, memo_children = cs\<rparr> (Matcher (InitCascadesRules ! i)) =
      Inr [picked_root \<lparr>memo_node = op, memo_children = cs\<rparr>]"
  by (rule rule_ofE [OF assms]; simp add: InitCascadesRules_def)+

lemma rule_sides:
  assumes "rule_of op = Some i"
  shows "IsLogical op" "\<not> IsPhysical op" "IsPhysical (physical_op op)" "\<not> IsLogical (physical_op op)"
  by (rule rule_ofE [OF assms]; simp add: IsLogical_def IsPhysical_def)+

lemma matching_rule:
  assumes "rule_of op = Some i"
  shows "concat (map (\<lambda>(j, r). if TopMatches (Matcher r) op then f j else [])
    (zip [0..<length InitCascadesRules] InitCascadesRules)) = f i"
  unfolding numbered_rules by (rule rule_ofE [OF assms]; simp add: TopMatches_def)

section \<open>Numbers as words\<close>

definition memo_id :: "nat \<Rightarrow> u64" where "memo_id n = of_nat n"

lemma memo_id_eq: "a < 2 ^ 64 \<Longrightarrow> b < 2 ^ 64 \<Longrightarrow> memo_id a = memo_id b \<longleftrightarrow> a = b"
  unfolding memo_id_def by (auto dest: arg_cong [where f = unat] simp: unat_of_nat)

lemma memo_id_Suc: "memo_id n + 1 = memo_id (Suc n)"
  by (simp add: memo_id_def)

lemma memo_id_Suc_Suc: "2 + memo_id n = memo_id (Suc (Suc n))"
  by (simp add: memo_id_def)

section \<open>Runs of tasks\<close>

text \<open>The tasks on top of the stack are done, whatever is below them.\<close>

definition runs :: "double_ops \<Rightarrow> task list \<Rightarrow> cascades \<Rightarrow> cascades \<Rightarrow> bool" where
  "runs D ts st st1 \<longleftrightarrow>
     (\<exists>k. \<forall>m rest. fireOptimizeTask D (k + m) (ts @ rest) st = fireOptimizeTask D m rest st1)"

lemma runs_Nil: "runs D [] st st"
  unfolding runs_def by (rule exI [of _ 0]) simp

lemma runs_append:
  assumes "runs D ts st st1" "runs D us st1 st2"
  shows "runs D (ts @ us) st st2"
proof -
  obtain k1 k2 where k: "\<And>m rest. fireOptimizeTask D (k1 + m) (ts @ rest) st = fireOptimizeTask D m rest st1"
    "\<And>m rest. fireOptimizeTask D (k2 + m) (us @ rest) st1 = fireOptimizeTask D m rest st2"
    using assms by (auto simp: runs_def)
  have "fireOptimizeTask D ((k1 + k2) + m) ((ts @ us) @ rest) st = fireOptimizeTask D m rest st2" for m rest
    using k(1) [of "k2 + m" "us @ rest"] k(2) by (simp add: add.assoc)
  then show ?thesis unfolding runs_def by blast
qed

lemma runs_Cons: "runs D [t] st st1 \<Longrightarrow> runs D ts st1 st2 \<Longrightarrow> runs D (t # ts) st st2"
  using runs_append [of D "[t]"] by simp

lemma runs_step:
  assumes "execute D t st = Inr (new, st1)" "runs D (rev new) st1 st2"
  shows "runs D [t] st st2"
proof -
  obtain k where k: "\<And>m rest. fireOptimizeTask D (k + m) (rev new @ rest) st1 = fireOptimizeTask D m rest st2"
    using assms(2) by (auto simp: runs_def)
  have "fireOptimizeTask D (Suc k + m) ([t] @ rest) st = fireOptimizeTask D m rest st2" for m rest
    using k by (simp add: assms(1))
  then show ?thesis unfolding runs_def by blast
qed

lemma runs_done: "execute D t st = Inr ([], st1) \<Longrightarrow> runs D [t] st st1"
  using runs_step [of D t st "[]" st1 st1] runs_Nil by simp

lemma runs_all:
  assumes "runs D ts st st1"
  shows "\<exists>k. \<forall>n \<ge> k. fireOptimizeTask D n ts st = Inr st1"
proof -
  obtain k where "\<And>m. fireOptimizeTask D (k + m) (ts @ []) st = fireOptimizeTask D m [] st1"
    using assms unfolding runs_def by blast
  then have "fireOptimizeTask D n ts st = Inr st1" if "k \<le> n" for n
    using le_Suc_ex [OF that] by auto
  then show ?thesis by blast
qed

section \<open>States\<close>

text \<open>No group was merged, the rules are those of the program, and the numbers behind the counter are free.\<close>

definition ready :: "cascades \<Rightarrow> nat \<Rightarrow> bool" where
  "ready st c \<longleftrightarrow> merged_groups (memo st) = Map.empty \<and> rules st = InitCascadesRules \<and> disable_rules st = [] \<and>
     group_expr_counter (memo st) = memo_id c \<and>
     (\<forall>i. c < i \<longrightarrow> i < 2 ^ 64 \<longrightarrow> groups (memo st) (memo_id i) = None \<and> expr_nodes (memo st) (memo_id i) = None \<and>
        expr_group (memo st) (memo_id i) = None \<and> fired_rules st (memo_id i) = None)"

lemma ready_group [simp]: "ready st c \<Longrightarrow> GetReduceGroupId g (memo st) = g"
  by (simp add: ready_def GetReduceGroupId_def)

lemma ready_rules: "ready st c \<Longrightarrow> rules st = InitCascadesRules" "ready st c \<Longrightarrow> disable_rules st = []"
  by (simp_all add: ready_def)

text \<open>Two states agree on some numbers.\<close>

definition agree :: "nat set \<Rightarrow> cascades \<Rightarrow> cascades \<Rightarrow> bool" where
  "agree S st st1 \<longleftrightarrow> (\<forall>i \<in> S. groups (memo st1) (memo_id i) = groups (memo st) (memo_id i) \<and>
     expr_nodes (memo st1) (memo_id i) = expr_nodes (memo st) (memo_id i) \<and> expr_group (memo st1) (memo_id i) = expr_group (memo st) (memo_id i) \<and>
     fired_rules st1 (memo_id i) = fired_rules st (memo_id i))"

lemma agree_refl [simp]: "agree S st st" by (simp add: agree_def)
lemma agree_mono: "agree S st st1 \<Longrightarrow> T \<subseteq> S \<Longrightarrow> agree T st st1" by (auto simp: agree_def)
lemma agree_trans: "agree S st st1 \<Longrightarrow> agree T st1 st2 \<Longrightarrow> agree (S \<inter> T) st st2" by (simp add: agree_def)

text \<open>A subtree no task was run on.\<close>

definition fresh_node :: "cascades \<Rightarrow> nat \<Rightarrow> nat \<Rightarrow> RelOptNode \<Rightarrow> nat list \<Rightarrow> bool" where
  "fresh_node st e g op cs \<longleftrightarrow>
     groups (memo st) (memo_id g) = Some \<lparr>group_exprs = [memo_id e], winner = None\<rparr> \<and>
     expr_nodes (memo st) (memo_id e) = Some \<lparr>memo_node = op, memo_children = map memo_id cs\<rparr> \<and>
     expr_group (memo st) (memo_id e) = Some (memo_id g) \<and> fired_rules st (memo_id e) = None"

fun fresh_at :: "cascades \<Rightarrow> nat \<Rightarrow> plan \<Rightarrow> bool"
and fresh_list :: "cascades \<Rightarrow> nat \<Rightarrow> plan list \<Rightarrow> bool" where
  "fresh_at st lo (RelNode op ps) \<longleftrightarrow>
     fresh_node st (end_at lo ps + 1) (end_at lo ps + 2) op (groups_at lo ps) \<and> fresh_list st lo ps"
| "fresh_list st lo [] \<longleftrightarrow> True"
| "fresh_list st lo (p # ps) \<longleftrightarrow> fresh_at st lo p \<and> fresh_list st (group_at lo p) ps"

lemma fresh_frame:
  "fresh_at st lo p \<Longrightarrow> agree {lo<..group_at lo p} st st1 \<Longrightarrow> fresh_at st1 lo p"
  "fresh_list st lo ps \<Longrightarrow> agree {lo<..end_at lo ps} st st1 \<Longrightarrow> fresh_list st1 lo ps"
proof (induction st lo p and st lo ps rule: fresh_at_fresh_list.induct)
  case (1 st lo op ps)
  have "end_at lo ps + 1 \<in> {lo<..group_at lo (RelNode op ps)}" "end_at lo ps + 2 \<in> {lo<..group_at lo (RelNode op ps)}"
    using end_at_ge [of lo ps] by (simp_all add: group_at_node)
  with 1(2,3) have "fresh_node st1 (end_at lo ps + 1) (end_at lo ps + 2) op (groups_at lo ps)"
    unfolding agree_def by (auto simp: fresh_node_def)
  moreover have "agree {lo<..end_at lo ps} st st1"
    by (rule agree_mono [OF 1(3)]) (auto simp: group_at_node)
  ultimately show ?case using 1 by simp
next
  case (3 st lo p ps)
  have "agree {lo<..group_at lo p} st st1" "agree {group_at lo p<..end_at (group_at lo p) ps} st st1"
    using group_at_gt [of lo p] end_at_ge [of "group_at lo p" ps] by (auto intro!: agree_mono [OF 3(4)])
  with 3 show ?case by simp
qed simp

lemma fresh_group:
  assumes "fresh_list st lo ps" "g \<in> set (groups_at lo ps)" "list_all has_rules ps"
  shows "\<exists>e n. groups (memo st) (memo_id g) = Some \<lparr>group_exprs = [e], winner = None\<rparr> \<and> expr_nodes (memo st) e = Some n \<and>
    IsLogical (memo_node n)"
  using assms
proof (induction ps arbitrary: lo)
  case (Cons p ps)
  show ?case
  proof (cases "g = group_at lo p")
    case True
    obtain op qs where p: "p = RelNode op qs" by (cases p)
    with Cons.prems(3) obtain i where "rule_of op = Some i" by auto
    with Cons.prems(1) p True show ?thesis
      by (auto simp: fresh_node_def group_at_node rule_sides(1))
  next
    case False
    with Cons show ?thesis by auto
  qed
qed simp

text \<open>A subtree whose groups have their winners, made behind the number \<open>M\<close> and up to the counter \<open>c\<close>.\<close>

fun done_at :: "cascades \<Rightarrow> nat \<Rightarrow> nat \<Rightarrow> nat \<Rightarrow> plan \<Rightarrow> bool"
and done_list :: "cascades \<Rightarrow> nat \<Rightarrow> nat \<Rightarrow> nat \<Rightarrow> plan list \<Rightarrow> bool" where
  "done_at st M c lo (RelNode op ps) \<longleftrightarrow>
     (\<exists>e gr x. M < e \<and> e \<le> c \<and> groups (memo st) (memo_id (end_at lo ps + 2)) = Some gr \<and> winner gr = Some x \<and>
        win_expr x = memo_id e \<and> \<not> impossible x \<and>
        expr_nodes (memo st) (memo_id e) = Some \<lparr>memo_node = physical_op op, memo_children = map memo_id (groups_at lo ps)\<rparr>) \<and>
     done_list st M c lo ps"
| "done_list st M c lo [] \<longleftrightarrow> True"
| "done_list st M c lo (p # ps) \<longleftrightarrow> done_at st M c lo p \<and> done_list st M c (group_at lo p) ps"

lemma done_frame:
  "done_at st M c lo p \<Longrightarrow> agree ({lo<..group_at lo p} \<union> {M<..c}) st st1 \<Longrightarrow> c \<le> c1 \<Longrightarrow> done_at st1 M c1 lo p"
  "done_list st M c lo ps \<Longrightarrow> agree ({lo<..end_at lo ps} \<union> {M<..c}) st st1 \<Longrightarrow> c \<le> c1 \<Longrightarrow> done_list st1 M c1 lo ps"
proof (induction st M c lo p and st M c lo ps rule: done_at_done_list.induct)
  case (1 st M c lo op ps)
  have in1: "end_at lo ps + 2 \<in> {lo<..group_at lo (RelNode op ps)} \<union> {M<..c}"
    using end_at_ge [of lo ps] by (simp add: group_at_node)
  obtain e gr x where e: "M < e" "e \<le> c" "groups (memo st) (memo_id (end_at lo ps + 2)) = Some gr" "winner gr = Some x"
    "win_expr x = memo_id e" "\<not> impossible x"
    "expr_nodes (memo st) (memo_id e) = Some \<lparr>memo_node = physical_op op, memo_children = map memo_id (groups_at lo ps)\<rparr>"
    using 1(2) by auto
  have "groups (memo st1) (memo_id (end_at lo ps + 2)) = Some gr"
    using 1(3) in1 e(3) unfolding agree_def by auto
  moreover have "expr_nodes (memo st1) (memo_id e) = Some \<lparr>memo_node = physical_op op, memo_children = map memo_id (groups_at lo ps)\<rparr>"
    using 1(3) e(1,2,7) unfolding agree_def by auto
  moreover have "agree ({lo<..end_at lo ps} \<union> {M<..c}) st st1"
    by (rule agree_mono [OF 1(3)]) (auto simp: group_at_node)
  ultimately show ?case using 1 e by (auto intro!: exI [of _ e])
next
  case (3 st M c lo p ps)
  have "agree ({lo<..group_at lo p} \<union> {M<..c}) st st1" "agree ({group_at lo p<..end_at (group_at lo p) ps} \<union> {M<..c}) st st1"
    using group_at_gt [of lo p] end_at_ge [of "group_at lo p" ps] by (auto intro!: agree_mono [OF 3(4)])
  with 3 show ?case by simp
qed simp


section \<open>Steps\<close>

lemma known_group: "ready st c \<Longrightarrow> groups (memo st) g = Some gr \<Longrightarrow> GetGroupInfo g (memo st) = (winner gr, memo st)"
  by (simp add: GetGroupInfo_def)

lemma explored_update [simp]: "memo (st\<lparr>explored_group := X\<rparr>) = memo st" by simp

lemma runs_explore:
  assumes "ready st c" "groups (memo st) g = Some \<lparr>group_exprs = [e], winner = None\<rparr>"
    "expr_nodes (memo st) e = Some n" "IsLogical (memo_node n)"
  shows "\<exists>X. runs D [ExploreGroupTask g] (st\<lparr>explored_group := Y\<rparr>) (st\<lparr>explored_group := X\<rparr>)"
proof (cases "g \<in> set Y")
  case True
  have "runs D [ExploreGroupTask g] (st\<lparr>explored_group := Y\<rparr>) (st\<lparr>explored_group := Y\<rparr>)"
    using True by (intro runs_done) (simp add: execute_explore_def IsGroupExplored_def)
  then show ?thesis by blast
next
  case False
  let ?X = "List.insert g Y"
  have "execute D (ExploreGroupTask g) (st\<lparr>explored_group := Y\<rparr>) = Inr ([OptimizeExprTask e True], st\<lparr>explored_group := ?X\<rparr>)"
    using False assms
    by (simp add: execute_explore_def IsGroupExplored_def MarkGroupExplored_def GetAllExprsInGroup_def GetExprMemoNode_def)
  moreover have "execute D (OptimizeExprTask e True) (st\<lparr>explored_group := ?X\<rparr>) = Inr ([], st\<lparr>explored_group := ?X\<rparr>)"
    using assms(3) by (auto simp: execute_expr_def GetExprMemoNode_def rule_tasks_def)
  ultimately have "runs D [ExploreGroupTask g] (st\<lparr>explored_group := Y\<rparr>) (st\<lparr>explored_group := ?X\<rparr>)"
    using runs_step [of D "ExploreGroupTask g" "st\<lparr>explored_group := Y\<rparr>" "[OptimizeExprTask e True]"] runs_done
    by (simp del: execute.simps)
  then show ?thesis by blast
qed

lemma runs_explores:
  assumes "ready st c" "fresh_list st lo ps" "list_all has_rules ps" "set gs \<subseteq> set (groups_at lo ps)"
  shows "\<exists>X. runs D (map ExploreGroupTask (map memo_id gs)) (st\<lparr>explored_group := Y\<rparr>) (st\<lparr>explored_group := X\<rparr>)"
  using assms(4)
proof (induction gs arbitrary: Y)
  case Nil
  show ?case using runs_Nil by auto
next
  case (Cons g gs)
  obtain e n where "groups (memo st) (memo_id g) = Some \<lparr>group_exprs = [e], winner = None\<rparr>"
    "expr_nodes (memo st) e = Some n" "IsLogical (memo_node n)"
    using fresh_group [OF assms(2) _ assms(3), of g] Cons.prems by auto
  from runs_explore [OF assms(1) this] obtain X1 where
    X1: "runs D [ExploreGroupTask (memo_id g)] (st\<lparr>explored_group := Y\<rparr>) (st\<lparr>explored_group := X1\<rparr>)" by blast
  obtain X where "runs D (map ExploreGroupTask (map memo_id gs)) (st\<lparr>explored_group := X1\<rparr>) (st\<lparr>explored_group := X\<rparr>)"
    using Cons by auto
  with runs_Cons [OF X1] show ?case by auto
qed

text \<open>A rule puts the physical expression into the group, under the next number.\<close>

definition applied :: "nat \<Rightarrow> nat \<Rightarrow> nat \<Rightarrow> RelOptNode \<Rightarrow> nat list \<Rightarrow> nat \<Rightarrow> cascades \<Rightarrow> cascades" where
  "applied e g i op cs c st =
     MarkRuleFired (memo_id e) i (st\<lparr>memo := enter_node (memo_id (Suc c)) (memo_id g) \<lparr>memo_node = physical_op op, memo_children = map memo_id cs\<rparr>
       ((memo st)\<lparr>group_expr_counter := memo_id (Suc c)\<rparr>)\<rparr>)"

lemma holder_groups_picked [simp]:
  "holder_groups (map ((\<lambda>g. PlaceHolder None g []) \<circ> f) gs) = map f gs"
  by (induction gs) auto

lemma apply_step:
  assumes "ready st c" "fresh_node st e g op cs" "rule_of op = Some i"
  shows "execute D (ApplyRuleTask i (memo_id e) False) st =
    Inr ([OptimizeInputsTask (memo_id (Suc c)) None True], applied e g i op cs c st)"
  using assms(1,2) rule_applies [OF assms(3)] rule_sides [OF assms(3)]
  by (simp add: execute_apply_def IsRuleFired_def IsRuleDisabled_def ready_def fresh_node_def GetGroupId_def
      GetExprMemoNode_def picked_root_def AddNewGroupExpr_def NextId_def GetReduceGroupId_def Let_def applied_def
      memo_id_Suc)

lemma applied_fields:
  fixes i :: nat
  assumes "ready st c" "fresh_node st e g op cs" "e \<le> c" "g \<le> c" "Suc c < 2 ^ 64"
    and st1: "st1 = applied e g i op cs c st"
  shows "groups (memo st1) = (groups (memo st))(memo_id g \<mapsto> \<lparr>group_exprs = [memo_id (Suc c), memo_id e], winner = None\<rparr>)"
    "expr_nodes (memo st1) = (expr_nodes (memo st))(memo_id (Suc c) \<mapsto> \<lparr>memo_node = physical_op op, memo_children = map memo_id cs\<rparr>)"
    "expr_group (memo st1) = (expr_group (memo st))(memo_id (Suc c) \<mapsto> memo_id g)"
    "fired_rules st1 = (fired_rules st)(memo_id e \<mapsto> [i])" "group_expr_counter (memo st1) = memo_id (Suc c)"
    "merged_groups (memo st1) = merged_groups (memo st)" "rules st1 = rules st" "disable_rules st1 = disable_rules st"
proof -
  have "memo_id (Suc c) \<noteq> memo_id e" using assms(3-5) by (simp add: memo_id_eq)
  moreover have "expr_nodes (memo st) (memo_id (Suc c)) = None" "expr_group (memo st) (memo_id (Suc c)) = None"
    using assms(1,5) unfolding ready_def by blast+
  ultimately show "groups (memo st1) = (groups (memo st))(memo_id g \<mapsto> \<lparr>group_exprs = [memo_id (Suc c), memo_id e], winner = None\<rparr>)"
    "expr_nodes (memo st1) = (expr_nodes (memo st))(memo_id (Suc c) \<mapsto> \<lparr>memo_node = physical_op op, memo_children = map memo_id cs\<rparr>)"
    "expr_group (memo st1) = (expr_group (memo st))(memo_id (Suc c) \<mapsto> memo_id g)"
    "fired_rules st1 = (fired_rules st)(memo_id e \<mapsto> [i])" "group_expr_counter (memo st1) = memo_id (Suc c)"
    "merged_groups (memo st1) = merged_groups (memo st)" "rules st1 = rules st" "disable_rules st1 = disable_rules st"
    using assms(2)
    by (simp_all add: st1 applied_def MarkRuleFired_def enter_node_def addExprToGroup_def new_entry_def fresh_node_def)
qed

lemma applied_facts:
  fixes i :: nat
  assumes "ready st c" "fresh_node st e g op cs" "e \<le> c" "g \<le> c" "Suc c < 2 ^ 64"
    and st1: "st1 = applied e g i op cs c st"
  shows "ready st1 (Suc c)" "agree ({..c} - {e, g}) st st1"
proof -
  note f = applied_fields [OF assms]
  have other: "memo_id j \<noteq> memo_id (Suc c)" "memo_id j \<noteq> memo_id e" "memo_id j \<noteq> memo_id g" if "Suc c < j" "j < 2 ^ 64" for j
    using that assms(3-5) by (auto simp: memo_id_eq)
  have frame: "memo_id j \<noteq> memo_id (Suc c)" "j \<noteq> e \<Longrightarrow> memo_id j \<noteq> memo_id e" "j \<noteq> g \<Longrightarrow> memo_id j \<noteq> memo_id g"
    if "j \<le> c" for j
    using that assms(3-5) by (auto simp: memo_id_eq)
  have "groups (memo st1) (memo_id j) = None \<and> expr_nodes (memo st1) (memo_id j) = None \<and>
      expr_group (memo st1) (memo_id j) = None \<and> fired_rules st1 (memo_id j) = None" if j: "Suc c < j" "j < 2 ^ 64" for j
  proof -
    have "c < j" using j(1) by simp
    with assms(1) j(2) have "groups (memo st) (memo_id j) = None \<and> expr_nodes (memo st) (memo_id j) = None \<and>
        expr_group (memo st) (memo_id j) = None \<and> fired_rules st (memo_id j) = None"
      unfolding ready_def by blast
    with other [OF j] show ?thesis by (simp add: f)
  qed
  with assms(1) show "ready st1 (Suc c)" unfolding ready_def by (simp add: f)
  show "agree ({..c} - {e, g}) st st1" using frame by (simp add: agree_def f)
qed

lemma FirstInvoke_same:
  "ready st c \<Longrightarrow> \<forall>g \<in> set gs. groups (memo st) g \<noteq> None \<Longrightarrow> \<exists>costs. FirstInvoke gs (memo st) = (costs, memo st)"
  by (induction gs) (auto simp: known_group)


section \<open>The inputs of an expression\<close>

abbreviation inputs_task :: "u64 \<Rightarrow> nat \<Rightarrow> Cost list \<Rightarrow> bool \<Rightarrow> task" where
  "inputs_task e k costs ret \<equiv>
     OptimizeInputsTask e (Some \<lparr>next_group_idx = k, input_cost = costs, return_from_optimize_group = ret\<rparr>) True"

lemma memo_same [simp]: "st\<lparr>memo := memo st\<rparr> = st" for st :: cascades
  by simp

lemma inputs_first:
  assumes "ready st c" "expr_nodes (memo st) e = Some n" "\<forall>g \<in> set (memo_children n). groups (memo st) g \<noteq> None"
  shows "\<exists>costs. execute D (OptimizeInputsTask e None True) st = Inr ([inputs_task e 0 costs False], st)"
  using FirstInvoke_same [OF assms(1,3)] assms(2) by (auto simp: execute_inputs_def GetExprMemoNode_def)

lemma inputs_ask:
  assumes "ready st c" "expr_nodes (memo st) e = Some n" "k < length (memo_children n)"
    "groups (memo st) (memo_children n ! k) = Some gr" "winner gr = None"
  shows "execute D (inputs_task e k costs False) st =
    Inr ([inputs_task e k costs True, OptimizeGroupTask (memo_children n ! k)], st)"
  using assms by (simp add: execute_inputs_def GetExprMemoNode_def known_group full_winner_def)

lemma inputs_next:
  assumes "ready st c" "expr_nodes (memo st) e = Some n" "k < length (memo_children n)"
    "groups (memo st) (memo_children n ! k) = Some gr"
  shows "execute D (inputs_task e k costs True) st = Inr ([inputs_task e (Suc k) costs False], st)"
  using assms by (simp add: execute_inputs_def GetExprMemoNode_def known_group)

lemma inputs_end:
  assumes "ready st c" "expr_nodes (memo st) e = Some n" "expr_group (memo st) e = Some g"
    "groups (memo st) g = Some gr" "winner gr = None"
  shows "execute D (inputs_task e (length (memo_children n)) costs False) st =
    Inr ([], st\<lparr>memo := UpdateGroupInfo g
      (Some \<lparr>impossible = False, win_expr = e, win_cost = Cost_Sum D Cost_Zero costs\<rparr>) (memo st)\<rparr>)"
  using assms by (simp add: execute_inputs_def GetExprMemoNode_def known_group GetGroupId_def IsUpdateWinner_def)

text \<open>What optimizing the group of a subtree does.\<close>

definition optimized :: "double_ops \<Rightarrow> nat \<Rightarrow> cascades \<Rightarrow> nat \<Rightarrow> nat \<Rightarrow> plan \<Rightarrow> cascades \<Rightarrow> bool" where
  "optimized D M st c lo p st1 \<longleftrightarrow>
     runs D [OptimizeGroupTask (memo_id (group_at lo p))] st st1 \<and> ready st1 (c + nodes_of p) \<and>
     done_at st1 M (c + nodes_of p) lo p \<and> agree ({..c} - {lo<..group_at lo p}) st st1"

lemma done_winner: "done_at st M c lo p \<Longrightarrow> \<exists>gr. groups (memo st) (memo_id (group_at lo p)) = Some gr"
  by (cases p) (auto simp: group_at_node)

lemma fresh_winner: "fresh_at st lo p \<Longrightarrow> \<exists>gr. groups (memo st) (memo_id (group_at lo p)) = Some gr \<and> winner gr = None"
  by (cases p) (auto simp: group_at_node fresh_node_def)

lemma inputs_loop:
  assumes step: "\<And>q lo c st. q \<in> set qs \<Longrightarrow> ready st c \<Longrightarrow> fresh_at st lo q \<Longrightarrow> group_at lo q \<le> M \<Longrightarrow> M \<le> c \<Longrightarrow>
      c + nodes_of q < 2 ^ 64 \<Longrightarrow> \<exists>st1. optimized D M st c lo q st1"
    and "ready st c" "fresh_list st lo qs" "end_at lo qs \<le> M" "M < e" "e \<le> c" "c + sum_list (map nodes_of qs) < 2 ^ 64"
    and "expr_nodes (memo st) (memo_id e) = Some \<lparr>memo_node = pop, memo_children = gs @ map memo_id (groups_at lo qs)\<rparr>"
  shows "\<exists>st1. (\<forall>st2. runs D [inputs_task (memo_id e) (length gs + length qs) costs False] st1 st2 \<longrightarrow>
      runs D [inputs_task (memo_id e) (length gs) costs False] st st2) \<and>
    ready st1 (c + sum_list (map nodes_of qs)) \<and> done_list st1 M (c + sum_list (map nodes_of qs)) lo qs \<and>
    agree ({..c} - {lo<..end_at lo qs}) st st1"
  using assms
proof (induction qs arbitrary: st c lo gs)
  case Nil
  then show ?case by (intro exI [of _ st]) simp
next
  case (Cons q qs)
  let ?g = "memo_id (group_at lo q)" and ?n = "\<lparr>memo_node = pop, memo_children = gs @ map memo_id (groups_at lo (q # qs))\<rparr>"
  let ?hi = "group_at lo q"
  have hi: "lo < ?hi" "?hi \<le> end_at ?hi qs" by (simp_all add: group_at_gt end_at_ge)
  obtain gr where gr: "groups (memo st) ?g = Some gr" "winner gr = None" using fresh_winner [of st lo q] Cons.prems(3) by auto
  have child: "memo_children ?n ! length gs = ?g" "length gs < length (memo_children ?n)" by simp_all
  obtain st1 where st1: "optimized D M st c lo q st1"
    using Cons.prems(1) [of q st c lo] Cons.prems(2-7) hi by auto
  let ?c = "c + nodes_of q"
  from st1 have r: "ready st1 ?c" and d: "done_at st1 M ?c lo q" and ag: "agree ({..c} - {lo<..?hi}) st st1"
    by (simp_all add: optimized_def)
  have node: "expr_nodes (memo st1) (memo_id e) = Some \<lparr>memo_node = pop, memo_children = (gs @ [?g]) @ map memo_id (groups_at ?hi qs)\<rparr>"
    using ag Cons.prems(4-6,8) hi unfolding agree_def by auto
  have "fresh_list st1 ?hi qs"
    using Cons.prems(3-6) hi by (intro fresh_frame(2) [OF _ agree_mono [OF ag]]) auto
  with Cons.IH [of st1 ?c ?hi "gs @ [?g]"] Cons.prems(1,4-7) r node hi obtain st2 where
    st2: "\<forall>st3. runs D [inputs_task (memo_id e) (Suc (length gs) + length qs) costs False] st2 st3 \<longrightarrow>
        runs D [inputs_task (memo_id e) (Suc (length gs)) costs False] st1 st3"
    "ready st2 (?c + sum_list (map nodes_of qs))" "done_list st2 M (?c + sum_list (map nodes_of qs)) ?hi qs"
    "agree ({..?c} - {?hi<..end_at ?hi qs}) st1 st2"
    by (auto simp: add.assoc)
  have "done_at st2 M (?c + sum_list (map nodes_of qs)) lo q"
    using Cons.prems(4-6) hi by (intro done_frame(1) [OF d agree_mono [OF st2(4)]]) auto
  moreover have "agree ({..c} - {lo<..end_at lo (q # qs)}) st st2"
    using hi by (intro agree_mono [OF agree_trans [OF ag st2(4)]]) auto
  moreover have "runs D [inputs_task (memo_id e) (length gs) costs False] st st3"
    if s: "runs D [inputs_task (memo_id e) (length gs + length (q # qs)) costs False] st2 st3" for st3
  proof -
    obtain gr1 where "groups (memo st1) ?g = Some gr1" using done_winner [OF d] by blast
    with inputs_next [OF r node, of "length gs" gr1 D costs]
    have "execute D (inputs_task (memo_id e) (length gs) costs True) st1 =
        Inr ([inputs_task (memo_id e) (Suc (length gs)) costs False], st1)"
      by (simp del: execute.simps)
    moreover have "runs D [inputs_task (memo_id e) (Suc (length gs)) costs False] st1 st3"
      using st2(1) s by simp
    ultimately have "runs D [inputs_task (memo_id e) (length gs) costs True] st1 st3"
      using runs_step [of D _ st1 "[_]"] by (simp del: execute.simps)
    with st1 have "runs D [OptimizeGroupTask ?g, inputs_task (memo_id e) (length gs) costs True] st st3"
      by (auto simp: optimized_def intro: runs_Cons)
    moreover have "execute D (inputs_task (memo_id e) (length gs) costs False) st =
        Inr ([inputs_task (memo_id e) (length gs) costs True, OptimizeGroupTask ?g], st)"
      using inputs_ask [OF Cons.prems(2,8), of "length gs" gr] gr child by (simp del: execute.simps)
    ultimately show ?thesis
      using runs_step [of D _ st "[_, _]"] by (simp del: execute.simps)
  qed
  ultimately show ?case using st2(2,3) by (intro exI [of _ st2]) (simp add: add.assoc)
qed

section \<open>The optimizer ends\<close>

lemma update_frame:
  assumes "ready st c" "groups (memo st) (memo_id g) = Some gr" "g \<le> c" "c < 2 ^ 64"
    and st1_def: "st1 = st\<lparr>memo := UpdateGroupInfo (memo_id g) x (memo st)\<rparr>"
  shows "ready st1 c" "agree ({..c} - {g}) st st1"
    "groups (memo st1) (memo_id g) = Some (gr\<lparr>winner := x\<rparr>)" "expr_nodes (memo st1) = expr_nodes (memo st)"
proof -
  have st1: "memo st1 = (memo st)\<lparr>groups := (groups (memo st))(memo_id g \<mapsto> gr\<lparr>winner := x\<rparr>)\<rparr>"
    "rules st1 = rules st" "disable_rules st1 = disable_rules st" "fired_rules st1 = fired_rules st"
    using assms(1,2) by (cases gr; simp add: st1_def UpdateGroupInfo_def)+
  have "memo_id j \<noteq> memo_id g" if "c < j" "j < 2 ^ 64" for j using that assms(3,4) by (auto simp: memo_id_eq)
  with assms(1) show "ready st1 c" unfolding ready_def by (simp add: st1)
  have "memo_id j \<noteq> memo_id g" if "j \<le> c" "j \<noteq> g" for j using that assms(3,4) by (auto simp: memo_id_eq)
  then show "agree ({..c} - {g}) st st1" by (simp add: agree_def st1)
  show "groups (memo st1) (memo_id g) = Some (gr\<lparr>winner := x\<rparr>)" "expr_nodes (memo st1) = expr_nodes (memo st)"
    by (simp_all add: st1)
qed


lemma execute_fresh_group:
  assumes "ready st c" "fresh_node st e g op cs" "IsLogical op" "\<not> IsPhysical op"
  shows "execute D (OptimizeGroupTask (memo_id g)) st = Inr ([OptimizeExprTask (memo_id e) False], st)"
  using assms by (simp add: execute_group_def fresh_node_def GetGroupInfo_def GetAllExprsInGroup_def GetExprMemoNode_def)

lemma execute_fresh_expr:
  assumes "ready st c" "fresh_node st e g op cs" "rule_of op = Some i"
  shows "execute D (OptimizeExprTask (memo_id e) False) st =
    Inr (ApplyRuleTask i (memo_id e) False # map ExploreGroupTask (map memo_id cs), st)"
proof -
  let ?f = "\<lambda>j. ApplyRuleTask j (memo_id e) False # map ExploreGroupTask (map memo_id cs)"
  have "rule_tasks (memo_id e) False \<lparr>memo_node = op, memo_children = map memo_id cs\<rparr> st =
      (\<lambda>(j, r). if TopMatches (Matcher r) op then ?f j else [])"
    using assms(2) by (simp add: rule_tasks_def fresh_node_def IsRuleFired_def fun_eq_iff)
  with matching_rule [OF assms(3), of ?f] assms(1,2) show ?thesis
    by (simp add: execute_expr_def GetExprMemoNode_def fresh_node_def ready_rules)
qed

lemma runs_apply:
  assumes "ready st c" "fresh_list st lo ps" "list_all has_rules ps" "rule_of op = Some i"
    "fresh_node st e g op (groups_at lo ps)"
  shows "\<exists>X. \<forall>st1. runs D [OptimizeInputsTask (memo_id (Suc c)) None True] (applied e g i op (groups_at lo ps) c (st\<lparr>explored_group := X\<rparr>)) st1 \<longrightarrow>
    runs D [OptimizeGroupTask (memo_id g)] st st1"
proof -
  obtain X where X: "runs D (map ExploreGroupTask (map memo_id (rev (groups_at lo ps)))) st (st\<lparr>explored_group := X\<rparr>)"
    using runs_explores [OF assms(1-3), of "rev (groups_at lo ps)" D "explored_group st"] by auto
  let ?st = "st\<lparr>explored_group := X\<rparr>"
  have r: "ready ?st c" and f: "fresh_node ?st e g op (groups_at lo ps)"
    using assms(1,5) by (simp_all add: ready_def fresh_node_def)
  have "runs D [OptimizeGroupTask (memo_id g)] st st1"
    if "runs D [OptimizeInputsTask (memo_id (Suc c)) None True] (applied e g i op (groups_at lo ps) c ?st) st1" for st1
  proof -
    have "runs D [ApplyRuleTask i (memo_id e) False] ?st st1"
      using runs_step [OF apply_step [OF r f assms(4)]] that by simp
    with X have "runs D (map ExploreGroupTask (map memo_id (rev (groups_at lo ps))) @ [ApplyRuleTask i (memo_id e) False]) st st1"
      by (rule runs_append)
    then have "runs D [OptimizeExprTask (memo_id e) False] st st1"
      using runs_step [OF execute_fresh_expr [OF assms(1,5,4)]] by (simp add: rev_map)
    then show ?thesis
      using runs_step [OF execute_fresh_group [OF assms(1,5)]] rule_sides [OF assms(4)] by simp
  qed
  then show ?thesis by blast
qed

lemma fresh_groups_exist: "fresh_list st lo ps \<Longrightarrow> \<forall>g \<in> set (groups_at lo ps). groups (memo st) (memo_id g) \<noteq> None"
  by (induction ps arbitrary: lo) (auto dest!: fresh_winner)

lemma optimizes:
  assumes "has_rules p" "ready st c" "fresh_at st lo p" "group_at lo p \<le> M" "M \<le> c" "c + nodes_of p < 2 ^ 64"
  shows "\<exists>st1. optimized D M st c lo p st1"
  using assms
proof (induction p arbitrary: st c lo)
  case (RelNode op ps)
  let ?e = "end_at lo ps + 1" and ?g = "end_at lo ps + 2" and ?cs = "groups_at lo ps" and ?n = "sum_list (map nodes_of ps)"
  obtain i where i: "rule_of op = Some i" and ps: "list_all has_rules ps" using RelNode.prems(1) by auto
  have node: "fresh_node st ?e ?g op ?cs" and fl: "fresh_list st lo ps" using RelNode.prems(3) by simp_all
  have b: "lo \<le> end_at lo ps" "?g \<le> M" "M \<le> c" "Suc c + ?n < 2 ^ 64"
    using RelNode.prems(4-6) end_at_ge by (simp_all add: group_at_node)
  obtain X where X: "\<And>st1. runs D [OptimizeInputsTask (memo_id (Suc c)) None True] (applied ?e ?g i op ?cs c (st\<lparr>explored_group := X\<rparr>)) st1 \<Longrightarrow>
    runs D [OptimizeGroupTask (memo_id ?g)] st st1"
    using runs_apply [OF RelNode.prems(2) fl ps i node] by blast
  define stx where "stx = st\<lparr>explored_group := X\<rparr>"
  have x: "ready stx c" "fresh_node stx ?e ?g op ?cs" "fresh_list stx lo ps" and agx: "agree S st stx" for S
  proof -
    show ag: "agree S st stx" for S by (simp add: stx_def agree_def)
    show "ready stx c" "fresh_node stx ?e ?g op ?cs" using RelNode.prems(2) node by (simp_all add: stx_def ready_def fresh_node_def)
    show "fresh_list stx lo ps" by (rule fresh_frame(2) [OF fl ag])
  qed
  define st1 where "st1 = applied ?e ?g i op ?cs c stx"
  have less: "?e \<le> c" "?g \<le> c" "Suc c < 2 ^ 64" using b by simp_all
  note f = applied_fields [OF x(1,2) less st1_def] and ready1 = applied_facts(1) [OF x(1,2) less st1_def]
    and ag1 = applied_facts(2) [OF x(1,2) less st1_def]
  have fl1: "fresh_list st1 lo ps" using b by (intro fresh_frame(2) [OF x(3) agree_mono [OF ag1]]) auto
  have n1: "expr_nodes (memo st1) (memo_id (Suc c)) = Some \<lparr>memo_node = physical_op op, memo_children = [] @ map memo_id ?cs\<rparr>"
    by (simp add: f)
  obtain costs where first: "execute D (OptimizeInputsTask (memo_id (Suc c)) None True) st1 =
      Inr ([inputs_task (memo_id (Suc c)) 0 costs False], st1)"
    using inputs_first [OF ready1 n1] fresh_groups_exist [OF fl1] by auto
  have step: "\<exists>st1. optimized D M st c lo q st1" if "q \<in> set ps" "ready st c" "fresh_at st lo q" "group_at lo q \<le> M" "M \<le> c" "c + nodes_of q < 2 ^ 64"
    for q lo c st using RelNode.IH that ps by (auto simp: list_all_iff)
  obtain st2 where st2: "\<And>st3. runs D [inputs_task (memo_id (Suc c)) (length ps) costs False] st2 st3 \<Longrightarrow>
      runs D [inputs_task (memo_id (Suc c)) 0 costs False] st1 st3"
    "ready st2 (Suc c + ?n)" "done_list st2 M (Suc c + ?n) lo ps" "agree ({..Suc c} - {lo<..end_at lo ps}) st1 st2"
    using inputs_loop [OF step ready1 fl1 _ _ _ b(4) n1, of costs] b by auto
  have n2: "expr_nodes (memo st2) (memo_id (Suc c)) = Some \<lparr>memo_node = physical_op op, memo_children = map memo_id ?cs\<rparr>"
    "expr_group (memo st2) (memo_id (Suc c)) = Some (memo_id ?g)"
    "groups (memo st2) (memo_id ?g) = Some \<lparr>group_exprs = [memo_id (Suc c), memo_id ?e], winner = None\<rparr>"
    using st2(4) b f unfolding agree_def by auto
  define st3 where "st3 = st2\<lparr>memo := UpdateGroupInfo (memo_id ?g)
    (Some \<lparr>impossible = False, win_expr = memo_id (Suc c), win_cost = Cost_Sum D Cost_Zero costs\<rparr>) (memo st2)\<rparr>"
  have le: "?g \<le> Suc c + ?n" using less by simp
  note u = update_frame [OF st2(2) n2(3) le b(4) st3_def]
  have "execute D (inputs_task (memo_id (Suc c)) (length ps) costs False) st2 = Inr ([], st3)"
    using inputs_end [OF st2(2) n2, of D costs] by (simp add: st3_def del: execute.simps)
  from st2(1) [OF runs_done [OF this]] have "runs D [OptimizeInputsTask (memo_id (Suc c)) None True] st1 st3"
    using runs_step [OF first] by simp
  from X [folded stx_def, folded st1_def, OF this] have run: "runs D [OptimizeGroupTask (memo_id ?g)] st st3" .
  have "done_list st3 M (Suc c + ?n) lo ps"
    using b by (intro done_frame(2) [OF st2(3) agree_mono [OF u(2)]]) auto
  then have "done_at st3 M (Suc c + ?n) lo (RelNode op ps)"
    using b n2 u(3,4) by (auto intro!: exI [of _ "Suc c"])
  moreover have "agree ({..c} - {lo<..group_at lo (RelNode op ps)}) st st3"
    using b by (intro agree_mono [OF agree_trans [OF agree_trans [OF agree_trans [OF agx [of UNIV] ag1] st2(4)] u(2)]])
      (auto simp: group_at_node)
  ultimately show ?case
    using run u(1) by (intro exI [of _ st3]) (simp add: optimized_def group_at_node)
qed


section \<open>The first memo\<close>

abbreviation start :: "Memo \<Rightarrow> cascades" where "start m \<equiv> Cascades\<lparr>memo := m\<rparr>"

lemma ready_new: "ready (start Memo_new) 0"
  by (simp add: ready_def Cascades_def Memo_new_def memo_id_def)

lemma enter_new:
  assumes "ready (start m) c" "Suc (Suc c) < 2 ^ 64"
    and m1: "m1 = enter_node (memo_id (Suc c)) (memo_id (Suc (Suc c))) \<lparr>memo_node = op, memo_children = map memo_id cs\<rparr>
      (m\<lparr>group_expr_counter := memo_id (Suc (Suc c))\<rparr>)"
  shows "ready (start m1) (Suc (Suc c))" "fresh_node (start m1) (Suc c) (Suc (Suc c)) op cs" "agree {..c} (start m) (start m1)"
proof -
  have free: "groups m (memo_id j) = None \<and> expr_nodes m (memo_id j) = None \<and> expr_group m (memo_id j) = None"
    if "c < j" "j < 2 ^ 64" for j
    using assms(1) that unfolding ready_def by simp
  from free [of "Suc c"] free [of "Suc (Suc c)"] assms(2)
  have f: "expr_nodes m1 = (expr_nodes m)(memo_id (Suc c) \<mapsto> \<lparr>memo_node = op, memo_children = map memo_id cs\<rparr>)"
    "expr_group m1 = (expr_group m)(memo_id (Suc c) \<mapsto> memo_id (Suc (Suc c)))"
    "groups m1 = (groups m)(memo_id (Suc (Suc c)) \<mapsto> \<lparr>group_exprs = [memo_id (Suc c)], winner = None\<rparr>)"
    "merged_groups m1 = merged_groups m" "group_expr_counter m1 = memo_id (Suc (Suc c))"
    by (simp_all add: m1 enter_node_def addExprToGroup_def new_entry_def)
  have ne: "memo_id j \<noteq> memo_id (Suc c)" "memo_id j \<noteq> memo_id (Suc (Suc c))" if "j \<le> c \<or> Suc (Suc c) < j" "j < 2 ^ 64" for j
    using that assms(2) by (auto simp: memo_id_eq)
  have "groups m1 (memo_id j) = None \<and> expr_nodes m1 (memo_id j) = None \<and> expr_group m1 (memo_id j) = None"
    if "Suc (Suc c) < j" "j < 2 ^ 64" for j
    using that ne [of j] free [of j] by (simp add: f)
  with assms(1) show "ready (start m1) (Suc (Suc c))" unfolding ready_def by (simp add: f Cascades_def)
  show "fresh_node (start m1) (Suc c) (Suc (Suc c)) op cs" by (simp add: fresh_node_def f Cascades_def)
  show "agree {..c} (start m) (start m1)"
    using ne assms(2) by (simp add: agree_def f)
qed

lemma InitMemo_fresh:
  "ready (start m) lo \<Longrightarrow> group_at lo p < 2 ^ 64 \<Longrightarrow> \<exists>e m1. InitMemo p m = ((memo_id (group_at lo p), e), m1) \<and>
     ready (start m1) (group_at lo p) \<and> fresh_at (start m1) lo p \<and> agree {..lo} (start m) (start m1)"
  "ready (start m) lo \<Longrightarrow> end_at lo ps < 2 ^ 64 \<Longrightarrow> \<exists>m1. InitInputs ps m = (map memo_id (groups_at lo ps), m1) \<and>
     ready (start m1) (end_at lo ps) \<and> fresh_list (start m1) lo ps \<and> agree {..lo} (start m) (start m1)"
proof (induction p m and ps m arbitrary: lo and lo rule: InitMemo_InitInputs.induct)
  case (1 op ps m)
  let ?hi = "end_at lo ps"
  have hi: "Suc (Suc ?hi) < 2 ^ 64" "lo \<le> ?hi" using 1(3) end_at_ge by (simp_all add: group_at_node)
  obtain m1 where m1: "InitInputs ps m = (map memo_id (groups_at lo ps), m1)" "ready (start m1) ?hi"
    "fresh_list (start m1) lo ps" "agree {..lo} (start m) (start m1)"
    using 1(1) [of lo] 1(2) hi by auto
  define m2 where "m2 = enter_node (memo_id (Suc ?hi)) (memo_id (Suc (Suc ?hi))) \<lparr>memo_node = op, memo_children = map memo_id (groups_at lo ps)\<rparr>
      (m1\<lparr>group_expr_counter := memo_id (Suc (Suc ?hi))\<rparr>)"
  note e = enter_new [OF m1(2) hi(1) m2_def]
  have "group_expr_counter m1 = memo_id ?hi" using m1(2) by (simp add: ready_def)
  with m1(1) have "InitMemo (RelNode op ps) m = ((memo_id (Suc (Suc ?hi)), memo_id (Suc ?hi)), m2)"
    by (simp add: NextId_def memo_id_Suc memo_id_Suc_Suc m2_def)
  moreover have "fresh_list (start m2) lo ps"
    by (rule fresh_frame(2) [OF m1(3) agree_mono [OF e(3)]]) auto
  moreover have "agree {..lo} (start m) (start m2)"
    using hi(2) by (intro agree_mono [OF agree_trans [OF m1(4) e(3)]]) auto
  ultimately show ?case using e(1,2) by (simp add: group_at_node)
next
  case (2 m)
  then show ?case by simp
next
  case (3 p ps m)
  have hi: "lo < group_at lo p" "group_at lo p \<le> end_at (group_at lo p) ps" by (simp_all add: group_at_gt end_at_ge)
  with 3(4) have "group_at lo p < 2 ^ 64" by simp
  with 3(1,3) obtain e m1 where m1: "InitMemo p m = ((memo_id (group_at lo p), e), m1)" "ready (start m1) (group_at lo p)"
    "fresh_at (start m1) lo p" "agree {..lo} (start m) (start m1)"
    by blast
  from 3(2) [OF m1(1) [symmetric] refl refl m1(2)] 3(4) obtain m2 where m2: "InitInputs ps m1 = (map memo_id (groups_at (group_at lo p) ps), m2)"
    "ready (start m2) (end_at (group_at lo p) ps)" "fresh_list (start m2) (group_at lo p) ps" "agree {..group_at lo p} (start m1) (start m2)"
    by auto
  have "fresh_at (start m2) lo p"
    by (rule fresh_frame(1) [OF m1(3) agree_mono [OF m2(4)]]) auto
  moreover have "agree {..lo} (start m) (start m2)"
    using hi by (intro agree_mono [OF agree_trans [OF m1(4) m2(4)]]) auto
  ultimately show ?case using m1(1) m2 by simp
qed

section \<open>The best plan\<close>

lemma best_done:
  "done_at st M c lo p \<Longrightarrow> ready st c1 \<Longrightarrow> nodes_of p \<le> fuel \<Longrightarrow>
     getBestGroupBind fuel (memo_id (group_at lo p)) (memo st) = Inr (to_physical p, memo st)"
  "done_list st M c lo ps \<Longrightarrow> ready st c1 \<Longrightarrow> sum_list (map nodes_of ps) \<le> fuel \<Longrightarrow>
     bind_children fuel (map memo_id (groups_at lo ps)) (memo st) = Inr (map to_physical ps, memo st)"
proof (induction st M c lo p and st M c lo ps arbitrary: fuel and fuel rule: done_at_done_list.induct)
  case (1 st M c lo op ps)
  obtain fuel1 where fuel: "fuel = Suc fuel1" "sum_list (map nodes_of ps) \<le> fuel1"
    using 1(4) by (cases fuel) auto
  have "bind_children fuel1 (map memo_id (groups_at lo ps)) (memo st) = Inr (map to_physical ps, memo st)"
    using 1(1) [OF _ 1(3) fuel(2)] 1(2) by simp
  with 1(2,3) fuel(1) show ?case
    by (auto simp: getBestGroupBind.simps [of "Suc fuel1"] group_at_node known_group GetExprMemoNode_def)
next
  case (2 st M c lo)
  then show ?case by simp
next
  case (3 st M c lo p ps)
  then show ?case by simp
qed

lemma optimizer_ends:
  assumes "has_rules p" "3 * nodes_of p < 2 ^ 64"
  shows "\<exists>k. \<forall>fuel \<ge> k. BuildPlan D fuel True p = Inr (Some (to_physical p))"
proof -
  let ?M = "group_at 0 p"
  obtain e m where m: "InitMemo p Memo_new = ((memo_id ?M, e), m)" "ready (start m) ?M" "fresh_at (start m) 0 p"
    using InitMemo_fresh(1) [OF ready_new, of p] assms(2) by (auto simp: group_at_def)
  obtain st where st: "optimized D ?M (start m) ?M 0 p st"
    using optimizes [OF assms(1) m(2,3), of ?M D] assms(2) by (auto simp: group_at_def)
  obtain k where k: "\<And>n. k \<le> n \<Longrightarrow> fireOptimizeTask D n [OptimizeGroupTask (memo_id ?M)] (start m) = Inr st"
    using runs_all st unfolding optimized_def by meson
  have best: "getBestGroupBind n (memo_id ?M) (memo st) = Inr (to_physical p, memo st)" if "nodes_of p \<le> n" for n
    using best_done(1) st that unfolding optimized_def by blast
  have "memo Cascades = Memo_new" by (simp add: Cascades_def)
  with m(1) k best have "BuildPlan D n True p = Inr (Some (to_physical p))" if "max k (nodes_of p) \<le> n" for n
    using that by (simp add: BuildPlan_def FindBestExp_def GetBestPlan_def del: fireOptimizeTask.simps)
  then show ?thesis by blast
qed

text \<open>C31: The optimizer ends and returns the physical plan. For a plan of result sets, filters and table
  scans, in any shape, finitely many tasks empty the stack (the memo neither grows without end nor
  sends a task back to itself), every group gets a winner, and the plan that is put together from
  the winners is the logical plan with each operator replaced by its physical one. The plan must be
  small enough for its numbers to fit into 64 bits: two for each node and one more for each
  operator a rule makes. It holds for every arithmetic of costs.\<close>

theorem optimizer_returns_physical_plan:
  assumes "has_rules p" "3 * nodes_of p < 2 ^ 64"
  shows "\<exists>k. \<forall>fuel \<ge> k. BuildPlan D fuel True p = Inr (Some (to_physical p))"
  by (rule optimizer_ends [OF assms])

definition bits_ops :: double_ops where
  "bits_ops = \<lparr>d_add = (\<lambda>a b. a + b), d_less = (\<lambda>a b. a < b)\<rparr>"

definition scan_of_nothing :: TableScan where
  "scan_of_nothing = \<lparr>scan_table = \<lparr>rel_schema = None, rel_table = None\<rparr>, primary_ranges = [], primary_filters = [], table_filters = []\<rparr>"

theorem optimizer_returns_physical_plan_witness:
  "\<exists>k. \<forall>fuel \<ge> k. BuildPlan bits_ops fuel True
     (RelNode LogicalResultSet [RelNode (LogicalFilter []) [RelNode (LogicalTableScan scan_of_nothing) []]]) =
     Inr (Some (RelNode PhysicalResultSet [RelNode (PhysicalFilter []) [RelNode (PhysicalTableScan scan_of_nothing) []]]))"
  using optimizer_returns_physical_plan
    [of "RelNode LogicalResultSet [RelNode (LogicalFilter []) [RelNode (LogicalTableScan scan_of_nothing) []]]" bits_ops]
  by simp

end
