(* ===== verification/PrintingTheorems.thy ===== *)
theory PrintingTheorems
  imports Printing
begin

text \<open>
  Printed samples: with the flag set, the text of a statement does not depend on the literals that the
  flag reaches, on the number of the values of an \<open>IN\<close> list nor on the rows of an \<open>INSERT\<close>. It does
  depend on those in the \<open>LIMIT\<close> of a \<open>UNION\<close> and in the \<open>SET\<close> list of \<open>LOAD DATA\<close>, to which the
  code does not hand the flag.
\<close>

section \<open>Shapes\<close>

text \<open>The shape of a tree: literals are blank, the rows of an insertion and the values of a list of
  constants are left out, and the flag is set in all the parts that the code reaches. It does not
  reach the order and the limit of a union nor the assignments of \<open>LOAD DATA\<close>: these stay as they
  are.\<close>

fun shape :: "node \<Rightarrow> node" where
  "shape (LiteralNode b lit) = LiteralNode True LT_NULL"
| "shape (FuncNode h cs) =
     FuncNode (h\<lparr>fe_print_sample := True\<rparr>)
       (if fe_func_type h = FT_IN \<and> has_subquery cs = Inr False then take 1 (map shape cs) else map shape cs)"
| "shape (RowNode cs) = RowNode (map shape cs)"
| "shape (SubqueryNode q) = SubqueryNode (shape q)"
| "shape (CompareSubqueryNode cmp t l r) = CompareSubqueryNode cmp t (shape l) (shape r)"
| "shape (ExistsSubqueryNode is_not q) = ExistsSubqueryNode is_not (shape q)"
| "shape (TableSourceNode t a d hs) = TableSourceNode t a (shape d) hs"
| "shape (JoinNode h l r e us) = JoinNode h (shape l) (shape r) (shape e) us"
| "shape (ByItemNode is_desc e) = ByItemNode is_desc (shape e)"
| "shape (GroupByNode cs) = GroupByNode (map shape cs)"
| "shape (OrderByNode cs) = OrderByNode (map shape cs)"
| "shape (LimitNode off cnt) = LimitNode (shape off) (shape cnt)"
| "shape (SelectFieldNode e as_name org_name f) = SelectFieldNode (shape e) as_name org_name f"
| "shape (AssignmentNode n e) = AssignmentNode n (shape e)"
| "shape (DeleteNode h f ts wh ord lim) = DeleteNode h (shape f) ts (shape wh) (shape ord) (shape lim)"
| "shape (UpdateNode is_ignore t sets wh ord lim) =
     UpdateNode is_ignore (shape t) (map shape sets) (shape wh) (shape ord) (shape lim)"
| "shape (SelectNode h fs t wh gr hav ord lim) =
     SelectNode h (map shape fs) (shape t) (shape wh) (shape gr) (shape hav) (shape ord) (shape lim)"
| "shape (UnionNode h ss ord lim) = UnionNode h (map shape ss) ord lim"
| "shape (InsertNode h q ls ds) = InsertNode (h\<lparr>in_print_sample := True\<rparr>) (shape q) [] (map shape ds)"
| "shape n = n"

section \<open>What the printing of a parent sees of its children\<close>

definition same :: "(u64 \<Rightarrow> bytes) \<Rightarrow> node \<Rightarrow> node \<Rightarrow> bool" where
  "same pd a b \<longleftrightarrow> (a = Nullptr \<longleftrightarrow> b = Nullptr) \<and> expr_type a = expr_type b \<and> node_type a = node_type b \<and>
     to_stream pd a = to_stream pd b"

lemma same_call: "same pd a b \<Longrightarrow> call (a, r) = call (b, r)"
  by (auto simp: same_def call_def)

lemma same_clause: "same pd a b \<Longrightarrow> clause k (a, r) = clause k (b, r)"
  by (auto simp: same_def clause_def)

lemma same_print: "same pd a b \<Longrightarrow> to_stream pd a = to_stream pd b"
  by (simp add: same_def)

lemmas same_simps = same_call same_clause same_print

lemma same_calls: "list_all2 (same pd) as bs \<Longrightarrow>
    map (\<lambda>c. f (call (c, to_stream pd c))) as = map (\<lambda>c. f (call (c, to_stream pd c))) bs"
  by (induction as bs rule: list_all2_induct) (simp_all add: same_call same_print)

lemma same_prints: "list_all2 (same pd) as bs \<Longrightarrow> map (\<lambda>c. f (to_stream pd c)) as = map (\<lambda>c. f (to_stream pd c)) bs"
  by (induction as bs rule: list_all2_induct) (simp_all add: same_print)

lemmas same_items = same_prints [where f = "\<lambda>r. emit [put '' '', r]"]
lemmas same_call_items = same_calls [where f = "\<lambda>r. emit [put '' '', r]"]
lemmas same_call_list = same_calls [where f = "\<lambda>r. r"]

lemma same_subquery: "list_all2 (same pd) as bs \<Longrightarrow> has_subquery as = has_subquery bs"
  by (induction as bs rule: list_all2_induct) (simp_all add: same_def cong: if_cong)

lemma same_lists:
  assumes "list_all2 (same pd) as bs"
  shows "map (to_stream pd) as = map (to_stream pd) bs" "as = [] \<longleftrightarrow> bs = []"
    "as \<noteq> [] \<Longrightarrow> expr_type (hd as) = expr_type (hd bs)"
  using assms same_prints [OF assms, of "\<lambda>x. x"]
  by (auto simp: same_def dest: list_all2_Cons1 [THEN iffD1] elim: list.rel_cases)

lemma mapR_Inr: "mapR f xs = Inr ys \<Longrightarrow> list_all2 (\<lambda>x y. f x = Inr y) xs ys"
  by (induction xs arbitrary: ys) (auto simp: bindR_Inr_iff)

lemma same_children:
  assumes "mapR (set_print_sample b) cs = Inr cs1"
    "\<And>c c1. c \<in> set cs \<Longrightarrow> set_print_sample b c = Inr c1 \<Longrightarrow> same pd c1 (shape c)"
  shows "list_all2 (same pd) cs1 (map shape cs)"
  using assms(2) mapR_Inr [OF assms(1)]
  by (simp add: list_all2_conv_all_nth)

text \<open>An optional child.\<close>

lemma same_optional:
  assumes "(if n = Nullptr then Inr Nullptr else set_print_sample b n) = Inr n1"
    "\<And>n1. set_print_sample b n = Inr n1 \<Longrightarrow> same pd n1 (shape n)"
  shows "same pd n1 (shape n)"
  using assms by (auto simp: same_def split: if_splits)

lemma FuncExpr_same:
  assumes "list_all2 (same pd) as bs"
  shows "FuncExpr_to_stream h (map (\<lambda>c. (c, to_stream pd c)) as) = FuncExpr_to_stream h (map (\<lambda>c. (c, to_stream pd c)) bs)"
proof -
  have s: "map snd (map (\<lambda>c. (c, to_stream pd c)) as) = map snd (map (\<lambda>c. (c, to_stream pd c)) bs)"
    using same_lists(1) [OF assms] by (simp add: comp_def)
  have f: "has_subquery (map fst (map (\<lambda>c. (c, to_stream pd c)) as)) = has_subquery (map fst (map (\<lambda>c. (c, to_stream pd c)) bs))"
    using same_subquery [OF assms] by (simp add: comp_def)
  have e: "(if map (\<lambda>c. (c, to_stream pd c)) as = [] then Inl Undefined_Behaviour else expr_type (fst (hd (map (\<lambda>c. (c, to_stream pd c)) as)))) =
      (if map (\<lambda>c. (c, to_stream pd c)) bs = [] then Inl Undefined_Behaviour else expr_type (fst (hd (map (\<lambda>c. (c, to_stream pd c)) bs))))"
    using same_lists(2,3) [OF assms] by (cases "as = []") (simp_all add: hd_map)
  have b: "FuncExpr_body h (map fst (map (\<lambda>c. (c, to_stream pd c)) as)) rs child =
      FuncExpr_body h (map fst (map (\<lambda>c. (c, to_stream pd c)) bs)) rs child" for rs child
    unfolding FuncExpr_body_def f ..
  show ?thesis unfolding FuncExpr_to_stream_def Let_def s b e ..
qed

text \<open>The list of an \<open>IN\<close> is not printed in a sample unless there is a subquery.\<close>

lemma FuncExpr_in:
  assumes "fe_func_type h = FT_IN" "fe_print_sample h" "has_subquery (c # cs) = Inr False"
  shows "FuncExpr_to_stream h (map (\<lambda>c. (c, to_stream pd c)) (c # cs)) = FuncExpr_to_stream h [(c, to_stream pd c)]"
proof -
  have "has_subquery [c] = Inr False" using assms(3) by (auto simp: bindR_Inr_iff split: if_splits)
  with assms show ?thesis by (simp add: FuncExpr_to_stream_def FuncExpr_body_def Let_def comp_def)
qed


lemma FuncExpr_shape:
  assumes "list_all2 (same pd) cs1 (map shape cs)"
  shows "to_stream pd (FuncNode (h\<lparr>fe_print_sample := True\<rparr>) cs1) = to_stream pd (shape (FuncNode h cs))"
proof (cases "fe_func_type h = FT_IN \<and> has_subquery cs = Inr False \<and> cs \<noteq> []")
  case False
  with FuncExpr_same [OF assms] show ?thesis by (auto simp: comp_def)
next
  case True
  then obtain c d ds where d: "map shape cs = d # ds" "cs1 = c # tl cs1"
    using assms by (cases cs) (auto simp: list_all2_Cons2)
  have t: "expr_type (shape c) = expr_type c" for c by (cases c) simp_all
  have "has_subquery (map shape cs) = has_subquery cs" for cs by (induction cs) (simp_all add: t cong: if_cong)
  with True d have "has_subquery (d # ds) = Inr False" by metis
  then have "FuncExpr_to_stream (h\<lparr>fe_print_sample := True\<rparr>) (map (\<lambda>c. (c, to_stream pd c)) (d # ds)) =
      FuncExpr_to_stream (h\<lparr>fe_print_sample := True\<rparr>) [(d, to_stream pd d)]"
    using True by (intro FuncExpr_in) simp_all
  with FuncExpr_same [OF assms] True d(1) show ?thesis by simp
qed

section \<open>Samples\<close>

lemma shape_same: "set_print_sample True n = Inr n1 \<Longrightarrow> same pd n1 (shape n)"
proof (induction n arbitrary: n1)
  case (FuncNode h cs)
  obtain cs1 where cs1: "mapR (set_print_sample True) cs = Inr cs1" "n1 = FuncNode (h\<lparr>fe_print_sample := True\<rparr>) cs1"
    using FuncNode.prems by (auto simp: bindR_Inr_iff)
  from FuncExpr_shape [OF same_children [OF cs1(1) FuncNode.IH]] cs1(2) show ?case
    by (simp add: same_def del: to_stream.simps)
next
  case (RowNode cs)
  then obtain cs1 where c: "mapR (set_print_sample True) cs = Inr cs1"
      "n1 = RowNode cs1"
    by (auto simp: bindR_Inr_iff)
  note cs2 = same_children [OF c(1) RowNode.IH]
  show ?case unfolding c(2) same_def
    by (simp add: RowExpr_to_stream_def comp_def
      same_lists(1) [OF cs2]
      same_lists(2) [OF cs2]
      same_items [OF cs2]
      same_call_items [OF cs2]
      same_call_list [OF cs2])
next
  case (GroupByNode cs)
  then obtain cs1 where c: "mapR (set_print_sample True) cs = Inr cs1"
      "n1 = GroupByNode cs1"
    by (auto simp: bindR_Inr_iff)
  note cs2 = same_children [OF c(1) GroupByNode.IH]
  show ?case unfolding c(2) same_def
    by (simp add: GroupByClause_to_stream_def comp_def
      same_lists(1) [OF cs2]
      same_lists(2) [OF cs2]
      same_items [OF cs2]
      same_call_items [OF cs2]
      same_call_list [OF cs2])
next
  case (OrderByNode cs)
  then obtain cs1 where c: "mapR (set_print_sample True) cs = Inr cs1"
      "n1 = OrderByNode cs1"
    by (auto simp: bindR_Inr_iff)
  note cs2 = same_children [OF c(1) OrderByNode.IH]
  show ?case unfolding c(2) same_def
    by (simp add: OrderByClause_to_stream_def comp_def
      same_lists(1) [OF cs2]
      same_lists(2) [OF cs2]
      same_items [OF cs2]
      same_call_items [OF cs2]
      same_call_list [OF cs2])
next
  case (SubqueryNode q)
  then obtain q1 where c: "set_print_sample True q = Inr q1"
      "n1 = SubqueryNode q1"
    by (auto simp: bindR_Inr_iff)
  note q2 = SubqueryNode.IH [OF c(1)]
  show ?case unfolding c(2) same_def
    by (simp add: SubqueryExpr_to_stream_def comp_def
      same_call [OF q2]
      same_clause [OF q2]
      same_print [OF q2] q2 [unfolded same_def])
next
  case (CompareSubqueryNode cmp t l r)
  then obtain l1 r1 where c: "set_print_sample True l = Inr l1"
      "set_print_sample True r = Inr r1"
      "n1 = CompareSubqueryNode cmp t l1 r1"
    by (auto simp: bindR_Inr_iff)
  note l2 = CompareSubqueryNode.IH(1) [OF c(1)]
  note r2 = CompareSubqueryNode.IH(2) [OF c(2)]
  show ?case unfolding c(3) same_def
    by (simp add: CompareSubqueryExpr_to_stream_def comp_def
      same_call [OF l2]
      same_clause [OF l2]
      same_print [OF l2]
      same_call [OF r2]
      same_clause [OF r2]
      same_print [OF r2])
next
  case (ExistsSubqueryNode is_not q)
  then obtain q1 where c: "set_print_sample True q = Inr q1"
      "n1 = ExistsSubqueryNode is_not q1"
    by (auto simp: bindR_Inr_iff)
  note q2 = ExistsSubqueryNode.IH [OF c(1)]
  show ?case unfolding c(2) same_def
    by (simp add: ExistsSubqueryExpr_to_stream_def comp_def
      same_call [OF q2]
      same_clause [OF q2]
      same_print [OF q2])
next
  case (TableSourceNode t a d hs)
  then obtain d1 where c: "(if d = Nullptr then Inr Nullptr else set_print_sample True d) = Inr d1"
      "n1 = TableSourceNode t a d1 hs"
    by (auto simp: bindR_Inr_iff)
  note d2 = same_optional [OF c(1) TableSourceNode.IH]
  show ?case unfolding c(2) same_def
    by (simp add: TableSource_to_stream_def comp_def
      same_call [OF d2]
      same_clause [OF d2]
      same_print [OF d2])
next
  case (JoinNode h l r e us)
  then obtain l1 r1 e1 where c: "(if l = Nullptr then Inr Nullptr else set_print_sample True l) = Inr l1"
      "(if r = Nullptr then Inr Nullptr else set_print_sample True r) = Inr r1"
      "(if e = Nullptr then Inr Nullptr else set_print_sample True e) = Inr e1"
      "n1 = JoinNode h l1 r1 e1 us"
    by (auto simp: bindR_Inr_iff)
  note l2 = same_optional [OF c(1) JoinNode.IH(1)]
  note r2 = same_optional [OF c(2) JoinNode.IH(2)]
  note e2 = same_optional [OF c(3) JoinNode.IH(3)]
  show ?case unfolding c(4) same_def
    by (simp add: JoinNode_to_stream_def comp_def
      same_call [OF l2]
      same_clause [OF l2]
      same_print [OF l2]
      same_call [OF r2]
      same_clause [OF r2]
      same_print [OF r2]
      same_call [OF e2]
      same_clause [OF e2]
      same_print [OF e2])
next
  case (ByItemNode is_desc e)
  then obtain e1 where c: "(if e = Nullptr then Inr Nullptr else set_print_sample True e) = Inr e1"
      "n1 = ByItemNode is_desc e1"
    by (auto simp: bindR_Inr_iff)
  note e2 = same_optional [OF c(1) ByItemNode.IH]
  show ?case unfolding c(2) same_def
    by (simp add: ByItem_to_stream_def comp_def
      same_call [OF e2]
      same_clause [OF e2]
      same_print [OF e2])
next
  case (LimitNode off cnt)
  then obtain off1 cnt1 where c: "(if off = Nullptr then Inr Nullptr else set_print_sample True off) = Inr off1"
      "(if cnt = Nullptr then Inr Nullptr else set_print_sample True cnt) = Inr cnt1"
      "n1 = LimitNode off1 cnt1"
    by (auto simp: bindR_Inr_iff)
  note off2 = same_optional [OF c(1) LimitNode.IH(1)]
  note cnt2 = same_optional [OF c(2) LimitNode.IH(2)]
  show ?case unfolding c(3) same_def
    by (simp add: LimitClause_to_stream_def comp_def
      same_call [OF off2]
      same_clause [OF off2]
      same_print [OF off2]
      same_call [OF cnt2]
      same_clause [OF cnt2]
      same_print [OF cnt2])
next
  case (SelectFieldNode e as_name org_name f)
  then obtain e1 where c: "(if e = Nullptr then Inr Nullptr else set_print_sample True e) = Inr e1"
      "n1 = SelectFieldNode e1 as_name org_name f"
    by (auto simp: bindR_Inr_iff)
  note e2 = same_optional [OF c(1) SelectFieldNode.IH]
  show ?case unfolding c(2) same_def
    by (simp add: SelectField_to_stream_def comp_def
      same_call [OF e2]
      same_clause [OF e2]
      same_print [OF e2])
next
  case (AssignmentNode n e)
  then obtain e1 where c: "(if e = Nullptr then Inr Nullptr else set_print_sample True e) = Inr e1"
      "n1 = AssignmentNode n e1"
    by (auto simp: bindR_Inr_iff)
  note e2 = same_optional [OF c(1) AssignmentNode.IH]
  show ?case unfolding c(2) same_def
    by (simp add: Assignment_to_stream_def comp_def
      same_call [OF e2]
      same_clause [OF e2]
      same_print [OF e2])
next
  case (DeleteNode h f ts wh ord lim)
  then obtain f1 wh1 ord1 lim1 where c: "(if f = Nullptr then Inr Nullptr else set_print_sample True f) = Inr f1"
      "(if wh = Nullptr then Inr Nullptr else set_print_sample True wh) = Inr wh1"
      "(if ord = Nullptr then Inr Nullptr else set_print_sample True ord) = Inr ord1"
      "(if lim = Nullptr then Inr Nullptr else set_print_sample True lim) = Inr lim1"
      "n1 = DeleteNode h f1 ts wh1 ord1 lim1"
    by (auto simp: bindR_Inr_iff)
  note f2 = same_optional [OF c(1) DeleteNode.IH(1)]
  note wh2 = same_optional [OF c(2) DeleteNode.IH(2)]
  note ord2 = same_optional [OF c(3) DeleteNode.IH(3)]
  note lim2 = same_optional [OF c(4) DeleteNode.IH(4)]
  show ?case unfolding c(5) same_def
    by (simp add: DeleteStmt_to_stream_def comp_def
      same_call [OF f2]
      same_clause [OF f2]
      same_print [OF f2]
      same_call [OF wh2]
      same_clause [OF wh2]
      same_print [OF wh2]
      same_call [OF ord2]
      same_clause [OF ord2]
      same_print [OF ord2]
      same_call [OF lim2]
      same_clause [OF lim2]
      same_print [OF lim2])
next
  case (UpdateNode is_ignore t sets wh ord lim)
  then obtain sets1 t1 wh1 ord1 lim1 where c: "mapR (set_print_sample True) sets = Inr sets1"
      "(if t = Nullptr then Inr Nullptr else set_print_sample True t) = Inr t1"
      "(if wh = Nullptr then Inr Nullptr else set_print_sample True wh) = Inr wh1"
      "(if ord = Nullptr then Inr Nullptr else set_print_sample True ord) = Inr ord1"
      "(if lim = Nullptr then Inr Nullptr else set_print_sample True lim) = Inr lim1"
      "n1 = UpdateNode is_ignore t1 sets1 wh1 ord1 lim1"
    by (auto simp: bindR_Inr_iff)
  note sets2 = same_children [OF c(1) UpdateNode.IH(2)]
  note t2 = same_optional [OF c(2) UpdateNode.IH(1)]
  note wh2 = same_optional [OF c(3) UpdateNode.IH(3)]
  note ord2 = same_optional [OF c(4) UpdateNode.IH(4)]
  note lim2 = same_optional [OF c(5) UpdateNode.IH(5)]
  show ?case unfolding c(6) same_def
    by (simp add: UpdateStmt_to_stream_def comp_def
      same_lists(1) [OF sets2]
      same_lists(2) [OF sets2]
      same_items [OF sets2]
      same_call_items [OF sets2]
      same_call_list [OF sets2]
      same_call [OF t2]
      same_clause [OF t2]
      same_print [OF t2]
      same_call [OF wh2]
      same_clause [OF wh2]
      same_print [OF wh2]
      same_call [OF ord2]
      same_clause [OF ord2]
      same_print [OF ord2]
      same_call [OF lim2]
      same_clause [OF lim2]
      same_print [OF lim2])
next
  case (SelectNode h fs t wh gr hav ord lim)
  then obtain fs1 t1 wh1 gr1 hav1 ord1 lim1 where c: "mapR (set_print_sample True) fs = Inr fs1"
      "(if t = Nullptr then Inr Nullptr else set_print_sample True t) = Inr t1"
      "(if wh = Nullptr then Inr Nullptr else set_print_sample True wh) = Inr wh1"
      "(if gr = Nullptr then Inr Nullptr else set_print_sample True gr) = Inr gr1"
      "(if hav = Nullptr then Inr Nullptr else set_print_sample True hav) = Inr hav1"
      "(if ord = Nullptr then Inr Nullptr else set_print_sample True ord) = Inr ord1"
      "(if lim = Nullptr then Inr Nullptr else set_print_sample True lim) = Inr lim1"
      "n1 = SelectNode h fs1 t1 wh1 gr1 hav1 ord1 lim1"
    by (auto simp: bindR_Inr_iff)
  note fs2 = same_children [OF c(1) SelectNode.IH(1)]
  note t2 = same_optional [OF c(2) SelectNode.IH(2)]
  note wh2 = same_optional [OF c(3) SelectNode.IH(3)]
  note gr2 = same_optional [OF c(4) SelectNode.IH(4)]
  note hav2 = same_optional [OF c(5) SelectNode.IH(5)]
  note ord2 = same_optional [OF c(6) SelectNode.IH(6)]
  note lim2 = same_optional [OF c(7) SelectNode.IH(7)]
  show ?case unfolding c(8) same_def
    by (simp add: SelectStmt_to_stream_def comp_def
      same_lists(1) [OF fs2]
      same_lists(2) [OF fs2]
      same_items [OF fs2]
      same_call_items [OF fs2]
      same_call_list [OF fs2]
      same_call [OF t2]
      same_clause [OF t2]
      same_print [OF t2]
      same_call [OF wh2]
      same_clause [OF wh2]
      same_print [OF wh2]
      same_call [OF gr2]
      same_clause [OF gr2]
      same_print [OF gr2]
      same_call [OF hav2]
      same_clause [OF hav2]
      same_print [OF hav2]
      same_call [OF ord2]
      same_clause [OF ord2]
      same_print [OF ord2]
      same_call [OF lim2]
      same_clause [OF lim2]
      same_print [OF lim2])
next
  case (UnionNode h ss ord lim)
  then obtain ss1 where c: "mapR (set_print_sample True) ss = Inr ss1"
      "n1 = UnionNode h ss1 ord lim"
    by (auto simp: bindR_Inr_iff)
  note ss2 = same_children [OF c(1) UnionNode.IH(1)]
  show ?case unfolding c(2) same_def
    by (simp add: UnionStmt_to_stream_def comp_def
      same_lists(1) [OF ss2]
      same_lists(2) [OF ss2]
      same_items [OF ss2]
      same_call_items [OF ss2]
      same_call_list [OF ss2])
next
  case (InsertNode h q ls ds)
  then obtain ls1 q1 ds1 where c: "(if q = Nullptr then Inr Nullptr else set_print_sample True q) = Inr q1"
      "mapR (set_print_sample True) ds = Inr ds1" "n1 = InsertNode (h\<lparr>in_print_sample := True\<rparr>) q1 ls1 ds1"
    by (auto simp: bindR_Inr_iff)
  note q2 = same_optional [OF c(1) InsertNode.IH(1)]
  note ds2 = same_children [OF c(2) InsertNode.IH(3)]
  show ?case unfolding c(3) same_def
    by (simp add: InsertStmt_to_stream_def comp_def Let_def same_lists(2) [OF ds2] same_call_items [OF ds2]
      same_print [OF q2] q2 [unfolded same_def])
qed (auto simp: same_def LiteralExpr_to_stream_def)

section \<open>What the flag does not reach\<close>

lemma emit_append: "emit (xs @ ys) = Inr z \<longleftrightarrow> (\<exists>x y. emit xs = Inr x \<and> emit ys = Inr y \<and> z = x @ y)"
proof -
  have "mapR (\<lambda>p. p) (xs @ ys) = bindR (mapR (\<lambda>p. p) xs) (\<lambda>us. bindR (mapR (\<lambda>p. p) ys) (\<lambda>vs. Inr (us @ vs)))"
    by (induction xs) (auto simp: bindR_def split: sum.split)
  then show ?thesis by (auto simp: emit_def bindR_Inr_iff)
qed

lemma emit_Cons: "emit (r # rs) = Inr z \<longleftrightarrow> (\<exists>x y. r = Inr x \<and> emit rs = Inr y \<and> z = x @ y)"
  by (auto simp: emit_def bindR_Inr_iff)

text \<open>Two outputs that differ in one part are the same only if the part is.\<close>

lemma emit_part:
  assumes "emit (ps @ r # qs) = Inr z" "emit (ps @ s # qs) = Inr z"
  shows "r = s"
  using assms by (auto simp: emit_append emit_Cons)

lemma sep_by_part: "\<exists>ps qs. \<forall>r. sep_by sep (map f us @ r # map f vs) = ps @ r # qs"
proof (induction us)
  case Nil
  show ?case by (cases vs) (auto intro: exI [of _ "[]"])
next
  case (Cons u us)
  then obtain ps qs where "\<forall>r. sep_by sep (map f us @ r # map f vs) = ps @ r # qs" by blast
  then have "\<forall>r. sep_by sep (map f (u # us) @ r # map f vs) = (f u # put sep # ps) @ r # qs"
    by (cases us) auto
  then show ?case by blast
qed

lemma union_limit_shown:
  assumes "UnionStmt_to_stream h cs ord (l, r) = Inr z" "UnionStmt_to_stream h cs ord (m, s) = Inr z"
    "l \<noteq> Nullptr" "m \<noteq> Nullptr"
  shows "r = s"
proof -
  define start where "start = [put (if un_is_in_braces h then ''('' else '''')] @
      sep_by (if un_distinct h then '' UNION '' else '' UNION ALL '') (map call cs) @
      clause '' ORDER BY'' ord @ [put '' LIMIT'']"
  have "UnionStmt_to_stream h cs ord (n, q) = emit (start @ q #
      [put (for_lock_str (un_lock h)), put (if un_is_in_braces h then '')'' else '''')])" if "n \<noteq> Nullptr" for n q
    using that by (simp add: UnionStmt_to_stream_def start_def clause_def [of "'' LIMIT''"])
  with assms show ?thesis by (metis emit_part)
qed

lemma load_assignments_last:
  "\<exists>ps. \<forall>sets. LoadDataStmt_to_stream h sets =
    emit (ps @ (if sets \<noteq> [] then [put '' SET ''] @ sep_by '', '' (map call sets) else []))"
  unfolding LoadDataStmt_to_stream_def append_assoc [symmetric] by (rule exI, rule allI, rule refl)

lemma load_assignment_shown:
  assumes "LoadDataStmt_to_stream h (us @ c # vs) = Inr z" "LoadDataStmt_to_stream h (us @ d # vs) = Inr z"
  shows "call c = call d"
proof -
  obtain ps qs where "\<forall>r. sep_by '', '' (map call us @ r # map call vs) = ps @ r # qs"
    using sep_by_part by blast
  moreover obtain start where "\<forall>sets. LoadDataStmt_to_stream h sets =
      emit (start @ (if sets \<noteq> [] then [put '' SET ''] @ sep_by '', '' (map call sets) else []))"
    using load_assignments_last by blast
  ultimately have "LoadDataStmt_to_stream h (us @ x # vs) = emit ((start @ [put '' SET ''] @ ps) @ call x # qs)" for x
    by simp
  with assms show ?thesis by (metis emit_part)
qed

text \<open>C36: The text of a sample hides the literals that the flag reaches: two trees are printed as the same
  text once the flag is set when they differ in nothing but the constants of an \<open>IN\<close> list, the rows of
  an insertion and literals outside the \<open>ORDER BY\<close> and \<open>LIMIT\<close> of a \<open>UNION\<close> and the \<open>SET\<close> list of
  \<open>LOAD DATA\<close>, however deep in subqueries, joins, clauses and assignments the literals are. There the
  samples show the literals: two unions with different limits, or two loads of data with a different
  assignment, print the same text only if the limits, or the assignments, print the same text without
  the flag.\<close>

theorem sample_hides_literals:
  assumes "set_print_sample True a = Inr a1" "set_print_sample True b = Inr b1"
  shows "(shape a = shape b \<longrightarrow> to_stream pd a1 = to_stream pd b1) \<and>
    (\<forall>h ss ord l m z. a = UnionNode h ss ord l \<and> b = UnionNode h ss ord m \<and> l \<noteq> Nullptr \<and> m \<noteq> Nullptr \<and>
      to_stream pd a1 = Inr z \<and> to_stream pd b1 = Inr z \<longrightarrow> to_stream pd l = to_stream pd m) \<and>
    (\<forall>h us e d vs z. a = LoadDataNode h (us @ e # vs) \<and> b = LoadDataNode h (us @ d # vs) \<and> e \<noteq> Nullptr \<and> d \<noteq> Nullptr \<and>
      to_stream pd a1 = Inr z \<and> to_stream pd b1 = Inr z \<longrightarrow> to_stream pd e = to_stream pd d)"
proof (intro conjI allI impI; (elim conjE)?)
  show "to_stream pd a1 = to_stream pd b1" if "shape a = shape b"
    using same_print [OF shape_same [OF assms(1)]] same_print [OF shape_same [OF assms(2)]] that by simp
next
  fix h ss ord l m z
  assume "a = UnionNode h ss ord l" "b = UnionNode h ss ord m" "l \<noteq> Nullptr" "m \<noteq> Nullptr"
    "to_stream pd a1 = Inr z" "to_stream pd b1 = Inr z"
  with assms show "to_stream pd l = to_stream pd m" by (auto simp: bindR_Inr_iff dest: union_limit_shown)
next
  fix h us e d vs z
  assume "a = LoadDataNode h (us @ e # vs)" "b = LoadDataNode h (us @ d # vs)" "e \<noteq> Nullptr" "d \<noteq> Nullptr"
    "to_stream pd a1 = Inr z" "to_stream pd b1 = Inr z"
  with assms have "LoadDataStmt_to_stream h (map (\<lambda>c. (c, to_stream pd c)) us @ (e, to_stream pd e) # map (\<lambda>c. (c, to_stream pd c)) vs) = Inr z"
    "LoadDataStmt_to_stream h (map (\<lambda>c. (c, to_stream pd c)) us @ (d, to_stream pd d) # map (\<lambda>c. (c, to_stream pd c)) vs) = Inr z"
    by auto
  from load_assignment_shown [OF this] \<open>e \<noteq> Nullptr\<close> \<open>d \<noteq> Nullptr\<close>
  show "to_stream pd e = to_stream pd d" by (simp add: call_def)
qed

definition plain_opts :: SelectStmtOpts where
  "plain_opts = \<lparr>so_distinct = False, so_sql_cache = False, so_calc_found_rows = False, so_straight_join = False,
     so_priority = PE_NO_PRIORITY\<rparr>"

definition age_in :: "u64 list \<Rightarrow> node" where
  "age_in vs =
     SelectNode \<lparr>select_opt = Some plain_opts, se_is_in_braces = False, se_lock = SL_NONE\<rparr> []
       (TableSourceNode (Some \<lparr>tn_db = [], tn_table = ascii ''t''\<rparr>) [] Nullptr [])
       (FuncNode \<lparr>fe_print_sample = False, fe_fn_name = ascii ''in'', fe_func_type = FT_IN, fe_is_not = False,
          fe_distinct = False, fe_is_star = False\<rparr>
          [ColumnNode \<lparr>cn_db = None, cn_table = None, cn_name = ascii ''age''\<rparr>,
           RowNode (map (\<lambda>v. LiteralNode False (LT_INT v)) vs)])
       Nullptr Nullptr Nullptr Nullptr"

definition first_rows :: "u64 \<Rightarrow> node" where
  "first_rows n = UnionNode \<lparr>un_distinct = True, un_lock = SL_NONE, un_is_in_braces = False\<rparr> [age_in [1], age_in [2]] Nullptr
     (LimitNode (LiteralNode False (LT_INT 0)) (LiteralNode False (LT_INT n)))"

text \<open>Both: a list of constants is hidden, the limit of a union shown.\<close>

theorem sample_hides_literals_witness:
  "\<exists>a1 b1 c1 d1. set_print_sample True (age_in [1, 2]) = Inr a1 \<and> set_print_sample True (age_in [7, 8, 9]) = Inr b1 \<and>
    a1 \<noteq> b1 \<and> to_stream (\<lambda>_. []) a1 = Inr (ascii ''SELECT FROM t WHERE (age IN (?))'') \<and>
    to_stream (\<lambda>_. []) b1 = Inr (ascii ''SELECT FROM t WHERE (age IN (?))'') \<and>
    set_print_sample True (first_rows 5) = Inr c1 \<and> set_print_sample True (first_rows 7) = Inr d1 \<and>
    to_stream (\<lambda>_. []) c1 =
      Inr (ascii ''SELECT FROM t WHERE (age IN (?)) UNION SELECT FROM t WHERE (age IN (?)) LIMIT 0, 5'') \<and>
    to_stream (\<lambda>_. []) d1 \<noteq> to_stream (\<lambda>_. []) c1"
proof -
  have m: "\<exists>a1. set_print_sample True (age_in [1, 2]) = Inr a1 \<and>
      to_stream (\<lambda>_. []) a1 = Inr (ascii ''SELECT FROM t WHERE (age IN (?))'')"
    by (rule exI, rule conjI, simp add: age_in_def, code_simp)
  then obtain a1 where a: "set_print_sample True (age_in [1, 2]) = Inr a1"
    "to_stream (\<lambda>_. []) a1 = Inr (ascii ''SELECT FROM t WHERE (age IN (?))'')" by blast
  obtain b1 where b: "set_print_sample True (age_in [7, 8, 9]) = Inr b1" by (simp add: age_in_def)
  have "a1 \<noteq> b1" using a(1) b by (auto simp: age_in_def)
  moreover have "shape (age_in [1, 2]) = shape (age_in [7, 8, 9])" by (simp add: age_in_def is_subquery_def)
  moreover have "\<exists>c1. set_print_sample True (first_rows 5) = Inr c1 \<and> to_stream (\<lambda>_. []) c1 =
      Inr (ascii ''SELECT FROM t WHERE (age IN (?)) UNION SELECT FROM t WHERE (age IN (?)) LIMIT 0, 5'')"
    by (rule exI, rule conjI, simp add: first_rows_def age_in_def, code_simp)
  then obtain c1 where c: "set_print_sample True (first_rows 5) = Inr c1" "to_stream (\<lambda>_. []) c1 =
      Inr (ascii ''SELECT FROM t WHERE (age IN (?)) UNION SELECT FROM t WHERE (age IN (?)) LIMIT 0, 5'')"
    by blast
  obtain d1 where d: "set_print_sample True (first_rows 7) = Inr d1" by (simp add: first_rows_def age_in_def)
  have l: "to_stream (\<lambda>_. []) (LimitNode (LiteralNode False (LT_INT 0)) (LiteralNode False (LT_INT 5))) \<noteq>
      to_stream (\<lambda>_. []) (LimitNode (LiteralNode False (LT_INT 0)) (LiteralNode False (LT_INT 7)))"
    by code_simp
  have "to_stream (\<lambda>_. []) d1 \<noteq> to_stream (\<lambda>_. []) c1"
    using sample_hides_literals [OF c(1) d, of "\<lambda>_. []"] c(2) l by (auto simp: first_rows_def)
  ultimately show ?thesis using sample_hides_literals [OF a(1) b, of "\<lambda>_. []"] a b c d by metis
qed

end
