(* ===== verification/AnalyzerTheorems.thy ===== *)
theory AnalyzerTheorems
  imports Analyzers CatalogueTheorems StatementTheorems CascadesTheorems PrintingTheorems
begin

text \<open>
  Statements from their text to their effect: a SELECT that the parser recognises is analyzed against
  the catalogue, planned by the optimizer and executed by the scheduler.
\<close>

declare key_bytes.simps [simp del]

section \<open>The range of the primary key\<close>

text \<open>The keys the range of a column of 64-bit integers covers.\<close>

definition listed :: "nat \<Rightarrow> expr_value list \<Rightarrow> bool" where
  "listed k vs \<longleftrightarrow> (case ev_u (vs ! k) of U64 x \<Rightarrow> 0 \<le> sint x \<and> sint x < 2 ^ 63 - 1 | _ \<Rightarrow> False)"

lemma nonneg_below_max:
  fixes x :: u64
  shows "0 \<le> sint x \<and> sint x < 2 ^ 63 - 1 \<longleftrightarrow> x < 9223372036854775807"
proof -
  have s: "sint x = (uint x + 2 ^ 63) mod 2 ^ 64 - 2 ^ 63"
    by (simp add: sint_uint signed_take_bit_eq_take_bit_shift take_bit_eq_mod)
  have "x < 9223372036854775807 \<longleftrightarrow> uint x < 9223372036854775807" by (simp add: word_less_def)
  moreover have "0 \<le> uint x" "uint x < 2 ^ 64" using uint_lt2p [of x] by simp_all
  moreover have "(uint x + 2 ^ 63) mod 2 ^ 64 = uint x - 2 ^ 63" if "2 ^ 63 \<le> uint x" "uint x < 2 ^ 64"
    using mod_add_self2 [of "uint x - 2 ^ 63" "2 ^ 64 :: int"] that by (simp add: mod_pos_pos_trivial add.commute)
  ultimately show ?thesis unfolding s by (cases "uint x < 2 ^ 63") auto
qed

lemma primary_range_opts:
  assumes "ToExprType (col_type c) = Int64"
  shows "opts_of (primary_range c) = \<lparr>it_lower = type_code Int64 # be64 0, it_upper = type_code Int64 # be64 9223372036854775807,
    lower_open = False, upper_open = True\<rparr>" "range_ok (primary_range c)"
proof -
  have "value_bytes (NewMin Int64) = be64 0" by code_simp
  moreover have "ev_type (NewMin Int64) = Int64" "ev_type (NewMax Int64) = Int64" by code_simp+
  moreover have "wf_value (NewMin Int64)" "wf_value (NewMax Int64)"
    by (simp_all add: wf_value_def New_defs)
  ultimately show "opts_of (primary_range c) = \<lparr>it_lower = type_code Int64 # be64 0, it_upper = type_code Int64 # be64 9223372036854775807,
    lower_open = False, upper_open = True\<rparr>" "range_ok (primary_range c)"
    using assms by (simp_all add: range_ok_def scan_ok_def opts_of_def primary_range_def)
qed

lemma rows_of_primary_range:
  assumes c: "ToExprType (col_type c) = Int64" and rows: "\<forall>vs \<in> set rows. \<exists>x. vs ! k = NewInt64 x"
  shows "rows_in k [primary_range c] rows = filter (listed k) rows"
proof -
  have "in_scan (opts_of (primary_range c)) (entry_key k vs, []) = listed k vs" if vs: "vs \<in> set rows" for vs
  proof -
    obtain x where x: "vs ! k = NewInt64 x" using rows vs by blast
    have "be64 0 \<le> be64 x" using be64_less [of x 0] by (intro leI) (simp only: be64_less word_not_simps simp_thms)
    moreover have "be64 9223372036854775807 \<le> be64 x \<longleftrightarrow> \<not> x < 9223372036854775807"
      using be64_less [of x] by (metis not_less)
    ultimately show ?thesis
      by (simp add: primary_range_opts [OF c] in_scan_def from_lower_def past_upper_def entry_key_def x New_payload listed_def
          flip: nonneg_below_max)
  qed
  then show ?thesis by (simp add: rows_in_def cong: filter_cong)
qed

section \<open>The SELECT statement\<close>

text \<open>What the catalogue of a storage says about a table: its database and the table as it was written.\<close>

definition catalogued :: "proto_ops \<Rightarrow> (u64 set \<Rightarrow> u64 list) \<Rightarrow> (bytes \<rightharpoonup> bytes) \<Rightarrow> DatabaseInfo \<Rightarrow> TableInfo \<Rightarrow> bool" where
  "catalogued pb order m d tt \<longleftrightarrow> has_database pb order m d \<and> has_table pb m tt \<and> tbl_db_id tt = dbi_id d"

definition named_source :: "DatabaseInfo \<Rightarrow> TableInfo \<Rightarrow> bytes \<Rightarrow> node \<Rightarrow> IndexHint list \<Rightarrow> node" where
  "named_source d tt as_name derived hints =
     TableSourceNode (Some \<lparr>tn_db = dbi_name d, tn_table = tbl_name tt\<rparr>) as_name derived hints"

context catalogue
begin

lemma catalogued_loads:
  assumes "catalogued pb order (contents s) d tt"
  shows "LoadDatabaseIdByName kv (dbi_name d) old s = Inr (C_OK, dbi_id d)"
    "LoadDatabaseMeta kv pb (dbi_id d) DatabaseInfo_new s = Inr (C_OK, d)"
    "LoadTableIdByName kv (dbi_id d) (tbl_name tt) old s = Inr (C_OK, tbl_id tt)"
    "LoadTableMeta kv pb (dbi_id d) (tbl_id tt) TableInfo_new s = Inr (C_OK, stored_table tt)"
proof -
  have d: "tbl_db_id tt = dbi_id d" using assms by (simp add: catalogued_def)
  have "has_database pb order (contents s) d" "has_table pb (contents s) tt" using assms by (simp_all add: catalogued_def)
  then show "LoadDatabaseIdByName kv (dbi_name d) old s = Inr (C_OK, dbi_id d)"
    "LoadDatabaseMeta kv pb (dbi_id d) DatabaseInfo_new s = Inr (C_OK, d)"
    "LoadTableIdByName kv (dbi_id d) (tbl_name tt) old s = Inr (C_OK, tbl_id tt)"
    "LoadTableMeta kv pb (dbi_id d) (tbl_id tt) TableInfo_new s = Inr (C_OK, stored_table tt)"
    by (simp_all add: has_database_def has_table_def d load_database_id load_database load_table_id load_table)
qed

lemma select_analyzed:
  assumes "catalogued pb order (contents s) d tt" "single_index (stored_table tt) k" "en_kv en = kv" "en_pb en = pb"
  shows "Select_Analyze en (named_source d tt as_name derived hints) s =
    Inr (C_OK, Some (logical_query \<lparr>rel_schema = Some d, rel_table = Some (stored_table tt)\<rparr>
      [primary_range (column_list (stored_table tt) ! k)]))"
proof -
  obtain p where "index_list (stored_table tt) = [p]" "idx_columns p = [column_list (stored_table tt) ! k]"
    "primary_index (stored_table tt) = Some 0"
    using assms(2) unfolding single_index_def by blast
  then show ?thesis
    by (simp add: Select_Analyze_def named_source_def catalogued_loads [OF assms(1)] assms(3,4))
qed

end

lemma catalogued_frame:
  assumes "catalogued pb order m d tt" "\<And>key. key \<in> catalogue_keys_of d tt \<Longrightarrow> m' key = m key"
  shows "catalogued pb order m' d tt"
proof -
  have same: "m' (key_bytes (DatabaseIDKey (dbi_id d))) = m (key_bytes (DatabaseIDKey (dbi_id d)))"
    "m' (key_bytes (DatabaseNameKey (dbi_name d))) = m (key_bytes (DatabaseNameKey (dbi_name d)))"
    "m' (key_bytes (TableIDKey (tbl_db_id tt) (tbl_id tt))) = m (key_bytes (TableIDKey (tbl_db_id tt) (tbl_id tt)))"
    "m' (key_bytes (TableNameKey (tbl_db_id tt) (tbl_name tt))) = m (key_bytes (TableNameKey (tbl_db_id tt) (tbl_name tt)))"
    by (rule assms(2), simp add: catalogue_keys_of_def)+
  show ?thesis using assms(1) unfolding catalogued_def has_database_def has_table_def same .
qed

lemma own_not_catalogue:
  assumes "own_key t k key" "single_index t k" "short_string (dbi_name d)" "short_string (tbl_name tt)"
  shows "key \<notin> catalogue_keys_of d tt"
proof -
  have db: "tbl_db_id t \<noteq> 0" using assms(2) by (simp add: single_index_def)
  obtain j where j: "key_wf j" "key = key_bytes j" "(\<exists>a b c e. j = TreeNodeKey a b c e) \<or> (\<exists>a b c. j = RowKey a b c)"
  proof (cases "\<exists>i. key = node_key (index_schema t (hd (index_list t))) i")
    case True
    then obtain i where "key = node_key (index_schema t (hd (index_list t))) i" by blast
    then show ?thesis using db
      by (intro that [of "TreeNodeKey (tbl_db_id t) (tbl_id t) (idx_id (hd (index_list t))) i"])
        (simp_all add: node_key_def index_schema_def key_bytes.simps)
  next
    case False
    with assms(1) obtain vs where "row_values t vs" "key = row_record t k vs" by (auto simp: own_key_def)
    then show ?thesis using db number_text_short [OF row_value_at(2) [OF _ assms(2)]]
      by (intro that [of "RowKey (tbl_db_id t) (tbl_id t) (number_text (vs ! k))"]) (simp_all add: row_record_def)
  qed
  then show ?thesis using assms(3,4) by (auto simp: catalogue_keys_of_def key_bytes_eq short_string_def)
qed

lemma not_own_kept: "row_values t vs \<Longrightarrow> \<not> own_key t k key \<Longrightarrow> key \<in> kept_keys t k vs"
  by (auto simp: own_key_def kept_keys_def)

lemma stored_columns_int64: "c \<in> set (column_list (stored_table tt)) \<Longrightarrow> ToExprType (col_type c) = Int64"
  by (auto simp: stored_table_columns stored_column_def ToExprType_def ColumnInfo_new_def)

lemma stored_keys_int64:
  assumes "single_index (stored_table tt) k" "row_values (stored_table tt) vs"
  shows "\<exists>x. vs ! k = NewInt64 x"
proof -
  let ?cs = "column_list (stored_table tt)"
  have k: "k < length ?cs" using assms(1) by (simp add: single_index_def)
  have l: "length vs = length ?cs" using assms(2) unfolding row_values_def by (metis length_map)
  have "ev_type (vs ! k) = ToExprType (col_type (?cs ! k))"
    using arg_cong [OF conjunct1 [OF assms(2) [unfolded row_values_def]], of "\<lambda>xs. xs ! k"] k l by simp
  then have "ev_type (vs ! k) = Int64" using stored_columns_int64 [OF nth_mem [OF k]] by simp
  moreover have "number (vs ! k)" using assms(2) k l by (simp add: row_values_def)
  ultimately show ?thesis by (elim number_cases) (auto simp: New_payload)
qed

text \<open>The plan of the statement.\<close>

lemma query_planned:
  "\<exists>m. \<forall>fuel \<ge> m. BuildPlan D fuel True (logical_query rt rs) =
     Inr (Some (query_plan [] \<lparr>scan_table = rt, primary_ranges = rs, primary_filters = [], table_filters = []\<rparr>))"
proof -
  let ?lp = "logical_query rt rs"
  have "has_rules ?lp" "3 * nodes_of ?lp < 2 ^ 64" by (simp_all add: logical_query_def)
  from optimizer_ends [OF this, of D] show ?thesis by (simp add: logical_query_def query_plan_def)
qed

text \<open>The statement from its tree on.\<close>

lemma select_runs:
  assumes am: "am_storage L view pb" "set_order order" and en: "en_kv (mc_env mc) = LevelDbClient L" "en_pb (mc_env mc) = pb"
    and cat: "catalogued pb order (view s) d tt" and rows: "table_stored pb (view s) (stored_table tt) k rows"
  shows "\<exists>m. \<forall>fuel \<ge> m.
    run_ast mc fuel (SelectNode h fs (named_source d tt as_name derived hints) wh gr hav ord lim) s out =
      Inr (C_OK, s, out @ concat (map row_line (take 1024 (filter (listed k) rows))))"
proof -
  let ?t = "stored_table tt"
  let ?c = "column_list ?t ! k"
  let ?rt = "\<lparr>rel_schema = Some d, rel_table = Some ?t\<rparr>"
  let ?sc = "\<lparr>scan_table = ?rt, primary_ranges = [primary_range ?c], primary_filters = [], table_filters = []\<rparr>"
  have c: "catalogue (LevelDbClient L) view pb order"
    by (rule catalogue_of [OF _ _ am(2)]) (use am(1) in \<open>simp_all add: am_storage_def\<close>)
  obtain c0 ls where st: "stored_tree pb (view s) ((index_schema ?t (hd (index_list ?t)))\<lparr>ts_tree_id := c0\<rparr>) ls"
    "concat ls = entries_of k rows" "single_index ?t k" "stored_rows (view s) ?t k rows"
    using rows by (auto simp: table_stored_def stored_with_def)
  have ty: "ToExprType (col_type ?c) = Int64"
    by (rule stored_columns_int64 [OF nth_mem]) (use st(3) in \<open>simp add: single_index_def\<close>)
  have "\<forall>vs \<in> set rows. \<exists>x. vs ! k = NewInt64 x"
    using st(4) stored_keys_int64 [OF st(3)] by (simp add: stored_rows_def)
  then have listed: "rows_in k [primary_range ?c] rows = filter (listed k) rows" by (rule rows_of_primary_range [OF ty])
  have exec: "ExecutePlan (mc_env mc) (query_plan [] ?sc) s out =
      Inr (C_OK, s, out @ concat (map row_line (take 1024 (filter (listed k) rows))))"
    using bpt_env.query_prints [OF am_storage.env [OF am(1)] en st(3) _ st(1,2,4), of ?sc "[]" out] primary_range_opts(2) [OF ty]
    by (simp add: listed)
  obtain m where m: "\<And>fuel. m \<le> fuel \<Longrightarrow> BuildPlan (mc_double mc) fuel True (logical_query ?rt [primary_range ?c]) = Inr (Some (query_plan [] ?sc))"
    using query_planned [of "mc_double mc" ?rt "[primary_range ?c]"] by blast
  have "run_ast mc fuel (SelectNode h fs (named_source d tt as_name derived hints) wh gr hav ord lim) s out =
      Inr (C_OK, s, out @ concat (map row_line (take 1024 (filter (listed k) rows))))" if "m \<le> fuel" for fuel
    by (simp add: run_ast_def AnalyzeAst_def catalogue.select_analyzed [OF c cat st(3) en] m [OF that] exec)
  then show ?thesis by blast
qed

section \<open>A database with one table in memory\<close>

definition shop_table :: TableInfo where
  "shop_table = TableInfo_new\<lparr>tbl_id := 7, tbl_db_id := 3, tbl_name := [116], tbl_db_name := [100],
     column_list := [ColumnInfo_new\<lparr>col_id := 0, col_name := [105, 100]\<rparr>, ColumnInfo_new\<lparr>col_id := 1, col_name := [97, 103, 101]\<rparr>],
     index_list := [IndexInfo_new\<lparr>idx_id := 0, idx_type := CONSTRAINT_PRIMARY, idx_name := [112],
       idx_columns := [ColumnInfo_new\<lparr>col_id := 0, col_name := [105, 100]\<rparr>]\<rparr>]\<rparr>"

lemma shop_table_text: "table_text shop_table"
  by (simp add: shop_table_def table_text_def TableInfo_new_def ColumnInfo_new_def IndexInfo_new_def column_text_def index_text_def)

lemma shop_lists:
  "column_list (stored_table shop_table) = [ColumnInfo_new\<lparr>col_id := 0, col_name := [105, 100]\<rparr>, ColumnInfo_new\<lparr>col_id := 1, col_name := [97, 103, 101]\<rparr>]"
  "index_list (stored_table shop_table) = [IndexInfo_new\<lparr>idx_id := 0, idx_type := CONSTRAINT_PRIMARY, idx_name := [112],
       idx_columns := [ColumnInfo_new\<lparr>col_id := 0, col_name := [105, 100]\<rparr>]\<rparr>]"
  "tbl_db_id (stored_table shop_table) = 3" "tbl_id (stored_table shop_table) = 7"
  using shop_table_text
  by (simp_all add: stored_table_columns stored_table_indexes table_text_def stored_table_fields)
    (simp_all add: shop_table_def stored_column_def stored_index_def ColumnInfo_new_def IndexInfo_new_def)

lemma shop_index: "single_index (stored_table shop_table) 0"
proof -
  have "primary_points (primary_index (stored_table shop_table)) (index_list (stored_table shop_table))"
    using stored_table_ok by (simp add: table_ok_def)
  then have "primary_index (stored_table shop_table) = Some 0"
    by (auto simp: primary_points_def shop_lists split: option.splits)
  then show ?thesis by (simp add: single_index_def columns_numbered_def shop_lists)
qed

definition shop_catalogue :: "bytes \<rightharpoonup> bytes" where
  "shop_catalogue = demo_storage(key_bytes (TableIDKey 3 7) \<mapsto> ser_table sd_proto (TableInfo_Serialize shop_table),
     key_bytes (TableNameKey 3 [116]) \<mapsto> key_bytes (TableIDKey 3 7))"

lemma short_names: "short_string [100]" "short_string [116]" by (simp_all add: short_string_def)

lemma shop_catalogued: "catalogued sd_proto sorted_list_of_set (id shop_catalogue) demo_database shop_table"
proof -
  have "has_database sd_proto sorted_list_of_set (id shop_catalogue) demo_database"
    by (simp add: has_database_def database_text_def demo_database_def shop_catalogue_def demo_storage_def key_facts short_names
        DatabaseInfo_new_def)
  moreover have "tbl_db_id shop_table = 3" "tbl_id shop_table = 7" "tbl_name shop_table = [116]" by (simp_all add: shop_table_def)
  then have "has_table sd_proto (id shop_catalogue) shop_table"
    by (simp add: has_table_def shop_table_text shop_catalogue_def key_facts short_names)
  moreover have "dbi_id demo_database = 3" by (simp add: demo_database_def)
  ultimately show ?thesis using \<open>tbl_db_id shop_table = 3\<close> by (simp add: catalogued_def)
qed

section \<open>The INSERT statement\<close>

definition named_insert :: "DatabaseInfo \<Rightarrow> TableInfo \<Rightarrow> InsertHead \<Rightarrow> bool" where
  "named_insert d tt h \<longleftrightarrow> in_table_name h = Some \<lparr>tn_db = dbi_name d, tn_table = tbl_name tt\<rparr>"

lemma insert_analyzed:
  assumes c: "catalogue (LevelDbClient L) view pb order" and cat: "catalogued pb order (view s) d tt"
    and en: "en_kv (mc_env mc) = LevelDbClient L" "en_pb (mc_env mc) = pb"
    and h: "named_insert d tt h" and es: "mapR analyze_row value_lists = Inr es"
  shows "run_ast mc fuel (InsertNode h q value_lists dups) s out =
    ExecutePlan (mc_env mc) (insert_plan \<lparr>rel_schema = Some d, rel_table = Some (stored_table tt)\<rparr> es) s out"
  by (simp add: run_ast_def AnalyzeAst_def Insert_Analyze_def h [unfolded named_insert_def] es en catalogue.catalogued_loads [OF c cat]
      BuildPlan_def ToPhysicalNode_def insert_plan_def)

lemma analyze_integers:
  "mapR AnalyzeNode (map (\<lambda>w. LiteralNode b (LT_INT w)) ws) = Inr (map (\<lambda>v. Some (LiteralExpr v)) (map NewInt64 ws))"
  by (induction ws) (simp_all add: AnalyzeNode_def toExprNode_def)

text \<open>The statement from its tree on.\<close>

lemma integers_row: "length ws = length (column_list tt) \<Longrightarrow> row_values (stored_table tt) (map NewInt64 ws)"
proof -
  assume "length ws = length (column_list tt)"
  then have l: "length ws = length (column_list (stored_table tt))" by (simp add: stored_table_columns)
  have "map (\<lambda>c. ToExprType (col_type c)) (column_list (stored_table tt)) = replicate (length ws) Int64"
    unfolding l by (rule replicate_eqI) (auto dest: stored_columns_int64)
  then show ?thesis by (auto simp: row_values_def comp_def New_payload intro: replicate_eqI)
qed

lemma insert_runs:
  assumes am: "am_storage L view pb" "set_order order" and en: "en_kv (mc_env mc) = LevelDbClient L" "en_pb (mc_env mc) = pb"
    "visits_all (en_ord (mc_env mc))" and cat: "catalogued pb order (view s) d tt" and live: "live_table pb (view s) (stored_table tt) k rows"
    and h: "named_insert d tt h" and ws: "length ws = length (column_list tt)"
    and short: "short_string (dbi_name d)" "short_string (tbl_name tt)" and len: "length rows < 2 ^ 64 - 2"
  shows "\<exists>s'. (\<forall>fuel. run_ast mc fuel (InsertNode h q [RowNode (map (\<lambda>w. LiteralNode b (LT_INT w)) ws)] dups) s out = Inr (C_OK, s', out)) \<and>
    live_table pb (view s') (stored_table tt) k (upsert k (map NewInt64 ws) rows) \<and>
    set (upsert k (map NewInt64 ws) rows) = insert (map NewInt64 ws) {vs \<in> set rows. vs ! k \<noteq> NewInt64 (ws ! k)} \<and>
    catalogued pb order (view s') d tt"
proof -
  let ?t = "stored_table tt" and ?vs = "map NewInt64 ws"
  let ?rt = "\<lparr>rel_schema = Some d, rel_table = Some ?t\<rparr>"
  have c: "catalogue (LevelDbClient L) view pb order"
    by (rule catalogue_of [OF _ _ am(2)]) (use am(1) in \<open>simp_all add: am_storage_def\<close>)
  have v: "row_values ?t ?vs" by (rule integers_row [OF ws])
  have t: "single_index ?t k" and rv: "\<forall>us \<in> set rows. row_values ?t us" using live_rows [OF live] by simp_all
  have rt: "rel_table ?rt = Some ?t" by simp
  obtain s' where r: "ExecutePlan (mc_env mc) (insert_record ?rt ?vs) s out = Inr (C_OK, s', out)"
    "live_table pb (view s') ?t k (upsert k ?vs rows)" "\<And>key. key \<in> kept_keys ?t k ?vs \<Longrightarrow> view s' key = view s key"
    by (rule bpt_env.insert_statement_live [OF am_storage.env [OF am(1)] live v rt en, where out = out]) (use len in blast)+
  have es: "mapR analyze_row [RowNode (map (\<lambda>w. LiteralNode b (LT_INT w)) ws)] = Inr [map (\<lambda>v. Some (LiteralExpr v)) ?vs]"
    by (simp add: analyze_row_def analyze_integers del: map_map)
  have "run_ast mc fuel (InsertNode h q [RowNode (map (\<lambda>w. LiteralNode b (LT_INT w)) ws)] dups) s out = Inr (C_OK, s', out)" for fuel
    using insert_analyzed [OF c cat en(1,2) h es] r(1) by (simp add: insert_record_def)
  moreover have "catalogued pb order (view s') d tt"
    by (rule catalogued_frame [OF cat]) (metis own_not_catalogue [OF _ t short] not_own_kept [OF v] r(3))
  moreover have "set (upsert k ?vs rows) = insert ?vs {vs \<in> set rows. vs ! k \<noteq> NewInt64 (ws ! k)}"
  proof -
    have k: "k < length ws" using row_value_at(1) [OF v t] by simp
    have "entry_key k us \<noteq> entry_key k ?vs \<longleftrightarrow> us ! k \<noteq> NewInt64 (ws ! k)" if "us \<in> set rows" for us
      using same_row(1) [OF _ v t] rv that k by simp
    then show ?thesis using upsert_set [OF live_sorted [OF live], of ?vs] by blast
  qed
  ultimately show ?thesis using r(2) by blast
qed

text \<open>A null expression is dereferenced while the row is put together, whatever stands before it.\<close>

lemma null_cell_faults: "None \<in> set cs \<Longrightarrow> \<exists>e. set_record d j cs r = Inl e"
proof (induction cs arbitrary: j r)
  case (Cons cell cs)
  then show ?case by (auto split: option.splits expr_node.splits simp: bindR_def split: sum.splits)
qed simp

lemma null_record_faults: "rec \<in> set recs \<Longrightarrow> None \<in> set rec \<Longrightarrow> \<exists>e. add_records d recs c = Inl e"
proof (induction recs arbitrary: c)
  case (Cons r recs)
  then show ?case using null_cell_faults [of r d 0 "Row d"] by (auto simp: bindR_def split: sum.splits)
qed simp

lemma null_insert_faults:
  assumes "rec \<in> set es" "None \<in> set rec" "rel_table rt = Some t"
  shows "\<exists>e. ExecutePlan en (insert_plan rt es) s out = Inl e"
proof -
  let ?x = "insert_begin rt es t s"
  have x: "ix_row_desc ?x = ToRowDesc t" "Insert.expr_nodes (ix_plan ?x) = es" by (simp_all add: insert_begin_def)
  have "\<exists>e. Insert_Consume en ?x Chunk = Inl e"
    using null_record_faults [OF assms(1,2), of "ToRowDesc t" "if chunk_row_desc Chunk = None then SetRowDesc (ToRowDesc t) Chunk else Chunk"]
    by (auto simp: Insert_Consume_def x Let_def)
  then show ?thesis by (auto simp: insert_plan_run [OF assms(3)])
qed

lemma mapR_set: "mapR f xs = Inr ys \<Longrightarrow> x \<in> set xs \<Longrightarrow> \<exists>y. f x = Inr y \<and> y \<in> set ys"
  by (induction xs arbitrary: ys) (auto simp: bindR_Inr_iff)

lemma string_literal_null:
  assumes "mapR analyze_row value_lists = Inr es" "RowNode items \<in> set value_lists" "LiteralNode b (LT_STRING chars) \<in> set items"
  shows "\<exists>rec \<in> set es. None \<in> set rec"
proof -
  obtain rec where r: "analyze_row (RowNode items) = Inr rec" "rec \<in> set es" using mapR_set [OF assms(1,2)] by blast
  then have "mapR AnalyzeNode items = Inr rec" by (simp add: analyze_row_def)
  from mapR_set [OF this assms(3)] r(2) show ?thesis by (auto simp: AnalyzeNode_def toExprNode_def)
qed

section \<open>Properties\<close>

lemma run_parsed:
  "mc_parse mc sql = (C_OK, stmt # others) \<Longrightarrow> run mc fuel sql s out = run_ast mc fuel stmt s out"
  by (simp add: run_def GenAst_def)

text \<open>C1: A SELECT whose source is a table of the catalogue with a one-column primary key ends with C_OK, from
  its text on: it is analyzed, planned and executed in finitely many steps and prints the rows of
  the table whose keys are at least 0 and below \<open>2^63 - 1\<close>, the first 1024 in the order of the keys.
  The rows with negative keys and with the greatest one are left out because of the range the
  analyzer makes for the key. The fields, conditions, groups, orders and limits of the statement
  have no effect.\<close>

theorem select_statement:
  assumes "am_storage L view pb" "set_order order" "en_kv (mc_env mc) = LevelDbClient L" "en_pb (mc_env mc) = pb"
    "catalogued pb order (view s) d tt" "table_stored pb (view s) (stored_table tt) k rows"
    "mc_parse mc sql = (C_OK, SelectNode h fs (named_source d tt as_name derived hints) wh gr hav ord lim # others)"
  shows "\<exists>m. \<forall>fuel \<ge> m. run mc fuel sql s out =
    Inr (C_OK, s, out @ concat (map row_line (take 1024 (filter (listed k) rows))))"
  using select_runs [OF assms(1-6)] by (simp add: run_parsed [OF assms(7)])

text \<open>A machine that finds one statement in every text.\<close>

definition demo_machine :: "node \<Rightarrow> (bytes \<rightharpoonup> bytes) machine" where
  "demo_machine stmt =
     \<lparr>mc_env = mem_env, mc_hash = (\<lambda>_. 5), mc_alloc = demo_allocator, mc_now = 9, mc_double = bits_ops,
      mc_parse = (\<lambda>_. (C_OK, [stmt]))\<rparr>"

lemma demo_machine_sel [simp]:
  "mc_env (demo_machine stmt) = mem_env" "mc_parse (demo_machine stmt) sql = (C_OK, [stmt])"
  by (simp_all add: demo_machine_def)

definition demo_select :: node where
  "demo_select =
     SelectNode \<lparr>select_opt = Some plain_opts, se_is_in_braces = False, se_lock = SL_NONE\<rparr> []
       (named_source demo_database shop_table [] Nullptr []) Nullptr Nullptr Nullptr Nullptr Nullptr"

lemma shop_live: "live_table sd_proto (id shop_catalogue) (stored_table shop_table) 0 []"
proof (rule new_table_live [OF shop_index])
  have "node_key (index_schema (stored_table shop_table) (hd (index_list (stored_table shop_table)))) i = key_bytes (TreeNodeKey 3 7 0 i)" for i
    by (simp add: node_key_def index_schema_def key_bytes.simps shop_lists)
  moreover have "shop_catalogue (key_bytes (TreeNodeKey 3 7 0 i)) = None" for i
    by (simp add: shop_catalogue_def demo_storage_def key_bytes_eq short_string_def)
  ultimately show "id shop_catalogue (node_key (index_schema (stored_table shop_table) (hd (index_list (stored_table shop_table)))) i) = None" for i
    by simp
qed (simp_all add: shop_lists IndexInfo_new_def)

definition demo_head :: InsertHead where
  "demo_head =
     \<lparr>in_print_sample = False, in_priority = PE_NO_PRIORITY, in_is_replace = False, in_is_ignore = False,
      in_table_name = Some \<lparr>tn_db = [100], tn_table = [116]\<rparr>, in_columns = []\<rparr>"

lemma demo_head_named: "named_insert demo_database shop_table demo_head"
  by (simp add: named_insert_def demo_head_def demo_database_def shop_table_def)

lemma shop_inserted:
  obtains s where "live_table sd_proto (id s) (stored_table shop_table) 0 [[NewInt64 5, NewInt64 1]]"
    "catalogued sd_proto sorted_list_of_set (id s) demo_database shop_table"
proof -
  let ?mc = "demo_machine Nullptr"
  have en: "en_kv (mc_env ?mc) = LevelDbClient mem_leveldb" "en_pb (mc_env ?mc) = sd_proto" "visits_all (en_ord (mc_env ?mc))"
    by simp_all
  have cat: "catalogued sd_proto sorted_list_of_set (id shop_catalogue) demo_database shop_table" by (rule shop_catalogued)
  have x: "length [5, 1 :: u64] = length (column_list shop_table)" "short_string (dbi_name demo_database)"
    "short_string (tbl_name shop_table)" "length ([] :: expr_value list list) < 2 ^ 64 - 2"
    by (simp_all add: shop_table_def demo_database_def short_names)
  from insert_runs [where view = id and out = "[]" and mc = ?mc, OF in_memory.am_storage_axioms set_order_sorted en cat shop_live demo_head_named x] obtain s where
    "live_table sd_proto (id s) (stored_table shop_table) 0 (upsert 0 (map NewInt64 [5, 1]) [])"
    "catalogued sd_proto sorted_list_of_set (id s) demo_database shop_table" by blast
  then show thesis using that by simp
qed

theorem select_statement_witness:
  "\<exists>s m. \<forall>fuel \<ge> m. run (demo_machine demo_select) fuel (ascii ''SELECT * FROM d.t'') s [] =
    Inr (C_OK, s, ascii '' | 5 | 1 |'' @ [10])"
proof -
  obtain s where s: "live_table sd_proto (id s) (stored_table shop_table) 0 [[NewInt64 5, NewInt64 1]]"
    "catalogued sd_proto sorted_list_of_set (id s) demo_database shop_table" by (rule shop_inserted)
  note st = live_stored [OF s(1)]
  have en: "en_kv (mc_env (demo_machine demo_select)) = LevelDbClient mem_leveldb" "en_pb (mc_env (demo_machine demo_select)) = sd_proto"
    by simp_all
  have line: "concat (map row_line (take 1024 (filter (listed 0) [[NewInt64 5, NewInt64 1]]))) = ascii '' | 5 | 1 |'' @ [10]"
  proof -
    have "listed 0 [NewInt64 5, NewInt64 1]" by code_simp
    moreover have "row_line [NewInt64 5, NewInt64 1] = ascii '' | 5 | 1 |'' @ [10]" by code_simp
    ultimately show ?thesis by simp
  qed
  have parse: "mc_parse (demo_machine demo_select) (ascii ''SELECT * FROM d.t'') =
      (C_OK, SelectNode \<lparr>select_opt = Some plain_opts, se_is_in_braces = False, se_lock = SL_NONE\<rparr> []
       (named_source demo_database shop_table [] Nullptr []) Nullptr Nullptr Nullptr Nullptr Nullptr # [])"
    by (simp add: demo_select_def)
  from select_statement [where view = id and s = s and out = "[]", OF in_memory.am_storage_axioms set_order_sorted
      en s(2) st parse] line
  show ?thesis by auto
qed

text \<open>C2: An INSERT of one row of integer literals, as many as the table has columns, into a live table of the
  catalogue ends with C_OK from its text on, whatever its primary key is: the values are the 64-bit
  integers of the literals, a row with the same key is replaced, the other rows stay, and the table is
  live and in the catalogue as before, so that the next statement finds it so. A table that
  \<open>CREATE TABLE\<close> makes with a primary key over one column is live, with no rows.\<close>

theorem insert_statement:
  assumes "am_storage L view pb" "set_order order" "en_kv (mc_env mc) = LevelDbClient L" "en_pb (mc_env mc) = pb"
    "visits_all (en_ord (mc_env mc))" "catalogued pb order (view s) d tt" "live_table pb (view s) (stored_table tt) k rows"
    "named_insert d tt h" "mc_parse mc sql = (C_OK, InsertNode h q [RowNode (map (\<lambda>w. LiteralNode b (LT_INT w)) ws)] dups # others)"
    "length ws = length (column_list tt)" "short_string (dbi_name d)" "short_string (tbl_name tt)" "length rows < 2 ^ 64 - 2"
  shows "\<exists>s'. (\<forall>fuel. run mc fuel sql s out = Inr (C_OK, s', out)) \<and>
    live_table pb (view s') (stored_table tt) k (upsert k (map NewInt64 ws) rows) \<and>
    set (upsert k (map NewInt64 ws) rows) = insert (map NewInt64 ws) {vs \<in> set rows. vs ! k \<noteq> NewInt64 (ws ! k)} \<and>
    catalogued pb order (view s') d tt"
  using insert_runs [OF assms(1-8,10-13)] by (simp add: run_parsed [OF assms(9)])

definition demo_insert :: "u64 \<Rightarrow> node" where
  "demo_insert age = InsertNode demo_head Nullptr [RowNode (map (\<lambda>w. LiteralNode False (LT_INT w)) [5, age])] []"

text \<open>The storage of the witness has the table with one row; the statement has the key of that row.\<close>

theorem insert_statement_witness:
  "\<exists>s s'. live_table sd_proto (id s) (stored_table shop_table) 0 [[NewInt64 5, NewInt64 1]] \<and>
    (\<forall>fuel. run (demo_machine (demo_insert 2)) fuel (ascii ''INSERT INTO d.t VALUES (5, 2)'') s [] = Inr (C_OK, s', [])) \<and>
    live_table sd_proto (id s') (stored_table shop_table) 0 [[NewInt64 5, NewInt64 2]]"
proof -
  let ?mc = "demo_machine (demo_insert 2)"
  obtain s where s: "live_table sd_proto (id s) (stored_table shop_table) 0 [[NewInt64 5, NewInt64 1]]"
    "catalogued sd_proto sorted_list_of_set (id s) demo_database shop_table" by (rule shop_inserted)
  have en: "en_kv (mc_env ?mc) = LevelDbClient mem_leveldb" "en_pb (mc_env ?mc) = sd_proto" "visits_all (en_ord (mc_env ?mc))"
    by simp_all
  have parse: "mc_parse ?mc (ascii ''INSERT INTO d.t VALUES (5, 2)'') =
      (C_OK, InsertNode demo_head Nullptr [RowNode (map (\<lambda>w. LiteralNode False (LT_INT w)) [5, 2])] [] # [])"
    by (simp add: demo_insert_def)
  have x: "length [5, 2 :: u64] = length (column_list shop_table)" "short_string (dbi_name demo_database)"
    "short_string (tbl_name shop_table)" "length [[NewInt64 5, NewInt64 1]] < 2 ^ 64 - 2"
    by (simp_all add: shop_table_def demo_database_def short_names)
  have "upsert 0 (map NewInt64 [5, 2]) [[NewInt64 5, NewInt64 1]] = [[NewInt64 5, NewInt64 2]]" by code_simp
  with insert_statement [where view = id and out = "[]", OF in_memory.am_storage_axioms set_order_sorted en s(2,1)
      demo_head_named parse x] s(1)
  show ?thesis by auto
qed

text \<open>C38: An INSERT into a table of the catalogue with a string literal among its values never ends properly,
  whatever the other values are: the analyzer makes no expression for it, and the null pointer is
  dereferenced when the row is put together.\<close>

theorem string_literal_insert_faults:
  assumes "leveldb_spec L view" "protobuf pb" "set_order order" "en_kv (mc_env mc) = LevelDbClient L" "en_pb (mc_env mc) = pb"
    "catalogued pb order (view s) d tt" "named_insert d tt h" "mc_parse mc sql = (C_OK, InsertNode h q value_lists dups # others)"
    "RowNode items \<in> set value_lists" "LiteralNode b (LT_STRING chars) \<in> set items"
  shows "\<exists>e. run mc fuel sql s out = Inl e"
proof (cases "mapR analyze_row value_lists")
  case (Inl e)
  then show ?thesis
    by (simp add: run_parsed [OF assms(8)] run_ast_def AnalyzeAst_def Insert_Analyze_def assms(7) [unfolded named_insert_def] assms(4,5)
        catalogue.catalogued_loads [OF catalogue_of [OF assms(1-3)] assms(6)])
next
  case (Inr es)
  obtain rec where "rec \<in> set es" "None \<in> set rec" using string_literal_null [OF Inr assms(9,10)] by blast
  from null_insert_faults [OF this, of "\<lparr>rel_schema = Some d, rel_table = Some (stored_table tt)\<rparr>" "stored_table tt" "mc_env mc" s out]
    insert_analyzed [OF catalogue_of [OF assms(1-3)] assms(6,4,5,7) Inr]
  show ?thesis by (simp add: run_parsed [OF assms(8)])
qed

definition demo_text_insert :: node where
  "demo_text_insert = InsertNode demo_head Nullptr [RowNode [LiteralNode False (LT_INT 5), LiteralNode False (LT_STRING [49])]] []"

theorem string_literal_insert_faults_witness:
  "\<exists>e. run (demo_machine demo_text_insert) 9 (ascii ''INSERT INTO d.t VALUES (5, '' @ [34, 49, 34, 41]) shop_catalogue [] = Inl e"
proof -
  have en: "en_kv (mc_env (demo_machine demo_text_insert)) = LevelDbClient mem_leveldb"
    "en_pb (mc_env (demo_machine demo_text_insert)) = sd_proto" by simp_all
  have cat: "catalogued sd_proto sorted_list_of_set (id shop_catalogue) demo_database shop_table"
    by (rule shop_catalogued)
  have parse: "mc_parse (demo_machine demo_text_insert) (ascii ''INSERT INTO d.t VALUES (5, '' @ [34, 49, 34, 41]) =
      (C_OK, InsertNode demo_head Nullptr [RowNode [LiteralNode False (LT_INT 5), LiteralNode False (LT_STRING [49])]] [] # [])"
    by (simp add: demo_text_insert_def)
  show ?thesis
    by (rule string_literal_insert_faults [where items = "[LiteralNode False (LT_INT 5), LiteralNode False (LT_STRING [49])]" and b = False
          and chars = "[49]", OF mem_leveldb_spec sd_protobuf set_order_sorted en cat demo_head_named parse]) simp_all
qed

end
