(* ===== verification/MainTheorems.thy ===== *)
theory MainTheorems
  imports AnalyzerTheorems
begin

text \<open>
  A table from its \<open>CREATE TABLE\<close> on: it is live, every \<open>INSERT\<close> keeps it live, and a \<open>SELECT\<close> prints
  what was inserted. The last section puts the thirteen statements of \<open>main\<close> together.
\<close>

section \<open>Executing the statements that create\<close>

lemma create_database_run:
  assumes "rel_schema rt = Some i"
  shows "ExecutePlan en (RelNode (PhysicalCreateDatabase rt) []) s out =
    bindR (CreateDatabase_DoWork (en_kv en) (en_pb en) (en_set en) i s) (\<lambda>(st, s1). Inr (st, s1, out))"
proof -
  let ?rt = "\<lparr>exec_objs = [\<lparr>exec = CreateDatabaseExec rt, inputs = [], outputs = []\<rparr>],
    caches = [], chunk_objs = [], rt_storage = s, cout = out\<rparr>"
  have a: "graph_ToExecutor (RelNode (PhysicalCreateDatabase rt) []) (Runtime s out, []) = Inr (0, ?rt, [0])"
    by (simp add: Runtime_def ToExecutor_def new_exec_def Let_def)
  have "\<exists>g. Graph_Init (RelNode (PhysicalCreateDatabase rt) []) (Runtime s out) = Inr (g, ?rt) \<and> executors g = [0]"
    by (simp add: Graph_Init_def initExecutors_def a initNodes_def initEdges_def Let_def upt_conv_Cons Node_def del: graph_ToExecutor.simps)
  then obtain g where g: "Graph_Init (RelNode (PhysicalCreateDatabase rt) []) (Runtime s out) = Inr (g, ?rt)" "executors g = [0]"
    by (elim exE conjE)
  have "exec_Prepare 0 ?rt = Inr (kNeedData, ?rt)" by (simp add: exec_Prepare_def)
  moreover have "exec_Work en 0 ?rt = bindR (CreateDatabase_DoWork (en_kv en) (en_pb en) (en_set en) i s) (\<lambda>(st, s1).
      Inr (st, ?rt\<lparr>rt_storage := s1\<rparr>))"
    by (simp add: exec_Work_def assms)
  ultimately show ?thesis
    by (simp only: ExecutePlan_def Scheduler_Run_order [OF g(1)] g(2) run_in_order.simps bindR_simps prod.case)
      (cases "CreateDatabase_DoWork (en_kv en) (en_pb en) (en_set en) i s", auto)
qed

lemma create_table_run:
  assumes "rel_table rt = Some t"
  shows "ExecutePlan en (RelNode (PhysicalCreateTable rt) []) s out =
    bindR (CreateTable_DoWork (en_kv en) (en_pb en) (en_set en) t s) (\<lambda>(st, t1, s1). Inr (st, s1, out))"
proof -
  let ?rt = "\<lparr>exec_objs = [\<lparr>exec = CreateTableExec rt, inputs = [], outputs = []\<rparr>],
    caches = [], chunk_objs = [], rt_storage = s, cout = out\<rparr>"
  have a: "graph_ToExecutor (RelNode (PhysicalCreateTable rt) []) (Runtime s out, []) = Inr (0, ?rt, [0])"
    by (simp add: Runtime_def ToExecutor_def new_exec_def Let_def)
  have "\<exists>g. Graph_Init (RelNode (PhysicalCreateTable rt) []) (Runtime s out) = Inr (g, ?rt) \<and> executors g = [0]"
    by (simp add: Graph_Init_def initExecutors_def a initNodes_def initEdges_def Let_def upt_conv_Cons Node_def del: graph_ToExecutor.simps)
  then obtain g where g: "Graph_Init (RelNode (PhysicalCreateTable rt) []) (Runtime s out) = Inr (g, ?rt)" "executors g = [0]"
    by (elim exE conjE)
  have "exec_Prepare 0 ?rt = Inr (kNeedData, ?rt)" by (simp add: exec_Prepare_def)
  moreover have "exec_Work en 0 ?rt = bindR (CreateTable_DoWork (en_kv en) (en_pb en) (en_set en) t s) (\<lambda>(st, t1, s1).
      Inr (st, put_exec 0 (CreateTableExec (rt\<lparr>rel_table := Some t1\<rparr>)) (?rt\<lparr>rt_storage := s1\<rparr>)))"
    by (simp add: exec_Work_def assms)
  ultimately show ?thesis
    by (simp only: ExecutePlan_def Scheduler_Run_order [OF g(1)] g(2) run_in_order.simps bindR_simps prod.case)
      (cases "CreateTable_DoWork (en_kv en) (en_pb en) (en_set en) t s", auto)
qed

section \<open>The table that is created\<close>

text \<open>A statement with one constraint, a primary key over one of its columns.\<close>

definition keyed_stmt :: "CreateTableStmt \<Rightarrow> bool" where
  "keyed_stmt stmt \<longleftrightarrow> length (ct_columns stmt) < 2 ^ 24 \<and>
     (\<exists>c n. ct_constraints stmt = [c] \<and> cons_type c = CONSTRAINT_PRIMARY \<and> cons_columns c = [n] \<and> cn_name n \<in> set (stmt_columns stmt))"

lemma new_columns_ids: "map col_id (new_columns i name j ds) = map of_nat [j..<j + length ds]"
  by (induction ds arbitrary: j) (simp_all add: new_column_def upt_conv_Cons del: upt_Suc)

lemma created_index:
  assumes m: "made_table stmt i d now = Inr t" and key: "keyed_stmt stmt" and d: "d \<noteq> 0" and tx: "table_text t" "tbl_db_id t = d"
  obtains k p where "single_index (stored_table t) k" "index_list (stored_table t) = [p]" "idx_root_node_id p = 0"
    "idx_max_tree_node_id p = 0" "idx_id p = 0" "cn_name (hd (cons_columns (hd (ct_constraints stmt)))) = stmt_columns stmt ! k"
proof -
  let ?name = "tn_table (ct_table_name stmt)"
  let ?t0 = "TableInfo_new\<lparr>tbl_db_id := d, tbl_db_name := tn_db (ct_table_name stmt), tbl_id := i,
           tbl_name := ?name, tbl_create_ts := now, tbl_update_ts := now\<rparr>"
  let ?t1 = "add_columns i ?name 0 (ct_columns stmt) ?t0"
  have "columns_ok ?t0" by (simp add: columns_ok_def TableInfo_new_def)
  from add_columns_result [OF this] have c: "columns_ok ?t1" "column_list ?t1 = new_columns i ?name 0 (ct_columns stmt)"
    by (simp_all add: TableInfo_new_def)
  obtain cn n where cn: "ct_constraints stmt = [cn]" "cons_type cn = CONSTRAINT_PRIMARY" "cons_columns cn = [n]"
    "cn_name n \<in> set (stmt_columns stmt)" "length (ct_columns stmt) < 2 ^ 24" using key by (auto simp: keyed_stmt_def)
  have names: "map col_name (column_list ?t1) = stmt_columns stmt"
    by (simp only: c(2) new_columns_names stmt_columns_def)
  obtain k where k: "name_to_column ?t1 (cn_name n) = Some k" "k < length (column_list ?t1)"
    "map col_name (column_list ?t1) ! k = cn_name n"
  proof -
    have p: "points_to (name_to_column ?t1) (map col_name (column_list ?t1))" using c(1) by (simp add: columns_ok_def)
    then obtain k where "name_to_column ?t1 (cn_name n) = Some k"
      using cn(4) unfolding points_to_def names by blast
    with p that show thesis unfolding points_to_def by force
  qed
  have "made_table stmt i d now = Inr (add_index (new_index i ?name 0 cn [column_list ?t1 ! k]) ?t1)"
    by (simp add: made_table_def cn index_column_def k(1))
  with m have t: "t = add_index (new_index i ?name 0 cn [column_list ?t1 ! k]) ?t1" by simp
  let ?x = "new_index i ?name 0 cn [column_list ?t1 ! k]"
  have il: "index_list t = [?x]" by (simp add: t add_index_frame add_columns_frame TableInfo_new_def)
  have cl: "column_list t = new_columns i ?name 0 (ct_columns stmt)" by (simp add: t add_index_frame c(2))
  let ?s = "stored_table t"
  have sil: "index_list ?s = [stored_index ?x]"
    using tx by (simp add: stored_table_indexes table_text_def il)
  have scl: "column_list ?s = map stored_column (column_list t)" by (rule stored_table_columns)
  have len: "length (column_list ?s) = length (ct_columns stmt)" by (simp add: scl cl new_columns_def)
  have kk: "k < length (column_list t)" using k(2) by (simp add: t add_index_frame)
  have "primary_points (primary_index ?s) (index_list ?s)"
    using stored_table_ok by (simp add: table_ok_def)
  then have prim: "primary_index ?s = Some 0"
    by (auto simp: primary_points_def sil stored_index_def new_index_def cn(2) split: option.splits)
  have "map col_id (column_list ?s) = map of_nat [0..<length (ct_columns stmt)]"
    using new_columns_ids [of i ?name 0 "ct_columns stmt"] by (simp add: scl cl stored_column_def comp_def)
  then have "columns_numbered ?s" by (simp add: columns_numbered_def len)
  moreover have "k < length (column_list ?s)" using kk by (simp add: scl)
  moreover have "idx_columns (stored_index ?x) = [column_list ?s ! k]"
    using kk by (simp add: scl stored_index_def new_index_def) (simp add: cl c(2))
  moreover have "tbl_db_id ?s \<noteq> 0" using d tx(2) by (simp add: stored_table_fields)
  moreover have "idx_type (stored_index ?x) = CONSTRAINT_PRIMARY" by (simp add: stored_index_def new_index_def cn(2))
  ultimately have "single_index ?s k" using cn(5) prim len sil unfolding single_index_def by simp
  moreover have "cn_name (hd (cons_columns (hd (ct_constraints stmt)))) = stmt_columns stmt ! k"
    using k(3) names by (simp add: cn)
  ultimately show thesis using sil that by (simp add: stored_index_def new_index_def)
qed

text \<open>No node of the new table is in the storage, if no node of its id was.\<close>

lemma node_key_tree:
  "node_key (index_schema t (hd (index_list t))) x = key_bytes (TreeNodeKey (tbl_db_id t) (tbl_id t) (idx_id (hd (index_list t))) x)"
  by (simp add: node_key_def index_schema_def key_bytes.simps)

lemma tree_key_not_alloc:
  assumes "d \<noteq> 0"
  shows "key_bytes (TreeNodeKey d i j x) \<noteq> alloc_key hash a ID_Database key" "key_bytes (TreeNodeKey d i j x) \<noteq> alloc_key hash a ID_Table key"
  using assms by (simp_all only: alloc_key_wf key_bytes_eq key_wf.simps ucast_u32_less store_key.simps simp_thms)

lemma tree_key_not_catalogue:
  assumes "d0 \<noteq> 0" "short_string (dbi_name d)" "short_string (tbl_name t)"
  shows "key_bytes (TreeNodeKey d0 i j x) \<notin> catalogue_keys_of d t"
  using assms by (auto simp: catalogue_keys_of_def key_bytes_eq short_string_def)

section \<open>The statements that create\<close>

lemma create_database_statement:
  assumes am: "am_storage L view pb" "set_order (en_set (mc_env mc))"
    and en: "en_kv (mc_env mc) = LevelDbClient L" "en_pb (mc_env mc) = pb"
    and new: "view s (key_bytes (DatabaseNameKey (cdb_name stmt))) = None" "utf8 (cdb_name stmt)" "short_string (cdb_name stmt)"
    and ids: "can_allocate (mc_hash mc) (mc_alloc mc) ID_Database (cdb_name stmt) (view s) n"
  shows "\<exists>i s'. (\<forall>fuel. run_ast mc fuel (CreateDatabaseNode stmt) s out = Inr (C_OK, s', out)) \<and>
    has_database pb (en_set (mc_env mc)) (view s') (database_made stmt i (mc_now mc)) \<and> i \<noteq> 0 \<and>
    (\<forall>key. key \<notin> {alloc_key (mc_hash mc) (mc_alloc mc) ID_Database (cdb_name stmt), key_bytes (DatabaseIDKey i),
         key_bytes (DatabaseNameKey (cdb_name stmt))} \<longrightarrow> view s' key = view s key)"
proof -
  have c: "catalogue (LevelDbClient L) view pb (en_set (mc_env mc))"
    by (rule catalogue_of [OF _ _ am(2)]) (use am(1) in \<open>simp_all add: am_storage_def\<close>)
  obtain i s1 s2 where r: "CreateDatabase_Analyze (mc_hash mc) (LevelDbClient L) pb (mc_alloc mc) (mc_now mc) stmt s =
      Inr (C_OK, Some (database_made stmt i (mc_now mc)), s1)"
    "CreateDatabase_DoWork (LevelDbClient L) pb (en_set (mc_env mc)) (database_made stmt i (mc_now mc)) s1 = Inr (C_OK, s2)"
    "has_database pb (en_set (mc_env mc)) (view s2) (database_made stmt i (mc_now mc))" "i \<noteq> 0"
    "\<forall>key. key \<notin> {alloc_key (mc_hash mc) (mc_alloc mc) ID_Database (cdb_name stmt), key_bytes (DatabaseIDKey i),
         key_bytes (DatabaseNameKey (cdb_name stmt))} \<longrightarrow> view s2 key = view s key"
    using catalogue.create_database_new [OF c new ids, of "mc_now mc"] by blast
  have "run_ast mc fuel (CreateDatabaseNode stmt) s out = Inr (C_OK, s2, out)" for fuel
    by (simp add: run_ast_def AnalyzeAst_def en r(1,2) BuildPlan_def ToPhysicalNode_def create_database_run)
  with r(3-5) show ?thesis by blast
qed

text \<open>\<open>CREATE TABLE\<close> with a one-column primary key makes a live table without rows.\<close>

lemma create_table_statement:
  assumes am: "am_storage L view pb" "set_order (en_set (mc_env mc))"
    and en: "en_kv (mc_env mc) = LevelDbClient L" "en_pb (mc_env mc) = pb"
    and db: "has_database pb (en_set (mc_env mc)) (view s) d" "dbi_name d = tn_db (ct_table_name stmt)" "dbi_id d \<noteq> 0"
    and short: "short_string (dbi_name d)" "short_string (tn_table (ct_table_name stmt))"
    and stmt: "stmt_ok stmt" "keyed_stmt stmt"
    and new: "view s (key_bytes (TableNameKey (dbi_id d) (tn_table (ct_table_name stmt)))) = None"
    and ids: "can_allocate (mc_hash mc) (mc_alloc mc) ID_Table (tn_table (ct_table_name stmt)) (view s) n"
    and nodes: "\<And>i j x. view s (key_bytes (TreeNodeKey (dbi_id d) i j x)) = None"
  shows "\<exists>t k s'. (\<forall>fuel. run_ast mc fuel (CreateTableNode stmt) s out = Inr (C_OK, s', out)) \<and>
    follows_stmt stmt t \<and> catalogued pb (en_set (mc_env mc)) (view s') (d\<lparr>table_ids := insert (tbl_id t) (table_ids d)\<rparr>) t \<and>
    live_table pb (view s') (stored_table t) k [] \<and>
    cn_name (hd (cons_columns (hd (ct_constraints stmt)))) = stmt_columns stmt ! k"
proof -
  have c: "catalogue (LevelDbClient L) view pb (en_set (mc_env mc))"
    by (rule catalogue_of [OF _ _ am(2)]) (use am(1) in \<open>simp_all add: am_storage_def\<close>)
  obtain t s1 s2 where r: "CreateTable_Analyze (mc_hash mc) (LevelDbClient L) pb (mc_alloc mc) (mc_now mc) stmt s = Inr (C_OK, Some (d, t), s1)"
    "CreateTable_DoWork (LevelDbClient L) pb (en_set (mc_env mc)) t s1 = Inr (C_OK, t, s2)" "follows_stmt stmt t"
    "tbl_db_id t = dbi_id d" "has_table pb (view s2) t"
    "has_database pb (en_set (mc_env mc)) (view s2) (d\<lparr>table_ids := insert (tbl_id t) (table_ids d)\<rparr>)"
    "made_table stmt (tbl_id t) (dbi_id d) (mc_now mc) = Inr t"
    "\<forall>key. key \<notin> insert (alloc_key (mc_hash mc) (mc_alloc mc) ID_Table (tn_table (ct_table_name stmt))) (catalogue_keys_of d t) \<longrightarrow>
      view s2 key = view s key"
    using catalogue.create_table_new [OF c db(1,2) short stmt(1) new ids, of "mc_now mc"] by blast
  have run: "run_ast mc fuel (CreateTableNode stmt) s out = Inr (C_OK, s2, out)" for fuel
    by (simp add: run_ast_def AnalyzeAst_def en r(1,2) BuildPlan_def ToPhysicalNode_def create_table_run)
  have tt: "table_text t" using r(5) by (simp add: has_table_def)
  obtain k p where k: "single_index (stored_table t) k" "index_list (stored_table t) = [p]" "idx_root_node_id p = 0"
    "idx_max_tree_node_id p = 0" "idx_id p = 0" "cn_name (hd (cons_columns (hd (ct_constraints stmt)))) = stmt_columns stmt ! k"
    by (rule created_index [OF r(7) stmt(2) db(3) tt r(4)])
  have name: "short_string (tbl_name t)" using short(2) r(3) by (simp add: follows_stmt_def)
  have "view s2 (node_key (index_schema (stored_table t) (hd (index_list (stored_table t)))) x) = None" for x
    using r(8) tree_key_not_catalogue [OF db(3) short(1) name] tree_key_not_alloc(2) [OF db(3)] nodes
    by (simp add: node_key_tree stored_table_fields r(4))
  then have "live_table pb (view s2) (stored_table t) k []"
    by (rule new_table_live [OF k(1)]) (simp_all add: k(2-4))
  moreover have "catalogued pb (en_set (mc_env mc)) (view s2) (d\<lparr>table_ids := insert (tbl_id t) (table_ids d)\<rparr>) t"
    using r(4-6) by (simp add: catalogued_def)
  ultimately show ?thesis using run r(3) k(6) by blast
qed

text \<open>With \<open>IF NOT EXISTS\<close>, a name that is taken: the statement writes what is there once more.\<close>

lemma serialize_stored: "table_text t \<Longrightarrow> TableInfo_Serialize (stored_table t) = TableInfo_Serialize t"
  by (simp add: TableInfo_Serialize_def stored_table_fields stored_table_columns stored_table_indexes table_text_def
      ColumnInfo_Serialize_def IndexInfo_Serialize_def stored_column_def stored_index_def comp_def)

lemma create_database_again:
  assumes am: "am_storage L view pb" "set_order (en_set (mc_env mc))"
    and en: "en_kv (mc_env mc) = LevelDbClient L" "en_pb (mc_env mc) = pb"
    and db: "has_database pb (en_set (mc_env mc)) (view s) d" "dbi_name d = cdb_name stmt" and opt: "cdb_if_not_exist stmt"
  shows "\<exists>s'. (\<forall>fuel. run_ast mc fuel (CreateDatabaseNode stmt) s out = Inr (C_OK, s', out)) \<and> view s' = view s"
proof -
  have c: "catalogue (LevelDbClient L) view pb (en_set (mc_env mc))"
    by (rule catalogue_of [OF _ _ am(2)]) (use am(1) in \<open>simp_all add: am_storage_def\<close>)
  have a: "CreateDatabase_Analyze (mc_hash mc) (LevelDbClient L) pb (mc_alloc mc) (mc_now mc) stmt s = Inr (C_OK, Some d, s)"
    using catalogue.create_database_existing [OF c db] opt by simp
  obtain s1 where s1: "DumpDatabaseMeta (LevelDbClient L) pb (en_set (mc_env mc)) (dbi_id d) d s = Inr (C_OK, s1)"
    "view s1 = (view s)(key_bytes (DatabaseIDKey (dbi_id d)) \<mapsto> ser_database pb (DatabaseInfo_Serialize (en_set (mc_env mc)) d))"
    using catalogue.dump_database [OF c] by blast
  obtain s2 where s2: "DumpDatabaseIdByName (LevelDbClient L) (dbi_name d) (dbi_id d) s1 = Inr (C_OK, s2)"
    "view s2 = (view s1)(key_bytes (DatabaseNameKey (dbi_name d)) \<mapsto> key_bytes (DatabaseIDKey (dbi_id d)))"
    using catalogue.dump_database_name [OF c] by blast
  have "run_ast mc fuel (CreateDatabaseNode stmt) s out = Inr (C_OK, s2, out)" for fuel
    by (simp add: run_ast_def AnalyzeAst_def en a BuildPlan_def ToPhysicalNode_def create_database_run CreateDatabase_DoWork_def s1(1) s2(1))
  moreover have "view s1 = view s" using db(1) unfolding s1(2) has_database_def by (simp add: map_upd_triv)
  then have "view s2 = view s" using db(1) unfolding s2(2) has_database_def by (simp add: map_upd_triv)
  ultimately show ?thesis by blast
qed

lemma create_table_again:
  assumes am: "am_storage L view pb" "set_order (en_set (mc_env mc))"
    and en: "en_kv (mc_env mc) = LevelDbClient L" "en_pb (mc_env mc) = pb"
    and cat: "catalogued pb (en_set (mc_env mc)) (view s) d t" "dbi_name d = tn_db (ct_table_name stmt)" "tbl_name t = tn_table (ct_table_name stmt)"
    and listed: "tbl_id t \<in> table_ids d" "tbl_db_name t = dbi_name d" and opt: "ct_if_not_exist stmt"
  shows "\<exists>s'. (\<forall>fuel. run_ast mc fuel (CreateTableNode stmt) s out = Inr (C_OK, s', out)) \<and> view s' = view s"
proof -
  have c: "catalogue (LevelDbClient L) view pb (en_set (mc_env mc))"
    by (rule catalogue_of [OF _ _ am(2)]) (use am(1) in \<open>simp_all add: am_storage_def\<close>)
  let ?t = "stored_table t"
  note ld = catalogue.catalogued_loads [OF c cat(1)]
  have a: "CreateTable_Analyze (mc_hash mc) (LevelDbClient L) pb (mc_alloc mc) (mc_now mc) stmt s = Inr (C_OK, Some (d, ?t), s)"
    using ld by (simp add: CreateTable_Analyze_def cat(2,3) [symmetric] opt)
  have db: "tbl_db_id t = dbi_id d" "table_text t" and dt: "database_text d"
    and idk: "view s (key_bytes (DatabaseIDKey (dbi_id d))) = Some (ser_database pb (DatabaseInfo_Serialize (en_set (mc_env mc)) d))"
    and tk: "view s (key_bytes (TableIDKey (dbi_id d) (tbl_id t))) = Some (ser_table pb (TableInfo_Serialize t))"
    and nk: "view s (key_bytes (TableNameKey (dbi_id d) (tbl_name t))) = Some (key_bytes (TableIDKey (dbi_id d) (tbl_id t)))"
    using cat(1) by (auto simp: catalogued_def has_database_def has_table_def)
  let ?cb = "\<lambda>info. Inr (C_OK, info\<lparr>table_ids := insert (tbl_id t) (table_ids info)\<rparr>) :: (status \<times> DatabaseInfo) res"
  have cb: "?cb d = Inr (C_OK, d)" using listed(1) by (simp add: insert_absorb)
  obtain s1 where s1: "ModifyDatabaseMeta (LevelDbClient L) pb (en_set (mc_env mc)) (dbi_id d) ?cb s = Inr (C_OK, s1)"
    "view s1 = (view s)(key_bytes (DatabaseIDKey (dbi_id d)) \<mapsto> ser_database pb (DatabaseInfo_Serialize (en_set (mc_env mc)) d))"
    using catalogue.modify_database [OF c idk dt, where callback = ?cb, OF cb] by blast
  have v1: "view s1 = view s" unfolding s1(2) using idk by (rule map_upd_triv)
  obtain s2 where s2: "DumpTableMeta (LevelDbClient L) pb (dbi_id d) (tbl_id t) ?t s1 = Inr (C_OK, s2)"
    "view s2 = (view s1)(key_bytes (TableIDKey (dbi_id d) (tbl_id t)) \<mapsto> ser_table pb (TableInfo_Serialize ?t))"
    using catalogue.dump_table [OF c] by blast
  have v2: "view s2 = view s" unfolding s2(2) v1 serialize_stored [OF db(2)] using tk by (rule map_upd_triv)
  obtain s3 where s3: "DumpTableIdByName (LevelDbClient L) (dbi_id d) (tbl_name t) (tbl_id t) s2 = Inr (C_OK, s3)"
    "view s3 = (view s2)(key_bytes (TableNameKey (dbi_id d) (tbl_name t)) \<mapsto> key_bytes (TableIDKey (dbi_id d) (tbl_id t)))"
    using catalogue.dump_table_name [OF c] by blast
  have v3: "view s3 = view s" unfolding s3(2) v2 using nk by (rule map_upd_triv)
  have same: "?t\<lparr>tbl_db_id := dbi_id d\<rparr> = ?t" using stored_table_fields(2) [of t] db(1) by simp
  have "run_ast mc fuel (CreateTableNode stmt) s out = Inr (C_OK, s3, out)" for fuel
    using ld(1) s1(1) s2(1) s3(1)
    by (simp add: run_ast_def AnalyzeAst_def en a BuildPlan_def ToPhysicalNode_def create_table_run CreateTable_DoWork_def
        stored_table_fields listed(2) same)
  with v3 show ?thesis by blast
qed

section \<open>Many statements\<close>

lemma run_all_append:
  "run_all mc fuel (xs @ ys) s out = bindR (run_all mc fuel xs s out) (\<lambda>(s1, out1). run_all mc fuel ys s1 out1)"
proof (induction xs arbitrary: s out)
  case (Cons x xs)
  then show ?case by (cases "run mc fuel x s out") (auto split: prod.split)
qed simp

text \<open>The texts of \<open>INSERT\<close> statements with these integers.\<close>

definition inserts_of :: "'s machine \<Rightarrow> DatabaseInfo \<Rightarrow> TableInfo \<Rightarrow> bytes \<Rightarrow> u64 list \<Rightarrow> bool" where
  "inserts_of mc d tt sql ws \<longleftrightarrow> length ws = length (column_list tt) \<and>
     (\<exists>h q b dups others. named_insert d tt h \<and>
        mc_parse mc sql = (C_OK, InsertNode h q [RowNode (map (\<lambda>w. LiteralNode b (LT_INT w)) ws)] dups # others))"

lemma run_inserts:
  assumes am: "am_storage L view pb" "set_order order" and en: "en_kv (mc_env mc) = LevelDbClient L" "en_pb (mc_env mc) = pb"
    "visits_all (en_ord (mc_env mc))" and short: "short_string (dbi_name d)" "short_string (tbl_name tt)"
  shows "catalogued pb order (view s) d tt \<Longrightarrow> live_table pb (view s) (stored_table tt) k rows \<Longrightarrow>
    list_all2 (inserts_of mc d tt) sqls wss \<Longrightarrow> length rows + length sqls < 2 ^ 64 - 1 \<Longrightarrow>
    \<exists>s'. (\<forall>fuel. run_all mc fuel sqls s out = Inr (s', out)) \<and> catalogued pb order (view s') d tt \<and>
      live_table pb (view s') (stored_table tt) k (fold (upsert k) (map (map NewInt64) wss) rows)"
proof (induction sqls arbitrary: s rows wss)
  case (Cons sql sqls)
  from Cons.prems(3) obtain ws wss1 where w: "wss = ws # wss1" "inserts_of mc d tt sql ws" "list_all2 (inserts_of mc d tt) sqls wss1"
    by (auto simp: list_all2_Cons1)
  then obtain h q b dups others where p: "length ws = length (column_list tt)" "named_insert d tt h"
    "mc_parse mc sql = (C_OK, InsertNode h q [RowNode (map (\<lambda>w. LiteralNode b (LT_INT w)) ws)] dups # others)"
    unfolding inserts_of_def by blast
  have len: "length rows < 2 ^ 64 - 2" using Cons.prems(4) by simp
  obtain s1 where s1: "\<And>fuel. run mc fuel sql s out = Inr (C_OK, s1, out)" "catalogued pb order (view s1) d tt"
    "live_table pb (view s1) (stored_table tt) k (upsert k (map NewInt64 ws) rows)"
    unfolding run_parsed [OF p(3)] using insert_runs [OF am en Cons.prems(1,2) p(2,1) short len] by blast
  have "length (upsert k (map NewInt64 ws) rows) + length sqls < 2 ^ 64 - 1"
    using length_upsert [of k "map NewInt64 ws" rows] Cons.prems(4) by simp
  from Cons.IH [OF s1(2,3) w(3) this] show ?case by (auto simp: s1(1) w(1))
qed simp

section \<open>The program\<close>

text \<open>The trees of the statements of \<open>main\<close>, as the rules of \<open>sql_parse.y\<close> build them. The fields of the query and
  whatever else a tree has is left open.\<close>

definition main_name :: TableName where
  "main_name = \<lparr>tn_db = ascii ''db_test'', tn_table = ascii ''db_table''\<rparr>"

definition main_database :: CreateDatabaseStmt where
  "main_database = \<lparr>cdb_if_not_exist = True, cdb_name = ascii ''db_test''\<rparr>"

definition main_column :: "string \<Rightarrow> ColumnName" where
  "main_column name = \<lparr>cn_db = None, cn_table = None, cn_name = ascii name\<rparr>"

definition main_table :: CreateTableStmt where
  "main_table = \<lparr>ct_if_not_exist = True, ct_table_name = main_name,
     ct_columns = [\<lparr>cd_name = main_column ''id'', cd_type = MYSQL_TYPE_LONGLONG\<rparr>, \<lparr>cd_name = main_column ''age'', cd_type = MYSQL_TYPE_LONGLONG\<rparr>],
     ct_constraints = [\<lparr>cons_type = CONSTRAINT_PRIMARY, cons_name = [], cons_columns = [main_column ''id'']\<rparr>]\<rparr>"

definition parses_main :: "'s machine \<Rightarrow> bool" where
  "parses_main mc \<longleftrightarrow>
     (\<exists>others. mc_parse mc (main_statements ! 0) = (C_OK, CreateDatabaseNode main_database # others)) \<and>
     (\<exists>others. mc_parse mc (main_statements ! 1) = (C_OK, CreateTableNode main_table # others)) \<and>
     (\<forall>i \<in> set [0..<10]. \<exists>h q b dups others. in_table_name h = Some main_name \<and>
        mc_parse mc (insert_text i) =
          (C_OK, InsertNode h q [RowNode (map (\<lambda>w. LiteralNode b (LT_INT w)) [of_nat i, of_nat (100 - i)])] dups # others)) \<and>
     (\<exists>h fs as_name derived hints wh gr hav ord lim others. mc_parse mc (last main_statements) =
        (C_OK, SelectNode h fs (TableSourceNode (Some main_name) as_name derived hints) wh gr hav ord lim # others))"

definition main_rows :: "expr_value list list" where
  "main_rows = map (\<lambda>i. [NewInt64 (of_nat i), NewInt64 (of_nat (100 - i))]) [0..<10]"

definition main_output :: bytes where
  "main_output = concat (map (\<lambda>i. ascii '' | '' @ dec_of_nat i @ ascii '' | '' @ dec_of_nat (100 - i) @ ascii '' |'' @ [10]) [0..<10])"

text \<open>A storage with the table of the program and these rows.\<close>

definition main_state :: "proto_ops \<Rightarrow> (u64 set \<Rightarrow> u64 list) \<Rightarrow> (bytes \<rightharpoonup> bytes) \<Rightarrow> expr_value list list \<Rightarrow> bool" where
  "main_state pb order m rows \<longleftrightarrow>
     (\<exists>d t. catalogued pb order m d t \<and> dbi_name d = tn_db main_name \<and> tbl_name t = tn_table main_name \<and> tbl_db_name t = tn_db main_name \<and>
        tbl_id t \<in> table_ids d \<and> length (column_list t) = 2 \<and> live_table pb m (stored_table t) 0 rows)"

lemma short_main: "short_string (tn_db main_name)" "short_string (tn_table main_name)" "utf8 (tn_db main_name)" "utf8 (tn_table main_name)"
  by (simp_all add: short_string_def main_name_def ascii_def)

lemma main_inserted: "rows = [] \<or> rows = main_rows \<Longrightarrow> fold (upsert 0) main_rows rows = main_rows"
proof -
  have "fold (upsert 0) main_rows [] = main_rows" "fold (upsert 0) main_rows main_rows = main_rows" by code_simp+
  then show "rows = [] \<or> rows = main_rows \<Longrightarrow> fold (upsert 0) main_rows rows = main_rows" by auto
qed

lemma main_printed: "concat (map row_line (take 1024 (filter (listed 0) main_rows))) = main_output"
  by code_simp

text \<open>The ten rows and the query, over a storage that has the table.\<close>

lemma main_rest:
  assumes am: "am_storage L view pb" "set_order order" and en: "en_kv (mc_env mc) = LevelDbClient L" "en_pb (mc_env mc) = pb"
    "visits_all (en_ord (mc_env mc))" and parse: "parses_main mc"
    and st: "main_state pb order (view s) rows" "rows = [] \<or> rows = main_rows"
  shows "\<exists>s' m. (\<forall>fuel \<ge> m. run_all mc fuel (map insert_text [0..<10] @ [last main_statements]) s [] = Inr (s', main_output)) \<and>
    main_state pb order (view s') main_rows"
proof -
  obtain d t where t: "catalogued pb order (view s) d t" "dbi_name d = tn_db main_name" "tbl_name t = tn_table main_name"
    "tbl_db_name t = tn_db main_name" "tbl_id t \<in> table_ids d" "length (column_list t) = 2" "live_table pb (view s) (stored_table t) 0 rows"
    using st(1) by (auto simp: main_state_def)
  have short: "short_string (dbi_name d)" "short_string (tbl_name t)" by (simp_all add: t(2,3) short_main)
  let ?wss = "map (\<lambda>i. [of_nat i, of_nat (100 - i)]) [0..<10] :: u64 list list"
  have "list_all2 (inserts_of mc d t) (map insert_text [0..<10]) ?wss"
    unfolding list_all2_map1 list_all2_map2
  proof (rule list.rel_refl_strong)
    fix i :: nat assume i: "i \<in> set [0..<10]"
    then obtain h q b dups others where "in_table_name h = Some main_name" "mc_parse mc (insert_text i) =
          (C_OK, InsertNode h q [RowNode (map (\<lambda>w. LiteralNode b (LT_INT w)) [of_nat i, of_nat (100 - i)])] dups # others)"
      using parse unfolding parses_main_def by blast
    moreover have "named_insert d t h" if "in_table_name h = Some main_name" for h
      using that by (simp add: named_insert_def t(2,3))
    ultimately show "inserts_of mc d t (insert_text i) [of_nat i, of_nat (100 - i)]"
      using t(6) unfolding inserts_of_def by simp
  qed
  moreover have "length rows + length (map insert_text [0..<10]) < 2 ^ 64 - 1"
    using st(2) by (auto simp: main_rows_def)
  ultimately obtain s1 where s1: "\<And>fuel. run_all mc fuel (map insert_text [0..<10]) s [] = Inr (s1, [])"
    "catalogued pb order (view s1) d t" "live_table pb (view s1) (stored_table t) 0 (fold (upsert 0) (map (map NewInt64) ?wss) rows)"
    using run_inserts [OF am en short t(1,7), of "map insert_text [0..<10]" ?wss "[]"] by blast
  have "map (map NewInt64) ?wss = main_rows" by (simp add: main_rows_def comp_def)
  with s1(3) st(2) have live: "live_table pb (view s1) (stored_table t) 0 main_rows" by (simp only: main_inserted)
  obtain h fs as_name derived hints wh gr hav ord lim others where sel: "mc_parse mc (last main_statements) =
        (C_OK, SelectNode h fs (TableSourceNode (Some main_name) as_name derived hints) wh gr hav ord lim # others)"
    using parse unfolding parses_main_def by blast
  have "TableSourceNode (Some main_name) as_name derived hints = named_source d t as_name derived hints"
    by (simp add: named_source_def t(2,3))
  with sel have sel: "mc_parse mc (last main_statements) =
        (C_OK, SelectNode h fs (named_source d t as_name derived hints) wh gr hav ord lim # others)" by simp
  obtain m where "\<And>fuel. m \<le> fuel \<Longrightarrow> run mc fuel (last main_statements) s1 [] = Inr (C_OK, s1, main_output)"
    unfolding run_parsed [OF sel]
    using select_runs [OF am en(1,2) s1(2) live_stored [OF live], where out = "[]"] main_printed by fastforce
  then have "run_all mc fuel (map insert_text [0..<10] @ [last main_statements]) s [] = Inr (s1, main_output)" if "m \<le> fuel" for fuel
    using that by (simp add: run_all_append s1(1) del: map_upt_Suc upt_Suc)
  moreover have "main_state pb order (view s1) main_rows" using t s1(2) live unfolding main_state_def by blast
  ultimately show ?thesis by blast
qed

text \<open>What \<open>CREATE DATABASE\<close> writes is no key of a table.\<close>

lemma new_table_keys:
  assumes "d \<noteq> 0" "short_string name" "short_string db"
  shows "key_bytes (TableNameKey d name) \<notin> {alloc_key hash a ID_Database key, key_bytes (DatabaseIDKey d), key_bytes (DatabaseNameKey db)}"
    "alloc_key hash a ID_Table name \<notin> {alloc_key hash a ID_Database key, key_bytes (DatabaseIDKey d), key_bytes (DatabaseNameKey db)}"
    "key_bytes (TreeNodeKey d j l x) \<notin> {alloc_key hash a ID_Database key, key_bytes (DatabaseIDKey d), key_bytes (DatabaseNameKey db)}"
  by (simp_all only: insert_iff empty_iff alloc_key_wf key_bytes_eq key_wf_names key_wf.simps(1,4,8-) ucast_u32_less store_key.simps
      simp_thms assms)

text \<open>The first two statements make the table, or find it.\<close>

lemma main_first:
  assumes am: "am_storage L view pb" "set_order (en_set (mc_env mc))" and en: "en_kv (mc_env mc) = LevelDbClient L" "en_pb (mc_env mc) = pb"
    and alloc: "mc_alloc mc = demo_allocator" and parse: "parses_main mc" and empty: "view s = Map.empty"
  shows "\<exists>s'. (\<forall>fuel. run_all mc fuel (take 2 main_statements) s [] = Inr (s', [])) \<and> main_state pb (en_set (mc_env mc)) (view s') []"
proof -
  have names: "cdb_name main_database = tn_db main_name" "ct_table_name main_table = main_name"
    by (simp_all add: main_database_def main_table_def main_name_def)
  obtain i s1 where s1: "\<And>fuel. run_ast mc fuel (CreateDatabaseNode main_database) s [] = Inr (C_OK, s1, [])"
    "has_database pb (en_set (mc_env mc)) (view s1) (database_made main_database i (mc_now mc))" "i \<noteq> 0"
    "\<And>key. key \<notin> {alloc_key (mc_hash mc) demo_allocator ID_Database (tn_db main_name), key_bytes (DatabaseIDKey i),
         key_bytes (DatabaseNameKey (tn_db main_name))} \<Longrightarrow> view s1 key = None"
    using create_database_statement [OF am en, of s main_database 0 "[]"] demo_can_allocate [of ID_Database "view s" "mc_hash mc" "tn_db main_name"]
    by (auto simp: empty names short_main alloc)
  let ?d = "database_made main_database i (mc_now mc)"
  have d: "dbi_name ?d = tn_db main_name" "dbi_id ?d = i" "dbi_name ?d = tn_db (ct_table_name main_table)" "short_string (dbi_name ?d)"
    by (simp_all add: database_made_def names short_main)
  have none: "view s1 (key_bytes (TableNameKey (dbi_id ?d) (tn_table (ct_table_name main_table)))) = None"
    "view s1 (alloc_key (mc_hash mc) demo_allocator ID_Table (tn_table (ct_table_name main_table))) = None"
    "view s1 (key_bytes (TreeNodeKey (dbi_id ?d) j l x)) = None" for j l x
    unfolding d(2) names by (rule s1(4), rule new_table_keys [OF s1(3) short_main(2,1)])+
  have ok: "stmt_ok main_table" "keyed_stmt main_table" "short_string (tn_table (ct_table_name main_table))"
    by (simp_all add: stmt_ok_def keyed_stmt_def names short_main) (auto simp: main_table_def stmt_columns_def known_columns_def main_column_def ascii_def)
  have can: "can_allocate (mc_hash mc) (mc_alloc mc) ID_Table (tn_table (ct_table_name main_table)) (view s1) 0"
    unfolding alloc by (rule demo_can_allocate) (simp_all add: none(2))
  have i0: "dbi_id ?d \<noteq> 0" using s1(3) by (simp add: d(2))
  obtain t k s2 where s2: "\<And>fuel. run_ast mc fuel (CreateTableNode main_table) s1 [] = Inr (C_OK, s2, [])" "follows_stmt main_table t"
    "catalogued pb (en_set (mc_env mc)) (view s2) (?d\<lparr>table_ids := insert (tbl_id t) (table_ids ?d)\<rparr>) t"
    "live_table pb (view s2) (stored_table t) k []"
    "cn_name (hd (cons_columns (hd (ct_constraints main_table)))) = stmt_columns main_table ! k"
    using create_table_statement [OF am en s1(2) d(3) i0 d(4) ok(3,1,2) none(1) can none(3), of "[]"] by blast
  have len: "length (column_list t) = 2"
    using arg_cong [of _ _ length, OF conjunct1 [OF conjunct2 [OF conjunct2 [OF s2(2) [unfolded follows_stmt_def]]]]]
    by (simp add: stmt_columns_def main_table_def)
  have "k < 2" using live_rows [OF s2(4)] len by (simp add: single_index_def stored_table_columns)
  with s2(5) have "k = 0" by (cases k) (auto simp: stmt_columns_def main_table_def main_column_def ascii_def less_Suc_eq)
  have "main_state pb (en_set (mc_env mc)) (view s2) []"
    unfolding main_state_def using s2(2-4) len \<open>k = 0\<close> d(1) names
    by (intro exI [of _ "?d\<lparr>table_ids := insert (tbl_id t) (table_ids ?d)\<rparr>"] exI [of _ t]) (simp add: follows_stmt_def)
  moreover have "run_all mc fuel (take 2 main_statements) s [] = Inr (s2, [])" for fuel
  proof -
    obtain o1 o2 where "mc_parse mc (main_statements ! 0) = (C_OK, CreateDatabaseNode main_database # o1)"
      "mc_parse mc (main_statements ! 1) = (C_OK, CreateTableNode main_table # o2)"
      using parse unfolding parses_main_def by blast
    then have "run mc fuel (main_statements ! 0) s [] = Inr (C_OK, s1, [])" "run mc fuel (main_statements ! 1) s1 [] = Inr (C_OK, s2, [])"
      by (simp_all only: run_parsed s1(1) s2(1))
    then show ?thesis by (simp add: main_statements_def numeral_2_eq_2)
  qed
  ultimately show ?thesis by blast
qed

lemma main_again:
  assumes am: "am_storage L view pb" "set_order (en_set (mc_env mc))" and en: "en_kv (mc_env mc) = LevelDbClient L" "en_pb (mc_env mc) = pb"
    and parse: "parses_main mc" and st: "main_state pb (en_set (mc_env mc)) (view s) rows"
  shows "\<exists>s'. (\<forall>fuel. run_all mc fuel (take 2 main_statements) s [] = Inr (s', [])) \<and> main_state pb (en_set (mc_env mc)) (view s') rows"
proof -
  obtain d t where t: "catalogued pb (en_set (mc_env mc)) (view s) d t" "dbi_name d = tn_db main_name" "tbl_name t = tn_table main_name"
    "tbl_db_name t = tn_db main_name" "tbl_id t \<in> table_ids d"
    using st by (auto simp: main_state_def)
  have names: "cdb_name main_database = tn_db main_name" "ct_table_name main_table = main_name" "cdb_if_not_exist main_database" "ct_if_not_exist main_table"
    by (simp_all add: main_database_def main_table_def main_name_def)
  have db: "has_database pb (en_set (mc_env mc)) (view s) d" using t(1) by (simp add: catalogued_def)
  obtain s1 where s1: "\<And>fuel. run_ast mc fuel (CreateDatabaseNode main_database) s [] = Inr (C_OK, s1, [])" "view s1 = view s"
    using create_database_again [OF am en db, of main_database "[]"] t(2) names by auto
  have "catalogued pb (en_set (mc_env mc)) (view s1) d t" using t(1) s1(2) by simp
  then obtain s2 where s2: "\<And>fuel. run_ast mc fuel (CreateTableNode main_table) s1 [] = Inr (C_OK, s2, [])" "view s2 = view s"
    using create_table_again [OF am en, of s1 d t main_table "[]"] t(2-5) names s1(2) by auto
  have "run_all mc fuel (take 2 main_statements) s [] = Inr (s2, [])" for fuel
  proof -
    obtain o1 o2 where "mc_parse mc (main_statements ! 0) = (C_OK, CreateDatabaseNode main_database # o1)"
      "mc_parse mc (main_statements ! 1) = (C_OK, CreateTableNode main_table # o2)"
      using parse unfolding parses_main_def by blast
    then have "run mc fuel (main_statements ! 0) s [] = Inr (C_OK, s1, [])" "run mc fuel (main_statements ! 1) s1 [] = Inr (C_OK, s2, [])"
      by (simp_all only: run_parsed s1(1) s2(1))
    then show ?thesis by (simp add: main_statements_def numeral_2_eq_2)
  qed
  with st s2(2) show ?thesis by auto
qed

section \<open>Property\<close>

text \<open>The program started \<open>n\<close> times on one directory: every run opens the storage the run before left.\<close>

fun main_runs ::
    "'s leveldb \<Rightarrow> bytes \<Rightarrow> 's machine \<Rightarrow> nat \<Rightarrow> nat \<Rightarrow> 's \<Rightarrow> ('s \<times> bytes list) res" where
  "main_runs L dir mc fuel 0 s = Inr (s, [])"
| "main_runs L dir mc fuel (Suc n) s =
     bindR (main_program L (\<lambda>_. (L_ok, s)) dir mc fuel) (\<lambda>(s1, out).
     bindR (main_runs L dir mc fuel n s1) (\<lambda>(s2, outs). Inr (s2, out # outs)))"

text \<open>The machine after \<open>init\<close>.\<close>

definition main_machine :: "'s leveldb \<Rightarrow> 's machine \<Rightarrow> 's machine" where
  "main_machine L mc = mc\<lparr>mc_env := (mc_env mc)\<lparr>en_kv := LevelDbClient L\<rparr>, mc_alloc := IdAllocator 1024\<rparr>"

lemma main_program_run:
  "main_program L (\<lambda>_. (L_ok, s)) dir mc fuel = run_all (main_machine L mc) fuel main_statements s []"
  by (simp add: main_program_def init_def KvStorageAPISingleton_Init_def LevelDbClient_Create_def IdAllocator_Init_def main_machine_def
      del: run_all.simps)

lemma main_one_run:
  assumes am: "am_storage L view pb" "set_order (en_set (mc_env mc))" and en: "en_pb (mc_env mc) = pb" "visits_all (en_ord (mc_env mc))"
    and parse: "parses_main mc"
    and st: "view s = Map.empty \<or> main_state pb (en_set (mc_env mc)) (view s) main_rows"
  shows "\<exists>s' m. (\<forall>fuel \<ge> m. main_program L (\<lambda>_. (L_ok, s)) dir mc fuel = Inr (s', main_output)) \<and>
    main_state pb (en_set (mc_env mc)) (view s') main_rows"
proof -
  let ?mc = "main_machine L mc"
  have mc: "en_kv (mc_env ?mc) = LevelDbClient L" "en_pb (mc_env ?mc) = pb" "visits_all (en_ord (mc_env ?mc))"
    "en_set (mc_env ?mc) = en_set (mc_env mc)" "mc_alloc ?mc = demo_allocator" "parses_main ?mc"
    using en parse by (simp_all add: main_machine_def demo_allocator_def parses_main_def)
  have so: "set_order (en_set (mc_env ?mc))" using am(2) mc(4) by simp
  obtain rows s1 where s1: "\<And>fuel. run_all ?mc fuel (take 2 main_statements) s [] = Inr (s1, [])"
    "main_state pb (en_set (mc_env mc)) (view s1) rows" "rows = [] \<or> rows = main_rows"
    using st main_first [OF am(1) so mc(1,2,5,6)] main_again [OF am(1) so mc(1,2,6)] mc(4) by metis
  obtain s' m where s': "\<And>fuel. m \<le> fuel \<Longrightarrow> run_all ?mc fuel (map insert_text [0..<10] @ [last main_statements]) s1 [] = Inr (s', main_output)"
    "main_state pb (en_set (mc_env mc)) (view s') main_rows"
    using main_rest [OF am mc(1-3,6) s1(2,3)] by blast
  have "main_statements = take 2 main_statements @ map insert_text [0..<10] @ [last main_statements]"
    by (simp add: main_statements_def del: upt_Suc)
  then have "run_all ?mc fuel main_statements s [] = Inr (s', main_output)" if "m \<le> fuel" for fuel
    using run_all_append [of ?mc fuel "take 2 main_statements" "map insert_text [0..<10] @ [last main_statements]" s "[]"] s1(1) s'(1) [OF that]
    by simp
  with s'(2) show ?thesis by (auto simp: main_program_run)
qed

text \<open>C12: The program run any number of times on one directory, the first time on an empty storage, prints the ten
  rows it inserts every time, in the order of their keys, if the scanner and the parser find the
  trees of the grammar in its thirteen texts: the first run creates the database and the table; a
  later one finds them, and its \<open>INSERT\<close> statements replace the ten rows by the same ones. The fuel
  of the optimizer need only be large enough.\<close>

theorem main_program_prints:
  assumes "am_storage L view pb" "set_order (en_set (mc_env mc))" "en_pb (mc_env mc) = pb" "visits_all (en_ord (mc_env mc))"
    "parses_main mc" "view s = Map.empty"
  shows "\<exists>s' m. \<forall>fuel \<ge> m. main_runs L dir mc fuel n s = Inr (s', replicate n main_output)"
proof -
  have "\<exists>s' m. \<forall>fuel \<ge> m. main_runs L dir mc fuel n s = Inr (s', replicate n main_output)"
    if "view s = Map.empty \<or> main_state pb (en_set (mc_env mc)) (view s) main_rows" for s
    using that
  proof (induction n arbitrary: s)
    case (Suc n)
    obtain s1 m1 where s1: "\<And>fuel. m1 \<le> fuel \<Longrightarrow> main_program L (\<lambda>_. (L_ok, s)) dir mc fuel = Inr (s1, main_output)"
      "main_state pb (en_set (mc_env mc)) (view s1) main_rows"
      using main_one_run [OF assms(1-5) Suc.prems] by blast
    obtain s2 m2 where s2: "\<And>fuel. m2 \<le> fuel \<Longrightarrow> main_runs L dir mc fuel n s1 = Inr (s2, replicate n main_output)"
      using Suc.IH s1(2) by blast
    have "main_runs L dir mc fuel (Suc n) s = Inr (s2, replicate (Suc n) main_output)" if "max m1 m2 \<le> fuel" for fuel
      using that by (simp add: s1(1) s2)
    then show ?case by blast
  qed simp
  with assms(6) show ?thesis by blast
qed

text \<open>A parser that tells the thirteen texts apart by a letter or a digit.\<close>

definition main_parse :: "bytes \<Rightarrow> status \<times> node list" where
  "main_parse sql =
     (C_OK,
      [if sql ! 0 = 67 then (if sql ! 7 = 68 then CreateDatabaseNode main_database else CreateTableNode main_table)
       else if sql ! 0 = 83 then
         SelectNode \<lparr>select_opt = Some plain_opts, se_is_in_braces = False, se_lock = SL_NONE\<rparr> []
           (TableSourceNode (Some main_name) [] Nullptr []) Nullptr Nullptr Nullptr Nullptr Nullptr
       else let i = unat (sql ! 49 - 48) in
         InsertNode (demo_head\<lparr>in_table_name := Some main_name\<rparr>) Nullptr
           [RowNode (map (\<lambda>w. LiteralNode False (LT_INT w)) [of_nat i, of_nat (100 - i)])] []])"

definition text_machine :: "(bytes \<rightharpoonup> bytes) machine" where
  "text_machine = (demo_machine Nullptr)\<lparr>mc_parse := main_parse\<rparr>"

lemma main_texts:
  "main_statements ! 0 ! 0 = 67" "main_statements ! 0 ! 7 = 68" "main_statements ! 1 ! 0 = 67" "main_statements ! 1 ! 7 = 84"
  "last main_statements ! 0 = 83"
  by (simp_all add: main_statements_def ascii_def del: upt_Suc)

lemma insert_text_letters: "i < 10 \<Longrightarrow> insert_text i ! 0 = 73 \<and> unat (insert_text i ! 49 - 48) = i"
  by (simp add: insert_text_def ascii_def nth_append dec_of_nat.simps [of i] unat_of_nat)

lemma text_machine_parses: "parses_main text_machine"
proof -
  have "\<exists>h q b dups others. in_table_name h = Some main_name \<and>
        mc_parse text_machine (insert_text i) =
          (C_OK, InsertNode h q [RowNode (map (\<lambda>w. LiteralNode b (LT_INT w)) [of_nat i, of_nat (100 - i)])] dups # others)"
    if i: "i \<in> set [0..<10]" for i
  proof -
    have "insert_text i ! 0 = 73" "unat (insert_text i ! 49 - 48) = i"
      using insert_text_letters i by auto
    then have "main_parse (insert_text i) = (C_OK, [InsertNode (demo_head\<lparr>in_table_name := Some main_name\<rparr>) Nullptr
        [RowNode (map (\<lambda>w. LiteralNode False (LT_INT w)) [of_nat i, of_nat (100 - i)])] []])"
      by (simp add: main_parse_def)
    then show ?thesis
      by (intro exI [of _ "demo_head\<lparr>in_table_name := Some main_name\<rparr>"]) (auto simp: text_machine_def)
  qed
  moreover have "mc_parse text_machine (main_statements ! 0) = (C_OK, [CreateDatabaseNode main_database])"
    "mc_parse text_machine (main_statements ! 1) = (C_OK, [CreateTableNode main_table])"
    "mc_parse text_machine (last main_statements) = (C_OK,
      [SelectNode \<lparr>select_opt = Some plain_opts, se_is_in_braces = False, se_lock = SL_NONE\<rparr> []
           (TableSourceNode (Some main_name) [] Nullptr []) Nullptr Nullptr Nullptr Nullptr Nullptr])"
    using main_texts unfolding text_machine_def by (simp_all add: main_parse_def)
  ultimately show ?thesis unfolding parses_main_def by blast
qed

theorem main_program_prints_witness:
  "\<exists>s' m. \<forall>fuel \<ge> m. main_runs mem_leveldb [] text_machine fuel 2 Map.empty = Inr (s', [main_output, main_output])"
proof -
  have en: "set_order (en_set (mc_env text_machine))" "en_pb (mc_env text_machine) = sd_proto" "visits_all (en_ord (mc_env text_machine))"
    using set_order_sorted by (simp_all add: text_machine_def mem_env_def visits_all_def)
  have two: "replicate 2 main_output = [main_output, main_output]" by (simp add: numeral_2_eq_2)
  show ?thesis
    using main_program_prints [where view = id and s = Map.empty and dir = "[]" and n = 2, OF in_memory.am_storage_axioms en text_machine_parses]
    by (simp add: two)
qed

end
