(* ===== verification/Statistics.thy ===== *)
theory Statistics
  imports SchemaCodec KvStorage Protobuf
begin

text \<open>
  Statistics of tables and columns (\<open>sql/statistics\<close>, \<open>proto/statistics.proto\<close>): equi-height
  histograms, their conversion to messages, and the operations that store and load them. The
  arithmetic of doubles, which stand for themselves as bit patterns, and the messages of the
  protobuf library are arguments. Times and counts that no constructor sets are those the caller has.
\<close>

section \<open>Messages\<close>

record BucketProto =
  bp_start :: bytes
  bp_end :: bytes
  bp_count :: u64
  bp_ndv :: u64
  bp_cf :: u64

record ColumnStatisticsProto =
  kp_db_id :: u64
  kp_table_id :: u64
  kp_column_id :: u64
  kp_min :: bytes
  kp_max :: bytes
  kp_count :: u64
  kp_size :: u64
  kp_ndv :: u64
  kp_create_ts :: u64
  kp_update_ts :: u64
  kp_histogram :: "BucketProto list"

record StatisticsMetaProto =
  mp_db_id :: u64
  mp_table_id :: u64
  mp_is_analyzing :: bool
  mp_create_ts :: u64
  mp_update_ts :: u64

text \<open>Parsing leaves what it could read in the message; its result is not tested.\<close>

record stat_protos =
  ser_column :: "ColumnStatisticsProto \<Rightarrow> bytes"
  parse_column :: "bytes \<Rightarrow> ColumnStatisticsProto"
  ser_meta :: "StatisticsMetaProto \<Rightarrow> bytes"
  parse_meta :: "bytes \<Rightarrow> StatisticsMetaProto"

section \<open>Histograms\<close>

text \<open>The arithmetic of doubles and their conversion from and to 64 bit numbers.\<close>

record real_ops =
  r_of_u64 :: "u64 \<Rightarrow> u64"
  r_to_u64 :: "u64 \<Rightarrow> u64"
  r_div :: "u64 \<Rightarrow> u64 \<Rightarrow> u64"
  r_mul :: "u64 \<Rightarrow> u64 \<Rightarrow> u64"
  r_sub :: "u64 \<Rightarrow> u64 \<Rightarrow> u64"
  r_abs :: "u64 \<Rightarrow> u64"
  r_le :: "u64 \<Rightarrow> u64 \<Rightarrow> bool"

record Bucket =
  bk_start :: expr_value
  bk_end :: expr_value
  bk_count :: u64
  bk_ndv :: u64
  bk_cf :: u64

type_synonym Histogram = "Bucket list"

definition AddBucket :: "Bucket \<Rightarrow> Histogram \<Rightarrow> status \<times> Histogram" where
  "AddBucket bucket buckets = (C_OK, buckets @ [bucket])"

text \<open>The total is accumulated in an \<open>int\<close>, since the initial value is one.\<close>

definition total_count :: "(expr_value \<times> u64) list \<Rightarrow> u64" where
  "total_count value_map = scast (foldl (\<lambda>previous (_, n). ucast (scast previous + n :: u64)) (0 :: u32) value_map)"

text \<open>Whether the value after this one still goes into the bucket.\<close>

definition takes_next :: "real_ops \<Rightarrow> u64 \<Rightarrow> u64 \<Rightarrow> (expr_value \<times> u64) list \<Rightarrow> bool" where
  "takes_next R current_threshold cumulative_sum rest =
     (case rest of
        [] \<Rightarrow> False
      | (_, n) # _ \<Rightarrow>
          let predict = cumulative_sum + n in
          r_le R (r_of_u64 R predict) current_threshold \<or>
          r_le R (r_abs R (r_sub R current_threshold (r_of_u64 R predict)))
            (r_abs R (r_sub R current_threshold (r_of_u64 R cumulative_sum))))"

fun histogram_loop ::
    "real_ops \<Rightarrow> u64 \<Rightarrow> u64 \<Rightarrow> u64 \<Rightarrow> u64 \<Rightarrow> u64 \<Rightarrow> expr_value \<Rightarrow> u64 \<Rightarrow> (expr_value \<times> u64) list \<Rightarrow> Histogram \<Rightarrow> Histogram" where
  "histogram_loop R avg tot ndv freq cumulative_sum lowest current_threshold [] buckets = buckets"
| "histogram_loop R avg tot ndv freq cumulative_sum lowest current_threshold ((v, n) # rest) buckets =
     (let ndv1 = ndv + 1; freq1 = freq + n; cumulative1 = cumulative_sum + n in
      if takes_next R current_threshold cumulative1 rest
      then histogram_loop R avg tot ndv1 freq1 cumulative1 lowest current_threshold rest buckets
      else
        let bucket = \<lparr>bk_start = lowest, bk_end = v, bk_count = freq1, bk_ndv = ndv1,
              bk_cf = r_div R (r_of_u64 R cumulative1) (r_of_u64 R tot)\<rparr>;
            buckets1 = snd (AddBucket bucket buckets);
            threshold1 = r_mul R avg (r_of_u64 R (of_nat (length buckets1) + 1))
        in histogram_loop R avg tot 0 0 cumulative1 (case rest of [] \<Rightarrow> lowest | (w, _) # _ \<Rightarrow> w) threshold1 rest buckets1)"

text \<open>The values in their order with their frequencies; the first of none is not defined.\<close>

definition BuildHistogram :: "real_ops \<Rightarrow> (expr_value \<times> u64) list \<Rightarrow> u64 \<Rightarrow> Histogram res" where
  "BuildHistogram R value_map bucket_size =
     (let tot = total_count value_map;
          avg = r_div R (r_of_u64 R tot) (r_of_u64 R bucket_size)
      in case value_map of
           [] \<Rightarrow> Inl Undefined_Behaviour
         | (lowest, _) # _ \<Rightarrow> Inr (histogram_loop R avg tot 0 0 0 lowest avg value_map []))"

text \<open>Values are written without their types and all read as strings. The field of the message for the
  cumulative frequency is a whole number.\<close>

definition Bucket_Serialize :: "real_ops \<Rightarrow> Bucket \<Rightarrow> BucketProto res" where
  "Bucket_Serialize R b =
     bindR (EncodeExprValue (bk_start b) []) (\<lambda>(_, s).
     bindR (EncodeExprValue (bk_end b) []) (\<lambda>(_, e).
       Inr \<lparr>bp_start = s, bp_end = e, bp_count = bk_count b, bp_ndv = bk_ndv b, bp_cf = r_to_u64 R (bk_cf b)\<rparr>))"

definition Bucket_Deserialize :: "real_ops \<Rightarrow> BucketProto \<Rightarrow> Bucket res" where
  "Bucket_Deserialize R p =
     bindR (DecodeExprValue (bp_start p) (NewEmpty String)) (\<lambda>(_, s).
     bindR (DecodeExprValue (bp_end p) (NewEmpty String)) (\<lambda>(_, e).
       Inr \<lparr>bk_start = s, bk_end = e, bk_count = bp_count p, bk_ndv = bp_ndv p, bk_cf = r_of_u64 R (bp_cf p)\<rparr>))"

section \<open>Statistics\<close>

record ColumnStatistic =
  ks_db_id :: u64
  ks_table_id :: u64
  ks_column_id :: u64
  ks_min :: bytes
  ks_max :: bytes
  ks_count :: u64
  ks_size :: u64
  ks_ndv :: u64
  ks_create_ts :: u64
  ks_update_ts :: u64
  ks_histogram :: Histogram

record MetaStatistic =
  ms_db_id :: u64
  ms_table_id :: u64
  ms_is_analyzing :: bool
  ms_create_ts :: u64
  ms_update_ts :: u64
  ms_comment :: bytes

definition ColumnStatistic_Serialize :: "real_ops \<Rightarrow> ColumnStatistic \<Rightarrow> ColumnStatisticsProto res" where
  "ColumnStatistic_Serialize R c =
     bindR (mapR (Bucket_Serialize R) (ks_histogram c)) (\<lambda>h.
       Inr \<lparr>kp_db_id = ks_db_id c, kp_table_id = ks_table_id c, kp_column_id = ks_column_id c, kp_min = ks_min c,
         kp_max = ks_max c, kp_count = ks_count c, kp_size = ks_size c, kp_ndv = ks_ndv c,
         kp_create_ts = ks_create_ts c, kp_update_ts = ks_update_ts c, kp_histogram = h\<rparr>)"

fun add_buckets :: "real_ops \<Rightarrow> BucketProto list \<Rightarrow> Histogram \<Rightarrow> Histogram res" where
  "add_buckets R [] h = Inr h"
| "add_buckets R (p # ps) h = bindR (Bucket_Deserialize R p) (\<lambda>b. add_buckets R ps (snd (AddBucket b h)))"

definition ColumnStatistic_Deserialize :: "real_ops \<Rightarrow> ColumnStatisticsProto \<Rightarrow> ColumnStatistic res" where
  "ColumnStatistic_Deserialize R p =
     bindR (add_buckets R (kp_histogram p) []) (\<lambda>h.
       Inr \<lparr>ks_db_id = kp_db_id p, ks_table_id = kp_table_id p, ks_column_id = kp_column_id p, ks_min = kp_min p,
         ks_max = kp_max p, ks_count = kp_count p, ks_size = kp_size p, ks_ndv = kp_ndv p,
         ks_create_ts = kp_create_ts p, ks_update_ts = kp_update_ts p, ks_histogram = h\<rparr>)"

text \<open>The comment is not written.\<close>

definition MetaStatistic_Serialize :: "MetaStatistic \<Rightarrow> StatisticsMetaProto" where
  "MetaStatistic_Serialize m =
     \<lparr>mp_db_id = ms_db_id m, mp_table_id = ms_table_id m, mp_is_analyzing = ms_is_analyzing m,
      mp_create_ts = ms_create_ts m, mp_update_ts = ms_update_ts m\<rparr>"

definition MetaStatistic_Deserialize :: "StatisticsMetaProto \<Rightarrow> MetaStatistic \<Rightarrow> MetaStatistic" where
  "MetaStatistic_Deserialize p m =
     m\<lparr>ms_db_id := mp_db_id p, ms_table_id := mp_table_id p, ms_is_analyzing := mp_is_analyzing p,
       ms_create_ts := mp_create_ts p, ms_update_ts := mp_update_ts p\<rparr>"

section \<open>Storing and loading\<close>

text \<open>Any other status than success is a failed assertion.\<close>

definition LoadMetaStatistic ::
    "'s kv_api \<Rightarrow> stat_protos \<Rightarrow> u64 \<Rightarrow> u64 \<Rightarrow> MetaStatistic \<Rightarrow> 's \<Rightarrow> (status \<times> MetaStatistic) res" where
  "LoadMetaStatistic kv sp db_id table_id statistic s =
     bindR (GetKV kv (snd (EncodeMetaStatistic db_id table_id [])) [] s) (\<lambda>(st, v).
     bindR (requireR Assert_Abort (st = C_OK)) (\<lambda>_.
       Inr (C_OK, MetaStatistic_Deserialize (parse_meta sp v) statistic)))"

definition DumpMetaStatistic ::
    "'s kv_api \<Rightarrow> stat_protos \<Rightarrow> u64 \<Rightarrow> u64 \<Rightarrow> MetaStatistic \<Rightarrow> 's \<Rightarrow> (status \<times> 's) res" where
  "DumpMetaStatistic kv sp db_id table_id statistic s =
     bindR (PutKV kv (snd (EncodeMetaStatistic db_id table_id [])) (ser_meta sp (MetaStatistic_Serialize statistic)) s) (\<lambda>(st, s1).
     bindR (requireR Assert_Abort (st = C_OK)) (\<lambda>_. Inr (C_OK, s1)))"

definition LoadColumnStatistic ::
    "real_ops \<Rightarrow> 's kv_api \<Rightarrow> stat_protos \<Rightarrow> u64 \<Rightarrow> u64 \<Rightarrow> u64 \<Rightarrow> 's \<Rightarrow> (status \<times> ColumnStatistic) res" where
  "LoadColumnStatistic R kv sp db_id table_id column_id s =
     bindR (GetKV kv (snd (EncodeColumnStatistic db_id table_id column_id [])) [] s) (\<lambda>(st, v).
     bindR (requireR Assert_Abort (st = C_OK)) (\<lambda>_.
     bindR (ColumnStatistic_Deserialize R (parse_column sp v)) (\<lambda>c. Inr (C_OK, c))))"

definition DumpColumnStatistic ::
    "real_ops \<Rightarrow> 's kv_api \<Rightarrow> stat_protos \<Rightarrow> u64 \<Rightarrow> u64 \<Rightarrow> u64 \<Rightarrow> ColumnStatistic \<Rightarrow> 's \<Rightarrow> (status \<times> 's) res" where
  "DumpColumnStatistic R kv sp db_id table_id column_id statistic s =
     bindR (ColumnStatistic_Serialize R statistic) (\<lambda>p.
     bindR (PutKV kv (snd (EncodeColumnStatistic db_id table_id column_id [])) (ser_column sp p) s) (\<lambda>(st, s1).
     bindR (requireR Assert_Abort (st = C_OK)) (\<lambda>_. Inr (C_OK, s1))))"

end
