(* ===== verification/StatisticsTheorems.thy ===== *)
theory StatisticsTheorems
  imports Statistics
begin

text \<open>
  Histograms cut the values they are built from into runs, whatever the arithmetic of doubles does, and
  the statistics of a column of strings come back from the storage.
\<close>

section \<open>Histograms\<close>

text \<open>The bucket of a run of values.\<close>

definition bucket_of_run :: "Bucket \<Rightarrow> (expr_value \<times> u64) list \<Rightarrow> bool" where
  "bucket_of_run b p \<longleftrightarrow> p \<noteq> [] \<and> bk_start b = fst (hd p) \<and> bk_end b = fst (last p) \<and>
     bk_count b = sum_list (map snd p) \<and> bk_ndv b = of_nat (length p)"

lemma histogram_loop_runs:
  assumes "rest = [] \<Longrightarrow> p = []" "p @ rest \<noteq> [] \<Longrightarrow> lowest = fst (hd (p @ rest))"
    "ndv = of_nat (length p)" "freq = sum_list (map snd p)"
  shows "\<exists>h parts. histogram_loop R avg tot ndv freq cum lowest thr rest buckets = buckets @ h \<and>
    concat parts = p @ rest \<and> list_all2 bucket_of_run h parts"
  using assms
proof (induction rest arbitrary: p ndv freq cum lowest thr buckets)
  case Nil
  then show ?case by (intro exI [of _ "[]"]) simp
next
  case (Cons x rest)
  obtain v n where x: "x = (v, n)" by (cases x)
  let ?p = "p @ [x]"
  show ?case
  proof (cases "takes_next R thr (cum + n) rest")
    case True
    then have "rest \<noteq> []" by (auto simp: takes_next_def)
    with Cons.IH [of ?p lowest "ndv + 1" "freq + n" "cum + n" thr buckets] Cons.prems True show ?thesis
      by (simp add: x)
  next
    case False
    let ?b = "\<lparr>bk_start = lowest, bk_end = v, bk_count = freq + n, bk_ndv = ndv + 1,
      bk_cf = r_div R (r_of_u64 R (cum + n)) (r_of_u64 R tot)\<rparr>"
    let ?low = "case rest of [] \<Rightarrow> lowest | (w, _) # _ \<Rightarrow> w"
    let ?thr = "r_mul R avg (r_of_u64 R (of_nat (length (buckets @ [?b])) + 1))"
    have b: "bucket_of_run ?b ?p" using Cons.prems(2-4) by (simp add: bucket_of_run_def x add.commute hd_append)
    have low: "[] @ rest \<noteq> [] \<Longrightarrow> ?low = fst (hd ([] @ rest))" by (auto split: list.splits)
    obtain h parts where "histogram_loop R avg tot 0 0 (cum + n) ?low ?thr rest (buckets @ [?b]) = (buckets @ [?b]) @ h"
      "concat parts = [] @ rest" "list_all2 bucket_of_run h parts"
      using Cons.IH [OF _ low, of 0 0 "cum + n" ?thr "buckets @ [?b]"] by auto
    with b False show ?thesis
      by (intro exI [of _ "?b # h"] exI [of _ "?p # parts"]) (simp add: x AddBucket_def Let_def)
  qed
qed

section \<open>Messages of statistics\<close>

definition utf8_bucket :: "BucketProto \<Rightarrow> bool" where
  "utf8_bucket b \<longleftrightarrow> utf8 (bp_start b) \<and> utf8 (bp_end b)"

definition utf8_column_stat :: "ColumnStatisticsProto \<Rightarrow> bool" where
  "utf8_column_stat p \<longleftrightarrow> utf8 (kp_min p) \<and> utf8 (kp_max p) \<and> list_all utf8_bucket (kp_histogram p)"

text \<open>What the library documents: a message whose strings are UTF-8 text is read back.\<close>

locale stat_messages =
  fixes sp :: stat_protos
  assumes column_doc: "utf8_column_stat p \<Longrightarrow> parse_column sp (ser_column sp p) = p"
    and meta_doc: "parse_meta sp (ser_meta sp m) = m"

text \<open>A value that is written as text and read back: a string.\<close>

definition text_value :: "expr_value \<Rightarrow> bool" where
  "text_value v \<longleftrightarrow> decodable v \<and> ev_type v = String \<and> utf8 (value_bytes v)"

definition text_bucket :: "Bucket \<Rightarrow> bool" where
  "text_bucket b \<longleftrightarrow> text_value (bk_start b) \<and> text_value (bk_end b)"

definition whole_cf :: "real_ops \<Rightarrow> Bucket \<Rightarrow> Bucket" where
  "whole_cf R b = b\<lparr>bk_cf := r_of_u64 R (r_to_u64 R (bk_cf b))\<rparr>"

lemma text_value_codec:
  assumes "text_value v"
  shows "\<exists>n. EncodeExprValue v [] = Inr (n, value_bytes v)" "\<exists>n. DecodeExprValue (value_bytes v) (NewEmpty String) = Inr (n, v)"
  using assms EncodeExprValue_appends [of v "[]"] DecodeExprValue_prefix [of v "[]"]
  by (auto simp: text_value_def decodable_def)

lemma bucket_roundtrip:
  assumes "text_bucket b"
  shows "\<exists>q. Bucket_Serialize R b = Inr q \<and> utf8_bucket q \<and> Bucket_Deserialize R q = Inr (whole_cf R b)"
proof -
  have v: "text_value (bk_start b)" "text_value (bk_end b)" using assms by (simp_all add: text_bucket_def)
  obtain n1 n2 m1 m2 where "EncodeExprValue (bk_start b) [] = Inr (n1, value_bytes (bk_start b))"
    "EncodeExprValue (bk_end b) [] = Inr (n2, value_bytes (bk_end b))"
    "DecodeExprValue (value_bytes (bk_start b)) (NewEmpty String) = Inr (m1, bk_start b)"
    "DecodeExprValue (value_bytes (bk_end b)) (NewEmpty String) = Inr (m2, bk_end b)"
    using text_value_codec [OF v(1)] text_value_codec [OF v(2)] by blast
  with v show ?thesis
    by (simp add: Bucket_Serialize_def Bucket_Deserialize_def utf8_bucket_def text_value_def whole_cf_def)
qed

lemma buckets_roundtrip:
  "list_all text_bucket bs \<Longrightarrow> \<exists>qs. mapR (Bucket_Serialize R) bs = Inr qs \<and> list_all utf8_bucket qs \<and>
    (\<forall>h. add_buckets R qs h = Inr (h @ map (whole_cf R) bs))"
proof (induction bs)
  case (Cons b bs)
  then obtain qs where "mapR (Bucket_Serialize R) bs = Inr qs" "list_all utf8_bucket qs"
    "\<forall>h. add_buckets R qs h = Inr (h @ map (whole_cf R) bs)" by auto
  moreover obtain q where "Bucket_Serialize R b = Inr q" "utf8_bucket q" "Bucket_Deserialize R q = Inr (whole_cf R b)"
    using bucket_roundtrip [of b R] Cons.prems by auto
  ultimately show ?case by (simp add: AddBucket_def)
qed simp

lemma column_statistic_messages:
  assumes "list_all text_bucket (ks_histogram c)" "utf8 (ks_min c)" "utf8 (ks_max c)"
  shows "\<exists>p. ColumnStatistic_Serialize R c = Inr p \<and> utf8_column_stat p \<and>
    ColumnStatistic_Deserialize R p = Inr (c\<lparr>ks_histogram := map (whole_cf R) (ks_histogram c)\<rparr>)"
proof -
  obtain qs where "mapR (Bucket_Serialize R) (ks_histogram c) = Inr qs" "list_all utf8_bucket qs"
    "add_buckets R qs [] = Inr (map (whole_cf R) (ks_histogram c))"
    using buckets_roundtrip [OF assms(1)] by fastforce
  with assms(2,3) show ?thesis
    by (simp add: ColumnStatistic_Serialize_def ColumnStatistic_Deserialize_def utf8_column_stat_def)
qed

text \<open>The bounds of a bucket of integers are read back as strings without characters.\<close>

lemma integer_bounds_lost:
  "\<exists>q. Bucket_Serialize R \<lparr>bk_start = NewInt64 3, bk_end = NewInt64 5, bk_count = 2, bk_ndv = 2, bk_cf = 0\<rparr> = Inr q \<and>
    Bucket_Deserialize R q = Inr \<lparr>bk_start = NewString [], bk_end = NewString [], bk_count = 2, bk_ndv = 2,
      bk_cf = r_of_u64 R (r_to_u64 R 0)\<rparr>"
proof -
  have e: "EncodeExprValue (NewInt64 3) [] = Inr (8, be64 3)" "EncodeExprValue (NewInt64 5) [] = Inr (8, be64 5)" by code_simp+
  have d: "DecodeExprValue (be64 3) (NewEmpty String) = Inr (4, NewString [])" "DecodeExprValue (be64 5) (NewEmpty String) = Inr (4, NewString [])"
    by code_simp+
  show ?thesis by (simp add: Bucket_Serialize_def Bucket_Deserialize_def e d)
qed

section \<open>An instance\<close>

definition sd_bucket :: "BucketProto \<Rightarrow> bytes" where
  "sd_bucket b = sd_bytes (bp_start b) @ sd_bytes (bp_end b) @ be64 (bp_count b) @ be64 (bp_ndv b) @ be64 (bp_cf b)"

definition rd_bucket :: "BucketProto reader" where
  "rd_bucket = rd_bind rd_bytes (\<lambda>s. rd_bind rd_bytes (\<lambda>e. rd_bind rd_u64 (\<lambda>c. rd_bind rd_u64 (\<lambda>n. rd_bind rd_u64 (\<lambda>f.
     rd_ret \<lparr>bp_start = s, bp_end = e, bp_count = c, bp_ndv = n, bp_cf = f\<rparr>)))))"

lemma rd_bucket_sd [rd_simps]: "rd_bucket (sd_bucket b @ rest) = Some (b, rest)"
  by (simp add: rd_bucket_def sd_bucket_def rd_simps)

definition sd_column_stat :: "ColumnStatisticsProto \<Rightarrow> bytes" where
  "sd_column_stat p = be64 (kp_db_id p) @ be64 (kp_table_id p) @ be64 (kp_column_id p) @ sd_bytes (kp_min p) @
     sd_bytes (kp_max p) @ be64 (kp_count p) @ be64 (kp_size p) @ be64 (kp_ndv p) @ be64 (kp_create_ts p) @
     be64 (kp_update_ts p) @ sd_list sd_bucket (kp_histogram p) @ []"

definition rd_column_stat :: "ColumnStatisticsProto reader" where
  "rd_column_stat = rd_bind rd_u64 (\<lambda>d. rd_bind rd_u64 (\<lambda>t. rd_bind rd_u64 (\<lambda>c. rd_bind rd_bytes (\<lambda>mn. rd_bind rd_bytes (\<lambda>mx.
     rd_bind rd_u64 (\<lambda>ct. rd_bind rd_u64 (\<lambda>sz. rd_bind rd_u64 (\<lambda>n. rd_bind rd_u64 (\<lambda>cr. rd_bind rd_u64 (\<lambda>up.
     rd_bind (rd_list rd_bucket) (\<lambda>h. rd_ret
       \<lparr>kp_db_id = d, kp_table_id = t, kp_column_id = c, kp_min = mn, kp_max = mx, kp_count = ct, kp_size = sz, kp_ndv = n,
        kp_create_ts = cr, kp_update_ts = up, kp_histogram = h\<rparr>)))))))))))"

definition sd_meta :: "StatisticsMetaProto \<Rightarrow> bytes" where
  "sd_meta m = be64 (mp_db_id m) @ be64 (mp_table_id m) @ be64 (if mp_is_analyzing m then 1 else 0) @ be64 (mp_create_ts m) @
     be64 (mp_update_ts m) @ []"

definition rd_meta :: "StatisticsMetaProto reader" where
  "rd_meta = rd_bind rd_u64 (\<lambda>d. rd_bind rd_u64 (\<lambda>t. rd_bind rd_u64 (\<lambda>a. rd_bind rd_u64 (\<lambda>c. rd_bind rd_u64 (\<lambda>u.
     rd_ret \<lparr>mp_db_id = d, mp_table_id = t, mp_is_analyzing = (a = 1), mp_create_ts = c, mp_update_ts = u\<rparr>)))))"

definition sd_stats :: stat_protos where
  "sd_stats = \<lparr>ser_column = sd_column_stat, parse_column = (\<lambda>s. the (run_reader rd_column_stat s)),
     ser_meta = sd_meta, parse_meta = (\<lambda>s. the (run_reader rd_meta s))\<rparr>"

interpretation sd_stat: stat_messages sd_stats
proof
  show "parse_column sd_stats (ser_column sd_stats p) = p" for p
    by (simp add: sd_stats_def run_reader_def rd_column_stat_def sd_column_stat_def rd_simps del: append_Nil2)
  show "parse_meta sd_stats (ser_meta sd_stats m) = m" for m
    by (simp add: sd_stats_def run_reader_def rd_meta_def sd_meta_def rd_simps del: append_Nil2)
qed

section \<open>Properties\<close>

text \<open>C39: The buckets of a histogram cut the values it is built from into runs: in the order of the values, without
  gaps or overlaps and none of them empty, with the first and the last value of its run as the bounds
  of each bucket, the frequencies of its values added up and their number. Whatever the arithmetic of
  doubles gives, it decides only where the cuts are.\<close>

theorem histogram_partitions_values:
  assumes "value_map \<noteq> []"
  shows "\<exists>h parts. BuildHistogram R value_map bucket_size = Inr h \<and> concat parts = value_map \<and> list_all2 bucket_of_run h parts"
proof -
  obtain v n rest where m: "value_map = (v, n) # rest" using assms by (cases value_map) auto
  let ?tot = "total_count value_map"
  let ?avg = "r_div R (r_of_u64 R ?tot) (r_of_u64 R bucket_size)"
  have "\<exists>h parts. histogram_loop R ?avg ?tot 0 0 0 v ?avg value_map [] = [] @ h \<and>
    concat parts = [] @ value_map \<and> list_all2 bucket_of_run h parts"
    by (rule histogram_loop_runs) (simp_all add: m)
  moreover have "BuildHistogram R value_map bucket_size = Inr (histogram_loop R ?avg ?tot 0 0 0 v ?avg value_map [])"
    by (simp only: BuildHistogram_def Let_def) (simp add: m del: histogram_loop.simps)
  ultimately show ?thesis by simp
qed

text \<open>Numbers in place of doubles, with divisions rounded down.\<close>

definition whole_ops :: real_ops where
  "whole_ops = \<lparr>r_of_u64 = id, r_to_u64 = id, r_div = (\<lambda>a b. a div b), r_mul = (\<lambda>a b. a * b), r_sub = (\<lambda>a b. if a \<le> b then b - a else a - b),
     r_abs = id, r_le = (\<lambda>a b. a \<le> b)\<rparr>"

theorem histogram_partitions_values_witness:
  "\<exists>h parts. BuildHistogram whole_ops [(NewInt64 1, 2), (NewInt64 2, 11), (NewInt64 3, 2)] 2 = Inr h \<and>
    concat parts = [(NewInt64 1, 2), (NewInt64 2, 11), (NewInt64 3, 2)] \<and> list_all2 bucket_of_run h parts"
  by (rule histogram_partitions_values) simp

text \<open>C40: The statistics of a column of strings that are dumped can be loaded again, unchanged but for the
  cumulative frequencies, which are whole numbers in the message.\<close>

theorem column_statistic_roundtrip:
  assumes "leveldb_spec L view" "stat_messages sp" "list_all text_bucket (ks_histogram c)" "utf8 (ks_min c)" "utf8 (ks_max c)"
  shows "\<exists>s'. DumpColumnStatistic R (LevelDbClient L) sp d t i c s = Inr (C_OK, s') \<and>
    LoadColumnStatistic R (LevelDbClient L) sp d t i s' = Inr (C_OK, c\<lparr>ks_histogram := map (whole_cf R) (ks_histogram c)\<rparr>)"
proof -
  have kv: "kv_store (LevelDbClient L) view" by (rule leveldb_spec.client_store [OF assms(1)])
  obtain p where p: "ColumnStatistic_Serialize R c = Inr p" "utf8_column_stat p"
    "ColumnStatistic_Deserialize R p = Inr (c\<lparr>ks_histogram := map (whole_cf R) (ks_histogram c)\<rparr>)"
    using column_statistic_messages [OF assms(3-5)] by blast
  let ?k = "snd (EncodeColumnStatistic d t i [])"
  obtain s' where s: "PutKV (LevelDbClient L) ?k (ser_column sp p) s = Inr (C_OK, s')"
    using kv_store.PutKV_law [OF kv] by blast
  have "GetKV (LevelDbClient L) ?k [] s' = Inr (C_OK, ser_column sp p)" by (rule kv_store.get_after_put [OF kv s])
  with p s show ?thesis
    by (simp add: DumpColumnStatistic_def LoadColumnStatistic_def requireR_def stat_messages.column_doc [OF assms(2)])
qed

definition demo_stat :: ColumnStatistic where
  "demo_stat = \<lparr>ks_db_id = 3, ks_table_id = 7, ks_column_id = 1, ks_min = [97], ks_max = [122], ks_count = 5, ks_size = 9, ks_ndv = 3,
     ks_create_ts = 0, ks_update_ts = 0,
     ks_histogram = [\<lparr>bk_start = NewString [97], bk_end = NewString [99], bk_count = 5, bk_ndv = 3, bk_cf = 1\<rparr>]\<rparr>"

theorem column_statistic_roundtrip_witness:
  "\<exists>s'. DumpColumnStatistic whole_ops (LevelDbClient mem_leveldb) sd_stats 3 7 1 demo_stat Map.empty = Inr (C_OK, s') \<and>
    LoadColumnStatistic whole_ops (LevelDbClient mem_leveldb) sd_stats 3 7 1 s' = Inr (C_OK, demo_stat)"
proof -
  have t: "text_value (NewString [97])" "text_value (NewString [99])"
    by (simp_all add: text_value_def decodable_def wf_value_def New_defs [symmetric]) (simp_all add: New_defs, code_simp+)
  have "list_all text_bucket (ks_histogram demo_stat)" "utf8 (ks_min demo_stat)" "utf8 (ks_max demo_stat)"
    using t by (simp_all add: demo_stat_def text_bucket_def)
  from column_statistic_roundtrip [OF mem_leveldb_spec sd_stat.stat_messages_axioms this, of whole_ops 3 7 1 Map.empty]
  show ?thesis by (simp add: demo_stat_def whole_cf_def whole_ops_def)
qed

end
