(* ===== verification/Column.thy ===== *)
theory Column
  imports RowLayout
begin

text \<open>
  Columns of a fixed number of cells in one block of memory (\<open>chunk/column.cc\<close>). Places are computed
  in 32 bits; the bitmap of nulls has 1024 entries, whatever the capacity.
\<close>

record Column =
  cl_desc :: ColumnDescriptor
  cl_capacity :: u32
  cl_null :: "bool list"
  cl_data :: tuple

definition Column :: "ColumnDescriptor \<Rightarrow> u32 \<Rightarrow> Column" where
  "Column d capacity =
     \<lparr>cl_desc = d, cl_capacity = capacity, cl_null = replicate 1024 False,
      cl_data = replicate (unat (capacity * ucast (TypeSize (desc_type d)))) Unset\<rparr>"

definition cell :: "Column \<Rightarrow> u32 \<Rightarrow> nat" where
  "cell c row_idx = unat (row_idx * ucast (TypeSize (desc_type (cl_desc c))))"

definition mark_null :: "u32 \<Rightarrow> bool \<Rightarrow> Column \<Rightarrow> Column res" where
  "mark_null row_idx b c =
     (if unat row_idx < length (cl_null c) then Inr (c\<lparr>cl_null := (cl_null c)[unat row_idx := b]\<rparr>) else Inl Undefined_Behaviour)"

definition SetNull :: "u32 \<Rightarrow> Column \<Rightarrow> Column res" where
  "SetNull row_idx c = mark_null row_idx True c"

definition set_cell :: "u32 \<Rightarrow> bytes \<Rightarrow> Column \<Rightarrow> Column res" where
  "set_cell row_idx bs c =
     bindR (mark_null row_idx False c) (\<lambda>c1.
     bindR (poke_bytes (cell c row_idx) bs (cl_data c1)) (\<lambda>d. Inr (c1\<lparr>cl_data := d\<rparr>)))"

definition SetBool :: "u32 \<Rightarrow> bool \<Rightarrow> Column \<Rightarrow> Column res" where
  "SetBool row_idx v c = set_cell row_idx [if v then 1 else 0] c"
definition SetInt8 :: "u32 \<Rightarrow> u8 \<Rightarrow> Column \<Rightarrow> Column res" where "SetInt8 row_idx v c = set_cell row_idx [v] c"
definition SetUInt8 :: "u32 \<Rightarrow> u8 \<Rightarrow> Column \<Rightarrow> Column res" where "SetUInt8 row_idx v c = set_cell row_idx [v] c"
definition SetInt32 :: "u32 \<Rightarrow> u32 \<Rightarrow> Column \<Rightarrow> Column res" where "SetInt32 row_idx v c = set_cell row_idx (be32 v) c"
definition SetUInt32 :: "u32 \<Rightarrow> u32 \<Rightarrow> Column \<Rightarrow> Column res" where "SetUInt32 row_idx v c = set_cell row_idx (be32 v) c"
definition SetInt64 :: "u32 \<Rightarrow> u64 \<Rightarrow> Column \<Rightarrow> Column res" where "SetInt64 row_idx v c = set_cell row_idx (be64 v) c"
definition SetUInt64 :: "u32 \<Rightarrow> u64 \<Rightarrow> Column \<Rightarrow> Column res" where "SetUInt64 row_idx v c = set_cell row_idx (be64 v) c"
definition SetDouble :: "u32 \<Rightarrow> u64 \<Rightarrow> Column \<Rightarrow> Column res" where "SetDouble row_idx v c = set_cell row_idx (be64 v) c"

text \<open>The length of a string goes to the front of the cell, its first character as many bytes behind the
  front as the string is long, and the rest of it nowhere. An empty string has no first character.\<close>

definition SetString :: "u32 \<Rightarrow> bytes \<Rightarrow> Column \<Rightarrow> Column res" where
  "SetString row_idx v c =
     bindR (mark_null row_idx False c) (\<lambda>c1.
       if v = [] then Inl Undefined_Behaviour
       else
         let len = (of_nat (length v) :: u32) in
         bindR (poke_bytes (cell c row_idx) (be32 len) (cl_data c1)) (\<lambda>d.
         bindR (poke_bytes (cell c row_idx + unat len) [hd v] d) (\<lambda>d1. Inr (c1\<lparr>cl_data := d1\<rparr>))))"

definition GetInt8 :: "u32 \<Rightarrow> Column \<Rightarrow> u8 res" where
  "GetInt8 row_idx c = bindR (peek_bytes (cell c row_idx) 1 (cl_data c)) (\<lambda>bs. Inr (hd bs))"
definition GetUInt8 :: "u32 \<Rightarrow> Column \<Rightarrow> u8 res" where
  "GetUInt8 row_idx c = bindR (peek_bytes (cell c row_idx) 1 (cl_data c)) (\<lambda>bs. Inr (hd bs))"
definition GetBool :: "u32 \<Rightarrow> Column \<Rightarrow> bool res" where
  "GetBool row_idx c = bindR (peek_bytes (cell c row_idx) 1 (cl_data c)) (\<lambda>bs. Inr (hd bs \<noteq> 0))"
definition GetUInt64 :: "u32 \<Rightarrow> Column \<Rightarrow> u64 res" where
  "GetUInt64 row_idx c = bindR (peek_bytes (cell c row_idx) 8 (cl_data c)) (\<lambda>bs. Inr (of_be64 bs))"
definition GetDouble :: "u32 \<Rightarrow> Column \<Rightarrow> u64 res" where
  "GetDouble row_idx c = bindR (peek_bytes (cell c row_idx) 8 (cl_data c)) (\<lambda>bs. Inr (of_be64 bs))"

definition GetString :: "u32 \<Rightarrow> Column \<Rightarrow> bytes res" where
  "GetString row_idx c =
     bindR (peek_bytes (cell c row_idx) 4 (cl_data c)) (\<lambda>bs.
     bindR (peek (cell c row_idx + 4) (unat (of_be32 bs)) (cl_data c)) (mapR byte_of))"

text \<open>Values of other types are logged.\<close>

definition SetExprValue :: "u32 \<Rightarrow> expr_value \<Rightarrow> Column \<Rightarrow> Column res" where
  "SetExprValue row_idx v c =
     (case ev_type v of
        Int8 \<Rightarrow> bindR (Int8Value v) (\<lambda>x. SetInt8 row_idx x c)
      | UInt8 \<Rightarrow> bindR (UInt8Value v) (\<lambda>x. SetUInt8 row_idx x c)
      | Int32 \<Rightarrow> bindR (Int32Value v) (\<lambda>x. SetInt32 row_idx x c)
      | UInt32 \<Rightarrow> bindR (UInt32Value v) (\<lambda>x. SetUInt32 row_idx x c)
      | Int64 \<Rightarrow> bindR (Int64Value v) (\<lambda>x. SetInt64 row_idx x c)
      | UInt64 \<Rightarrow> bindR (UInt64Value v) (\<lambda>x. SetUInt64 row_idx x c)
      | Double \<Rightarrow> bindR (DoubleValue v) (\<lambda>x. SetDouble row_idx x c)
      | String \<Rightarrow> bindR (StringValue v) (\<lambda>s. SetString row_idx s c)
      | _ \<Rightarrow> Inr c)"

section \<open>Cells\<close>

text \<open>A column whose cells do not overlap.\<close>

definition column_ok :: "Column \<Rightarrow> bool" where
  "column_ok c \<longleftrightarrow> length (cl_null c) = 1024 \<and>
     unat (cl_capacity c) * unat (TypeSize (desc_type (cl_desc c))) < 2 ^ 32 \<and>
     length (cl_data c) = unat (cl_capacity c) * unat (TypeSize (desc_type (cl_desc c)))"

lemma cell_product:
  assumes "column_ok c" "unat i < unat (cl_capacity c)"
  shows "cell c i = unat i * unat (TypeSize (desc_type (cl_desc c)))"
proof -
  let ?z = "TypeSize (desc_type (cl_desc c))"
  have "unat i * unat ?z \<le> unat (cl_capacity c) * unat ?z" using assms(2) by (intro mult_le_mono1) simp
  also have "\<dots> < 2 ^ 32" using assms(1) by (simp add: column_ok_def)
  finally have "unat i * unat ?z < 2 ^ 32" .
  moreover have "unat (ucast ?z :: u32) = unat ?z"
    using unsigned_less [of ?z, where ?'a = nat] by (simp add: unsigned_ucast_eq take_bit_nat_eq_self)
  ultimately show ?thesis by (simp add: cell_def unat_mult_lem [THEN iffD1])
qed

lemma cells_apart:
  assumes "(i :: nat) \<noteq> j" "n \<le> z" "m \<le> z"
  shows "j * z + n \<le> i * z \<or> i * z + m \<le> j * z"
proof (cases "i < j")
  case True
  then have "Suc i * z \<le> j * z" by (intro mult_le_mono1) simp
  then show ?thesis using assms(3) by simp
next
  case False
  then have "Suc j * z \<le> i * z" using assms(1) by (intro mult_le_mono1) simp
  then show ?thesis using assms(2) by simp
qed

text \<open>A cell that is set is the only one that changes.\<close>

lemma set_cell_result:
  assumes ok: "column_ok c" and i: "unat i < unat (cl_capacity c)" "unat i < 1024"
    and bs: "length bs \<le> unat (TypeSize (desc_type (cl_desc c)))"
  obtains c1 where "set_cell i bs c = Inr c1" "column_ok c1" "cl_desc c1 = cl_desc c" "cl_capacity c1 = cl_capacity c"
    "peek_bytes (cell c1 i) (length bs) (cl_data c1) = Inr bs"
    "\<And>j n. unat j < unat (cl_capacity c) \<Longrightarrow> j \<noteq> i \<Longrightarrow> n \<le> unat (TypeSize (desc_type (cl_desc c))) \<Longrightarrow>
      peek (cell c1 j) n (cl_data c1) = peek (cell c j) n (cl_data c)"
proof -
  let ?z = "unat (TypeSize (desc_type (cl_desc c)))"
  have "Suc (unat i) * ?z \<le> unat (cl_capacity c) * ?z" using i(1) by (intro mult_le_mono1) simp
  then have room: "cell c i + length (map Byte (rev bs)) \<le> length (cl_data c)"
    using ok bs by (simp add: cell_product [OF ok i(1)] column_ok_def)
  obtain d where d: "poke (cell c i) (map Byte (rev bs)) (cl_data c) = Inr d" "length d = length (cl_data c)"
    "peek (cell c i) (length bs) d = Inr (map Byte (rev bs))"
    "\<And>o' n. o' + n \<le> cell c i \<or> cell c i + length bs \<le> o' \<Longrightarrow> peek o' n d = peek o' n (cl_data c)"
    using poke_ok [OF room] by (metis length_map length_rev)
  let ?c = "c\<lparr>cl_null := (cl_null c)[unat i := False], cl_data := d\<rparr>"
  have cell: "cell ?c j = cell c j" for j by (simp add: cell_def)
  have r: "set_cell i bs c = Inr ?c"
    using d(1) i(2) ok by (simp add: set_cell_def mark_null_def poke_bytes_def column_ok_def)
  have "column_ok ?c" using ok d(2) by (simp add: column_ok_def)
  moreover have "peek_bytes (cell ?c i) (length bs) (cl_data ?c) = Inr bs"
    using d(3) by (simp add: cell peek_bytes_Byte)
  moreover have "peek (cell ?c j) n (cl_data ?c) = peek (cell c j) n (cl_data c)"
    if "unat j < unat (cl_capacity c)" "j \<noteq> i" "n \<le> ?z" for j n
  proof -
    have "unat i \<noteq> unat j" using that(2) by (metis word_unat_eq_iff)
    then show ?thesis
      using cells_apart [of "unat i" "unat j" n ?z "length bs"] that(3) bs
      by (simp add: cell d(4) cell_product [OF ok i(1)] cell_product [OF ok that(1)])
  qed
  ultimately show thesis using that [OF r] by simp
qed

text \<open>Numbers of 64 bits: a cell that is set has its value and all others keep theirs.\<close>

lemma uint64_cells_independent:
  assumes "column_ok c" "desc_type (cl_desc c) = UInt64" "unat i < unat (cl_capacity c)" "unat i < 1024"
  shows "\<exists>c1. SetUInt64 i v c = Inr c1 \<and> column_ok c1 \<and> GetUInt64 i c1 = Inr v \<and>
    (\<forall>j. unat j < unat (cl_capacity c) \<and> j \<noteq> i \<longrightarrow> GetUInt64 j c1 = GetUInt64 j c)"
proof -
  have z: "length (be64 v) \<le> unat (TypeSize (desc_type (cl_desc c)))" using assms(2) by simp
  obtain c1 where c1: "set_cell i (be64 v) c = Inr c1" "column_ok c1" "cl_desc c1 = cl_desc c"
    "peek_bytes (cell c1 i) (length (be64 v)) (cl_data c1) = Inr (be64 v)"
    "\<And>j n. unat j < unat (cl_capacity c) \<Longrightarrow> j \<noteq> i \<Longrightarrow> n \<le> unat (TypeSize (desc_type (cl_desc c))) \<Longrightarrow>
      peek (cell c1 j) n (cl_data c1) = peek (cell c j) n (cl_data c)"
    by (rule set_cell_result [OF assms(1,3,4) z]) blast
  then show ?thesis
    using assms(2) by (simp add: SetUInt64_def GetUInt64_def peek_bytes_def)
qed

text \<open>A string of two characters is not read back: its first character is written into its length.\<close>

lemma short_string_cell_garbled:
  "\<exists>c. SetString 0 [97, 98] (Column (ColumnDescriptor String 0) 2) = Inr c \<and> GetString 0 c = Inl Undefined_Behaviour"
proof -
  let ?d = "[Byte 2, Byte 0, Byte 97, Byte 0] @ replicate 20 Unset"
  let ?c = "(Column (ColumnDescriptor String 0) 2)\<lparr>cl_null := (replicate 1024 False)[0 := False], cl_data := ?d\<rparr>"
  have d: "poke_bytes 0 (be32 2) (replicate 24 Unset) = Inr ([Byte 2, Byte 0, Byte 0, Byte 0] @ replicate 20 Unset)"
    "poke_bytes 2 [97] ([Byte 2, Byte 0, Byte 0, Byte 0] @ replicate 20 Unset) = Inr ?d"
    "peek_bytes 0 4 ?d = Inr [0, 97, 0, 2]"
    by code_simp+
  have len: "of_be32 [0, 97, 0, 2] = 6356994" by code_simp
  have "SetString 0 [97, 98] (Column (ColumnDescriptor String 0) 2) = Inr ?c"
    using d(1,2) by (simp add: SetString_def mark_null_def Column_def ColumnDescriptor_def cell_def Let_def)
  moreover have "GetString 0 ?c = Inl Undefined_Behaviour"
    using d(3) by (simp add: len peek_def GetString_def Column_def ColumnDescriptor_def cell_def)
  ultimately show ?thesis by blast
qed

end
