(* ===== verification/ArenaVector.thy ===== *)
theory ArenaVector
  imports Prelude
begin

text \<open>
  The arena that owns the objects of a statement, as far as it counts (\<open>common/arena.h\<close>), and the vector
  of the syntax trees, whose memory comes from an arena and is never given back (\<open>parser/utils.h\<close>).
  The allocator of the protobuf library below the arena is not modelled: it does not fail.
\<close>

section \<open>Arena\<close>

record MemTracker =
  cur_usage :: u64

definition CurrentUsage :: "MemTracker \<Rightarrow> u64" where "CurrentUsage t = cur_usage t"

definition AddUsage :: "u64 \<Rightarrow> MemTracker \<Rightarrow> u64 \<times> MemTracker" where
  "AddUsage use t = (cur_usage t + use, t\<lparr>cur_usage := cur_usage t + use\<rparr>)"

definition SubUsage :: "u64 \<Rightarrow> MemTracker \<Rightarrow> u64 \<times> MemTracker" where
  "SubUsage use t = (cur_usage t - use, t\<lparr>cur_usage := cur_usage t - use\<rparr>)"

record Arena =
  tracker :: "MemTracker option"

text \<open>An object of a type of \<open>size_T\<close> bytes, and an array of such objects.\<close>

definition CreateObject :: "u64 \<Rightarrow> Arena \<Rightarrow> Arena" where
  "CreateObject size_T a = a\<lparr>tracker := map_option (\<lambda>t. snd (AddUsage size_T t)) (tracker a)\<rparr>"

definition CreateArray :: "u64 \<Rightarrow> u64 \<Rightarrow> Arena \<Rightarrow> Arena" where
  "CreateArray size_T num_elements a = a\<lparr>tracker := map_option (\<lambda>t. snd (AddUsage (size_T * num_elements) t)) (tracker a)\<rparr>"

definition AllocateBytes :: "u64 \<Rightarrow> Arena \<Rightarrow> Arena" where "AllocateBytes num_bytes a = CreateArray 1 num_bytes a"

definition SpaceUsed :: "Arena \<Rightarrow> u64" where
  "SpaceUsed a = (case tracker a of None \<Rightarrow> - 1 | Some t \<Rightarrow> CurrentUsage t)"

section \<open>Vectors\<close>

record 'a Vector =
  vec_items :: "'a list"
  vec_capacity :: nat

definition Vector :: "'a Vector" where "Vector = \<lparr>vec_items = [], vec_capacity = 0\<rparr>"

definition vec_size :: "'a Vector \<Rightarrow> nat" where "vec_size v = length (vec_items v)"
definition remain :: "'a Vector \<Rightarrow> nat" where "remain v = vec_capacity v - length (vec_items v)"

definition reserve :: "nat \<Rightarrow> u64 \<Rightarrow> 'a Vector \<Rightarrow> Arena \<Rightarrow> 'a Vector \<times> Arena" where
  "reserve n size_T v a =
     (if n \<le> vec_capacity v then (v, a)
      else (v\<lparr>vec_capacity := n\<rparr>, AllocateBytes (of_nat n * size_T) a))"

text \<open>The new capacity is computed in 32 bits with a sign.\<close>

definition push_back :: "u64 \<Rightarrow> 'a \<Rightarrow> 'a Vector \<Rightarrow> Arena \<Rightarrow> ('a Vector \<times> Arena) res" where
  "push_back size_T x v a =
     (if 0 < remain v then Inr (v\<lparr>vec_items := vec_items v @ [x]\<rparr>, a)
      else let new_capacity = 2 * (vec_capacity v + 1) in
        if 2 ^ 31 \<le> new_capacity then Inl Undefined_Behaviour
        else let (v1, a1) = reserve new_capacity size_T v a in Inr (v1\<lparr>vec_items := vec_items v1 @ [x]\<rparr>, a1))"

definition vec_at :: "'a Vector \<Rightarrow> nat \<Rightarrow> 'a res" where
  "vec_at v i = (if i < length (vec_items v) then Inr (vec_items v ! i) else Inl Undefined_Behaviour)"

section \<open>Growth\<close>

fun push_all :: "u64 \<Rightarrow> 'a list \<Rightarrow> 'a Vector \<Rightarrow> Arena \<Rightarrow> ('a Vector \<times> Arena) res" where
  "push_all size_T [] v a = Inr (v, a)"
| "push_all size_T (x # xs) v a = bindR (push_back size_T x v a) (\<lambda>(v1, a1). push_all size_T xs v1 a1)"

text \<open>A vector that elements are pushed on one after another holds them in order, and its capacity stays
  below twice their number and two.\<close>

definition vec_ok :: "'a Vector \<Rightarrow> bool" where
  "vec_ok v \<longleftrightarrow> length (vec_items v) \<le> vec_capacity v \<and> vec_capacity v \<le> 2 * length (vec_items v) + 2"

lemma push_back_ok:
  assumes "vec_ok v" "length (vec_items v) + 1 < 2 ^ 30"
  shows "\<exists>v1 a1. push_back size_T x v a = Inr (v1, a1) \<and> vec_ok v1 \<and> vec_items v1 = vec_items v @ [x]"
proof (cases "0 < remain v")
  case True
  then show ?thesis using assms(1) by (auto simp: push_back_def vec_ok_def remain_def)
next
  case False
  then have "vec_capacity v = length (vec_items v)" using assms(1) by (simp add: remain_def vec_ok_def)
  then show ?thesis using False assms(2) by (simp add: push_back_def reserve_def vec_ok_def Let_def)
qed

lemma push_all_items:
  assumes "vec_ok v" "length (vec_items v) + length xs < 2 ^ 30"
  shows "\<exists>v1 a1. push_all size_T xs v a = Inr (v1, a1) \<and> vec_ok v1 \<and> vec_items v1 = vec_items v @ xs"
  using assms
proof (induction xs arbitrary: v a)
  case (Cons x xs)
  obtain v1 a1 where v1: "push_back size_T x v a = Inr (v1, a1)" "vec_ok v1" "vec_items v1 = vec_items v @ [x]"
    using push_back_ok [OF Cons.prems(1), of size_T x a] Cons.prems(2) by auto
  with Cons.IH [of v1 a1] Cons.prems(2) show ?case by simp
qed simp

end
