(* ===== verification/Spec2Isabelle.thy ===== *)
theory Spec2Isabelle
  imports ScanTheorems CatalogueTheorems SqlTextTheorems PrintingTypes MainTheorems StatisticsTheorems Column ArenaVector
begin

text \<open>
  A model of am-db (\<open>src/amdb\<close>), a SQL database over a key-value storage, and what was proved about it.

  The program. \<open>main\<close> opens LevelDB, makes an id allocator and runs statements one after another. The
  function \<open>run\<close> takes the text of a statement through four stages: the parser makes a syntax tree, the
  analyzer of its type reads the catalogue and makes a logical plan, the optimizer makes a physical
  plan of it, and the scheduler runs a graph of executors, one for each node of the plan. The executors
  work on tables. A table has its rows as records in the storage, and an index that is a B+-tree whose nodes
  are records too: they are loaded on demand and written back when a statement is submitted. Keys and
  values are strings of bytes made by the codecs. The parts share the storage and nothing else, so that
  the state of a session is the contents of the storage.

  How the code is read. A class is a record of its fields, an enumeration or a class hierarchy a
  datatype, a method a function from the object to its result and the object afterwards. Numbers are words
  of their width and wrap around. A function whose run can end the program or leave the language
  returns \<open>res\<close>, whose left values are faults: a failed assertion (\<open>Assert_Abort\<close>), an exception, or
  undefined behaviour, such as a null pointer that is dereferenced or an index out of range. The status codes of
  the program are ordinary results. Objects that share memory are kept in a heap and referred to by
  number: tree nodes (\<open>BptNode\<close>), chunks, ports and executors (\<open>Executors\<close>), groups of the optimizer (\<open>Cascades\<close>).

  What is not under \<open>src\<close> is an argument: LevelDB (\<open>leveldb\<close>, with its documented behaviour as the locale
  \<open>leveldb_spec\<close>), the serialization of messages by the protobuf library (\<open>proto_ops\<close> with the locale \<open>protobuf\<close>,
  \<open>stat_protos\<close> with \<open>stat_messages\<close>), hash functions and the order in which hash sets and hash maps are
  visited, the arithmetic of floating point numbers, the clock, and the generated scanner and parser
  (\<open>mc_parse\<close>). Each locale has an instance by executable definitions, over which the witnesses run.

  Theories, from the bottom up.

  \<^item> \<open>Prelude\<close>: results with faults and their sequencing, the ordered map, binary searches, decimal text.
  \<^item> \<open>Common\<close> (\<open>sql/common\<close>): status codes and comparisons. \<open>ExprValue\<close> (\<open>sql/expression\<close>): tagged values.
    \<open>Codec\<close> (\<open>codec/codec.cc\<close>): their bytes; each decoder inverts its encoder, and encodings are ordered like numbers.
  \<^item> \<open>SchemaCodec\<close> (\<open>codec/schema_codec.cc\<close>): the keys of the storage; keys of different kinds or contents differ.
  \<^item> \<open>KvStorage\<close> (\<open>storage/leveldb_client.cc\<close>): the storage interface and its client. The laws the program relies
    on are the locale \<open>kv_store\<close>, derived for the client from \<open>leveldb_spec\<close>.
  \<^item> \<open>Protobuf\<close> (\<open>proto\<close>): the messages of nodes and of the catalogue.
  \<^item> \<open>BptNode\<close>, \<open>Bptree\<close> (\<open>storage/bplus_tree_node.cc\<close>, \<open>bplus_tree.cc\<close>): nodes, the context of a tree, and the operations.
    \<open>BptLoad\<close> to \<open>BptSave\<close> prove each operation against the invariant \<open>tree_inv\<close> of \<open>BptInv\<close>: routing, loading, insertion with
    and without a split, deletion, lookup, saving and opening. \<open>BptSession\<close> is the step relation of a tree that
    is used, saved, closed and opened; \<open>BptTheorems\<close> has the properties, foremost that the tree simulates a map.
  \<^item> \<open>BptIterator\<close> (\<open>storage/bplus_tree_iterator.cc\<close>, \<open>storage/iterator.cc\<close>): range scans. \<open>BptScan\<close>, \<open>ScanFrame\<close>, \<open>ScanCounter\<close> and
    \<open>ScanTheorems\<close>: a scan returns the entries in its ranges, reads only, and does not use the node counter. \<open>IndexGrowth\<close>: nor does the
    insertion of an entry without a value into an index that has a leaf, since such leaves are never split.
  \<^item> \<open>IdAllocator\<close> (\<open>storage/id_allocator.cc\<close>): ids from buckets of counters; ids are never given twice.
  \<^item> \<open>Schema\<close>, \<open>Metadata\<close>, \<open>CreateStatements\<close>, \<open>CatalogueTheorems\<close> (\<open>schema/schema.cc\<close>, \<open>storage/metadata.cc\<close>, \<open>analyzer/create_analyzer.cc\<close>,
    \<open>executor/create_executor.cc\<close>): the catalogue and the statements that fill it; what they create is found again.
  \<^item> \<open>Chunk\<close>, \<open>RowLayout\<close>, \<open>Column\<close> (\<open>sql/chunk\<close>), \<open>RcCodec\<close>, \<open>RowTheorems\<close> (\<open>codec/rc_codec.cc\<close>): the memory of rows byte by byte, their encoding.
  \<^item> \<open>TableStore\<close>, \<open>TableInv\<close>, \<open>TableTheorems\<close> (\<open>storage/table.cc\<close>, \<open>storage/index.cc\<close>): tables refine sets of rows with keys.
  \<^item> \<open>Plan\<close> (\<open>sql/plan\<close>), \<open>Executors\<close> (\<open>sql/executor\<close>), \<open>Scheduler\<close> (\<open>sql/scheduler\<close>), \<open>SchedulerTheorems\<close>, \<open>SelectTheorems\<close>,
    \<open>StatementTheorems\<close>: a run of the scheduler is a walk over the plan in post-order; queries print rows, insertions store them.
    \<open>TableGrowth\<close>: the invariant \<open>live_table\<close> of a table of the catalogue, with the descriptor that \<open>CREATE TABLE\<close> writes once and for
    all, which holds of a new table with a key over one column and after every \<open>INSERT\<close>, whatever its key.
  \<^item> \<open>Cascades\<close>, \<open>CascadesTheorems\<close> (\<open>sql/optimizer\<close>): the memo and the tasks of the optimizer, which ends with the physical plan.
  \<^item> \<open>SqlText\<close>, \<open>SqlTextTheorems\<close> (\<open>parser/utils.h\<close>, \<open>parser/expr.h\<close>, \<open>parser/parser.cc\<close>): the text of statements and the literals in it.
    \<open>ArenaVector\<close> (\<open>common/arena.h\<close>, \<open>parser/utils.h\<close>): the vectors of the syntax trees.
  \<^item> \<open>Syntax\<close>, \<open>Printing\<close>, \<open>PrintingTheorems\<close>, \<open>PrintingTypes\<close> (\<open>parser/base.h\<close>, \<open>expr.cc\<close>, \<open>dml.h\<close>): syntax trees and their virtual functions;
    printed samples hide the literals that the flag reaches, and well formed trees print without a fault.
  \<^item> \<open>Analyzers\<close>, \<open>AnalyzerTheorems\<close> (\<open>sql/analyzer\<close>, \<open>main.cc\<close>): analyzers, \<open>run\<close> and \<open>main\<close>; statements from their text to their effect.
    \<open>MainTheorems\<close>: tables from their \<open>CREATE TABLE\<close> on, and \<open>main\<close> as a whole: every run on a directory prints its ten rows.
  \<^item> \<open>Statistics\<close>, \<open>StatisticsTheorems\<close> (\<open>sql/statistics\<close>): histograms and the storage of statistics.

  Fuel and bounds. Loops that nothing in the code bounds take a number of rounds, and running out of it is the fault
  \<open>Diverges\<close>. The optimizer gets it from outside: for every plan made of result sets, filters and scans some number of
  tasks is enough, and every larger one gives the same result (\<open>optimizer_ends\<close>). The other loops get what is enough, and the
  theorems give results that are no faults: the loop over the entries of a stored leaf gets the number of its bytes
  (\<open>load_loop_terminates\<close>), a descent in a tree two rounds more than there are nodes, the walk from leaf to leaf twice as
  many, a page of a scan two rounds for each range and two more, and the printing of rows their number. A page
  of a scan has 1024 entries, as in the code. Theorems on trees are about roots over leaves with keys of at most \<open>max_key_len\<close>
  bytes: with them a root never grows beyond the size at which it would be split (\<open>root_never_splits\<close>), and splitting
  an inner node is undefined in the code (\<open>split_inner_node_undefined\<close>). Theorems on tables are about one primary index over one column. Offsets
  in the records of leaves are natural numbers, where the code has 64-bit words that no record is long enough to wrap.

  Not modelled. The scanner and the grammar (\<open>parser/sql_lex.l\<close>, \<open>sql_parse.y\<close>), from which code is generated, beyond the
  actions that make literals. The trees of statements without an analyzer (\<open>ALTER\<close>, \<open>DROP\<close>, \<open>SET\<close> and the like in \<open>parser/ddl.h\<close>
  and \<open>parser/misc.h\<close>), which are fields only. The debug output of nodes and the log. The command line flags, which are
  arguments. \<open>Resolver\<close> and \<open>plan/rel_opt_rule.cc\<close>, drafts no code calls, and the generators of test data. Time and memory:
  allocation never fails.
\<close>

end
